(* ===== verification/Prelude.thy ===== *)
theory Prelude
  imports Main "HOL-Library.Word" "HOL-Library.List_Lexorder"
begin

section \<open>Strings, bytes, results: what every component shares\<close>

text \<open>
  The vocabulary of the development.  A JavaScript string is the list of its UTF-16 code units
  (type \<open>jsstring\<close>, 16-bit words), a byte buffer a list of 8-bit words.  \<open>js ''abc''\<close> is the
  string literal \<open>"abc"\<close>.  Results that may be errors are sums: \<open>Inl\<close> the error, \<open>Inr\<close> the value.
  The order \<open>\<le>\<close> on strings is the lexicographic order of their code units, which is the default
  order of JavaScript's \<open>sort\<close>.
\<close>

named_theorems js_simps \<open>evaluation of the string literals and string functions\<close>
named_theorems result_simps \<open>case analysis on results\<close>

type_synonym codeunit = "16 word"
type_synonym jsstring = "codeunit list"
type_synonym byte = "8 word"
type_synonym bytes = "byte list"

subsection \<open>Literals\<close>

definition js :: "string \<Rightarrow> jsstring" where
  "js s = map of_char s"

lemma of_char_16_eq [simp]: "(of_char c :: codeunit) = of_char d \<longleftrightarrow> c = d"
proof
  assume h: "(of_char c :: codeunit) = of_char d"
  have lt: "(of_char x :: nat) < 2 ^ LENGTH(16)" for x :: char
    using nat_of_char_less_256 [of x] by (rule order_less_trans) simp
  have un: "unat (of_char x :: codeunit) = of_char x" for x :: char
    using lt [of x] unat_of_nat [of "of_char x :: nat", where 'a = 16]
    by (simp add: of_nat_of_char del: unat_of_nat)
  have "(of_char c :: nat) = of_char d"
    using arg_cong [OF h, of unat] by (simp only: un)
  then show "c = d" by simp
qed simp

lemma js_Nil [simp]: "js [] = []"
  by (simp add: js_def)

lemma js_Cons: "js (c # cs) = of_char c # js cs"
  by (simp add: js_def)

lemma js_eq [simp]: "js s = js t \<longleftrightarrow> s = t"
proof (induction s arbitrary: t)
  case Nil
  then show ?case by (cases t) (simp_all add: js_def)
next
  case (Cons c s)
  then show ?case by (cases t) (simp_all add: js_def)
qed

lemma js_eq_Nil [simp]: "js s = [] \<longleftrightarrow> s = []" "[] = js s \<longleftrightarrow> s = []"
  by (auto simp: js_def)

lemma js_append: "js (s @ t) = js s @ js t"
  by (simp add: js_def)

lemma length_js [simp]: "length (js s) = length s"
  by (simp add: js_def)

lemma list_all_js [js_simps]: "list_all p (js s) = list_all (\<lambda>c. p (of_char c)) s"
  by (simp add: js_def list.pred_map comp_def)

lemma inj_js: "inj js"
  by (simp add: inj_on_def)

subsection \<open>Classes of code units\<close>

definition unit_between :: "char \<Rightarrow> char \<Rightarrow> codeunit \<Rightarrow> bool" where
  "unit_between lo hi u \<longleftrightarrow> of_char lo \<le> u \<and> u \<le> of_char hi"

definition is_digit :: "codeunit \<Rightarrow> bool" where
  "is_digit u \<longleftrightarrow> unit_between (CHR ''0'') (CHR ''9'') u"

definition is_lower :: "codeunit \<Rightarrow> bool" where
  "is_lower u \<longleftrightarrow> unit_between (CHR ''a'') (CHR ''z'') u"

definition is_upper :: "codeunit \<Rightarrow> bool" where
  "is_upper u \<longleftrightarrow> unit_between (CHR ''A'') (CHR ''Z'') u"

definition is_alnum :: "codeunit \<Rightarrow> bool" where
  "is_alnum u \<longleftrightarrow> is_digit u \<or> is_lower u \<or> is_upper u"

definition is_unit :: "char \<Rightarrow> codeunit \<Rightarrow> bool" where
  "is_unit c u \<longleftrightarrow> u = of_char c"

text \<open>White space of \<open>String.prototype.trim\<close>: WhiteSpace and LineTerminator of ECMAScript.\<close>

definition is_space :: "codeunit \<Rightarrow> bool" where
  "is_space u \<longleftrightarrow> (9 \<le> u \<and> u \<le> 13) \<or> u = 32 \<or> u = 160 \<or> u = 0x1680 \<or>
     (0x2000 \<le> u \<and> u \<le> 0x200A) \<or> u = 0x2028 \<or> u = 0x2029 \<or> u = 0x202F \<or> u = 0x205F \<or>
     u = 0x3000 \<or> u = 0xFEFF"

lemmas unit_class_defs =
  unit_between_def is_digit_def is_lower_def is_upper_def is_alnum_def is_unit_def is_space_def

definition js_trim :: "jsstring \<Rightarrow> jsstring" where
  "js_trim s = rev (dropWhile is_space (rev (dropWhile is_space s)))"

lemma js_trim_Nil [simp]: "js_trim [] = []"
  by (simp add: js_trim_def)

lemma length_js_trim: "length (js_trim s) \<le> length s"
  unfolding js_trim_def
  by (metis length_dropWhile_le length_rev order_trans)

lemma js_trim_plain: "\<forall>u \<in> set s. \<not> is_space u \<Longrightarrow> js_trim s = s"
proof -
  assume s: "\<forall>u \<in> set s. \<not> is_space u"
  have d: "\<forall>u \<in> set t. \<not> is_space u \<Longrightarrow> dropWhile is_space t = t" for t by (cases t) auto
  show ?thesis using s by (simp add: js_trim_def d)
qed

lemma js_trim_eq_Nil: "js_trim s = [] \<longleftrightarrow> list_all is_space s"
proof
  assume "js_trim s = []"
  then have d: "\<forall>u \<in> set (dropWhile is_space s). is_space u"
    by (simp add: js_trim_def dropWhile_eq_Nil_conv)
  have "u \<in> set (takeWhile is_space s) \<or> u \<in> set (dropWhile is_space s)" if "u \<in> set s" for u
    using that by (metis Un_iff set_append takeWhile_dropWhile_id)
  then show "list_all is_space s"
    using d by (auto simp: list_all_iff dest: set_takeWhileD)
next
  assume "list_all is_space s"
  then have d: "dropWhile is_space s = []"
    by (simp add: list_all_iff)
  show "js_trim s = []" unfolding js_trim_def d by simp
qed

subsection \<open>Letter case\<close>

text \<open>
  \<open>toLowerCase\<close>, exact on every text it maps to ASCII: the letters A to Z, the Kelvin sign (k) and
  the dotted capital I (i and a combining dot).  Other units, which map outside ASCII, are kept.
\<close>

fun js_lower :: "jsstring \<Rightarrow> jsstring" where
  "js_lower [] = []"
| "js_lower (u # us) =
     (if is_upper u then [u + 32] else if u = 0x212A then [107] else if u = 0x0130 then [105, 0x0307] else [u])
     @ js_lower us"

text \<open>\<open>toUpperCase\<close> of ASCII text, such as an HTTP method.\<close>

definition js_upper :: "jsstring \<Rightarrow> jsstring" where
  "js_upper s = map (\<lambda>u. if is_lower u then u - 32 else u) s"

subsection \<open>Splitting and joining\<close>

text \<open>\<open>s.split(sep)\<close> and \<open>parts.join(sep)\<close> for a separator of one code unit.\<close>

fun js_split :: "codeunit \<Rightarrow> jsstring \<Rightarrow> jsstring list" where
  "js_split sep [] = [[]]"
| "js_split sep (c # cs) =
     (if c = sep then [] # js_split sep cs
      else (case js_split sep cs of [] \<Rightarrow> [[c]] | w # ws \<Rightarrow> (c # w) # ws))"

fun js_join :: "codeunit \<Rightarrow> jsstring list \<Rightarrow> jsstring" where
  "js_join sep [] = []"
| "js_join sep [w] = w"
| "js_join sep (w # v # ws) = w @ sep # js_join sep (v # ws)"

lemma js_split_not_Nil [simp]: "js_split sep s \<noteq> []"
  by (induction s) (auto split: list.splits)

lemma js_join_Cons: "ws \<noteq> [] \<Longrightarrow> js_join sep (w # ws) = w @ sep # js_join sep ws"
  by (cases ws) auto

lemma js_join_consing: "ws \<noteq> [] \<Longrightarrow>
    js_join sep (case ws of [] \<Rightarrow> [[c]] | w # ws' \<Rightarrow> (c # w) # ws') = c # js_join sep ws"
  by (cases ws rule: remdups_adj.cases) auto

lemma js_join_split [simp]: "js_join sep (js_split sep s) = s"
proof (induction s)
  case Nil
  then show ?case by simp
next
  case (Cons c s)
  then show ?case
    by (simp add: js_join_Cons js_join_consing)
qed

lemma js_split_inject [simp]: "js_split sep s = js_split sep t \<longleftrightarrow> s = t"
  by (metis js_join_split)

lemma js_split_parts: "w \<in> set (js_split sep s) \<Longrightarrow> sep \<notin> set w"
  by (induction s arbitrary: w) (auto split: if_splits list.splits)

lemma js_split_single: "sep \<notin> set w \<Longrightarrow> js_split sep w = [w]"
  by (induction w) auto

lemma js_split_append: "js_split sep (u @ sep # v) = js_split sep u @ js_split sep v"
proof (induction u)
  case Nil
  then show ?case by simp
next
  case (Cons c u)
  then show ?case
    by (cases "js_split sep u") (auto split: list.splits)
qed

lemma js_split_join:
  "ws \<noteq> [] \<Longrightarrow> (\<And>w. w \<in> set ws \<Longrightarrow> sep \<notin> set w) \<Longrightarrow> js_split sep (js_join sep ws) = ws"
proof (induction sep ws rule: js_join.induct)
  case (3 sep w v ws)
  have w: "js_split sep w = [w]" using "3.prems"(2) [of w] by (simp add: js_split_single)
  have "js_split sep (js_join sep (v # ws)) = v # ws" using "3.prems"(2) by (intro "3.IH") auto
  then show ?case using w by (simp add: js_split_append)
qed (auto simp: js_split_single)

lemma js_split_sep_unique:
  "u @ sep # v = u' @ sep # v' \<Longrightarrow> sep \<notin> set u \<Longrightarrow> sep \<notin> set u' \<Longrightarrow> u = u' \<and> v = v'"
proof (induction u arbitrary: u')
  case Nil
  then show ?case by (cases u') auto
next
  case (Cons c u)
  then show ?case by (cases u') auto
qed

subsection \<open>Results\<close>

definition is_ok :: "'e + 'a \<Rightarrow> bool" where
  "is_ok r \<longleftrightarrow> \<not> isl r"

lemma is_ok_simps [simp]: "is_ok (Inr x)" "\<not> is_ok (Inl e)"
  by (simp_all add: is_ok_def)

definition res_bind :: "'e + 'a \<Rightarrow> ('a \<Rightarrow> 'e + 'b) \<Rightarrow> 'e + 'b" where
  "res_bind m f = (case m of Inl e \<Rightarrow> Inl e | Inr x \<Rightarrow> f x)"

lemma res_bind_simps [simp, result_simps]:
  "res_bind (Inl e) f = Inl e"
  "res_bind (Inr x) f = f x"
  by (simp_all add: res_bind_def)

lemma res_bind_eq_Inr [result_simps]:
  "res_bind m f = Inr y \<longleftrightarrow> (\<exists>x. m = Inr x \<and> f x = Inr y)"
  by (cases m) simp_all

lemma res_bind_eq_Inl [result_simps]:
  "res_bind m f = Inl e \<longleftrightarrow> m = Inl e \<or> (\<exists>x. m = Inr x \<and> f x = Inl e)"
  by (cases m) simp_all

lemma res_bind_cong [fundef_cong]:
  "m = m' \<Longrightarrow> (\<And>x. m' = Inr x \<Longrightarrow> f x = f' x) \<Longrightarrow> res_bind m f = res_bind m' f'"
  by (cases m') auto

text \<open>A guard: \<open>if (!ok) throw e\<close>.\<close>

definition guard :: "bool \<Rightarrow> 'e \<Rightarrow> 'e + unit" where
  "guard ok e = (if ok then Inr () else Inl e)"

lemma guard_eq [simp, result_simps]:
  "guard b e = Inr u \<longleftrightarrow> b"
  "guard b e = Inl e' \<longleftrightarrow> \<not> b \<and> e' = e"
  by (auto simp: guard_def)

lemma guard_simps [simp]: "guard True e = Inr ()" "guard False e = Inl e"
  by (simp_all add: guard_def)

text \<open>A value that must be there: \<open>if (x === undefined) throw e\<close>.\<close>

definition req :: "'a option \<Rightarrow> 'e \<Rightarrow> 'e + 'a" where
  "req x e = (case x of Some v \<Rightarrow> Inr v | None \<Rightarrow> Inl e)"

lemma req_simps [simp]: "req (Some v) e = Inr v" "req None e = Inl e"
  by (simp_all add: req_def)

lemma req_eq [result_simps]:
  "req x e = Inr v \<longleftrightarrow> x = Some v"
  "req x e = Inl e' \<longleftrightarrow> x = None \<and> e' = e"
  by (auto simp: req_def split: option.splits)

text \<open>A loop over a list that stops at the first error (\<open>forEach\<close> / \<open>map\<close> with a throwing body).\<close>

fun map_res :: "('a \<Rightarrow> 'e + 'b) \<Rightarrow> 'a list \<Rightarrow> 'e + 'b list" where
  "map_res f [] = Inr []"
| "map_res f (x # xs) = res_bind (f x) (\<lambda>y. res_bind (map_res f xs) (\<lambda>ys. Inr (y # ys)))"

lemma map_res_Inr: "map_res f xs = Inr ys \<Longrightarrow> list_all2 (\<lambda>x y. f x = Inr y) xs ys"
  by (induction xs arbitrary: ys) (auto simp: result_simps)

lemma map_res_cong [fundef_cong]:
  "xs = ys \<Longrightarrow> (\<And>x. x \<in> set ys \<Longrightarrow> f x = g x) \<Longrightarrow> map_res f xs = map_res g ys"
proof (induction ys arbitrary: xs)
  case (Cons y ys)
  then have "map_res f ys = map_res g ys" by simp
  with Cons.prems show ?case by simp
qed simp

fun fold_res :: "('a \<Rightarrow> 's \<Rightarrow> 'e + 's) \<Rightarrow> 'a list \<Rightarrow> 's \<Rightarrow> 'e + 's" where
  "fold_res f [] s = Inr s"
| "fold_res f (x # xs) s = res_bind (f x s) (\<lambda>s'. fold_res f xs s')"

lemma fold_res_invariant:
  assumes "fold_res f xs s = Inr s'" "P s" "\<And>x s s'. x \<in> set xs \<Longrightarrow> f x s = Inr s' \<Longrightarrow> P s \<Longrightarrow> P s'"
  shows "P s'"
  using assms by (induction xs arbitrary: s) (auto simp: result_simps)

subsection \<open>Association lists\<close>

lemma map_of_eq_Some_iff_distinct:
  "distinct (map fst xs) \<Longrightarrow> map_of xs k = Some v \<longleftrightarrow> (k, v) \<in> set xs"
  by (induction xs) (auto simp: image_iff)

lemma map_of_sort_key: "distinct (map fst xs) \<Longrightarrow> map_of (sort_key fst xs) = map_of xs"
  by (intro map_of_eqI) (auto simp: map_of_eq_Some_iff_distinct distinct_map inj_on_def
      dest: map_of_SomeD)

end
