(* ===== verification/Js_Value.thy ===== *)
theory Js_Value
  imports Prelude
begin

section \<open>JavaScript numbers and values\<close>

text \<open>
  What the sources use of the language.  A finite number is its decimal value \<open>m / 10 ^ e\<close>: a
  double is identified with its shortest round-trip decimal, which is what ECMAScript prints, so
  \<open>num_text\<close> is \<open>Number::toString\<close> on the digits of \<open>m\<close> and needs no floating point.  Negative
  zero is identified with zero.  A value of type \<open>unknown\<close> is a tree: an object lists its own
  enumerable properties in the order of \<open>Object.keys\<close>, a class instance keeps its constructor's
  name only, and a reference from inside an object or array back to one that encloses it (a cycle)
  is the leaf \<open>VBack\<close>.
\<close>

subsection \<open>Numbers\<close>

datatype jsnum = NaN | Infinite bool | Fin int nat

definition int_num :: "int \<Rightarrow> jsnum" where
  "int_num i = Fin i 0"

fun is_finite :: "jsnum \<Rightarrow> bool" where
  "is_finite (Fin m e) = True"
| "is_finite _ = False"

text \<open>\<open>Number.isInteger\<close> and \<open>Number.isSafeInteger\<close>; \<open>num_int\<close> reads an integral number.\<close>

fun is_integer :: "jsnum \<Rightarrow> bool" where
  "is_integer (Fin m e) \<longleftrightarrow> 10 ^ e dvd m"
| "is_integer _ = False"

fun num_int :: "jsnum \<Rightarrow> int" where
  "num_int (Fin m e) = m div 10 ^ e"
| "num_int _ = 0"

definition MAX_SAFE_INTEGER :: int where
  "MAX_SAFE_INTEGER = 2 ^ 53 - 1"

definition is_safe_integer :: "jsnum \<Rightarrow> bool" where
  "is_safe_integer n \<longleftrightarrow> is_integer n \<and> \<bar>num_int n\<bar> \<le> MAX_SAFE_INTEGER"

text \<open>\<open>Math.floor\<close> and \<open>Math.round\<close> of a finite number; comparisons with an integer.\<close>

fun num_floor :: "jsnum \<Rightarrow> int" where
  "num_floor (Fin m e) = m div 10 ^ e"
| "num_floor _ = 0"

fun num_round :: "jsnum \<Rightarrow> int" where
  "num_round (Fin m e) = (2 * m + 10 ^ e) div (2 * 10 ^ e)"
| "num_round _ = 0"

fun num_le_int :: "jsnum \<Rightarrow> int \<Rightarrow> bool" where
  "num_le_int (Fin m e) i \<longleftrightarrow> m \<le> i * 10 ^ e"
| "num_le_int (Infinite neg) i \<longleftrightarrow> neg"
| "num_le_int NaN i \<longleftrightarrow> False"

fun num_ge_int :: "jsnum \<Rightarrow> int \<Rightarrow> bool" where
  "num_ge_int (Fin m e) i \<longleftrightarrow> i * 10 ^ e \<le> m"
| "num_ge_int (Infinite neg) i \<longleftrightarrow> \<not> neg"
| "num_ge_int NaN i \<longleftrightarrow> False"

lemma int_num_simps [simp]:
  "is_finite (int_num i)" "is_integer (int_num i)" "num_int (int_num i) = i"
  "num_floor (int_num i) = i" "num_le_int (int_num i) j \<longleftrightarrow> i \<le> j" "num_ge_int (int_num i) j \<longleftrightarrow> j \<le> i"
  "int_num i = int_num j \<longleftrightarrow> i = j"
  by (simp_all add: int_num_def)

lemma num_round_int [simp]: "num_round (int_num i) = i"
  by (simp add: int_num_def)

lemma is_integer_is_finite: "is_integer n \<Longrightarrow> is_finite n"
  by (cases n) auto

lemma is_safe_integer_int_num [simp]: "is_safe_integer (int_num i) \<longleftrightarrow> \<bar>i\<bar> \<le> MAX_SAFE_INTEGER"
  by (simp add: is_safe_integer_def)

subsection \<open>Decimal text\<close>

fun dec_digits :: "nat \<Rightarrow> nat list" where
  "dec_digits n = (if n < 10 then [n] else dec_digits (n div 10) @ [n mod 10])"

declare dec_digits.simps [simp del]

definition digit_unit :: "nat \<Rightarrow> codeunit" where
  "digit_unit d = 48 + of_nat d"

definition nat_text :: "nat \<Rightarrow> jsstring" where
  "nat_text n = map digit_unit (dec_digits n)"

definition int_text :: "int \<Rightarrow> jsstring" where
  "int_text i = (if i < 0 then js ''-'' @ nat_text (nat (- i)) else nat_text (nat i))"

text \<open>Trailing zeros: \<open>strip10 n = (s, z)\<close> with \<open>n = s * 10 ^ z\<close> and \<open>s\<close> not divisible by 10.\<close>

fun strip10 :: "nat \<Rightarrow> nat \<times> nat" where
  "strip10 n = (if n \<noteq> 0 \<and> n mod 10 = 0
     then (case strip10 (n div 10) of (s, z) \<Rightarrow> (s, Suc z)) else (n, 0))"

declare strip10.simps [simp del]

text \<open>The layout of \<open>Number::toString\<close>: \<open>k\<close> digits \<open>ds\<close>, the decimal point after the \<open>n\<close>th.\<close>

definition num_layout :: "jsstring \<Rightarrow> int \<Rightarrow> jsstring" where
  "num_layout ds n =
     (let k = int (length ds) in
      if k \<le> n \<and> n \<le> 21 then ds @ replicate (nat (n - k)) (digit_unit 0)
      else if 0 < n \<and> n \<le> 21 then take (nat n) ds @ js ''.'' @ drop (nat n) ds
      else if - 6 < n \<and> n \<le> 0 then js ''0.'' @ replicate (nat (- n)) (digit_unit 0) @ ds
      else take 1 ds @ (if k = 1 then [] else js ''.'' @ drop 1 ds) @
           (if 0 < n then js ''e+'' else js ''e-'') @ nat_text (nat \<bar>n - 1\<bar>))"

fun num_text :: "jsnum \<Rightarrow> jsstring" where
  "num_text NaN = js ''NaN''"
| "num_text (Infinite neg) = (if neg then js ''-Infinity'' else js ''Infinity'')"
| "num_text (Fin m e) =
     (if m = 0 then js ''0''
      else (case strip10 (nat \<bar>m\<bar>) of (s, z) \<Rightarrow>
        (let ds = nat_text s;
             body = num_layout ds (int (length ds) + int z - int e)
         in if m < 0 then js ''-'' @ body else body)))"

text \<open>
  \<open>Number(b)\<close> of a bigint: exact up to \<open>2 ^ 53\<close>, then rounded to 53 bits, ties to even, infinite
  from \<open>2 ^ 1024\<close> on.  \<open>shortest\<close> gives the digits ECMAScript prints for the rounded value: the
  least number of digits that still rounds to it.
\<close>

fun bit_len :: "nat \<Rightarrow> nat" where
  "bit_len n = (if n = 0 then 0 else Suc (bit_len (n div 2)))"

declare bit_len.simps [simp del]

definition round53 :: "nat \<Rightarrow> nat" where
  "round53 n =
     (let b = bit_len n in
      if b \<le> 53 then n
      else (let u = 2 ^ (b - 53); q = n div u; r = n mod u in
        if 2 * r < u \<or> (2 * r = u \<and> even q) then q * u else (q + 1) * u))"

definition shortest :: "nat \<Rightarrow> nat" where
  "shortest v =
     (let L = length (dec_digits v);
          cand = (\<lambda>k. let t = 10 ^ (L - k); c = v div t in
                   (if 2 * (v mod t) \<le> t then c * t else (c + 1) * t))
      in (case find (\<lambda>k. round53 (cand k) = v) [1..<18] of
            None \<Rightarrow> v | Some k \<Rightarrow> cand k))"

definition num_of_bigint :: "int \<Rightarrow> jsnum" where
  "num_of_bigint b =
     (let a = nat \<bar>b\<bar>; v = round53 a in
      if a \<le> 2 ^ 53 then Fin b 0
      else if v \<ge> 2 ^ 1024 then Infinite (b < 0)
      else Fin (if b < 0 then - int (shortest v) else int (shortest v)) 0)"

lemma num_of_bigint_exact: "\<bar>b\<bar> \<le> 2 ^ 53 \<Longrightarrow> num_of_bigint b = int_num b"
proof -
  assume "\<bar>b\<bar> \<le> 2 ^ 53"
  then have "nat \<bar>b\<bar> \<le> nat (2 ^ 53)" by (rule nat_mono)
  then show ?thesis by (simp add: num_of_bigint_def int_num_def Let_def)
qed

subsection \<open>Values\<close>

datatype jsval =
    VUndef
  | VNull
  | VBool bool
  | VNum jsnum
  | VBigInt int
  | VStr jsstring
  | VFun
  | VSym
  | VArr "jsval list"
  | VObj "(jsstring \<times> jsval) list"
  | VInst jsstring
  | VBack

type_synonym fields = "(jsstring \<times> jsval) list"

text \<open>\<open>isPlainObject\<close>: a \<open>{}\<close> literal or a parsed JSON object.\<close>

fun isPlainObject :: "jsval \<Rightarrow> bool" where
  "isPlainObject (VObj _) = True"
| "isPlainObject _ = False"

text \<open>What a \<open>typeof\<close> or \<open>Array.isArray\<close> test lets through.\<close>

definition str_of :: "jsval \<Rightarrow> jsstring option" where
  "str_of v = (case v of VStr s \<Rightarrow> Some s | _ \<Rightarrow> None)"

definition bool_of :: "jsval \<Rightarrow> bool option" where
  "bool_of v = (case v of VBool b \<Rightarrow> Some b | _ \<Rightarrow> None)"

definition arr_of :: "jsval \<Rightarrow> jsval list option" where
  "arr_of v = (case v of VArr xs \<Rightarrow> Some xs | _ \<Rightarrow> None)"

definition obj_of :: "jsval \<Rightarrow> fields option" where
  "obj_of v = (case v of VObj fs \<Rightarrow> Some fs | _ \<Rightarrow> None)"

definition num_of :: "jsval \<Rightarrow> jsnum option" where
  "num_of v = (case v of VNum n \<Rightarrow> Some n | _ \<Rightarrow> None)"

lemma of_simps [simp]:
  "str_of (VStr s) = Some s" "bool_of (VBool b) = Some b" "arr_of (VArr xs) = Some xs"
  "obj_of (VObj fs) = Some fs" "num_of (VNum n) = Some n"
  by (simp_all add: str_of_def bool_of_def arr_of_def obj_of_def num_of_def)

lemma of_eq_Some [simp]:
  "str_of v = Some s \<longleftrightarrow> v = VStr s" "bool_of v = Some b \<longleftrightarrow> v = VBool b" "arr_of v = Some xs \<longleftrightarrow> v = VArr xs"
  "obj_of v = Some fs \<longleftrightarrow> v = VObj fs" "num_of v = Some n \<longleftrightarrow> v = VNum n"
  by (cases v; simp add: str_of_def bool_of_def arr_of_def obj_of_def num_of_def)+

text \<open>\<open>v === i\<close> for a whole number \<open>i\<close>; \<open>Number.isSafeInteger(v)\<close> and \<open>Number.isInteger(v)\<close>, as the integer.\<close>

definition is_num :: "jsval \<Rightarrow> int \<Rightarrow> bool" where
  "is_num v i \<longleftrightarrow> (case v of VNum n \<Rightarrow> is_integer n \<and> num_int n = i | _ \<Rightarrow> False)"

definition safe_int :: "jsval \<Rightarrow> int option" where
  "safe_int v = (case v of VNum n \<Rightarrow> if is_safe_integer n then Some (num_int n) else None | _ \<Rightarrow> None)"

definition whole_int :: "jsval \<Rightarrow> int option" where
  "whole_int v = (case v of VNum n \<Rightarrow> if is_integer n then Some (num_int n) else None | _ \<Rightarrow> None)"

lemma safe_int_bound: "safe_int v = Some i \<Longrightarrow> \<bar>i\<bar> \<le> MAX_SAFE_INTEGER"
  by (cases v) (auto simp: safe_int_def is_safe_integer_def split: if_splits)

text \<open>
  Reading a property: the own property, else what every object inherits from \<open>Object.prototype\<close>
  (its methods, and \<open>__proto__\<close>, which reads as an object without own enumerable properties), else
  \<open>undefined\<close>.
\<close>

definition PROTOTYPE_NAMES :: "jsstring list" where
  "PROTOTYPE_NAMES = map js
     [''constructor'', ''__defineGetter__'', ''__defineSetter__'', ''hasOwnProperty'',
      ''__lookupGetter__'', ''__lookupSetter__'', ''isPrototypeOf'', ''propertyIsEnumerable'',
      ''toString'', ''valueOf'', ''toLocaleString'']"

definition inherited :: "jsstring \<Rightarrow> jsval" where
  "inherited k =
     (if k \<in> set PROTOTYPE_NAMES then VFun else if k = js ''__proto__'' then VObj [] else VUndef)"

definition jget :: "fields \<Rightarrow> jsstring \<Rightarrow> jsval" where
  "jget ob k = (case map_of ob k of Some v \<Rightarrow> v | None \<Rightarrow> inherited k)"

definition own_keys :: "fields \<Rightarrow> jsstring list" where
  "own_keys ob = map fst ob"

text \<open>\<open>key in ob\<close>.\<close>

definition jhas :: "fields \<Rightarrow> jsstring \<Rightarrow> bool" where
  "jhas ob k \<longleftrightarrow> k \<in> set (own_keys ob) \<or> inherited k \<noteq> VUndef"

text \<open>\<open>v ?? w\<close>.\<close>

definition nullish :: "jsval \<Rightarrow> bool" where
  "nullish v \<longleftrightarrow> v = VUndef \<or> v = VNull"

definition or_else :: "jsval \<Rightarrow> jsval \<Rightarrow> jsval" where
  "or_else v w = (if nullish v then w else v)"

lemma jget_own: "map_of ob k = Some v \<Longrightarrow> jget ob k = v"
  by (simp add: jget_def)

lemma jget_Cons [simp]: "jget ((k, v) # ob) k' = (if k = k' then v else jget ob k')"
  by (simp add: jget_def)

lemma jget_Nil [simp]: "jget [] k = inherited k"
  by (simp add: jget_def)

lemma inherited_js: "inherited (js s) =
   (if s \<in> set [''constructor'', ''__defineGetter__'', ''__defineSetter__'', ''hasOwnProperty'',
      ''__lookupGetter__'', ''__lookupSetter__'', ''isPrototypeOf'', ''propertyIsEnumerable'',
      ''toString'', ''valueOf'', ''toLocaleString''] then VFun
    else if s = ''__proto__'' then VObj [] else VUndef)"
  by (simp add: inherited_def PROTOTYPE_NAMES_def)

text \<open>Plain JSON: what \<open>JSON.parse\<close> can return.\<close>

fun is_json :: "jsval \<Rightarrow> bool" where
  "is_json VNull = True"
| "is_json (VBool b) = True"
| "is_json (VNum n) = is_finite n"
| "is_json (VStr s) = True"
| "is_json (VArr xs) = list_all is_json xs"
| "is_json (VObj fs) = (distinct (map fst fs) \<and> list_all (\<lambda>(k, v). is_json v) fs)"
| "is_json _ = False"

text \<open>Nesting: how many arrays and objects enclose the innermost value.\<close>

fun nesting :: "jsval \<Rightarrow> nat" where
  "nesting (VArr xs) = Suc (foldr (\<lambda>x m. max (nesting x) m) xs 0)"
| "nesting (VObj fs) = Suc (foldr (\<lambda>(k, x) m. max (nesting x) m) fs 0)"
| "nesting _ = 0"

subsection \<open>Surrogates\<close>

definition is_high :: "codeunit \<Rightarrow> bool" where
  "is_high u \<longleftrightarrow> 0xD800 \<le> u \<and> u \<le> 0xDBFF"

definition is_low :: "codeunit \<Rightarrow> bool" where
  "is_low u \<longleftrightarrow> 0xDC00 \<le> u \<and> u \<le> 0xDFFF"

lemma not_high_low: "is_high u \<Longrightarrow> \<not> is_low u"
proof
  assume "is_high u" "is_low u"
  then have "u \<le> 0xDBFF" "(0xDC00 :: codeunit) \<le> u" by (simp_all add: is_high_def is_low_def)
  then have "(0xDC00 :: codeunit) \<le> 0xDBFF" by (rule order_trans [rotated])
  then show False by simp
qed

end
