(* ===== verification/Bridge_Errors.thy ===== *)
theory Bridge_Errors
  imports Js_Value
begin

section \<open>Errors of the server bridge (server-node/src/errors.ts)\<close>

text \<open>
  The error codes, their names on the wire, the HTTP status the page channel answers each with, and
  the reading of a code reported by the visitor's side.  An error value keeps its code, the path of
  the field its message names, and its structured details; the message texts are not modelled (the
  sources tell callers to branch on the code only).
\<close>

datatype code =
    WRIT_REQUIRED | USER_OFFLINE | RESULT_UNVERIFIED | CLOUD_NOT_CONFIGURED | CLOUD_UNAVAILABLE
  | QUOTA_EXCEEDED | CONFIG_INVALID
  | NOT_INSTALLED | DESKTOP_MISSING | DESKTOP_OUTDATED | DAEMON_UNAVAILABLE | VAULT_LOCKED
  | CONSENT_DENIED | NOT_GRANTED | GRANT_STALE | WRITE_NEEDS_CONFIRM | INPUT_INVALID | RATE_LIMITED
  | LAN_NOT_ALLOWED | RUN_FAILED | CANCELLED | TIMEOUT | RESULT_TOO_LARGE | BAD_REQUEST
  | ORIGIN_NOT_ALLOWED | INTERNAL | RECIPE_UNAVAILABLE | PUBLICATION_REVOKED

definition WRIT_BRIDGE_ERROR_CODES :: "code list" where
  "WRIT_BRIDGE_ERROR_CODES =
     [WRIT_REQUIRED, USER_OFFLINE, RESULT_UNVERIFIED, CLOUD_NOT_CONFIGURED, CLOUD_UNAVAILABLE,
      QUOTA_EXCEEDED, CONFIG_INVALID,
      NOT_INSTALLED, DESKTOP_MISSING, DESKTOP_OUTDATED, DAEMON_UNAVAILABLE, VAULT_LOCKED,
      CONSENT_DENIED, NOT_GRANTED, GRANT_STALE, WRITE_NEEDS_CONFIRM, INPUT_INVALID, RATE_LIMITED,
      LAN_NOT_ALLOWED, RUN_FAILED, CANCELLED, TIMEOUT, RESULT_TOO_LARGE, BAD_REQUEST,
      ORIGIN_NOT_ALLOWED, INTERNAL, RECIPE_UNAVAILABLE, PUBLICATION_REVOKED]"

fun code_name :: "code \<Rightarrow> string" where
  "code_name WRIT_REQUIRED = ''WRIT_REQUIRED''"
| "code_name USER_OFFLINE = ''USER_OFFLINE''"
| "code_name RESULT_UNVERIFIED = ''RESULT_UNVERIFIED''"
| "code_name CLOUD_NOT_CONFIGURED = ''CLOUD_NOT_CONFIGURED''"
| "code_name CLOUD_UNAVAILABLE = ''CLOUD_UNAVAILABLE''"
| "code_name QUOTA_EXCEEDED = ''QUOTA_EXCEEDED''"
| "code_name CONFIG_INVALID = ''CONFIG_INVALID''"
| "code_name NOT_INSTALLED = ''NOT_INSTALLED''"
| "code_name DESKTOP_MISSING = ''DESKTOP_MISSING''"
| "code_name DESKTOP_OUTDATED = ''DESKTOP_OUTDATED''"
| "code_name DAEMON_UNAVAILABLE = ''DAEMON_UNAVAILABLE''"
| "code_name VAULT_LOCKED = ''VAULT_LOCKED''"
| "code_name CONSENT_DENIED = ''CONSENT_DENIED''"
| "code_name NOT_GRANTED = ''NOT_GRANTED''"
| "code_name GRANT_STALE = ''GRANT_STALE''"
| "code_name WRITE_NEEDS_CONFIRM = ''WRITE_NEEDS_CONFIRM''"
| "code_name INPUT_INVALID = ''INPUT_INVALID''"
| "code_name RATE_LIMITED = ''RATE_LIMITED''"
| "code_name LAN_NOT_ALLOWED = ''LAN_NOT_ALLOWED''"
| "code_name RUN_FAILED = ''RUN_FAILED''"
| "code_name CANCELLED = ''CANCELLED''"
| "code_name TIMEOUT = ''TIMEOUT''"
| "code_name RESULT_TOO_LARGE = ''RESULT_TOO_LARGE''"
| "code_name BAD_REQUEST = ''BAD_REQUEST''"
| "code_name ORIGIN_NOT_ALLOWED = ''ORIGIN_NOT_ALLOWED''"
| "code_name INTERNAL = ''INTERNAL''"
| "code_name RECIPE_UNAVAILABLE = ''RECIPE_UNAVAILABLE''"
| "code_name PUBLICATION_REVOKED = ''PUBLICATION_REVOKED''"

text \<open>The code a string names, if it is one (\<open>CODE_SET.has\<close>).\<close>

definition code_of_name :: "jsstring \<Rightarrow> code option" where
  "code_of_name s = find (\<lambda>c. js (code_name c) = s) WRIT_BRIDGE_ERROR_CODES"

definition isWritBridgeErrorCode :: "jsval \<Rightarrow> bool" where
  "isWritBridgeErrorCode v = (case v of VStr s \<Rightarrow> code_of_name s \<noteq> None | _ \<Rightarrow> False)"

fun HTTP_STATUS :: "code \<Rightarrow> nat option" where
  "HTTP_STATUS BAD_REQUEST = Some 400"
| "HTTP_STATUS INPUT_INVALID = Some 400"
| "HTTP_STATUS QUOTA_EXCEEDED = Some 402"
| "HTTP_STATUS NOT_GRANTED = Some 403"
| "HTTP_STATUS WRIT_REQUIRED = Some 403"
| "HTTP_STATUS RATE_LIMITED = Some 429"
| "HTTP_STATUS RUN_FAILED = Some 502"
| "HTTP_STATUS CLOUD_UNAVAILABLE = Some 503"
| "HTTP_STATUS CLOUD_NOT_CONFIGURED = Some 503"
| "HTTP_STATUS CONFIG_INVALID = Some 503"
| "HTTP_STATUS TIMEOUT = Some 504"
| "HTTP_STATUS _ = None"

definition httpStatusOf :: "code \<Rightarrow> nat" where
  "httpStatusOf c = (case HTTP_STATUS c of Some n \<Rightarrow> n | None \<Rightarrow> 500)"

text \<open>A code reported by the visitor's side: known, the host's old spelling, or \<open>INTERNAL\<close>.\<close>

definition normalizeVisitorCode :: "jsstring \<Rightarrow> code" where
  "normalizeVisitorCode s =
     (case code_of_name s of
        Some c \<Rightarrow> c
      | None \<Rightarrow> if s = js ''PROTOCOL_MISMATCH'' then DESKTOP_OUTDATED else INTERNAL)"

subsection \<open>Error values\<close>

datatype seg = Key jsstring | Idx nat

type_synonym path = "seg list"

datatype bridge_error = BridgeError (err_code: code) (err_path: path) (err_details: fields)

definition err :: "code \<Rightarrow> bridge_error" where
  "err c = BridgeError c [] []"

definition err_at :: "code \<Rightarrow> path \<Rightarrow> bridge_error" where
  "err_at c p = BridgeError c p []"

lemma err_simps [simp]:
  "err_code (err c) = c" "err_code (err_at c p) = c" "err_path (err_at c p) = p"
  "err_details (err c) = []" "err_details (err_at c p) = []" "err_path (err c) = []"
  by (simp_all add: err_def err_at_def)

subsection \<open>Lemmas\<close>

lemma code_in_codes: "c \<in> set WRIT_BRIDGE_ERROR_CODES"
  by (cases c) (simp_all add: WRIT_BRIDGE_ERROR_CODES_def)

lemma distinct_code_names: "distinct (map code_name WRIT_BRIDGE_ERROR_CODES)"
  by (simp add: WRIT_BRIDGE_ERROR_CODES_def)

lemma code_name_inject [simp]: "code_name c = code_name d \<longleftrightarrow> c = d"
  using distinct_code_names code_in_codes [of c] code_in_codes [of d]
  by (auto simp: distinct_map dest: inj_onD)

lemma code_of_name_Some: "code_of_name s = Some c \<longleftrightarrow> s = js (code_name c)"
proof
  assume "code_of_name s = Some c"
  then show "s = js (code_name c)" by (auto simp: code_of_name_def find_Some_iff)
next
  assume s: "s = js (code_name c)"
  have "find (\<lambda>d. js (code_name d) = s) WRIT_BRIDGE_ERROR_CODES \<noteq> None"
    using code_in_codes [of c] s by (auto simp: find_None_iff)
  then obtain d where d: "find (\<lambda>d. js (code_name d) = s) WRIT_BRIDGE_ERROR_CODES = Some d"
    by auto
  then have "js (code_name d) = s" by (auto simp: find_Some_iff)
  with s d show "code_of_name s = Some c" by (simp add: code_of_name_def)
qed

lemma code_of_name_round_trip [simp]: "code_of_name (js (code_name c)) = Some c"
  by (simp add: code_of_name_Some)

lemma normalizeVisitorCode_name [simp]: "normalizeVisitorCode (js (code_name c)) = c"
  by (simp add: normalizeVisitorCode_def)

lemma httpStatusOf_range: "400 \<le> httpStatusOf c \<and> httpStatusOf c \<le> 504"
  by (cases c) (simp_all add: httpStatusOf_def)

end
