(* ===== verification/Bridge_Json.thy ===== *)
theory Bridge_Json
  imports Bridge_Errors
begin

section \<open>Plain-JSON copies (server-node/src/json.ts)\<close>

text \<open>
  \<open>cloneJson\<close> copies a value as plain JSON, or names the path of the first value JSON cannot
  carry.  \<open>None\<close> is the marker \<open>DROP\<close> of an \<open>undefined\<close> value.  A cycle is a value \<open>VBack\<close>, so the
  test of the enclosing objects is the case \<open>VBack\<close>, made after the test of the depth as in the
  source.  \<open>deepFreeze\<close> returns its argument and values here are immutable, so it is the identity.
\<close>

definition inputInvalid :: "path \<Rightarrow> bridge_error" where
  "inputInvalid p = err_at INPUT_INVALID p"

fun cloneJson :: "jsval \<Rightarrow> path \<Rightarrow> nat \<Rightarrow> nat \<Rightarrow> bridge_error + jsval option"
  and cloneElems :: "jsval list \<Rightarrow> path \<Rightarrow> nat \<Rightarrow> nat \<Rightarrow> nat \<Rightarrow> bridge_error + jsval list"
  and cloneFields :: "fields \<Rightarrow> path \<Rightarrow> nat \<Rightarrow> nat \<Rightarrow> bridge_error + fields"
where
  "cloneJson (VStr s) p d md = Inr (Some (VStr s))"
| "cloneJson (VBool b) p d md = Inr (Some (VBool b))"
| "cloneJson (VNum n) p d md =
     (if \<not> is_finite n then Inl (inputInvalid p) else Inr (Some (VNum n)))"
| "cloneJson VUndef p d md = Inr None"
| "cloneJson (VBigInt i) p d md = Inl (inputInvalid p)"
| "cloneJson VFun p d md = Inl (inputInvalid p)"
| "cloneJson VSym p d md = Inl (inputInvalid p)"
| "cloneJson VNull p d md = Inr (Some VNull)"
| "cloneJson VBack p d md = Inl (inputInvalid p)"
| "cloneJson (VInst c) p d md = Inl (inputInvalid p)"
| "cloneJson (VArr xs) p d md =
     (if d \<ge> md then Inl (inputInvalid p)
      else res_bind (cloneElems xs p 0 (Suc d) md) (\<lambda>ys. Inr (Some (VArr ys))))"
| "cloneJson (VObj fs) p d md =
     (if d \<ge> md then Inl (inputInvalid p)
      else res_bind (cloneFields fs p (Suc d) md) (\<lambda>gs. Inr (Some (VObj gs))))"
| "cloneElems [] p i d md = Inr []"
| "cloneElems (x # xs) p i d md =
     res_bind (cloneJson x (p @ [Idx i]) d md) (\<lambda>r.
       case r of
         None \<Rightarrow> Inl (inputInvalid (p @ [Idx i]))
       | Some y \<Rightarrow> res_bind (cloneElems xs p (Suc i) d md) (\<lambda>ys. Inr (y # ys)))"
| "cloneFields [] p d md = Inr []"
| "cloneFields ((k, x) # fs) p d md =
     res_bind (cloneJson x (p @ [Key k]) d md) (\<lambda>r.
       case r of
         None \<Rightarrow> cloneFields fs p d md
       | Some y \<Rightarrow> res_bind (cloneFields fs p d md) (\<lambda>gs. Inr ((k, y) # gs)))"

definition cloneJsonValue :: "jsval \<Rightarrow> path \<Rightarrow> nat \<Rightarrow> bridge_error + jsval" where
  "cloneJsonValue v p md =
     res_bind (cloneJson v p 0 md) (\<lambda>r.
       case r of None \<Rightarrow> Inl (inputInvalid p) | Some y \<Rightarrow> Inr y)"

subsection \<open>Well-formed values and what JSON can carry\<close>

text \<open>An object's own property names are distinct.\<close>

fun wf_val :: "jsval \<Rightarrow> bool" where
  "wf_val (VArr xs) = list_all wf_val xs"
| "wf_val (VObj fs) = (distinct (map fst fs) \<and> list_all (\<lambda>(k, v). wf_val v) fs)"
| "wf_val _ = True"

text \<open>A value the copy refuses on its own, whatever it holds.\<close>

fun offending :: "jsval \<Rightarrow> bool" where
  "offending (VNum n) = (\<not> is_finite n)"
| "offending (VBigInt i) = True"
| "offending VFun = True"
| "offending VSym = True"
| "offending VBack = True"
| "offending (VInst c) = True"
| "offending _ = False"

fun is_container :: "jsval \<Rightarrow> bool" where
  "is_container (VArr xs) = True"
| "is_container (VObj fs) = True"
| "is_container _ = False"

text \<open>The part of a value at a path.\<close>

fun value_at :: "jsval \<Rightarrow> path \<Rightarrow> jsval option" where
  "value_at v [] = Some v"
| "value_at (VArr xs) (Idx i # p) = (if i < length xs then value_at (xs ! i) p else None)"
| "value_at (VObj fs) (Key k # p) = (case map_of fs k of Some v \<Rightarrow> value_at v p | None \<Rightarrow> None)"
| "value_at _ _ = None"

text \<open>What the copy must be: \<open>undefined\<close> properties dropped, nothing else changed.\<close>

fun json_part :: "jsval \<Rightarrow> jsval" where
  "json_part (VArr xs) = VArr (map json_part xs)"
| "json_part (VObj fs) =
     VObj (map (\<lambda>(k, v). (k, json_part v)) (filter (\<lambda>(k, v). v \<noteq> VUndef) fs))"
| "json_part v = v"

text \<open>Values the copy accepts at depth \<open>d\<close>.\<close>

fun cloneable :: "nat \<Rightarrow> jsval \<Rightarrow> bool" where
  "cloneable d (VArr xs) = (d > 0 \<and> list_all (\<lambda>x. x \<noteq> VUndef \<and> cloneable (d - 1) x) xs)"
| "cloneable d (VObj fs) = (d > 0 \<and> list_all (\<lambda>(k, v). cloneable (d - 1) v) fs)"
| "cloneable d v = (\<not> offending v)"

lemma cloneJson_spec:
  "(\<exists>r. cloneJson v p d md = Inr r) \<longleftrightarrow> cloneable (md - d) v"
  "(\<exists>ys. cloneElems xs p i d md = Inr ys) \<longleftrightarrow> list_all (\<lambda>x. x \<noteq> VUndef \<and> cloneable (md - d) x) xs"
  "(\<exists>gs. cloneFields fs p d md = Inr gs) \<longleftrightarrow> list_all (\<lambda>(k, v). cloneable (md - d) v) fs"
proof (induction v p d md and xs p i d md and fs p d md
    rule: cloneJson_cloneElems_cloneFields.induct)
  case (14 x xs p i d md)
  have none: "cloneJson x (p @ [Idx i]) d md = Inr None \<longleftrightarrow> x = VUndef"
    by (cases x) (auto simp: result_simps)
  show ?case
  proof (cases "cloneJson x (p @ [Idx i]) d md")
    case (Inl e)
    then show ?thesis using "14.IH"(1) by auto
  next
    case (Inr r)
    show ?thesis
    proof (cases r)
      case None
      then show ?thesis using Inr none by simp
    next
      case (Some y)
      then show ?thesis
        using Inr none "14.IH"(1) "14.IH"(2) [OF Inr Some] by (auto simp: result_simps)
    qed
  qed
next
  case (16 k x fs p d md)
  show ?case
  proof (cases "cloneJson x (p @ [Key k]) d md")
    case (Inl e)
    then show ?thesis using "16.IH"(1) by auto
  next
    case (Inr r)
    then show ?thesis
      using "16.IH" by (cases r) (auto simp: result_simps)
  qed
qed (auto simp: result_simps Suc_diff_Suc)

lemma cloneJson_result:
  "cloneJson v p d md = Inr r \<Longrightarrow> r = (if v = VUndef then None else Some (json_part v))"
  "cloneElems xs p i d md = Inr ys \<Longrightarrow> ys = map json_part xs"
  "cloneFields fs p d md = Inr gs \<Longrightarrow>
     gs = map (\<lambda>(k, v). (k, json_part v)) (filter (\<lambda>(k, v). v \<noteq> VUndef) fs)"
proof (induction v p d md and xs p i d md and fs p d md arbitrary: r and ys and gs
    rule: cloneJson_cloneElems_cloneFields.induct)
  case (14 x xs p i d md)
  then show ?case by (auto simp: result_simps split: option.splits if_splits)
next
  case (16 k x fs p d md)
  then show ?case by (auto simp: result_simps split: option.splits if_splits)
qed (auto simp: result_simps split: if_splits)

lemma cloneable_is_json: "cloneable d v \<Longrightarrow> wf_val v \<Longrightarrow> v \<noteq> VUndef \<Longrightarrow> is_json (json_part v)"
proof (induction d v rule: cloneable.induct)
  case (2 d fs)
  have "distinct (map fst (map (\<lambda>(k, v). (k, json_part v)) (filter (\<lambda>(k, v). v \<noteq> VUndef) fs)))"
    using "2.prems" by (simp add: comp_def case_prod_unfold distinct_map inj_on_filter_key_eq)
      (auto simp: inj_on_def)
  then show ?case using 2 by (fastforce simp: list_all_iff)
qed (auto simp: list_all_iff)

lemma foldr_max_le: "foldr (\<lambda>x m. max (f x) m) xs 0 \<le> (n::nat) \<longleftrightarrow> (\<forall>x \<in> set xs. f x \<le> n)"
  by (induction xs) auto

lemma nesting_simps:
  "nesting (VArr xs) \<le> Suc n \<longleftrightarrow> (\<forall>x \<in> set xs. nesting x \<le> n)"
  "nesting (VObj fs) \<le> Suc n \<longleftrightarrow> (\<forall>(k, x) \<in> set fs. nesting x \<le> n)"
  using foldr_max_le [of nesting xs n] foldr_max_le [of "\<lambda>(k, x). nesting x" fs n]
  by (simp_all add: case_prod_unfold)

lemma cloneable_nesting: "cloneable d v \<Longrightarrow> nesting (json_part v) \<le> d"
proof (induction d v rule: cloneable.induct)
  case (1 d xs)
  then obtain n where n: "d = Suc n" by (cases d) auto
  with 1 show ?case by (simp add: nesting_simps list_all_iff del: nesting.simps)
next
  case (2 d fs)
  then obtain n where n: "d = Suc n" by (cases d) auto
  with 2 show ?case by (fastforce simp: nesting_simps list_all_iff simp del: nesting.simps)
qed auto

lemma is_json_cloneable: "is_json v \<Longrightarrow> nesting v \<le> d \<Longrightarrow> cloneable d v"
proof (induction d v rule: cloneable.induct)
  case (1 d xs)
  then obtain n where n: "d = Suc n" by (cases d) auto
  with 1 show ?case by (fastforce simp: nesting_simps list_all_iff simp del: nesting.simps)
next
  case (2 d fs)
  then obtain n where n: "d = Suc n" by (cases d) auto
  with 2 show ?case by (fastforce simp: nesting_simps list_all_iff simp del: nesting.simps)
qed auto

lemma json_part_id: "is_json v \<Longrightarrow> json_part v = v"
proof (induction v rule: json_part.induct)
  case (1 xs)
  then show ?case by (simp add: list_all_iff map_idI)
next
  case (2 fs)
  have "filter (\<lambda>(k, v). v \<noteq> VUndef) fs = fs"
    using "2.prems" by (intro filter_True) (fastforce simp: list_all_iff)
  moreover have "map (\<lambda>(k, v). (k, json_part v)) fs = fs"
    using 2 by (intro map_idI) (fastforce simp: list_all_iff)
  ultimately show ?case by simp
qed auto

lemma cloneJsonValue_Inr:
  "cloneJsonValue v p md = Inr w \<longleftrightarrow> cloneable md v \<and> v \<noteq> VUndef \<and> w = json_part v"
  unfolding cloneJsonValue_def
  using cloneJson_spec(1) [of v p 0 md] cloneJson_result(1) [of v p 0 md]
  by (auto simp: result_simps split: option.splits if_splits)

lemma cloneJsonValue_is_json:
  "cloneJsonValue v p md = Inr w \<Longrightarrow> wf_val v \<Longrightarrow> is_json w \<and> nesting w \<le> md"
  by (auto simp: cloneJsonValue_Inr cloneable_is_json cloneable_nesting)

lemma cloneJsonValue_id: "is_json v \<Longrightarrow> nesting v \<le> md \<Longrightarrow> cloneJsonValue v p md = Inr v"
  by (auto simp: cloneJsonValue_Inr is_json_cloneable json_part_id)

text \<open>The path of an error leads to a value that is refused, or nested too deep, or \<open>undefined\<close>.\<close>

lemma value_at_append:
  "value_at v p = Some w \<Longrightarrow> value_at v (p @ q) = value_at w q"
  by (induction v p rule: value_at.induct) (auto split: if_splits option.splits)

lemma cloneJson_error:
  "cloneJson v p d md = Inl e \<Longrightarrow> wf_val v \<Longrightarrow>
     \<exists>q w. e = inputInvalid (p @ q) \<and> value_at v q = Some w \<and>
       (offending w \<or> w = VUndef \<or> (is_container w \<and> length q \<ge> md - d))"
  "cloneElems xs p i d md = Inl e \<Longrightarrow> list_all wf_val xs \<Longrightarrow>
     \<exists>j q w. e = inputInvalid (p @ Idx (i + j) # q) \<and> j < length xs \<and> value_at (xs ! j) q = Some w \<and>
       (offending w \<or> w = VUndef \<or> (is_container w \<and> length q \<ge> md - d))"
  "cloneFields fs p d md = Inl e \<Longrightarrow> list_all (\<lambda>(k, v). wf_val v) fs \<Longrightarrow> distinct (map fst fs) \<Longrightarrow>
     \<exists>k v q w. e = inputInvalid (p @ Key k # q) \<and> map_of fs k = Some v \<and> value_at v q = Some w \<and>
       (offending w \<or> w = VUndef \<or> (is_container w \<and> length q \<ge> md - d))"
proof (induction v p d md and xs p i d md and fs p d md arbitrary: e and e and e
    rule: cloneJson_cloneElems_cloneFields.induct)
  case (11 xs p d md)
  show ?case
  proof (cases "d \<ge> md")
    case True
    with 11 show ?thesis by (intro exI [of _ "[]"]) auto
  next
    case False
    with "11.prems" have "cloneElems xs p 0 (Suc d) md = Inl e" by (auto simp: result_simps)
    from "11.IH" [OF False this] "11.prems" obtain j q w where
      "e = inputInvalid (p @ Idx j # q)" "j < length xs" "value_at (xs ! j) q = Some w"
      "offending w \<or> w = VUndef \<or> is_container w \<and> length q \<ge> md - Suc d" by auto
    then show ?thesis by (intro exI [of _ "Idx j # q"] exI [of _ w]) auto
  qed
next
  case (12 fs p d md)
  show ?case
  proof (cases "d \<ge> md")
    case True
    with 12 show ?thesis by (intro exI [of _ "[]"]) auto
  next
    case False
    with "12.prems" have "cloneFields fs p (Suc d) md = Inl e" by (auto simp: result_simps)
    from "12.IH" [OF False this] "12.prems" obtain k v q w where
      "e = inputInvalid (p @ Key k # q)" "map_of fs k = Some v" "value_at v q = Some w"
      "offending w \<or> w = VUndef \<or> is_container w \<and> length q \<ge> md - Suc d" by auto
    then show ?thesis by (intro exI [of _ "Key k # q"] exI [of _ w]) auto
  qed
next
  case (14 x xs p i d md)
  show ?case
  proof (cases "cloneJson x (p @ [Idx i]) d md")
    case (Inl e')
    with "14.prems" have "e' = e" by simp
    with "14.IH"(1) [of e] Inl "14.prems" obtain q w where
      "e = inputInvalid (p @ Idx i # q)" "value_at x q = Some w"
      "offending w \<or> w = VUndef \<or> is_container w \<and> length q \<ge> md - d" by auto
    then show ?thesis by (intro exI [of _ 0] exI [of _ q] exI [of _ w]) auto
  next
    case (Inr r)
    show ?thesis
    proof (cases r)
      case None
      then have "x = VUndef" using cloneJson_result(1) [OF Inr] by (auto split: if_splits)
      with None Inr "14.prems" show ?thesis
        by (intro exI [of _ 0] exI [of _ "[]"] exI [of _ VUndef]) auto
    next
      case (Some y)
      with Inr "14.prems" have "cloneElems xs p (Suc i) d md = Inl e" by (auto simp: result_simps)
      from "14.IH"(2) [OF Inr Some this] "14.prems" obtain j q w where
        "e = inputInvalid (p @ Idx (Suc i + j) # q)" "j < length xs" "value_at (xs ! j) q = Some w"
        "offending w \<or> w = VUndef \<or> is_container w \<and> length q \<ge> md - d" by auto
      then show ?thesis by (intro exI [of _ "Suc j"] exI [of _ q] exI [of _ w]) auto
    qed
  qed
next
  case (16 k x fs p d md)
  show ?case
  proof (cases "cloneJson x (p @ [Key k]) d md")
    case (Inl e')
    with "16.prems" have "e' = e" by simp
    with "16.IH"(1) [of e] Inl "16.prems" obtain q w where
      "e = inputInvalid (p @ Key k # q)" "value_at x q = Some w"
      "offending w \<or> w = VUndef \<or> is_container w \<and> length q \<ge> md - d" by auto
    then show ?thesis by (intro exI [of _ k] exI [of _ x] exI [of _ q] exI [of _ w]) auto
  next
    case (Inr r)
    with "16.prems" have fe: "cloneFields fs p d md = Inl e"
      by (cases r) (auto simp: result_simps)
    have "\<exists>k' v q w. e = inputInvalid (p @ Key k' # q) \<and> map_of fs k' = Some v \<and>
        value_at v q = Some w \<and> (offending w \<or> w = VUndef \<or> (is_container w \<and> length q \<ge> md - d))"
      using "16.IH"(2,3) [of r] Inr fe "16.prems" by (cases r) auto
    then obtain k' v q w where *: "e = inputInvalid (p @ Key k' # q)" "map_of fs k' = Some v"
      "value_at v q = Some w" "offending w \<or> w = VUndef \<or> is_container w \<and> length q \<ge> md - d" by auto
    moreover have "k' \<noteq> k" using map_of_SomeD [OF *(2)] "16.prems"(3) by force
    ultimately show ?thesis
      by (intro exI [of _ k'] exI [of _ v] exI [of _ q] exI [of _ w]) auto
  qed
qed (auto split: if_splits intro!: exI [of _ "[] :: path"])

end
