(* ===== verification/Canonical.thy ===== *)
theory Canonical
  imports Bridge_Json
begin

section \<open>Canonical JSON (server-node/src/canonical.ts)\<close>

text \<open>
  \<open>canonicalJson\<close> prints a value in the RFC 8785 form: keys sorted by code units, no white space,
  numbers as ECMAScript prints them.  \<open>emit\<close> walks the sorted keys, so the first error met is the
  one the source throws; its path is modelled, its text is not.  \<open>quote\<close> is \<open>JSON.stringify\<close> on a
  string without lone surrogates.
\<close>

definition MAX_JSON_DEPTH :: nat where
  "MAX_JSON_DEPTH = 128"

text \<open>\<open>LONE_SURROGATE\<close>: a high surrogate not followed by a low one, or a low one not preceded by a high.\<close>

fun lone_from :: "bool \<Rightarrow> jsstring \<Rightarrow> bool" where
  "lone_from prev_high [] = False"
| "lone_from prev_high (u # us) =
     ((is_high u \<and> \<not> (case us of [] \<Rightarrow> False | v # _ \<Rightarrow> is_low v)) \<or>
      (is_low u \<and> \<not> prev_high) \<or> lone_from (is_high u) us)"

definition LONE_SURROGATE :: "jsstring \<Rightarrow> bool" where
  "LONE_SURROGATE s = lone_from False s"

subsection \<open>Quoted strings\<close>

definition hex_unit :: "nat \<Rightarrow> codeunit" where
  "hex_unit d = (if d < 10 then 48 + of_nat d else 87 + of_nat d)"

definition hex4 :: "codeunit \<Rightarrow> jsstring" where
  "hex4 u = (let n = unat u in
     [hex_unit (n div 4096), hex_unit (n div 256 mod 16), hex_unit (n div 16 mod 16), hex_unit (n mod 16)])"

definition escape :: "codeunit \<Rightarrow> jsstring" where
  "escape u =
     (if u = 34 then [92, 34] else if u = 92 then [92, 92]
      else if u = 8 then [92, 98] else if u = 12 then [92, 102]
      else if u = 10 then [92, 110] else if u = 13 then [92, 114] else if u = 9 then [92, 116]
      else if u < 32 then [92, 117] @ hex4 u
      else [u])"

definition quote_text :: "jsstring \<Rightarrow> jsstring" where
  "quote_text s = [34] @ concat (map escape s) @ [34]"

definition quote :: "jsstring \<Rightarrow> path \<Rightarrow> bridge_error + jsstring" where
  "quote s p = (if LONE_SURROGATE s then Inl (inputInvalid p) else Inr (quote_text s))"

subsection \<open>The canonical text\<close>

definition comma :: codeunit where "comma = 44"

text \<open>\<open>String(v)\<close> of a JSON value.\<close>

fun js_String :: "jsval \<Rightarrow> jsstring" where
  "js_String VUndef = js ''undefined''"
| "js_String VNull = js ''null''"
| "js_String (VBool b) = (if b then js ''true'' else js ''false'')"
| "js_String (VNum n) = num_text n"
| "js_String (VBigInt i) = int_text i"
| "js_String (VStr s) = s"
| "js_String (VArr xs) = js_join comma (map (\<lambda>x. if nullish x then [] else js_String x) xs)"
| "js_String _ = js ''[object Object]''"

definition obj_text :: "(jsstring \<times> jsstring) list \<Rightarrow> jsstring" where
  "obj_text kvs = [123] @ js_join comma (map (\<lambda>(k, t). k @ [58] @ t) kvs) @ [125]"

definition arr_text :: "jsstring list \<Rightarrow> jsstring" where
  "arr_text ts = [91] @ js_join comma ts @ [93]"

lemma size_list_insort_key: "size_list f (insort_key k x xs) = size_list f (x # xs)"
  by (induction xs) auto

lemma size_list_sort_key [termination_simp]: "size_list f (sort_key k xs) = size_list f xs"
  by (induction xs) (auto simp: size_list_insort_key)

fun emit :: "jsval \<Rightarrow> path \<Rightarrow> nat \<Rightarrow> bridge_error + jsstring"
  and emit_elems :: "jsval list \<Rightarrow> path \<Rightarrow> nat \<Rightarrow> nat \<Rightarrow> bridge_error + jsstring list"
  and emit_fields :: "fields \<Rightarrow> path \<Rightarrow> nat \<Rightarrow> bridge_error + (jsstring \<times> jsstring) list"
where
  "emit VNull p d = Inr (js ''null'')"
| "emit (VBool b) p d = Inr (if b then js ''true'' else js ''false'')"
| "emit (VNum n) p d = (if \<not> is_finite n then Inl (inputInvalid p) else Inr (num_text n))"
| "emit (VBigInt i) p d = Inr (num_text (num_of_bigint i))"
| "emit (VStr s) p d = quote s p"
| "emit VUndef p d = Inl (inputInvalid p)"
| "emit VFun p d = Inl (inputInvalid p)"
| "emit VSym p d = Inl (inputInvalid p)"
| "emit VBack p d = Inl (inputInvalid p)"
| "emit (VInst c) p d = Inl (inputInvalid p)"
| "emit (VArr xs) p d =
     (if d \<ge> MAX_JSON_DEPTH then Inl (inputInvalid p)
      else res_bind (emit_elems xs p 0 (Suc d)) (\<lambda>ts. Inr (arr_text ts)))"
| "emit (VObj fs) p d =
     (if d \<ge> MAX_JSON_DEPTH then Inl (inputInvalid p)
      else res_bind (emit_fields (sort_key fst fs) p (Suc d)) (\<lambda>ts. Inr (obj_text ts)))"
| "emit_elems [] p i d = Inr []"
| "emit_elems (x # xs) p i d =
     (if x = VUndef then Inl (inputInvalid (p @ [Idx i]))
      else res_bind (emit x (p @ [Idx i]) d) (\<lambda>t.
           res_bind (emit_elems xs p (Suc i) d) (\<lambda>ts. Inr (t # ts))))"
| "emit_fields [] p d = Inr []"
| "emit_fields ((k, x) # fs) p d =
     (if x = VUndef then emit_fields fs p d
      else res_bind (quote k p) (\<lambda>q. res_bind (emit x (p @ [Key k]) d) (\<lambda>t.
           res_bind (emit_fields fs p d) (\<lambda>ts. Inr ((q, t) # ts)))))"

definition canonicalJson :: "jsval \<Rightarrow> bridge_error + jsstring" where
  "canonicalJson v = emit v [] 0"

subsection \<open>The printer without its checks\<close>

text \<open>
  What \<open>emit\<close> prints when it succeeds, and when it does: \<open>canon\<close> is the text, \<open>emittable\<close> the
  values it accepts.
\<close>

fun canon :: "jsval \<Rightarrow> jsstring" where
  "canon VNull = js ''null''"
| "canon (VBool b) = (if b then js ''true'' else js ''false'')"
| "canon (VNum n) = num_text n"
| "canon (VBigInt i) = num_text (num_of_bigint i)"
| "canon (VStr s) = quote_text s"
| "canon (VArr xs) = arr_text (map canon xs)"
| "canon (VObj fs) = obj_text (map (\<lambda>(k, v). (quote_text k, canon v))
     (filter (\<lambda>(k, v). v \<noteq> VUndef) (sort_key fst fs)))"
| "canon _ = []"

fun emittable :: "nat \<Rightarrow> jsval \<Rightarrow> bool" where
  "emittable d VNull = True"
| "emittable d (VBool b) = True"
| "emittable d (VNum n) = is_finite n"
| "emittable d (VBigInt i) = True"
| "emittable d (VStr s) = (\<not> LONE_SURROGATE s)"
| "emittable d (VArr xs) = (d > 0 \<and> list_all (\<lambda>x. emittable (d - 1) x) xs)"
| "emittable d (VObj fs) =
     (d > 0 \<and> list_all (\<lambda>(k, v). v = VUndef \<or> (\<not> LONE_SURROGATE k \<and> emittable (d - 1) v)) fs)"
| "emittable d _ = False"

lemma emit_canon:
  "emit v p d = Inr t \<Longrightarrow> t = canon v"
  "emit_elems xs p i d = Inr ts \<Longrightarrow> ts = map canon xs"
  "emit_fields fs p d = Inr kts \<Longrightarrow>
     kts = map (\<lambda>(k, v). (quote_text k, canon v)) (filter (\<lambda>(k, v). v \<noteq> VUndef) fs)"
proof (induction v p d and xs p i d and fs p d arbitrary: t and ts and kts
    rule: emit_emit_elems_emit_fields.induct)
qed (auto simp: result_simps quote_def split: if_splits)

lemma emit_ok:
  "(\<exists>t. emit v p d = Inr t) \<longleftrightarrow> emittable (MAX_JSON_DEPTH - d) v"
  "(\<exists>ts. emit_elems xs p i d = Inr ts) \<longleftrightarrow> list_all (emittable (MAX_JSON_DEPTH - d)) xs"
  "(\<exists>kts. emit_fields fs p d = Inr kts) \<longleftrightarrow>
     list_all (\<lambda>(k, v). v = VUndef \<or> (\<not> LONE_SURROGATE k \<and> emittable (MAX_JSON_DEPTH - d) v)) fs"
proof (induction v p d and xs p i d and fs p d rule: emit_emit_elems_emit_fields.induct)
  case (14 x xs p i d)
  show ?case
  proof (cases "x = VUndef")
    case False
    note IH1 = "14.IH"(1) [OF False]
    show ?thesis
    proof (cases "emit x (p @ [Idx i]) d")
      case (Inl e)
      then show ?thesis using IH1 False by auto
    next
      case (Inr t)
      then show ?thesis using IH1 "14.IH"(2) [OF False Inr] False by (auto simp: result_simps)
    qed
  qed simp
next
  case (16 k x fs p d)
  show ?case
  proof (cases "x = VUndef")
    case True
    then show ?thesis using "16.IH"(1) by simp
  next
    case False
    show ?thesis
    proof (cases "LONE_SURROGATE k")
      case True
      then show ?thesis using False by (simp add: quote_def)
    next
      case nl: False
      then have q: "quote k p = Inr (quote_text k)" by (simp add: quote_def)
      note IH1 = "16.IH"(2) [OF False q]
      show ?thesis
      proof (cases "emit x (p @ [Key k]) d")
        case (Inl e)
        then show ?thesis using IH1 False nl q by auto
      next
        case (Inr t)
        then show ?thesis using IH1 "16.IH"(3) [OF False q Inr] False nl q
          by (auto simp: result_simps)
      qed
    qed
  qed
qed (auto simp: result_simps quote_def list_all_iff)

lemma canonicalJson_Inr: "canonicalJson v = Inr t \<longleftrightarrow> emittable MAX_JSON_DEPTH v \<and> t = canon v"
proof
  assume "canonicalJson v = Inr t"
  then show "emittable MAX_JSON_DEPTH v \<and> t = canon v"
    using emit_ok(1) [of v "[]" 0] emit_canon(1) [of v "[]" 0 t] by (auto simp: canonicalJson_def)
next
  assume h: "emittable MAX_JSON_DEPTH v \<and> t = canon v"
  then obtain u where "emit v [] 0 = Inr u" using emit_ok(1) [of v "[]" 0] by auto
  moreover from this have "u = canon v" by (rule emit_canon(1))
  ultimately show "canonicalJson v = Inr t" using h by (simp add: canonicalJson_def)
qed

subsection \<open>Key order does not matter\<close>

lemma sort_key_unique:
  "distinct (map fst fs) \<Longrightarrow> distinct (map fst gs) \<Longrightarrow> set fs = set gs \<Longrightarrow>
     sort_key fst fs = sort_key fst (gs :: ('a::linorder \<times> 'b) list)"
  by (rule map_sorted_distinct_set_unique [where f = fst])
     (auto simp: distinct_map inj_on_def)

text \<open>The normal form of a value: \<open>undefined\<close> properties dropped, keys sorted, at every level.\<close>

fun norm_json :: "jsval \<Rightarrow> jsval" where
  "norm_json (VArr xs) = VArr (map norm_json xs)"
| "norm_json (VObj fs) =
     VObj (map (\<lambda>(k, v). (k, norm_json v)) (filter (\<lambda>(k, v). v \<noteq> VUndef) (sort_key fst fs)))"
| "norm_json v = v"

definition same_json :: "jsval \<Rightarrow> jsval \<Rightarrow> bool" where
  "same_json v w \<longleftrightarrow> norm_json v = norm_json w"

lemma norm_json_VUndef [simp]: "norm_json v = VUndef \<longleftrightarrow> v = VUndef"
  by (cases v) auto

lemma sort_key_map_snd: "sort_key fst (map (\<lambda>(k, v). (k, f v)) fs) = map (\<lambda>(k, v). (k, f v)) (sort_key fst fs)"
proof (induction fs)
  case (Cons x fs)
  have ins: "insort_key fst (a, f b) (map (\<lambda>(k, v). (k, f v)) ys) =
      map (\<lambda>(k, v). (k, f v)) (insort_key fst (a, b) ys)" for a b ys
    by (induction ys) auto
  show ?case using Cons ins [of "fst x" "snd x"] by (cases x) auto
qed simp

lemma canon_norm: "canon (norm_json v) = canon v"
proof (induction v rule: norm_json.induct)
  case (1 xs)
  then show ?case by (simp cong: map_cong)
next
  case (2 fs)
  let ?gs = "filter (\<lambda>(k, v). v \<noteq> VUndef) (sort_key fst fs)"
  have srt: "sort_key fst (map (\<lambda>(k, v). (k, norm_json v)) ?gs) = map (\<lambda>(k, v). (k, norm_json v)) ?gs"
    by (simp add: sort_key_map_snd filter_sort sort_key_id_if_sorted)
  have flt: "filter (\<lambda>(k, v). v \<noteq> VUndef) (map (\<lambda>(k, v). (k, norm_json v)) ?gs) =
      map (\<lambda>(k, v). (k, norm_json v)) ?gs"
    by (intro filter_True) auto
  have "map (\<lambda>(k, v). (quote_text k, canon (norm_json v))) ?gs = map (\<lambda>(k, v). (quote_text k, canon v)) ?gs"
    using 2 by (intro map_cong) auto
  then have "map (\<lambda>(k, v). (quote_text k, canon v)) (map (\<lambda>(k, v). (k, norm_json v)) ?gs) =
      map (\<lambda>(k, v). (quote_text k, canon v)) ?gs"
    by (simp add: comp_def case_prod_unfold)
  then show ?case
    by (simp only: norm_json.simps canon.simps srt flt)
qed auto

lemma same_json_canon: "same_json v w \<Longrightarrow> canon v = canon w"
  by (metis canon_norm same_json_def)

end
