(* ===== verification/Encodings.thy ===== *)
theory Encodings
  imports Canonical
begin

section \<open>UTF-8 and strict base64url (server-node/src/canonical.ts)\<close>

text \<open>
  \<open>utf8\<close> is \<open>Buffer.from(s, "utf8")\<close> (a lone surrogate becomes U+FFFD), \<open>from_utf8\<close> is
  \<open>bytes.toString("utf8")\<close> (a malformed sequence becomes U+FFFD).  \<open>toBase64Url\<close> and
  \<open>fromBase64Url\<close> are the two functions of \<open>canonical.ts\<close>; \<open>base64url_bytes\<close> is Node's lenient
  decoder on text of the alphabet, which \<open>fromBase64Url\<close> makes strict.
\<close>

subsection \<open>UTF-8\<close>

definition REPLACEMENT :: codeunit where
  "REPLACEMENT = 0xFFFD"

definition code_point :: "codeunit \<Rightarrow> codeunit \<Rightarrow> nat" where
  "code_point hi lo = 0x10000 + 0x400 * (unat hi - 0xD800) + (unat lo - 0xDC00)"

definition utf8_point :: "nat \<Rightarrow> bytes" where
  "utf8_point cp = map of_nat
     (if cp < 0x80 then [cp]
      else if cp < 0x800 then [0xC0 + cp div 64, 0x80 + cp mod 64]
      else if cp < 0x10000 then [0xE0 + cp div 4096, 0x80 + cp div 64 mod 64, 0x80 + cp mod 64]
      else [0xF0 + cp div 262144, 0x80 + cp div 4096 mod 64, 0x80 + cp div 64 mod 64, 0x80 + cp mod 64])"

fun utf8 :: "jsstring \<Rightarrow> bytes" where
  "utf8 [] = []"
| "utf8 [u] = utf8_point (unat (if is_high u \<or> is_low u then REPLACEMENT else u))"
| "utf8 (u # v # us) =
     (if is_high u \<and> is_low v then utf8_point (code_point u v) @ utf8 us
      else utf8_point (unat (if is_high u \<or> is_low u then REPLACEMENT else u)) @ utf8 (v # us))"

definition cont :: "byte \<Rightarrow> bool" where
  "cont b \<longleftrightarrow> 0x80 \<le> unat b \<and> unat b \<le> 0xBF"

text \<open>The range of the second byte after a first byte of three or four.\<close>

definition second_ok :: "byte \<Rightarrow> byte \<Rightarrow> bool" where
  "second_ok b c \<longleftrightarrow>
     (let lo = (if unat b = 0xE0 then 0xA0 else if unat b = 0xF0 then 0x90 else 0x80);
          hi = (if unat b = 0xED then 0x9F else if unat b = 0xF4 then 0x8F else 0xBF)
      in lo \<le> unat c \<and> unat c \<le> hi)"

definition surrogates :: "nat \<Rightarrow> jsstring" where
  "surrogates cp = [of_nat (0xD800 + (cp - 0x10000) div 0x400), of_nat (0xDC00 + (cp - 0x10000) mod 0x400)]"

fun from_utf8 :: "bytes \<Rightarrow> jsstring" where
  "from_utf8 [] = []"
| "from_utf8 (b # bs) =
     (let n = unat b in
      if n < 0x80 then of_nat n # from_utf8 bs
      else if 0xC2 \<le> n \<and> n \<le> 0xDF then
        (case bs of
           c # cs \<Rightarrow> if cont c then of_nat ((n - 0xC0) * 64 + (unat c - 0x80)) # from_utf8 cs
                     else REPLACEMENT # from_utf8 bs
         | [] \<Rightarrow> [REPLACEMENT])
      else if 0xE0 \<le> n \<and> n \<le> 0xEF then
        (case bs of
           c # cs \<Rightarrow> if second_ok b c then
               (case cs of
                  d # ds \<Rightarrow> if cont d
                      then of_nat ((n - 0xE0) * 4096 + (unat c - 0x80) * 64 + (unat d - 0x80)) # from_utf8 ds
                      else REPLACEMENT # from_utf8 cs
                | [] \<Rightarrow> [REPLACEMENT])
             else REPLACEMENT # from_utf8 bs
         | [] \<Rightarrow> [REPLACEMENT])
      else if 0xF0 \<le> n \<and> n \<le> 0xF4 then
        (case bs of
           c # cs \<Rightarrow> if second_ok b c then
               (case cs of
                  d # ds \<Rightarrow> if cont d then
                      (case ds of
                         e # es \<Rightarrow> if cont e
                             then surrogates ((n - 0xF0) * 262144 + (unat c - 0x80) * 4096 +
                                    (unat d - 0x80) * 64 + (unat e - 0x80)) @ from_utf8 es
                             else REPLACEMENT # from_utf8 ds
                       | [] \<Rightarrow> [REPLACEMENT])
                    else REPLACEMENT # from_utf8 cs
                | [] \<Rightarrow> [REPLACEMENT])
             else REPLACEMENT # from_utf8 bs
         | [] \<Rightarrow> [REPLACEMENT])
      else REPLACEMENT # from_utf8 bs)"

declare from_utf8.simps(2) [simp del]

lemma unat_byte_of_nat: "n < 256 \<Longrightarrow> unat (of_nat n :: byte) = n"
  by (simp add: unat_of_nat)

lemma unat_unit_of_nat: "n < 65536 \<Longrightarrow> unat (of_nat n :: codeunit) = n"
  by (simp add: unat_of_nat)

lemma from_utf8_point1: "n < 0x80 \<Longrightarrow> from_utf8 (utf8_point n @ r) = of_nat n # from_utf8 r"
  by (simp add: utf8_point_def from_utf8.simps(2) unat_byte_of_nat)

lemma from_utf8_point2:
  assumes "0x80 \<le> n" "n < 0x800"
  shows "from_utf8 (utf8_point n @ r) = of_nat n # from_utf8 r"
proof -
  have "n div 64 < 32" "2 \<le> n div 64" "n mod 64 < 64" using assms by (auto simp: less_mult_imp_div_less)
  then show ?thesis
    using assms by (simp add: utf8_point_def from_utf8.simps(2) unat_byte_of_nat cont_def del: of_nat_add)
qed

lemma from_utf8_point3:
  assumes "0x800 \<le> n" "n < 0x10000" "\<not> (0xD800 \<le> n \<and> n \<le> 0xDFFF)"
  shows "from_utf8 (utf8_point n @ r) = of_nat n # from_utf8 r"
proof -
  define a where "a = n div 4096"
  define b where "b = n div 64 mod 64"
  define c where "c = n mod 64"
  have "n = 64 * (n div 64) + c" "n div 64 = 64 * a + b"
    using div_mult2_eq [of n 64 64] by (simp_all add: a_def b_def c_def)
  then have n: "n = a * 4096 + b * 64 + c" by linarith
  have lt: "a < 16" "b < 64" "c < 64" using assms(2) by (auto simp: a_def b_def c_def less_mult_imp_div_less)
  have "a = 0 \<Longrightarrow> 32 \<le> b" "a = 13 \<Longrightarrow> b < 32" using n lt assms by auto
  then have "second_ok (of_nat (0xE0 + a)) (of_nat (0x80 + b))"
    using lt by (auto simp: second_ok_def unat_byte_of_nat simp del: of_nat_add)
  moreover have "utf8_point n = map of_nat [0xE0 + a, 0x80 + b, 0x80 + c]"
    using assms by (simp add: utf8_point_def a_def b_def c_def)
  ultimately show ?thesis
    using lt by (simp add: from_utf8.simps(2) unat_byte_of_nat cont_def Let_def n del: of_nat_add)
qed

lemma from_utf8_point4:
  assumes "0x10000 \<le> n" "n < 0x110000"
  shows "from_utf8 (utf8_point n @ r) = surrogates n @ from_utf8 r"
proof -
  define a where "a = n div 262144"
  define b where "b = n div 4096 mod 64"
  define c where "c = n div 64 mod 64"
  define d where "d = n mod 64"
  have "n = 64 * (n div 64) + d" "n div 64 = 64 * (n div 4096) + c" "n div 4096 = 64 * a + b"
    using div_mult2_eq [of n 64 64] div_mult2_eq [of n 4096 64] by (simp_all add: a_def b_def c_def d_def)
  then have n: "n = a * 262144 + b * 4096 + c * 64 + d" by linarith
  have lt: "a \<le> 4" "b < 64" "c < 64" "d < 64" using assms(2) by (auto simp: a_def b_def c_def d_def)
  have "a = 0 \<Longrightarrow> 16 \<le> b" "a = 4 \<Longrightarrow> b < 16" using n lt assms by auto
  then have "second_ok (of_nat (0xF0 + a)) (of_nat (0x80 + b))"
    using lt by (auto simp: second_ok_def unat_byte_of_nat simp del: of_nat_add)
  moreover have "utf8_point n = map of_nat [0xF0 + a, 0x80 + b, 0x80 + c, 0x80 + d]"
    using assms by (simp add: utf8_point_def a_def b_def c_def d_def)
  ultimately show ?thesis
    using lt by (simp add: from_utf8.simps(2) unat_byte_of_nat cont_def Let_def n del: of_nat_add)
qed

lemma unat_is_high: "is_high u \<longleftrightarrow> 0xD800 \<le> unat u \<and> unat u \<le> 0xDBFF"
  by (simp add: is_high_def word_le_nat_alt)

lemma unat_is_low: "is_low u \<longleftrightarrow> 0xDC00 \<le> unat u \<and> unat u \<le> 0xDFFF"
  by (simp add: is_low_def word_le_nat_alt)

lemma from_utf8_unit: "\<not> is_high u \<Longrightarrow> \<not> is_low u \<Longrightarrow> from_utf8 (utf8_point (unat u) @ r) = u # from_utf8 r"
  using unsigned_less [of u, where 'a = nat] from_utf8_point1 [of "unat u" r]
    from_utf8_point2 [of "unat u" r] from_utf8_point3 [of "unat u" r]
  by (cases "unat u < 0x80"; cases "unat u < 0x800") (auto simp: unat_is_high unat_is_low)

lemma from_utf8_pair:
  assumes "is_high u" "is_low v"
  shows "from_utf8 (utf8_point (code_point u v) @ r) = u # v # from_utf8 r"
proof -
  have b: "unat u - 0xD800 < 0x400" "unat v - 0xDC00 < 0x400" "0xD800 \<le> unat u" "0xDC00 \<le> unat v"
    using assms by (auto simp: unat_is_high unat_is_low)
  moreover from b have "(code_point u v - 0x10000) div 0x400 = unat u - 0xD800"
      "(code_point u v - 0x10000) mod 0x400 = unat v - 0xDC00"
    by (simp_all only: code_point_def add.assoc diff_add_inverse div_mult_self4 mod_mult_self4, simp_all)
  ultimately have "surrogates (code_point u v) = [u, v]"
    by (simp add: surrogates_def flip: of_nat_add)
  then show ?thesis using b from_utf8_point4 [of "code_point u v" r] by (simp add: code_point_def)
qed

lemma from_utf8_utf8_lone: "\<not> lone_from False s \<Longrightarrow> from_utf8 (utf8 s) = s"
proof (induction s rule: utf8.induct)
  case (2 u)
  then show ?case using from_utf8_unit [of u "[]"] by auto
next
  case (3 u v us)
  show ?case
  proof (cases "is_high u \<and> is_low v")
    case True
    then have "\<not> is_high v" using not_high_low [of v] by blast
    with True have "\<not> lone_from False us" using "3.prems" by auto
    with True "3.IH"(1) show ?thesis by (simp add: from_utf8_pair)
  next
    case False
    then have nh: "\<not> is_high u" "\<not> is_low u" using "3.prems" by auto
    then have "\<not> lone_from False (v # us)" using "3.prems" by auto
    with False nh "3.IH"(2) show ?thesis by (simp add: from_utf8_unit)
  qed
qed simp

lemma from_utf8_utf8: "\<not> LONE_SURROGATE s \<Longrightarrow> from_utf8 (utf8 s) = s"
  by (simp add: LONE_SURROGATE_def from_utf8_utf8_lone)

subsection \<open>base64url\<close>

definition b64_unit :: "nat \<Rightarrow> codeunit" where
  "b64_unit d = of_nat (if d < 26 then 65 + d else if d < 52 then 71 + d
     else if d < 62 then d - 4 else if d = 62 then 45 else 95)"

definition b64_value :: "codeunit \<Rightarrow> nat option" where
  "b64_value u =
     (if is_upper u then Some (unat u - 65) else if is_lower u then Some (unat u - 71)
      else if is_digit u then Some (unat u + 4) else if u = 45 then Some 62
      else if u = 95 then Some 63 else None)"

fun base64url_text :: "bytes \<Rightarrow> jsstring" where
  "base64url_text [] = []"
| "base64url_text [a] = (let n = unat a in map b64_unit [n div 4, n mod 4 * 16])"
| "base64url_text [a, b] =
     (let n = unat a; m = unat b in map b64_unit [n div 4, n mod 4 * 16 + m div 16, m mod 16 * 4])"
| "base64url_text (a # b # c # r) =
     (let n = unat a; m = unat b; k = unat c in
      map b64_unit [n div 4, n mod 4 * 16 + m div 16, m mod 16 * 4 + k div 64, k mod 64]
        @ base64url_text r)"

fun sextets_bytes :: "nat list \<Rightarrow> bytes" where
  "sextets_bytes (p # q # r # s # rest) =
     map of_nat [p * 4 + q div 16, q mod 16 * 16 + r div 4, r mod 4 * 64 + s] @ sextets_bytes rest"
| "sextets_bytes [p, q, r] = map of_nat [p * 4 + q div 16, q mod 16 * 16 + r div 4]"
| "sextets_bytes [p, q] = map of_nat [p * 4 + q div 16]"
| "sextets_bytes _ = []"

definition base64url_bytes :: "jsstring \<Rightarrow> bytes" where
  "base64url_bytes t = sextets_bytes (List.map_filter b64_value t)"

definition toBase64Url :: "bytes \<Rightarrow> jsstring" where
  "toBase64Url bytes = base64url_text bytes"

definition BASE64URL :: "jsstring \<Rightarrow> bool" where
  "BASE64URL t \<longleftrightarrow> list_all (\<lambda>u. is_alnum u \<or> is_unit (CHR ''_'') u \<or> is_unit (CHR ''-'') u) t"

definition fromBase64Url :: "jsstring \<Rightarrow> bytes option" where
  "fromBase64Url t =
     (if \<not> BASE64URL t \<or> length t mod 4 = 1 then None
      else let bytes = base64url_bytes t in
        if base64url_text bytes = t then Some bytes else None)"

lemma b64_unit_value: "d < 64 \<Longrightarrow> b64_value (b64_unit d) = Some d \<and>
   (is_alnum (b64_unit d) \<or> is_unit (CHR ''_'') (b64_unit d) \<or> is_unit (CHR ''-'') (b64_unit d)) \<and> b64_unit d \<noteq> 46"
proof -
  assume "d < 64"
  then have "d \<in> set [0..<64]" by simp
  moreover have "list_all (\<lambda>d. b64_value (b64_unit d) = Some d \<and>
     (is_alnum (b64_unit d) \<or> is_unit (CHR ''_'') (b64_unit d) \<or> is_unit (CHR ''-'') (b64_unit d)) \<and> b64_unit d \<noteq> 46) [0..<64]"
    by (simp add: upt_rec b64_value_def b64_unit_def unit_class_defs)
  ultimately show ?thesis by (simp add: list_all_iff)
qed

lemma unat_byte: "unat (a :: byte) < 256"
  using unsigned_less [of a, where 'a = nat] by simp

lemma base64url_text_sextets:
  "\<exists>ds. base64url_text bs = map b64_unit ds \<and> (\<forall>d \<in> set ds. d < 64) \<and> sextets_bytes ds = bs \<and>
     length ds mod 4 \<noteq> 1"
proof (induction bs rule: base64url_text.induct)
  case (2 a)
  show ?case using unat_byte [of a]
    by (intro exI [of _ "[unat a div 4, unat a mod 4 * 16]"]) (auto simp: Let_def)
next
  case (3 a b)
  have "unat a mod 4 * 16 + unat b div 16 < 64" using unat_byte [of b] by auto
  moreover have "(unat a mod 4 * 16 + unat b div 16) div 16 = unat a mod 4"
    "(unat a mod 4 * 16 + unat b div 16) mod 16 = unat b div 16" using unat_byte [of b] by auto
  ultimately show ?case using unat_byte [of a] unat_byte [of b]
    by (intro exI [of _ "[unat a div 4, unat a mod 4 * 16 + unat b div 16, unat b mod 16 * 4]"])
       (auto simp: Let_def simp del: of_nat_add of_nat_mult)
next
  case (4 a b c r)
  then obtain ds where ds: "base64url_text r = map b64_unit ds" "\<forall>d \<in> set ds. d < 64" "sextets_bytes ds = r"
      "length ds mod 4 \<noteq> 1" using "4.IH" [OF refl refl refl] by blast
  have q: "unat a mod 4 * 16 + unat b div 16 < 64" "(unat a mod 4 * 16 + unat b div 16) div 16 = unat a mod 4"
    "(unat a mod 4 * 16 + unat b div 16) mod 16 = unat b div 16" using unat_byte [of b] by auto
  have r: "unat b mod 16 * 4 + unat c div 64 < 64" "(unat b mod 16 * 4 + unat c div 64) div 4 = unat b mod 16"
    "(unat b mod 16 * 4 + unat c div 64) mod 4 = unat c div 64" using unat_byte [of c] by auto
  have d: "unat a div 4 < 64" "unat c mod 64 < 64" using unat_byte [of a] by auto
  show ?case using unat_byte [of a] unat_byte [of b] unat_byte [of c] d q r ds
    by (intro exI [of _ "[unat a div 4, unat a mod 4 * 16 + unat b div 16, unat b mod 16 * 4 + unat c div 64,
        unat c mod 64] @ ds"])
       (auto simp: Let_def simp del: of_nat_add of_nat_mult)
qed auto

lemma map_filter_b64: "\<forall>d \<in> set ds. d < 64 \<Longrightarrow> List.map_filter b64_value (map b64_unit ds) = ds"
  by (induction ds) (auto simp: b64_unit_value List.map_filter_simps)

lemma fromBase64Url_iff: "fromBase64Url t = Some bs \<longleftrightarrow> t = toBase64Url bs"
proof
  assume "fromBase64Url t = Some bs"
  then show "t = toBase64Url bs"
    by (auto simp: fromBase64Url_def toBase64Url_def Let_def split: if_splits)
next
  assume t: "t = toBase64Url bs"
  obtain ds where ds: "base64url_text bs = map b64_unit ds" "\<forall>d \<in> set ds. d < 64" "sextets_bytes ds = bs"
      "length ds mod 4 \<noteq> 1" using base64url_text_sextets by blast
  then have "BASE64URL t" by (auto simp: t toBase64Url_def BASE64URL_def list_all_iff b64_unit_value)
  then show "fromBase64Url t = Some bs"
    using ds by (simp add: fromBase64Url_def t toBase64Url_def base64url_bytes_def map_filter_b64 Let_def)
qed

lemma fromBase64Url_toBase64Url [simp]: "fromBase64Url (toBase64Url bs) = Some bs"
  by (simp add: fromBase64Url_iff)

lemma toBase64Url_inject [simp]: "toBase64Url a = toBase64Url b \<longleftrightarrow> a = b"
  by (metis fromBase64Url_toBase64Url option.inject)

lemma toBase64Url_no_dot: "46 \<notin> set (toBase64Url bs)"
  using base64url_text_sextets [of bs] b64_unit_value
  by (auto simp: toBase64Url_def)

lemma length_toBase64Url: "length (toBase64Url bs) = (4 * length bs + 2) div 3"
  unfolding toBase64Url_def
  by (induction bs rule: base64url_text.induct) (auto simp: Let_def)

lemma toBase64Url_eq_Nil [simp]: "toBase64Url bs = [] \<longleftrightarrow> bs = []"
  by (cases bs rule: base64url_text.cases) (auto simp: toBase64Url_def Let_def)

end
