(* ===== verification/Json_Text.thy ===== *)
theory Json_Text
  imports Canonical
begin

section \<open>JSON text: \<open>JSON.stringify\<close> and \<open>JSON.parse\<close>\<close>

text \<open>
  The two functions of the language the sources use on JSON text.  \<open>json_parse\<close> is ECMAScript's
  \<open>JSON.parse\<close> (a repeated key keeps its place and takes the last value; integer keys of an object
  come first, in ascending order); a literal is read as its exact decimal, an integer literal beyond
  \<open>2 ^ 53\<close> as the double it rounds to.  The parser recurses on fuel: a value and its container take
  one unit of fuel each, and each container consumes at least one code unit, so \<open>2 * length s + 2\<close>
  is enough; for canonical text this is proved in \<open>Json_Round_Trip\<close>.
\<close>

subsection \<open>Stringify\<close>

text \<open>\<open>JSON.stringify\<close> escapes lone surrogates; everything else is as in \<open>quote_text\<close>.\<close>

fun stringify_units :: "bool \<Rightarrow> jsstring \<Rightarrow> jsstring" where
  "stringify_units prev_high [] = []"
| "stringify_units prev_high (u # us) =
     (if (is_high u \<and> \<not> (case us of [] \<Rightarrow> False | v # _ \<Rightarrow> is_low v)) \<or> (is_low u \<and> \<not> prev_high)
      then [92, 117] @ hex4 u else escape u) @ stringify_units (is_high u) us"

definition stringify_string :: "jsstring \<Rightarrow> jsstring" where
  "stringify_string s = [34] @ stringify_units False s @ [34]"

definition stringifies_to_nothing :: "jsval \<Rightarrow> bool" where
  "stringifies_to_nothing v \<longleftrightarrow> v = VUndef \<or> v = VFun \<or> v = VSym"

fun json_text :: "jsval \<Rightarrow> jsstring" where
  "json_text (VBool b) = (if b then js ''true'' else js ''false'')"
| "json_text (VNum n) = (if is_finite n then num_text n else js ''null'')"
| "json_text (VStr s) = stringify_string s"
| "json_text (VArr xs) = arr_text (map json_text xs)"
| "json_text (VObj fs) = obj_text (map (\<lambda>(k, v). (stringify_string k, json_text v))
     (filter (\<lambda>(k, v). \<not> stringifies_to_nothing v) fs))"
| "json_text _ = js ''null''"

lemma stringify_units_quote: "\<not> lone_from b s \<Longrightarrow> stringify_units b s = concat (map escape s)"
  by (induction b s rule: lone_from.induct) auto

lemma stringify_string_quote: "\<not> LONE_SURROGATE s \<Longrightarrow> stringify_string s = quote_text s"
  by (simp add: LONE_SURROGATE_def stringify_string_def quote_text_def stringify_units_quote)

subsection \<open>Parse: tokens\<close>

definition json_ws :: "codeunit \<Rightarrow> bool" where
  "json_ws u \<longleftrightarrow> u = 32 \<or> u = 9 \<or> u = 10 \<or> u = 13"

definition skip_ws :: "jsstring \<Rightarrow> jsstring" where
  "skip_ws s = dropWhile json_ws s"

definition unit_digit :: "codeunit \<Rightarrow> nat" where
  "unit_digit u = unat u - 48"

definition digits_value :: "jsstring \<Rightarrow> nat" where
  "digits_value ds = foldl (\<lambda>n u. 10 * n + unit_digit u) 0 ds"

definition hex_value :: "codeunit \<Rightarrow> nat option" where
  "hex_value u =
     (if is_digit u then Some (unat u - 48)
      else if unit_between (CHR ''a'') (CHR ''f'') u then Some (unat u - 87)
      else if unit_between (CHR ''A'') (CHR ''F'') u then Some (unat u - 55) else None)"

definition hex4_value :: "codeunit \<Rightarrow> codeunit \<Rightarrow> codeunit \<Rightarrow> codeunit \<Rightarrow> codeunit option" where
  "hex4_value a b c d =
     (case (hex_value a, hex_value b, hex_value c, hex_value d) of
        (Some i, Some j, Some k, Some l) \<Rightarrow> Some (of_nat (4096 * i + 256 * j + 16 * k + l))
      | _ \<Rightarrow> None)"

definition unescape :: "codeunit \<Rightarrow> codeunit option" where
  "unescape e =
     (if e = 34 \<or> e = 92 \<or> e = 47 then Some e
      else if e = 98 then Some 8 else if e = 102 then Some 12 else if e = 110 then Some 10
      else if e = 114 then Some 13 else if e = 116 then Some 9 else None)"

definition cons_fst :: "'a \<Rightarrow> ('a list \<times> 'b) option \<Rightarrow> ('a list \<times> 'b) option" where
  "cons_fst x r = map_option (\<lambda>(xs, y). (x # xs, y)) r"

lemma cons_fst_simps [simp]: "cons_fst x (Some (xs, y)) = Some (x # xs, y)" "cons_fst x None = None"
  by (simp_all add: cons_fst_def)

lemma cons_fst_eq_Some: "cons_fst x r = Some (zs, y) \<longleftrightarrow> (\<exists>xs. r = Some (xs, y) \<and> zs = x # xs)"
  by (cases r) (auto simp: cons_fst_def)

text \<open>The rest of a string token, after its opening quote.\<close>

fun parse_str :: "jsstring \<Rightarrow> (jsstring \<times> jsstring) option" where
  "parse_str [] = None"
| "parse_str (c # r) =
     (if c = 34 then Some ([], r)
      else if c = 92 then
        (case r of
           [] \<Rightarrow> None
         | e # r1 \<Rightarrow>
             (if e = 117 then
                (case r1 of
                   a # b # x # y # r2 \<Rightarrow>
                     (case hex4_value a b x y of
                        None \<Rightarrow> None | Some u \<Rightarrow> cons_fst u (parse_str r2))
                 | _ \<Rightarrow> None)
              else (case unescape e of None \<Rightarrow> None | Some u \<Rightarrow> cons_fst u (parse_str r1))))
      else if c < 32 then None
      else cons_fst c (parse_str r))"

declare parse_str.simps(2) [simp del]

text \<open>A number token: \<open>-? int frac? exp?\<close>, as its exact decimal.\<close>

definition dec_num :: "bool \<Rightarrow> nat \<Rightarrow> int \<Rightarrow> jsnum" where
  "dec_num neg m x =
     (let sm = (if neg then - int m else int m) in
      if m = 0 then int_num 0
      else if 0 \<le> x then num_of_bigint (sm * 10 ^ nat x)
      else (case strip10 m of (s, z) \<Rightarrow>
        (let k = min z (nat (- x)) in
         if nat (- x) - k = 0 then num_of_bigint (sm div 10 ^ k)
         else Fin (sm div 10 ^ k) (nat (- x) - k))))"

definition parse_frac :: "jsstring \<Rightarrow> (jsstring \<times> jsstring) option" where
  "parse_frac s =
     (case s of
        u # r \<Rightarrow> if u = 46 then
            (let ds = takeWhile is_digit r in if ds = [] then None else Some (ds, dropWhile is_digit r))
          else Some ([], s)
      | [] \<Rightarrow> Some ([], s))"

definition parse_exp :: "jsstring \<Rightarrow> (int \<times> jsstring) option" where
  "parse_exp s =
     (case s of
        u # r \<Rightarrow> if u = 101 \<or> u = 69 then
            (let (neg, r1) = (case r of v # r' \<Rightarrow> if v = 45 then (True, r') else if v = 43 then (False, r') else (False, r)
                                | [] \<Rightarrow> (False, r));
                 ds = takeWhile is_digit r1
             in if ds = [] then None
                else Some (if neg then - int (digits_value ds) else int (digits_value ds), dropWhile is_digit r1))
          else Some (0, s)
      | [] \<Rightarrow> Some (0, s))"

definition parse_number :: "jsstring \<Rightarrow> (jsnum \<times> jsstring) option" where
  "parse_number s =
     (let (neg, r) = (case s of u # r' \<Rightarrow> if u = 45 then (True, r') else (False, s) | [] \<Rightarrow> (False, s));
          ds = takeWhile is_digit r
      in if ds = [] \<or> (hd ds = 48 \<and> length ds \<noteq> 1) then None
         else (case parse_frac (dropWhile is_digit r) of
                 None \<Rightarrow> None
               | Some (fs, r1) \<Rightarrow>
                   (case parse_exp r1 of
                      None \<Rightarrow> None
                    | Some (x, r2) \<Rightarrow>
                        Some (dec_num neg (digits_value (ds @ fs)) (x - int (length fs)), r2))))"

subsection \<open>Parse: values\<close>

text \<open>Defining an own property: in place, else among the integer keys or at the end.\<close>

definition key_index :: "jsstring \<Rightarrow> nat option" where
  "key_index k =
     (if k \<noteq> [] \<and> list_all is_digit k \<and> (hd k \<noteq> 48 \<or> length k = 1) \<and> digits_value k < 2 ^ 32 - 1
      then Some (digits_value k) else None)"

fun put_index :: "nat \<Rightarrow> jsstring \<Rightarrow> jsval \<Rightarrow> fields \<Rightarrow> fields" where
  "put_index i k v [] = [(k, v)]"
| "put_index i k v ((k', v') # fs) =
     (case key_index k' of
        Some j \<Rightarrow> if j < i then (k', v') # put_index i k v fs else (k, v) # (k', v') # fs
      | None \<Rightarrow> (k, v) # (k', v') # fs)"

definition own_put :: "fields \<Rightarrow> jsstring \<Rightarrow> jsval \<Rightarrow> fields" where
  "own_put fs k v =
     (if k \<in> set (map fst fs) then map (\<lambda>(k', v'). (k', if k' = k then v else v')) fs
      else (case key_index k of Some i \<Rightarrow> put_index i k v fs | None \<Rightarrow> fs @ [(k, v)]))"

definition strip_prefix :: "jsstring \<Rightarrow> jsstring \<Rightarrow> jsstring option" where
  "strip_prefix p s = (if take (length p) s = p then Some (drop (length p) s) else None)"

fun parse_val :: "nat \<Rightarrow> jsstring \<Rightarrow> (jsval \<times> jsstring) option"
  and parse_elems :: "nat \<Rightarrow> jsstring \<Rightarrow> (jsval list \<times> jsstring) option"
  and parse_members :: "nat \<Rightarrow> fields \<Rightarrow> jsstring \<Rightarrow> (fields \<times> jsstring) option"
where
  "parse_val 0 s = None"
| "parse_val (Suc n) s =
     (case skip_ws s of
        [] \<Rightarrow> None
      | c # r \<Rightarrow>
          (if c = 34 then (case parse_str r of None \<Rightarrow> None | Some (t, r') \<Rightarrow> Some (VStr t, r'))
           else if c = 123 then
             (case skip_ws r of
                [] \<Rightarrow> None
              | u # r' \<Rightarrow> if u = 125 then Some (VObj [], r')
                  else (case parse_members n [] (u # r') of
                          None \<Rightarrow> None | Some (fs, r'') \<Rightarrow> Some (VObj fs, r'')))
           else if c = 91 then
             (case skip_ws r of
                [] \<Rightarrow> None
              | u # r' \<Rightarrow> if u = 93 then Some (VArr [], r')
                  else (case parse_elems n (u # r') of
                          None \<Rightarrow> None | Some (xs, r'') \<Rightarrow> Some (VArr xs, r'')))
           else if c = 116 then map_option (\<lambda>r'. (VBool True, r')) (strip_prefix (js ''true'') (c # r))
           else if c = 102 then map_option (\<lambda>r'. (VBool False, r')) (strip_prefix (js ''false'') (c # r))
           else if c = 110 then map_option (\<lambda>r'. (VNull, r')) (strip_prefix (js ''null'') (c # r))
           else map_option (\<lambda>(x, r'). (VNum x, r')) (parse_number (c # r))))"
| "parse_elems 0 s = None"
| "parse_elems (Suc n) s =
     (case parse_val n s of
        None \<Rightarrow> None
      | Some (v, r) \<Rightarrow>
          (case skip_ws r of
             [] \<Rightarrow> None
           | u # r' \<Rightarrow> if u = 44 then cons_fst v (parse_elems n r')
               else if u = 93 then Some ([v], r') else None))"
| "parse_members 0 acc s = None"
| "parse_members (Suc n) acc s =
     (case skip_ws s of
        [] \<Rightarrow> None
      | c # r \<Rightarrow>
          if c \<noteq> 34 then None
          else (case parse_str r of
                  None \<Rightarrow> None
                | Some (k, r1) \<Rightarrow>
                    (case skip_ws r1 of
                       [] \<Rightarrow> None
                     | u # r2 \<Rightarrow>
                         if u \<noteq> 58 then None
                         else (case parse_val n r2 of
                                 None \<Rightarrow> None
                               | Some (v, r3) \<Rightarrow>
                                   (case skip_ws r3 of
                                      [] \<Rightarrow> None
                                    | w # r4 \<Rightarrow>
                                        if w = 44 then parse_members n (own_put acc k v) r4
                                        else if w = 125 then Some (own_put acc k v, r4) else None)))))"

definition json_parse :: "jsstring \<Rightarrow> jsval option" where
  "json_parse s =
     (case parse_val (2 * length s + 2) s of
        None \<Rightarrow> None
      | Some (v, r) \<Rightarrow> if skip_ws r = [] then Some v else None)"

end
