(* ===== verification/Json_Round_Trip.thy ===== *)
theory Json_Round_Trip
  imports Json_Text
begin

section \<open>Canonical text reads back as the value it was printed from\<close>

text \<open>
  \<open>JSON.parse\<close> after \<open>canonicalJson\<close>: strings with their escapes, integers, and the containers, so
  that the parsed value is the printed one up to the order of the keys (\<open>json_parse_canon\<close>), and the
  canonical text determines the value (\<open>canon_inject\<close>).
\<close>


lemma js_words: "js ''true'' = [116, 114, 117, 101]" "js ''false'' = [102, 97, 108, 115, 101]"
  "js ''null'' = [110, 117, 108, 108]" "js ''-'' = [45]" "js ''0'' = [48]"
  by (simp_all add: js_def)

subsection \<open>Strings\<close>

lemma hex_value_hex_unit: "d < 16 \<Longrightarrow> hex_value (hex_unit d) = Some d"
proof -
  assume "d < 16"
  then have "d \<in> set [0..<16]" by simp
  moreover have "list_all (\<lambda>d. hex_value (hex_unit d) = Some d) [0..<16]"
    by (simp add: upt_rec hex_value_def hex_unit_def unit_class_defs)
  ultimately show ?thesis by (simp add: list_all_iff)
qed

lemma unat_unit_less: "unat (u :: codeunit) < 65536"
  using unsigned_less [of u, where 'a = nat] by simp

lemma hex4_value_hex4: "hex4 u = [a, b, c, d] \<Longrightarrow> hex4_value a b c d = Some u"
proof -
  assume h: "hex4 u = [a, b, c, d]"
  define n where "n = unat u"
  have n: "n < 65536" using unat_unit_less [of u] by (simp add: n_def)
  then have "n div 4096 < 16" by (simp add: less_mult_imp_div_less)
  moreover have eq: "4096 * (n div 4096) + 256 * (n div 256 mod 16) + 16 * (n div 16 mod 16) + n mod 16 = n"
  proof -
    have "n = 16 * (n div 16) + n mod 16" by simp
    moreover have "n div 16 = 16 * (n div 256) + n div 16 mod 16"
      using div_mult2_eq [of n 16 16] mult_div_mod_eq [of 16 "n div 16"] by simp
    moreover have "n div 256 = 16 * (n div 4096) + n div 256 mod 16"
      using div_mult2_eq [of n 256 16] mult_div_mod_eq [of 16 "n div 256"] by simp
    ultimately show ?thesis by linarith
  qed
  ultimately show ?thesis
    using h by (auto simp: hex4_def hex4_value_def Let_def n_def [symmetric] hex_value_hex_unit eq)
      (simp add: n_def)
qed

lemma hex4_four: "\<exists>a b c d. hex4 u = [a, b, c, d]"
  by (simp add: hex4_def Let_def)

lemma parse_str_escape: "parse_str (escape u @ r) = cons_fst u (parse_str r)"
proof -
  obtain a b c d where h: "hex4 u = [a, b, c, d]" using hex4_four by blast
  show ?thesis
    by (auto simp: escape_def parse_str.simps(2) unescape_def h hex4_value_hex4 [OF h])
qed

lemma parse_str_quote: "parse_str (concat (map escape s) @ 34 # r) = Some (s, r)"
  by (induction s) (simp_all add: parse_str_escape parse_str.simps(2) [of 34])

subsection \<open>Numbers\<close>

lemma is_digit_nat: "is_digit u \<longleftrightarrow> 48 \<le> unat u \<and> unat u \<le> 57"
  by (simp add: unit_class_defs word_le_nat_alt)

lemma unat_digit_unit: "d < 10 \<Longrightarrow> unat (digit_unit d) = 48 + d"
  by (simp add: digit_unit_def unat_word_ariths unat_of_nat)

lemma dec_digits_less: "d \<in> set (dec_digits n) \<Longrightarrow> d < 10"
proof (induction n rule: dec_digits.induct)
  case (1 n)
  show ?case
  proof (cases "n < 10")
    case True
    then show ?thesis using "1.prems" by (subst (asm) dec_digits.simps) simp
  next
    case False
    then have "dec_digits n = dec_digits (n div 10) @ [n mod 10]" by (subst dec_digits.simps) simp
    then show ?thesis using "1.prems" "1.IH" [OF False] by auto
  qed
qed

lemma dec_digits_foldl: "foldl (\<lambda>a d. 10 * a + d) 0 (dec_digits n) = n"
proof (induction n rule: dec_digits.induct)
  case (1 n)
  then show ?case by (subst dec_digits.simps) auto
qed

lemma foldl_cong_set: "(\<And>a x. x \<in> set xs \<Longrightarrow> f a x = g a x) \<Longrightarrow> foldl f a xs = foldl g a xs"
  by (induction xs arbitrary: a) auto

lemma digits_value_nat_text [simp]: "digits_value (nat_text n) = n"
proof -
  have "digits_value (nat_text n) = foldl (\<lambda>a d. 10 * a + unit_digit (digit_unit d)) 0 (dec_digits n)"
    by (simp add: digits_value_def nat_text_def foldl_map)
  also have "\<dots> = foldl (\<lambda>a d. 10 * a + d) 0 (dec_digits n)"
    by (rule foldl_cong_set) (simp add: unit_digit_def unat_digit_unit dec_digits_less)
  finally show ?thesis by (simp add: dec_digits_foldl)
qed

lemma dec_digits_not_Nil [simp]: "dec_digits n \<noteq> []"
  by (subst dec_digits.simps) simp

lemma nat_text_not_Nil [simp]: "nat_text n \<noteq> []"
  by (simp add: nat_text_def)

lemma nat_text_digits: "u \<in> set (nat_text n) \<Longrightarrow> is_digit u"
  by (auto simp: nat_text_def is_digit_nat unat_digit_unit dec_digits_less dest: dec_digits_less)

lemma hd_dec_digits: "0 < n \<Longrightarrow> 0 < hd (dec_digits n)"
proof (induction n rule: dec_digits.induct)
  case (1 n)
  then show ?case by (subst dec_digits.simps) auto
qed

lemma hd_nat_text: "0 < n \<Longrightarrow> hd (nat_text n) \<noteq> 48"
proof
  assume n: "0 < n" and h: "hd (nat_text n) = 48"
  have d: "hd (dec_digits n) < 10" by (rule dec_digits_less [of _ n]) simp
  have "unat (hd (nat_text n)) = 48 + hd (dec_digits n)"
    using d by (simp add: nat_text_def hd_map unat_digit_unit)
  then show False using h hd_dec_digits [OF n] by simp
qed

lemma length_dec_digits: "n < 10 ^ k \<Longrightarrow> 0 < k \<Longrightarrow> length (dec_digits n) \<le> k"
proof (induction n arbitrary: k rule: dec_digits.induct)
  case (1 n)
  show ?case
  proof (cases "n < 10")
    case True
    then show ?thesis using 1 by (subst dec_digits.simps) simp
  next
    case False
    then obtain k' where k: "k = Suc k'" "0 < k'" using "1.prems" by (cases k; cases "k - 1") auto
    then have "n div 10 < 10 ^ k'" using "1.prems" by (simp add: less_mult_imp_div_less)
    then show ?thesis using "1.IH" [OF False, of k'] False k by (subst dec_digits.simps) simp
  qed
qed

lemma strip10_spec: "strip10 n = (s, z) \<Longrightarrow> n = s * 10 ^ z \<and> (n \<noteq> 0 \<longrightarrow> s \<noteq> 0)"
proof (induction n arbitrary: s z rule: strip10.induct)
  case (1 n)
  show ?case
  proof (cases "n \<noteq> 0 \<and> n mod 10 = 0")
    case True
    obtain s' z' where e: "strip10 (n div 10) = (s', z')" by (cases "strip10 (n div 10)")
    have "(s, z) = (s', Suc z')" using "1.prems" True e by (subst (asm) strip10.simps) simp
    then show ?thesis using "1.IH" [OF True e] True by auto
  next
    case False
    then have "(s, z) = (n, 0)" using "1.prems" by (subst (asm) strip10.simps) auto
    then show ?thesis by simp
  qed
qed

lemma dec_digits_times10: "0 < s \<Longrightarrow> dec_digits (s * 10 ^ z) = dec_digits s @ replicate z 0"
proof (induction z)
  case (Suc z)
  have "dec_digits (s * 10 ^ Suc z) = dec_digits (s * 10 ^ z) @ [0]"
    using Suc.prems by (subst dec_digits.simps) simp
  then show ?case using Suc by (simp add: replicate_append_same)
qed simp

lemma num_text_int_num:
  assumes "\<bar>i\<bar> < 10 ^ 21" shows "num_text (int_num i) = int_text i"
proof (cases "i = 0")
  case True
  then show ?thesis by (simp add: int_num_def int_text_def nat_text_def dec_digits.simps digit_unit_def js_def)
next
  case False
  obtain s z where e: "strip10 (nat \<bar>i\<bar>) = (s, z)" by (cases "strip10 (nat \<bar>i\<bar>)")
  have n: "nat \<bar>i\<bar> = s * 10 ^ z" and s: "0 < s" using strip10_spec [OF e] False by auto
  have dg: "nat_text (nat \<bar>i\<bar>) = nat_text s @ replicate z (digit_unit 0)"
    by (simp add: nat_text_def n dec_digits_times10 [OF s])
  have "length (dec_digits (nat \<bar>i\<bar>)) \<le> 21"
    using assms by (intro length_dec_digits) (auto simp: nat_less_iff)
  then have len: "length (nat_text s) + z \<le> 21" using dec_digits_times10 [OF s, of z] n
    by (simp add: nat_text_def)
  have "num_layout (nat_text s) (int (length (nat_text s)) + int z) = nat_text (nat \<bar>i\<bar>)"
    using len by (simp add: num_layout_def Let_def dg)
  then show ?thesis using False e by (simp add: int_num_def int_text_def js_words)
qed

text \<open>What follows a value in canonical text: nothing, a comma or a closing bracket.\<close>

definition delimiter :: "jsstring \<Rightarrow> bool" where
  "delimiter r \<longleftrightarrow> r = [] \<or> hd r = 44 \<or> hd r = 93 \<or> hd r = 125"

lemma takeWhile_digits: "delimiter r \<Longrightarrow> takeWhile is_digit (nat_text n @ r) = nat_text n"
  "delimiter r \<Longrightarrow> dropWhile is_digit (nat_text n @ r) = r"
  by (cases r; simp add: takeWhile_append2 dropWhile_append2 nat_text_digits;
      auto simp: delimiter_def unit_class_defs)+

lemma parse_number_int_text:
  assumes "delimiter r" "\<bar>i\<bar> \<le> 2 ^ 53"
  shows "parse_number (int_text i @ r) = Some (int_num i, r)"
proof -
  have tail: "parse_frac r = Some ([], r)" "parse_exp r = Some (0, r)"
    using assms(1) by (cases r; auto simp: parse_frac_def parse_exp_def delimiter_def)+
  have num: "dec_num neg n 0 = num_of_bigint (if neg then - int n else int n)" for neg n
    by (cases "n = 0") (simp_all add: dec_num_def num_of_bigint_exact Let_def)
  have ok: "\<not> (hd (nat_text n) = 48 \<and> length (nat_text n) \<noteq> 1)" for n
  proof (cases "n = 0")
    case False then show ?thesis using hd_nat_text [of n] by simp
  qed (simp add: nat_text_def dec_digits.simps)
  have fst_digit: "\<exists>u t. nat_text n = u # t \<and> u \<noteq> 45" for n
    using nat_text_digits [of "hd (nat_text n)" n] by (cases "nat_text n") (auto simp: unit_class_defs)
  show ?thesis
  proof (cases "i < 0")
    case True
    then show ?thesis using ok [of "nat (- i)"] assms(2)
      by (simp add: parse_number_def Let_def int_text_def js_words takeWhile_digits assms(1) tail num num_of_bigint_exact)
  next
    case False
    obtain u t where ut: "nat_text (nat i) = u # t" "u \<noteq> 45" using fst_digit by blast
    then have "(case nat_text (nat i) @ r of u # r' \<Rightarrow> if u = 45 then (True, r') else (False, nat_text (nat i) @ r) | [] \<Rightarrow> (False, nat_text (nat i) @ r))
       = (False, nat_text (nat i) @ r)" by simp
    then show ?thesis using ok [of "nat i"] assms(2) False
      by (simp add: parse_number_def Let_def int_text_def takeWhile_digits assms(1) tail num num_of_bigint_exact)
  qed
qed



subsection \<open>Values\<close>

text \<open>The values whose text is read back exactly: integers up to \<open>2 ^ 53\<close>, distinct keys.\<close>

fun exact :: "jsval \<Rightarrow> bool" where
  "exact VNull = True"
| "exact (VBool b) = True"
| "exact (VNum n) = (\<exists>i. n = int_num i \<and> \<bar>i\<bar> \<le> 2 ^ 53)"
| "exact (VStr s) = True"
| "exact (VArr xs) = list_all exact xs"
| "exact (VObj fs) = (distinct (map fst fs) \<and> list_all (\<lambda>(k, v). v = VUndef \<or> exact v) fs)"
| "exact _ = False"

lemma put_index_keys: "fst ` set (put_index i k v fs) = insert k (fst ` set fs)"
proof (induction fs)
  case (Cons x fs)
  obtain k' v' where x: "x = (k', v')" by (cases x)
  show ?case
    using Cons by (cases "key_index k'") (auto simp: x simp del: image_insert, auto simp: x)
qed simp

lemma put_index_distinct:
  "k \<notin> fst ` set fs \<Longrightarrow> distinct (map fst fs) \<Longrightarrow> distinct (map fst (put_index i k v fs))"
proof (induction fs)
  case (Cons x fs)
  obtain k' v' where x: "x = (k', v')" by (cases x)
  show ?case
    using Cons put_index_keys [of i k v fs] by (cases "key_index k'") (auto simp: x)
qed simp

lemma put_index_map_of: "k \<notin> fst ` set fs \<Longrightarrow> map_of (put_index i k v fs) = (map_of fs)(k \<mapsto> v)"
proof (induction fs)
  case (Cons x fs)
  obtain k' v' where x: "x = (k', v')" by (cases x)
  show ?case
    using Cons by (cases "key_index k'") (auto simp: x fun_upd_twist)
qed simp

lemma map_of_replace:
  "map_of (map (\<lambda>(k', v'). (k', if k' = k then v else v')) fs) j =
     (if j = k then (if k \<in> fst ` set fs then Some v else None) else map_of fs j)"
  by (induction fs) (auto, (metis fst_conv image_eqI)?)

lemma own_put_distinct: "distinct (map fst fs) \<Longrightarrow> distinct (map fst (own_put fs k v))"
proof -
  assume d: "distinct (map fst fs)"
  moreover have "map fst (map (\<lambda>(k', v'). (k', if k' = k then v else v')) fs) = map fst fs"
    by (induction fs) auto
  ultimately show ?thesis
    by (auto simp: own_put_def put_index_distinct simp del: map_map split: option.splits)
qed

lemma own_put_map_of: "map_of (own_put fs k v) = (map_of fs)(k \<mapsto> v)"
proof (cases "k \<in> fst ` set fs")
  case True
  then show ?thesis by (auto simp: own_put_def map_of_replace fun_eq_iff)
next
  case False
  then have "map_of (fs @ [(k, v)]) = (map_of fs)(k \<mapsto> v)"
    by (auto simp: fun_eq_iff map_add_def dom_map_of_conv_image_fst [symmetric] domIff split: option.splits)
  with False show ?thesis by (auto simp: own_put_def put_index_map_of split: option.splits)
qed

lemma same_json_VObj:
  assumes "distinct (map fst fs)" "distinct (map fst gs)"
    and "\<And>k. rel_option same_json (map_of fs k) (map_of gs k)"
  shows "same_json (VObj fs) (VObj gs)"
proof -
  let ?F = "\<lambda>fs :: fields. map (\<lambda>(k, v). (k, norm_json v)) (filter (\<lambda>(k, v). v \<noteq> VUndef) fs)"
  have F: "(k, w) \<in> set (?F fs) \<longleftrightarrow> (\<exists>v. map_of fs k = Some v \<and> v \<noteq> VUndef \<and> w = norm_json v)"
    if "distinct (map fst fs)" for k w and fs :: fields
    using that by (auto simp: map_of_eq_Some_iff_distinct image_iff)
  have "set (?F fs) = set (?F gs)"
  proof (intro set_eqI)
    fix kw :: "jsstring \<times> jsval"
    obtain k w where kw: "kw = (k, w)" by (cases kw)
    have "v \<noteq> VUndef \<longleftrightarrow> v' \<noteq> VUndef" "norm_json v = norm_json v'" if "same_json v v'" for v v'
      using that norm_json_VUndef [of v] norm_json_VUndef [of v'] by (auto simp: same_json_def)
    then show "kw \<in> set (?F fs) \<longleftrightarrow> kw \<in> set (?F gs)"
      unfolding kw F [OF assms(1)] F [OF assms(2)] using assms(3) [of k]
      by (cases "map_of fs k"; cases "map_of gs k") auto
  qed
  moreover have "distinct (map fst (?F fs))" if "distinct (map fst fs)" for fs :: fields
    using that by (induction fs) (auto simp: image_iff, force?)
  ultimately have "sort_key fst (?F fs) = sort_key fst (?F gs)"
    using assms(1,2) by (intro sort_key_unique) blast+
  moreover have "sort_key fst (?F fs) = ?F (sort_key fst fs)" for fs :: fields
    by (simp add: sort_key_map_snd filter_sort)
  ultimately show ?thesis by (simp add: same_json_def)
qed

lemma same_json_VArr: "list_all2 same_json xs ys \<Longrightarrow> same_json (VArr xs) (VArr ys)"
  by (induction rule: list_all2_induct) (auto simp: same_json_def)

lemma canon_first: "exact v \<Longrightarrow> \<exists>c t. canon v = c # t \<and> \<not> json_ws c \<and> c \<noteq> 93 \<and> c \<noteq> 125"
proof (cases v)
  case (VNum n)
  assume "exact v"
  then obtain i where i: "n = int_num i" "\<bar>i\<bar> \<le> 2 ^ 53" using VNum by auto
  then have dg: "canon v = int_text i" using VNum by (simp add: num_text_int_num)
  show ?thesis
  proof (cases "i < 0")
    case True
    then show ?thesis by (simp add: dg int_text_def js_words json_ws_def)
  next
    case False
    obtain u t where u: "nat_text (nat i) = u # t" by (cases "nat_text (nat i)") auto
    then have "is_digit u" using nat_text_digits [of u "nat i"] by simp
    then show ?thesis using False by (auto simp: dg int_text_def u json_ws_def unit_class_defs)
  qed
qed (auto simp: js_words json_ws_def quote_text_def arr_text_def obj_text_def)

lemma skip_ws_Cons [simp]: "\<not> json_ws c \<Longrightarrow> skip_ws (c # r) = c # r"
  by (simp add: skip_ws_def)

lemma not_json_ws [simp]: "\<not> json_ws 34" "\<not> json_ws 44" "\<not> json_ws 58" "\<not> json_ws 91" "\<not> json_ws 93"
  "\<not> json_ws 123" "\<not> json_ws 125" "\<not> json_ws 110" "\<not> json_ws 116" "\<not> json_ws 102"
  by (simp_all add: json_ws_def)

definition member_text :: "jsstring \<times> jsval \<Rightarrow> jsstring" where
  "member_text kv = quote_text (fst kv) @ [58] @ canon (snd kv)"

lemma parse_elems_canon:
  assumes "\<And>x n r. x \<in> set xs \<Longrightarrow> exact x \<Longrightarrow> delimiter r \<Longrightarrow> 2 * length (canon x) \<le> n \<Longrightarrow>
      \<exists>w. parse_val n (canon x @ r) = Some (w, r) \<and> same_json w x"
    and "list_all exact xs" "xs \<noteq> []" "2 * length (js_join comma (map canon xs)) + 1 \<le> n"
  shows "\<exists>ws. parse_elems n (js_join comma (map canon xs) @ 93 # r) = Some (ws, r) \<and> list_all2 same_json ws xs"
  using assms(3,1,2,4)
proof (induction xs arbitrary: n rule: list_nonempty_induct)
  case (single x)
  then obtain m where n: "n = Suc m" by (cases n) auto
  obtain w where "parse_val m (canon x @ 93 # r) = Some (w, 93 # r)" "same_json w x"
    using single.prems(1) [of x "93 # r" m] single.prems(2,3) by (auto simp: delimiter_def n)
  then show ?case by (simp add: n)
next
  case (cons x xs)
  let ?j = "js_join comma (map canon xs)"
  have j: "js_join comma (map canon (x # xs)) = canon x @ 44 # ?j"
    using cons.hyps by (simp add: js_join_Cons comma_def)
  obtain m where n: "n = Suc m" using cons.prems(3) by (cases n) auto
  obtain w where w: "parse_val m (canon x @ 44 # ?j @ 93 # r) = Some (w, 44 # ?j @ 93 # r)" "same_json w x"
    using cons.prems(1) [of x "44 # ?j @ 93 # r" m] cons.prems(2,3) by (auto simp: delimiter_def n j simp del: list.map)
  obtain ws where "parse_elems m (?j @ 93 # r) = Some (ws, r)" "list_all2 same_json ws xs"
    using cons.IH [of m] cons.prems(1,2,3) by (auto simp: n j simp del: list.map)
  with w show ?case by (simp add: n j del: list.map)
qed

lemma parse_members_canon:
  assumes "\<And>k x n r. (k, x) \<in> set fs \<Longrightarrow> exact x \<Longrightarrow> delimiter r \<Longrightarrow> 2 * length (canon x) \<le> n \<Longrightarrow>
      \<exists>w. parse_val n (canon x @ r) = Some (w, r) \<and> same_json w x"
    and "list_all (exact \<circ> snd) fs" "fs \<noteq> []" "2 * length (js_join comma (map member_text fs)) + 1 \<le> n"
    and "distinct (map fst acc)" "distinct (map fst fs)" "fst ` set acc \<inter> fst ` set fs = {}"
  shows "\<exists>gs. parse_members n acc (js_join comma (map member_text fs) @ 125 # r) = Some (gs, r) \<and>
      distinct (map fst gs) \<and> (\<forall>k. rel_option same_json (map_of gs k) ((map_of acc ++ map_of fs) k))"
  using assms(3,1,2,4,5,6,7)
proof (induction fs arbitrary: n acc rule: list_nonempty_induct)
  case (single kx)
  obtain k x where kx: "kx = (k, x)" by (cases kx)
  obtain m where n: "n = Suc m" using single.prems(3) by (cases n) auto
  obtain w where "parse_val m (canon x @ 125 # r) = Some (w, 125 # r)" "same_json w x"
    using single.prems(1) [of k x "125 # r" m] single.prems(2,3)
    by (auto simp: delimiter_def n kx member_text_def)
  moreover have "rel_option same_json (map_of acc j) (map_of acc j)" for j
    by (rule option.rel_refl) (simp add: same_json_def)
  ultimately show ?case using single.prems(4)
    by (auto simp: n kx member_text_def quote_text_def parse_str_quote own_put_distinct own_put_map_of map_add_def)
next
  case (cons kx fs)
  obtain k x where kx: "kx = (k, x)" by (cases kx)
  let ?j = "js_join comma (map member_text fs)"
  have j: "js_join comma (map member_text ((k, x) # fs)) = quote_text k @ [58] @ canon x @ 44 # ?j"
    using cons.hyps by (simp add: js_join_Cons comma_def member_text_def kx)
  obtain m where n: "n = Suc m" using cons.prems(3) by (cases n) auto
  obtain w where w: "parse_val m (canon x @ 44 # ?j @ 125 # r) = Some (w, 44 # ?j @ 125 # r)" "same_json w x"
    using cons.prems(1) [of k x "44 # ?j @ 125 # r" m] cons.prems(2,3)
    by (auto simp: delimiter_def n j kx simp del: list.map)
  have "fst ` set (own_put acc k w) = insert k (fst ` set acc)"
    by (simp only: dom_map_of_conv_image_fst [symmetric] own_put_map_of dom_fun_upd option.simps if_False)
  then have disj: "fst ` set (own_put acc k w) \<inter> fst ` set fs = {}"
    using cons.prems(5,6) by (auto simp: kx)
  have fuel: "2 * length (js_join comma (map member_text fs)) + 1 \<le> m"
    using cons.prems(3) by (simp add: n kx j del: list.map)
  have sub: "\<exists>w. parse_val n (canon x @ r) = Some (w, r) \<and> same_json w x"
    if "(k, x) \<in> set fs" "exact x" "delimiter r" "2 * length (canon x) \<le> n" for k x n r
    using that by (intro cons.prems(1)) auto
  have "\<exists>gs. parse_members m (own_put acc k w) (?j @ 125 # r) = Some (gs, r) \<and> distinct (map fst gs) \<and>
      (\<forall>i. rel_option same_json (map_of gs i) ((map_of (own_put acc k w) ++ map_of fs) i))"
    by (rule cons.IH [OF _ _ fuel own_put_distinct [OF cons.prems(4)] _ disj])
      (use sub cons.prems(2,5) in auto)
  then obtain gs where gs: "parse_members m (own_put acc k w) (?j @ 125 # r) = Some (gs, r)" "distinct (map fst gs)"
      "\<forall>i. rel_option same_json (map_of gs i) ((map_of (own_put acc k w) ++ map_of fs) i)"
    by blast
  have "rel_option same_json (map_of gs i) ((map_of acc ++ map_of (kx # fs)) i)" for i
  proof (cases "i = k")
    case True
    then have "map_of fs i = None" using cons.prems(5) by (simp add: kx map_of_eq_None_iff)
    then have "(map_of (own_put acc k w) ++ map_of fs) i = Some w"
        "(map_of acc ++ map_of (kx # fs)) i = Some x"
      using True by (simp_all add: own_put_map_of map_add_def kx)
    then show ?thesis using gs(3) [rule_format, of i] w(2)
      by (cases "map_of gs i") (auto simp: same_json_def)
  next
    case False
    then have "(map_of (own_put acc k w) ++ map_of fs) i = (map_of acc ++ map_of (kx # fs)) i"
      by (simp add: own_put_map_of map_add_def kx split: option.splits)
    then show ?thesis using gs(3) [rule_format, of i] by simp
  qed
  moreover have "parse_members n acc (js_join comma (map member_text (kx # fs)) @ 125 # r) = Some (gs, r)"
    using gs(1) w(1) by (simp add: n j kx quote_text_def parse_str_quote del: list.map)
  ultimately show ?case using gs(2) by blast
qed


lemma js_join_first: "ws \<noteq> [] \<Longrightarrow> hd ws = c # t \<Longrightarrow> \<exists>t'. js_join sep ws = c # t'"
  by (induction sep ws rule: js_join.induct) auto

lemma strip_prefix_append [simp]: "strip_prefix p (p @ r) = Some r"
  by (simp add: strip_prefix_def)

lemma canon_VObj: "canon (VObj fs) = [123] @ js_join comma (map member_text (filter (\<lambda>(k, v). v \<noteq> VUndef) (sort_key fst fs))) @ [125]"
proof -
  have "(\<lambda>(k, t). k @ [58] @ t) \<circ> (\<lambda>(k, v). (quote_text k, canon v)) = member_text"
    by (auto simp: member_text_def fun_eq_iff)
  then show ?thesis by (simp add: obj_text_def)
qed

lemma parse_val_canon:
  "exact v \<Longrightarrow> delimiter r \<Longrightarrow> 2 * length (canon v) \<le> n \<Longrightarrow>
     \<exists>w. parse_val n (canon v @ r) = Some (w, r) \<and> same_json w v"
proof (induction v arbitrary: n r)
  case VNull
  then show ?case using strip_prefix_append [of "js ''null''" r]
    by (cases n) (auto simp: js_words same_json_def simp del: strip_prefix_append)
next
  case (VBool b)
  then show ?case using strip_prefix_append [of "js ''true''" r] strip_prefix_append [of "js ''false''" r]
    by (cases n; cases b) (auto simp: js_words same_json_def simp del: strip_prefix_append)
next
  case (VNum x)
  then obtain i where i: "x = int_num i" "\<bar>i\<bar> \<le> 2 ^ 53" by auto
  then have dg: "canon (VNum x) = int_text i" by (simp add: num_text_int_num)
  obtain c t where c: "int_text i = c # t" "c = 45 \<or> is_digit c"
  proof (cases "i < 0")
    case False
    obtain u t where u: "nat_text (nat i) = u # t" by (cases "nat_text (nat i)") auto
    then have "is_digit u" using nat_text_digits [of u "nat i"] by simp
    then show ?thesis using False u by (auto simp: int_text_def intro: that)
  qed (auto simp: int_text_def js_words intro: that)
  obtain m where n: "n = Suc m" using VNum.prems(3) dg c by (cases n) auto
  have ws: "\<not> json_ws c" "c \<noteq> 34" "c \<noteq> 123" "c \<noteq> 91" "c \<noteq> 116" "c \<noteq> 102" "c \<noteq> 110"
    using c(2) by (auto simp: json_ws_def unit_class_defs)
  have "parse_number (c # t @ r) = Some (int_num i, r)"
    using parse_number_int_text [OF VNum.prems(2) i(2)] by (simp add: c)
  moreover have "num_text (int_num i) = c # t" using dg i c by simp
  ultimately show ?case by (simp add: n ws i same_json_def)
next
  case (VStr s)
  then show ?case by (cases n) (auto simp: quote_text_def parse_str_quote same_json_def)
next
  case (VArr xs)
  show ?case
  proof (cases "xs = []")
    case True
    then show ?thesis using VArr.prems by (cases n) (auto simp: arr_text_def same_json_def)
  next
    case False
    have all: "list_all exact xs" using VArr.prems(1) by simp
    obtain m where n: "n = Suc m" "2 * length (js_join comma (map canon xs)) + 1 \<le> m"
      using VArr.prems(3) by (cases n) (auto simp: arr_text_def)
    obtain ws where ws: "parse_elems m (js_join comma (map canon xs) @ 93 # r) = Some (ws, r)" "list_all2 same_json ws xs"
      using parse_elems_canon [OF VArr.IH all False n(2)] by blast
    obtain c t where "canon (hd xs) = c # t" "\<not> json_ws c" "c \<noteq> 93"
      using canon_first [of "hd xs"] all False by (cases xs) auto
    then obtain t' where "js_join comma (map canon xs) = c # t'" "\<not> json_ws c" "c \<noteq> 93"
      using js_join_first [of "map canon xs" c t comma] False by (auto simp: hd_map)
    with ws show ?thesis by (auto simp: n arr_text_def same_json_VArr)
  qed
next
  case (VObj fs)
  let ?g = "filter (\<lambda>(k, v). v \<noteq> VUndef) (sort_key fst fs)"
  show ?case
  proof (cases "?g = []")
    case True
    then have "canon (VObj fs) = [123, 125]" "norm_json (VObj fs) = VObj []" by (simp_all add: canon_VObj del: canon.simps)
    then show ?thesis using VObj.prems by (cases n) (auto simp: same_json_def)
  next
    case False
    have all: "list_all (exact \<circ> snd) ?g" and d: "distinct (map fst fs)"
      using VObj.prems(1) by (auto simp: list_all_iff)
    have dg: "distinct (map fst ?g)" using d
      by (intro distinct_map_filter) (simp add: distinct_map)
    obtain m where n: "n = Suc m" "2 * length (js_join comma (map member_text ?g)) + 1 \<le> m"
      using VObj.prems(3) by (cases n) (auto simp: canon_VObj simp del: canon.simps)
    have IH: "\<exists>w. parse_val n (canon x @ r) = Some (w, r) \<and> same_json w x"
      if "(k, x) \<in> set ?g" "exact x" "delimiter r" "2 * length (canon x) \<le> n" for k x n r
      using that by (auto intro: VObj.IH)
    have "\<exists>gs. parse_members m [] (js_join comma (map member_text ?g) @ 125 # r) = Some (gs, r) \<and>
        distinct (map fst gs) \<and> (\<forall>k. rel_option same_json (map_of gs k) ((map_of [] ++ map_of ?g) k))"
      by (rule parse_members_canon [OF _ all False n(2)]) (use IH dg in auto)
    then obtain gs where gs: "parse_members m [] (js_join comma (map member_text ?g) @ 125 # r) = Some (gs, r)"
        "distinct (map fst gs)" "\<forall>k. rel_option same_json (map_of gs k) (map_of ?g k)" by auto
    obtain t where "js_join comma (map member_text ?g) = 34 # t"
      using js_join_first [of "map member_text ?g" 34 _ comma] False
      by (auto simp: hd_map member_text_def quote_text_def)
    with gs have "parse_val n (canon (VObj fs) @ r) = Some (VObj gs, r)"
      by (simp add: n canon_VObj del: canon.simps)
    moreover have "same_json (VObj gs) (VObj ?g)" using gs dg by (intro same_json_VObj) auto
    moreover have "same_json (VObj ?g) (VObj fs)"
      by (simp add: same_json_def filter_sort sort_key_id_if_sorted)
    ultimately show ?thesis by (auto simp: same_json_def)
  qed
qed auto

lemma json_parse_canon: "exact v \<Longrightarrow> \<exists>w. json_parse (canon v) = Some w \<and> same_json w v"
  using parse_val_canon [of v "[]" "2 * length (canon v) + 2"]
  by (auto simp: json_parse_def delimiter_def skip_ws_def)

lemma canon_inject: "exact v \<Longrightarrow> exact w \<Longrightarrow> canon v = canon w \<longleftrightarrow> same_json v w"
  using json_parse_canon [of v] json_parse_canon [of w] same_json_canon [of v w]
  by (auto simp: same_json_def)

subsection \<open>Parsed objects\<close>

lemma parse_members_distinct:
  "parse_members n acc s = Some (fs, r) \<Longrightarrow> distinct (map fst acc) \<Longrightarrow> distinct (map fst fs)"
proof (induction n arbitrary: acc s)
  case (Suc n)
  then show ?case
    by (auto simp: own_put_distinct split: list.splits if_splits option.splits)
qed simp

lemma parse_val_distinct: "parse_val n s = Some (VObj fs, r) \<Longrightarrow> distinct (map fst fs)"
  by (cases n) (auto split: list.splits if_splits option.splits dest: parse_members_distinct)

lemma json_parse_distinct: "json_parse s = Some (VObj fs) \<Longrightarrow> distinct (map fst fs)"
  using parse_val_distinct by (fastforce simp: json_parse_def simp del: parse_val.simps
      split: option.splits if_splits)

lemma same_json_field:
  assumes "same_json (VObj gs) (VObj fs)" "distinct (map fst gs)" "map_of fs k = Some v" "v \<noteq> VUndef"
  shows "\<exists>w. map_of gs k = Some w \<and> same_json w v"
proof -
  have "(k, norm_json v) \<in> (\<lambda>(k, v). (k, norm_json v)) ` {(k, v) \<in> set fs. v \<noteq> VUndef}"
    using assms(3,4) by (force dest: map_of_SomeD)
  also have "\<dots> = set (map (\<lambda>(k, v). (k, norm_json v)) (filter (\<lambda>(k, v). v \<noteq> VUndef) (sort_key fst fs)))"
    by (auto simp: case_prod_unfold)
  also have "\<dots> = set (map (\<lambda>(k, v). (k, norm_json v)) (filter (\<lambda>(k, v). v \<noteq> VUndef) (sort_key fst gs)))"
    using assms(1) by (simp add: same_json_def)
  finally obtain w where "(k, w) \<in> set gs" "norm_json w = norm_json v" by auto
  then show ?thesis using assms(2) by (auto simp: map_of_eq_Some_iff_distinct same_json_def)
qed

lemma same_json_atom:
  "same_json w (VStr s) \<longleftrightarrow> w = VStr s" "same_json w (VNum n) \<longleftrightarrow> w = VNum n"
  "same_json w (VBool b) \<longleftrightarrow> w = VBool b" "same_json w VNull \<longleftrightarrow> w = VNull"
  by (cases w; auto simp: same_json_def)+

lemma same_json_obj: "same_json w (VObj fs) \<Longrightarrow> \<exists>gs. w = VObj gs"
  by (cases w) (auto simp: same_json_def)

text \<open>An object printed and parsed back has the same fields.\<close>

lemma json_parse_canon_obj:
  assumes "exact (VObj fs)"
  obtains gs where "json_parse (canon (VObj fs)) = Some (VObj gs)"
    "\<And>k v. map_of fs k = Some v \<Longrightarrow> v \<noteq> VUndef \<Longrightarrow> \<exists>w. map_of gs k = Some w \<and> same_json w v"
proof -
  obtain w where w: "json_parse (canon (VObj fs)) = Some w" "same_json w (VObj fs)"
    using json_parse_canon [OF assms] by blast
  then obtain gs where gs: "w = VObj gs" using same_json_obj by blast
  show ?thesis
    using that [of gs] w gs json_parse_distinct [of _ gs] same_json_field [of gs fs] by blast
qed

end
