(* ===== verification/Canonical_Bytes.thy ===== *)
theory Canonical_Bytes
  imports Encodings Json_Round_Trip
begin

section \<open>The bytes of canonical JSON\<close>

text \<open>
  Canonical text holds no lone surrogate, so its UTF-8 bytes decode back to it and determine the
  value that was printed (\<open>canon_bytes_inject\<close>); and a bound on their number.
\<close>

subsection \<open>Canonical text is valid Unicode\<close>

definition surrogate :: "codeunit \<Rightarrow> bool" where
  "surrogate u \<longleftrightarrow> is_high u \<or> is_low u"

lemma lone_from_mono: "lone_from True s \<Longrightarrow> lone_from False s"
  by (cases s) auto

lemma lone_from_append:
  "\<not> lone_from b s \<Longrightarrow> \<not> lone_from False t \<Longrightarrow> \<not> lone_from b (s @ t)"
proof (induction b s rule: lone_from.induct)
  case (1 b)
  then show ?case using lone_from_mono by (cases b) auto
next
  case (2 b u us)
  then show ?case by (cases us) auto
qed

lemma lone_from_plain: "list_all (\<lambda>u. \<not> surrogate u) s \<Longrightarrow> \<not> lone_from b s"
  by (induction s arbitrary: b) (auto simp: surrogate_def)

lemma lone_from_plain_append:
  "s \<noteq> [] \<Longrightarrow> list_all (\<lambda>u. \<not> surrogate u) s \<Longrightarrow> lone_from b (s @ t) = lone_from False t"
proof (induction s arbitrary: b)
  case (Cons u s)
  then show ?case by (cases s) (auto simp: surrogate_def)
qed simp

lemma unat_small_not_surrogate: "unat u < 256 \<Longrightarrow> \<not> surrogate u"
  by (auto simp: surrogate_def unat_is_high unat_is_low)

lemma hex_unit_small: "d < 16 \<Longrightarrow> unat (hex_unit d) < 128"
  by (auto simp: hex_unit_def unat_word_ariths unat_of_nat)

lemma hex4_small: "u \<in> set (hex4 v) \<Longrightarrow> unat u < 128"
proof -
  have "unat v div 4096 < 16" using unat_unit_less [of v] by (simp add: less_mult_imp_div_less)
  then show "u \<in> set (hex4 v) \<Longrightarrow> unat u < 128"
    by (auto simp: hex4_def Let_def hex_unit_small)
qed

lemma escape_cases: "escape u = [u] \<or> (\<forall>w \<in> set (escape u). unat w < 128) \<and> \<not> surrogate u \<and> escape u \<noteq> []"
  by (auto simp: escape_def hex4_small surrogate_def unat_is_high unat_is_low word_less_nat_alt)

lemma escape_hd: "escape u = w # ws \<Longrightarrow> is_low w = is_low u"
  using escape_cases [of u] unat_small_not_surrogate [of w] by (auto simp: surrogate_def)

lemma lone_from_escape: "\<not> lone_from b s \<Longrightarrow> \<not> lone_from b (concat (map escape s))"
proof (induction b s rule: lone_from.induct)
  case (2 b u us)
  have IH: "\<not> lone_from (is_high u) (concat (map escape us))" using 2 by auto
  show ?case
  proof (cases "surrogate u")
    case True
    then have e: "escape u = [u]" using escape_cases [of u] by auto
    have "is_high u \<Longrightarrow> \<exists>v vs. us = v # vs \<and> is_low v" using "2.prems" by (cases us) auto
    moreover have "is_low v \<Longrightarrow> escape v = [v]" for v using escape_cases [of v] by (auto simp: surrogate_def)
    ultimately show ?thesis using "2.prems" IH by (auto simp: e)
  next
    case False
    then have "list_all (\<lambda>w. \<not> surrogate w) (escape u)" "escape u \<noteq> []"
      using escape_cases [of u] unat_small_not_surrogate by (force simp: list_all_iff)+
    moreover have "\<not> is_high u" using False by (simp add: surrogate_def)
    ultimately show ?thesis using IH by (simp add: lone_from_plain_append)
  qed
qed simp

lemma lone_from_join:
  "(\<And>w. w \<in> set ws \<Longrightarrow> \<not> lone_from False w) \<Longrightarrow> \<not> surrogate sep \<Longrightarrow> \<not> lone_from False (js_join sep ws)"
proof (induction sep ws rule: js_join.induct)
  case (3 sep w v ws)
  have "\<not> lone_from False (sep # js_join sep (v # ws))"
    using lone_from_plain_append [of "[sep]" False "js_join sep (v # ws)"] 3 by simp
  then show ?case using 3 by (simp add: lone_from_append)
qed auto

lemma unat_of_char: "unat (of_char c :: codeunit) < 256"
proof -
  have "(of_char c :: nat) < 2 ^ LENGTH(16)"
    using nat_of_char_less_256 [of c] by (rule order_less_trans) simp
  then have "unat (of_char c :: codeunit) = of_char c"
    using unat_of_nat [of "of_char c :: nat", where 'a = 16]
    by (simp add: of_nat_of_char del: unat_of_nat)
  then show ?thesis using nat_of_char_less_256 [of c] by simp
qed

lemma js_small: "u \<in> set (js s) \<Longrightarrow> unat u < 256"
  by (auto simp: js_def unat_of_char)

lemma digit_small: "is_digit u \<Longrightarrow> unat u < 256"
  by (simp add: is_digit_nat)

lemma num_text_small: "u \<in> set (num_text n) \<Longrightarrow> unat u < 256"
proof (cases n)
  case (Fin m e)
  have lay: "u \<in> set (num_layout ds k) \<Longrightarrow> \<forall>d \<in> set ds. unat d < 256 \<Longrightarrow> unat u < 256" for ds k
    by (auto simp: num_layout_def Let_def digit_unit_def js_small digit_small nat_text_digits
        split: if_splits dest!: in_set_takeD in_set_dropD)
  assume "u \<in> set (num_text n)"
  then show ?thesis using Fin lay js_small digit_small nat_text_digits
    by (auto simp: Let_def split: if_splits prod.splits)
qed (auto simp: js_small split: if_splits)

lemma plain_not_lone: "(\<And>u. u \<in> set s \<Longrightarrow> unat u < 256) \<Longrightarrow> \<not> lone_from b s"
  by (rule lone_from_plain) (auto simp: list_all_iff unat_small_not_surrogate)

lemma bracket_not_surrogate [simp]:
  "\<not> is_high 34" "\<not> is_low 34" "\<not> is_high 58" "\<not> is_low 58" "\<not> is_high 91" "\<not> is_low 91"
  "\<not> is_high 93" "\<not> is_low 93" "\<not> is_high 123" "\<not> is_low 123" "\<not> is_high 125" "\<not> is_low 125"
  by (simp_all add: is_high_def is_low_def)

lemma quote_text_unicode: "\<not> LONE_SURROGATE s \<Longrightarrow> \<not> lone_from b (quote_text s)"
  by (simp add: quote_text_def LONE_SURROGATE_def lone_from_append lone_from_escape)

lemma comma_not_surrogate [simp]: "\<not> surrogate comma"
  by (simp add: surrogate_def comma_def is_high_def is_low_def)

lemma canon_unicode: "emittable d v \<Longrightarrow> \<not> lone_from b (canon v)"
proof (induction d v arbitrary: b rule: emittable.induct)
  case (6 d xs)
  then have "\<not> lone_from False (js_join comma (map canon xs))"
    by (intro lone_from_join) (auto simp: list_all_iff)
  then show ?case by (simp add: arr_text_def lone_from_append)
next
  case (7 d fs)
  have "\<not> lone_from False (member_text (k, v))" if "(k, v) \<in> set (filter (\<lambda>(k, v). v \<noteq> VUndef) (sort_key fst fs))" for k v
    using that "7.prems" "7.IH" [of "(k, v)" k v]
    by (fastforce simp: member_text_def list_all_iff lone_from_append quote_text_unicode)
  then have "\<not> lone_from False (js_join comma (map member_text (filter (\<lambda>(k, v). v \<noteq> VUndef) (sort_key fst fs))))"
    by (intro lone_from_join) (auto simp del: set_filter)
  then show ?case by (simp add: canon_VObj lone_from_append del: canon.simps)
qed (auto simp: plain_not_lone js_small num_text_small quote_text_unicode)

lemma from_utf8_canon: "emittable d v \<Longrightarrow> from_utf8 (utf8 (canon v)) = canon v"
  by (rule from_utf8_utf8_lone) (rule canon_unicode)

lemma canon_bytes_inject:
  "emittable d v \<Longrightarrow> emittable d w \<Longrightarrow> exact v \<Longrightarrow> exact w \<Longrightarrow>
     utf8 (canon v) = utf8 (canon w) \<longleftrightarrow> same_json v w"
  by (metis canon_inject from_utf8_canon)

subsection \<open>How many bytes\<close>

definition unit_bytes :: "codeunit \<Rightarrow> nat" where
  "unit_bytes u = (if unat u < 0x80 then 1 else 3)"

lemma length_utf8_point: "length (utf8_point cp) \<le> 4" "cp < 0x10000 \<Longrightarrow> length (utf8_point cp) \<le> 3"
  "cp < 0x80 \<Longrightarrow> length (utf8_point cp) = 1"
  by (auto simp: utf8_point_def)

lemma length_utf8_unit: "length (utf8_point (unat (if is_high u \<or> is_low u then REPLACEMENT else u))) \<le> unit_bytes u"
  using length_utf8_point(2,3) [of "unat u"] length_utf8_point(2) [of "unat REPLACEMENT"] unat_unit_less [of u]
  by (auto simp: unit_bytes_def unat_is_high unat_is_low REPLACEMENT_def)

lemma length_utf8: "length (utf8 s) \<le> sum_list (map unit_bytes s)"
proof (induction s rule: utf8.induct)
  case (3 u v us)
  have "is_high u \<and> is_low v \<Longrightarrow> unit_bytes u + unit_bytes v = 6"
    by (auto simp: unit_bytes_def unat_is_high unat_is_low)
  then show ?case
    using 3 length_utf8_unit [of u] length_utf8_point(1) [of "code_point u v"]
    by (cases "is_high u \<and> is_low v") (auto simp del: split_paired_All)
qed (use length_utf8_unit in auto)

lemma unit_bytes_plain: "(\<And>u. u \<in> set s \<Longrightarrow> unat u < 128) \<Longrightarrow> sum_list (map unit_bytes s) = length s"
  by (induction s) (auto simp: unit_bytes_def)

lemma unit_bytes_bound: "sum_list (map unit_bytes s) \<le> 3 * length s"
  by (induction s) (auto simp: unit_bytes_def)

lemma unit_bytes_quote:
  assumes "\<And>u. u \<in> set s \<Longrightarrow> \<not> u < 32"
  shows "sum_list (map unit_bytes (quote_text s)) \<le> 3 * length s + 2"
proof -
  have esc: "sum_list (map unit_bytes (escape u)) \<le> 3" if "\<not> u < 32" for u
    using that by (auto simp: escape_def unit_bytes_def word_less_nat_alt)
  have "sum_list (map unit_bytes (concat (map escape s))) \<le> 3 * length s"
    using assms
  proof (induction s)
    case (Cons u s)
    then show ?case using esc [of u] by fastforce
  qed simp
  then show ?thesis by (simp add: quote_text_def unit_bytes_def)
qed

end
