(* ===== verification/Bridge_Constants.thy ===== *)
theory Bridge_Constants
  imports Js_Value
begin

section \<open>Constants and patterns (server-node/src/constants.ts)\<close>

text \<open>
  Every constant the modelled code uses, under its own name; lengths and counts are naturals,
  times integers.  A regular expression is the predicate it tests.
\<close>

definition MAX_PACKAGE_SETTINGS :: nat where "MAX_PACKAGE_SETTINGS = 8"
definition MAX_SETTING_LABEL_LENGTH :: nat where "MAX_SETTING_LABEL_LENGTH = 80"
definition MAX_CHALLENGE_CHARS :: nat where "MAX_CHALLENGE_CHARS = 2048"
definition MAX_TOKEN_CHARS :: nat where "MAX_TOKEN_CHARS = 4096"
definition MAX_SUBJECT_LENGTH :: nat where "MAX_SUBJECT_LENGTH = 256"
definition MIN_SECRET_BYTES :: nat where "MIN_SECRET_BYTES = 32"
definition MAX_COMMANDS_PER_POLL :: nat where "MAX_COMMANDS_PER_POLL = 16"
definition MAX_INPUT_BYTES :: nat where "MAX_INPUT_BYTES = 1048576"
definition MAX_GRANTED_KEYS :: nat where "MAX_GRANTED_KEYS = 512"
definition MAX_PAGE_RUNS_PER_USER :: nat where "MAX_PAGE_RUNS_PER_USER = 4"
definition CLOUD_UNRECOGNISED_READS :: nat where "CLOUD_UNRECOGNISED_READS = 3"
definition DEFAULT_MAX_BODY_BYTES :: nat where "DEFAULT_MAX_BODY_BYTES = 26 * 1024 * 1024"
definition DEFAULT_POLL_SECONDS :: int where "DEFAULT_POLL_SECONDS = 25"
definition MIN_POLL_SECONDS :: int where "MIN_POLL_SECONDS = 1"
definition MAX_POLL_SECONDS :: int where "MAX_POLL_SECONDS = 120"
definition PRESENCE_TTL_MS :: int where "PRESENCE_TTL_MS = 90000"
definition PRESENCE_RETENTION_MS :: int where "PRESENCE_RETENTION_MS = 30 * 24 * 60 * 60 * 1000"
definition DEFAULT_USER_TOKEN_TTL_SECONDS :: int where "DEFAULT_USER_TOKEN_TTL_SECONDS = 3600"
definition DEFAULT_CHALLENGE_TTL_SECONDS :: int where "DEFAULT_CHALLENGE_TTL_SECONDS = 120"
definition MAX_TOKEN_TTL_SECONDS :: int where "MAX_TOKEN_TTL_SECONDS = 30 * 24 * 60 * 60"
definition DEFAULT_RUN_TOKEN_TTL_SECONDS :: int where "DEFAULT_RUN_TOKEN_TTL_SECONDS = 600"
definition MAX_RUN_TOKEN_TTL_SECONDS :: int where "MAX_RUN_TOKEN_TTL_SECONDS = 3600"
definition DEFAULT_CALL_TIMEOUT_MS :: int where "DEFAULT_CALL_TIMEOUT_MS = 120000"
definition MIN_CALL_TIMEOUT_MS :: int where "MIN_CALL_TIMEOUT_MS = 1000"
definition MAX_CALL_TIMEOUT_MS :: int where "MAX_CALL_TIMEOUT_MS = 900000"
definition MAX_WAIT_FOR_USER_MS :: int where "MAX_WAIT_FOR_USER_MS = 900000"
definition RESULT_GRACE_MS :: int where "RESULT_GRACE_MS = 5000"
definition PICKUP_TIMEOUT_MS :: int where "PICKUP_TIMEOUT_MS = 15000"
definition PRESENCE_RECHECK_MS :: int where "PRESENCE_RECHECK_MS = 250"
definition CLOUD_POLL_INITIAL_MS :: int where "CLOUD_POLL_INITIAL_MS = 1000"
definition CLOUD_POLL_MAX_MS :: int where "CLOUD_POLL_MAX_MS = 5000"
definition CLOUD_REQUEST_TIMEOUT_MS :: int where "CLOUD_REQUEST_TIMEOUT_MS = 30000"
definition VERSION :: jsstring where "VERSION = js ''0.1.0''"
definition CONTRACT_FORMAT :: jsstring where "CONTRACT_FORMAT = js ''writ.contract/v1''"
definition DEFAULT_CLOUD_BASE :: jsstring where "DEFAULT_CLOUD_BASE = js ''https://api.usewrit.app''"
definition SECRET_KEY_PREFIX :: jsstring where "SECRET_KEY_PREFIX = js ''wsk_''"

lemmas constant_defs =
  MAX_PACKAGE_SETTINGS_def
  MAX_SETTING_LABEL_LENGTH_def
  MAX_CHALLENGE_CHARS_def
  MAX_TOKEN_CHARS_def
  MAX_SUBJECT_LENGTH_def
  MIN_SECRET_BYTES_def
  MAX_COMMANDS_PER_POLL_def
  MAX_INPUT_BYTES_def
  MAX_GRANTED_KEYS_def
  MAX_PAGE_RUNS_PER_USER_def
  CLOUD_UNRECOGNISED_READS_def
  DEFAULT_MAX_BODY_BYTES_def
  DEFAULT_POLL_SECONDS_def
  MIN_POLL_SECONDS_def
  MAX_POLL_SECONDS_def
  PRESENCE_TTL_MS_def
  PRESENCE_RETENTION_MS_def
  DEFAULT_USER_TOKEN_TTL_SECONDS_def
  DEFAULT_CHALLENGE_TTL_SECONDS_def
  MAX_TOKEN_TTL_SECONDS_def
  DEFAULT_RUN_TOKEN_TTL_SECONDS_def
  MAX_RUN_TOKEN_TTL_SECONDS_def
  DEFAULT_CALL_TIMEOUT_MS_def
  MIN_CALL_TIMEOUT_MS_def
  MAX_CALL_TIMEOUT_MS_def
  MAX_WAIT_FOR_USER_MS_def
  RESULT_GRACE_MS_def
  PICKUP_TIMEOUT_MS_def
  PRESENCE_RECHECK_MS_def
  CLOUD_POLL_INITIAL_MS_def
  CLOUD_POLL_MAX_MS_def
  CLOUD_REQUEST_TIMEOUT_MS_def

text \<open>Backoff: the growth factor and the jitter as fractions.\<close>

definition CLOUD_POLL_GROWTH :: "int \<times> int" where "CLOUD_POLL_GROWTH = (3, 2)"
definition CLOUD_POLL_JITTER :: "int \<times> int" where "CLOUD_POLL_JITTER = (1, 5)"

text \<open>A contract function key.\<close>

definition key_unit :: "codeunit \<Rightarrow> bool" where
  "key_unit u \<longleftrightarrow> is_lower u \<or> is_digit u \<or> is_unit (CHR ''.'') u \<or> is_unit (CHR ''_'') u \<or> is_unit (CHR ''-'') u"

definition FUNCTION_KEY_PATTERN :: "jsstring \<Rightarrow> bool" where
  "FUNCTION_KEY_PATTERN s \<longleftrightarrow>
     (case s of [] \<Rightarrow> False | u # us \<Rightarrow> (is_lower u \<or> is_digit u) \<and> length us \<le> 63 \<and> list_all key_unit us)"

definition SETTING_KEY_PATTERN :: "jsstring \<Rightarrow> bool" where
  "SETTING_KEY_PATTERN s \<longleftrightarrow> s \<noteq> [] \<and> length s \<le> 64 \<and> list_all (\<lambda>u. is_alnum u \<or> is_unit (CHR ''_'') u) s"

definition PUBLICATION_ID_PATTERN :: "jsstring \<Rightarrow> bool" where
  "PUBLICATION_ID_PATTERN s \<longleftrightarrow> take 4 s = js ''pub_'' \<and> length s = 26 \<and> list_all is_alnum (drop 4 s)"

definition BRIDGE_MEMBER_NAMES :: "jsstring list" where
  "BRIDGE_MEMBER_NAMES = map js
     [''handler'', ''express'', ''next'', ''userToken'', ''user'', ''challenge'', ''verify'', ''online'',
      ''approveDevice'', ''forgetDevices'', ''modeOf'', ''contract'', ''close'']"

lemma FUNCTION_KEY_PATTERN_length: "FUNCTION_KEY_PATTERN s \<Longrightarrow> 0 < length s \<and> length s \<le> 64"
  by (auto simp: FUNCTION_KEY_PATTERN_def split: list.splits)

lemma FUNCTION_KEY_PATTERN_units: "FUNCTION_KEY_PATTERN s \<Longrightarrow> u \<in> set s \<Longrightarrow> key_unit u"
  by (auto simp: FUNCTION_KEY_PATTERN_def key_unit_def list_all_iff split: list.splits)

end
