(* ===== verification/Tokens.thy ===== *)
theory Tokens
  imports Canonical_Bytes Bridge_Constants
begin

section \<open>User tokens and challenges (server-node/src/tokens.ts)\<close>

text \<open>
  A token is \<open>base64url(canonical JSON) "." base64url(HMAC-SHA256(secret, first part))\<close>.  The
  primitives of \<open>node:crypto\<close> are the record \<open>crypto\<close>, an argument of every function that uses
  them; the random nonce is an argument too.  Times are whole unix seconds.
\<close>

record crypto =
  hmac_sha256 :: "bytes \<Rightarrow> bytes \<Rightarrow> bytes"
  sha256 :: "bytes \<Rightarrow> bytes"
  ed25519_verify :: "bytes \<Rightarrow> bytes \<Rightarrow> bytes \<Rightarrow> bool"

datatype secret = SecretText jsstring | SecretBytes bytes

fun secretBytes :: "secret \<Rightarrow> bytes" where
  "secretBytes (SecretText s) = utf8 s"
| "secretBytes (SecretBytes b) = b"

record user_payload =
  up_sub :: jsstring
  up_exp :: int

record challenge_payload =
  cp_sub :: jsstring
  cp_key :: jsstring
  cp_nonce :: jsstring
  cp_exp :: int

subsection \<open>Strings and values\<close>

definition js_indexOf :: "codeunit \<Rightarrow> jsstring \<Rightarrow> nat option" where
  "js_indexOf c t = (if c \<in> set t then Some (length (takeWhile (\<lambda>u. u \<noteq> c) t)) else None)"

definition js_lastIndexOf :: "codeunit \<Rightarrow> jsstring \<Rightarrow> nat option" where
  "js_lastIndexOf c t =
     (if c \<in> set t then Some (length t - 1 - length (takeWhile (\<lambda>u. u \<noteq> c) (rev t))) else None)"

text \<open>\<open>Buffer.from(s, "ascii")\<close> and \<open>update(s, "ascii")\<close>: the low byte of each unit.\<close>

definition ascii :: "jsstring \<Rightarrow> bytes" where
  "ascii s = map (\<lambda>u. of_nat (unat u)) s"

subsection \<open>Signing and opening\<close>

definition mac :: "crypto \<Rightarrow> bytes \<Rightarrow> jsstring \<Rightarrow> jsstring" where
  "mac C secret body = toBase64Url (hmac_sha256 C secret (ascii body))"

definition signToken :: "crypto \<Rightarrow> secret \<Rightarrow> fields \<Rightarrow> bridge_error + jsstring" where
  "signToken C secret payload =
     res_bind (canonicalJson (VObj payload)) (\<lambda>text.
       let body = toBase64Url (utf8 text) in
       Inr (body @ [46] @ mac C (secretBytes secret) body))"

definition openToken :: "crypto \<Rightarrow> secret \<Rightarrow> jsval \<Rightarrow> fields option" where
  "openToken C secret token =
     (case token of
        VStr t \<Rightarrow>
          if length t = 0 \<or> length t > MAX_TOKEN_CHARS then None
          else (case js_indexOf 46 t of
            None \<Rightarrow> None
          | Some dot \<Rightarrow>
              if dot = 0 \<or> js_lastIndexOf 46 t \<noteq> Some dot then None
              else let body = take dot t; given = drop (Suc dot) t in
                (case (fromBase64Url body, fromBase64Url given) of
                   (Some bodyBytes, Some _) \<Rightarrow>
                     let expected = mac C (secretBytes secret) body in
                     if length given \<noteq> length expected then None
                     else if ascii given \<noteq> ascii expected then None
                     else (case json_parse (from_utf8 bodyBytes) of
                             Some (VObj payload) \<Rightarrow> Some payload
                           | _ \<Rightarrow> None)
                 | _ \<Rightarrow> None))
      | _ \<Rightarrow> None)"

definition subjectOf :: "jsval \<Rightarrow> jsstring option" where
  "subjectOf v =
     (case v of
        VNum n \<Rightarrow> if is_safe_integer n then Some (num_text n) else None
      | VStr s \<Rightarrow>
          if length s = 0 \<or> length s > MAX_SUBJECT_LENGTH then None
          else if list_ex (\<lambda>u. u < 0x20 \<or> u = 0x7f) s then None
          else Some s
      | _ \<Rightarrow> None)"

subsection \<open>User tokens\<close>

definition user_fields :: "jsstring \<Rightarrow> int \<Rightarrow> fields" where
  "user_fields sub x =
     [(js ''v'', VNum (int_num 1)), (js ''typ'', VStr (js ''user'')), (js ''sub'', VStr sub),
      (js ''exp'', VNum (int_num x))]"

definition mintUserToken :: "crypto \<Rightarrow> secret \<Rightarrow> jsstring \<Rightarrow> int \<Rightarrow> bridge_error + jsstring" where
  "mintUserToken C secret sub x = signToken C secret (user_fields sub x)"

definition readUserToken :: "crypto \<Rightarrow> secret \<Rightarrow> jsval \<Rightarrow> int \<Rightarrow> user_payload option" where
  "readUserToken C secret token nowSeconds =
     (case openToken C secret token of
        None \<Rightarrow> None
      | Some payload \<Rightarrow>
          if \<not> is_num (jget payload (js ''v'')) 1 \<or> jget payload (js ''typ'') \<noteq> VStr (js ''user'') then None
          else (case (subjectOf (jget payload (js ''sub'')), str_of (jget payload (js ''sub''))) of
            (Some sub, Some _) \<Rightarrow>
              (case safe_int (jget payload (js ''exp'')) of
                 None \<Rightarrow> None
               | Some x \<Rightarrow> if x \<le> nowSeconds then None else Some \<lparr>up_sub = sub, up_exp = x\<rparr>)
          | _ \<Rightarrow> None))"

subsection \<open>Challenges\<close>

text \<open>Why a challenge is refused, in the order of the checks.\<close>

datatype challenge_refusal =
    NotMinted | NotChallenge | NoSubject | NoFunction | BadNonce | NoExpiry | Expired

definition challenge_fields :: "challenge_payload \<Rightarrow> fields" where
  "challenge_fields p =
     [(js ''v'', VNum (int_num 1)), (js ''typ'', VStr (js ''challenge'')), (js ''sub'', VStr (cp_sub p)),
      (js ''key'', VStr (cp_key p)), (js ''nonce'', VStr (cp_nonce p)), (js ''exp'', VNum (int_num (cp_exp p)))]"

definition mintChallenge :: "crypto \<Rightarrow> secret \<Rightarrow> challenge_payload \<Rightarrow> bridge_error + jsstring" where
  "mintChallenge C secret p = signToken C secret (challenge_fields p)"

definition readChallenge :: "crypto \<Rightarrow> secret \<Rightarrow> jsval \<Rightarrow> int \<Rightarrow> challenge_refusal + challenge_payload" where
  "readChallenge C secret token nowSeconds =
     (case openToken C secret token of
        None \<Rightarrow> Inl NotMinted
      | Some payload \<Rightarrow>
          if \<not> is_num (jget payload (js ''v'')) 1 \<or> jget payload (js ''typ'') \<noteq> VStr (js ''challenge'')
          then Inl NotChallenge
          else (case str_of (jget payload (js ''sub'')) of
            None \<Rightarrow> Inl NoSubject
          | Some sub \<Rightarrow> if subjectOf (VStr sub) = None then Inl NoSubject
              else (case str_of (jget payload (js ''key'')) of
                None \<Rightarrow> Inl NoFunction
              | Some key \<Rightarrow> if key = [] then Inl NoFunction
                  else (case str_of (jget payload (js ''nonce'')) of
                    None \<Rightarrow> Inl BadNonce
                  | Some nonce \<Rightarrow>
                      (case fromBase64Url nonce of
                         None \<Rightarrow> Inl BadNonce
                       | Some b \<Rightarrow> if length b \<noteq> 16 then Inl BadNonce
                           else (case safe_int (jget payload (js ''exp'')) of
                             None \<Rightarrow> Inl NoExpiry
                           | Some x \<Rightarrow> if x \<le> nowSeconds then Inl Expired
                               else Inr \<lparr>cp_sub = sub, cp_key = key, cp_nonce = nonce, cp_exp = x\<rparr>))))))"

text \<open>\<open>newNonce\<close>: the base64url text of 16 random bytes.\<close>

definition newNonce :: "bytes \<Rightarrow> jsstring" where
  "newNonce random16 = toBase64Url random16"

subsection \<open>What \<open>openToken\<close> accepts\<close>

lemma js_indexOf_split: "c \<notin> set u \<Longrightarrow> js_indexOf c (u @ c # v) = Some (length u)"
proof -
  assume "c \<notin> set u"
  then have "takeWhile (\<lambda>x. x \<noteq> c) (u @ c # v) = u" by (induction u) auto
  then show ?thesis by (simp add: js_indexOf_def)
qed

lemma js_lastIndexOf_split: "c \<notin> set v \<Longrightarrow> js_lastIndexOf c (u @ c # v) = Some (length u)"
proof -
  assume "c \<notin> set v"
  then have "takeWhile (\<lambda>x. x \<noteq> c) (rev v @ c # rev u) = rev v"
    by (simp add: takeWhile_append takeWhile_eq_all_conv)
  then show ?thesis by (simp add: js_lastIndexOf_def)
qed

lemma js_indexOf_SomeD: "js_indexOf c t = Some d \<Longrightarrow> t = take d t @ c # drop (Suc d) t \<and> c \<notin> set (take d t) \<and> d < length t"
proof -
  assume h: "js_indexOf c t = Some d"
  then have "c \<in> set t" by (auto simp: js_indexOf_def split: if_splits)
  then obtain u v where t: "t = u @ c # v" "c \<notin> set u" by (meson split_list_first)
  with h have "d = length u" by (simp add: js_indexOf_split)
  with t show ?thesis by simp
qed

lemma single_dot: "js_indexOf c t = Some d \<and> js_lastIndexOf c t = Some d \<longleftrightarrow>
   t = take d t @ c # drop (Suc d) t \<and> d < length t \<and> c \<notin> set (take d t) \<and> c \<notin> set (drop (Suc d) t)"
proof
  assume h: "js_indexOf c t = Some d \<and> js_lastIndexOf c t = Some d"
  then have "c \<in> set t" by (auto simp: js_indexOf_def split: if_splits)
  then obtain u v where t: "t = u @ c # v" "c \<notin> set v" by (meson split_list_last)
  with h have "d = length u" by (simp add: js_lastIndexOf_split)
  with t h js_indexOf_SomeD [of c t d] show "t = take d t @ c # drop (Suc d) t \<and> d < length t \<and>
    c \<notin> set (take d t) \<and> c \<notin> set (drop (Suc d) t)" by simp
next
  assume h: "t = take d t @ c # drop (Suc d) t \<and> d < length t \<and> c \<notin> set (take d t) \<and> c \<notin> set (drop (Suc d) t)"
  then show "js_indexOf c t = Some d \<and> js_lastIndexOf c t = Some d"
    using js_indexOf_split [of c "take d t" "drop (Suc d) t"]
      js_lastIndexOf_split [of c "drop (Suc d) t" "take d t"] by simp
qed

lemma unat_ascii: "\<forall>u \<in> set s. unat u < 256 \<Longrightarrow> map unat (ascii s) = map unat s"
  unfolding ascii_def map_map by (rule map_cong [OF refl]) (use unat_byte_of_nat in \<open>auto simp only: comp_def\<close>)

lemma ascii_inject:
  assumes "\<forall>u \<in> set s. unat u < 256" "\<forall>u \<in> set t. unat u < 256"
  shows "ascii s = ascii t \<longleftrightarrow> s = t"
proof
  assume "ascii s = ascii t"
  then have "map unat s = map unat t" using unat_ascii [OF assms(1)] unat_ascii [OF assms(2)] by metis
  then show "s = t" by (rule map_injective) (rule inj_unsigned)
qed simp

lemma toBase64Url_ascii: "u \<in> set (toBase64Url bs) \<Longrightarrow> unat u < 256"
proof -
  assume "u \<in> set (toBase64Url bs)"
  moreover have "BASE64URL (toBase64Url bs)"
    using fromBase64Url_toBase64Url [of bs] unfolding fromBase64Url_def by (auto split: if_splits)
  ultimately show ?thesis
    by (auto simp: BASE64URL_def list_all_iff unit_class_defs word_le_nat_alt)
qed

text \<open>The token of some payload bytes.\<close>

definition token_of :: "crypto \<Rightarrow> secret \<Rightarrow> bytes \<Rightarrow> jsstring" where
  "token_of C secret bytes = toBase64Url bytes @ [46] @ mac C (secretBytes secret) (toBase64Url bytes)"

lemma openToken_iff:
  "openToken C secret (VStr t) = Some payload \<longleftrightarrow>
     length t \<le> MAX_TOKEN_CHARS \<and>
     (\<exists>bytes. t = token_of C secret bytes \<and> json_parse (from_utf8 bytes) = Some (VObj payload))"
    (is "?L \<longleftrightarrow> ?R")
proof
  assume ?L
  then obtain d bodyBytes mb where d: "js_indexOf 46 t = Some d" "js_lastIndexOf 46 t = Some d"
      and len: "length t \<le> MAX_TOKEN_CHARS"
      and body: "fromBase64Url (take d t) = Some bodyBytes" and given: "fromBase64Url (drop (Suc d) t) = Some mb"
      and eq: "ascii (drop (Suc d) t) = ascii (mac C (secretBytes secret) (take d t))"
      and p: "json_parse (from_utf8 bodyBytes) = Some (VObj payload)"
    by (auto simp: openToken_def Let_def split: if_splits option.splits jsval.splits)
  have g: "drop (Suc d) t = mac C (secretBytes secret) (take d t)"
    using eq given toBase64Url_ascii unfolding mac_def fromBase64Url_iff by (simp add: ascii_inject)
  have "t = take d t @ 46 # drop (Suc d) t" using d single_dot [of 46 t d] by blast
  then have "t = token_of C secret bodyBytes"
    using g body by (simp add: token_of_def fromBase64Url_iff)
  then show ?R using len p by blast
next
  assume ?R
  then obtain bytes where t: "t = token_of C secret bytes" and p: "json_parse (from_utf8 bytes) = Some (VObj payload)"
    and len: "length t \<le> MAX_TOKEN_CHARS" by blast
  have ne: "bytes \<noteq> []" using p by (auto simp: json_parse_def skip_ws_def numeral_2_eq_2)
  let ?d = "length (toBase64Url bytes)"
  have dot: "js_indexOf 46 t = Some ?d" "js_lastIndexOf 46 t = Some ?d"
    using toBase64Url_no_dot by (simp_all add: t token_of_def js_indexOf_split js_lastIndexOf_split mac_def)
  have "take ?d t = toBase64Url bytes" "drop (Suc ?d) t = mac C (secretBytes secret) (toBase64Url bytes)" "t \<noteq> []"
    by (simp_all add: t token_of_def)
  then show ?L using len ne p by (simp add: openToken_def dot mac_def)
qed

lemma openToken_not_string: "openToken C secret v = Some payload \<Longrightarrow> \<exists>t. v = VStr t"
  by (cases v) (auto simp: openToken_def)

lemma token_of_inject: "token_of C secret a = token_of C secret b \<longleftrightarrow> a = b"
  using js_split_sep_unique [of "toBase64Url a" 46 _ "toBase64Url b"] toBase64Url_no_dot
  by (auto simp: token_of_def)

subsection \<open>Minted tokens\<close>

lemma signToken_Inr: "signToken C secret fs = Inr t \<longleftrightarrow>
    emittable MAX_JSON_DEPTH (VObj fs) \<and> t = token_of C secret (utf8 (canon (VObj fs)))"
  by (auto simp: signToken_def result_simps canonicalJson_Inr token_of_def Let_def)

lemma openToken_signToken:
  assumes "signToken C secret fs = Inr t" "exact (VObj fs)" "length t \<le> MAX_TOKEN_CHARS"
  obtains gs where "openToken C secret (VStr t) = Some gs"
    "\<And>k v. map_of fs k = Some v \<Longrightarrow> v \<noteq> VUndef \<Longrightarrow> \<exists>w. map_of gs k = Some w \<and> same_json w v"
proof -
  have t: "emittable MAX_JSON_DEPTH (VObj fs)" "t = token_of C secret (utf8 (canon (VObj fs)))"
    using assms(1) by (simp_all add: signToken_Inr)
  obtain gs where gs: "json_parse (canon (VObj fs)) = Some (VObj gs)"
    "\<And>k v. map_of fs k = Some v \<Longrightarrow> v \<noteq> VUndef \<Longrightarrow> \<exists>w. map_of gs k = Some w \<and> same_json w v"
    using json_parse_canon_obj [OF assms(2)] by blast
  have "from_utf8 (utf8 (canon (VObj fs))) = canon (VObj fs)"
    using t(1) by (rule from_utf8_canon)
  then have "openToken C secret (VStr t) = Some gs"
    unfolding openToken_iff using assms(3) t(2) gs(1) by (metis (no_types))
  with gs(2) that show ?thesis by blast
qed

lemma same_json_jget: "\<exists>w. map_of gs k = Some w \<and> same_json w v \<Longrightarrow> v = VStr s \<or> v = VNum n \<Longrightarrow> jget gs k = v"
  by (auto simp: jget_def same_json_atom)

lemma js_names_distinct:
  "distinct (map js [''v'', ''typ'', ''sub'', ''exp'', ''key'', ''nonce''])"
  by simp

lemma user_fields_exact: "\<bar>x\<bar> \<le> MAX_SAFE_INTEGER \<Longrightarrow> exact (VObj (user_fields sub x))"
  by (auto simp: user_fields_def MAX_SAFE_INTEGER_def)

lemma challenge_fields_exact: "\<bar>cp_exp p\<bar> \<le> MAX_SAFE_INTEGER \<Longrightarrow> exact (VObj (challenge_fields p))"
  by (auto simp: challenge_fields_def MAX_SAFE_INTEGER_def)

lemma subjectOf_text: "subjectOf (VStr s) = Some sub \<longleftrightarrow>
    sub = s \<and> 0 < length s \<and> length s \<le> MAX_SUBJECT_LENGTH \<and> list_all (\<lambda>u. \<not> (u < 0x20 \<or> u = 0x7f)) s"
  by (auto simp: subjectOf_def list_ex_iff list_all_iff)

lemma LONE_SURROGATE_small: "(\<And>u. u \<in> set s \<Longrightarrow> unat u < 256) \<Longrightarrow> \<not> LONE_SURROGATE s"
  by (simp add: LONE_SURROGATE_def plain_not_lone)

lemma LONE_SURROGATE_js [simp]: "\<not> LONE_SURROGATE (js s)"
  by (rule LONE_SURROGATE_small) (rule js_small)

lemma signToken_user: "\<not> LONE_SURROGATE sub \<Longrightarrow>
    mintUserToken C secret sub x = Inr (token_of C secret (utf8 (canon (VObj (user_fields sub x)))))"
  by (simp add: mintUserToken_def signToken_Inr user_fields_def MAX_JSON_DEPTH_def numeral_eq_Suc)

subsection \<open>How long a minted token is\<close>

lemma sum_list_insort_key: "sum_list (map f (insort_key k x xs)) = f x + sum_list (map f xs)" for f :: "'a \<Rightarrow> nat"
  by (induction xs) auto

lemma sum_list_sort_key: "sum_list (map f (sort_key k xs)) = sum_list (map f xs)" for f :: "'a \<Rightarrow> nat"
  by (induction xs) (auto simp: sum_list_insort_key)

lemma unit_bytes_join: "sum_list (map unit_bytes (js_join comma ws)) \<le> sum_list (map (\<lambda>w. Suc (sum_list (map unit_bytes w))) ws)"
  by (induction comma ws rule: js_join.induct) (auto simp: comma_def unit_bytes_def)

lemma bytes_canon_fields:
  assumes "\<forall>(k, v) \<in> set fs. v \<noteq> VUndef"
  shows "length (utf8 (canon (VObj fs))) \<le> 2 + sum_list (map (\<lambda>kv. Suc (sum_list (map unit_bytes (member_text kv)))) fs)"
proof -
  have flt: "filter (\<lambda>(k, v). v \<noteq> VUndef) (sort_key fst fs) = sort_key fst fs"
    using assms by (intro filter_True) auto
  have "length (utf8 (canon (VObj fs))) \<le> sum_list (map unit_bytes (canon (VObj fs)))"
    by (rule length_utf8)
  also have "\<dots> = 2 + sum_list (map unit_bytes (js_join comma (map member_text (sort_key fst fs))))"
    by (simp add: canon_VObj flt unit_bytes_def del: canon.simps)
  also have "\<dots> \<le> 2 + sum_list (map (\<lambda>w. Suc (sum_list (map unit_bytes w))) (map member_text (sort_key fst fs)))"
    by (intro add_left_mono unit_bytes_join)
  also have "\<dots> = 2 + sum_list (map (\<lambda>kv. Suc (sum_list (map unit_bytes (member_text kv)))) fs)"
    by (simp add: comp_def sum_list_sort_key)
  finally show ?thesis .
qed

lemma unit_bytes_int: "\<bar>i\<bar> \<le> MAX_SAFE_INTEGER \<Longrightarrow> sum_list (map unit_bytes (num_text (int_num i))) \<le> 17"
proof -
  assume i: "\<bar>i\<bar> \<le> MAX_SAFE_INTEGER"
  have dg: "sum_list (map unit_bytes (nat_text n)) = length (dec_digits n)" for n
  proof -
    have "u \<in> set (nat_text n) \<Longrightarrow> unat u < 128" for u using nat_text_digits [of u n] by (simp add: is_digit_nat)
    then show ?thesis using unit_bytes_plain [of "nat_text n"] by (simp add: nat_text_def)
  qed
  have "length (dec_digits (nat j)) \<le> 16" if "0 \<le> j" "j \<le> MAX_SAFE_INTEGER" for j
    using that by (intro length_dec_digits) (auto simp: MAX_SAFE_INTEGER_def nat_less_iff)
  from this [of i] this [of "- i"] show ?thesis
    using i dg by (auto simp: num_text_int_num MAX_SAFE_INTEGER_def int_text_def js_words unit_bytes_def)
qed

lemma subject_bytes: "subjectOf (VStr sub) = Some sub \<Longrightarrow> sum_list (map unit_bytes (quote_text sub)) \<le> 770"
  using unit_bytes_quote [of sub] by (auto simp: subjectOf_text list_all_iff MAX_SUBJECT_LENGTH_def)

lemma unit_bytes_units [simp]: "unit_bytes 34 = 1" "unit_bytes 58 = 1" "unit_bytes 46 = 1" "unit_bytes 49 = 1"
  by (simp_all add: unit_bytes_def)

lemma unit_bytes_key [simp]:
  "sum_list (map unit_bytes (quote_text (js ''v''))) = 3" "sum_list (map unit_bytes (quote_text (js ''typ''))) = 5"
  "sum_list (map unit_bytes (quote_text (js ''sub''))) = 5" "sum_list (map unit_bytes (quote_text (js ''exp''))) = 5"
  "sum_list (map unit_bytes (quote_text (js ''key''))) = 5" "sum_list (map unit_bytes (quote_text (js ''nonce''))) = 7"
  "sum_list (map unit_bytes (quote_text (js ''user''))) = 6" "sum_list (map unit_bytes (quote_text (js ''challenge''))) = 11"
  by (simp_all add: quote_text_def js_def escape_def unit_bytes_def)

lemma num_one [simp]: "num_text (int_num 1) = [49]"
  by (simp add: num_text_int_num int_text_def nat_text_def dec_digits.simps digit_unit_def)

lemma length_token_of: "length (token_of C secret bytes) =
    (4 * length bytes + 2) div 3 + 1 + (4 * length (hmac_sha256 C (secretBytes secret) (ascii (toBase64Url bytes))) + 2) div 3"
  by (simp add: token_of_def mac_def length_toBase64Url)

definition hmac_32 :: "crypto \<Rightarrow> bool" where
  "hmac_32 C \<longleftrightarrow> (\<forall>k m. length (hmac_sha256 C k m) = 32)"

lemma user_token_length:
  assumes "hmac_32 C" "subjectOf (VStr sub) = Some sub" "\<bar>x\<bar> \<le> MAX_SAFE_INTEGER"
  shows "length (token_of C secret (utf8 (canon (VObj (user_fields sub x))))) \<le> 1200"
proof -
  have "length (utf8 (canon (VObj (user_fields sub x)))) \<le> 850"
    using bytes_canon_fields [of "user_fields sub x"] unit_bytes_int [OF assms(3)] subject_bytes [OF assms(2)]
    by (simp add: user_fields_def member_text_def del: canon.simps(7))
  then show ?thesis using assms(1) by (simp add: length_token_of hmac_32_def)
qed

definition nonce_ok :: "jsstring \<Rightarrow> bool" where
  "nonce_ok nonce \<longleftrightarrow> (\<exists>b. nonce = toBase64Url b \<and> length b = 16)"

lemma nonce_bytes: "nonce_ok nonce \<Longrightarrow> \<not> LONE_SURROGATE nonce \<and> sum_list (map unit_bytes (quote_text nonce)) \<le> 68"
proof
  assume "nonce_ok nonce"
  then obtain b where b: "nonce = toBase64Url b" "length b = 16" by (auto simp: nonce_ok_def)
  then have len: "length nonce = 22" by (simp add: length_toBase64Url)
  have alpha: "\<not> u < 32" if "u \<in> set nonce" for u
  proof -
    have "BASE64URL nonce" using fromBase64Url_toBase64Url [of b] unfolding fromBase64Url_def b(1) by (auto split: if_splits)
    then show ?thesis using that by (auto simp: BASE64URL_def list_all_iff unit_class_defs word_le_nat_alt word_less_nat_alt)
  qed
  show "\<not> LONE_SURROGATE nonce" using toBase64Url_ascii by (intro LONE_SURROGATE_small) (auto simp: b(1))
  show "sum_list (map unit_bytes (quote_text nonce)) \<le> 68" using unit_bytes_quote [of nonce] alpha by (simp add: len)
qed

lemma key_bytes: "FUNCTION_KEY_PATTERN key \<Longrightarrow> key \<noteq> [] \<and> \<not> LONE_SURROGATE key \<and> sum_list (map unit_bytes (quote_text key)) \<le> 194"
proof (intro conjI)
  assume k: "FUNCTION_KEY_PATTERN key"
  then have len: "length key \<le> 64" "key \<noteq> []" using FUNCTION_KEY_PATTERN_length by auto
  have small: "unat u < 256 \<and> \<not> u < 32" if "u \<in> set key" for u
    using FUNCTION_KEY_PATTERN_units [OF k that]
    by (auto simp: key_unit_def unit_class_defs word_le_nat_alt word_less_nat_alt)
  show "key \<noteq> []" by (rule len)
  show "\<not> LONE_SURROGATE key" using small by (intro LONE_SURROGATE_small) auto
  show "sum_list (map unit_bytes (quote_text key)) \<le> 194" using unit_bytes_quote [of key] small len by auto
qed

lemma challenge_token_length:
  assumes "hmac_32 C" "subjectOf (VStr (cp_sub p)) = Some (cp_sub p)" "\<bar>cp_exp p\<bar> \<le> MAX_SAFE_INTEGER"
    "FUNCTION_KEY_PATTERN (cp_key p)" "nonce_ok (cp_nonce p)"
  shows "length (token_of C secret (utf8 (canon (VObj (challenge_fields p))))) \<le> 1600"
proof -
  have "length (utf8 (canon (VObj (challenge_fields p)))) \<le> 1150"
    using bytes_canon_fields [of "challenge_fields p"] unit_bytes_int [OF assms(3)] subject_bytes [OF assms(2)]
      key_bytes [OF assms(4)] nonce_bytes [OF assms(5)]
    by (simp add: challenge_fields_def member_text_def del: canon.simps(7))
  then show ?thesis using assms(1) by (simp add: length_token_of hmac_32_def)
qed

subsection \<open>Properties\<close>

definition user_token :: "crypto \<Rightarrow> secret \<Rightarrow> jsstring \<Rightarrow> int \<Rightarrow> jsstring" where
  "user_token C secret sub x = token_of C secret (utf8 (canon (VObj (user_fields sub x))))"

lemma minted_user_token:
  assumes "hmac_32 C" "subjectOf (VStr sub) = Some sub" "\<not> LONE_SURROGATE sub"
    and "\<bar>x\<bar> \<le> MAX_SAFE_INTEGER" "now < x"
  shows "mintUserToken C secret sub x = Inr (user_token C secret sub x)" "length (user_token C secret sub x) \<le> MAX_TOKEN_CHARS"
    "readUserToken C secret (VStr (user_token C secret sub x)) now = Some \<lparr>up_sub = sub, up_exp = x\<rparr>"
proof -
  let ?t = "token_of C secret (utf8 (canon (VObj (user_fields sub x))))"
  have m: "mintUserToken C secret sub x = Inr ?t" using assms(3) by (rule signToken_user)
  have len: "length ?t \<le> MAX_TOKEN_CHARS"
    using user_token_length [OF assms(1,2,4), of secret] by (simp add: MAX_TOKEN_CHARS_def)
  obtain gs where o: "openToken C secret (VStr ?t) = Some gs"
    and f: "\<And>k v. map_of (user_fields sub x) k = Some v \<Longrightarrow> v \<noteq> VUndef \<Longrightarrow> \<exists>w. map_of gs k = Some w \<and> same_json w v"
    using openToken_signToken [OF m [unfolded mintUserToken_def] user_fields_exact [OF assms(4)] len] by blast
  have "jget gs (js ''v'') = VNum (int_num 1)" "jget gs (js ''typ'') = VStr (js ''user'')"
    "jget gs (js ''sub'') = VStr sub" "jget gs (js ''exp'') = VNum (int_num x)"
    by (rule same_json_jget [OF f]; simp add: user_fields_def)+
  then have "readUserToken C secret (VStr ?t) now = Some \<lparr>up_sub = sub, up_exp = x\<rparr>"
    using assms(2,4,5) by (simp add: readUserToken_def o is_num_def safe_int_def str_of_def del: canon.simps)
  with m len show "mintUserToken C secret sub x = Inr (user_token C secret sub x)" "length (user_token C secret sub x) \<le> MAX_TOKEN_CHARS"
    "readUserToken C secret (VStr (user_token C secret sub x)) now = Some \<lparr>up_sub = sub, up_exp = x\<rparr>"
    by (simp_all only: user_token_def)
qed

text \<open>A user token reads back.  Whatever a valid subject (no lone surrogate) and a safe expiry,
  \<open>mintUserToken\<close> succeeds and, under the same secret and before the expiry, \<open>readUserToken\<close>
  answers exactly that subject and expiry; the token stays within \<open>MAX_TOKEN_CHARS\<close>.\<close>

theorem user_token_round_trip:
  assumes "hmac_32 C" "subjectOf (VStr sub) = Some sub" "\<not> LONE_SURROGATE sub"
    and "\<bar>x\<bar> \<le> MAX_SAFE_INTEGER" "now < x"
  shows "\<exists>t. mintUserToken C secret sub x = Inr t \<and> length t \<le> MAX_TOKEN_CHARS \<and>
    readUserToken C secret (VStr t) now = Some \<lparr>up_sub = sub, up_exp = x\<rparr>"
  using minted_user_token [OF assms] by blast

definition challenge_token :: "crypto \<Rightarrow> secret \<Rightarrow> challenge_payload \<Rightarrow> jsstring" where
  "challenge_token C secret p = token_of C secret (utf8 (canon (VObj (challenge_fields p))))"

lemma minted_challenge:
  assumes "hmac_32 C" "subjectOf (VStr (cp_sub p)) = Some (cp_sub p)" "\<not> LONE_SURROGATE (cp_sub p)"
    and "FUNCTION_KEY_PATTERN (cp_key p)" "nonce_ok (cp_nonce p)" "\<bar>cp_exp p\<bar> \<le> MAX_SAFE_INTEGER"
  shows "mintChallenge C secret p = Inr (challenge_token C secret p)" "length (challenge_token C secret p) \<le> MAX_CHALLENGE_CHARS"
    "readChallenge C secret (VStr (challenge_token C secret p)) now = (if now < cp_exp p then Inr p else Inl Expired)"
proof -
  let ?t = "token_of C secret (utf8 (canon (VObj (challenge_fields p))))"
  have "emittable MAX_JSON_DEPTH (VObj (challenge_fields p))"
    using assms(3) key_bytes [OF assms(4)] nonce_bytes [OF assms(5)]
    by (simp add: challenge_fields_def MAX_JSON_DEPTH_def numeral_eq_Suc)
  then have m: "mintChallenge C secret p = Inr ?t" by (simp add: mintChallenge_def signToken_Inr)
  have len: "length ?t \<le> MAX_CHALLENGE_CHARS" "length ?t \<le> MAX_TOKEN_CHARS"
    using challenge_token_length [OF assms(1,2,6,4,5), of secret]
    by (simp_all add: MAX_CHALLENGE_CHARS_def MAX_TOKEN_CHARS_def)
  obtain gs where o: "openToken C secret (VStr ?t) = Some gs"
    and f: "\<And>k v. map_of (challenge_fields p) k = Some v \<Longrightarrow> v \<noteq> VUndef \<Longrightarrow> \<exists>w. map_of gs k = Some w \<and> same_json w v"
    using openToken_signToken [OF m [unfolded mintChallenge_def] challenge_fields_exact [OF assms(6)] len(2)] by blast
  have j: "jget gs (js ''v'') = VNum (int_num 1)" "jget gs (js ''typ'') = VStr (js ''challenge'')"
    "jget gs (js ''sub'') = VStr (cp_sub p)" "jget gs (js ''key'') = VStr (cp_key p)"
    "jget gs (js ''nonce'') = VStr (cp_nonce p)" "jget gs (js ''exp'') = VNum (int_num (cp_exp p))"
    by (rule same_json_jget [OF f]; simp add: challenge_fields_def)+
  obtain b where b: "fromBase64Url (cp_nonce p) = Some b" "length b = 16"
    using assms(5) by (auto simp: nonce_ok_def)
  have "readChallenge C secret (VStr ?t) now = (if now < cp_exp p then Inr p else Inl Expired)"
    using assms(2,6) key_bytes [OF assms(4)] b
    by (simp add: readChallenge_def o j is_num_def safe_int_def str_of_def del: canon.simps)
  with m len show "mintChallenge C secret p = Inr (challenge_token C secret p)" "length (challenge_token C secret p) \<le> MAX_CHALLENGE_CHARS"
    "readChallenge C secret (VStr (challenge_token C secret p)) now = (if now < cp_exp p then Inr p else Inl Expired)"
    by (simp_all only: challenge_token_def)
qed

text \<open>C10: a challenge reads back: for a contract key, a nonce of 16 bytes and a valid subject,
  \<open>mintChallenge\<close> succeeds, \<open>readChallenge\<close> answers the same payload until it expires, and the
  challenge is short enough for the engine and the receipt (\<open>MAX_CHALLENGE_CHARS\<close>).\<close>

theorem challenge_round_trip:
  assumes "hmac_32 C" "subjectOf (VStr (cp_sub p)) = Some (cp_sub p)" "\<not> LONE_SURROGATE (cp_sub p)"
    and "FUNCTION_KEY_PATTERN (cp_key p)" "nonce_ok (cp_nonce p)" "\<bar>cp_exp p\<bar> \<le> MAX_SAFE_INTEGER"
  shows "\<exists>t. mintChallenge C secret p = Inr t \<and> length t \<le> MAX_CHALLENGE_CHARS \<and>
    readChallenge C secret (VStr t) now = (if now < cp_exp p then Inr p else Inl Expired)"
  using minted_challenge [OF assms] by blast

text \<open>C11: only this server's tokens are accepted, in one spelling: a string \<open>openToken\<close> accepts is
  the signed token of its own payload bytes, so no two different strings carry the same payload
  bytes, and changing the part after the dot is always refused.\<close>

theorem openToken_authentic:
  "openToken C secret (VStr t) = Some payload \<longleftrightarrow>
     length t \<le> MAX_TOKEN_CHARS \<and>
     (\<exists>bytes. t = toBase64Url bytes @ [46] @ mac C (secretBytes secret) (toBase64Url bytes) \<and>
        json_parse (from_utf8 bytes) = Some (VObj payload))"
  using openToken_iff [of C secret t payload] by (simp add: token_of_def)

text \<open>No confusion of types: under one secret, a string accepted as a user token is never
  accepted as a challenge, at any time.\<close>

theorem token_types_disjoint:
  assumes "readUserToken C secret token now = Some u"
  shows "readChallenge C secret token now' = Inl NotChallenge"
  using assms by (auto simp: readUserToken_def readChallenge_def split: option.splits if_splits)

text \<open>Expiry is respected and only expiry changes with time: a user token accepted at some
  time carries a later expiry, is accepted with the same payload at every time before it, and
  refused from then on.\<close>

theorem user_token_expiry:
  assumes "readUserToken C secret token now = Some u"
  shows "readUserToken C secret token now' = (if now' < up_exp u then Some u else None)"
  using assms by (auto simp: readUserToken_def split: option.splits if_splits)

end
