(* ===== verification/Canonical_Unique.thy ===== *)
theory Canonical_Unique
  imports Canonical_Bytes
begin

section \<open>Canonical text determines its strings, whatever its numbers\<close>

text \<open>
  \<open>canon_inject\<close> reads canonical text back, so it asks for numbers that \<open>JSON.parse\<close> reads exactly.  Here no
  number is read: the text of a value ends where its value does (\<open>canon_self_delimiting\<close>), so that two objects
  with the same canonical text have the same properties, each with the same text (\<open>same_text_member\<close>), and a
  string or a null is determined by its text (\<open>canon_VStr_inject\<close>, \<open>canon_VNull_inject\<close>).
\<close>

subsection \<open>Atoms\<close>

text \<open>The units of a literal or a number: neither a quote, a comma nor a bracket.\<close>

definition atom_unit :: "codeunit \<Rightarrow> bool" where
  "atom_unit u \<longleftrightarrow> u \<noteq> 34 \<and> u \<noteq> 44 \<and> u \<noteq> 91 \<and> u \<noteq> 93 \<and> u \<noteq> 123 \<and> u \<noteq> 125"

definition atom_text :: "jsstring \<Rightarrow> bool" where
  "atom_text t \<longleftrightarrow> t \<noteq> [] \<and> list_all atom_unit t"

lemma atom_words: "list_all atom_unit (js ''true'')" "list_all atom_unit (js ''false'')" "list_all atom_unit (js ''null'')"
  "list_all atom_unit (js ''NaN'')" "list_all atom_unit (js ''Infinity'')" "list_all atom_unit (js ''-Infinity'')"
  "list_all atom_unit (js ''-'')" "list_all atom_unit (js ''0'')" "list_all atom_unit (js ''.'')" "list_all atom_unit (js ''0.'')"
  "list_all atom_unit (js ''e+'')" "list_all atom_unit (js ''e-'')"
  by code_simp+

lemma atom_digit: "is_digit u \<Longrightarrow> atom_unit u"
  by (auto simp: atom_unit_def unit_class_defs)

lemma atom_nat_text: "list_all atom_unit (nat_text n)"
  using atom_digit nat_text_digits by (auto simp: list_all_iff)

lemma list_all_take_drop: "list_all P xs \<Longrightarrow> list_all P (take n xs)" "list_all P xs \<Longrightarrow> list_all P (drop n xs)"
  by (auto simp: list_all_iff dest: in_set_takeD in_set_dropD)

lemma atom_layout: "list_all atom_unit ds \<Longrightarrow> list_all atom_unit (num_layout ds n)"
proof -
  have z: "atom_unit (digit_unit 0)" by (simp add: atom_unit_def digit_unit_def)
  assume "list_all atom_unit ds"
  then show ?thesis
    using z atom_words atom_nat_text by (auto simp: num_layout_def Let_def list_all_take_drop list_all_iff [of _ "replicate _ _"])
qed

lemma num_text_atom: "atom_text (num_text n)"
proof (cases n)
  case (Fin m e)
  have nonempty: "ds \<noteq> [] \<Longrightarrow> num_layout ds k \<noteq> []" for ds k
    by (auto simp: num_layout_def Let_def js_def)
  show ?thesis
    using Fin atom_words atom_layout [OF atom_nat_text] nonempty [OF nat_text_not_Nil]
    by (auto simp: atom_text_def Let_def js_def split: prod.split)
next
  case (Infinite neg)
  then show ?thesis using atom_words by (cases neg) (auto simp: atom_text_def js_def)
qed (use atom_words in \<open>simp add: atom_text_def js_def\<close>)

lemma literal_atom: "atom_text (js ''true'')" "atom_text (js ''false'')" "atom_text (js ''null'')"
  using atom_words by (simp_all add: atom_text_def js_def)

text \<open>What the first unit of a canonical text says.\<close>

lemma canon_kinds:
  assumes "emittable d v"
  obtains "atom_text (canon v)" | s where "v = VStr s" | xs where "v = VArr xs" | fs where "v = VObj fs"
  using assms that num_text_atom literal_atom by (cases v) auto

lemma atom_hd: "atom_text t \<Longrightarrow> atom_unit (hd t)"
  by (cases t) (auto simp: atom_text_def)

lemma not_atom_hd: "\<not> atom_unit (hd (quote_text s @ r))" "\<not> atom_unit (hd (canon (VArr xs) @ r))" "\<not> atom_unit (hd (canon (VObj fs) @ r))"
  by (simp_all add: quote_text_def arr_text_def obj_text_def atom_unit_def)

lemma canon_hd:
  assumes "emittable d v"
  shows "canon v \<noteq> [] \<and> hd (canon v) \<noteq> 93 \<and> hd (canon v) \<noteq> 125"
  using assms
proof (cases rule: canon_kinds)
  case 1
  then show ?thesis using atom_hd [OF 1] by (auto simp: atom_text_def atom_unit_def)
qed (auto simp: quote_text_def arr_text_def obj_text_def)

subsection \<open>Texts that end by themselves\<close>

definition self_delimiting :: "jsstring set \<Rightarrow> jsstring \<Rightarrow> bool" where
  "self_delimiting B a \<longleftrightarrow> (\<forall>b \<in> B. \<forall>r r'. delimiter r \<longrightarrow> delimiter r' \<longrightarrow> a @ r = b @ r' \<longrightarrow> a = b \<and> r = r')"

lemma self_delimitingD:
  "self_delimiting B a \<Longrightarrow> a @ r = b @ r' \<Longrightarrow> b \<in> B \<Longrightarrow> delimiter r \<Longrightarrow> delimiter r' \<Longrightarrow> a = b \<and> r = r'"
  by (auto simp: self_delimiting_def)

lemma atoms_delimited:
  assumes "atom_text a" "atom_text b" "delimiter r" "delimiter r'" "a @ r = b @ r'"
  shows "a = b \<and> r = r'"
proof -
  have t: "takeWhile atom_unit (t @ s) = t" if "atom_text t" "delimiter s" for t s
    using that by (cases s) (auto simp: atom_text_def delimiter_def atom_unit_def list_all_iff takeWhile_append2)
  then have "a = b" using assms by metis
  then show ?thesis using assms(5) by simp
qed

lemma quote_delimited:
  assumes "quote_text s @ r = quote_text t @ r'"
  shows "s = t \<and> r = r'"
proof -
  have "concat (map escape s) @ 34 # r = concat (map escape t) @ 34 # r'" using assms by (simp add: quote_text_def)
  then have "Some (s, r) = Some (t, r')" using parse_str_quote by metis
  then show ?thesis by simp
qed

definition tail_of :: "codeunit \<Rightarrow> jsstring list \<Rightarrow> jsstring \<Rightarrow> jsstring" where
  "tail_of e ws r = (if ws = [] then e # r else comma # js_join comma ws @ e # r)"

lemma join_tail: "js_join comma (w # ws) @ e # r = w @ tail_of e ws r"
  by (cases ws) (simp_all add: tail_of_def)

lemma delimiter_tail: "e = 93 \<or> e = 125 \<Longrightarrow> delimiter (tail_of e ws r)"
  by (auto simp: tail_of_def delimiter_def comma_def)

lemma join_delimited:
  assumes "\<forall>a \<in> set as. self_delimiting B a" "set bs \<subseteq> B" "\<forall>x \<in> set as \<union> set bs. x \<noteq> [] \<and> hd x \<noteq> e" "e = 93 \<or> e = 125"
    and "js_join comma as @ e # r = js_join comma bs @ e # r'"
  shows "as = bs \<and> r = r'"
  using assms
proof (induction as arbitrary: bs)
  case Nil
  show ?case
  proof (cases bs)
    case (Cons b bs')
    then have "e # r = b @ tail_of e bs' r'" using Nil.prems(5) by (simp only: join_tail [symmetric]) simp
    then show ?thesis using Nil.prems(3) Cons by (cases b) auto
  qed (use Nil.prems(5) in simp)
next
  case (Cons a as)
  show ?case
  proof (cases bs)
    case Nil
    then have "e # r' = a @ tail_of e as r" using Cons.prems(5) by (simp only: join_tail [symmetric]) simp
    then show ?thesis using Cons.prems(3) by (cases a) auto
  next
    case b: (Cons b bs')
    have "a @ tail_of e as r = b @ tail_of e bs' r'" using Cons.prems(5) unfolding b join_tail .
    then have ab: "a = b" "tail_of e as r = tail_of e bs' r'"
      using self_delimitingD [of B a "tail_of e as r" b "tail_of e bs' r'"] Cons.prems(1,2,4) b delimiter_tail by auto
    show ?thesis
    proof (cases "as = [] \<or> bs' = []")
      case True
      then show ?thesis using ab b Cons.prems(4) by (auto simp: tail_of_def comma_def split: if_splits)
    next
      case False
      then have "js_join comma as @ e # r = js_join comma bs' @ e # r'" using ab(2) by (simp add: tail_of_def)
      then have "as = bs' \<and> r = r'" using Cons.prems(1-4) b by (intro Cons.IH) auto
      then show ?thesis using ab b by simp
    qed
  qed
qed

subsection \<open>Values\<close>

definition printed_members :: "fields \<Rightarrow> fields" where
  "printed_members fs = filter (\<lambda>(k, v). v \<noteq> VUndef) (sort_key fst fs)"

lemma canon_members: "canon (VObj fs) = 123 # js_join comma (map member_text (printed_members fs)) @ [125]"
  by (simp add: canon_VObj printed_members_def del: canon.simps)

lemma printed_members_emittable:
  "emittable d (VObj fs) \<Longrightarrow> (k, v) \<in> set (printed_members fs) \<Longrightarrow> emittable (d - 1) v"
  by (auto simp: printed_members_def list_all_iff)

lemma member_text_delimited:
  assumes "self_delimiting B (canon v)" "canon w \<in> B"
    and "member_text (k, v) @ r = member_text (l, w) @ r'" "delimiter r" "delimiter r'"
  shows "k = l \<and> canon v = canon w \<and> r = r'"
proof -
  have "quote_text k @ 58 # canon v @ r = quote_text l @ 58 # canon w @ r'" using assms(3) by (simp add: member_text_def)
  from quote_delimited [OF this] show ?thesis using self_delimitingD [OF assms(1) _ assms(2,4,5)] by auto
qed

abbreviation canon_texts :: "jsstring set" where
  "canon_texts \<equiv> {canon w |w. \<exists>d. emittable d w}"

lemma member_self_delimiting:
  assumes "self_delimiting canon_texts (canon v)"
  shows "self_delimiting {member_text (l, w) |l w. canon w \<in> canon_texts} (member_text (k, v))"
  unfolding self_delimiting_def
proof (intro ballI allI impI)
  fix b r r' assume "b \<in> {member_text (l, w) |l w. canon w \<in> canon_texts}" and d: "delimiter r" "delimiter r'" and e: "member_text (k, v) @ r = b @ r'"
  then obtain l w where b: "b = member_text (l, w)" "canon w \<in> canon_texts" by blast
  have "k = l \<and> canon v = canon w \<and> r = r'"
    by (rule member_text_delimited [OF assms b(2)]) (use e b(1) d in simp_all)
  then show "member_text (k, v) = b \<and> r = r'" by (simp add: b(1) member_text_def)
qed

lemma atom_self_delimiting:
  assumes "atom_text a"
  shows "self_delimiting canon_texts a"
  unfolding self_delimiting_def
proof (intro ballI allI impI)
  fix b r r' assume "b \<in> canon_texts" and d: "delimiter r" "delimiter r'" and eq: "a @ r = b @ r'"
  then obtain w d' where w: "b = canon w" "emittable d' w" by blast
  have h: "atom_unit (hd (b @ r'))" using atom_hd [OF assms] assms unfolding eq [symmetric] by (simp add: atom_text_def)
  from w(2) show "a = b \<and> r = r'"
  proof (cases rule: canon_kinds)
    case 1
    then show ?thesis using atoms_delimited [OF assms _ d eq] w(1) by simp
  qed (use h w(1) not_atom_hd in auto)
qed

lemma canon_self_delimiting: "emittable d v \<Longrightarrow> self_delimiting canon_texts (canon v)"
proof (induction v arbitrary: d)
  case (VStr s)
  show ?case unfolding self_delimiting_def
  proof (intro ballI allI impI)
    fix b r r' assume "b \<in> canon_texts" and d: "delimiter r" "delimiter r'" and eq: "canon (VStr s) @ r = b @ r'"
    then obtain w d' where w: "b = canon w" "emittable d' w" by blast
    from w(2) show "canon (VStr s) = b \<and> r = r'"
    proof (cases rule: canon_kinds)
      case 1
      then show ?thesis using eq w(1) atom_hd [OF 1] not_atom_hd(1) [of s r] by (auto simp: atom_text_def)
    next
      case (2 t)
      then show ?thesis using eq w(1) quote_delimited [of s r t r'] by simp
    qed (use eq w(1) in \<open>auto simp: quote_text_def arr_text_def obj_text_def\<close>)
  qed
next
  case (VArr xs)
  show ?case unfolding self_delimiting_def
  proof (intro ballI allI impI)
    fix b r r' assume "b \<in> canon_texts" and d: "delimiter r" "delimiter r'" and eq: "canon (VArr xs) @ r = b @ r'"
    then obtain w d' where w: "b = canon w" "emittable d' w" by blast
    from w(2) show "canon (VArr xs) = b \<and> r = r'"
    proof (cases rule: canon_kinds)
      case 1
      then show ?thesis using eq w(1) atom_hd [OF 1] not_atom_hd(2) [of xs r] by (auto simp: atom_text_def)
    next
      case (3 ys)
      have x: "\<And>x. x \<in> set xs \<Longrightarrow> emittable (d - 1) x" and y: "\<And>y. y \<in> set ys \<Longrightarrow> emittable (d' - 1) y"
        using VArr.prems w(2) 3 by (auto simp: list_all_iff)
      have "map canon xs = map canon ys \<and> r = r'"
      proof (rule join_delimited [of _ canon_texts _ 93])
        show "\<forall>a \<in> set (map canon xs). self_delimiting canon_texts a" using VArr.IH x by auto
        show "set (map canon ys) \<subseteq> canon_texts" using y by auto
        show "\<forall>x \<in> set (map canon xs) \<union> set (map canon ys). x \<noteq> [] \<and> hd x \<noteq> 93" using x y canon_hd by auto
        show "js_join comma (map canon xs) @ 93 # r = js_join comma (map canon ys) @ 93 # r'"
          using eq w(1) 3 by (simp add: arr_text_def)
      qed simp
      then show ?thesis using w(1) 3 by simp
    qed (use eq w(1) in \<open>auto simp: quote_text_def arr_text_def obj_text_def\<close>)
  qed
next
  case (VObj fs)
  show ?case unfolding self_delimiting_def
  proof (intro ballI allI impI)
    fix b r r' assume "b \<in> canon_texts" and d: "delimiter r" "delimiter r'" and eq: "canon (VObj fs) @ r = b @ r'"
    then obtain w d' where w: "b = canon w" "emittable d' w" by blast
    from w(2) show "canon (VObj fs) = b \<and> r = r'"
    proof (cases rule: canon_kinds)
      case 1
      then show ?thesis using eq w(1) atom_hd [OF 1] not_atom_hd(3) [of fs r] by (auto simp: atom_text_def)
    next
      case (4 gs)
      let ?B = "{member_text (l, w) |l w. canon w \<in> canon_texts}"
      have sub: "self_delimiting canon_texts (canon v)" if "(k, v) \<in> set (printed_members fs)" for k v
        using VObj.IH [of "(k, v)" v] printed_members_emittable [OF VObj.prems that] that by (force simp: printed_members_def)
      have "map member_text (printed_members fs) = map member_text (printed_members gs) \<and> r = r'"
      proof (rule join_delimited [of _ ?B _ 125])
        show "\<forall>a \<in> set (map member_text (printed_members fs)). self_delimiting ?B a"
        proof
          fix a assume "a \<in> set (map member_text (printed_members fs))"
          then obtain k v where a: "a = member_text (k, v)" "(k, v) \<in> set (printed_members fs)" by auto
          show "self_delimiting ?B a" unfolding a(1) by (rule member_self_delimiting [OF sub [OF a(2)]])
        qed
        show "set (map member_text (printed_members gs)) \<subseteq> ?B"
          using printed_members_emittable [of d' gs] w(2) 4 by fastforce
        show "\<forall>x \<in> set (map member_text (printed_members fs)) \<union> set (map member_text (printed_members gs)). x \<noteq> [] \<and> hd x \<noteq> 125"
          by (auto simp: member_text_def quote_text_def)
        show "js_join comma (map member_text (printed_members fs)) @ 125 # r = js_join comma (map member_text (printed_members gs)) @ 125 # r'"
          using eq w(1) 4 by (simp add: canon_members del: canon.simps)
      qed simp
      then show ?thesis using w(1) 4 by (simp add: canon_members del: canon.simps)
    qed (use eq w(1) in \<open>auto simp: quote_text_def arr_text_def obj_text_def\<close>)
  qed
qed (use atom_self_delimiting num_text_atom literal_atom in auto)

subsection \<open>What equal texts say\<close>

text \<open>Objects with the same canonical text have the same properties, each with the same text.\<close>

lemma same_text_member:
  assumes "emittable d (VObj fs)" "emittable d' (VObj gs)" "canon (VObj fs) = canon (VObj gs)"
    and "(k, v) \<in> set fs" "v \<noteq> VUndef"
  shows "\<exists>w. (k, w) \<in> set gs \<and> w \<noteq> VUndef \<and> canon w = canon v \<and> emittable (d' - 1) w"
proof -
  let ?B = "{member_text (l, w) |l w. canon w \<in> canon_texts}"
  have e: "\<And>k v. (k, v) \<in> set (printed_members fs) \<Longrightarrow> emittable (d - 1) v" "\<And>k v. (k, v) \<in> set (printed_members gs) \<Longrightarrow> emittable (d' - 1) v"
    using printed_members_emittable assms(1,2) by blast+
  have "map member_text (printed_members fs) = map member_text (printed_members gs) \<and> [] = ([] :: jsstring)"
  proof (rule join_delimited [of _ ?B _ 125])
    show "\<forall>a \<in> set (map member_text (printed_members fs)). self_delimiting ?B a"
    proof
      fix a assume "a \<in> set (map member_text (printed_members fs))"
      then obtain k v where a: "a = member_text (k, v)" "(k, v) \<in> set (printed_members fs)" by auto
      show "self_delimiting ?B a" unfolding a(1) by (rule member_self_delimiting [OF canon_self_delimiting [OF e(1) [OF a(2)]]])
    qed
    show "set (map member_text (printed_members gs)) \<subseteq> ?B" using e(2) by fastforce
    show "\<forall>x \<in> set (map member_text (printed_members fs)) \<union> set (map member_text (printed_members gs)). x \<noteq> [] \<and> hd x \<noteq> 125"
      by (auto simp: member_text_def quote_text_def)
    show "js_join comma (map member_text (printed_members fs)) @ [125] = js_join comma (map member_text (printed_members gs)) @ [125]"
      using assms(3) by (simp add: canon_members del: canon.simps)
  qed simp
  moreover have "member_text (k, v) \<in> set (map member_text (printed_members fs))"
    using assms(4,5) by (force simp: printed_members_def)
  ultimately obtain l w where w: "(l, w) \<in> set (printed_members gs)" "member_text (k, v) = member_text (l, w)" by auto
  then have "k = l \<and> 58 # canon v = 58 # canon w" by (intro quote_delimited) (simp add: member_text_def)
  then show ?thesis using w e(2) by (auto simp: printed_members_def)
qed

lemma canon_VStr_inject: "emittable d v \<Longrightarrow> canon v = canon (VStr s) \<longleftrightarrow> v = VStr s"
proof
  assume v: "emittable d v" and eq: "canon v = canon (VStr s)"
  from v show "v = VStr s"
  proof (cases rule: canon_kinds)
    case 1
    then show ?thesis using eq atom_hd [OF 1] not_atom_hd(1) [of s "[]"] by simp
  next
    case (2 t)
    then show ?thesis using eq quote_delimited [of t "[]" s "[]"] by simp
  qed (use eq in \<open>auto simp: quote_text_def arr_text_def obj_text_def\<close>)
qed simp

lemma num_text_hd: "hd (num_text n) \<noteq> 110"
proof -
  have w: "hd (js ''-'' @ t) \<noteq> 110" "hd (js ''0.'' @ t) \<noteq> 110" "hd (js ''0'') \<noteq> 110" "hd (js ''NaN'') \<noteq> 110"
    "hd (js ''Infinity'') \<noteq> 110" "hd (js ''-Infinity'') \<noteq> 110" "js ''.'' = [46]" for t by (simp_all add: js_def)
  have d: "hd (nat_text s) \<noteq> 110" "hd (nat_text s @ t) \<noteq> 110" "0 < k \<Longrightarrow> hd (take k (nat_text s) @ t) \<noteq> 110" for s t k
    using nat_text_digits [of "hd (nat_text s)" s] by (cases "nat_text s"; cases k; auto simp: unit_class_defs)+
  have l: "hd (num_layout (nat_text s) k) \<noteq> 110" for s k
    using d [of s] w by (auto simp: num_layout_def Let_def)
  show ?thesis
    using w l by (cases n) (auto simp: Let_def split: prod.split)
qed

lemma canon_VNull_inject: "emittable d v \<Longrightarrow> canon v = canon VNull \<longleftrightarrow> v = VNull"
proof
  assume v: "emittable d v" and eq: "canon v = canon VNull"
  have h: "hd (canon v) = 110" unfolding eq by (simp add: js_def)
  show "v = VNull"
  proof (cases v)
    case (VBool b)
    then show ?thesis using h by (cases b) (simp_all add: js_def)
  qed (use v h num_text_hd in \<open>simp_all add: quote_text_def arr_text_def obj_text_def\<close>)
qed simp

end
