(* ===== verification/Receipt.thy ===== *)
theory Receipt
  imports Tokens Canonical_Unique
begin

section \<open>Receipts (server-node/src/receipt.ts)\<close>

text \<open>
  \<open>parseReceipt\<close> checks the shape of a receipt, \<open>verifyReceiptSignature\<close> its key id and Ed25519
  signature over the canonical bytes of everything but \<open>sig\<close>.  The source returns the object it was
  given; here the typed view is a record that keeps that object as \<open>rc_raw\<close>.  A refusal is the
  reason, in the order of the checks.
\<close>

datatype outcome = Success | Failed | Errored | Timeout | Cancelled

record device =
  dv_kid :: jsstring
  dv_public_key :: jsstring
  dv_hardware :: bool

record receipt =
  rc_raw :: fields
  rc_origin :: jsstring
  rc_key :: jsstring
  rc_package :: "jsstring option"
  rc_function :: "jsstring option"
  rc_challenge :: "jsstring option"
  rc_inputs_hash :: "jsstring option"
  rc_outcome :: outcome
  rc_error_code :: "jsstring option"
  rc_data_hash :: "jsstring option"
  rc_run_id :: int
  rc_started_at :: int
  rc_finished_at :: int
  rc_version :: jsstring
  rc_device :: device
  rc_sig :: jsstring

datatype receipt_fault =
    NotObject | BadVersion | NoOrigin | NoKey | BadPackage | BadFunction | BadChallenge | UnknownOutcome
  | BadErrorCode | BadDataHash | BadInputsHash | BadInteger jsstring | NoWritVersion | NoDevice | NotEd25519
  | BadKid | NoPublicKey | BadPublicKey | BadHardware | NotSigned | BadSignatureLength
  | KidMismatch | NoCanonicalForm | SignatureRefused

definition OUTCOMES :: "(jsstring \<times> outcome) list" where
  "OUTCOMES = [(js ''success'', Success), (js ''failed'', Failed), (js ''error'', Errored),
     (js ''timeout'', Timeout), (js ''cancelled'', Cancelled)]"

definition lower_hex :: "codeunit \<Rightarrow> bool" where
  "lower_hex u \<longleftrightarrow> is_digit u \<or> unit_between (CHR ''a'') (CHR ''f'') u"

definition HEX64 :: "jsstring \<Rightarrow> bool" where
  "HEX64 s \<longleftrightarrow> length s = 64 \<and> list_all lower_hex s"

definition HEX16 :: "jsstring \<Rightarrow> bool" where
  "HEX16 s \<longleftrightarrow> length s = 16 \<and> list_all lower_hex s"

definition nullableString :: "jsval \<Rightarrow> jsstring option option" where
  "nullableString v = (case v of VNull \<Rightarrow> Some None | VStr s \<Rightarrow> Some (Some s) | _ \<Rightarrow> None)"

subsection \<open>Hashes (server-node/src/canonical.ts)\<close>

definition hex_bytes :: "bytes \<Rightarrow> jsstring" where
  "hex_bytes bs = concat (map (\<lambda>b. [hex_unit (unat b div 16), hex_unit (unat b mod 16)]) bs)"

definition sha256Hex :: "crypto \<Rightarrow> bytes \<Rightarrow> jsstring" where
  "sha256Hex C bytes = hex_bytes (sha256 C bytes)"

definition inputsHash :: "crypto \<Rightarrow> jsstring option \<Rightarrow> jsval \<Rightarrow> bridge_error + jsstring" where
  "inputsHash C challenge inputs =
     res_bind (canonicalJson (or_else inputs (VObj []))) (\<lambda>text.
       Inr (sha256Hex C (utf8 ((case challenge of None \<Rightarrow> [] | Some c \<Rightarrow> c) @ [10] @ text))))"

definition dataHash :: "crypto \<Rightarrow> jsval \<Rightarrow> bridge_error + jsstring" where
  "dataHash C data = res_bind (canonicalJson data) (\<lambda>text. Inr (sha256Hex C (utf8 text)))"

subsection \<open>The shape of a receipt\<close>

definition parseDevice :: "jsval \<Rightarrow> receipt_fault + device" where
  "parseDevice v =
     res_bind (req (obj_of v) NoDevice) (\<lambda>d.
     res_bind (guard (jget d (js ''alg'') = VStr (js ''Ed25519'')) NotEd25519) (\<lambda>_.
     res_bind (req (str_of (jget d (js ''kid''))) BadKid) (\<lambda>kid.
     res_bind (guard (HEX16 kid) BadKid) (\<lambda>_.
     res_bind (req (str_of (jget d (js ''public_key''))) NoPublicKey) (\<lambda>pk.
     res_bind (req (fromBase64Url pk) BadPublicKey) (\<lambda>raw.
     res_bind (guard (length raw = 32) BadPublicKey) (\<lambda>_.
     res_bind (req (bool_of (jget d (js ''hardware''))) BadHardware) (\<lambda>hw.
     Inr \<lparr>dv_kid = kid, dv_public_key = pk, dv_hardware = hw\<rparr>))))))))"

definition parseReceipt :: "jsval \<Rightarrow> receipt_fault + receipt" where
  "parseReceipt v =
     res_bind (req (obj_of v) NotObject) (\<lambda>r.
     res_bind (guard (is_num (jget r (js ''v'')) 1) BadVersion) (\<lambda>_.
     res_bind (req (str_of (jget r (js ''origin''))) NoOrigin) (\<lambda>origin.
     res_bind (guard (origin \<noteq> []) NoOrigin) (\<lambda>_.
     res_bind (req (str_of (jget r (js ''key''))) NoKey) (\<lambda>key.
     res_bind (guard (key \<noteq> []) NoKey) (\<lambda>_.
     res_bind (req (nullableString (jget r (js ''package''))) BadPackage) (\<lambda>package.
     res_bind (req (nullableString (jget r (js ''function''))) BadFunction) (\<lambda>fn.
     res_bind (req (nullableString (jget r (js ''challenge''))) BadChallenge) (\<lambda>challenge.
     res_bind (guard (case challenge of Some c \<Rightarrow> length c \<le> MAX_CHALLENGE_CHARS | None \<Rightarrow> True) BadChallenge) (\<lambda>_.
     res_bind (req (str_of (jget r (js ''outcome''))) UnknownOutcome) (\<lambda>outcomeName.
     res_bind (req (map_of OUTCOMES outcomeName) UnknownOutcome) (\<lambda>outcome.
     res_bind (req (nullableString (jget r (js ''error_code''))) BadErrorCode) (\<lambda>error_code.
     res_bind (req (nullableString (jget r (js ''data_hash''))) BadDataHash) (\<lambda>data_hash.
     res_bind (guard (case data_hash of Some h \<Rightarrow> HEX64 h | None \<Rightarrow> True) BadDataHash) (\<lambda>_.
     res_bind (if jget r (js ''inputs_hash'') = VUndef then Inr None
               else map_sum id Some (req (str_of (jget r (js ''inputs_hash''))) BadInputsHash)) (\<lambda>inputs_hash.
     res_bind (guard (case inputs_hash of Some h \<Rightarrow> HEX64 h | None \<Rightarrow> True) BadInputsHash) (\<lambda>_.
     res_bind (req (safe_int (jget r (js ''run_id''))) (BadInteger (js ''run_id''))) (\<lambda>run_id.
     res_bind (req (safe_int (jget r (js ''started_at''))) (BadInteger (js ''started_at''))) (\<lambda>started_at.
     res_bind (req (safe_int (jget r (js ''finished_at''))) (BadInteger (js ''finished_at''))) (\<lambda>finished_at.
     res_bind (req (obj_of (jget r (js ''writ''))) NoWritVersion) (\<lambda>writ.
     res_bind (req (str_of (jget writ (js ''version''))) NoWritVersion) (\<lambda>version.
     res_bind (parseDevice (jget r (js ''device''))) (\<lambda>device.
     res_bind (req (str_of (jget r (js ''sig''))) NotSigned) (\<lambda>sig.
     res_bind (req (fromBase64Url sig) BadSignatureLength) (\<lambda>sigBytes.
     res_bind (guard (length sigBytes = 64) BadSignatureLength) (\<lambda>_.
     Inr \<lparr>rc_raw = r, rc_origin = origin, rc_key = key, rc_package = package, rc_function = fn,
          rc_challenge = challenge, rc_inputs_hash = inputs_hash, rc_outcome = outcome,
          rc_error_code = error_code, rc_data_hash = data_hash, rc_run_id = run_id,
          rc_started_at = started_at, rc_finished_at = finished_at, rc_version = version,
          rc_device = device, rc_sig = sig\<rparr>))))))))))))))))))))))))))"

subsection \<open>The signature\<close>

definition kidOf :: "crypto \<Rightarrow> bytes \<Rightarrow> jsstring" where
  "kidOf C publicKey = take 16 (sha256Hex C publicKey)"

text \<open>
  The copy without \<open>sig\<close> that is signed, property by property: \<open>unsigned[key] = receipt[key]\<close>.  Assigning
  \<open>__proto__\<close> makes no property: a null or primitive value is lost, an object becomes the copy's
  prototype, so that the copy is no plain object any more and has no canonical form.
\<close>

definition PROTO :: jsstring where
  "PROTO = js ''__proto__''"

lemma js_PROTO [simp]: "js s = PROTO \<longleftrightarrow> s = ''__proto__''"
  by (simp add: PROTO_def)

definition unsigned_part :: "fields \<Rightarrow> fields" where
  "unsigned_part r = filter (\<lambda>(k, v). k \<noteq> js ''sig'' \<and> k \<noteq> PROTO) r"

definition is_object :: "jsval \<Rightarrow> bool" where
  "is_object v \<longleftrightarrow> (case v of VArr _ \<Rightarrow> True | VObj _ \<Rightarrow> True | VInst _ \<Rightarrow> True | VFun \<Rightarrow> True | VBack \<Rightarrow> True | _ \<Rightarrow> False)"

definition new_prototype :: "fields \<Rightarrow> bool" where
  "new_prototype r \<longleftrightarrow> (case map_of r PROTO of Some v \<Rightarrow> is_object v | None \<Rightarrow> False)"

definition receiptSigningBytes :: "fields \<Rightarrow> bridge_error + bytes" where
  "receiptSigningBytes r =
     res_bind (guard (\<not> new_prototype r) (inputInvalid [])) (\<lambda>_.
     res_bind (canonicalJson (VObj (unsigned_part r))) (\<lambda>text. Inr (utf8 text)))"

definition verifyReceiptSignature :: "crypto \<Rightarrow> jsval \<Rightarrow> receipt_fault + receipt \<times> device" where
  "verifyReceiptSignature C v =
     res_bind (parseReceipt v) (\<lambda>receipt.
     let device = rc_device receipt in
     res_bind (req (fromBase64Url (dv_public_key device)) BadPublicKey) (\<lambda>publicKey.
     res_bind (guard (kidOf C publicKey = dv_kid device) KidMismatch) (\<lambda>_.
     res_bind (map_sum (\<lambda>_. NoCanonicalForm) id (receiptSigningBytes (rc_raw receipt))) (\<lambda>bytes.
     res_bind (req (fromBase64Url (rc_sig receipt)) SignatureRefused) (\<lambda>sig.
     res_bind (guard (ed25519_verify C publicKey bytes sig) SignatureRefused) (\<lambda>_.
     Inr (receipt, device)))))))"

subsection \<open>Lemmas\<close>

lemma parseDevice_Inr:
  assumes "parseDevice v = Inr d"
  shows "\<exists>ob raw. v = VObj ob \<and> HEX16 (dv_kid d) \<and> jget ob (js ''kid'') = VStr (dv_kid d) \<and>
    jget ob (js ''public_key'') = VStr (dv_public_key d) \<and> jget ob (js ''hardware'') = VBool (dv_hardware d) \<and>
    dv_public_key d = toBase64Url raw \<and> length raw = 32"
  using assms unfolding parseDevice_def res_bind_eq_Inr req_eq guard_eq
  by (elim exE conjE) (auto simp: fromBase64Url_iff)

lemma parseReceipt_Inr:
  assumes "parseReceipt v = Inr rc"
  shows "v = VObj (rc_raw rc) \<and> jget (rc_raw rc) (js ''key'') = VStr (rc_key rc) \<and>
    jget (rc_raw rc) (js ''origin'') = VStr (rc_origin rc) \<and>
    nullableString (jget (rc_raw rc) (js ''challenge'')) = Some (rc_challenge rc) \<and>
    (\<exists>name. jget (rc_raw rc) (js ''outcome'') = VStr name \<and> map_of OUTCOMES name = Some (rc_outcome rc)) \<and>
    nullableString (jget (rc_raw rc) (js ''data_hash'')) = Some (rc_data_hash rc) \<and>
    parseDevice (jget (rc_raw rc) (js ''device'')) = Inr (rc_device rc) \<and>
    jget (rc_raw rc) (js ''sig'') = VStr (rc_sig rc) \<and> (\<exists>sig. rc_sig rc = toBase64Url sig \<and> length sig = 64) \<and>
    (jget (rc_raw rc) (js ''inputs_hash'') = VUndef \<and> rc_inputs_hash rc = None \<or>
     (\<exists>h. jget (rc_raw rc) (js ''inputs_hash'') = VStr h \<and> rc_inputs_hash rc = Some h))"
proof -
  have opt: "(if x = VUndef then Inr None else map_sum id Some (req (str_of x) e)) = Inr y \<Longrightarrow>
      x = VUndef \<and> y = None \<or> (\<exists>h. x = VStr h \<and> y = Some h)" for x y and e :: receipt_fault
    by (cases x) (auto split: if_splits simp: str_of_def)
  show ?thesis
    using assms unfolding parseReceipt_def res_bind_eq_Inr req_eq guard_eq
    by - (elim exE conjE, drule opt, auto simp: fromBase64Url_iff)
qed

lemma parseReceipt_jget:
  assumes "\<And>k. k \<noteq> PROTO \<Longrightarrow> jget r' k = jget r k" "parseReceipt (VObj r) = Inr rc"
  shows "parseReceipt (VObj r') = Inr (rc\<lparr>rc_raw := r'\<rparr>)"
proof -
  have eq: "jget r' (js s) = jget r (js s)" if "s \<noteq> ''__proto__''" for s using assms(1) that by simp
  show ?thesis
    using assms(2) unfolding parseReceipt_def [of "VObj r"] res_bind_eq_Inr req_eq guard_eq
    by (elim exE conjE, cases "jget r (js ''inputs_hash'') = VUndef") (auto simp: parseReceipt_def eq)
qed

lemma verifyReceiptSignature_Inr:
  "verifyReceiptSignature C v = Inr (rc, d) \<longleftrightarrow>
     parseReceipt v = Inr rc \<and> d = rc_device rc \<and>
     (\<exists>publicKey bytes sig. dv_public_key d = toBase64Url publicKey \<and> kidOf C publicKey = dv_kid d \<and>
        receiptSigningBytes (rc_raw rc) = Inr bytes \<and> rc_sig rc = toBase64Url sig \<and>
        ed25519_verify C publicKey bytes sig)"
proof -
  have m: "map_sum (\<lambda>_. NoCanonicalForm) id x = Inr y \<longleftrightarrow> x = Inr y" for x :: "bridge_error + bytes" and y
    by (cases x) auto
  show ?thesis
    unfolding verifyReceiptSignature_def Let_def res_bind_eq_Inr req_eq guard_eq m fromBase64Url_iff by auto
qed

text \<open>Two receipts with the same signed bytes agree on every field but \<open>sig\<close>.\<close>

lemma receiptSigningBytes_Inr:
  "receiptSigningBytes r = Inr bytes \<longleftrightarrow>
     \<not> new_prototype r \<and> emittable MAX_JSON_DEPTH (VObj (unsigned_part r)) \<and> bytes = utf8 (canon (VObj (unsigned_part r)))"
  by (auto simp: receiptSigningBytes_def result_simps canonicalJson_Inr)

lemma jget_atom: "jget r k = v \<Longrightarrow> v = VNull \<or> (\<exists>s. v = VStr s) \<Longrightarrow> map_of r k = Some v"
  by (auto simp: jget_def inherited_def split: option.splits if_splits)

text \<open>The text a receipt's own property is signed with; none when it is \<open>undefined\<close>.\<close>

definition property_text :: "fields \<Rightarrow> jsstring \<Rightarrow> jsstring option" where
  "property_text r k = (case map_of r k of None \<Rightarrow> None | Some v \<Rightarrow> if v = VUndef then None else Some (canon v))"

lemma in_unsigned: "distinct (map fst r) \<Longrightarrow> (k, v) \<in> set (unsigned_part r) \<longleftrightarrow> map_of r k = Some v \<and> k \<noteq> js ''sig'' \<and> k \<noteq> PROTO"
  by (auto simp: unsigned_part_def map_of_eq_Some_iff_distinct)

lemma same_bytes_same_text:
  assumes "receiptSigningBytes r = Inr bytes" "receiptSigningBytes r' = Inr bytes"
  shows "emittable MAX_JSON_DEPTH (VObj (unsigned_part r))" "emittable MAX_JSON_DEPTH (VObj (unsigned_part r'))"
    "canon (VObj (unsigned_part r)) = canon (VObj (unsigned_part r'))"
proof -
  show e: "emittable MAX_JSON_DEPTH (VObj (unsigned_part r))" "emittable MAX_JSON_DEPTH (VObj (unsigned_part r'))"
    using assms unfolding receiptSigningBytes_Inr by blast+
  have "utf8 (canon (VObj (unsigned_part r))) = utf8 (canon (VObj (unsigned_part r')))"
    using assms unfolding receiptSigningBytes_Inr by simp
  then show "canon (VObj (unsigned_part r)) = canon (VObj (unsigned_part r'))"
    using from_utf8_canon [OF e(1)] from_utf8_canon [OF e(2)] by simp
qed

lemma same_signed_property:
  assumes "receiptSigningBytes r = Inr bytes" "receiptSigningBytes r' = Inr bytes"
    and "distinct (map fst r)" "distinct (map fst r')" "map_of r' k = Some v" "v \<noteq> VUndef" "k \<noteq> js ''sig''" "k \<noteq> PROTO"
  obtains w where "map_of r k = Some w" "w \<noteq> VUndef" "canon w = canon v" "\<exists>d. emittable d w"
proof -
  note e = same_bytes_same_text [OF assms(1,2)]
  have "(k, v) \<in> set (unsigned_part r')" using assms by (simp add: in_unsigned)
  from same_text_member [OF e(2,1) e(3) [symmetric] this assms(6)] show ?thesis
    using that assms(3) by (auto simp: in_unsigned)
qed

lemma same_property_text:
  assumes "receiptSigningBytes r = Inr bytes" "receiptSigningBytes r' = Inr bytes"
    and "distinct (map fst r)" "distinct (map fst r')" "k \<noteq> js ''sig''" "k \<noteq> PROTO"
  shows "property_text r k = property_text r' k"
proof -
  have "property_text r k = Some t" if "property_text r' k = Some t" "receiptSigningBytes r = Inr bytes" "receiptSigningBytes r' = Inr bytes"
    "distinct (map fst r)" "distinct (map fst r')" for r r' t
  proof -
    note bytes = that(2-5)
    from that(1) obtain v where v: "map_of r' k = Some v" "v \<noteq> VUndef" "t = canon v"
      by (cases "map_of r' k") (auto simp: property_text_def split: if_splits)
    obtain w where "map_of r k = Some w" "w \<noteq> VUndef" "canon w = canon v"
      by (rule same_signed_property [OF bytes v(1,2) assms(5,6)]) blast
    then show ?thesis by (simp add: property_text_def v(3))
  qed
  then show ?thesis using assms(1-4) by (cases "property_text r k"; cases "property_text r' k") (metis option.distinct(1) option.sel)+
qed

lemma same_signed_field:
  assumes "receiptSigningBytes r = Inr bytes" "receiptSigningBytes r' = Inr bytes"
    and "distinct (map fst r)" "distinct (map fst r')"
    and "jget r' k = v" "v = VNull \<or> (\<exists>s. v = VStr s)" "k \<noteq> js ''sig''" "k \<noteq> PROTO"
  shows "jget r k = v"
proof -
  have v: "map_of r' k = Some v" "v \<noteq> VUndef" using jget_atom [OF assms(5)] assms(6) by auto
  from same_signed_property [OF assms(1-4) v assms(7,8)] obtain w where
    w: "map_of r k = Some w" "canon w = canon v" "\<exists>d. emittable d w" by blast
  then have "w = v" using assms(6) canon_VStr_inject canon_VNull_inject by blast
  then show ?thesis using w(1) by (simp add: jget_own)
qed

lemma nullableString_cases: "nullableString v = Some x \<longleftrightarrow> (case x of None \<Rightarrow> v = VNull | Some s \<Rightarrow> v = VStr s)"
  by (cases v) (auto simp: nullableString_def split: option.splits)

lemma OUTCOMES_names: "map_of OUTCOMES n = Some x \<Longrightarrow> map_of OUTCOMES n' = Some x \<Longrightarrow> n = n'"
  by (auto simp: OUTCOMES_def split: if_splits)

subsection \<open>Properties\<close>

text \<open>What a verified receipt is: well formed, with a 32-byte key that its key id names and an
  Ed25519 signature of that key over the UTF-8 canonical JSON of every property of the receipt but
  \<open>sig\<close> and \<open>__proto__\<close>; conversely such a receipt verifies.\<close>

theorem verifyReceiptSignature_genuine:
  "verifyReceiptSignature C v = Inr (rc, d) \<longleftrightarrow>
     parseReceipt v = Inr rc \<and> d = rc_device rc \<and>
     (\<exists>publicKey sig. dv_public_key d = toBase64Url publicKey \<and> kidOf C publicKey = dv_kid d \<and>
        \<not> new_prototype (rc_raw rc) \<and> emittable MAX_JSON_DEPTH (VObj (unsigned_part (rc_raw rc))) \<and> rc_sig rc = toBase64Url sig \<and>
        ed25519_verify C publicKey (utf8 (canon (VObj (unsigned_part (rc_raw rc))))) sig)"
  using verifyReceiptSignature_Inr [of C v rc d] by (auto simp: receiptSigningBytes_Inr)

text \<open>A property the signature does not cover: adding a \<open>"__proto__"\<close> property with a null or primitive
  value (as \<open>JSON.parse\<close> reads one) to a receipt that verifies gives a receipt that still verifies, with the
  same device, whatever the value.\<close>

theorem proto_property_unsigned:
  assumes "verifyReceiptSignature C (VObj r) = Inr (rc, d)" "PROTO \<notin> set (map fst r)" "\<not> is_object v"
  shows "\<exists>rc'. verifyReceiptSignature C (VObj ((PROTO, v) # r)) = Inr (rc', d) \<and> rc_raw rc' = (PROTO, v) # r"
proof -
  have raw: "rc_raw rc = r" using assms(1) parseReceipt_Inr [of "VObj r" rc] by (simp add: verifyReceiptSignature_Inr)
  have parse: "parseReceipt (VObj ((PROTO, v) # r)) = Inr (rc\<lparr>rc_raw := (PROTO, v) # r\<rparr>)"
    by (rule parseReceipt_jget [where r = r]) (use assms(1) in \<open>auto simp: verifyReceiptSignature_Inr\<close>)
  have "receiptSigningBytes ((PROTO, v) # r) = receiptSigningBytes r"
    using assms(2,3) map_of_eq_None_iff [of r PROTO] by (simp add: receiptSigningBytes_def new_prototype_def unsigned_part_def)
  then show ?thesis
    using assms(1) raw parse by (auto simp: verifyReceiptSignature_Inr intro!: exI [of _ "rc\<lparr>rc_raw := (PROTO, v) # r\<rparr>"])
qed

text \<open>C15: the signature covers the whole receipt.  If two well-formed receipts have the same signed bytes, every
  property of theirs but \<open>sig\<close> and \<open>__proto__\<close> is printed alike, whatever numbers the receipts hold, and they agree on the
  function, the challenge, the outcome, the data hash, the inputs hash and the origin.  The keys of a receipt are
  distinct, as the keys of every JavaScript object are.\<close>

theorem signed_bytes_bind:
  assumes "parseReceipt v = Inr rc" "parseReceipt v' = Inr rc'"
    and "receiptSigningBytes (rc_raw rc) = Inr bytes" "receiptSigningBytes (rc_raw rc') = Inr bytes"
    and "distinct (map fst (rc_raw rc))" "distinct (map fst (rc_raw rc'))"
  shows "(\<forall>k. k \<noteq> js ''sig'' \<and> k \<noteq> PROTO \<longrightarrow> property_text (rc_raw rc) k = property_text (rc_raw rc') k) \<and>
    rc_key rc = rc_key rc' \<and> rc_challenge rc = rc_challenge rc' \<and> rc_outcome rc = rc_outcome rc' \<and>
    rc_data_hash rc = rc_data_hash rc' \<and> rc_inputs_hash rc = rc_inputs_hash rc' \<and> rc_origin rc = rc_origin rc'"
proof -
  note P = parseReceipt_Inr [OF assms(1)] and P' = parseReceipt_Inr [OF assms(2)]
  note f = same_signed_field [OF assms(3-6)]
  have str: "x = y" if "jget (rc_raw rc) k = VStr x" "jget (rc_raw rc') k = VStr y" "k \<noteq> js ''sig''" "k \<noteq> PROTO" for x y k
    using f [OF that(2)] that by auto
  have nul: "x = y" if "nullableString (jget (rc_raw rc) k) = Some x" "nullableString (jget (rc_raw rc') k) = Some y" "k \<noteq> js ''sig''" "k \<noteq> PROTO" for x y k
    using that f [of k "jget (rc_raw rc') k"] by (auto simp: nullableString_cases split: option.splits)
  have f1: "jget (rc_raw rc') (js ''inputs_hash'') = VStr h \<Longrightarrow> jget (rc_raw rc) (js ''inputs_hash'') = VStr h" for h
    by (rule f) auto
  have f2: "jget (rc_raw rc) (js ''inputs_hash'') = VStr h \<Longrightarrow> jget (rc_raw rc') (js ''inputs_hash'') = VStr h" for h
    by (rule same_signed_field [OF assms(4,3,6,5)]) auto
  have "jget (rc_raw rc) (js ''inputs_hash'') = VUndef \<and> rc_inputs_hash rc = None \<or>
      (\<exists>h. jget (rc_raw rc) (js ''inputs_hash'') = VStr h \<and> rc_inputs_hash rc = Some h)"
    "jget (rc_raw rc') (js ''inputs_hash'') = VUndef \<and> rc_inputs_hash rc' = None \<or>
      (\<exists>h. jget (rc_raw rc') (js ''inputs_hash'') = VStr h \<and> rc_inputs_hash rc' = Some h)"
    using P P' by blast+
  then have ih: "rc_inputs_hash rc = rc_inputs_hash rc'"
    by (elim disjE conjE exE) (simp_all, (drule f1 f2, simp)+)
  obtain n n' where "jget (rc_raw rc) (js ''outcome'') = VStr n" "map_of OUTCOMES n = Some (rc_outcome rc)"
      "jget (rc_raw rc') (js ''outcome'') = VStr n'" "map_of OUTCOMES n' = Some (rc_outcome rc')" using P P' by blast
  then have out: "rc_outcome rc = rc_outcome rc'" using str [of "js ''outcome''" n n'] by simp
  have "rc_key rc = rc_key rc'" "rc_origin rc = rc_origin rc'"
    by (rule str [of "js ''key''"]; use P P' in simp) (rule str [of "js ''origin''"]; use P P' in simp)
  moreover have "rc_challenge rc = rc_challenge rc'" "rc_data_hash rc = rc_data_hash rc'"
    by (rule nul [of "js ''challenge''"]; use P P' in simp) (rule nul [of "js ''data_hash''"]; use P P' in simp)
  ultimately show ?thesis using ih out same_property_text [OF assms(3-6)] by blast
qed

end
