(* ===== verification/Store_Laws.thy ===== *)
theory Store_Laws
  imports Prelude
begin

section \<open>The interfaces of the store (server-node/src/store.ts, interface \<open>WritBridgeStore\<close>)\<close>

text \<open>
  What the clients of a store rely on, as locales over the operations they call: a ledger of spent
  nonces, a registry of pinned devices, and a box of pending commands whose results are handed over
  once.  The memory store interprets all of them (\<open>Bridge_Store\<close>); receipts are checked against
  the first two (\<open>Verify\<close>), the page channel against the third (\<open>Page_Channel\<close>).
\<close>

datatype WritDeviceCheck = Known | Pinned | Unknown

subsection \<open>Nonces\<close>

locale nonce_ledger =
  fixes spend :: "int \<Rightarrow> 'n \<Rightarrow> int \<Rightarrow> 's \<Rightarrow> bool \<times> 's"
    and until :: "'s \<Rightarrow> 'n \<Rightarrow> int option"
  assumes spend_reply: "spend t n ttl s = (b, s') \<Longrightarrow> b \<longleftrightarrow> \<not> (\<exists>x. until s n = Some x \<and> t < x)"
    and spend_records: "spend t n ttl s = (True, s') \<Longrightarrow> until s' n = Some (t + max 1 ttl)"
    and spend_keeps: "spend t n' ttl s = (b, s') \<Longrightarrow> until s n = Some x \<Longrightarrow> t < x \<Longrightarrow> until s' n = Some x"
begin

definition spent_at :: "int \<Rightarrow> 'n \<Rightarrow> 's \<Rightarrow> bool" where
  "spent_at t n s \<longleftrightarrow> (\<exists>x. until s n = Some x \<and> t < x)"

lemma spend_refused: "spent_at t n s \<Longrightarrow> \<not> fst (spend t n ttl s)"
  by (cases "spend t n ttl s") (auto simp: spent_at_def dest: spend_reply)

lemma spend_then_spent: "spend t n ttl s = (True, s') \<Longrightarrow> t' < t + max 1 ttl \<Longrightarrow> spent_at t' n s'"
  by (auto simp: spent_at_def dest: spend_records)

lemma spent_stays: "spend t n' ttl s = (b, s') \<Longrightarrow> until s n = Some x \<Longrightarrow> t < x \<Longrightarrow> t' < x \<Longrightarrow> spent_at t' n s'"
  by (auto simp: spent_at_def dest: spend_keeps)

lemma spend_twice:
  assumes "spend t n ttl s = (True, s1)" "spend t' n ttl' s1 = (b, s2)" "t' < t + max 1 ttl"
  shows "\<not> b"
  using spend_refused [OF spend_then_spent [OF assms(1,3)], of ttl'] assms(2) by simp

end

subsection \<open>Devices\<close>

locale device_registry =
  fixes check :: "'u \<Rightarrow> 'k \<Rightarrow> bool \<Rightarrow> 's \<Rightarrow> WritDeviceCheck \<times> 's"
    and pins :: "'s \<Rightarrow> 'u \<Rightarrow> 'k set"
  assumes check_reply: "check u k first s = (r, s') \<Longrightarrow>
      r = (if k \<in> pins s u then Known else if first \<and> pins s u = {} then Pinned else Unknown)"
    and check_pins: "check u k first s = (r, s') \<Longrightarrow>
      pins s' v = (if v = u \<and> r = Pinned then {k} else pins s v)"
begin

lemma check_stable: "check u k first s = (r, s') \<Longrightarrow> pins s v \<noteq> {} \<Longrightarrow> pins s' v = pins s v"
  using check_reply [of u k first s r s'] check_pins [of u k first s r s' v] by (auto split: if_splits)

lemma check_known: "check u k first s = (r, s') \<Longrightarrow> r \<noteq> Unknown \<Longrightarrow> k \<in> pins s' u"
  using check_reply [of u k first s r s'] check_pins [of u k first s r s' u] by (auto split: if_splits)

lemma other_device_refused:
  "k' \<in> pins s u \<Longrightarrow> k \<notin> pins s u \<Longrightarrow> fst (check u k first s) = Unknown"
  using check_reply [of u k first s] by (cases "check u k first s") auto

end

subsection \<open>Both, and operations that leave the other part alone\<close>

locale receipt_store = nonce_ledger spend until + device_registry check pins
  for spend :: "int \<Rightarrow> 'n \<Rightarrow> int \<Rightarrow> 's \<Rightarrow> bool \<times> 's" and until :: "'s \<Rightarrow> 'n \<Rightarrow> int option"
    and check :: "'u \<Rightarrow> 'k \<Rightarrow> bool \<Rightarrow> 's \<Rightarrow> WritDeviceCheck \<times> 's" and pins :: "'s \<Rightarrow> 'u \<Rightarrow> 'k set" +
  assumes check_until: "check u k first s = (r, s') \<Longrightarrow> until s' n = until s n"
    and spend_pins: "spend t n ttl s = (b, s') \<Longrightarrow> pins s' u = pins s u"

subsection \<open>Pending commands\<close>

locale result_box =
  fixes settle :: "int \<Rightarrow> 'i \<Rightarrow> 'r \<Rightarrow> 's \<Rightarrow> bool \<times> 's"
    and collect :: "int \<Rightarrow> 'i \<Rightarrow> 's \<Rightarrow> 'r option \<times> 's"
    and waiting :: "'s \<Rightarrow> 'i \<Rightarrow> int option"
    and held :: "'s \<Rightarrow> 'i \<Rightarrow> ('r \<times> int) option"
  assumes settle_reply: "settle t i r s = (b, s') \<Longrightarrow> b \<longleftrightarrow> (\<exists>x. waiting s i = Some x \<and> t < x)"
    and settle_forgets: "settle t i r s = (b, s') \<Longrightarrow> waiting s' i = None"
    and settle_holds: "settle t i r s = (True, s') \<Longrightarrow> waiting s i = Some x \<Longrightarrow> held s' i = Some (r, x)"
    and collect_reply: "held s i = Some (r, x) \<Longrightarrow> t < x \<Longrightarrow> fst (collect t i s) = Some r"
    and collect_empties: "collect t i s = (q, s') \<Longrightarrow> held s' i = None"
    and collect_none: "held s i = None \<Longrightarrow> fst (collect t i s) = None"
begin

lemma settle_once:
  assumes "settle t i r s = (b, s1)" "settle t' i r' s1 = (b', s2)" shows "\<not> b'"
  using settle_forgets [OF assms(1)] settle_reply [OF assms(2)] by simp

lemma settled_is_collected:
  assumes "settle t i r s = (True, s1)" "waiting s i = Some x" "t' < x"
  shows "fst (collect t' i s1) = Some r"
  using collect_reply [OF settle_holds [OF assms(1,2)] assms(3)] .

lemma collect_once: "collect t i s = (q, s1) \<Longrightarrow> fst (collect t' i s1) = None"
  by (rule collect_none) (rule collect_empties)

end

end
