(* ===== verification/Bridge_Store.thy ===== *)
theory Bridge_Store
  imports Receipt Store_Laws "HOL-Library.Sublist"
begin

section \<open>What requests share: the memory store (server-node/src/store.ts)\<close>

text \<open>
  \<open>memoryStore\<close> as a record of its maps and one function per operation; the clock is the argument
  \<open>now\<close> (milliseconds).  \<open>take\<close> and \<open>awaitResult\<close> wait: their loop runs once more after each wake-up, and
  the argument \<open>wakes\<close> lists the wake-ups before the deadline, each with its time and what the other
  requests did to the store meanwhile.
\<close>

subsection \<open>Data\<close>

record presence =
  pr_ready :: bool
  pr_granted :: "jsstring list"
  pr_writ_version :: "jsstring option"
  pr_last_seen :: int
  pr_ever_ready :: bool

record command =
  cmd_id :: jsstring
  cmd_key :: jsstring
  cmd_inputs :: fields
  cmd_timeout_ms :: int
  cmd_dry_run :: bool
  cmd_challenge :: jsstring
  cmd_expires_at :: int

record pending_command =
  pd_id :: jsstring
  pd_user :: jsstring
  pd_key :: jsstring
  pd_challenge :: jsstring
  pd_expires_at :: int
  pd_inputs_hash :: "jsstring option"

datatype command_outcome =
    OutcomeOk jsval receipt
  | OutcomeError (oe_code: jsstring) (oe_message: jsstring) (oe_receipt: "receipt option") (oe_device: "device option")

record memory =
  presences :: "jsstring \<rightharpoonup> presence \<times> int"
  queues :: "jsstring \<rightharpoonup> (command \<times> int) list"
  pendings :: "jsstring \<rightharpoonup> pending_command \<times> int"
  results :: "jsstring \<rightharpoonup> command_outcome \<times> int"
  nonces :: "jsstring \<rightharpoonup> int"
  devices :: "jsstring \<rightharpoonup> jsstring set"
  lastSweep :: int

definition empty_memory :: "int \<Rightarrow> memory" where
  "empty_memory now = \<lparr>presences = Map.empty, queues = Map.empty, pendings = Map.empty, results = Map.empty,
     nonces = Map.empty, devices = Map.empty, lastSweep = now\<rparr>"

definition DEFAULT_TAKE_MAX :: nat where "DEFAULT_TAKE_MAX = 16"
definition SWEEP_EVERY_MS :: int where "SWEEP_EVERY_MS = 30000"

subsection \<open>Sweeping\<close>

definition live :: "int \<Rightarrow> ('k \<rightharpoonup> 'v \<times> int) \<Rightarrow> ('k \<rightharpoonup> 'v \<times> int)" where
  "live t m = (\<lambda>k. case m k of None \<Rightarrow> None | Some (v, x) \<Rightarrow> if x \<le> t then None else Some (v, x))"

definition live_queue :: "int \<Rightarrow> ('c \<times> int) list \<Rightarrow> ('c \<times> int) list" where
  "live_queue t q = filter (\<lambda>(c, x). x > t) q"

definition put_queue :: "jsstring \<Rightarrow> (command \<times> int) list \<Rightarrow> (jsstring \<rightharpoonup> (command \<times> int) list) \<Rightarrow>
    (jsstring \<rightharpoonup> (command \<times> int) list)" where
  "put_queue u q qs = (if q = [] then qs(u := None) else qs(u \<mapsto> q))"

definition sweep :: "int \<Rightarrow> memory \<Rightarrow> memory" where
  "sweep t m =
     (if t - lastSweep m < SWEEP_EVERY_MS then m
      else m\<lparr>lastSweep := t, presences := live t (presences m), pendings := live t (pendings m),
             results := live t (results m),
             nonces := (\<lambda>k. case nonces m k of None \<Rightarrow> None | Some x \<Rightarrow> if x \<le> t then None else Some x),
             queues := (\<lambda>u. case queues m u of None \<Rightarrow> None
                | Some q \<Rightarrow> if live_queue t q = [] then None else Some (live_queue t q))\<rparr>)"

subsection \<open>Operations\<close>

definition getPresence :: "int \<Rightarrow> jsstring \<Rightarrow> memory \<Rightarrow> presence option \<times> memory" where
  "getPresence now u m0 =
     (let m = sweep now m0 in
      case presences m u of
        None \<Rightarrow> (None, m)
      | Some (p, x) \<Rightarrow> if x \<le> now then (None, m\<lparr>presences := (presences m)(u := None)\<rparr>) else (Some p, m))"

definition setPresence :: "int \<Rightarrow> jsstring \<Rightarrow> presence \<Rightarrow> int \<Rightarrow> memory \<Rightarrow> memory" where
  "setPresence now u p ttlMs m0 =
     (let m = sweep now m0 in m\<lparr>presences := (presences m)(u \<mapsto> (p, now + ttlMs))\<rparr>)"

definition queue_of :: "memory \<Rightarrow> jsstring \<Rightarrow> (command \<times> int) list" where
  "queue_of m u = (case queues m u of None \<Rightarrow> [] | Some q \<Rightarrow> q)"

definition enqueue :: "int \<Rightarrow> jsstring \<Rightarrow> command \<Rightarrow> pending_command \<Rightarrow> int \<Rightarrow> memory \<Rightarrow> memory" where
  "enqueue now u c p ttlMs m0 =
     (let m = sweep now m0; x = now + ttlMs in
      m\<lparr>pendings := (pendings m)(pd_id p \<mapsto> (p, x)), queues := (queues m)(u \<mapsto> queue_of m u @ [(c, x)])\<rparr>)"

definition takeNow :: "int \<Rightarrow> jsstring \<Rightarrow> nat \<Rightarrow> memory \<Rightarrow> command list \<times> memory" where
  "takeNow now u mx m =
     (case queues m u of
        None \<Rightarrow> ([], m)
      | Some q \<Rightarrow>
          (let lq = live_queue now q; n = max 1 mx in
           (map fst (take n lq), m\<lparr>queues := put_queue u (drop n lq) (queues m)\<rparr>)))"

fun take_loop :: "jsstring \<Rightarrow> nat \<Rightarrow> int \<Rightarrow> (int \<times> (memory \<Rightarrow> memory)) list \<Rightarrow> memory \<Rightarrow> command list \<times> memory" where
  "take_loop u mx now wakes m =
     (case takeNow now u mx m of
        (taken, m1) \<Rightarrow>
          if taken \<noteq> [] then (taken, m1)
          else (case wakes of [] \<Rightarrow> ([], m1) | (now', others) # wakes' \<Rightarrow> take_loop u mx now' wakes' (others m1)))"

definition take_commands ::
  "int \<Rightarrow> jsstring \<Rightarrow> nat option \<Rightarrow> (int \<times> (memory \<Rightarrow> memory)) list \<Rightarrow> memory \<Rightarrow> command list \<times> memory" where
  "take_commands now u mx wakes m =
     take_loop u (case mx of None \<Rightarrow> DEFAULT_TAKE_MAX | Some n \<Rightarrow> n) now wakes (sweep now m)"

definition requeue :: "int \<Rightarrow> jsstring \<Rightarrow> command list \<Rightarrow> memory \<Rightarrow> memory" where
  "requeue now u commands m =
     (let back = live_queue now (map (\<lambda>c. (c, case pendings m (cmd_id c) of None \<Rightarrow> 0 | Some (p, x) \<Rightarrow> x)) commands) in
      if commands = [] \<or> back = [] then m
      else m\<lparr>queues := (queues m)(u \<mapsto> back @ queue_of m u)\<rparr>)"

fun remove_first :: "('a \<Rightarrow> bool) \<Rightarrow> 'a list \<Rightarrow> 'a list" where
  "remove_first p [] = []"
| "remove_first p (x # xs) = (if p x then xs else x # remove_first p xs)"

definition withdraw :: "jsstring \<Rightarrow> command \<Rightarrow> memory \<Rightarrow> bool \<times> memory" where
  "withdraw u c m =
     (case queues m u of
        None \<Rightarrow> (False, m)
      | Some q \<Rightarrow>
          if \<exists>e \<in> set q. cmd_id (fst e) = cmd_id c
          then (True, m\<lparr>queues := put_queue u (remove_first (\<lambda>e. cmd_id (fst e) = cmd_id c) q) (queues m)\<rparr>)
          else (False, m))"

definition pending :: "int \<Rightarrow> jsstring \<Rightarrow> memory \<Rightarrow> pending_command option \<times> memory" where
  "pending now i m =
     (case pendings m i of
        None \<Rightarrow> (None, m)
      | Some (p, x) \<Rightarrow> if x \<le> now then (None, m\<lparr>pendings := (pendings m)(i := None)\<rparr>) else (Some p, m))"

definition resolve :: "int \<Rightarrow> jsstring \<Rightarrow> command_outcome \<Rightarrow> memory \<Rightarrow> bool \<times> memory" where
  "resolve now i out m =
     (let m' = m\<lparr>pendings := (pendings m)(i := None)\<rparr> in
      case pendings m i of
        None \<Rightarrow> (False, m')
      | Some (p, x) \<Rightarrow> if x \<le> now then (False, m') else (True, m'\<lparr>results := (results m)(i \<mapsto> (out, x))\<rparr>))"

definition takeResult :: "int \<Rightarrow> jsstring \<Rightarrow> memory \<Rightarrow> command_outcome option \<times> memory" where
  "takeResult now i m =
     (case results m i of
        None \<Rightarrow> (None, m)
      | Some (out, x) \<Rightarrow> (if x > now then Some out else None, m\<lparr>results := (results m)(i := None)\<rparr>))"

fun awaitResult :: "jsstring \<Rightarrow> int \<Rightarrow> (int \<times> (memory \<Rightarrow> memory)) list \<Rightarrow> memory \<Rightarrow> command_outcome option \<times> memory" where
  "awaitResult i now wakes m =
     (case takeResult now i m of
        (Some out, m1) \<Rightarrow> (Some out, m1)
      | (None, m1) \<Rightarrow>
          (case wakes of [] \<Rightarrow> (None, m1) | (now', others) # wakes' \<Rightarrow> awaitResult i now' wakes' (others m1)))"

declare take_loop.simps [simp del] awaitResult.simps [simp del]

definition cancel :: "jsstring \<Rightarrow> memory \<Rightarrow> memory" where
  "cancel i m = m\<lparr>pendings := (pendings m)(i := None), results := (results m)(i := None)\<rparr>"

definition spendNonce :: "int \<Rightarrow> jsstring \<Rightarrow> int \<Rightarrow> memory \<Rightarrow> bool \<times> memory" where
  "spendNonce now nonce ttlMs m0 =
     (let m = sweep now m0 in
      if (case nonces m nonce of None \<Rightarrow> False | Some until \<Rightarrow> until > now) then (False, m)
      else (True, m\<lparr>nonces := (nonces m)(nonce \<mapsto> now + max 1 ttlMs)\<rparr>))"

definition pinned :: "memory \<Rightarrow> jsstring \<Rightarrow> jsstring set" where
  "pinned m subject = (case devices m subject of None \<Rightarrow> {} | Some ks \<Rightarrow> ks)"

definition checkDevice :: "jsstring \<Rightarrow> jsstring \<Rightarrow> bool \<Rightarrow> memory \<Rightarrow> WritDeviceCheck \<times> memory" where
  "checkDevice subject publicKey firstUse m =
     (if publicKey \<in> pinned m subject then (Known, m)
      else if firstUse \<and> pinned m subject = {} then (Pinned, m\<lparr>devices := (devices m)(subject \<mapsto> {publicKey})\<rparr>)
      else (Unknown, m))"

definition pinDevice :: "jsstring \<Rightarrow> jsstring \<Rightarrow> memory \<Rightarrow> memory" where
  "pinDevice subject publicKey m = m\<lparr>devices := (devices m)(subject \<mapsto> insert publicKey (pinned m subject))\<rparr>"

definition forgetDevices :: "jsstring \<Rightarrow> memory \<Rightarrow> memory" where
  "forgetDevices subject m = m\<lparr>devices := (devices m)(subject := None)\<rparr>"

subsection \<open>Runs: sequences of operations\<close>

datatype op =
    GetPresence jsstring | SetPresence jsstring presence int
  | Enqueue jsstring command pending_command int | TakeNow jsstring nat | Requeue jsstring "command list"
  | Withdraw jsstring command | Pending jsstring | Resolve jsstring command_outcome | TakeResult jsstring
  | Cancel jsstring | SpendNonce jsstring int | CheckDevice jsstring jsstring bool | PinDevice jsstring jsstring
  | ForgetDevices jsstring | Sweep

datatype reply =
    Unit | Flag bool | Presence "presence option" | Commands "command list" | Waiting "pending_command option"
  | Outcome "command_outcome option" | Check WritDeviceCheck

fun perform :: "int \<Rightarrow> op \<Rightarrow> memory \<Rightarrow> reply \<times> memory" where
  "perform t (GetPresence u) m = map_prod Presence id (getPresence t u m)"
| "perform t (SetPresence u p ttl) m = (Unit, setPresence t u p ttl m)"
| "perform t (Enqueue u c p ttl) m = (Unit, enqueue t u c p ttl m)"
| "perform t (TakeNow u mx) m = map_prod Commands id (takeNow t u mx m)"
| "perform t (Requeue u cs) m = (Unit, requeue t u cs m)"
| "perform t (Withdraw u c) m = map_prod Flag id (withdraw u c m)"
| "perform t (Pending i) m = map_prod Waiting id (pending t i m)"
| "perform t (Resolve i out) m = map_prod Flag id (resolve t i out m)"
| "perform t (TakeResult i) m = map_prod Outcome id (takeResult t i m)"
| "perform t (Cancel i) m = (Unit, cancel i m)"
| "perform t (SpendNonce n ttl) m = map_prod Flag id (spendNonce t n ttl m)"
| "perform t (CheckDevice s k f) m = map_prod Check id (checkDevice s k f m)"
| "perform t (PinDevice s k) m = (Unit, pinDevice s k m)"
| "perform t (ForgetDevices s) m = (Unit, forgetDevices s m)"
| "perform t Sweep m = (Unit, sweep t m)"

type_synonym event = "int \<times> op \<times> reply"

inductive run :: "int \<Rightarrow> memory \<Rightarrow> event list \<Rightarrow> memory \<Rightarrow> bool" where
  Done: "run t m [] m"
| Step: "t \<le> t' \<Longrightarrow> perform t' c m = (r, m') \<Longrightarrow> run t' m' es m'' \<Longrightarrow> run t m ((t', c, r) # es) m''"

inductive_cases run_NilE: "run t m [] m'"
inductive_cases run_ConsE: "run t m (e # es) m''"
inductive_simps run_Nil [simp]: "run t m [] m'"
inductive_simps run_Cons [simp]: "run t m ((t', c, r) # es) m''"

lemma run_append: "run t m (es @ fs) m'' \<longleftrightarrow> (\<exists>m'. run t m es m' \<and>
    run (if es = [] then t else fst (last es)) m' fs m'')"
  by (induction es arbitrary: t m) (auto, blast+)

subsection \<open>The memory store meets the interfaces\<close>

lemmas store_op_defs =
  getPresence_def setPresence_def enqueue_def takeNow_def requeue_def withdraw_def pending_def resolve_def
  takeResult_def cancel_def spendNonce_def checkDevice_def pinDevice_def forgetDevices_def Let_def

lemma sweep_nonces: "nonces m n = Some x \<Longrightarrow> t < x \<Longrightarrow> nonces (sweep t m) n = Some x"
  by (simp add: sweep_def)

lemma spent_sweep: "(case nonces (sweep t m) n of None \<Rightarrow> False | Some x \<Rightarrow> x > t) \<longleftrightarrow> (\<exists>x. nonces m n = Some x \<and> t < x)"
  by (cases "nonces m n") (auto simp: sweep_def)

lemma sweep_nonces_None: "nonces m n = None \<Longrightarrow> nonces (sweep t m) n = None"
  by (simp add: sweep_def)

lemma sweep_nonces_Some: "nonces (sweep t m) n = Some x \<Longrightarrow> nonces m n = Some x"
  by (simp add: sweep_def split: if_splits option.splits)

lemma sweep_devices [simp]: "devices (sweep t m) = devices m"
  by (simp add: sweep_def)

lemma sweep_pendings: "pendings (sweep t m) i = None \<or> pendings (sweep t m) i = pendings m i"
  by (auto simp: sweep_def live_def split: option.splits)

lemma sweep_results: "results (sweep t m) i = None \<or> results (sweep t m) i = results m i"
  by (auto simp: sweep_def live_def split: option.splits)

interpretation mem_store: receipt_store spendNonce nonces checkDevice pinned
proof
  fix t :: int and n n' :: jsstring and ttl :: int and s s' :: memory and b :: bool and x :: int
  show "spendNonce t n ttl s = (b, s') \<Longrightarrow> b \<longleftrightarrow> \<not> (\<exists>x. nonces s n = Some x \<and> t < x)"
    unfolding spendNonce_def Let_def spent_sweep by (auto split: if_splits)
  show "spendNonce t n ttl s = (True, s') \<Longrightarrow> nonces s' n = Some (t + max 1 ttl)"
    unfolding spendNonce_def Let_def spent_sweep by (auto split: if_splits)
  show "spendNonce t n' ttl s = (b, s') \<Longrightarrow> nonces s n = Some x \<Longrightarrow> t < x \<Longrightarrow> nonces s' n = Some x"
    unfolding spendNonce_def Let_def spent_sweep by (auto split: if_splits simp: sweep_nonces)
  show "spendNonce t n ttl s = (b, s') \<Longrightarrow> pinned s' u = pinned s u" for u
    unfolding spendNonce_def Let_def spent_sweep by (auto simp: pinned_def split: if_splits)
next
  fix u v k n :: jsstring and first :: bool and s s' :: memory and r
  show "checkDevice u k first s = (r, s') \<Longrightarrow>
      r = (if k \<in> pinned s u then Known else if first \<and> pinned s u = {} then Pinned else Unknown)"
    by (auto simp: checkDevice_def split: if_splits)
  show "checkDevice u k first s = (r, s') \<Longrightarrow> pinned s' v = (if v = u \<and> r = Pinned then {k} else pinned s v)"
    by (auto simp: checkDevice_def pinned_def split: if_splits)
  show "checkDevice u k first s = (r, s') \<Longrightarrow> nonces s' n = nonces s n"
    by (auto simp: checkDevice_def split: if_splits)
qed

interpretation mem_box: result_box resolve takeResult "\<lambda>m i. map_option snd (pendings m i)" results
  by unfold_locales (auto simp: resolve_def takeResult_def Let_def split: option.splits if_splits)

subsection \<open>Properties of runs\<close>

text \<open>What happens to a command's results during a run.\<close>

fun won :: "jsstring \<Rightarrow> event list \<Rightarrow> command_outcome list" where
  "won i [] = []"
| "won i ((t, Resolve j out, Flag True) # es) = (if j = i then out # won i es else won i es)"
| "won i (_ # es) = won i es"

fun delivered :: "jsstring \<Rightarrow> event list \<Rightarrow> command_outcome list" where
  "delivered i [] = []"
| "delivered i ((t, TakeResult j, Outcome (Some out)) # es) = (if j = i then out # delivered i es else delivered i es)"
| "delivered i (_ # es) = delivered i es"

definition enqueues :: "jsstring \<Rightarrow> event \<Rightarrow> bool" where
  "enqueues i e \<longleftrightarrow> (\<exists>t u c p ttl r. e = (t, Enqueue u c p ttl, r) \<and> pd_id p = i)"

lemma perform_pendings:
  assumes "perform t c m = (r, m')" "\<not> enqueues i (t, c, r)" "pendings m i = None"
  shows "pendings m' i = None"
proof -
  have sw: "pendings (sweep t m) i = None" using sweep_pendings [of t m i] assms(3) by auto
  show ?thesis
    using assms sw
    by (cases c) (auto simp: store_op_defs enqueues_def map_prod_def split: option.splits if_splits prod.splits)
qed

lemma perform_results:
  assumes "perform t c m = (r, m')"
  shows "results m' i = None \<or> results m' i = results m i \<or> (\<exists>out x. c = Resolve i out \<and> r = Flag True \<and> results m' i = Some (out, x))"
proof -
  show ?thesis
    using assms sweep_results [of t m i]
    by (cases c) (auto simp: store_op_defs map_prod_def split: option.splits if_splits prod.splits)
qed

lemma perform_resolve: "perform t (Resolve i out) m = (r, m') \<Longrightarrow>
    pendings m' i = None \<and> (r = Flag True \<longrightarrow> (\<exists>p x. pendings m i = Some (p, x) \<and> results m' i = Some (out, x)))"
  by (auto simp: store_op_defs map_prod_def split: option.splits if_splits prod.splits)

lemma perform_takeResult: "perform t (TakeResult i) m = (r, m') \<Longrightarrow>
    results m' i = None \<and> (r = Outcome (Some out) \<longrightarrow> (\<exists>x. results m i = Some (out, x)))"
  by (auto simp: store_op_defs map_prod_def split: option.splits if_splits prod.splits)

definition stored :: "memory \<Rightarrow> jsstring \<Rightarrow> command_outcome list" where
  "stored m i = (case results m i of None \<Rightarrow> [] | Some (out, x) \<Rightarrow> [out])"

lemma won_step: "won i ((t, c, r) # es) = (if \<exists>out. c = Resolve i out \<and> r = Flag True
    then (THE out. c = Resolve i out) # won i es else won i es)"
  by (cases "(i, (t, c, r) # es)" rule: won.cases) auto

lemma won_length:
  "run t m es m' \<Longrightarrow> \<not> list_ex (enqueues i) es \<Longrightarrow> length (won i es) \<le> (if pendings m i = None then 0 else 1)"
proof (induction t m es m' rule: run.induct)
  case (Step t t' c m r m' es m'')
  then have IH: "length (won i es) \<le> (if pendings m' i = None then 0 else 1)" by simp
  show ?case
  proof (cases "\<exists>out. c = Resolve i out \<and> r = Flag True")
    case True
    then obtain out where c: "c = Resolve i out" "r = Flag True" by blast
    then show ?thesis using IH perform_resolve [of t' i out m r m'] Step.hyps(2) by auto
  next
    case False
    then show ?thesis using IH perform_pendings [OF Step.hyps(2), of i] Step.prems
      by (auto simp: won_step split: if_splits)
  qed
qed simp

lemma delivered_step: "delivered i ((t, c, r) # es) = (case (c, r) of
    (TakeResult j, Outcome (Some out)) \<Rightarrow> if j = i then out # delivered i es else delivered i es | _ \<Rightarrow> delivered i es)"
  by (cases "(i, (t, c, r) # es)" rule: delivered.cases) (auto split: op.splits)

lemma delivered_subseq:
  "run t m es m' \<Longrightarrow> subseq (delivered i es) (stored m i @ won i es)"
proof (induction t m es m' rule: run.induct)
  case (Step t t' c m r m' es m'')
  consider out where "c = Resolve i out" "r = Flag True" | out where "c = TakeResult i" "r = Outcome (Some out)"
    | "\<not> (\<exists>out. c = Resolve i out \<and> r = Flag True)" "\<not> (\<exists>out. c = TakeResult i \<and> r = Outcome (Some out))" by blast
  then show ?case
  proof cases
    case (1 out)
    then have "stored m' i = [out]" using perform_resolve [of t' i out m r m'] Step.hyps(2) by (auto simp: stored_def)
    then show ?thesis using Step.IH 1 by (simp add: list_emb_append2)
  next
    case (2 out)
    then have "stored m' i = []" "stored m i = [out]"
      using perform_takeResult [of t' i m r m' out] Step.hyps(2) by (auto simp: stored_def)
    then show ?thesis using Step.IH 2 by simp
  next
    case 3
    then have w: "won i ((t', c, r) # es) = won i es" by (auto simp: won_step)
    have d: "delivered i ((t', c, r) # es) = delivered i es"
      using 3 by (auto simp: delivered_step split: op.splits reply.splits option.splits)
    have "stored m' i = [] \<or> stored m' i = stored m i"
      using perform_results [OF Step.hyps(2), of i] 3 by (auto simp: stored_def)
    then have "subseq (stored m' i) (stored m i)" by auto
    then have "subseq (stored m' i @ won i es) (stored m i @ won i es)" by simp
    then show ?thesis using Step.IH w d by (metis subseq_order.order_trans)
  qed
qed simp

text \<open>C12: exactly one resolve wins.  Whatever operations run on the store, in any order and at any
  times, from a state where the command holds no uncollected result and with no new enqueue of its
  id: at most one \<open>resolve\<close> of the id answers true, none when it was not pending, and the outcomes
  handed to \<open>awaitResult\<close> are among those that won, each at most once and in order.\<close>

theorem resolve_exactly_once:
  assumes "run t m es m'" "results m i = None" "\<not> list_ex (enqueues i) es"
  shows "length (won i es) \<le> (if pendings m i = None then 0 else 1) \<and> subseq (delivered i es) (won i es)"
  using won_length [OF assms(1,3)] delivered_subseq [OF assms(1), of i] assms(2) by (simp add: stored_def)

text \<open>Commands a user's pages took, and those queued for them, in order.\<close>

fun taken :: "jsstring \<Rightarrow> event list \<Rightarrow> command list" where
  "taken u [] = []"
| "taken u ((t, TakeNow v n, Commands cs) # es) = (if v = u then cs @ taken u es else taken u es)"
| "taken u (_ # es) = taken u es"

fun queued :: "jsstring \<Rightarrow> event list \<Rightarrow> command list" where
  "queued u [] = []"
| "queued u ((t, Enqueue v c p ttl, r) # es) = (if v = u then c # queued u es else queued u es)"
| "queued u (_ # es) = queued u es"

definition requeues :: "jsstring \<Rightarrow> event \<Rightarrow> bool" where
  "requeues u e \<longleftrightarrow> (\<exists>t cs r. e = (t, Requeue u cs, r))"

definition commands_of :: "memory \<Rightarrow> jsstring \<Rightarrow> command list" where
  "commands_of m u = map fst (queue_of m u)"

lemma subseq_live: "subseq (map fst (live_queue t q)) (map fst q)"
  unfolding live_queue_def by (rule subseq_map) simp

lemma sweep_commands: "subseq (commands_of (sweep t m) u) (commands_of m u)"
  using subseq_live [of t "queue_of m u"]
  by (auto simp: commands_of_def queue_of_def sweep_def split: option.splits)

lemma queue_of_put [simp]: "queue_of (m\<lparr>queues := put_queue u q qs\<rparr>) v = (if v = u then q else (case qs v of None \<Rightarrow> [] | Some q \<Rightarrow> q))"
  by (auto simp: queue_of_def put_queue_def)

lemma subseq_remove_first: "subseq (map f (remove_first p xs)) (map f xs)"
  by (induction xs) auto

definition taken_by :: "jsstring \<Rightarrow> op \<Rightarrow> reply \<Rightarrow> command list" where
  "taken_by u c r = (case (c, r) of (TakeNow v n, Commands cs) \<Rightarrow> if v = u then cs else [] | _ \<Rightarrow> [])"

definition queued_by :: "jsstring \<Rightarrow> op \<Rightarrow> command list" where
  "queued_by u c = (case c of Enqueue v k p ttl \<Rightarrow> if v = u then [k] else [] | _ \<Rightarrow> [])"

lemma taken_step: "taken u ((t, c, r) # es) = taken_by u c r @ taken u es"
  by (cases "(u, (t, c, r) # es)" rule: taken.cases) (auto simp: taken_by_def split: op.splits reply.splits)

lemma queued_step: "queued u ((t, c, r) # es) = queued_by u c @ queued u es"
  by (cases "(u, (t, c, r) # es)" rule: queued.cases) (auto simp: queued_by_def split: op.splits)

lemma perform_queue:
  assumes "perform t c m = (r, m')" "\<not> requeues u (t, c, r)"
  shows "subseq (taken_by u c r @ commands_of m' u) (commands_of m u @ queued_by u c)"
proof (cases c)
  case (TakeNow v n)
  show ?thesis
  proof (cases "queues m v")
    case None
    then show ?thesis using assms(1) TakeNow by (auto simp: store_op_defs taken_by_def queued_by_def)
  next
    case (Some q)
    let ?n = "max 1 n" and ?l = "live_queue t q"
    have r: "r = Commands (map fst (take ?n ?l))" "m' = m\<lparr>queues := put_queue v (drop ?n ?l) (queues m)\<rparr>"
      using assms(1) TakeNow Some by (simp_all add: takeNow_def Let_def map_prod_def)
    show ?thesis
    proof (cases "v = u")
      case True
      have "map fst (take ?n ?l) @ map fst (drop ?n ?l) = map fst ?l" by (simp flip: map_append)
      then show ?thesis
        using True Some subseq_live [of t q] TakeNow
        by (simp add: taken_by_def queued_by_def commands_of_def r) (simp add: queue_of_def)
    next
      case False
      then show ?thesis
        using TakeNow by (simp add: taken_by_def queued_by_def commands_of_def r) (simp add: queue_of_def)
    qed
  qed
next
  case (Enqueue v k p ttl)
  then have "commands_of m' u = commands_of (sweep t m) u @ queued_by u c" "taken_by u c r = []"
    using assms(1) by (auto simp: enqueue_def Let_def queued_by_def taken_by_def commands_of_def queue_of_def)
  then show ?thesis using sweep_commands [of t m u] by simp
next
  case (Withdraw v k)
  then show ?thesis
    using assms(1) subseq_remove_first [of fst]
    by (auto simp: withdraw_def map_prod_def taken_by_def queued_by_def commands_of_def split: option.splits if_splits)
       (auto simp: queue_of_def)
qed (use assms sweep_commands [of t m u] in
  \<open>auto simp: store_op_defs taken_by_def queued_by_def commands_of_def queue_of_def requeues_def
     split: option.splits if_splits prod.splits\<close>)

lemma taken_in_order:
  assumes "run t m es m'" "\<not> list_ex (requeues u) es"
  shows "subseq (taken u es @ commands_of m' u) (commands_of m u @ queued u es)"
  using assms
proof (induction t m es m' rule: run.induct)
  case (Step t t' c m r m' es m'')
  have "subseq (taken_by u c r @ taken u es @ commands_of m'' u) (taken_by u c r @ commands_of m' u @ queued u es)"
    by (rule list_emb_append_mono [OF subseq_order.order_refl]) (use Step in simp)
  moreover have "subseq ((taken_by u c r @ commands_of m' u) @ queued u es) ((commands_of m u @ queued_by u c) @ queued u es)"
    by (rule list_emb_append_mono [OF perform_queue [OF Step.hyps(2)] subseq_order.order_refl]) (use Step.prems in simp)
  ultimately show ?case using subseq_order.order_trans by (simp add: taken_step queued_step)
qed simp

text \<open>The reference line of a user, over the events of a run: a queued command joins at the end, commands put back go in
  front, and a take must hand out commands in the order of the line; those it passes over have left the line.\<close>

fun skip_through :: "command list \<Rightarrow> command list \<Rightarrow> command list option" where
  "skip_through [] q = Some q"
| "skip_through (c # cs) [] = None"
| "skip_through (c # cs) (d # q) = (if c = d then skip_through cs q else skip_through (c # cs) q)"

definition line_step :: "jsstring \<Rightarrow> event \<Rightarrow> command list \<Rightarrow> command list option" where
  "line_step u e q =
     (case e of
        (t, Enqueue v c p ttl, r) \<Rightarrow> Some (if v = u then q @ [c] else q)
      | (t, Requeue v cs, r) \<Rightarrow> Some (if v = u then cs @ q else q)
      | (t, TakeNow v n, Commands cs) \<Rightarrow> if v = u then skip_through cs q else Some q
      | _ \<Rightarrow> Some q)"

fun line :: "jsstring \<Rightarrow> command list \<Rightarrow> event list \<Rightarrow> command list option" where
  "line u q [] = Some q"
| "line u q (e # es) = Option.bind (line_step u e q) (\<lambda>q'. line u q' es)"

lemma skip_through_subseq: "subseq (cs @ x) q \<Longrightarrow> \<exists>q'. skip_through cs q = Some q' \<and> subseq x q'"
proof (induction cs q rule: skip_through.induct)
  case (3 c cs d q)
  then show ?case by (cases "c = d") auto
qed auto

lemma requeue_commands:
  "\<exists>cs'. subseq cs' cs \<and> commands_of (requeue t v cs m) u = (if v = u then cs' @ commands_of m u else commands_of m u)"
proof -
  let ?put = "live_queue t (map (\<lambda>c. (c, case pendings m (cmd_id c) of None \<Rightarrow> 0 | Some (p, x) \<Rightarrow> x)) cs)"
  have "subseq (map fst ?put) (map fst (map (\<lambda>c. (c, case pendings m (cmd_id c) of None \<Rightarrow> 0 | Some (p, x) \<Rightarrow> x)) cs))"
    by (rule subseq_live)
  then have b: "subseq (map fst ?put) cs" by (simp add: comp_def)
  show ?thesis
  proof (cases "cs = [] \<or> ?put = []")
    case True
    then have "requeue t v cs m = m" by (auto simp: requeue_def Let_def)
    then show ?thesis by (intro exI [of _ "[]"]) simp
  next
    case False
    then show ?thesis using b
      by (intro exI [of _ "map fst ?put"]) (simp add: requeue_def Let_def commands_of_def queue_of_def)
  qed
qed

lemma perform_line:
  assumes "perform t c m = (r, m')" "subseq (commands_of m u) q"
  shows "\<exists>q'. line_step u (t, c, r) q = Some q' \<and> subseq (commands_of m' u) q'"
proof (cases "\<exists>v cs. c = Requeue v cs")
  case True
  then obtain v cs where c: "c = Requeue v cs" by blast
  then have "m' = requeue t v cs m" using assms(1) by simp
  then obtain cs' where "subseq cs' cs" "commands_of m' u = (if v = u then cs' @ commands_of m u else commands_of m u)"
    using requeue_commands by blast
  then show ?thesis using assms(2) by (auto simp: line_step_def c list_emb_append_mono)
next
  case False
  then have sub: "subseq (taken_by u c r @ commands_of m' u) (commands_of m u @ queued_by u c)"
    using perform_queue [OF assms(1), of u] by (auto simp: requeues_def)
  have "subseq (commands_of m u @ queued_by u c) (q @ queued_by u c)"
    by (rule list_emb_append_mono [OF assms(2) subseq_order.order_refl])
  then have q: "subseq (taken_by u c r @ commands_of m' u) (q @ queued_by u c)" using sub subseq_order.order_trans by blast
  show ?thesis
  proof (cases "\<exists>n cs. c = TakeNow u n \<and> r = Commands cs")
    case True
    then show ?thesis using q skip_through_subseq by (auto simp: line_step_def taken_by_def queued_by_def)
  next
    case False
    then have "taken_by u c r = []" by (auto simp: taken_by_def split: op.splits reply.splits)
    then show ?thesis using q False \<open>\<not> (\<exists>v cs. c = Requeue v cs)\<close>
      by (cases c; cases r) (auto simp: line_step_def queued_by_def)
  qed
qed

lemma run_line:
  "run t m es m' \<Longrightarrow> subseq (commands_of m u) q \<Longrightarrow> \<exists>q'. line u q es = Some q' \<and> subseq (commands_of m' u) q'"
proof (induction t m es m' arbitrary: q rule: run.induct)
  case (Step t t' c m r m' es m'')
  obtain q' where "line_step u (t', c, r) q = Some q'" "subseq (commands_of m' u) q'"
    using perform_line [OF Step.hyps(2) Step.prems] by blast
  then show ?case using Step.IH [of q'] by simp
qed simp

text \<open>C13: first in, first out.  Over any run, puts back included, the commands a user's pages took are handed out in
  the order of the line, in which a queued command joins at the end and those put back go to the front, and what is
  still queued is in that order too.  In particular, over a run in which nothing is put back for the user, the commands
  taken, followed by those still queued, are a subsequence of those queued before the run and during it: each comes out
  at most once, in the order it went in.\<close>

theorem commands_first_in_first_out:
  assumes "run t m es m'"
  shows "(\<exists>q. line u (commands_of m u) es = Some q \<and> subseq (commands_of m' u) q) \<and>
    (\<not> list_ex (requeues u) es \<longrightarrow> subseq (taken u es @ commands_of m' u) (commands_of m u @ queued u es))"
  using run_line [OF assms subseq_order.order_refl] taken_in_order [OF assms] by blast

lemma perform_nonces:
  assumes "perform t c m = (r, m')" "nonces m n = Some x" "t < x"
  shows "nonces m' n = Some x"
proof (cases c)
  case (SpendNonce k ttl)
  then show ?thesis using assms mem_store.spend_keeps by (auto simp: map_prod_def split: prod.splits)
qed (use assms sweep_nonces [OF assms(2,3)] in
  \<open>auto simp: getPresence_def setPresence_def enqueue_def takeNow_def requeue_def withdraw_def
     pending_def resolve_def takeResult_def cancel_def checkDevice_def pinDevice_def forgetDevices_def Let_def
     map_prod_def split: option.splits if_splits prod.splits\<close>)

lemma run_last: "run t m (es @ [(t2, c, r)]) m' \<Longrightarrow> t \<le> t2"
proof (induction es arbitrary: t m)
  case (Cons e es)
  obtain t' c' r' where "e = (t', c', r')" by (cases e)
  with Cons show ?case by fastforce
qed simp

lemma spent_until:
  "nonces m n = Some x \<Longrightarrow> run t m (es @ [(t2, SpendNonce n ttl', r)]) m' \<Longrightarrow> t2 < x \<Longrightarrow> r = Flag False"
proof (induction es arbitrary: t m)
  case Nil
  then have "mem_store.spent_at t2 n m" by (auto simp: mem_store.spent_at_def)
  then show ?case using Nil mem_store.spend_refused [of t2 n m ttl'] by (auto simp: map_prod_def split: prod.splits)
next
  case (Cons e es)
  obtain t' c' r' where e: "e = (t', c', r')" by (cases e)
  then obtain m1 where m1: "perform t' c' m = (r', m1)" "run t' m1 (es @ [(t2, SpendNonce n ttl', r)]) m'"
    using Cons.prems(2) by auto
  have "nonces m1 n = Some x"
    using perform_nonces [OF m1(1) Cons.prems(1)] run_last [OF m1(2)] Cons.prems(3) by simp
  then show ?case using Cons.IH m1(2) Cons.prems(3) by blast
qed

text \<open>A spent nonce stays spent: once \<open>spendNonce\<close> answered true, every later \<open>spendNonce\<close> of it
  within its time to live answers false, whatever ran in between.\<close>

theorem nonce_spent_once:
  assumes "run t m ((t1, SpendNonce n ttl, Flag True) # es @ [(t2, SpendNonce n ttl', r)]) m'"
    and "t2 < t1 + max 1 ttl"
  shows "r = Flag False"
proof -
  from assms(1) obtain m1 where m1: "nonces m1 n = Some (t1 + max 1 ttl)" "run t1 m1 (es @ [(t2, SpendNonce n ttl', r)]) m'"
  proof (cases "spendNonce t1 n ttl m")
    case (Pair b s')
    then have "b = True" "run t1 s' (es @ [(t2, SpendNonce n ttl', r)]) m'" using assms(1) by auto
    then show thesis using Pair mem_store.spend_records [of t1 n ttl m s'] by (intro that [of s']) auto
  qed
  then show ?thesis using assms(2) by (rule spent_until)
qed

end
