(* ===== verification/Verify.thy ===== *)
theory Verify
  imports Bridge_Store
begin

section \<open>Binding a receipt to a call (server-node/src/verify.ts)\<close>

text \<open>
  \<open>checkReceipt\<close> checks a receipt against what the server expects of it.  The two store operations it
  calls are fields of the expectations, as in the source, and thread the state of the store; a store
  or hook that throws while the device is checked is \<open>None\<close>.  \<open>new URL(s).origin\<close> is an argument.
  The function awaits twice: the device check, which may be the server's own hook and take any time, and the store's
  \<open>spendNonce\<close>.  What other requests do to the store while the hook is awaited is the field \<open>ex_hookWait\<close>, and the
  clock of \<open>ex_spendNonce\<close> is the one when it is called; \<open>readReceipt\<close> is what runs before the first \<open>await\<close> and
  \<open>spendAndCheck\<close> what runs after it, so that two checks can overlap.
\<close>

datatype device_policy = FirstUse | Off | Hook "jsstring \<Rightarrow> device \<Rightarrow> bool option"

record 's expectations =
  ex_secret :: secret
  ex_nowSeconds :: int
  ex_challenge :: jsstring
  ex_key :: jsstring
  ex_subject :: "jsstring option"
  ex_nonce :: "jsstring option"
  ex_origin :: "jsstring option"
  ex_data :: "jsval option"
  ex_inputs :: "jsval option"
  ex_inputsHash :: "jsstring option"
  ex_requireSuccess :: bool
  ex_devices :: device_policy
  ex_hookWait :: "'s \<Rightarrow> 's"
  ex_checkDevice :: "jsstring \<Rightarrow> jsstring \<Rightarrow> bool \<Rightarrow> 's \<Rightarrow> WritDeviceCheck option \<times> 's"
  ex_spendNonce :: "jsstring \<Rightarrow> int \<Rightarrow> 's \<Rightarrow> bool \<times> 's"

datatype refusal =
    Fault receipt_fault | OtherKey | NoReceiptChallenge | OtherChallenge | ChallengeRefused challenge_refusal
  | ChallengeKey | ChallengeSubject | ChallengeNonce | OtherOrigin | UnregisteredDevice | AlreadyUsed
  | NotSuccess | NoInputsHash | InputsNotCanonical | OtherInputs | NoDataHash | DataNotCanonical | OtherData

record verdict =
  vd_ok :: bool
  vd_outcome :: "outcome option"
  vd_reason :: "refusal option"
  vd_device :: "device option"
  vd_unknownDevice :: bool
  vd_receipt :: "receipt option"

definition normalizeOrigin :: "(jsstring \<Rightarrow> jsstring option) \<Rightarrow> jsstring \<Rightarrow> jsstring" where
  "normalizeOrigin url_origin origin = (case url_origin origin of Some o' \<Rightarrow> o' | None \<Rightarrow> origin)"

definition devicePinned :: "'s expectations \<Rightarrow> jsstring \<Rightarrow> device \<Rightarrow> 's \<Rightarrow> bool \<times> 's" where
  "devicePinned ex subject device s =
     (case ex_devices ex of
        Off \<Rightarrow> (True, s)
      | FirstUse \<Rightarrow> (case ex_checkDevice ex subject (dv_public_key device) True s of
            (Some r, s') \<Rightarrow> (r \<noteq> Unknown, s') | (None, s') \<Rightarrow> (False, s'))
      | Hook h \<Rightarrow> (h subject device = Some True, ex_hookWait ex s))"

definition expected :: "'a option \<Rightarrow> 'a \<Rightarrow> bool" where
  "expected want x \<longleftrightarrow> (case want of None \<Rightarrow> True | Some w \<Rightarrow> x = w)"

text \<open>From the function key to the origin.\<close>

definition binding_checks ::
  "crypto \<Rightarrow> (jsstring \<Rightarrow> jsstring option) \<Rightarrow> receipt \<Rightarrow> 's expectations \<Rightarrow> refusal + challenge_payload" where
  "binding_checks C url_origin r ex =
     res_bind (guard (rc_key r = ex_key ex) OtherKey) (\<lambda>_.
     res_bind (req (rc_challenge r) NoReceiptChallenge) (\<lambda>ch.
     res_bind (guard (ch = ex_challenge ex) OtherChallenge) (\<lambda>_.
     res_bind (map_sum ChallengeRefused id (readChallenge C (ex_secret ex) (VStr (ex_challenge ex)) (ex_nowSeconds ex))) (\<lambda>payload.
     res_bind (guard (cp_key payload = ex_key ex) ChallengeKey) (\<lambda>_.
     res_bind (guard (expected (ex_subject ex) (cp_sub payload)) ChallengeSubject) (\<lambda>_.
     res_bind (guard (expected (ex_nonce ex) (cp_nonce payload)) ChallengeNonce) (\<lambda>_.
     res_bind (guard (expected (map_option (normalizeOrigin url_origin) (ex_origin ex)) (rc_origin r)) OtherOrigin) (\<lambda>_.
     Inr payload))))))))"

text \<open>From the outcome to the data hash.\<close>

definition content_checks :: "crypto \<Rightarrow> receipt \<Rightarrow> 's expectations \<Rightarrow> refusal + unit" where
  "content_checks C r ex =
     res_bind (guard (\<not> ex_requireSuccess ex \<or> rc_outcome r = Success) NotSuccess) (\<lambda>_.
     res_bind (if ex_inputs ex \<noteq> None \<or> ex_inputsHash ex \<noteq> None
        then res_bind (req (rc_inputs_hash r) NoInputsHash) (\<lambda>got.
             res_bind (case ex_inputsHash ex of
                 Some want \<Rightarrow> Inr want
               | None \<Rightarrow> map_sum (\<lambda>_. InputsNotCanonical) id
                   (inputsHash C (Some (ex_challenge ex)) (case ex_inputs ex of None \<Rightarrow> VUndef | Some v \<Rightarrow> v))) (\<lambda>want.
             guard (want = got) OtherInputs))
        else Inr ()) (\<lambda>_.
     case ex_data ex of
       None \<Rightarrow> Inr ()
     | Some data \<Rightarrow>
         if rc_outcome r \<noteq> Success then Inr ()
         else res_bind (req (rc_data_hash r) NoDataHash) (\<lambda>got.
              res_bind (map_sum (\<lambda>_. DataNotCanonical) id (dataHash C data)) (\<lambda>hash.
              guard (hash = got) OtherData))))"

definition refused :: "receipt \<Rightarrow> device \<Rightarrow> refusal \<Rightarrow> verdict" where
  "refused r d reason = \<lparr>vd_ok = False, vd_outcome = Some (rc_outcome r), vd_reason = Some reason,
     vd_device = Some d, vd_unknownDevice = False, vd_receipt = Some r\<rparr>"

definition challenge_ttl_ms :: "int \<Rightarrow> int \<Rightarrow> int" where
  "challenge_ttl_ms x nowSeconds = max 1000 ((x - nowSeconds + 1) * 1000)"

text \<open>Before the first \<open>await\<close>: a verdict, or the receipt, its device and the challenge's payload.\<close>

definition readReceipt ::
  "crypto \<Rightarrow> (jsstring \<Rightarrow> jsstring option) \<Rightarrow> jsval \<Rightarrow> 's expectations \<Rightarrow> verdict + receipt \<times> device \<times> challenge_payload" where
  "readReceipt C url_origin v ex =
     (case verifyReceiptSignature C v of
        Inl fault \<Rightarrow> Inl \<lparr>vd_ok = False, vd_outcome = None, vd_reason = Some (Fault fault), vd_device = None,
                       vd_unknownDevice = False, vd_receipt = None\<rparr>
      | Inr (r, device) \<Rightarrow>
          (case binding_checks C url_origin r ex of
             Inl reason \<Rightarrow> Inl (refused r device reason)
           | Inr payload \<Rightarrow> Inr (r, device, payload)))"

text \<open>After the device was found allowed.\<close>

definition spendAndCheck ::
  "crypto \<Rightarrow> 's expectations \<Rightarrow> receipt \<Rightarrow> device \<Rightarrow> challenge_payload \<Rightarrow> 's \<Rightarrow> verdict \<times> 's" where
  "spendAndCheck C ex r device payload s1 =
     (case ex_spendNonce ex (cp_nonce payload) (challenge_ttl_ms (cp_exp payload) (ex_nowSeconds ex)) s1 of
        (False, s2) \<Rightarrow> (refused r device AlreadyUsed, s2)
      | (True, s2) \<Rightarrow>
          (case content_checks C r ex of
             Inl reason \<Rightarrow> (refused r device reason, s2)
           | Inr _ \<Rightarrow> (\<lparr>vd_ok = True, vd_outcome = Some (rc_outcome r), vd_reason = None,
                        vd_device = Some device, vd_unknownDevice = False, vd_receipt = Some r\<rparr>, s2)))"

definition checkReceipt ::
  "crypto \<Rightarrow> (jsstring \<Rightarrow> jsstring option) \<Rightarrow> jsval \<Rightarrow> 's expectations \<Rightarrow> 's \<Rightarrow> verdict \<times> 's" where
  "checkReceipt C url_origin v ex s =
     (case readReceipt C url_origin v ex of
        Inl vd \<Rightarrow> (vd, s)
      | Inr (r, device, payload) \<Rightarrow>
          (case devicePinned ex (cp_sub payload) device s of
             (False, s1) \<Rightarrow> ((refused r device UnregisteredDevice)\<lparr>vd_unknownDevice := True\<rparr>, s1)
           | (True, s1) \<Rightarrow> spendAndCheck C ex r device payload s1))"

subsection \<open>What the pure checks establish\<close>

lemma map_sum_Inr: "map_sum f id r = Inr v \<longleftrightarrow> r = Inr v"
  by (cases r) auto

lemma binding_checks_Inr:
  "binding_checks C url_origin r ex = Inr payload \<longleftrightarrow>
     rc_key r = ex_key ex \<and> rc_challenge r = Some (ex_challenge ex) \<and>
     readChallenge C (ex_secret ex) (VStr (ex_challenge ex)) (ex_nowSeconds ex) = Inr payload \<and>
     cp_key payload = ex_key ex \<and> expected (ex_subject ex) (cp_sub payload) \<and> expected (ex_nonce ex) (cp_nonce payload) \<and>
     expected (map_option (normalizeOrigin url_origin) (ex_origin ex)) (rc_origin r)"
  unfolding binding_checks_def by (auto simp: result_simps map_sum_Inr)

definition content_ok :: "crypto \<Rightarrow> receipt \<Rightarrow> 's expectations \<Rightarrow> bool" where
  "content_ok C r ex \<longleftrightarrow>
     (ex_requireSuccess ex \<longrightarrow> rc_outcome r = Success) \<and>
     (\<forall>want. ex_inputsHash ex = Some want \<longrightarrow> rc_inputs_hash r = Some want) \<and>
     (\<forall>v. ex_inputsHash ex = None \<longrightarrow> ex_inputs ex = Some v \<longrightarrow>
        (\<exists>want. inputsHash C (Some (ex_challenge ex)) v = Inr want \<and> rc_inputs_hash r = Some want)) \<and>
     (\<forall>data. ex_data ex = Some data \<longrightarrow> rc_outcome r = Success \<longrightarrow>
        (\<exists>h. dataHash C data = Inr h \<and> rc_data_hash r = Some h))"

lemma content_checks_Inr: "content_checks C r ex = Inr u \<longleftrightarrow> content_ok C r ex"
proof -
  have req_None: "req x e = Inr y \<longleftrightarrow> x = Some y" for x :: "'b option" and e :: refusal and y by (rule req_eq)
  show ?thesis
    unfolding content_checks_def content_ok_def
    by (cases "ex_inputsHash ex"; cases "ex_inputs ex"; cases "ex_data ex"; cases "rc_outcome r = Success")
       (auto simp: result_simps map_sum_Inr)
qed

text \<open>The verdict is \<open>ok\<close> exactly when every check passes, in order.\<close>

lemma checkReceipt_ok:
  "checkReceipt C url_origin v ex s = (vd, s') \<and> vd_ok vd \<longleftrightarrow>
     (\<exists>r d payload s1. verifyReceiptSignature C v = Inr (r, d) \<and> binding_checks C url_origin r ex = Inr payload \<and>
        devicePinned ex (cp_sub payload) d s = (True, s1) \<and>
        ex_spendNonce ex (cp_nonce payload) (challenge_ttl_ms (cp_exp payload) (ex_nowSeconds ex)) s1 = (True, s') \<and>
        content_ok C r ex \<and>
        vd = \<lparr>vd_ok = True, vd_outcome = Some (rc_outcome r), vd_reason = None, vd_device = Some d,
              vd_unknownDevice = False, vd_receipt = Some r\<rparr>)"
  unfolding content_checks_Inr [of C _ ex "()", symmetric]
  by (auto simp: checkReceipt_def readReceipt_def spendAndCheck_def refused_def split: sum.splits prod.splits bool.splits)

lemma readReceipt_Inr:
  "readReceipt C url_origin v ex = Inr (r, d, p) \<longleftrightarrow> verifyReceiptSignature C v = Inr (r, d) \<and> binding_checks C url_origin r ex = Inr p"
  by (auto simp: readReceipt_def split: sum.split)

lemma spendAndCheck_ok:
  "spendAndCheck C ex r d p s = (vd, s') \<Longrightarrow> vd_ok vd \<Longrightarrow>
     ex_spendNonce ex (cp_nonce p) (challenge_ttl_ms (cp_exp p) (ex_nowSeconds ex)) s = (True, s')"
  by (auto simp: spendAndCheck_def refused_def split: prod.splits bool.splits sum.splits)

text \<open>The store is called for the device, then for the nonce, each only when all went well before.\<close>

lemma checkReceipt_state:
  assumes "checkReceipt C url_origin v ex s = (vd, s')"
  shows "s' = s \<or> (\<exists>u d b. devicePinned ex u d s = (b, s')) \<or>
    (\<exists>u d n ttl b s1. devicePinned ex u d s = (True, s1) \<and> ex_spendNonce ex n ttl s1 = (b, s'))"
  using assms by (auto simp: checkReceipt_def readReceipt_def spendAndCheck_def split: sum.splits prod.splits bool.splits)

subsection \<open>Against any store that keeps the laws\<close>

locale receipt_checks = receipt_store spend until check pins
  for spend :: "int \<Rightarrow> jsstring \<Rightarrow> int \<Rightarrow> 's \<Rightarrow> bool \<times> 's" and until :: "'s \<Rightarrow> jsstring \<Rightarrow> int option"
    and check :: "jsstring \<Rightarrow> jsstring \<Rightarrow> bool \<Rightarrow> 's \<Rightarrow> WritDeviceCheck \<times> 's" and pins :: "'s \<Rightarrow> jsstring \<Rightarrow> jsstring set"
begin

text \<open>The expectations of a call that reads the clock at \<open>t\<close> (milliseconds) and spends the nonce at \<open>u\<close>, on this
  store; \<open>at_time t\<close> when no hook is awaited.\<close>

definition awaited :: "int \<Rightarrow> int \<Rightarrow> 's expectations \<Rightarrow> bool" where
  "awaited t u ex \<longleftrightarrow> t \<le> u \<and> ex_nowSeconds ex = t div 1000 \<and> ex_spendNonce ex = (\<lambda>n ttl s. spend u n ttl s) \<and>
     ex_checkDevice ex = (\<lambda>u k f s. map_prod Some id (check u k f s))"

definition at_time :: "int \<Rightarrow> 's expectations \<Rightarrow> bool" where
  "at_time t ex \<longleftrightarrow> ex_nowSeconds ex = t div 1000 \<and> ex_spendNonce ex = (\<lambda>n ttl s. spend t n ttl s) \<and>
     ex_checkDevice ex = (\<lambda>u k f s. map_prod Some id (check u k f s)) \<and> ex_hookWait ex = id"

lemma at_time_awaited: "at_time t ex \<Longrightarrow> awaited t t ex"
  by (simp add: at_time_def awaited_def)

lemma devicePinned_until: "at_time t ex \<Longrightarrow> devicePinned ex u d s = (b, s') \<Longrightarrow> until s' n = until s n"
  using check_until by (auto simp: devicePinned_def at_time_def map_prod_def split: device_policy.splits prod.splits)

lemma devicePinned_first_use:
  assumes "at_time t ex" "ex_devices ex = FirstUse" "devicePinned ex u d s = (b, s')"
  shows "b \<longleftrightarrow> dv_public_key d \<in> pins s u \<or> pins s u = {}"
    and "pins s' v = (if v = u \<and> pins s u = {} then {dv_public_key d} else pins s v)"
proof -
  obtain r where r: "check u (dv_public_key d) True s = (r, s')" "b \<longleftrightarrow> r \<noteq> Unknown"
    using assms by (auto simp: devicePinned_def at_time_def map_prod_def split: prod.splits)
  show "b \<longleftrightarrow> dv_public_key d \<in> pins s u \<or> pins s u = {}" using r check_reply [OF r(1)] by auto
  show "pins s' v = (if v = u \<and> pins s u = {} then {dv_public_key d} else pins s v)"
    using check_reply [OF r(1)] check_pins [OF r(1), of v] by auto
qed

text \<open>A challenge is accepted once: the nonce is remembered until a second past the challenge's expiry, whenever the
  check that spent it began.\<close>

lemma ttl_past_expiry: "t \<le> u \<Longrightarrow> 1000 * (x + 1) \<le> u + max 1 (challenge_ttl_ms x (t div 1000))"
  by (simp add: challenge_ttl_ms_def max_def) linarith

lemma readReceipt_payload:
  assumes "readReceipt C url_origin v ex = Inr (r, d, p)" "awaited t u ex"
  shows "readChallenge C (ex_secret ex) (VStr (ex_challenge ex)) (t div 1000) = Inr p" "t < 1000 * cp_exp p"
proof -
  show r: "readChallenge C (ex_secret ex) (VStr (ex_challenge ex)) (t div 1000) = Inr p"
    using assms by (simp add: readReceipt_Inr binding_checks_Inr awaited_def)
  then have "t div 1000 < cp_exp p" by (auto simp: readChallenge_def split: option.splits if_splits)
  then show "t < 1000 * cp_exp p" by linarith
qed

lemma readChallenge_same: "readChallenge C k v t = Inr p \<Longrightarrow> readChallenge C k v t' = Inr p' \<Longrightarrow> p' = p"
  by (auto simp: readChallenge_def split: option.splits if_splits)

lemma challenge_accepted_again:
  assumes "readReceipt C url_origin v ex = Inr (r, d, p)" "spendAndCheck C ex r d p s = (vd, s1)" "vd_ok vd" "awaited t u ex"
    and "readReceipt C url_origin' v' ex' = Inr (r', d', p')" "spendAndCheck C ex' r' d' p' s2 = (vd', s3)" "vd_ok vd'" "awaited t' u' ex'"
    and "ex_secret ex' = ex_secret ex" "ex_challenge ex' = ex_challenge ex"
    and kept: "\<And>n x. until s1 n = Some x \<Longrightarrow> u' < x \<Longrightarrow> until s2 n = Some x"
  shows "1000 * (cp_exp p + 1) \<le> u' \<and> t' < 1000 * cp_exp p"
proof -
  have p: "p' = p" "t' < 1000 * cp_exp p'"
    using readReceipt_payload [OF assms(1,4)] readReceipt_payload [OF assms(5,8)] assms(9,10) readChallenge_same by auto
  let ?x = "u + max 1 (challenge_ttl_ms (cp_exp p) (t div 1000))"
  have "until s1 (cp_nonce p) = Some ?x"
    using spendAndCheck_ok [OF assms(2,3)] assms(4) spend_records by (simp add: awaited_def)
  moreover have "\<not> spent_at u' (cp_nonce p) s2"
    using spendAndCheck_ok [OF assms(6,7)] assms(8) p
      spend_refused [of u' "cp_nonce p" s2 "challenge_ttl_ms (cp_exp p) (t' div 1000)"] by (auto simp: awaited_def)
  ultimately have "\<not> u' < ?x" using kept [of "cp_nonce p" ?x] unfolding spent_at_def by blast
  moreover have "1000 * (cp_exp p + 1) \<le> ?x" using assms(4) by (intro ttl_past_expiry) (simp add: awaited_def)
  ultimately show ?thesis using p by simp
qed

text \<open>Under \<open>first-use\<close>, an accepted receipt's device is pinned, and no other device is accepted after.\<close>

lemma accepted_device_pinned:
  assumes "checkReceipt C url_origin v ex s = (vd, s')" "vd_ok vd" "at_time t ex" "ex_devices ex = FirstUse"
  obtains d payload where "vd_device vd = Some d"
    "readChallenge C (ex_secret ex) (VStr (ex_challenge ex)) (t div 1000) = Inr payload"
    "dv_public_key d \<in> pins s' (cp_sub payload)"
    "pins s (cp_sub payload) = {} \<or> pins s' (cp_sub payload) = pins s (cp_sub payload)"
proof -
  from assms(1,2) obtain r d payload s1 where p: "binding_checks C url_origin r ex = Inr payload"
      "devicePinned ex (cp_sub payload) d s = (True, s1)"
      "ex_spendNonce ex (cp_nonce payload) (challenge_ttl_ms (cp_exp payload) (ex_nowSeconds ex)) s1 = (True, s')"
      "vd_device vd = Some d"
    using checkReceipt_ok [of C url_origin v ex s vd s'] by (auto 0 4)
  have "pins s' u = pins s1 u" for u using p(3) assms(3) spend_pins by (auto simp: at_time_def)
  then show ?thesis
    using that [of d payload] p assms(3) devicePinned_first_use [OF assms(3,4) p(2)]
    by (auto simp: binding_checks_Inr at_time_def)
qed

lemma other_device_not_accepted:
  assumes "checkReceipt C url_origin v ex s = (vd, s')" "at_time t ex" "ex_devices ex = FirstUse"
    and "verifyReceiptSignature C v = Inr (r, d)" "binding_checks C url_origin r ex = Inr payload"
    and "pins s (cp_sub payload) \<noteq> {}" "dv_public_key d \<notin> pins s (cp_sub payload)"
  shows "\<not> vd_ok vd \<and> vd_unknownDevice vd \<and> until s' n = until s n \<and> pins s' u = pins s u"
proof (cases "devicePinned ex (cp_sub payload) d s")
  case (Pair b s1)
  note D = devicePinned_first_use [OF assms(2,3) Pair]
  have "b = False" using D(1) assms(6,7) by simp
  moreover have "pins s1 u = pins s u" using D(2) [of u] assms(6) by auto
  ultimately show ?thesis
    using assms(1,4,5) Pair devicePinned_until [OF assms(2) Pair] by (auto simp: checkReceipt_def readReceipt_def refused_def)
qed

end

interpretation mem_checks: receipt_checks spendNonce nonces checkDevice pinned
  by unfold_locales

subsection \<open>Properties\<close>

text \<open>C6: \<open>checkReceipt\<close> answers \<open>ok\<close> exactly for the receipt of this call: genuinely signed, for this
  function, carrying the challenge this server minted with its secret (unexpired, for this function,
  subject and nonce), from the expected origin, by an allowed device, its nonce unspent until now,
  and with the outcome, inputs and data that were asked for.\<close>

theorem checkReceipt_accepts:
  "checkReceipt C url_origin v ex s = (vd, s') \<and> vd_ok vd \<longleftrightarrow>
     (\<exists>r d payload s1. verifyReceiptSignature C v = Inr (r, d) \<and>
        rc_key r = ex_key ex \<and> rc_challenge r = Some (ex_challenge ex) \<and>
        readChallenge C (ex_secret ex) (VStr (ex_challenge ex)) (ex_nowSeconds ex) = Inr payload \<and>
        cp_key payload = ex_key ex \<and> expected (ex_subject ex) (cp_sub payload) \<and> expected (ex_nonce ex) (cp_nonce payload) \<and>
        expected (map_option (normalizeOrigin url_origin) (ex_origin ex)) (rc_origin r) \<and>
        devicePinned ex (cp_sub payload) d s = (True, s1) \<and>
        ex_spendNonce ex (cp_nonce payload) (challenge_ttl_ms (cp_exp payload) (ex_nowSeconds ex)) s1 = (True, s') \<and>
        content_ok C r ex \<and>
        vd = \<lparr>vd_ok = True, vd_outcome = Some (rc_outcome r), vd_reason = None, vd_device = Some d,
              vd_unknownDevice = False, vd_receipt = Some r\<rparr>)"
  unfolding checkReceipt_ok binding_checks_Inr by blast

lemma run_nonces:
  "run t m es m' \<Longrightarrow> nonces m n = Some x \<Longrightarrow> \<forall>e \<in> set es. fst e < x \<Longrightarrow> nonces m' n = Some x"
  by (induction t m es m' rule: run.induct) (auto dest: perform_nonces)

text \<open>C7: a challenge is accepted once.  After a check of a receipt on the memory store spent the challenge's nonce and
  accepted it, no check of a receipt with the same challenge that spends the nonce later accepts it, whenever that
  check read the challenge (before, during or after the first) and whatever operations ran on the store in between,
  provided its device hook is awaited for at most a second, or not beyond a second past the challenge's expiry: until
  then the nonce stays spent.  (A slower hook does accept it again: \<open>slow_hook_accepts_again\<close>.)\<close>

theorem challenge_single_use:
  assumes "readReceipt C url_origin v ex = Inr (r, d, p)" "spendAndCheck C ex r d p m = (vd, m1)" "vd_ok vd" "mem_checks.awaited t u ex"
    and "run u m1 es m2" "\<forall>e \<in> set es. fst e \<le> u'" "u \<le> u'"
    and "readReceipt C url_origin' v' ex' = Inr (r', d', p')" "spendAndCheck C ex' r' d' p' m2 = (vd', m3)" "mem_checks.awaited t' u' ex'"
    and "ex_secret ex' = ex_secret ex" "ex_challenge ex' = ex_challenge ex"
    and "u' \<le> t' + 1000 \<or> u' < 1000 * (cp_exp p + 1)"
  shows "\<not> vd_ok vd'"
proof
  assume "vd_ok vd'"
  have "1000 * (cp_exp p + 1) \<le> u' \<and> t' < 1000 * cp_exp p"
  proof (rule mem_checks.challenge_accepted_again [OF assms(1-4,8,9) \<open>vd_ok vd'\<close> assms(10-12)])
    fix n x assume "nonces m1 n = Some x" "u' < x"
    then show "nonces m2 n = Some x" using run_nonces [OF assms(5), of n x] assms(6) by fastforce
  qed
  then show False using assms(13) by auto
qed

text \<open>First use pins the device.  Under \<open>first-use\<close>, once a device is pinned for a user, a genuine
  receipt of another device is refused as an unknown device, and the refusal spends no nonce and
  pins nothing.\<close>

theorem first_use_refuses_other_devices:
  assumes "checkReceipt C url_origin v ex m = (vd, m')" "mem_checks.at_time t ex" "ex_devices ex = FirstUse"
    and "verifyReceiptSignature C v = Inr (r, d)" "binding_checks C url_origin r ex = Inr payload"
    and "pinned m (cp_sub payload) \<noteq> {}" "dv_public_key d \<notin> pinned m (cp_sub payload)"
  shows "\<not> vd_ok vd \<and> vd_unknownDevice vd \<and> nonces m' = nonces m \<and> pinned m' = pinned m"
  using mem_checks.other_device_not_accepted [OF assms] by auto

end
