(* ===== verification/Contract.thy ===== *)
theory Contract
  imports Json_Text Encodings Bridge_Constants
begin

section \<open>The contract file (server-node/src/contract.ts)\<close>

text \<open>
  \<open>validateContract\<close> reads the parsed contract field by field and throws at the first one at
  fault; the error's path leads to it.  \<open>checkInputs\<close> checks a call's inputs against a function,
  \<open>buildTree\<close> makes the tree of methods.  \<open>Date.parse\<close> is an argument (\<open>date_ok\<close>).
\<close>

subsection \<open>Modes\<close>

datatype WritBridgeMode = Required | Recommended | Cloud

definition WRIT_BRIDGE_MODES :: "WritBridgeMode list" where
  "WRIT_BRIDGE_MODES = [Required, Recommended, Cloud]"

fun mode_name :: "WritBridgeMode \<Rightarrow> jsstring" where
  "mode_name Required = js ''required''"
| "mode_name Recommended = js ''recommended''"
| "mode_name Cloud = js ''cloud''"

definition mode_of :: "jsval \<Rightarrow> WritBridgeMode option" where
  "mode_of v = (case v of VStr s \<Rightarrow> find (\<lambda>m. mode_name m = s) WRIT_BRIDGE_MODES | _ \<Rightarrow> None)"

text \<open>The modes are ordered as the source lists them: the later, the further from the visitor.\<close>

instantiation WritBridgeMode :: linorder
begin

definition less_eq_WritBridgeMode :: "WritBridgeMode \<Rightarrow> WritBridgeMode \<Rightarrow> bool" where
  "less_eq_WritBridgeMode a b \<longleftrightarrow> a = Required \<or> (a = Recommended \<and> b \<noteq> Required) \<or> b = Cloud"

definition less_WritBridgeMode :: "WritBridgeMode \<Rightarrow> WritBridgeMode \<Rightarrow> bool" where
  "less_WritBridgeMode a b \<longleftrightarrow> a \<le> b \<and> \<not> b \<le> a"

instance
proof
  fix x y z :: WritBridgeMode
  show "(x < y) = (x \<le> y \<and> \<not> y \<le> x)" by (simp add: less_WritBridgeMode_def)
  show "x \<le> x" by (cases x) (simp_all add: less_eq_WritBridgeMode_def)
  show "x \<le> y \<Longrightarrow> y \<le> z \<Longrightarrow> x \<le> z"
    by (cases x; cases y; cases z) (simp_all add: less_eq_WritBridgeMode_def)
  show "x \<le> y \<Longrightarrow> y \<le> x \<Longrightarrow> x = y" by (cases x; cases y) (simp_all add: less_eq_WritBridgeMode_def)
  show "x \<le> y \<or> y \<le> x" by (cases x; cases y) (simp_all add: less_eq_WritBridgeMode_def)
qed

end

lemma mode_of_Some: "mode_of v = Some m \<longleftrightarrow> v = VStr (mode_name m)"
  by (cases v; cases m) (auto simp: mode_of_def WRIT_BRIDGE_MODES_def)

subsection \<open>Data\<close>

record cloud_mapping =
  cm_workflow_id :: int
  cm_function :: "jsstring option"

record contract_input =
  ci_name :: jsstring
  ci_required :: bool
  ci_description :: "jsstring option"

datatype setting_kind = KindText | KindLanHost

record contract_setting =
  cs_key :: jsstring
  cs_label :: jsstring
  cs_kind :: setting_kind

record contract_function =
  cf_key :: jsstring
  cf_description :: jsstring
  cf_package :: jsstring
  cf_function :: "jsstring option"
  cf_inputs :: "contract_input list"
  cf_outputs :: "jsstring list"
  cf_writes :: bool
  cf_local_network :: "jsstring list"
  cf_settings :: "contract_setting list option"
  cf_mode :: "WritBridgeMode option"
  cf_cloud :: "cloud_mapping option"

record contract =
  ct_generated_at :: jsstring
  ct_generator :: jsstring
  ct_publisher :: "jsstring option option"
  ct_functions :: "contract_function list"
  ct_packages :: "jsval list"

subsection \<open>Fields\<close>

definition RESERVED_SEGMENTS :: "jsstring list" where
  "RESERVED_SEGMENTS = map js [''then'', ''__proto__'', ''constructor'', ''prototype'']"

definition dot :: codeunit where "dot = 46"

definition segments :: "jsstring \<Rightarrow> jsstring list" where
  "segments key = js_split dot key"

text \<open>\<open>[...s].length\<close>: the number of code points.\<close>

fun code_points :: "jsstring \<Rightarrow> nat" where
  "code_points [] = 0"
| "code_points [u] = 1"
| "code_points (u # v # us) = (if is_high u \<and> is_low v then Suc (code_points us) else Suc (code_points (v # us)))"

text \<open>An array of strings.\<close>

definition strings_of :: "jsval \<Rightarrow> jsstring list option" where
  "strings_of v = (case arr_of v of None \<Rightarrow> None | Some xs \<Rightarrow> those (map str_of xs))"

text \<open>\<open>raw ?? null\<close> as a non-empty name or nothing; \<open>blank\<close> says which names are refused.\<close>

definition name_or_null :: "(jsstring \<Rightarrow> bool) \<Rightarrow> jsval \<Rightarrow> bridge_error \<Rightarrow> bridge_error + jsstring option" where
  "name_or_null blank raw e =
     (case or_else raw VNull of
        VNull \<Rightarrow> Inr None
      | VStr s \<Rightarrow> if blank s then Inl e else Inr (Some s)
      | _ \<Rightarrow> Inl e)"

subsection \<open>Cloud mapping, settings, inputs\<close>

text \<open>\<open>/^[1-9][0-9]{0,15}$/\<close> and the number such a text denotes (exact below \<open>2 ^ 53\<close>, else rounded).\<close>

definition workflow_id_text :: "jsstring \<Rightarrow> bool" where
  "workflow_id_text s \<longleftrightarrow>
     (case s of [] \<Rightarrow> False | u # us \<Rightarrow> unit_between (CHR ''1'') (CHR ''9'') u \<and> length us \<le> 15 \<and> list_all is_digit us)"

definition validateCloudMapping :: "jsval \<Rightarrow> path \<Rightarrow> bridge_error + cloud_mapping" where
  "validateCloudMapping raw p =
     res_bind (req (obj_of raw) (inputInvalid p)) (\<lambda>r.
     let workflowId = (case jget r (js ''workflow_id'') of
           VStr s \<Rightarrow> if workflow_id_text s then VNum (num_of_bigint (int (digits_value s))) else VStr s
         | v \<Rightarrow> v);
         at = p @ [Key (js ''workflow_id'')] in
     res_bind (req (safe_int workflowId) (inputInvalid at)) (\<lambda>i.
     res_bind (guard (0 < i) (inputInvalid at)) (\<lambda>_.
     res_bind (name_or_null (\<lambda>s. js_trim s = []) (jget r (js ''function'')) (inputInvalid (p @ [Key (js ''function'')]))) (\<lambda>fn.
     Inr \<lparr>cm_workflow_id = i, cm_function = fn\<rparr>))))"

definition setting_kind_of :: "jsval \<Rightarrow> setting_kind option" where
  "setting_kind_of v = (if v = VStr (js ''text'') then Some KindText
     else if v = VStr (js ''lan_host'') then Some KindLanHost else None)"

definition validateSetting :: "path \<Rightarrow> nat \<times> jsval \<Rightarrow> contract_setting list \<Rightarrow> bridge_error + contract_setting list" where
  "validateSetting p entry acc =
     (let at = p @ [Idx (fst entry)]; atKey = at @ [Key (js ''key'')] in
      res_bind (req (obj_of (snd entry)) (inputInvalid at)) (\<lambda>e.
      res_bind (req (str_of (jget e (js ''key''))) (inputInvalid atKey)) (\<lambda>key.
      res_bind (guard (SETTING_KEY_PATTERN key) (inputInvalid atKey)) (\<lambda>_.
      res_bind (guard (key \<notin> set (map cs_key acc)) (inputInvalid atKey)) (\<lambda>_.
      res_bind (req (str_of (jget e (js ''label''))) (inputInvalid (at @ [Key (js ''label'')]))) (\<lambda>label.
      res_bind (guard (js_trim label \<noteq> [] \<and> code_points label \<le> MAX_SETTING_LABEL_LENGTH)
        (inputInvalid (at @ [Key (js ''label'')]))) (\<lambda>_.
      res_bind (req (setting_kind_of (jget e (js ''kind''))) (inputInvalid (at @ [Key (js ''kind'')]))) (\<lambda>kind.
      Inr (acc @ [\<lparr>cs_key = key, cs_label = label, cs_kind = kind\<rparr>])))))))))"

definition validateSettings :: "jsval \<Rightarrow> path \<Rightarrow> bridge_error + contract_setting list" where
  "validateSettings raw p =
     res_bind (req (arr_of raw) (inputInvalid p)) (\<lambda>xs.
     res_bind (guard (length xs \<le> MAX_PACKAGE_SETTINGS) (inputInvalid p)) (\<lambda>_.
     fold_res (validateSetting p) (enumerate 0 xs) []))"

definition validateInput :: "path \<Rightarrow> nat \<times> jsval \<Rightarrow> contract_input list \<Rightarrow> bridge_error + contract_input list" where
  "validateInput p entry acc =
     (let at = p @ [Idx (fst entry)]; atName = at @ [Key (js ''name'')] in
      res_bind (req (obj_of (snd entry)) (inputInvalid at)) (\<lambda>e.
      res_bind (req (str_of (jget e (js ''name''))) (inputInvalid atName)) (\<lambda>name.
      res_bind (guard (js_trim name \<noteq> []) (inputInvalid atName)) (\<lambda>_.
      res_bind (guard (name \<notin> set (map ci_name acc)) (inputInvalid atName)) (\<lambda>_.
      res_bind (req (bool_of (jget e (js ''required''))) (inputInvalid (at @ [Key (js ''required'')]))) (\<lambda>required.
      let d = jget e (js ''description'') in
      res_bind (if d \<noteq> VUndef \<and> d \<noteq> VNull
                then map_sum id Some (req (str_of d) (inputInvalid (at @ [Key (js ''description'')])))
                else Inr None) (\<lambda>description.
      Inr (acc @ [\<lparr>ci_name = name, ci_required = required, ci_description = description\<rparr>]))))))))"

definition validateInputs :: "jsval \<Rightarrow> path \<Rightarrow> bridge_error + contract_input list" where
  "validateInputs raw p =
     res_bind (req (arr_of raw) (inputInvalid p)) (\<lambda>xs. fold_res (validateInput p) (enumerate 0 xs) [])"

subsection \<open>Functions\<close>

definition validateFunction :: "jsval \<Rightarrow> path \<Rightarrow> jsstring list \<Rightarrow> bridge_error + contract_function" where
  "validateFunction raw p packageIds =
     (let at = (\<lambda>name. inputInvalid (p @ [Key name])) in
      res_bind (req (obj_of raw) (inputInvalid p)) (\<lambda>r.
      res_bind (req (str_of (jget r (js ''key''))) (at (js ''key''))) (\<lambda>key.
      res_bind (guard (FUNCTION_KEY_PATTERN key) (at (js ''key''))) (\<lambda>_.
      res_bind (guard (list_all (\<lambda>s. s \<noteq> [] \<and> s \<notin> set RESERVED_SEGMENTS) (segments key)) (at (js ''key''))) (\<lambda>_.
      res_bind (req (str_of (jget r (js ''description''))) (at (js ''description''))) (\<lambda>description.
      res_bind (req (str_of (jget r (js ''package''))) (at (js ''package''))) (\<lambda>packageId.
      res_bind (guard (packageId \<in> set packageIds) (at (js ''package''))) (\<lambda>_.
      res_bind (name_or_null (\<lambda>s. s = []) (jget r (js ''function'')) (at (js ''function''))) (\<lambda>fnName.
      res_bind (validateInputs (jget r (js ''inputs'')) (p @ [Key (js ''inputs'')])) (\<lambda>inputs.
      res_bind (req (strings_of (jget r (js ''outputs''))) (at (js ''outputs''))) (\<lambda>outputs.
      res_bind (req (bool_of (jget r (js ''writes''))) (at (js ''writes''))) (\<lambda>writes.
      res_bind (req (strings_of (jget r (js ''local_network''))) (at (js ''local_network''))) (\<lambda>localNetwork.
      res_bind (let v = jget r (js ''settings'') in
        if nullish v then Inr None else map_sum id Some (validateSettings v (p @ [Key (js ''settings'')]))) (\<lambda>settings.
      res_bind (let v = jget r (js ''mode'') in
        if nullish v then Inr None else map_sum id Some (req (mode_of v) (at (js ''mode'')))) (\<lambda>mode.
      res_bind (let v = jget r (js ''cloud'') in
        if nullish v then Inr None else map_sum id Some (validateCloudMapping v (p @ [Key (js ''cloud'')]))) (\<lambda>cloud.
      Inr \<lparr>cf_key = key, cf_description = description, cf_package = packageId, cf_function = fnName,
           cf_inputs = inputs, cf_outputs = outputs, cf_writes = writes, cf_local_network = localNetwork,
           cf_settings = settings, cf_mode = mode, cf_cloud = cloud\<rparr>))))))))))))))))"

text \<open>A key may not be a function and a namespace at once.\<close>

definition clashes :: "jsstring list \<Rightarrow> jsstring \<Rightarrow> bool" where
  "clashes keys key \<longleftrightarrow>
     (let ss = segments key in list_ex (\<lambda>end. js_join dot (take end ss) \<in> set keys) [1..<length ss])"

definition checkNamespaces :: "jsstring list \<Rightarrow> bridge_error + unit" where
  "checkNamespaces keys =
     guard (\<not> list_ex (clashes keys) keys) (inputInvalid [Key (js ''functions'')])"

subsection \<open>The contract\<close>

definition validatePackage ::
  "nat \<times> jsval \<Rightarrow> jsstring list \<times> jsval list \<Rightarrow> bridge_error + jsstring list \<times> jsval list" where
  "validatePackage entry acc =
     (let at = [Key (js ''packages''), Idx (fst entry)]; atId = at @ [Key (js ''id'')] in
      res_bind (req (obj_of (snd entry)) (inputInvalid at)) (\<lambda>r.
      res_bind (req (str_of (jget r (js ''id''))) (inputInvalid atId)) (\<lambda>i.
      res_bind (guard (i \<noteq> []) (inputInvalid atId)) (\<lambda>_.
      res_bind (guard (i \<notin> set (fst acc)) (inputInvalid atId)) (\<lambda>_.
      res_bind (cloneJsonValue (snd entry) at MAX_JSON_DEPTH) (\<lambda>copy.
      Inr (fst acc @ [i], snd acc @ [copy])))))))"

definition validateEntry :: "jsstring list \<Rightarrow> nat \<times> jsval \<Rightarrow> contract_function list \<Rightarrow> bridge_error + contract_function list" where
  "validateEntry packageIds entry acc =
     (let at = [Key (js ''functions''), Idx (fst entry)] in
      res_bind (validateFunction (snd entry) at packageIds) (\<lambda>fn.
      res_bind (guard (cf_key fn \<notin> set (map cf_key acc)) (inputInvalid (at @ [Key (js ''key'')]))) (\<lambda>_.
      Inr (acc @ [fn]))))"

definition validatePublisher :: "jsval \<Rightarrow> bridge_error + jsstring option option" where
  "validatePublisher publisher =
     (if nullish publisher then Inr None
      else res_bind (req (obj_of publisher) (inputInvalid [Key (js ''publisher'')])) (\<lambda>r.
        let name = jget r (js ''name'') in
        if nullish name then Inr (Some None)
        else map_sum id (\<lambda>s. Some (Some s)) (req (str_of name) (inputInvalid [Key (js ''publisher''), Key (js ''name'')]))))"

definition validateContract :: "(jsstring \<Rightarrow> bool) \<Rightarrow> jsval \<Rightarrow> bridge_error + contract" where
  "validateContract date_ok input =
     res_bind (case input of VStr s \<Rightarrow> req (json_parse s) (inputInvalid []) | _ \<Rightarrow> Inr input) (\<lambda>parsed.
     res_bind (req (obj_of parsed) (inputInvalid [])) (\<lambda>r.
     res_bind (guard (jget r (js ''format'') = VStr CONTRACT_FORMAT) (inputInvalid [Key (js ''format'')])) (\<lambda>_.
     res_bind (req (str_of (jget r (js ''generated_at''))) (inputInvalid [Key (js ''generated_at'')])) (\<lambda>generatedAt.
     res_bind (guard (date_ok generatedAt) (inputInvalid [Key (js ''generated_at'')])) (\<lambda>_.
     res_bind (req (str_of (jget r (js ''generator''))) (inputInvalid [Key (js ''generator'')])) (\<lambda>generator.
     res_bind (guard (js_trim generator \<noteq> []) (inputInvalid [Key (js ''generator'')])) (\<lambda>_.
     res_bind (validatePublisher (jget r (js ''publisher''))) (\<lambda>publisher.
     res_bind (req (arr_of (jget r (js ''packages''))) (inputInvalid [Key (js ''packages'')])) (\<lambda>rawPackages.
     res_bind (fold_res validatePackage (enumerate 0 rawPackages) ([], [])) (\<lambda>(packageIds, packages).
     res_bind (req (arr_of (jget r (js ''functions''))) (inputInvalid [Key (js ''functions'')])) (\<lambda>rawFunctions.
     res_bind (guard (rawFunctions \<noteq> []) (inputInvalid [Key (js ''functions'')])) (\<lambda>_.
     res_bind (fold_res (validateEntry packageIds) (enumerate 0 rawFunctions) []) (\<lambda>functions.
     res_bind (checkNamespaces (map cf_key functions)) (\<lambda>_.
     Inr \<lparr>ct_generated_at = generatedAt, ct_generator = generator, ct_publisher = publisher,
          ct_functions = functions, ct_packages = packages\<rparr>))))))))))))))"

subsection \<open>What a validated contract guarantees\<close>

definition proper_prefix :: "'a list \<Rightarrow> 'a list \<Rightarrow> bool" where
  "proper_prefix xs ys \<longleftrightarrow> (\<exists>zs. zs \<noteq> [] \<and> ys = xs @ zs)"

definition valid_function :: "jsstring list \<Rightarrow> contract_function \<Rightarrow> bool" where
  "valid_function packageIds fn \<longleftrightarrow>
     FUNCTION_KEY_PATTERN (cf_key fn) \<and> (\<forall>s \<in> set (segments (cf_key fn)). s \<noteq> [] \<and> s \<notin> set RESERVED_SEGMENTS) \<and>
     cf_package fn \<in> set packageIds \<and> cf_function fn \<noteq> Some [] \<and>
     distinct (map ci_name (cf_inputs fn)) \<and> (\<forall>i \<in> set (cf_inputs fn). js_trim (ci_name i) \<noteq> []) \<and>
     (\<forall>ss. cf_settings fn = Some ss \<longrightarrow> length ss \<le> MAX_PACKAGE_SETTINGS \<and> distinct (map cs_key ss)) \<and>
     (\<forall>c. cf_cloud fn = Some c \<longrightarrow> 0 < cm_workflow_id c \<and> cm_workflow_id c \<le> MAX_SAFE_INTEGER)"

definition package_id :: "jsval \<Rightarrow> jsstring option" where
  "package_id v = (case obj_of v of None \<Rightarrow> None | Some r \<Rightarrow> str_of (jget r (js ''id'')))"

definition valid_functions :: "jsstring list \<Rightarrow> contract_function list \<Rightarrow> bool" where
  "valid_functions packageIds fns \<longleftrightarrow>
     (\<forall>fn \<in> set fns. valid_function packageIds fn) \<and> distinct (map cf_key fns) \<and>
     (\<forall>f \<in> set fns. \<forall>g \<in> set fns. \<not> proper_prefix (segments (cf_key f)) (segments (cf_key g)))"

lemma length_fold_res:
  assumes "fold_res f xs s = Inr s'" "\<And>x s s'. f x s = Inr s' \<Longrightarrow> m s' = Suc (m s)"
  shows "m s' = m s + length xs"
  using assms(1) by (induction xs arbitrary: s) (auto simp: result_simps dest!: assms(2))

lemma validateSettings_Inr:
  assumes "validateSettings raw p = Inr ss"
  shows "length ss \<le> MAX_PACKAGE_SETTINGS \<and> distinct (map cs_key ss)"
proof -
  from assms obtain xs where xs: "length xs \<le> MAX_PACKAGE_SETTINGS"
      "fold_res (validateSetting p) (enumerate 0 xs) [] = Inr ss"
    by (auto simp: validateSettings_def result_simps)
  have step: "validateSetting p e acc = Inr acc' \<Longrightarrow> length acc' = Suc (length acc)" for e acc acc'
    by (auto simp: validateSetting_def Let_def result_simps)
  have "length ss = length xs"
    using length_fold_res [OF xs(2), of length] step by simp
  moreover have "distinct (map cs_key ss)"
    by (rule fold_res_invariant [OF xs(2)]) (auto simp: validateSetting_def Let_def result_simps)
  ultimately show ?thesis using xs(1) by simp
qed

lemma validateInputs_Inr:
  assumes "validateInputs raw p = Inr ins"
  shows "distinct (map ci_name ins) \<and> (\<forall>i \<in> set ins. js_trim (ci_name i) \<noteq> [])"
proof -
  from assms obtain xs where xs: "fold_res (validateInput p) (enumerate 0 xs) [] = Inr ins"
    by (auto simp: validateInputs_def result_simps)
  show ?thesis
    by (rule fold_res_invariant [OF xs]) (auto simp: validateInput_def Let_def result_simps)
qed

lemma validateCloudMapping_Inr:
  "validateCloudMapping raw p = Inr c \<Longrightarrow> 0 < cm_workflow_id c \<and> cm_workflow_id c \<le> MAX_SAFE_INTEGER"
  unfolding validateCloudMapping_def Let_def res_bind_eq_Inr req_eq guard_eq
  by (elim exE conjE) (auto dest: safe_int_bound)

lemma map_sum_Some_eq: "map_sum id Some r = Inr v \<longleftrightarrow> (\<exists>x. v = Some x \<and> r = Inr x)"
  by (cases r) auto

lemma name_or_null_Inr: "name_or_null blank v e = Inr (Some s) \<Longrightarrow> \<not> blank s"
  by (auto simp: name_or_null_def split: jsval.splits if_splits)

lemma optional_Inr: "(if nullish v then Inr None else map_sum id Some r) = Inr x \<Longrightarrow> x = Some y \<Longrightarrow> r = Inr y"
  by (cases r) (auto split: if_splits)

lemma validateFunction_Inr:
  assumes "validateFunction raw p ids = Inr fn"
  shows "valid_function ids fn"
proof -
  from assms obtain r key pkg fnName inputs settings cloud where
      k: "FUNCTION_KEY_PATTERN key" "list_all (\<lambda>s. s \<noteq> [] \<and> s \<notin> set RESERVED_SEGMENTS) (segments key)"
        "pkg \<in> set ids"
    and f: "name_or_null (\<lambda>s. s = []) (jget r (js ''function'')) (inputInvalid (p @ [Key (js ''function'')])) = Inr fnName"
    and i: "validateInputs (jget r (js ''inputs'')) (p @ [Key (js ''inputs'')]) = Inr inputs"
    and s: "(if nullish (jget r (js ''settings'')) then Inr None
       else map_sum id Some (validateSettings (jget r (js ''settings'')) (p @ [Key (js ''settings'')]))) = Inr settings"
    and c: "(if nullish (jget r (js ''cloud'')) then Inr None
       else map_sum id Some (validateCloudMapping (jget r (js ''cloud'')) (p @ [Key (js ''cloud'')]))) = Inr cloud"
    and fn: "cf_key fn = key" "cf_package fn = pkg" "cf_function fn = fnName" "cf_inputs fn = inputs"
        "cf_settings fn = settings" "cf_cloud fn = cloud"
    unfolding validateFunction_def Let_def res_bind_eq_Inr req_eq guard_eq sum.inject
    by (elim exE conjE, hypsubst) (simp only: contract_function.simps)
  have "fnName \<noteq> Some []" using f by (auto dest: name_or_null_Inr)
  then show ?thesis
    using k validateInputs_Inr [OF i]
    by (auto simp: valid_function_def list_all_iff fn dest!: optional_Inr [OF s] optional_Inr [OF c]
        dest: validateSettings_Inr validateCloudMapping_Inr)
qed

lemma checkNamespaces_Inr:
  assumes "checkNamespaces keys = Inr u" "f \<in> set keys" "g \<in> set keys"
  shows "\<not> proper_prefix (segments f) (segments g)"
proof
  assume "proper_prefix (segments f) (segments g)"
  then obtain zs where zs: "zs \<noteq> []" "segments g = segments f @ zs" by (auto simp: proper_prefix_def)
  have ne: "segments f \<noteq> []" by (simp add: segments_def)
  let ?e = "length (segments f)"
  have "?e \<in> set [1..<length (segments g)]" using zs(1) ne unfolding zs(2) set_upt by (cases "segments f") simp_all
  moreover have "js_join dot (take ?e (segments g)) = f" by (simp add: zs) (simp add: segments_def)
  ultimately have "clashes keys g"
    unfolding clashes_def Let_def list_ex_iff using assms(2) by (intro bexI [of _ ?e]) simp_all
  then show False using assms by (auto simp: checkNamespaces_def list_ex_iff)
qed

lemma package_id_clone:
  assumes "cloneJsonValue (VObj r) p md = Inr copy" "jget r (js ''id'') = VStr i"
  shows "package_id copy = Some i"
proof -
  have m: "map_of r k = Some v \<Longrightarrow> v \<noteq> VUndef \<Longrightarrow>
      map_of (map (\<lambda>(k, v). (k, json_part v)) (filter (\<lambda>(k, v). v \<noteq> VUndef) r)) k = Some (json_part v)" for k v
    by (induction r) (auto split: if_splits)
  have "map_of r (js ''id'') = Some (VStr i)"
    using assms(2) by (auto simp: jget_def inherited_js split: option.splits)
  then show ?thesis
    using assms(1) m [of "js ''id''" "VStr i"] by (auto simp: cloneJsonValue_Inr package_id_def jget_own)
qed

lemma validatePackage_fold:
  assumes "fold_res validatePackage (enumerate 0 xs) ([], []) = Inr (ids, ps)"
  shows "distinct ids \<and> map package_id ps = map Some ids \<and> [] \<notin> set ids"
proof -
  have "(\<lambda>(ids, ps). distinct ids \<and> map package_id ps = map Some ids \<and> [] \<notin> set ids) (ids, ps)"
  proof (rule fold_res_invariant [OF assms])
    fix e and acc acc' :: "jsstring list \<times> jsval list"
    assume "validatePackage e acc = Inr acc'"
      and "(\<lambda>(ids, ps). distinct ids \<and> map package_id ps = map Some ids \<and> [] \<notin> set ids) acc"
    then show "(\<lambda>(ids, ps). distinct ids \<and> map package_id ps = map Some ids \<and> [] \<notin> set ids) acc'"
      by (auto simp: validatePackage_def Let_def result_simps package_id_clone split: prod.splits)
  qed simp
  then show ?thesis by simp
qed

lemma validateContract_functions:
  assumes "validateContract date_ok input = Inr c"
  shows "ct_functions c \<noteq> [] \<and> (\<exists>ids. map package_id (ct_packages c) = map Some ids \<and> distinct ids \<and>
    valid_functions ids (ct_functions c))"
proof -
  from assms obtain rawP ids ps rawF fns where
      P: "fold_res validatePackage (enumerate 0 rawP) ([], []) = Inr (ids, ps)"
    and F: "rawF \<noteq> []" "fold_res (validateEntry ids) (enumerate 0 rawF) [] = Inr fns"
    and N: "checkNamespaces (map cf_key fns) = Inr ()" and c: "ct_functions c = fns" "ct_packages c = ps"
    unfolding validateContract_def res_bind_eq_Inr req_eq guard_eq
    by (auto simp: result_simps split: prod.splits)
  have step: "validateEntry ids e acc = Inr acc' \<Longrightarrow> length acc' = Suc (length acc)" for e acc acc'
    by (auto simp: validateEntry_def Let_def result_simps)
  have "length fns = length rawF" using length_fold_res [OF F(2), of length] step by simp
  then have ne: "fns \<noteq> []" using F(1) by auto
  have "(\<forall>fn \<in> set fns. valid_function ids fn) \<and> distinct (map cf_key fns)"
    by (rule fold_res_invariant [OF F(2)])
      (auto simp: validateEntry_def Let_def result_simps dest: validateFunction_Inr)
  then have "valid_functions ids fns" using checkNamespaces_Inr [OF N] by (simp add: valid_functions_def)
  then show ?thesis using ne c validatePackage_fold [OF P] by blast
qed

text \<open>C14: a contract that validates is coherent: its functions are at least one, their keys valid,
  unique, of usable segments, and none a namespace of another; every function names one of the
  packages, which have unique ids; input and setting names are unique; workflow ids are positive.\<close>

theorem validateContract_valid:
  assumes "validateContract date_ok input = Inr c"
  shows "ct_functions c \<noteq> [] \<and> (\<exists>ids. map package_id (ct_packages c) = map Some ids \<and> distinct ids \<and>
    valid_functions ids (ct_functions c))"
  using validateContract_functions [OF assms] .

subsection \<open>Checking a call's inputs\<close>

definition utf8Length :: "jsstring \<Rightarrow> nat" where
  "utf8Length s = length (utf8 s)"

definition checkInputs :: "contract_function \<Rightarrow> jsval \<Rightarrow> bridge_error + fields" where
  "checkInputs fn inputs =
     res_bind (if nullish inputs then Inr [] else req (obj_of inputs) (inputInvalid [])) (\<lambda>given.
     let declared = map ci_name (cf_inputs fn) in
     (case find (\<lambda>name. jget given name \<noteq> VUndef \<and> name \<notin> set declared) (own_keys given) of
        Some name \<Rightarrow> Inl (inputInvalid [Key name])
      | None \<Rightarrow>
          let missing = filter (\<lambda>input. ci_required input \<and> jget given (ci_name input) = VUndef) (cf_inputs fn) in
          res_bind (guard (missing = []) (inputInvalid [])) (\<lambda>_.
          res_bind (cloneJsonValue (VObj given) [] MAX_JSON_DEPTH) (\<lambda>copy.
          res_bind (guard (utf8Length (json_text copy) \<le> MAX_INPUT_BYTES) (inputInvalid [])) (\<lambda>_.
          req (obj_of copy) (inputInvalid []))))))"

text \<open>The copy keeps exactly the declared properties that are given.\<close>

lemma checkInputs_Inr:
  assumes "checkInputs fn (VObj given) = Inr copy" "wf_val (VObj given)"
  shows "copy = map (\<lambda>(k, v). (k, json_part v)) (filter (\<lambda>(k, v). v \<noteq> VUndef) given)"
    "is_json (VObj copy)" "nesting (VObj copy) \<le> MAX_JSON_DEPTH" "utf8Length (json_text (VObj copy)) \<le> MAX_INPUT_BYTES"
    "set (map fst copy) \<subseteq> set (map ci_name (cf_inputs fn))"
    "\<forall>i \<in> set (cf_inputs fn). ci_required i \<longrightarrow> ci_name i \<in> set (map fst copy) \<or> inherited (ci_name i) \<noteq> VUndef"
proof -
  from assms(1) have f: "\<forall>name \<in> set (map fst given). jget given name \<noteq> VUndef \<longrightarrow> name \<in> set (map ci_name (cf_inputs fn))"
    and m: "\<forall>i \<in> set (cf_inputs fn). ci_required i \<longrightarrow> jget given (ci_name i) \<noteq> VUndef"
    and cl: "cloneJsonValue (VObj given) [] MAX_JSON_DEPTH = Inr (VObj copy)"
    and sz: "utf8Length (json_text (VObj copy)) \<le> MAX_INPUT_BYTES"
    by (auto simp: checkInputs_def Let_def result_simps nullish_def own_keys_def find_None_iff filter_empty_conv
        split: option.splits)
  show c: "copy = map (\<lambda>(k, v). (k, json_part v)) (filter (\<lambda>(k, v). v \<noteq> VUndef) given)"
    using cl by (simp add: cloneJsonValue_Inr)
  have cb: "cloneable MAX_JSON_DEPTH (VObj given)" using cl by (simp add: cloneJsonValue_Inr)
  show "utf8Length (json_text (VObj copy)) \<le> MAX_INPUT_BYTES" by (rule sz)
  have own: "k \<in> fst ` set copy \<longleftrightarrow> (\<exists>v. map_of given k = Some v \<and> v \<noteq> VUndef)" for k
    using assms(2) by (force simp: c map_of_eq_Some_iff_distinct image_iff)
  show "set (map fst copy) \<subseteq> set (map ci_name (cf_inputs fn))"
    using f own by (auto simp: jget_own dest!: map_of_SomeD) (metis own f fst_conv image_eqI jget_own map_of_SomeD set_map)
  show "\<forall>i \<in> set (cf_inputs fn). ci_required i \<longrightarrow> ci_name i \<in> set (map fst copy) \<or> inherited (ci_name i) \<noteq> VUndef"
    using m own by (auto simp: jget_def split: option.splits)
  show "is_json (VObj copy)" "nesting (VObj copy) \<le> MAX_JSON_DEPTH"
    using cloneJsonValue_is_json [OF cl assms(2)] by simp_all
qed

lemma checkInputs_nullish: "nullish v \<Longrightarrow> checkInputs fn v = checkInputs fn (VObj [])"
  by (auto simp: checkInputs_def nullish_def)

lemma checkInputs_ok:
  assumes "wf_val (VObj given)" "\<forall>(k, v) \<in> set given. v \<noteq> VUndef \<longrightarrow> k \<in> set (map ci_name (cf_inputs fn))"
    and "\<forall>i \<in> set (cf_inputs fn). ci_required i \<longrightarrow> jget given (ci_name i) \<noteq> VUndef"
    and "cloneable MAX_JSON_DEPTH (VObj given)" "json_part (VObj given) = VObj copy"
    and "utf8Length (json_text (VObj copy)) \<le> MAX_INPUT_BYTES"
  shows "checkInputs fn (VObj given) = Inr copy"
proof -
  have "find (\<lambda>name. jget given name \<noteq> VUndef \<and> name \<notin> set (map ci_name (cf_inputs fn))) (own_keys given) = None"
    using assms(1,2) by (force simp: find_None_iff own_keys_def jget_own map_of_eq_Some_iff_distinct)
  moreover have "filter (\<lambda>input. ci_required input \<and> jget given (ci_name input) = VUndef) (cf_inputs fn) = []"
    using assms(3) by (auto simp: filter_empty_conv)
  moreover have "cloneJsonValue (VObj given) [] MAX_JSON_DEPTH = Inr (VObj copy)"
    using assms(4,5) by (simp add: cloneJsonValue_Inr)
  ultimately show ?thesis using assms(6) by (simp add: checkInputs_def nullish_def)
qed

subsection \<open>The tree of methods\<close>

text \<open>
  \<open>buildTree\<close>: an object of objects whose leaves are methods.  Stepping into a method throws in the
  source (a method is frozen), which is \<open>None\<close> here.
\<close>

datatype 'm tree = Method 'm | Namespace "(jsstring \<times> 'm tree) list"

fun node_put :: "jsstring \<Rightarrow> 'm tree \<Rightarrow> (jsstring \<times> 'm tree) list \<Rightarrow> (jsstring \<times> 'm tree) list" where
  "node_put k t [] = [(k, t)]"
| "node_put k t ((k', t') # ns) = (if k' = k then (k, t) # ns else (k', t') # node_put k t ns)"

fun tree_put :: "jsstring list \<Rightarrow> 'm \<Rightarrow> (jsstring \<times> 'm tree) list \<Rightarrow> (jsstring \<times> 'm tree) list option" where
  "tree_put [] m ns = Some ns"
| "tree_put [s] m ns = Some (node_put s (Method m) ns)"
| "tree_put (s # t # ss) m ns =
     (case map_of ns s of
        None \<Rightarrow> map_option (\<lambda>ch. node_put s (Namespace ch) ns) (tree_put (t # ss) m [])
      | Some (Namespace ch) \<Rightarrow> map_option (\<lambda>ch. node_put s (Namespace ch) ns) (tree_put (t # ss) m ch)
      | Some (Method _) \<Rightarrow> None)"

fun buildTree :: "contract_function list \<Rightarrow> (contract_function \<Rightarrow> 'm) \<Rightarrow> (jsstring \<times> 'm tree) list \<Rightarrow>
    (jsstring \<times> 'm tree) list option" where
  "buildTree [] makeMethod root = Some root"
| "buildTree (fn # fns) makeMethod root =
     (case tree_put (segments (cf_key fn)) (makeMethod fn) root of
        None \<Rightarrow> None | Some root' \<Rightarrow> buildTree fns makeMethod root')"

text \<open>\<open>bridge.a.b.c\<close>: the method at a path.\<close>

fun tree_get :: "jsstring list \<Rightarrow> (jsstring \<times> 'm tree) list \<Rightarrow> 'm option" where
  "tree_get [] ns = None"
| "tree_get [s] ns = (case map_of ns s of Some (Method m) \<Rightarrow> Some m | _ \<Rightarrow> None)"
| "tree_get (s # t # ss) ns = (case map_of ns s of Some (Namespace ch) \<Rightarrow> tree_get (t # ss) ch | _ \<Rightarrow> None)"

lemma map_of_node_put [simp]: "map_of (node_put k t ns) = (map_of ns)(k \<mapsto> t)"
  by (induction ns) (auto simp: fun_eq_iff)

text \<open>The paths that hold a method or an inner namespace (one below which something was put).\<close>

lemma proper_prefix_Cons: "proper_prefix (x # xs) (y # ys) \<longleftrightarrow> x = y \<and> proper_prefix xs ys"
  by (auto simp: proper_prefix_def)

lemma proper_prefix_Nil [simp]: "proper_prefix [] ys \<longleftrightarrow> ys \<noteq> []" "\<not> proper_prefix xs []"
  by (auto simp: proper_prefix_def)

lemma tree_put_Some:
  "p \<noteq> [] \<Longrightarrow> (\<And>q m'. tree_get q ns = Some m' \<Longrightarrow> \<not> proper_prefix q p) \<Longrightarrow> \<exists>ns'. tree_put p m ns = Some ns'"
proof (induction p m ns rule: tree_put.induct)
  case (3 s t ss m ns)
  show ?case
  proof (cases "map_of ns s")
    case None
    moreover have "\<exists>ns'. tree_put (t # ss) m [] = Some ns'"
    proof (rule "3.IH"(1) [OF None])
      show "tree_get q [] = Some m' \<Longrightarrow> \<not> proper_prefix q (t # ss)" for q and m' :: 'a
        by (cases q rule: remdups_adj.cases) auto
    qed simp
    ultimately show ?thesis by auto
  next
    case (Some n)
    show ?thesis
    proof (cases n)
      case (Method m')
      then show ?thesis using "3.prems"(2) [of "[s]" m'] Some by (simp add: proper_prefix_Cons)
    next
      case (Namespace ch)
      have "\<exists>ns'. tree_put (t # ss) m ch = Some ns'"
      proof (rule "3.IH"(2) [OF Some Namespace])
        fix q m' assume "tree_get q ch = Some m'"
        then have "tree_get (s # q) ns = Some m'" using Some Namespace by (cases q) auto
        then show "\<not> proper_prefix q (t # ss)" using "3.prems"(2) [of "s # q" m'] by (simp add: proper_prefix_Cons)
      qed simp
      then show ?thesis using Some Namespace by auto
    qed
  qed
qed auto

lemma tree_get_Nil [simp]: "tree_get q [] = None"
  by (cases q rule: remdups_adj.cases) auto

lemma tree_get_put:
  "tree_put p m ns = Some ns' \<Longrightarrow> p \<noteq> [] \<Longrightarrow> \<not> proper_prefix p q \<Longrightarrow>
     tree_get q ns' = (if q = p then Some m else tree_get q ns)"
proof (induction p m ns arbitrary: q ns' rule: tree_put.induct)
  case (2 s m ns)
  then show ?case by (cases q rule: remdups_adj.cases) (auto simp: proper_prefix_Cons)
next
  case (3 s t ss m ns)
  show ?case
  proof (cases q rule: remdups_adj.cases)
    case (3 x y zs)
    show ?thesis
    proof (cases "x = s")
      case False
      then show ?thesis using "3.prems"(1) 3 by (auto split: option.splits tree.splits)
    next
      case True
      show ?thesis
      proof (cases "map_of ns s")
        case None
        then obtain ch where ch: "tree_put (t # ss) m [] = Some ch" "ns' = node_put s (Namespace ch) ns"
          using "3.prems"(1) by auto
        have "tree_get (y # zs) ch = (if y # zs = t # ss then Some m else tree_get (y # zs) [])"
          using "3.IH"(1) [OF None ch(1)] "3.prems"(3) 3 True by (simp add: proper_prefix_Cons)
        then show ?thesis using ch 3 True None by simp
      next
        case (Some n)
        then obtain ch0 where n: "n = Namespace ch0" using "3.prems"(1) by (cases n) auto
        then obtain ch where ch: "tree_put (t # ss) m ch0 = Some ch" "ns' = node_put s (Namespace ch) ns"
          using "3.prems"(1) Some by auto
        have "tree_get (y # zs) ch = (if y # zs = t # ss then Some m else tree_get (y # zs) ch0)"
          using "3.IH"(2) [OF Some n ch(1)] "3.prems"(3) 3 True by (simp add: proper_prefix_Cons)
        then show ?thesis using ch 3 True Some n by simp
      qed
    qed
  next
    case (2 x)
    have "map_of ns' x = map_of ns x \<or> (x = s \<and> (\<exists>ch. map_of ns' x = Some (Namespace ch)))"
      using "3.prems"(1) by (auto split: option.splits tree.splits if_splits)
    moreover have "x = s \<Longrightarrow> \<nexists>m'. map_of ns x = Some (Method m')"
      using "3.prems"(1) by (auto split: option.splits tree.splits)
    ultimately have "(case map_of ns' x of Some (Method m) \<Rightarrow> Some m | _ \<Rightarrow> None) =
        (case map_of ns x of Some (Method m) \<Rightarrow> Some m | _ \<Rightarrow> None)"
      by (elim disjE conjE exE) (simp, auto split: option.splits tree.splits)
    then show ?thesis using 2 by simp
  qed simp
qed simp

lemma tree_get_below: "tree_get p t = Some m \<Longrightarrow> proper_prefix p q \<Longrightarrow> tree_get q t = None"
proof (induction p t arbitrary: q rule: tree_get.induct)
  case (2 s ns)
  then obtain y zs where "q = s # y # zs" by (cases q rule: remdups_adj.cases) (auto simp: proper_prefix_Cons)
  then show ?case using "2.prems"(1) by (auto split: option.splits tree.splits)
next
  case (3 s t ss ns)
  from "3.prems"(1) obtain ch where ch: "map_of ns s = Some (Namespace ch)" "tree_get (t # ss) ch = Some m"
    by (auto split: option.splits tree.splits)
  from "3.prems"(2) obtain zs where q: "q = s # zs" "proper_prefix (t # ss) zs"
    by (cases q) (auto simp: proper_prefix_Cons)
  then have "tree_get zs ch = None" using "3.IH" [OF ch(1) refl ch(2)] by simp
  then show ?case using q ch by (cases zs) auto
qed simp

text \<open>Methods put at their paths one after the other, as \<open>buildTree\<close> does for the functions.\<close>

fun put_all :: "(jsstring list \<times> 'm) list \<Rightarrow> (jsstring \<times> 'm tree) list \<Rightarrow> (jsstring \<times> 'm tree) list option" where
  "put_all [] root = Some root"
| "put_all ((p, m) # pms) root = (case tree_put p m root of None \<Rightarrow> None | Some root' \<Rightarrow> put_all pms root')"

lemma buildTree_put_all: "buildTree fns mk root = put_all (map (\<lambda>fn. (segments (cf_key fn), mk fn)) fns) root"
  by (induction fns mk root rule: buildTree.induct) (auto split: option.splits)

lemma put_all_get:
  assumes "distinct (map fst pms)" "[] \<notin> set (map fst pms)"
    and "\<forall>p \<in> set (map fst pms). \<forall>q \<in> set (map fst pms). \<not> proper_prefix p q"
    and "\<forall>q m. tree_get q root = Some m \<longrightarrow> (\<forall>p \<in> set (map fst pms). q \<noteq> p \<and> \<not> proper_prefix q p \<and> \<not> proper_prefix p q)"
  shows "\<exists>t. put_all pms root = Some t \<and> (\<forall>q m. tree_get q t = Some m \<longleftrightarrow> tree_get q root = Some m \<or> (q, m) \<in> set pms)"
  using assms
proof (induction pms arbitrary: root)
  case (Cons pm pms)
  obtain p mm where pm: "pm = (p, mm)" by (cases pm)
  have ne: "p \<noteq> []" using Cons.prems(2) pm by auto
  have "\<exists>r. tree_put p mm root = Some r"
    by (rule tree_put_Some [OF ne]) (use Cons.prems(4) pm in auto)
  then obtain r where r: "tree_put p mm root = Some r" ..
  have np: "\<not> proper_prefix p p" by (simp add: proper_prefix_def)
  have old: "\<not> proper_prefix p q \<and> q \<noteq> p" if "tree_get q root = Some m" for q m using Cons.prems(4) that pm by simp
  have get: "tree_get q r = Some m \<longleftrightarrow> tree_get q root = Some m \<or> (q = p \<and> m = mm)" for q m
  proof (cases "proper_prefix p q")
    case True
    then have "tree_get q r = None" using tree_get_below tree_get_put [OF r ne np] by (metis (full_types))
    then show ?thesis using old True np by auto
  next
    case False
    then show ?thesis using tree_get_put [OF r ne False] old by auto
  qed
  have "\<exists>t. put_all pms r = Some t \<and> (\<forall>q m. tree_get q t = Some m \<longleftrightarrow> tree_get q r = Some m \<or> (q, m) \<in> set pms)"
  proof (rule Cons.IH)
    show "\<forall>q m. tree_get q r = Some m \<longrightarrow> (\<forall>p \<in> set (map fst pms). q \<noteq> p \<and> \<not> proper_prefix q p \<and> \<not> proper_prefix p q)"
    proof (intro allI impI ballI)
      fix q m p' assume "tree_get q r = Some m" and p': "p' \<in> set (map fst pms)"
      then consider "tree_get q root = Some m" | "q = p" unfolding get by blast
      then show "q \<noteq> p' \<and> \<not> proper_prefix q p' \<and> \<not> proper_prefix p' q"
      proof cases
        case 1
        moreover have "p' \<in> set (map fst (pm # pms))" using p' by simp
        ultimately show ?thesis using Cons.prems(4) by blast
      next
        case 2
        then show ?thesis using Cons.prems(1,3) p' pm by auto
      qed
    qed
  qed (use Cons.prems in auto)
  then show ?case using r get pm by auto
qed simp

lemma buildTree_get:
  assumes "distinct (map cf_key fns)"
    and "\<forall>f \<in> set fns. \<forall>g \<in> set fns. \<not> proper_prefix (segments (cf_key f)) (segments (cf_key g))"
  shows "\<exists>t. buildTree fns mk [] = Some t \<and> (\<forall>q m. tree_get q t = Some m \<longleftrightarrow> (\<exists>f \<in> set fns. q = segments (cf_key f) \<and> m = mk f))"
proof -
  have "distinct (map segments (map cf_key fns))"
    unfolding distinct_map using assms(1) by (auto simp: inj_on_def segments_def distinct_map)
  then have "\<exists>t. put_all (map (\<lambda>fn. (segments (cf_key fn), mk fn)) fns) [] = Some t \<and>
      (\<forall>q m. tree_get q t = Some m \<longleftrightarrow> tree_get q [] = Some m \<or> (q, m) \<in> set (map (\<lambda>fn. (segments (cf_key fn), mk fn)) fns))"
    using assms(2) by (intro put_all_get) (auto simp: comp_def segments_def)
  then show ?thesis unfolding buildTree_put_all by auto
qed

text \<open>Every function of a validated contract has its own method in the tree: \<open>buildTree\<close> never
  fails on them, the method at a function's dotted key is that function's, and the tree holds no
  other method.\<close>

theorem buildTree_validated:
  assumes "validateContract date_ok input = Inr c"
  shows "\<exists>t. buildTree (ct_functions c) makeMethod [] = Some t \<and>
    (\<forall>path m. tree_get path t = Some m \<longleftrightarrow>
       (\<exists>fn \<in> set (ct_functions c). js_join dot path = cf_key fn \<and> path \<noteq> [] \<and> (\<forall>s \<in> set path. dot \<notin> set s) \<and> m = makeMethod fn))"
proof -
  obtain ids where v: "valid_functions ids (ct_functions c)" using validateContract_functions [OF assms] by blast
  have seg: "path = segments (cf_key fn) \<longleftrightarrow> js_join dot path = cf_key fn \<and> path \<noteq> [] \<and> (\<forall>s \<in> set path. dot \<notin> set s)"
    for path fn using js_split_join [of path dot] js_split_parts [of _ dot "cf_key fn"] by (auto simp: segments_def)
  show ?thesis
    using buildTree_get [of "ct_functions c" makeMethod] v by (simp add: valid_functions_def seg)
qed

text \<open>The inputs a call runs with: when \<open>checkInputs\<close> accepts an object, the copy it answers is
  its defined properties as plain JSON, only declared names, within the depth and size limits, with
  every required input present (a name every object inherits, such as \<open>toString\<close>, excepted).\<close>

theorem checkInputs_sound:
  assumes "checkInputs fn (VObj given) = Inr copy" "wf_val (VObj given)"
  shows "VObj copy = json_part (VObj given) \<and> is_json (VObj copy) \<and> nesting (VObj copy) \<le> MAX_JSON_DEPTH \<and>
    utf8Length (json_text (VObj copy)) \<le> MAX_INPUT_BYTES \<and> set (own_keys copy) \<subseteq> set (map ci_name (cf_inputs fn)) \<and>
    (\<forall>i \<in> set (cf_inputs fn). ci_required i \<longrightarrow> ci_name i \<in> set (own_keys copy) \<or> inherited (ci_name i) \<noteq> VUndef)"
  using checkInputs_Inr [OF assms] by (simp add: own_keys_def)

text \<open>A required input named like a member of \<open>Object.prototype\<close> is never missed: the presence
  test reads the inherited member, so the call is accepted without it.\<close>

theorem checkInputs_inherited_name:
  assumes "ci_name i \<in> set PROTOTYPE_NAMES" "cf_inputs fn = [i]" "ci_required i"
  shows "checkInputs fn (VObj []) = Inr []"
  using assms by (intro checkInputs_ok) (auto simp: inherited_def utf8Length_def obj_text_def MAX_INPUT_BYTES_def MAX_JSON_DEPTH_def utf8_point_def is_high_def is_low_def)

end
