(* ===== verification/Page_Channel.thy ===== *)
theory Page_Channel
  imports Verify Contract
begin

section \<open>The page channel (server-node/src/channel.ts)\<close>

text \<open>
  One request of a user's page, served against the memory store.  A request that runs a function on
  Writ Cloud is two steps, as other requests are served meanwhile: \<open>handleChannel\<close> ends in
  \<open>StartRun\<close> with the run counted, and \<open>finish_run\<close> answers and uncounts it.  The clock is an argument,
  read once before and once after the wait of a poll.  The server's own device hook, if there is one, answers
  at once (\<open>Verify\<close> has the checks that overlap while it is awaited).  Message texts are not modelled.
\<close>

record channel =
  ch_secret :: "secret option"
  ch_pollSeconds :: int
  ch_maxBodyBytes :: int
  ch_functions :: "contract_function list"
  ch_modes :: "jsstring \<rightharpoonup> WritBridgeMode"
  ch_devices :: device_policy
  ch_authorizeRun :: "(jsstring \<Rightarrow> jsstring \<Rightarrow> fields \<Rightarrow> bool) option"

record request =
  rq_method :: jsstring
  rq_authorization :: "jsstring option"
  rq_wait :: "jsstring option"
  rq_content_length :: "int option"
  rq_chunks :: "bytes list option"
  rq_now :: int
  rq_wakes :: "(int \<times> (memory \<Rightarrow> memory)) list"
  rq_aborted :: bool
  rq_now_after :: int

datatype response_body = NoBody | ErrorBody code | CommandsBody "command list" | DataBody jsval

record response =
  rs_status :: nat
  rs_body :: response_body

definition failure :: "nat \<Rightarrow> code \<Rightarrow> response" where
  "failure status c = \<lparr>rs_status = status, rs_body = ErrorBody c\<rparr>"

definition noContent :: response where
  "noContent = \<lparr>rs_status = 204, rs_body = NoBody\<rparr>"

definition badRequest :: bridge_error where
  "badRequest = err BAD_REQUEST"

text \<open>How a handler ends.\<close>

datatype ending =
    Respond response
  | Throw bridge_error
  | BodyTooLarge
  | StartRun jsstring contract_function fields int bool

record server =
  sv_store :: memory
  sv_pageRuns :: "jsstring \<rightharpoonup> nat"

definition functionOf :: "channel \<Rightarrow> jsstring \<Rightarrow> contract_function option" where
  "functionOf ctx key = find (\<lambda>fn. cf_key fn = key) (ch_functions ctx)"

subsection \<open>Authentication\<close>

definition writ_word :: "jsstring \<Rightarrow> bool" where
  "writ_word w \<longleftrightarrow>
     (case w of [a, b, c, d] \<Rightarrow> a \<in> {87, 119} \<and> b \<in> {82, 114} \<and> c \<in> {73, 105} \<and> d \<in> {84, 116} | _ \<Rightarrow> False)"

text \<open>\<open>/^\s*Writ\s+(\S+)\s*$/i\<close>, as the token.\<close>

definition writ_header :: "jsstring \<Rightarrow> jsstring option" where
  "writ_header h =
     (let r = dropWhile is_space h; rest = drop 4 r; r2 = dropWhile is_space rest;
          tok = takeWhile (\<lambda>u. \<not> is_space u) r2; r3 = dropWhile (\<lambda>u. \<not> is_space u) r2
      in if writ_word (take 4 r) \<and> r2 \<noteq> rest \<and> tok \<noteq> [] \<and> dropWhile is_space r3 = [] then Some tok else None)"

definition authenticate :: "crypto \<Rightarrow> secret \<Rightarrow> jsstring option \<Rightarrow> int \<Rightarrow> jsstring option" where
  "authenticate C secret header nowMs =
     (case header of
        None \<Rightarrow> None
      | Some h \<Rightarrow> (case writ_header h of
            None \<Rightarrow> None
          | Some tok \<Rightarrow> map_option up_sub (readUserToken C secret (VStr tok) (nowMs div 1000))))"

subsection \<open>Polling for commands\<close>

definition touchPresence :: "int \<Rightarrow> jsstring \<Rightarrow> memory \<Rightarrow> memory" where
  "touchPresence now u m =
     (case getPresence now u m of
        (previous, m1) \<Rightarrow>
          setPresence now u
            (case previous of
               None \<Rightarrow> \<lparr>pr_ready = False, pr_granted = [], pr_writ_version = None, pr_last_seen = now, pr_ever_ready = False\<rparr>
             | Some p \<Rightarrow> p\<lparr>pr_last_seen := now\<rparr>) PRESENCE_RETENTION_MS m1)"

definition waitSeconds :: "channel \<Rightarrow> jsstring option \<Rightarrow> bridge_error + int" where
  "waitSeconds ctx raw =
     (case raw of
        None \<Rightarrow> Inr 0
      | Some w \<Rightarrow> if w = [] then Inr 0
          else if list_all is_digit w \<and> length w \<le> 6 then Inr (min (int (digits_value w)) (ch_pollSeconds ctx))
          else Inl badRequest)"

definition poll :: "channel \<Rightarrow> request \<Rightarrow> jsstring \<Rightarrow> memory \<Rightarrow> ending \<times> memory" where
  "poll ctx rq u m =
     (case waitSeconds ctx (rq_wait rq) of
        Inl e \<Rightarrow> (Throw e, m)
      | Inr _ \<Rightarrow>
          (case take_commands (rq_now rq) u (Some MAX_COMMANDS_PER_POLL) (rq_wakes rq) (touchPresence (rq_now rq) u m) of
             (commands, m1) \<Rightarrow>
               if rq_aborted rq \<and> commands \<noteq> []
               then (Respond \<lparr>rs_status = 200, rs_body = CommandsBody []\<rparr>, requeue (rq_now_after rq) u commands m1)
               else (Respond \<lparr>rs_status = 200, rs_body =
                       CommandsBody (filter (\<lambda>c. cmd_expires_at c > rq_now_after rq div 1000) commands)\<rparr>, m1)))"

subsection \<open>Hello\<close>

text \<open>\<open>[...new Set(xs)]\<close>: the first of each.\<close>

definition js_unique :: "'a list \<Rightarrow> 'a list" where
  "js_unique xs = rev (remdups (rev xs))"

definition hello :: "channel \<Rightarrow> int \<Rightarrow> jsstring \<Rightarrow> jsval \<Rightarrow> memory \<Rightarrow> ending \<times> memory" where
  "hello ctx now u raw m =
     (case res_bind (req (obj_of raw) badRequest) (\<lambda>r.
           res_bind (req (bool_of (jget r (js ''ready''))) badRequest) (\<lambda>ready.
           res_bind (req (strings_of (or_else (jget r (js ''granted'')) (VArr []))) badRequest) (\<lambda>granted.
           res_bind (guard (length granted \<le> MAX_GRANTED_KEYS) badRequest) (\<lambda>_.
           res_bind (case or_else (jget r (js ''writ_version'')) VNull of
               VNull \<Rightarrow> Inr None
             | VStr s \<Rightarrow> if length s > 64 then Inl badRequest else Inr (Some s)
             | _ \<Rightarrow> Inl badRequest) (\<lambda>version.
           Inr (ready, js_unique (filter (\<lambda>k. functionOf ctx k \<noteq> None) granted), version)))))) of
        Inl e \<Rightarrow> (Throw e, m)
      | Inr (ready, keys, version) \<Rightarrow>
          (case getPresence now u m of
             (previous, m1) \<Rightarrow>
               (Respond noContent,
                setPresence now u
                  \<lparr>pr_ready = ready, pr_granted = keys, pr_writ_version = version, pr_last_seen = now,
                   pr_ever_ready = ((case previous of None \<Rightarrow> False | Some p \<Rightarrow> pr_ever_ready p) \<or> ready)\<rparr>
                  PRESENCE_RETENTION_MS m1)))"

subsection \<open>Result\<close>

definition expectationsFor :: "channel \<Rightarrow> secret \<Rightarrow> int \<Rightarrow> pending_command \<Rightarrow> jsstring \<Rightarrow> memory expectations" where
  "expectationsFor ctx secret now p u =
     \<lparr>ex_secret = secret, ex_nowSeconds = now div 1000, ex_challenge = pd_challenge p, ex_key = pd_key p,
      ex_subject = Some u, ex_nonce = Some (pd_id p), ex_origin = None, ex_data = None, ex_inputs = None,
      ex_inputsHash = pd_inputs_hash p, ex_requireSuccess = True, ex_devices = ch_devices ctx, ex_hookWait = id,
      ex_checkDevice = (\<lambda>s k f m. map_prod Some id (checkDevice s k f m)),
      ex_spendNonce = (\<lambda>n ttl m. spendNonce now n ttl m)\<rparr>"

definition RESULT_UNVERIFIED_NAME :: jsstring where
  "RESULT_UNVERIFIED_NAME = js (code_name RESULT_UNVERIFIED)"

definition unverified :: "verdict option \<Rightarrow> command_outcome" where
  "unverified vd =
     OutcomeError RESULT_UNVERIFIED_NAME [] None
       (case vd of Some v \<Rightarrow> if vd_unknownDevice v then vd_device v else None | None \<Rightarrow> None)"

definition visitor_code :: "jsstring \<Rightarrow> bool" where
  "visitor_code s \<longleftrightarrow>
     (case s of [] \<Rightarrow> False | u # us \<Rightarrow> is_upper u \<and> length us \<le> 63 \<and>
        list_all (\<lambda>u. is_upper u \<or> is_digit u \<or> u = 95) us)"

definition prop_of :: "jsval \<Rightarrow> jsstring \<Rightarrow> jsval" where
  "prop_of v k = (case obj_of v of None \<Rightarrow> VUndef | Some ob \<Rightarrow> jget ob k)"

definition visitorError :: "jsval \<Rightarrow> jsstring \<times> jsstring" where
  "visitorError raw =
     (let code = prop_of raw (js ''code''); message = prop_of raw (js ''message'') in
      (case code of VStr s \<Rightarrow> if visitor_code s then s else js (code_name INTERNAL) | _ \<Rightarrow> js (code_name INTERNAL),
       case message of VStr s \<Rightarrow> if js_trim s \<noteq> [] then take 1000 s else [] | _ \<Rightarrow> []))"

text \<open>The outcome a page's result comes to, with the store after the receipt was checked.\<close>

definition result_outcome ::
  "crypto \<Rightarrow> (jsstring \<Rightarrow> jsstring option) \<Rightarrow> memory expectations \<Rightarrow> fields \<Rightarrow> bool \<Rightarrow> memory \<Rightarrow> command_outcome \<times> memory" where
  "result_outcome C url_origin ex r ok m =
     (if ok then
        if \<not> jhas r (js ''data'') then (unverified None, m)
        else (case checkReceipt C url_origin (jget r (js ''receipt''))
                (ex\<lparr>ex_data := Some (jget r (js ''data'')), ex_requireSuccess := True\<rparr>) m of
            (vd, m1) \<Rightarrow> ((case (vd_ok vd, vd_receipt vd) of
                 (True, Some rc) \<Rightarrow> OutcomeOk (jget r (js ''data'')) rc | _ \<Rightarrow> unverified (Some vd)), m1))
      else
        (case visitorError (jget r (js ''error'')) of
           (code, message) \<Rightarrow>
             if nullish (jget r (js ''receipt'')) then (OutcomeError code message None None, m)
             else (case checkReceipt C url_origin (jget r (js ''receipt'')) (ex\<lparr>ex_requireSuccess := False\<rparr>) m of
                 (vd, m1) \<Rightarrow> ((case (vd_ok vd, vd_receipt vd) of
                      (True, Some rc) \<Rightarrow> OutcomeError code message (Some rc) None | _ \<Rightarrow> unverified (Some vd)), m1))))"

definition result_handler ::
  "crypto \<Rightarrow> (jsstring \<Rightarrow> jsstring option) \<Rightarrow> channel \<Rightarrow> secret \<Rightarrow> int \<Rightarrow> jsstring \<Rightarrow> jsval \<Rightarrow> memory \<Rightarrow> ending \<times> memory" where
  "result_handler C url_origin ctx secret now u raw m =
     (case res_bind (req (obj_of raw) badRequest) (\<lambda>r.
           res_bind (req (str_of (jget r (js ''id''))) badRequest) (\<lambda>i.
           res_bind (guard (i \<noteq> [] \<and> length i \<le> 64) badRequest) (\<lambda>_.
           res_bind (req (bool_of (jget r (js ''ok''))) badRequest) (\<lambda>ok. Inr (r, i, ok))))) of
        Inl e \<Rightarrow> (Throw e, m)
      | Inr (r, i, ok) \<Rightarrow>
          (case pending now i m of
             (None, m1) \<Rightarrow> (Respond (failure 404 BAD_REQUEST), m1)
           | (Some p, m1) \<Rightarrow>
               if pd_user p \<noteq> u then (Respond (failure 404 BAD_REQUEST), m1)
               else (case result_outcome C url_origin (expectationsFor ctx secret now p u) r ok m1 of
                   (out, m2) \<Rightarrow> (Respond noContent, snd (resolve now (pd_id p) out m2)))))"

subsection \<open>Run\<close>

definition run_timeout :: "jsval \<Rightarrow> bridge_error + int" where
  "run_timeout v =
     (if nullish v then Inr DEFAULT_CALL_TIMEOUT_MS
      else case v of
        VNum n \<Rightarrow> if is_finite n then Inr (min MAX_CALL_TIMEOUT_MS (max MIN_CALL_TIMEOUT_MS (num_round n))) else Inl badRequest
      | _ \<Rightarrow> Inl badRequest)"

definition run_checks :: "channel \<Rightarrow> jsstring \<Rightarrow> jsval \<Rightarrow> bridge_error + contract_function \<times> fields \<times> int \<times> bool" where
  "run_checks ctx u raw =
     res_bind (req (obj_of raw) badRequest) (\<lambda>r.
     res_bind (req (str_of (jget r (js ''key''))) badRequest) (\<lambda>key.
     res_bind (guard (FUNCTION_KEY_PATTERN key) badRequest) (\<lambda>_.
     res_bind (req (functionOf ctx key) (err INPUT_INVALID)) (\<lambda>fn.
     res_bind (req (ch_modes ctx key) (err INPUT_INVALID)) (\<lambda>mode.
     res_bind (guard (mode \<noteq> Required) (err WRIT_REQUIRED)) (\<lambda>_.
     res_bind (checkInputs fn (jget r (js ''inputs''))) (\<lambda>inputs.
     res_bind (req (obj_of (or_else (jget r (js ''options'')) (VObj []))) badRequest) (\<lambda>options.
     res_bind (run_timeout (jget options (js ''timeout_ms''))) (\<lambda>timeoutMs.
     res_bind (req (bool_of (or_else (jget options (js ''dry_run'')) (VBool False))) badRequest) (\<lambda>dryRun.
     res_bind (guard (case ch_authorizeRun ctx of None \<Rightarrow> True | Some f \<Rightarrow> f u key inputs) (err NOT_GRANTED)) (\<lambda>_.
     Inr (fn, inputs, timeoutMs, dryRun))))))))))))"

definition inFlight :: "(jsstring \<rightharpoonup> nat) \<Rightarrow> jsstring \<Rightarrow> nat" where
  "inFlight runs u = (case runs u of None \<Rightarrow> 0 | Some n \<Rightarrow> n)"

definition run_handler :: "channel \<Rightarrow> jsstring \<Rightarrow> jsval \<Rightarrow> server \<Rightarrow> ending \<times> server" where
  "run_handler ctx u raw sv =
     (case run_checks ctx u raw of
        Inl e \<Rightarrow> (Throw e, sv)
      | Inr (fn, inputs, timeoutMs, dryRun) \<Rightarrow>
          let n = inFlight (sv_pageRuns sv) u in
          if n \<ge> MAX_PAGE_RUNS_PER_USER then (Throw (err RATE_LIMITED), sv)
          else (StartRun u fn inputs timeoutMs dryRun, sv\<lparr>sv_pageRuns := (sv_pageRuns sv)(u \<mapsto> Suc n)\<rparr>))"

text \<open>An error as the page sees it: an unexpected one is not echoed.\<close>

definition error_response :: "bridge_error \<Rightarrow> response" where
  "error_response e =
     (if err_code e \<noteq> INTERNAL then failure (httpStatusOf (err_code e)) (err_code e) else failure 500 INTERNAL)"

definition finish_run :: "jsstring \<Rightarrow> bridge_error + jsval \<Rightarrow> server \<Rightarrow> response \<times> server" where
  "finish_run u r sv =
     (let left = (case sv_pageRuns sv u of None \<Rightarrow> 1 | Some n \<Rightarrow> n) - 1 in
      (case r of Inl e \<Rightarrow> error_response e | Inr v \<Rightarrow> \<lparr>rs_status = 200, rs_body = DataBody v\<rparr>,
       sv\<lparr>sv_pageRuns := (sv_pageRuns sv)(u := if left = 0 then None else Some left)\<rparr>))"

subsection \<open>The request body\<close>

fun read_chunks :: "int \<Rightarrow> bytes list \<Rightarrow> int \<Rightarrow> bytes \<Rightarrow> bytes option" where
  "read_chunks limit [] got acc = Some acc"
| "read_chunks limit (c # cs) got acc =
     (let got' = got + int (length c) in if got' > limit then None else read_chunks limit cs got' (acc @ c))"

definition readBody :: "request \<Rightarrow> int \<Rightarrow> jsstring option" where
  "readBody rq limit =
     (if (case rq_content_length rq of None \<Rightarrow> False | Some n \<Rightarrow> n > limit) then None
      else (case rq_chunks rq of None \<Rightarrow> Some [] | Some cs \<Rightarrow> map_option from_utf8 (read_chunks limit cs 0 [])))"

definition parseObject :: "jsstring \<Rightarrow> bridge_error + fields" where
  "parseObject text = res_bind (req (json_parse text) badRequest) (\<lambda>v. req (obj_of v) badRequest)"

definition on_store :: "ending \<times> memory \<Rightarrow> server \<Rightarrow> ending \<times> server" where
  "on_store r sv = (fst r, sv\<lparr>sv_store := snd r\<rparr>)"

definition post :: "crypto \<Rightarrow> (jsstring \<Rightarrow> jsstring option) \<Rightarrow> channel \<Rightarrow> secret \<Rightarrow> request \<Rightarrow> jsstring \<Rightarrow> server \<Rightarrow> ending \<times> server" where
  "post C url_origin ctx secret rq u sv =
     (case readBody rq (ch_maxBodyBytes ctx) of
        None \<Rightarrow> (BodyTooLarge, sv)
      | Some text \<Rightarrow>
          (case parseObject text of
             Inl e \<Rightarrow> (Throw e, sv)
           | Inr body \<Rightarrow>
               if length (filter (\<lambda>name. jget body name \<noteq> VUndef) [js ''hello'', js ''result'', js ''run'']) \<noteq> 1
               then (Throw badRequest, sv)
               else if jget body (js ''hello'') \<noteq> VUndef
               then on_store (hello ctx (rq_now rq) u (jget body (js ''hello'')) (sv_store sv)) sv
               else if jget body (js ''result'') \<noteq> VUndef
               then on_store (result_handler C url_origin ctx secret (rq_now rq) u (jget body (js ''result'')) (sv_store sv)) sv
               else run_handler ctx u (jget body (js ''run'')) sv))"

text \<open>One request: an answer, or a run on Writ Cloud that is under way.\<close>

definition settle_ending :: "ending \<Rightarrow> response + (jsstring \<times> contract_function \<times> fields \<times> int \<times> bool)" where
  "settle_ending e =
     (case e of
        Respond r \<Rightarrow> Inl r
      | Throw e' \<Rightarrow> Inl (error_response e')
      | BodyTooLarge \<Rightarrow> Inl (failure 413 BAD_REQUEST)
      | StartRun u fn inputs timeoutMs dryRun \<Rightarrow> Inr (u, fn, inputs, timeoutMs, dryRun))"

definition handleChannel ::
  "crypto \<Rightarrow> (jsstring \<Rightarrow> jsstring option) \<Rightarrow> channel \<Rightarrow> request \<Rightarrow> server \<Rightarrow>
     (response + (jsstring \<times> contract_function \<times> fields \<times> int \<times> bool)) \<times> server" where
  "handleChannel C url_origin ctx rq sv =
     (if js_upper (rq_method rq) \<noteq> js ''GET'' \<and> js_upper (rq_method rq) \<noteq> js ''POST'' then (Inl (failure 405 BAD_REQUEST), sv)
      else (case ch_secret ctx of
          None \<Rightarrow> (Inl (failure 503 CONFIG_INVALID), sv)
        | Some secret \<Rightarrow>
            (case authenticate C secret (rq_authorization rq) (rq_now rq) of
               None \<Rightarrow> (Inl (failure 401 NOT_GRANTED), sv)
             | Some u \<Rightarrow>
                 map_prod settle_ending id
                   (if js_upper (rq_method rq) = js ''GET'' then on_store (poll ctx rq u (sv_store sv)) sv
                    else post C url_origin ctx secret rq u sv))))"

subsection \<open>Serving many requests\<close>

text \<open>
  The bridge as a state machine: the server state and the users of the runs under way on Writ Cloud.
  A request is served, or a run ends (with data or an error).
\<close>

inductive channel_step ::
  "crypto \<Rightarrow> (jsstring \<Rightarrow> jsstring option) \<Rightarrow> channel \<Rightarrow> server \<times> jsstring list \<Rightarrow> server \<times> jsstring list \<Rightarrow> bool"
  for C url_origin ctx where
  Answered: "handleChannel C url_origin ctx rq sv = (Inl r, sv') \<Longrightarrow>
     channel_step C url_origin ctx (sv, running) (sv', running)"
| Started: "handleChannel C url_origin ctx rq sv = (Inr (u, fn, inputs, timeoutMs, dryRun), sv') \<Longrightarrow>
     channel_step C url_origin ctx (sv, running) (sv', u # running)"
| Finished: "u \<in> set running \<Longrightarrow> finish_run u r sv = (resp, sv') \<Longrightarrow>
     channel_step C url_origin ctx (sv, running) (sv', remove1 u running)"

inductive_cases channel_stepE: "channel_step C url_origin ctx (sv, running) st"

inductive channel_reach :: "crypto \<Rightarrow> (jsstring \<Rightarrow> jsstring option) \<Rightarrow> channel \<Rightarrow> memory \<Rightarrow> server \<times> jsstring list \<Rightarrow> bool"
  for C url_origin ctx m where
  Initially: "channel_reach C url_origin ctx m (\<lparr>sv_store = m, sv_pageRuns = Map.empty\<rparr>, [])"
| Next: "channel_reach C url_origin ctx m st \<Longrightarrow> channel_step C url_origin ctx st st' \<Longrightarrow> channel_reach C url_origin ctx m st'"

subsection \<open>Lemmas\<close>

lemma on_store_simps [simp]: "fst (on_store r sv) = fst r" "sv_pageRuns (snd (on_store r sv)) = sv_pageRuns sv"
  "sv_store (snd (on_store r sv)) = snd r"
  by (simp_all add: on_store_def)

definition starts_run :: "ending \<Rightarrow> bool" where
  "starts_run e \<longleftrightarrow> (\<exists>u fn inputs timeoutMs dryRun. e = StartRun u fn inputs timeoutMs dryRun)"

lemma not_StartRun:
  "\<not> starts_run (fst (poll ctx rq u m))"
  "\<not> starts_run (fst (hello ctx now u raw m))"
  "\<not> starts_run (fst (result_handler C url_origin ctx secret now u raw m))"
  by (auto simp: starts_run_def poll_def hello_def result_handler_def split: sum.splits prod.splits option.splits)

lemma settle_Inr: "settle_ending e = Inr (u, fn, inputs, t, d) \<longleftrightarrow> e = StartRun u fn inputs t d"
  by (cases e) (auto simp: settle_ending_def)

lemma settle_Inl: "settle_ending e = Inl r \<Longrightarrow> \<not> starts_run e"
  by (cases e) (auto simp: settle_ending_def starts_run_def)

text \<open>How an ending bears on the count of runs: a run is started within the limit and counted, or the
  counts are untouched.\<close>

definition counted :: "channel \<Rightarrow> jsstring \<Rightarrow> server \<Rightarrow> ending \<times> server \<Rightarrow> bool" where
  "counted ctx u sv r \<longleftrightarrow>
     (\<not> starts_run (fst r) \<and> sv_pageRuns (snd r) = sv_pageRuns sv) \<or>
     (\<exists>raw fn inputs t d. fst r = StartRun u fn inputs t d \<and> run_checks ctx u raw = Inr (fn, inputs, t, d) \<and>
        inFlight (sv_pageRuns sv) u < MAX_PAGE_RUNS_PER_USER \<and> sv_store (snd r) = sv_store sv \<and>
        sv_pageRuns (snd r) = (sv_pageRuns sv)(u \<mapsto> Suc (inFlight (sv_pageRuns sv) u)))"

lemma counted_refused [intro]: "\<not> starts_run e \<Longrightarrow> counted ctx u sv (e, sv)"
  by (simp add: counted_def)

lemma counted_on_store [intro]: "\<not> starts_run (fst r) \<Longrightarrow> counted ctx u sv (on_store r sv)"
  by (simp add: counted_def)

lemma counted_run [intro]: "counted ctx u sv (run_handler ctx u raw sv)"
proof (cases "run_checks ctx u raw")
  case (Inl e)
  then show ?thesis by (simp add: run_handler_def counted_def starts_run_def)
next
  case (Inr x)
  obtain fn inputs t d where "x = (fn, inputs, t, d)" by (cases x)
  with Inr show ?thesis
    unfolding run_handler_def counted_def by (auto simp: starts_run_def Let_def)
qed

lemma counted_if: "(b \<Longrightarrow> counted ctx u sv x) \<Longrightarrow> (\<not> b \<Longrightarrow> counted ctx u sv y) \<Longrightarrow> counted ctx u sv (if b then x else y)"
  by simp

lemma counted_post: "counted ctx u sv (post C url_origin ctx secret rq u sv)"
proof -
  have t: "\<not> starts_run (Throw e)" "\<not> starts_run BodyTooLarge" for e by (simp_all add: starts_run_def)
  show ?thesis
  proof (cases "readBody rq (ch_maxBodyBytes ctx)")
    case None
    then show ?thesis by (simp add: post_def counted_refused t)
  next
    case (Some body)
    show ?thesis
      unfolding post_def Some option.case
      by (cases "parseObject body"; simp only: sum.case)
        ((intro counted_if counted_refused counted_on_store counted_run t not_StartRun)+)
  qed
qed

lemma handleChannel_cases:
  assumes "handleChannel C url_origin ctx rq sv = (x, sv')"
  shows "(isl x \<and> sv_pageRuns sv' = sv_pageRuns sv) \<or>
    (\<exists>u raw fn inputs t d. x = Inr (u, fn, inputs, t, d) \<and> run_checks ctx u raw = Inr (fn, inputs, t, d) \<and>
       inFlight (sv_pageRuns sv) u < MAX_PAGE_RUNS_PER_USER \<and> sv_store sv' = sv_store sv \<and>
       sv_pageRuns sv' = (sv_pageRuns sv)(u \<mapsto> Suc (inFlight (sv_pageRuns sv) u)))"
proof -
  have "isl (settle_ending e)" if "\<not> starts_run e" for e
    using that by (cases e) (auto simp: settle_ending_def starts_run_def)
  then have c: ?thesis if "counted ctx u sv r" "(settle_ending (fst r), snd r) = (x, sv')" for u r
    using that unfolding counted_def by (fastforce simp: settle_ending_def)
  consider "isl x" "sv' = sv" | secret u where "map_prod settle_ending id
      (if js_upper (rq_method rq) = js ''GET'' then on_store (poll ctx rq u (sv_store sv)) sv
       else post C url_origin ctx secret rq u sv) = (x, sv')"
    using assms unfolding handleChannel_def by (auto split: if_splits option.splits)
  then show ?thesis
  proof cases
    case 2
    then show ?thesis
      using c [OF counted_on_store [OF not_StartRun(1)]] c [OF counted_post]
      by (auto simp: map_prod_def split_beta split: if_splits)
  qed simp
qed

definition runs_ok :: "server \<times> jsstring list \<Rightarrow> bool" where
  "runs_ok st \<longleftrightarrow> (\<forall>u. inFlight (sv_pageRuns (fst st)) u = count_list (snd st) u \<and>
     count_list (snd st) u \<le> MAX_PAGE_RUNS_PER_USER \<and> sv_pageRuns (fst st) u \<noteq> Some 0)"

lemma count_list_remove1: "count_list (remove1 x xs) y = (if x = y then count_list xs y - 1 else count_list xs y)"
  by (induction xs) (auto simp: count_list_0_iff)

lemma inFlight_finish: "sv_pageRuns sv w \<noteq> Some 0 \<Longrightarrow>
    inFlight (sv_pageRuns (snd (finish_run u r sv))) w =
      (if w = u then inFlight (sv_pageRuns sv) w - 1 else inFlight (sv_pageRuns sv) w)"
  by (auto simp: finish_run_def inFlight_def Let_def split: option.splits)

lemma channel_step_runs: "channel_step C url_origin ctx st st' \<Longrightarrow> runs_ok st \<Longrightarrow> runs_ok st'"
proof (induction rule: channel_step.induct)
  case (Answered rq sv r sv' running)
  then show ?case using handleChannel_cases [OF Answered(1)] by (auto simp: runs_ok_def)
next
  case (Started rq sv u fn inputs timeoutMs dryRun sv' running)
  then have *: "inFlight (sv_pageRuns sv) u < MAX_PAGE_RUNS_PER_USER"
      "sv_pageRuns sv' = (sv_pageRuns sv)(u \<mapsto> Suc (inFlight (sv_pageRuns sv) u))"
    using handleChannel_cases [OF Started(1)] by auto
  have "inFlight (sv_pageRuns sv') w = count_list (u # running) w \<and>
     count_list (u # running) w \<le> MAX_PAGE_RUNS_PER_USER \<and> sv_pageRuns sv' w \<noteq> Some 0" for w
  proof -
    have "inFlight (sv_pageRuns sv) v = count_list running v" for v using Started(2) by (simp add: runs_ok_def)
    moreover have "count_list running w \<le> MAX_PAGE_RUNS_PER_USER" "sv_pageRuns sv w \<noteq> Some 0"
      using Started(2) by (simp_all add: runs_ok_def)
    ultimately show ?thesis using * by (cases "w = u") (simp_all add: inFlight_def)
  qed
  then show ?case by (simp add: runs_ok_def)
next
  case (Finished u running r sv resp sv')
  have sv': "sv' = snd (finish_run u r sv)" using Finished(2) by simp
  have "sv_pageRuns sv' w \<noteq> Some 0" for w
    using Finished(3) by (auto simp: sv' finish_run_def runs_ok_def Let_def split: if_splits)
  moreover have "inFlight (sv_pageRuns sv') w = count_list (remove1 u running) w" for w
    using Finished(3) by (auto simp: sv' inFlight_finish runs_ok_def count_list_remove1)
  moreover have "count_list (remove1 u running) w \<le> MAX_PAGE_RUNS_PER_USER" for w
    using Finished(3) unfolding runs_ok_def count_list_remove1 by (auto intro: le_trans [OF diff_le_self])
  ultimately show ?case by (simp add: runs_ok_def)
qed

lemma channel_reach_runs: "channel_reach C url_origin ctx m st \<Longrightarrow> runs_ok st"
proof (induction rule: channel_reach.induct)
  case Initially
  show ?case by (simp add: runs_ok_def inFlight_def)
next
  case (Next st st')
  then show ?case by (blast intro: channel_step_runs)
qed

subsection \<open>What a result does to the store\<close>

lemma expectationsFor_at_time: "mem_checks.at_time now (expectationsFor ctx secret now p u)"
  by (simp add: mem_checks.at_time_def expectationsFor_def)

lemma spendNonce_results:
  "spendNonce t n ttl m = (b, m') \<Longrightarrow> results m' i = None \<or> results m' i = results m i"
  using sweep_results [of t m i] by (auto simp: spendNonce_def Let_def split: if_splits)

lemma checkDevice_results: "checkDevice s k f m = (r, m') \<Longrightarrow> results m' = results m"
  by (auto simp: checkDevice_def split: if_splits)

lemma devicePinned_results:
  "mem_checks.at_time t ex \<Longrightarrow> devicePinned ex u d m = (b, m') \<Longrightarrow> results m' = results m"
  using checkDevice_results
  by (auto simp: devicePinned_def mem_checks.at_time_def map_prod_def split: device_policy.splits prod.splits)

lemma checkReceipt_results:
  assumes "checkReceipt C url_origin v ex m = (vd, m')" "mem_checks.at_time t ex"
  shows "results m' i = None \<or> results m' i = results m i"
  using checkReceipt_state [OF assms(1)] devicePinned_results [OF assms(2)] spendNonce_results assms(2)
  by (metis (no_types, lifting) mem_checks.at_time_def)

lemma result_outcome_results:
  assumes "result_outcome C url_origin ex r ok m = (out, m')" "mem_checks.at_time t ex"
  shows "results m' i = None \<or> results m' i = results m i"
proof -
  have "mem_checks.at_time t (ex\<lparr>ex_data := d, ex_requireSuccess := q\<rparr>)" "mem_checks.at_time t (ex\<lparr>ex_requireSuccess := q\<rparr>)" for d q
    using assms(2) by (simp_all add: mem_checks.at_time_def)
  then show ?thesis
    using assms(1) checkReceipt_results [of C url_origin "jget r (js ''receipt'')" _ m _ m' t i]
    by (fastforce simp: result_outcome_def split: if_splits prod.splits)
qed

lemma result_outcome_Ok:
  assumes "result_outcome C url_origin ex r ok m = (OutcomeOk data rc, m')"
  shows "\<exists>vd. ok \<and> data = jget r (js ''data'') \<and> vd_receipt vd = Some rc \<and>
    checkReceipt C url_origin (jget r (js ''receipt'')) (ex\<lparr>ex_data := Some data, ex_requireSuccess := True\<rparr>) m = (vd, m') \<and> vd_ok vd"
proof -
  have u: "unverified x \<noteq> OutcomeOk data rc" for x by (simp add: unverified_def)
  show ?thesis
    using assms u by (auto simp: result_outcome_def split: if_splits prod.splits bool.splits option.splits)
qed

lemma result_handler_stored:
  assumes "result_handler C url_origin ctx secret now u raw m = (e, m')" "results m' i = Some (out, x)" "results m i \<noteq> Some (out, x)"
  obtains r j p y ok m2 where "raw = VObj r" "jget r (js ''id'') = VStr j" "pendings m j = Some (p, y)" "now < y"
    "pd_user p = u" "pd_id p = i" "result_outcome C url_origin (expectationsFor ctx secret now p u) r ok m = (out, m2)"
proof -
  have pend: "results m1 = results m" if "pending now j m = (q, m1)" for j q m1
    using that by (auto simp: pending_def split: option.splits if_splits)
  from assms obtain r j ok p m1 m2 out' where h: "raw = VObj r" "jget r (js ''id'') = VStr j" "pending now j m = (Some p, m1)"
      "pd_user p = u" "result_outcome C url_origin (expectationsFor ctx secret now p u) r ok m1 = (out', m2)"
      "m' = snd (resolve now (pd_id p) out' m2)"
    using pend unfolding result_handler_def
    by (auto simp: result_simps split: sum.splits prod.splits option.splits if_splits)
  have m1: "m1 = m" "\<exists>y. pendings m j = Some (p, y) \<and> now < y"
    using h(3) by (auto simp: pending_def split: option.splits if_splits)
  have "results m2 i = None \<or> results m2 i = results m i"
    using result_outcome_results [OF h(5) expectationsFor_at_time] m1 by simp
  then have "pd_id p = i" "out = out'"
    using assms(2,3) h(6) by (auto simp: resolve_def Let_def split: option.splits if_splits)
  then show ?thesis using that h m1 by blast
qed

lemma no_space_b64: "u \<in> set (toBase64Url bs) \<Longrightarrow> \<not> is_space u"
proof -
  assume u: "u \<in> set (toBase64Url bs)"
  have "BASE64URL (toBase64Url bs)"
    using fromBase64Url_toBase64Url [of bs] unfolding fromBase64Url_def by (auto split: if_splits)
  then show ?thesis using u
    by (auto simp: BASE64URL_def list_all_iff unit_class_defs word_le_nat_alt)
qed

lemma writ_header_token:
  assumes "tok \<noteq> []" "\<forall>u \<in> set tok. \<not> is_space u"
  shows "writ_header (js ''Writ '' @ tok) = Some tok"
proof -
  have w: "js ''Writ '' = [87, 114, 105, 116, 32]" by (simp add: js_def)
  have sp: "\<not> is_space 87" "is_space 32" by (simp_all add: is_space_def)
  have t: "dropWhile is_space tok = tok" using assms by (cases tok) auto
  have "takeWhile (\<lambda>u. \<not> is_space u) tok = tok" "dropWhile (\<lambda>u. \<not> is_space u) tok = []"
    using assms(2) by (auto simp: takeWhile_eq_all_conv)
  then show ?thesis
    using assms(1) sp by (simp add: writ_header_def w writ_word_def t Let_def del: takeWhile_eq_all_conv dropWhile_eq_Nil_conv)
qed

text \<open>What makes a stored success trustworthy, whatever command it is for: a genuine receipt of success for a
  challenge this server minted with the command's id as its nonce, and the hash of the very data.\<close>

definition verified_for :: "crypto \<Rightarrow> secret \<Rightarrow> jsstring \<Rightarrow> jsval \<Rightarrow> receipt \<Rightarrow> bool" where
  "verified_for C secret i data rc \<longleftrightarrow>
     rc_outcome rc = Success \<and> (\<exists>v d. verifyReceiptSignature C v = Inr (rc, d)) \<and>
     (\<exists>h. dataHash C data = Inr h \<and> rc_data_hash rc = Some h) \<and>
     (\<exists>ch t pl. rc_challenge rc = Some ch \<and> readChallenge C secret (VStr ch) t = Inr pl \<and> cp_nonce pl = i \<and> cp_key pl = rc_key rc)"

definition results_verified :: "crypto \<Rightarrow> secret \<Rightarrow> memory \<Rightarrow> bool" where
  "results_verified C secret m \<longleftrightarrow>
     (\<forall>i data rc x. results m i = Some (OutcomeOk data rc, x) \<longrightarrow> verified_for C secret i data rc)"

definition keeps :: "('s \<Rightarrow> bool) \<Rightarrow> ('s \<Rightarrow> 's) \<Rightarrow> bool" where
  "keeps P f \<longleftrightarrow> (\<forall>s. P s \<longrightarrow> P (f s))"

lemma results_verified_fewer:
  "results_verified C secret m \<Longrightarrow> (\<And>i. results m' i = None \<or> results m' i = results m i) \<Longrightarrow> results_verified C secret m'"
  unfolding results_verified_def by (metis option.distinct(1))

lemma sweep_verified: "results_verified C secret m \<Longrightarrow> results_verified C secret (sweep t m)"
  by (erule results_verified_fewer) (rule sweep_results)

lemma getPresence_results: "getPresence t u m = (p, m') \<Longrightarrow> results m' = results (sweep t m)"
  by (auto simp: getPresence_def Let_def split: option.splits if_splits)

lemma setPresence_results: "results (setPresence t u p ttl m) = results (sweep t m)"
  by (simp add: setPresence_def Let_def)

lemma takeNow_results: "takeNow t u mx m = (cs, m') \<Longrightarrow> results m' = results m"
  by (auto simp: takeNow_def Let_def split: option.splits)

lemma results_verified_eq: "results m' = results m \<Longrightarrow> results_verified C secret m' = results_verified C secret m"
  by (simp add: results_verified_def)

lemma touchPresence_verified:
  assumes "results_verified C secret m"
  shows "results_verified C secret (touchPresence t u m)"
proof -
  obtain p m1 where g: "getPresence t u m = (p, m1)" by (cases "getPresence t u m")
  have "results_verified C secret m1"
    using sweep_verified [OF assms] results_verified_eq [OF getPresence_results [OF g]] by simp
  then have "results_verified C secret (sweep t m1)" by (rule sweep_verified)
  then show ?thesis
    unfolding touchPresence_def g by (simp add: results_verified_eq [OF setPresence_results])
qed

lemma take_loop_step:
  "takeNow now u mx m = (ts, m1) \<Longrightarrow> take_loop u mx now wakes m =
     (if ts \<noteq> [] then (ts, m1) else (case wakes of [] \<Rightarrow> ([], m1) | (later, other) # ws \<Rightarrow> take_loop u mx later ws (other m1)))"
  by (subst take_loop.simps) simp

lemma take_loop_verified:
  "results_verified C secret m \<Longrightarrow> \<forall>w \<in> set wakes. keeps (results_verified C secret) (snd w) \<Longrightarrow>
     take_loop u mx now wakes m = (cs, m') \<Longrightarrow> results_verified C secret m'"
proof (induction wakes arbitrary: now m)
  case Nil
  obtain ts m1 where t: "takeNow now u mx m = (ts, m1)" by (cases "takeNow now u mx m")
  have "results_verified C secret m1"
    using Nil.prems(1) results_verified_eq [OF takeNow_results [OF t]] by simp
  then show ?case using Nil.prems(3) by (simp add: take_loop_step t split: if_splits)
next
  case (Cons w wakes)
  obtain later other where w: "w = (later, other)" by (cases w)
  obtain ts m1 where t: "takeNow now u mx m = (ts, m1)" by (cases "takeNow now u mx m")
  have v: "results_verified C secret m1"
    using Cons.prems(1) results_verified_eq [OF takeNow_results [OF t]] by simp
  then have o: "results_verified C secret (other m1)" using Cons.prems(2) by (simp add: keeps_def w)
  show ?case
  proof (cases "ts = []")
    case True
    then show ?thesis using Cons.prems(2,3) Cons.IH [OF o] by (simp add: take_loop_step w t)
  next
    case False
    then show ?thesis using Cons.prems(3) v by (simp add: take_loop_step w t)
  qed
qed

lemma poll_verified:
  assumes "results_verified C secret m" "\<forall>w \<in> set (rq_wakes rq). keeps (results_verified C secret) (snd w)"
  shows "results_verified C secret (snd (poll ctx rq u m))"
proof -
  obtain cs m1 where t: "take_commands (rq_now rq) u (Some MAX_COMMANDS_PER_POLL) (rq_wakes rq) (touchPresence (rq_now rq) u m) = (cs, m1)"
    by (cases "take_commands (rq_now rq) u (Some MAX_COMMANDS_PER_POLL) (rq_wakes rq) (touchPresence (rq_now rq) u m)")
  have m1: "results_verified C secret m1"
    using t take_loop_verified [OF sweep_verified [OF touchPresence_verified [OF assms(1)]] assms(2)]
    by (simp add: take_commands_def)
  have "results_verified C secret (requeue n u cs m1)" for n
    using m1 results_verified_eq [of "requeue n u cs m1" m1 C secret] by (simp add: requeue_def Let_def)
  then show ?thesis
    using assms(1) t m1 unfolding poll_def by (cases "waitSeconds ctx (rq_wait rq)") simp_all
qed

lemma hello_verified:
  assumes "results_verified C secret m"
  shows "results_verified C secret (snd (hello ctx now u raw m))"
proof -
  obtain p m1 where g: "getPresence now u m = (p, m1)" by (cases "getPresence now u m")
  have "results_verified C secret m1"
    using sweep_verified [OF assms] results_verified_eq [OF getPresence_results [OF g]] by simp
  then have "results_verified C secret (sweep now m1)" by (rule sweep_verified)
  then have "results_verified C secret (setPresence now u q ttl m1)" for q ttl
    by (simp add: results_verified_eq [OF setPresence_results])
  then show ?thesis
    unfolding hello_def using assms g by (simp split: sum.split prod.split)
qed

lemma result_handler_verified:
  assumes "results_verified C secret m" "result_handler C url_origin ctx secret now u raw m = (e, m')"
  shows "results_verified C secret m'"
  unfolding results_verified_def
proof (intro allI impI)
  fix i data rc x assume r: "results m' i = Some (OutcomeOk data rc, x)"
  show "verified_for C secret i data rc"
  proof (cases "results m i = Some (OutcomeOk data rc, x)")
    case True
    then show ?thesis using assms(1) by (simp add: results_verified_def)
  next
    case False
    obtain r j p y ok m2 where h: "pd_id p = i"
        "result_outcome C url_origin (expectationsFor ctx secret now p u) r ok m = (OutcomeOk data rc, m2)"
      using result_handler_stored [OF assms(2) r False] .
    obtain vd where vd: "vd_receipt vd = Some rc" "checkReceipt C url_origin (jget r (js ''receipt''))
        ((expectationsFor ctx secret now p u)\<lparr>ex_data := Some data, ex_requireSuccess := True\<rparr>) m = (vd, m2) \<and> vd_ok vd"
      using result_outcome_Ok [OF h(2)] by blast
    then obtain d pl where "verifyReceiptSignature C (jget r (js ''receipt'')) = Inr (rc, d)"
        "binding_checks C url_origin rc ((expectationsFor ctx secret now p u)\<lparr>ex_data := Some data, ex_requireSuccess := True\<rparr>) = Inr pl"
        "content_ok C rc ((expectationsFor ctx secret now p u)\<lparr>ex_data := Some data, ex_requireSuccess := True\<rparr>)"
      unfolding checkReceipt_ok by auto
    then show ?thesis
      using h(1) by (auto simp: verified_for_def binding_checks_Inr content_ok_def expectationsFor_def expected_def)
  qed
qed

subsection \<open>Properties\<close>

text \<open>C9: at most \<open>MAX_PAGE_RUNS_PER_USER\<close> runs of a user are under way on Writ Cloud at any time: in every
  reachable state of the page channel, whatever requests were served and runs ended in whatever order,
  the bridge's count of a user's runs is the number of their runs under way, within the limit.\<close>

theorem page_runs_bounded:
  assumes "channel_reach C url_origin ctx m (sv, running)"
  shows "inFlight (sv_pageRuns sv) u = count_list running u \<and> count_list running u \<le> MAX_PAGE_RUNS_PER_USER"
  using channel_reach_runs [OF assms] by (simp add: runs_ok_def)

text \<open>C1: the server code is never handed unverified data.  When serving a page's result leaves a
  successful outcome for command \<open>i\<close> that was not there before, the command was pending for the very
  user the page's token names, and the receipt is genuine, of success, for the command's function
  and challenge, and signs the hash of exactly the data handed over and the hash of the inputs sent.\<close>

theorem delivered_data_verified:
  assumes "result_handler C url_origin ctx secret now u raw m = (e, m')"
    and "results m' i = Some (OutcomeOk data rc, x)" "results m i \<noteq> Some (OutcomeOk data rc, x)"
  shows "\<exists>j p y v d. pendings m j = Some (p, y) \<and> now < y \<and> pd_id p = i \<and> pd_user p = u \<and>
    verifyReceiptSignature C v = Inr (rc, d) \<and> rc_key rc = pd_key p \<and> rc_challenge rc = Some (pd_challenge p) \<and>
    rc_outcome rc = Success \<and> (\<exists>h. dataHash C data = Inr h \<and> rc_data_hash rc = Some h) \<and>
    (pd_inputs_hash p = None \<or> rc_inputs_hash rc = pd_inputs_hash p)"
proof -
  obtain r j p y ok m2 where h: "pendings m j = Some (p, y)" "now < y" "pd_user p = u" "pd_id p = i"
      "result_outcome C url_origin (expectationsFor ctx secret now p u) r ok m = (OutcomeOk data rc, m2)"
    using result_handler_stored [OF assms] .
  obtain vd where vd: "vd_receipt vd = Some rc" "checkReceipt C url_origin (jget r (js ''receipt''))
      ((expectationsFor ctx secret now p u)\<lparr>ex_data := Some data, ex_requireSuccess := True\<rparr>) m = (vd, m2) \<and> vd_ok vd"
    using result_outcome_Ok [OF h(5)] by blast
  let ?ex = "(expectationsFor ctx secret now p u)\<lparr>ex_data := Some data, ex_requireSuccess := True\<rparr>"
  obtain d pl where "verifyReceiptSignature C (jget r (js ''receipt'')) = Inr (rc, d)"
      "binding_checks C url_origin rc ?ex = Inr pl" "content_ok C rc ?ex"
    using vd unfolding checkReceipt_ok by auto
  then show ?thesis
    using h by (intro exI [of _ j] exI [of _ p] exI [of _ y] exI [of _ "jget r (js ''receipt'')"] exI [of _ d])
      (cases "pd_inputs_hash p"; auto simp: binding_checks_Inr content_ok_def expectationsFor_def)
qed

text \<open>A page cannot answer for another user's command: a result naming a command that is pending
  for someone else is refused with 404 and leaves the store as it was.\<close>

theorem foreign_result_refused:
  assumes "pendings m i = Some (p, x)" "now < x" "pd_user p \<noteq> u"
    and "jget r (js ''id'') = VStr i" "i \<noteq> []" "length i \<le> 64" "jget r (js ''ok'') = VBool ok"
  shows "result_handler C url_origin ctx secret now u (VObj r) m = (Respond (failure 404 BAD_REQUEST), m)"
  using assms by (simp add: result_handler_def pending_def)

text \<open>C8: without a valid user token nothing happens.  If serving a request changed anything the bridge
  holds, or started a run on Writ Cloud, then the bridge has a secret and the request's
  \<open>Authorization\<close> header carried a token that this secret verifies, not expired; and a run is started
  for the user that token names, a function whose mode is not \<open>required\<close>, with inputs that pass the
  contract's checks and that \<open>authorizeRun\<close> let through.\<close>

theorem changes_need_a_token:
  assumes "handleChannel C url_origin ctx rq sv = (x, sv')" "sv' \<noteq> sv \<or> x = Inr (w, fn, inputs, t, d)"
  shows "\<exists>secret h tok p. ch_secret ctx = Some secret \<and> rq_authorization rq = Some h \<and> writ_header h = Some tok \<and>
     readUserToken C secret (VStr tok) (rq_now rq div 1000) = Some p \<and>
     (x = Inr (w, fn, inputs, t, d) \<longrightarrow> w = up_sub p \<and> fn \<in> set (ch_functions ctx) \<and>
        (\<exists>mode. ch_modes ctx (cf_key fn) = Some mode \<and> mode \<noteq> Required) \<and>
        (\<exists>v. checkInputs fn v = Inr inputs) \<and>
        (\<forall>f. ch_authorizeRun ctx = Some f \<longrightarrow> f w (cf_key fn) inputs))"
proof -
  from assms obtain secret u where h: "ch_secret ctx = Some secret"
      "authenticate C secret (rq_authorization rq) (rq_now rq) = Some u"
      "map_prod settle_ending id (if js_upper (rq_method rq) = js ''GET'' then on_store (poll ctx rq u (sv_store sv)) sv
         else post C url_origin ctx secret rq u sv) = (x, sv')"
    unfolding handleChannel_def by (auto split: if_splits option.splits)
  obtain hd tok p where p: "rq_authorization rq = Some hd" "writ_header hd = Some tok"
      "readUserToken C secret (VStr tok) (rq_now rq div 1000) = Some p" "u = up_sub p"
    using h(2) by (auto simp: authenticate_def split: option.splits)
  have run: "w = u \<and> (\<exists>raw. run_checks ctx u raw = Inr (fn, inputs, t, d))" if x: "x = Inr (w, fn, inputs, t, d)"
  proof -
    from h(3) x consider "settle_ending (fst (on_store (poll ctx rq u (sv_store sv)) sv)) = Inr (w, fn, inputs, t, d)"
      | "settle_ending (fst (post C url_origin ctx secret rq u sv)) = Inr (w, fn, inputs, t, d)"
      by (auto simp: map_prod_def split_beta split: if_splits)
    then show ?thesis
    proof cases
      case 1
      then show ?thesis using not_StartRun(1) [of ctx rq u "sv_store sv"] by (simp add: settle_Inr starts_run_def)
    next
      case 2
      then show ?thesis using counted_post [of ctx u sv C url_origin secret rq]
        by (auto simp: settle_Inr counted_def starts_run_def)
    qed
  qed
  have checks: "fn \<in> set (ch_functions ctx) \<and> (\<exists>mode. ch_modes ctx (cf_key fn) = Some mode \<and> mode \<noteq> Required) \<and>
        (\<exists>v. checkInputs fn v = Inr inputs) \<and> (\<forall>f. ch_authorizeRun ctx = Some f \<longrightarrow> f u (cf_key fn) inputs)"
    if "run_checks ctx u raw = Inr (fn, inputs, t, d)" for raw
  proof -
    from that obtain key mode v where k: "functionOf ctx key = Some fn" "ch_modes ctx key = Some mode" "mode \<noteq> Required"
        "checkInputs fn v = Inr inputs" "case ch_authorizeRun ctx of None \<Rightarrow> True | Some f \<Rightarrow> f u key inputs"
      unfolding run_checks_def res_bind_eq_Inr req_eq guard_eq by (elim exE conjE) (auto split: option.splits)
    have "fn \<in> set (ch_functions ctx)" "cf_key fn = key"
      using k(1) by (auto simp: functionOf_def find_Some_iff)
    then show ?thesis using k by auto
  qed
  show ?thesis
  proof (rule exI [of _ secret], rule exI [of _ hd], rule exI [of _ tok], rule exI [of _ p], intro conjI impI)
    assume "x = Inr (w, fn, inputs, t, d)"
    then obtain raw where "w = u" "run_checks ctx u raw = Inr (fn, inputs, t, d)" using run by blast
    with checks [OF this(2)] p(4) show "w = up_sub p" "fn \<in> set (ch_functions ctx)"
      "\<exists>mode. ch_modes ctx (cf_key fn) = Some mode \<and> mode \<noteq> Required" "\<exists>v. checkInputs fn v = Inr inputs"
      "\<forall>f. ch_authorizeRun ctx = Some f \<longrightarrow> f w (cf_key fn) inputs" by blast+
  qed (use h(1) p in simp_all)
qed

lemma takeNow_length: "takeNow now u mx m = (cs, m') \<Longrightarrow> length cs \<le> max 1 mx"
  by (auto simp: takeNow_def Let_def split: option.splits)

lemma take_loop_length: "take_loop u mx now wakes m = (cs, m') \<Longrightarrow> length cs \<le> max 1 mx"
proof (induction wakes arbitrary: now m)
  case Nil
  then show ?case
    by (subst (asm) take_loop.simps) (auto split: prod.splits if_splits dest: takeNow_length)
next
  case (Cons w wakes)
  show ?case using Cons.prems
    by (subst (asm) take_loop.simps) (auto split: prod.splits if_splits dest: takeNow_length Cons.IH)
qed

text \<open>What a poll hands to the page: at most \<open>MAX_COMMANDS_PER_POLL\<close> commands, none of them expired
  when it answers, and none at all once the page has gone away.\<close>

theorem poll_hands_over:
  assumes "poll ctx rq u m = (Respond rs, m')" "rs_body rs = CommandsBody cs"
  shows "length cs \<le> MAX_COMMANDS_PER_POLL \<and> (\<forall>c \<in> set cs. rq_now_after rq div 1000 < cmd_expires_at c) \<and>
    (rq_aborted rq \<longrightarrow> cs = [])"
proof -
  obtain ts m1 where t: "take_commands (rq_now rq) u (Some MAX_COMMANDS_PER_POLL) (rq_wakes rq)
      (touchPresence (rq_now rq) u m) = (ts, m1)" by (cases rule: prod.exhaust)
  have "length ts \<le> MAX_COMMANDS_PER_POLL"
    using take_loop_length t by (fastforce simp: take_commands_def MAX_COMMANDS_PER_POLL_def)
  then have "length (filter (\<lambda>c. cmd_expires_at c > rq_now_after rq div 1000) ts) \<le> MAX_COMMANDS_PER_POLL"
    using length_filter_le order_trans by blast
  then show ?thesis
    using assms t by (auto simp: poll_def split: sum.splits if_splits)
qed

text \<open>C3: every request keeps the stored results verified: whatever a page sends, and whatever other requests do
  during a poll's wait as long as they keep it too, the successful outcomes the store holds stay backed by
  genuine receipts for the commands they answer.\<close>

theorem channel_keeps_results_verified:
  assumes "handleChannel C url_origin ctx rq sv = (x, sv')" "ch_secret ctx = Some secret"
    and "results_verified C secret (sv_store sv)" "\<forall>w \<in> set (rq_wakes rq). keeps (results_verified C secret) (snd w)"
  shows "results_verified C secret (sv_store sv')"
proof -
  have post: "results_verified C secret (sv_store (snd (post C url_origin ctx secret rq u sv)))" for u
  proof (cases "readBody rq (ch_maxBodyBytes ctx)")
    case None
    then show ?thesis using assms(3) by (simp add: post_def)
  next
    case (Some body)
    have r: "results_verified C secret (snd (result_handler C url_origin ctx secret now u raw (sv_store sv)))" for now raw
      using result_handler_verified [OF assms(3)] by (metis prod.collapse)
    have h: "results_verified C secret (snd (hello ctx now u raw (sv_store sv)))" for now raw
      by (rule hello_verified [OF assms(3)])
    have n: "sv_store (snd (run_handler ctx u raw sv)) = sv_store sv" for raw
      by (auto simp: run_handler_def Let_def split: sum.splits prod.splits)
    show ?thesis
      using assms(3) r h n unfolding post_def Some option.case
      by (cases "parseObject body") (simp_all only: sum.case on_store_simps snd_conv if_distrib [of snd] if_distrib [of sv_store] if_distrib [of "results_verified C secret"] split: if_split, simp_all)
  qed
  consider "sv' = sv" | u where "sv' = snd (on_store (poll ctx rq u (sv_store sv)) sv)" | u where "sv' = snd (post C url_origin ctx secret rq u sv)"
    using assms(1,2) unfolding handleChannel_def by (auto simp: map_prod_def split_beta split: if_splits option.splits)
  then show ?thesis
    by cases (use assms(3) poll_verified [OF assms(3,4)] post in auto)
qed

end
