(* ===== verification/Samples.thy ===== *)
theory Samples
  imports Page_Channel
begin

section \<open>A worked call\<close>

text \<open>
  One call from end to end, with concrete values: a challenge, the command that carries it, a
  receipt that answers it, and the store and expectations they meet.  The cryptographic primitives
  are stand-ins that are functions of all their arguments.  The witnesses of the receipt, store and
  channel properties are instances of it.
\<close>

definition pad :: "nat \<Rightarrow> bytes \<Rightarrow> bytes" where
  "pad n m = take n (m @ replicate n 0)"

lemma length_pad [simp]: "length (pad n m) = n"
  by (simp add: pad_def)

definition sample_crypto :: crypto where
  "sample_crypto = \<lparr>hmac_sha256 = (\<lambda>k m. pad 32 (k @ m)), sha256 = (\<lambda>m. pad 32 m),
     ed25519_verify = (\<lambda>pk m s. s = pad 64 (pk @ m))\<rparr>"

definition sample_secret :: secret where
  "sample_secret = SecretBytes (replicate 32 7)"

definition sample_payload :: challenge_payload where
  "sample_payload = \<lparr>cp_sub = js ''alice'', cp_key = js ''pos.lookup'', cp_nonce = toBase64Url (replicate 16 0), cp_exp = 1000\<rparr>"

definition sample_challenge :: jsstring where
  "sample_challenge = challenge_token sample_crypto sample_secret sample_payload"

lemma sample_hmac: "hmac_32 sample_crypto"
  by (simp add: hmac_32_def sample_crypto_def)

lemma sample_subject: "subjectOf (VStr (js ''alice'')) = Some (js ''alice'')"
  by code_simp

lemma sample_nonce: "nonce_ok (toBase64Url (replicate 16 0))"
  unfolding nonce_ok_def by (intro exI [of _ "replicate 16 0"]) simp

lemma sample_key: "FUNCTION_KEY_PATTERN (js ''pos.lookup'')"
  by code_simp

lemma sample_challenge_ok:
  "length sample_challenge \<le> MAX_CHALLENGE_CHARS"
  "readChallenge sample_crypto sample_secret (VStr sample_challenge) now = (if now < 1000 then Inr sample_payload else Inl Expired)"
  using minted_challenge [of sample_crypto sample_payload sample_secret] sample_hmac sample_subject sample_nonce sample_key
  by (simp_all add: sample_challenge_def sample_payload_def MAX_SAFE_INTEGER_def)

lemma lower_hex_unit: "n < 16 \<Longrightarrow> lower_hex (hex_unit n)"
proof -
  assume "n < 16"
  then have "n \<in> set [0..<16]" by simp
  moreover have "\<forall>n \<in> set [0..<16]. lower_hex (hex_unit n)" by code_simp
  ultimately show ?thesis by blast
qed

lemma hex_bytes_lower: "list_all lower_hex (hex_bytes bs)" "length (hex_bytes bs) = 2 * length bs"
proof -
  have "unat (b :: byte) div 16 < 16" for b
  proof -
    have "unat b < 2 ^ LENGTH(8)" by (rule unsigned_less)
    then show ?thesis by simp
  qed
  then show "list_all lower_hex (hex_bytes bs)" by (auto simp: hex_bytes_def list_all_iff lower_hex_unit)
  show "length (hex_bytes bs) = 2 * length bs" by (induction bs) (simp_all add: hex_bytes_def)
qed

lemma hex_bytes_small: "u \<in> set (hex_bytes bs) \<Longrightarrow> unat u < 256"
  using hex_bytes_lower(1) [of bs]
  by (auto simp: list_all_iff lower_hex_def unit_class_defs word_le_nat_alt)

lemma sample_hash: "HEX64 (sha256Hex sample_crypto m)"
  using hex_bytes_lower by (simp add: HEX64_def sha256Hex_def sample_crypto_def)

subsection \<open>A receipt\<close>

definition sample_data :: jsval where
  "sample_data = VObj [(js ''total'', VNum (int_num 42))]"

definition sample_key_bytes :: bytes where
  "sample_key_bytes = replicate 32 9"

definition sample_data_hash :: jsstring where
  "sample_data_hash = sha256Hex sample_crypto (utf8 (canon sample_data))"

text \<open>A receipt for a challenge, signed by the device with public key \<open>pk\<close>.\<close>

definition sample_unsigned :: "bytes \<Rightarrow> jsstring \<Rightarrow> fields" where
  "sample_unsigned pk ch =
     [(js ''v'', VNum (int_num 1)), (js ''origin'', VStr (js ''https://app.example.com'')), (js ''key'', VStr (js ''pos.lookup'')),
      (js ''package'', VNull), (js ''function'', VNull), (js ''challenge'', VStr ch),
      (js ''outcome'', VStr (js ''success'')), (js ''error_code'', VNull), (js ''data_hash'', VStr sample_data_hash),
      (js ''run_id'', VNum (int_num 1)), (js ''started_at'', VNum (int_num 2)), (js ''finished_at'', VNum (int_num 3)),
      (js ''writ'', VObj [(js ''version'', VStr (js ''1.0.0''))]),
      (js ''device'', VObj [(js ''alg'', VStr (js ''Ed25519'')), (js ''kid'', VStr (kidOf sample_crypto pk)),
         (js ''public_key'', VStr (toBase64Url pk)), (js ''hardware'', VBool False)])]"

definition sample_raw :: "bytes \<Rightarrow> jsstring \<Rightarrow> fields" where
  "sample_raw pk ch = sample_unsigned pk ch @
     [(js ''sig'', VStr (toBase64Url (pad 64 (pk @ utf8 (canon (VObj (sample_unsigned pk ch)))))))]"

definition sample_device :: "bytes \<Rightarrow> device" where
  "sample_device pk = \<lparr>dv_kid = kidOf sample_crypto pk, dv_public_key = toBase64Url pk, dv_hardware = False\<rparr>"

definition sample_receipt :: "bytes \<Rightarrow> jsstring \<Rightarrow> receipt" where
  "sample_receipt pk ch =
     \<lparr>rc_raw = sample_raw pk ch, rc_origin = js ''https://app.example.com'', rc_key = js ''pos.lookup'', rc_package = None,
      rc_function = None, rc_challenge = Some ch, rc_inputs_hash = None, rc_outcome = Success, rc_error_code = None,
      rc_data_hash = Some sample_data_hash, rc_run_id = 1, rc_started_at = 2, rc_finished_at = 3,
      rc_version = js ''1.0.0'', rc_device = sample_device pk,
      rc_sig = toBase64Url (pad 64 (pk @ utf8 (canon (VObj (sample_unsigned pk ch)))))\<rparr>"

lemma sample_kid: "HEX16 (kidOf sample_crypto pk)"
  using hex_bytes_lower [of "pad 32 pk"]
  by (auto simp: HEX16_def kidOf_def sha256Hex_def sample_crypto_def list_all_iff dest: in_set_takeD)

lemma is_num_int [simp]: "is_num (VNum (int_num i)) j \<longleftrightarrow> i = j"
  by (simp add: is_num_def)

lemma safe_int_int [simp]: "\<bar>i\<bar> \<le> MAX_SAFE_INTEGER \<Longrightarrow> safe_int (VNum (int_num i)) = Some i"
  by (simp add: safe_int_def)

definition sample_signed :: "bytes \<Rightarrow> jsstring \<Rightarrow> bytes \<Rightarrow> receipt" where
  "sample_signed pk ch sg = (sample_receipt pk ch)
     \<lparr>rc_raw := sample_unsigned pk ch @ [(js ''sig'', VStr (toBase64Url sg))], rc_sig := toBase64Url sg\<rparr>"

lemma sample_parses_signed:
  assumes "length pk = 32" "length ch \<le> MAX_CHALLENGE_CHARS" "length sg = 64"
  shows "parseReceipt (VObj (sample_unsigned pk ch @ [(js ''sig'', VStr (toBase64Url sg))])) = Inr (sample_signed pk ch sg)"
proof -
  have d: "parseDevice (VObj [(js ''alg'', VStr (js ''Ed25519'')), (js ''kid'', VStr (kidOf sample_crypto pk)),
         (js ''public_key'', VStr (toBase64Url pk)), (js ''hardware'', VBool False)]) = Inr (sample_device pk)"
    using assms(1) sample_kid by (simp add: parseDevice_def sample_device_def)
  have h: "HEX64 sample_data_hash" by (simp add: sample_data_hash_def sample_hash)
  show ?thesis
    using assms h
    by (simp add: parseReceipt_def sample_unsigned_def sample_receipt_def sample_signed_def d inherited_js
        nullableString_def OUTCOMES_def MAX_SAFE_INTEGER_def del: canon.simps)
qed

lemma sample_parses:
  assumes "length pk = 32" "length ch \<le> MAX_CHALLENGE_CHARS"
  shows "parseReceipt (VObj (sample_raw pk ch)) = Inr (sample_receipt pk ch)"
  using sample_parses_signed [OF assms, of "pad 64 (pk @ utf8 (canon (VObj (sample_unsigned pk ch))))"]
  by (simp add: sample_raw_def sample_signed_def sample_receipt_def del: canon.simps)

lemma sample_distinct: "distinct (map fst (sample_unsigned pk ch @ [(js ''sig'', v)]))"
  by (simp add: sample_unsigned_def)

lemma unsigned_sample: "unsigned_part (sample_unsigned pk ch @ [(js ''sig'', v)]) = sample_unsigned pk ch"
  by (simp add: unsigned_part_def sample_unsigned_def)

lemma not_lone_b64 [simp]: "\<not> LONE_SURROGATE (toBase64Url bs)"
  by (rule LONE_SURROGATE_small) (rule toBase64Url_ascii)

lemma not_lone_hash [simp]: "\<not> LONE_SURROGATE (sha256Hex C m)" "\<not> LONE_SURROGATE (kidOf C pk)"
  by (rule LONE_SURROGATE_small; auto simp: sha256Hex_def kidOf_def dest!: in_set_takeD hex_bytes_small)+

lemma sample_verifies:
  assumes "length pk = 32" "length ch \<le> MAX_CHALLENGE_CHARS" "\<not> LONE_SURROGATE ch"
  shows "verifyReceiptSignature sample_crypto (VObj (sample_raw pk ch)) = Inr (sample_receipt pk ch, sample_device pk)"
proof -
  have u: "unsigned_part (sample_raw pk ch) = sample_unsigned pk ch"
    by (simp add: sample_raw_def unsigned_sample del: canon.simps)
  have np: "\<not> new_prototype (sample_raw pk ch)"
    by (simp add: new_prototype_def sample_raw_def sample_unsigned_def PROTO_def del: canon.simps)
  have e: "emittable MAX_JSON_DEPTH (VObj (sample_unsigned pk ch))"
    using assms(3) by (simp add: sample_unsigned_def sample_data_hash_def MAX_JSON_DEPTH_def numeral_eq_Suc)
  show ?thesis
    unfolding verifyReceiptSignature_Inr receiptSigningBytes_Inr
    using sample_parses [OF assms(1,2)] e u np
    by (simp add: sample_receipt_def sample_device_def sample_crypto_def del: canon.simps)
qed

subsection \<open>The bridge that made the call\<close>

definition sample_function :: contract_function where
  "sample_function = \<lparr>cf_key = js ''pos.lookup'', cf_description = [], cf_package = js ''acme/pos'',
     cf_function = Some (js ''lookup''), cf_inputs = [], cf_outputs = [], cf_writes = False, cf_local_network = [],
     cf_settings = None, cf_mode = None, cf_cloud = Some \<lparr>cm_workflow_id = 7, cm_function = None\<rparr>\<rparr>"

definition sample_channel :: channel where
  "sample_channel = \<lparr>ch_secret = Some sample_secret, ch_pollSeconds = 25, ch_maxBodyBytes = 4096,
     ch_functions = [sample_function], ch_modes = [js ''pos.lookup'' \<mapsto> Recommended], ch_devices = FirstUse,
     ch_authorizeRun = None\<rparr>"

definition sample_pending :: pending_command where
  "sample_pending = \<lparr>pd_id = cp_nonce sample_payload, pd_user = js ''alice'', pd_key = js ''pos.lookup'',
     pd_challenge = sample_challenge, pd_expires_at = 1000, pd_inputs_hash = None\<rparr>"

definition sample_store :: memory where
  "sample_store = (empty_memory 0)\<lparr>pendings := [cp_nonce sample_payload \<mapsto> (sample_pending, 1000000)]\<rparr>"

definition sample_ex :: "int \<Rightarrow> memory expectations" where
  "sample_ex t = (expectationsFor sample_channel sample_secret t sample_pending (js ''alice''))
     \<lparr>ex_data := Some sample_data, ex_requireSuccess := True\<rparr>"

definition sample_verdict :: "bytes \<Rightarrow> verdict" where
  "sample_verdict pk = \<lparr>vd_ok = True, vd_outcome = Some Success, vd_reason = None, vd_device = Some (sample_device pk),
     vd_unknownDevice = False, vd_receipt = Some (sample_receipt pk sample_challenge)\<rparr>"

definition sample_after :: "bytes \<Rightarrow> memory" where
  "sample_after pk = sample_store\<lparr>devices := [js ''alice'' \<mapsto> {toBase64Url pk}], nonces := [cp_nonce sample_payload \<mapsto> 1001000]\<rparr>"

lemma sample_at_time: "mem_checks.at_time t (sample_ex t)"
  using expectationsFor_at_time by (simp add: mem_checks.at_time_def sample_ex_def)

lemma sample_challenge_unlone: "\<not> LONE_SURROGATE sample_challenge"
proof (rule LONE_SURROGATE_small)
  fix u assume "u \<in> set sample_challenge"
  then show "unat u < 256"
    by (auto simp: sample_challenge_def challenge_token_def token_of_def mac_def dest: toBase64Url_ascii simp del: canon.simps)
qed

lemma sample_verified:
  "length pk = 32 \<Longrightarrow> verifyReceiptSignature sample_crypto (VObj (sample_raw pk sample_challenge)) =
     Inr (sample_receipt pk sample_challenge, sample_device pk)"
  using sample_verifies sample_challenge_ok(1) sample_challenge_unlone by blast

lemma sample_bound: "t < 1000000 \<Longrightarrow>
  binding_checks sample_crypto u (sample_receipt pk sample_challenge) (sample_ex t) = Inr sample_payload"
  using sample_challenge_ok(2) [of "t div 1000"]
  by (simp add: binding_checks_Inr sample_receipt_def sample_ex_def expectationsFor_def sample_pending_def expected_def)
    (simp add: sample_payload_def)

lemma sample_content: "content_ok sample_crypto (sample_receipt pk sample_challenge) (sample_ex t)"
proof -
  have "dataHash sample_crypto sample_data = Inr sample_data_hash"
  proof -
    have "emittable MAX_JSON_DEPTH sample_data" by (simp add: sample_data_def MAX_JSON_DEPTH_def numeral_eq_Suc)
    then show ?thesis
      by (simp add: dataHash_def sample_data_hash_def result_simps canonicalJson_Inr del: canon.simps)
  qed
  then show ?thesis
    by (simp add: content_ok_def sample_receipt_def sample_ex_def expectationsFor_def sample_pending_def)
qed

lemma sample_accepted:
  assumes "length pk = 32"
  shows "checkReceipt sample_crypto u (VObj (sample_raw pk sample_challenge)) (sample_ex 0) sample_store =
     (sample_verdict pk, sample_after pk)"
proof -
  let ?s1 = "sample_store\<lparr>devices := [js ''alice'' \<mapsto> {toBase64Url pk}]\<rparr>"
  have d: "devicePinned (sample_ex 0) (cp_sub sample_payload) (sample_device pk) sample_store = (True, ?s1)"
    by (simp add: devicePinned_def sample_ex_def expectationsFor_def sample_channel_def checkDevice_def pinned_def
        sample_store_def empty_memory_def sample_payload_def sample_device_def)
  have n: "ex_spendNonce (sample_ex 0) (cp_nonce sample_payload) (challenge_ttl_ms (cp_exp sample_payload) (ex_nowSeconds (sample_ex 0))) ?s1 =
      (True, sample_after pk)"
    by (simp add: sample_ex_def expectationsFor_def spendNonce_def sweep_def sample_store_def empty_memory_def sample_after_def
        challenge_ttl_ms_def sample_payload_def SWEEP_EVERY_MS_def)
  show ?thesis
    using checkReceipt_ok [of sample_crypto u "VObj (sample_raw pk sample_challenge)" "sample_ex 0" sample_store "sample_verdict pk" "sample_after pk"]
      sample_verified [OF assms] sample_bound [of 0 u pk] d n sample_content [of pk 0]
    by (fastforce simp: sample_verdict_def sample_receipt_def)
qed

end
