(* ===== verification/Run_Token.thy ===== *)
theory Run_Token
  imports Tokens
begin

section \<open>Run tokens (server-node/src/run-token.ts)\<close>

text \<open>
  \<open>mintRunToken\<close> signs a JWT (HS256) over the header and the claims in a fixed key order.  The
  clock is the argument \<open>now_ms\<close>; the sum \<open>iat + ttl\<close> is a double, so it is rounded like one.
\<close>

definition HEADER_JSON :: "(jsstring \<times> jsval) list" where
  "HEADER_JSON = [(js ''alg'', VStr (js ''HS256'')), (js ''typ'', VStr (js ''JWT''))]"

definition SECRET_KEY_SHAPE :: "jsstring \<Rightarrow> bool" where
  "SECRET_KEY_SHAPE s \<longleftrightarrow> take 4 s = js ''wsk_'' \<and> 4 < length s \<and> list_all (\<lambda>u. 0x21 \<le> u \<and> u \<le> 0x7e) (drop 4 s)"

definition js_startsWith :: "jsstring \<Rightarrow> jsstring \<Rightarrow> bool" where
  "js_startsWith s p \<longleftrightarrow> take (length p) s = p"

definition checkSecretKey :: "jsval \<Rightarrow> bridge_error + jsstring" where
  "checkSecretKey v =
     (case v of
        VStr s \<Rightarrow> if \<not> js_startsWith s SECRET_KEY_PREFIX then Inl (err CONFIG_INVALID)
                  else if \<not> SECRET_KEY_SHAPE s then Inl (err CONFIG_INVALID) else Inr s
      | _ \<Rightarrow> Inl (err CONFIG_INVALID))"

definition runTokenSubject :: "jsval \<Rightarrow> bridge_error + jsstring" where
  "runTokenSubject v =
     (let text = (case v of VNum n \<Rightarrow> if is_safe_integer n then VStr (num_text n) else v | _ \<Rightarrow> v) in
      case text of
        VStr s \<Rightarrow>
          if length s = 0 \<or> length s > MAX_SUBJECT_LENGTH \<or> list_ex (\<lambda>u. u \<le> 0x1f \<or> u = 0x7f) s \<or> LONE_SURROGATE s
          then Inl (err INPUT_INVALID) else Inr s
      | _ \<Rightarrow> Inl (err INPUT_INVALID))"

definition base64Url :: "jsstring \<Rightarrow> jsstring" where
  "base64Url text = toBase64Url (utf8 text)"

definition mintRunToken :: "crypto \<Rightarrow> jsval \<Rightarrow> jsval \<Rightarrow> int \<Rightarrow> bridge_error + jsstring" where
  "mintRunToken C secretKey options now_ms =
     res_bind (checkSecretKey secretKey) (\<lambda>key.
     res_bind (req (obj_of options) (err BAD_REQUEST)) (\<lambda>opts.
     res_bind (req (str_of (jget opts (js ''publication''))) (err INPUT_INVALID)) (\<lambda>publication.
     res_bind (guard (PUBLICATION_ID_PATTERN publication) (err INPUT_INVALID)) (\<lambda>_.
     res_bind (req (safe_int (or_else (jget opts (js ''ttlSeconds'')) (VNum (int_num DEFAULT_RUN_TOKEN_TTL_SECONDS))))
        (err BAD_REQUEST)) (\<lambda>ttl.
     res_bind (guard (1 \<le> ttl \<and> ttl \<le> MAX_RUN_TOKEN_TTL_SECONDS) (err BAD_REQUEST)) (\<lambda>_.
     res_bind (req (safe_int (or_else (jget opts (js ''issuedAt'')) (VNum (int_num (now_ms div 1000)))))
        (err BAD_REQUEST)) (\<lambda>iat.
     res_bind (guard (0 \<le> iat) (err BAD_REQUEST)) (\<lambda>_.
     let claims = [(js ''pub'', VStr publication), (js ''iat'', VNum (int_num iat)),
                   (js ''exp'', VNum (num_of_bigint (iat + ttl)))];
         sub = jget opts (js ''sub'') in
     res_bind
       (if sub \<noteq> VUndef \<and> sub \<noteq> VNull
        then res_bind (runTokenSubject sub) (\<lambda>s. Inr (claims @ [(js ''sub'', VStr s)]))
        else Inr claims) (\<lambda>claims.
     let signingInput = base64Url (json_text (VObj HEADER_JSON)) @ [46] @ base64Url (json_text (VObj claims));
         signature = toBase64Url (hmac_sha256 C (utf8 key) (ascii signingInput)) in
     Inr (signingInput @ [46] @ signature))))))))))"

lemma HEADER_JSON_text: "json_text (VObj HEADER_JSON) = [123, 34] @ js ''alg'' @ [34, 58, 34] @ js ''HS256'' @ [34, 44, 34] @ js ''typ'' @ [34, 58, 34] @ js ''JWT'' @ [34, 125]"
proof -
  have st: "stringify_string (js s) = [34] @ concat (map escape (js s)) @ [34]" for s
    using stringify_string_quote [OF LONE_SURROGATE_js, of s] by (simp add: quote_text_def)
  show ?thesis
    by (simp add: HEADER_JSON_def stringifies_to_nothing_def obj_text_def comma_def st) (simp add: js_def escape_def)
qed

lemma runTokenSubject_Inr:
  "runTokenSubject v = Inr s \<Longrightarrow> 0 < length s \<and> length s \<le> MAX_SUBJECT_LENGTH \<and> \<not> LONE_SURROGATE s \<and> list_all (\<lambda>u. \<not> u < 32) s \<and>
     (v = VStr s \<or> (\<exists>n. v = VNum n \<and> s = num_text n))"
  by (cases v) (auto simp: runTokenSubject_def Let_def list_all_iff list_ex_iff word_le_nat_alt word_less_nat_alt split: if_splits)

lemma checkSecretKey_Inr: "checkSecretKey v = Inr s \<longleftrightarrow> v = VStr s \<and> SECRET_KEY_SHAPE s"
  by (cases v) (auto simp: checkSecretKey_def SECRET_KEY_SHAPE_def js_startsWith_def SECRET_KEY_PREFIX_def numeral_eq_Suc)

lemma checkSecretKey_Inl: "checkSecretKey v = Inl e \<Longrightarrow> e = err CONFIG_INVALID"
  by (cases v) (auto simp: checkSecretKey_def split: if_splits)

text \<open>The claims of a minted token, in the order they are signed.\<close>

definition run_claims :: "jsstring \<Rightarrow> int \<Rightarrow> int \<Rightarrow> jsstring option \<Rightarrow> fields" where
  "run_claims pub iat ttl sub =
     [(js ''pub'', VStr pub), (js ''iat'', VNum (int_num iat)), (js ''exp'', VNum (num_of_bigint (iat + ttl)))] @
     (case sub of None \<Rightarrow> [] | Some s \<Rightarrow> [(js ''sub'', VStr s)])"

definition jwt :: "crypto \<Rightarrow> jsstring \<Rightarrow> fields \<Rightarrow> jsstring" where
  "jwt C key claims =
     (let input = js_join 46 [base64Url (json_text (VObj HEADER_JSON)), base64Url (json_text (VObj claims))]
      in js_join 46 [input, toBase64Url (hmac_sha256 C (utf8 key) (ascii input))])"

text \<open>What \<open>mintRunToken\<close> signs: a token is answered only for a well-formed secret key and
  publication id and a lifetime of 1 to 3600 seconds, and it is the HS256 JWT of exactly the claims
  \<open>pub\<close>, \<open>iat\<close>, \<open>exp = iat + ttl\<close> and, when given, a printable subject of at most 256 units,
  in this order.\<close>

lemma mintRunToken_claims:
  assumes "mintRunToken C secretKey options now_ms = Inr t"
  shows "\<exists>key opts pub iat ttl sub. secretKey = VStr key \<and> SECRET_KEY_SHAPE key \<and> options = VObj opts \<and>
    jget opts (js ''publication'') = VStr pub \<and> PUBLICATION_ID_PATTERN pub \<and>
    safe_int (or_else (jget opts (js ''ttlSeconds'')) (VNum (int_num DEFAULT_RUN_TOKEN_TTL_SECONDS))) = Some ttl \<and>
    safe_int (or_else (jget opts (js ''issuedAt'')) (VNum (int_num (now_ms div 1000)))) = Some iat \<and>
    1 \<le> ttl \<and> ttl \<le> 3600 \<and> 0 \<le> iat \<and> iat \<le> MAX_SAFE_INTEGER \<and>
    (nullish (jget opts (js ''sub'')) \<longleftrightarrow> sub = None) \<and>
    (\<forall>s. sub = Some s \<longrightarrow> 0 < length s \<and> length s \<le> 256 \<and> \<not> LONE_SURROGATE s \<and> list_all (\<lambda>u. \<not> u < 32) s) \<and>
    t = jwt C key (run_claims pub iat ttl sub)"
proof -
  let ?cl = "\<lambda>pub iat ttl. [(js ''pub'', VStr pub), (js ''iat'', VNum (int_num iat)), (js ''exp'', VNum (num_of_bigint (iat + ttl)))]"
  from assms obtain key opts pub ttl iat claims where k0: "checkSecretKey secretKey = Inr key" "options = VObj opts"
      "jget opts (js ''publication'') = VStr pub" "PUBLICATION_ID_PATTERN pub" "1 \<le> ttl \<and> ttl \<le> MAX_RUN_TOKEN_TTL_SECONDS" "0 \<le> iat"
    and l: "safe_int (or_else (jget opts (js ''ttlSeconds'')) (VNum (int_num DEFAULT_RUN_TOKEN_TTL_SECONDS))) = Some ttl"
    and i: "safe_int (or_else (jget opts (js ''issuedAt'')) (VNum (int_num (now_ms div 1000)))) = Some iat"
    and c: "(if jget opts (js ''sub'') \<noteq> VUndef \<and> jget opts (js ''sub'') \<noteq> VNull
       then res_bind (runTokenSubject (jget opts (js ''sub''))) (\<lambda>s. Inr (?cl pub iat ttl @ [(js ''sub'', VStr s)]))
       else Inr (?cl pub iat ttl)) = Inr claims"
    and t: "Inr (js_join 46 [js_join 46 [base64Url (json_text (VObj HEADER_JSON)), base64Url (json_text (VObj claims))],
       toBase64Url (hmac_sha256 C (utf8 key) (ascii (js_join 46 [base64Url (json_text (VObj HEADER_JSON)), base64Url (json_text (VObj claims))])))]) = (Inr t :: bridge_error + jsstring)"
    unfolding mintRunToken_def Let_def res_bind_eq_Inr req_eq guard_eq of_eq_Some js_join.simps append_assoc append_Cons append_Nil
    by blast
  have k: "secretKey = VStr key" "SECRET_KEY_SHAPE key" "options = VObj opts" "t = jwt C key claims"
      "jget opts (js ''publication'') = VStr pub" "PUBLICATION_ID_PATTERN pub" "1 \<le> ttl" "ttl \<le> 3600" "0 \<le> iat"
    using k0 t by (simp_all add: checkSecretKey_Inr MAX_RUN_TOKEN_TTL_SECONDS_def jwt_def Let_def)
  have iat: "iat \<le> MAX_SAFE_INTEGER" using safe_int_bound [OF i] by simp
  show ?thesis
  proof (cases "nullish (jget opts (js ''sub''))")
    case True
    then have "claims = run_claims pub iat ttl None" using c by (auto simp: nullish_def run_claims_def)
    then show ?thesis using k iat l i True by blast
  next
    case False
    then obtain s where s: "runTokenSubject (jget opts (js ''sub'')) = Inr s" "claims = run_claims pub iat ttl (Some s)"
      using c by (auto simp: nullish_def result_simps run_claims_def)
    have "0 < length s \<and> length s \<le> 256 \<and> \<not> LONE_SURROGATE s \<and> list_all (\<lambda>u. \<not> u < 32) s"
      using runTokenSubject_Inr [OF s(1)] by (simp add: MAX_SUBJECT_LENGTH_def)
    then show ?thesis using k iat l i False s(2) by blast
  qed
qed

text \<open>\<open>mintRunToken\<close> refuses with \<open>CONFIG_INVALID\<close> exactly when the secret key is not one, and
  with \<open>BAD_REQUEST\<close> or \<open>INPUT_INVALID\<close> otherwise.\<close>

theorem mintRunToken_errors:
  assumes "mintRunToken C secretKey options now_ms = Inl e"
  shows "(err_code e = CONFIG_INVALID \<longleftrightarrow> \<not> (\<exists>key. secretKey = VStr key \<and> SECRET_KEY_SHAPE key)) \<and>
    err_code e \<in> {CONFIG_INVALID, BAD_REQUEST, INPUT_INVALID}"
proof (cases "checkSecretKey secretKey")
  case (Inl e')
  then have "\<not> (\<exists>key. secretKey = VStr key \<and> SECRET_KEY_SHAPE key)"
    using checkSecretKey_Inr [of secretKey] by auto
  moreover have "e = err CONFIG_INVALID"
    using assms checkSecretKey_Inl [OF Inl] by (simp add: mintRunToken_def Inl)
  ultimately show ?thesis by simp
next
  case (Inr key)
  have sub: "runTokenSubject v = Inl e' \<Longrightarrow> e' = err INPUT_INVALID" for v e'
    by (cases v) (auto simp: runTokenSubject_def Let_def split: if_splits)
  have "err_code e \<in> {BAD_REQUEST, INPUT_INVALID}"
    using assms Inr
    by (auto simp: mintRunToken_def Let_def result_simps split: if_splits dest!: sub)
  then show ?thesis using Inr by (auto simp: checkSecretKey_Inr)
qed

end
