(* ===== verification/Cloud_Run.thy ===== *)
theory Cloud_Run
  imports Contract Complex_Main
begin

section \<open>Writ Cloud runs (server-node/src/cloud.ts)\<close>

text \<open>
  \<open>runOnCloud\<close> dispatches a run and polls its result.  The network and the clock are arguments: the
  answer to the dispatch, and one \<open>observation\<close> per turn of the polling loop (whether the caller gave
  up, the answer to the read, the time left before the deadline, the random jitter).  \<open>None\<close> is a loop
  still waiting after these observations.  Times are exact rationals of milliseconds.
\<close>

definition words :: "string list \<Rightarrow> jsstring list" where
  "words ws = map js ws"

definition SUCCESS :: "jsstring list" where
  "SUCCESS = words [''success'', ''succeeded'', ''completed'', ''complete'', ''done'', ''finished'']"
definition TIMED_OUT :: "jsstring list" where
  "TIMED_OUT = words [''timeout'', ''timed_out'']"
definition CANCELLED_WORDS :: "jsstring list" where
  "CANCELLED_WORDS = words [''cancelled'', ''canceled'', ''aborted'', ''stopped'', ''killed'']"
definition FAILED :: "jsstring list" where
  "FAILED = words [''failed'', ''failure'', ''error'', ''errored'', ''rejected'']"
definition PENDING :: "jsstring list" where
  "PENDING = words ['''', ''pending'', ''queued'', ''running'', ''started'', ''in_progress'', ''processing'',
     ''scheduled'', ''waiting'', ''created'', ''dispatched'', ''retrying'', ''accepted'']"

subsection \<open>Answers\<close>

text \<open>A \<open>Retry-After\<close> header: a finite number of seconds that is not negative (\<open>m / 10 ^ e\<close>), a date this
  many milliseconds ahead, or neither.\<close>

datatype retry_header = Seconds nat nat | DateIn int | NotARetry

record http_reply =
  hr_status :: int
  hr_retry_after :: "retry_header option"
  hr_body :: jsval

definition retryAfterMs :: "http_reply \<Rightarrow> jsnum option" where
  "retryAfterMs r =
     (case hr_retry_after r of
        None \<Rightarrow> None
      | Some (Seconds m e) \<Rightarrow> Some (if m * 1000 \<le> 60000 * 10 ^ e then Fin (int m * 1000) e else int_num 60000)
      | Some (DateIn ms) \<Rightarrow> Some (int_num (min (max 0 ms) 60000))
      | Some NotARetry \<Rightarrow> None)"

fun rat_of_num :: "jsnum \<Rightarrow> rat" where
  "rat_of_num (Fin m e) = of_int m / 10 ^ e"
| "rat_of_num _ = 0"

definition ok_status :: "http_reply \<Rightarrow> bool" where
  "ok_status r \<longleftrightarrow> 200 \<le> hr_status r \<and> hr_status r \<le> 299"

definition cloud_err :: "code \<Rightarrow> fields \<Rightarrow> bridge_error" where
  "cloud_err c details = BridgeError c [] details"

lemma cloud_err_code [simp]: "err_code (cloud_err c d) = c"
  by (simp add: cloud_err_def)

definition field :: "jsval \<Rightarrow> jsstring \<Rightarrow> jsval" where
  "field v k = (case obj_of v of None \<Rightarrow> VUndef | Some ob \<Rightarrow> jget ob k)"

definition dispatchRefused :: "http_reply \<Rightarrow> bridge_error" where
  "dispatchRefused r =
     (let status = hr_status r;
          detail = field (hr_body r) (js ''detail'');
          detailCode = str_of (field detail (js ''code''));
          details = (js ''status'', VNum (int_num status)) #
            (case detailCode of None \<Rightarrow> [] | Some c \<Rightarrow> [(js ''cloudCode'', VStr c)])
      in if status = 401 \<or> status = 403 then cloud_err NOT_GRANTED details
         else if status = 402 then cloud_err QUOTA_EXCEEDED details
         else if status = 404 then cloud_err CLOUD_NOT_CONFIGURED details
         else if status = 422 \<and> detailCode = Some (js ''unknown_function'') then cloud_err CLOUD_NOT_CONFIGURED details
         else if status = 422 \<or> status = 400 then cloud_err INPUT_INVALID details
         else if status = 429
         then cloud_err RATE_LIMITED (details @ (case retryAfterMs r of None \<Rightarrow> [] | Some ms \<Rightarrow> [(js ''retryAfterMs'', VNum ms)]))
         else if status \<ge> 500 then cloud_err CLOUD_UNAVAILABLE details
         else cloud_err RUN_FAILED details)"

subsection \<open>Results\<close>

definition dataOf :: "fields \<Rightarrow> fields \<Rightarrow> bridge_error + jsval" where
  "dataOf result details =
     res_bind
       (case jget result (js ''error'') of
          VStr e \<Rightarrow> guard (\<not> (js_trim e \<noteq> [] \<and> jget result (js ''success'') \<noteq> VBool True)) (cloud_err RUN_FAILED details)
        | _ \<Rightarrow> Inr ()) (\<lambda>_.
     let e = jget result (js ''extracted_data''); d = jget result (js ''result_data'') in
     Inr (if e \<noteq> VUndef \<and> e \<noteq> VNull then e else if d \<noteq> VUndef then d else VNull))"

definition runFailure :: "jsstring \<Rightarrow> fields \<Rightarrow> bridge_error" where
  "runFailure status details =
     (if status \<in> set TIMED_OUT then cloud_err TIMEOUT details
      else if status \<in> set CANCELLED_WORDS then cloud_err CANCELLED details
      else cloud_err RUN_FAILED details)"

text \<open>One read of the result: it ends the wait, or the loop goes on with the count of unknown
  statuses and, for a 429, the pause it asked for.\<close>

datatype read_step = Ends "bridge_error + jsval" | GoesOn nat "rat option"

definition terminal :: "jsstring \<Rightarrow> fields \<Rightarrow> bool" where
  "terminal status result \<longleftrightarrow>
     status \<in> set FAILED \<or> status \<in> set TIMED_OUT \<or> status \<in> set CANCELLED_WORDS \<or> status \<in> set SUCCESS \<or>
     jget result (js ''success'') = VBool True"

definition result_status :: "fields \<Rightarrow> jsstring" where
  "result_status result = js_lower (js_trim (js_String (or_else (jget result (js ''status'')) (VStr []))))"

definition read_result :: "fields \<Rightarrow> jsval \<Rightarrow> nat \<Rightarrow> read_step" where
  "read_result details body unrecognised =
     (case obj_of body of
        None \<Rightarrow> GoesOn unrecognised None
      | Some result \<Rightarrow>
          (let status = result_status result;
               failed = (status \<in> set FAILED \<or> status \<in> set TIMED_OUT \<or> status \<in> set CANCELLED_WORDS)
           in if failed \<or> status \<in> set SUCCESS \<or> jget result (js ''success'') = VBool True
              then (if failed \<or> jget result (js ''success'') = VBool False
                    then Ends (Inl (runFailure status details)) else Ends (dataOf result details))
              else if status \<in> set PENDING then GoesOn 0 None
              else if Suc unrecognised \<ge> CLOUD_UNRECOGNISED_READS then Ends (Inl (cloud_err RUN_FAILED details))
              else GoesOn (Suc unrecognised) None))"

definition with_status :: "fields \<Rightarrow> int \<Rightarrow> fields" where
  "with_status details status = details @ [(js ''status'', VNum (int_num status))]"

definition read_reply :: "fields \<Rightarrow> http_reply option \<Rightarrow> rat \<Rightarrow> nat \<Rightarrow> read_step" where
  "read_reply details reply interval unrecognised =
     (case reply of
        None \<Rightarrow> GoesOn unrecognised None
      | Some r \<Rightarrow>
          if hr_status r = 401 \<or> hr_status r = 403 then Ends (Inl (cloud_err NOT_GRANTED (with_status details (hr_status r))))
          else if hr_status r = 429
          then GoesOn unrecognised (Some (case retryAfterMs r of Some ms \<Rightarrow> rat_of_num ms | None \<Rightarrow> interval))
          else if hr_status r \<ge> 500 \<or> hr_status r = 404 then GoesOn unrecognised None
          else if hr_status r \<ge> 400 then Ends (Inl (cloud_err CLOUD_UNAVAILABLE (with_status details (hr_status r))))
          else read_result details (hr_body r) unrecognised)"

subsection \<open>Polling\<close>

record observation =
  ob_aborted :: bool
  ob_reply :: "http_reply option"
  ob_left :: rat
  ob_random :: rat

definition jittered :: "rat \<Rightarrow> rat \<Rightarrow> rat" where
  "jittered interval random = interval * (1 - 1 / 5 + random * 2 * (1 / 5))"

definition sleep_ms :: "rat option \<Rightarrow> rat \<Rightarrow> rat \<Rightarrow> rat \<Rightarrow> rat" where
  "sleep_ms pause interval random left =
     max 0 (min (case pause of Some ms \<Rightarrow> ms | None \<Rightarrow> jittered interval random) left)"

definition next_interval :: "rat \<Rightarrow> rat \<Rightarrow> rat" where
  "next_interval maxInterval interval = min maxInterval (interval * (3 / 2))"

fun poll_loop :: "fields \<Rightarrow> rat \<Rightarrow> rat \<Rightarrow> nat \<Rightarrow> observation list \<Rightarrow> (bridge_error + jsval) option \<times> rat list" where
  "poll_loop details maxInterval interval unrecognised [] = (None, [])"
| "poll_loop details maxInterval interval unrecognised (ob # obs) =
     (if ob_aborted ob then (Some (Inl (cloud_err CANCELLED details)), [])
      else (case read_reply details (ob_reply ob) interval unrecognised of
          Ends r \<Rightarrow> (Some r, [])
        | GoesOn unrecognised' pause \<Rightarrow>
            if ob_left ob \<le> 0 then (Some (Inl (cloud_err TIMEOUT details)), [])
            else (case poll_loop details maxInterval (next_interval maxInterval interval) unrecognised' obs of
              (r, sleeps) \<Rightarrow> (r, sleep_ms pause interval (ob_random ob) (ob_left ob) # sleeps))))"

subsection \<open>A whole run\<close>

record poll_timing =
  pt_initialMs :: "rat option"
  pt_maxMs :: "rat option"

definition first_interval :: "poll_timing \<Rightarrow> rat" where
  "first_interval timing = max 1 (case pt_initialMs timing of Some ms \<Rightarrow> ms | None \<Rightarrow> of_int CLOUD_POLL_INITIAL_MS)"

definition max_interval :: "poll_timing \<Rightarrow> rat" where
  "max_interval timing = max (first_interval timing) (case pt_maxMs timing of Some ms \<Rightarrow> ms | None \<Rightarrow> of_int CLOUD_POLL_MAX_MS)"

record cloud_request =
  cr_base :: jsstring
  cr_mapping :: cloud_mapping
  cr_inputs :: fields
  cr_dryRun :: bool
  cr_timing :: poll_timing

definition run_url :: "cloud_request \<Rightarrow> jsstring" where
  "run_url rq = cr_base rq @ js ''/api/automation/workflows/'' @ int_text (cm_workflow_id (cr_mapping rq)) @ js ''/run''"

definition run_body :: "cloud_request \<Rightarrow> fields" where
  "run_body rq =
     [(js ''form_data'', VObj (cr_inputs rq))] @
     (case cm_function (cr_mapping rq) of None \<Rightarrow> [] | Some f \<Rightarrow> [(js ''function_name'', VStr f)]) @
     (if cr_dryRun rq then [(js ''mutation_mode'', VStr (js ''dry_run''))] else [])"

text \<open>What the dispatch came to: no answer (with whether the caller had given up), or an answer.\<close>

datatype dispatch = NoAnswer bool | Answer http_reply

definition task_id_of :: "jsval \<Rightarrow> jsval option" where
  "task_id_of body =
     (case field body (js ''task_id'') of VNum n \<Rightarrow> Some (VNum n) | VStr s \<Rightarrow> Some (VStr s) | _ \<Rightarrow> None)"

definition runOnCloud :: "cloud_request \<Rightarrow> dispatch \<Rightarrow> observation list \<Rightarrow> (bridge_error + jsval) option" where
  "runOnCloud rq d obs =
     (case d of
        NoAnswer aborted \<Rightarrow> Some (Inl (if aborted then err CANCELLED else err CLOUD_UNAVAILABLE))
      | Answer reply \<Rightarrow>
          if \<not> ok_status reply then Some (Inl (dispatchRefused reply))
          else (case task_id_of (hr_body reply) of
            None \<Rightarrow> Some (Inl (err CLOUD_UNAVAILABLE))
          | Some taskId \<Rightarrow>
              fst (poll_loop
                [(js ''task_id'', taskId), (js ''workflow_id'', VNum (int_num (cm_workflow_id (cr_mapping rq))))]
                (max_interval (cr_timing rq)) (first_interval (cr_timing rq)) 0 obs)))"

subsection \<open>Lemmas\<close>

lemma poll_loop_returns:
  "\<exists>ob \<in> set obs. ob_aborted ob \<or> ob_left ob \<le> 0 \<Longrightarrow> fst (poll_loop details mx iv n obs) \<noteq> None"
proof (induction obs arbitrary: iv n)
  case (Cons ob obs)
  then show ?case by (auto split: read_step.splits prod.splits) (metis fst_conv option.distinct(1))+
qed simp

definition successful :: "fields \<Rightarrow> bool" where
  "successful result \<longleftrightarrow>
     (result_status result \<in> set SUCCESS \<or> jget result (js ''success'') = VBool True) \<and>
     result_status result \<notin> set FAILED \<and> result_status result \<notin> set TIMED_OUT \<and>
     result_status result \<notin> set CANCELLED_WORDS \<and> jget result (js ''success'') \<noteq> VBool False"

lemma read_reply_data:
  assumes "read_reply details reply iv n = Ends (Inr v)"
  shows "\<exists>r result. reply = Some r \<and> hr_status r < 400 \<and> hr_body r = VObj result \<and> successful result \<and> dataOf result details = Inr v"
  using assms
  by (auto simp: read_reply_def read_result_def Let_def successful_def split: option.splits if_splits)

lemma poll_loop_data:
  assumes "fst (poll_loop details mx iv n obs) = Some (Inr v)"
  shows "\<exists>pre ob post r result. obs = pre @ ob # post \<and> (\<forall>o' \<in> set pre. \<not> ob_aborted o' \<and> 0 < ob_left o') \<and>
    \<not> ob_aborted ob \<and> ob_reply ob = Some r \<and> hr_status r < 400 \<and> hr_body r = VObj result \<and> successful result \<and>
    dataOf result details = Inr v"
  using assms
proof (induction obs arbitrary: iv n)
  case (Cons ob obs)
  have na: "\<not> ob_aborted ob" using Cons.prems by auto
  show ?case
  proof (cases "read_reply details (ob_reply ob) iv n")
    case (Ends x)
    then have "x = Inr v" using Cons.prems na by simp
    then show ?thesis using read_reply_data [of details "ob_reply ob" iv n v] Ends na by fastforce
  next
    case (GoesOn n' pause)
    then have l: "0 < ob_left ob" and
        "fst (poll_loop details mx (next_interval mx iv) n' obs) = Some (Inr v)"
      using Cons.prems na by (auto split: if_splits prod.splits)
    from Cons.IH [OF this(2)] obtain pre ob' post r result where
        "obs = pre @ ob' # post" "\<forall>o' \<in> set pre. \<not> ob_aborted o' \<and> 0 < ob_left o'"
        "\<not> ob_aborted ob' \<and> ob_reply ob' = Some r \<and> hr_status r < 400 \<and> hr_body r = VObj result \<and> successful result \<and>
          dataOf result details = Inr v" by blast
    then show ?thesis using na l by (intro exI [of _ "ob # pre"] exI [of _ ob'] exI [of _ post]) auto
  qed
qed simp

lemma retryAfterMs_bound: "retryAfterMs h = Some ms \<Longrightarrow> rat_of_num ms \<le> 60000"
proof -
  have "(of_int (int m * 1000) :: rat) / 10 ^ e \<le> 60000" if "m * 1000 \<le> 60000 * 10 ^ e" for m e :: nat
  proof -
    have "(of_nat (m * 1000) :: rat) \<le> of_nat (60000 * 10 ^ e)" using that by (simp only: of_nat_le_iff)
    then show ?thesis by (simp add: divide_le_eq)
  qed
  then show "retryAfterMs h = Some ms \<Longrightarrow> rat_of_num ms \<le> 60000"
    by (auto simp: retryAfterMs_def int_num_def split: option.splits retry_header.splits if_splits)
qed

lemma jittered_bound: "0 \<le> iv \<Longrightarrow> u \<le> 1 \<Longrightarrow> jittered iv u \<le> iv * (6 / 5)"
  unfolding jittered_def by (intro mult_left_mono) auto

lemma read_reply_pause:
  assumes "read_reply details reply iv n = GoesOn n' (Some ms)" shows "ms \<le> max 60000 iv"
  using assms retryAfterMs_bound
  by (auto simp: read_reply_def read_result_def Let_def split: option.splits if_splits) (metis max.coboundedI1)+

lemma sleep_bound:
  assumes "read_reply details reply iv n = GoesOn n' pause" "1 \<le> iv" "iv \<le> mx" "u \<le> 1" "0 < left"
  shows "0 \<le> sleep_ms pause iv u left \<and> sleep_ms pause iv u left \<le> left \<and>
    sleep_ms pause iv u left \<le> max 60000 (mx * (6 / 5))"
proof -
  have "iv * (6 / 5) \<le> mx * (6 / 5)" using assms(3) by simp
  moreover have "jittered iv u \<le> iv * (6 / 5)" using assms(2,4) by (intro jittered_bound) auto
  moreover have "iv \<le> iv * (6 / 5)" using assms(2) by simp
  ultimately show ?thesis
    using assms(5) read_reply_pause [of details reply iv n n'] assms(1)
    by (cases pause) (fastforce simp: sleep_ms_def)+
qed

lemma poll_loop_sleeps:
  "1 \<le> iv \<Longrightarrow> iv \<le> mx \<Longrightarrow> \<forall>ob \<in> set obs. ob_random ob \<le> 1 \<Longrightarrow>
     \<forall>(s, ob) \<in> set (zip (snd (poll_loop details mx iv n obs)) obs).
       0 \<le> s \<and> s \<le> ob_left ob \<and> s \<le> max 60000 (mx * (6 / 5))"
proof (induction obs arbitrary: iv n)
  case (Cons ob obs)
  show ?case
  proof (cases "read_reply details (ob_reply ob) iv n")
    case (GoesOn n' pause)
    have "1 \<le> next_interval mx iv" "next_interval mx iv \<le> mx"
      using Cons.prems(1,2) by (auto simp: next_interval_def)
    then have IH: "\<forall>(s, ob) \<in> set (zip (snd (poll_loop details mx (next_interval mx iv) n' obs)) obs).
       0 \<le> s \<and> s \<le> ob_left ob \<and> s \<le> max 60000 (mx * (6 / 5))"
      using Cons.IH Cons.prems(3) by simp
    show ?thesis
      using IH sleep_bound [OF GoesOn Cons.prems(1,2), of "ob_random ob" "ob_left ob"] Cons.prems(3) GoesOn
      by (auto split: prod.splits)
  qed (use Cons in auto)
qed simp

subsection \<open>Properties\<close>

text \<open>C16: a run ends: \<open>runOnCloud\<close> returns at once when the dispatch is not answered or refused, and
  otherwise no later than the first turn that finds the caller gone or the deadline passed.\<close>

theorem runOnCloud_returns:
  assumes "\<exists>ob \<in> set obs. ob_aborted ob \<or> ob_left ob \<le> 0"
  shows "\<exists>r. runOnCloud rq d obs = Some r"
  using poll_loop_returns [OF assms] by (auto simp: runOnCloud_def split: dispatch.splits option.splits)

text \<open>No data without a success: when \<open>runOnCloud\<close> returns data, the dispatch was accepted with a
  task id, and the data is that of a read answered with a terminal success (a known success status
  or \<open>success: true\<close>, no failure status, no \<open>success: false\<close>), all turns before it having gone on.\<close>

theorem runOnCloud_data:
  assumes "runOnCloud rq d obs = Some (Inr v)"
  shows "\<exists>reply taskId details pre ob post r result.
    d = Answer reply \<and> ok_status reply \<and> task_id_of (hr_body reply) = Some taskId \<and>
    obs = pre @ ob # post \<and> (\<forall>p \<in> set pre. \<not> ob_aborted p \<and> 0 < ob_left p) \<and> \<not> ob_aborted ob \<and>
    ob_reply ob = Some r \<and> hr_status r < 400 \<and> hr_body r = VObj result \<and> successful result \<and>
    dataOf result details = Inr v"
proof -
  obtain reply taskId where d: "d = Answer reply" "ok_status reply" "task_id_of (hr_body reply) = Some taskId"
    and l: "fst (poll_loop [(js ''task_id'', taskId), (js ''workflow_id'', VNum (int_num (cm_workflow_id (cr_mapping rq))))]
      (max_interval (cr_timing rq)) (first_interval (cr_timing rq)) 0 obs) = Some (Inr v)"
    using assms by (auto simp: runOnCloud_def split: dispatch.splits option.splits if_splits)
  then show ?thesis using poll_loop_data [OF l] by blast
qed

text \<open>What a refused dispatch means: the error's code follows from the HTTP status alone, but for a
  422 that names an unknown function, and its details carry the status.\<close>

theorem dispatchRefused_code:
  "map_of (err_details (dispatchRefused r)) (js ''status'') = Some (VNum (int_num (hr_status r))) \<and>
   err_code (dispatchRefused r) =
     (if hr_status r \<in> {401, 403} then NOT_GRANTED
      else if hr_status r = 402 then QUOTA_EXCEEDED
      else if hr_status r = 404 \<or> (hr_status r = 422 \<and> field (field (hr_body r) (js ''detail'')) (js ''code'') = VStr (js ''unknown_function''))
      then CLOUD_NOT_CONFIGURED
      else if hr_status r \<in> {400, 422} then INPUT_INVALID
      else if hr_status r = 429 then RATE_LIMITED
      else if 500 \<le> hr_status r then CLOUD_UNAVAILABLE else RUN_FAILED)"
  by (auto simp: dispatchRefused_def Let_def cloud_err_def split: option.splits)

text \<open>The waits between reads: none is negative or runs past the deadline, and none is longer than
  a minute or the configured longest interval with its jitter.\<close>

theorem poll_waits_bounded:
  assumes "\<forall>ob \<in> set obs. ob_random ob \<le> 1"
  shows "\<forall>(s, ob) \<in> set (zip (snd (poll_loop details (max_interval timing) (first_interval timing) n obs)) obs).
    0 \<le> s \<and> s \<le> ob_left ob \<and> s \<le> max 60000 (max_interval timing * (6 / 5))"
  by (rule poll_loop_sleeps) (use assms in \<open>auto simp: first_interval_def max_interval_def\<close>)

end
