(* ===== verification/Witnesses.thy ===== *)
theory Witnesses
  imports Samples Run_Token Cloud_Run
begin

section \<open>Instances of the properties\<close>

text \<open>
  Each property with hypotheses, applied at concrete values that meet them.
\<close>

subsection \<open>Tokens\<close>

theorem user_token_round_trip_witness:
  "\<exists>t. mintUserToken sample_crypto sample_secret (js ''alice'') 1000 = Inr t \<and> length t \<le> MAX_TOKEN_CHARS \<and>
    readUserToken sample_crypto sample_secret (VStr t) 999 = Some \<lparr>up_sub = js ''alice'', up_exp = 1000\<rparr>"
  by (rule user_token_round_trip [OF sample_hmac sample_subject]) (simp_all add: MAX_SAFE_INTEGER_def)

theorem challenge_round_trip_witness:
  "\<exists>t. mintChallenge sample_crypto sample_secret sample_payload = Inr t \<and> length t \<le> MAX_CHALLENGE_CHARS \<and>
    readChallenge sample_crypto sample_secret (VStr t) 500 = (if 500 < cp_exp sample_payload then Inr sample_payload else Inl Expired)"
  using sample_subject sample_key sample_nonce
  by (intro challenge_round_trip [OF sample_hmac]) (simp_all add: sample_payload_def MAX_SAFE_INTEGER_def)

lemma sample_user_token: "readUserToken sample_crypto sample_secret (VStr (user_token sample_crypto sample_secret (js ''alice'') 1000)) 5 =
    Some \<lparr>up_sub = js ''alice'', up_exp = 1000\<rparr>"
  using sample_subject by (intro minted_user_token(3) [OF sample_hmac]) (simp_all add: MAX_SAFE_INTEGER_def)

theorem token_types_disjoint_witness:
  "readChallenge sample_crypto sample_secret (VStr (user_token sample_crypto sample_secret (js ''alice'') 1000)) 5 = Inl NotChallenge"
  by (rule token_types_disjoint [OF sample_user_token])

theorem user_token_expiry_witness:
  "readUserToken sample_crypto sample_secret (VStr (user_token sample_crypto sample_secret (js ''alice'') 1000)) 1000 = None"
  using user_token_expiry [OF sample_user_token, of 1000] by simp

subsection \<open>Receipts\<close>

theorem signed_bytes_bind_witness:
  "rc_key (sample_signed sample_key_bytes (js ''c'') (replicate 64 0)) = rc_key (sample_signed sample_key_bytes (js ''c'') (replicate 64 1))"
proof -
  have p: "parseReceipt (VObj (sample_unsigned sample_key_bytes (js ''c'') @ [(js ''sig'', VStr (toBase64Url (replicate 64 b)))])) =
      Inr (sample_signed sample_key_bytes (js ''c'') (replicate 64 b))" for b
    by (rule sample_parses_signed) (simp_all add: sample_key_bytes_def MAX_CHALLENGE_CHARS_def)
  have r: "rc_raw (sample_signed sample_key_bytes (js ''c'') sg) = sample_unsigned sample_key_bytes (js ''c'') @ [(js ''sig'', VStr (toBase64Url sg))]"
    for sg by (simp add: sample_signed_def)
  have u: "unsigned_part (rc_raw (sample_receipt sample_key_bytes (js ''c''))) = sample_unsigned sample_key_bytes (js ''c'')"
    by (simp add: sample_receipt_def sample_raw_def unsigned_sample del: canon.simps)
  have "verifyReceiptSignature sample_crypto (VObj (sample_raw sample_key_bytes (js ''c''))) =
      Inr (sample_receipt sample_key_bytes (js ''c''), sample_device sample_key_bytes)"
    by (rule sample_verifies) (simp_all add: sample_key_bytes_def MAX_CHALLENGE_CHARS_def)
  then obtain bytes where "receiptSigningBytes (rc_raw (sample_receipt sample_key_bytes (js ''c''))) = Inr bytes"
    unfolding verifyReceiptSignature_Inr by blast
  then have c: "Inr bytes = res_bind (canonicalJson (VObj (sample_unsigned sample_key_bytes (js ''c'')))) (\<lambda>text. Inr (utf8 text) :: bridge_error + bytes)"
    by (auto simp: receiptSigningBytes_def u result_simps)
  have "\<not> new_prototype (rc_raw (sample_signed sample_key_bytes (js ''c'') sg))" for sg
    by (simp add: r new_prototype_def sample_unsigned_def PROTO_def)
  then have b: "receiptSigningBytes (rc_raw (sample_signed sample_key_bytes (js ''c'') sg)) = Inr bytes" for sg
    unfolding c by (simp add: receiptSigningBytes_def) (simp only: r unsigned_sample)
  show ?thesis
    using signed_bytes_bind [OF p p b b] sample_distinct by (simp only: r unsigned_sample)
qed

theorem proto_property_unsigned_witness:
  "\<exists>rc. verifyReceiptSignature sample_crypto (VObj ((PROTO, VBool True) # sample_raw sample_key_bytes (js ''c''))) =
     Inr (rc, sample_device sample_key_bytes)"
proof -
  have "verifyReceiptSignature sample_crypto (VObj (sample_raw sample_key_bytes (js ''c''))) =
      Inr (sample_receipt sample_key_bytes (js ''c''), sample_device sample_key_bytes)"
    by (rule sample_verifies) (simp_all add: sample_key_bytes_def MAX_CHALLENGE_CHARS_def)
  moreover have "PROTO \<notin> set (map fst (sample_raw sample_key_bytes (js ''c'')))"
    by (simp add: sample_raw_def sample_unsigned_def PROTO_def del: canon.simps)
  moreover have "\<not> is_object (VBool True)" by (simp add: is_object_def)
  ultimately show ?thesis using proto_property_unsigned by blast
qed

text \<open>A check that awaits a hook: it reads the challenge at \<open>t\<close> and spends the nonce at \<open>u\<close>.\<close>

definition hooked_ex :: "int \<Rightarrow> int \<Rightarrow> memory expectations" where
  "hooked_ex t u = (sample_ex t)\<lparr>ex_devices := Hook (\<lambda>_ _. Some True), ex_spendNonce := (\<lambda>n ttl m. spendNonce u n ttl m)\<rparr>"

definition spent_store :: memory where
  "spent_store = sample_store\<lparr>nonces := [cp_nonce sample_payload \<mapsto> 1001000]\<rparr>"

lemma hooked_awaited: "t \<le> u \<Longrightarrow> mem_checks.awaited t u (hooked_ex t u)"
  by (simp add: mem_checks.awaited_def hooked_ex_def sample_ex_def expectationsFor_def)

lemma hooked_read:
  "t < 1000000 \<Longrightarrow> readReceipt sample_crypto (\<lambda>_. None) (VObj (sample_raw sample_key_bytes sample_challenge)) (hooked_ex t u) =
     Inr (sample_receipt sample_key_bytes sample_challenge, sample_device sample_key_bytes, sample_payload)"
  using sample_verified [of sample_key_bytes] sample_bound [of t "\<lambda>_. None" sample_key_bytes]
  by (simp add: readReceipt_Inr sample_key_bytes_def) (simp add: binding_checks_Inr hooked_ex_def)

lemma hooked_spends:
  assumes "ex_spendNonce (hooked_ex t u) (cp_nonce sample_payload) (challenge_ttl_ms (cp_exp sample_payload) (t div 1000)) m = (True, m')"
  shows "\<exists>vd. spendAndCheck sample_crypto (hooked_ex t u) (sample_receipt sample_key_bytes sample_challenge) d sample_payload m = (vd, m') \<and> vd_ok vd"
proof -
  have "content_checks sample_crypto (sample_receipt sample_key_bytes sample_challenge) (hooked_ex t u) = Inr ()"
    using sample_content [of sample_key_bytes t] unfolding content_checks_Inr by (simp add: content_ok_def hooked_ex_def)
  moreover have "ex_nowSeconds (hooked_ex t u) = t div 1000" by (simp add: hooked_ex_def sample_ex_def expectationsFor_def)
  ultimately show ?thesis using assms by (simp add: spendAndCheck_def)
qed

lemma hooked_first: "\<exists>vd. spendAndCheck sample_crypto (hooked_ex 0 0) (sample_receipt sample_key_bytes sample_challenge)
     (sample_device sample_key_bytes) sample_payload sample_store = (vd, spent_store) \<and> vd_ok vd"
  by (rule hooked_spends) (simp add: hooked_ex_def spendNonce_def sweep_def sample_store_def empty_memory_def spent_store_def
    challenge_ttl_ms_def sample_payload_def SWEEP_EVERY_MS_def)

theorem challenge_single_use_witness:
  "\<not> vd_ok (fst (spendAndCheck sample_crypto (hooked_ex 0 5000) (sample_receipt sample_key_bytes sample_challenge)
     (sample_device sample_key_bytes) sample_payload spent_store))"
proof -
  obtain vd where vd: "spendAndCheck sample_crypto (hooked_ex 0 0) (sample_receipt sample_key_bytes sample_challenge)
     (sample_device sample_key_bytes) sample_payload sample_store = (vd, spent_store)" "vd_ok vd" using hooked_first by blast
  obtain vd' m where c: "spendAndCheck sample_crypto (hooked_ex 0 5000) (sample_receipt sample_key_bytes sample_challenge)
     (sample_device sample_key_bytes) sample_payload spent_store = (vd', m)" by (cases rule: prod.exhaust)
  have "\<not> vd_ok vd'"
    using challenge_single_use [OF hooked_read vd hooked_awaited _ _ _ hooked_read c hooked_awaited, of "[]"]
    by (simp add: hooked_ex_def sample_ex_def expectationsFor_def sample_payload_def)
  then show ?thesis using c by simp
qed

text \<open>A device hook that is slow at the wrong moment: the challenge expires at second 1000, and is read at 999.5; the
  hook answers at 1001, when the nonce that an earlier check spent is no longer remembered, and the receipt is
  accepted a second time.\<close>

lemma slow_hook_accepts_again:
  "\<exists>vd m1 vd' m2. checkReceipt sample_crypto (\<lambda>_. None) (VObj (sample_raw sample_key_bytes sample_challenge)) (hooked_ex 0 0) sample_store = (vd, m1) \<and>
     vd_ok vd \<and> checkReceipt sample_crypto (\<lambda>_. None) (VObj (sample_raw sample_key_bytes sample_challenge)) (hooked_ex 999500 1001000) m1 = (vd', m2) \<and>
     vd_ok vd'"
proof -
  have d: "devicePinned (hooked_ex t u) sub dev m = (True, m)" for t u sub dev m
    by (simp add: devicePinned_def hooked_ex_def sample_ex_def expectationsFor_def)
  have step: "checkReceipt sample_crypto (\<lambda>_. None) (VObj (sample_raw sample_key_bytes sample_challenge)) (hooked_ex t u) m =
      spendAndCheck sample_crypto (hooked_ex t u) (sample_receipt sample_key_bytes sample_challenge)
        (sample_device sample_key_bytes) sample_payload m" if "t < 1000000" for t u m
    by (simp add: checkReceipt_def hooked_read [OF that] d)
  have "nonces (sweep 1001000 spent_store) (cp_nonce sample_payload) \<in> {None, Some 1001000}"
    by (simp add: sweep_def spent_store_def)
  then obtain m2 where "ex_spendNonce (hooked_ex 999500 1001000) (cp_nonce sample_payload) (challenge_ttl_ms (cp_exp sample_payload) (999500 div 1000)) spent_store = (True, m2)"
    by (auto simp: hooked_ex_def spendNonce_def Let_def)
  from hooked_spends [OF this] obtain vd' where second: "checkReceipt sample_crypto (\<lambda>_. None)
      (VObj (sample_raw sample_key_bytes sample_challenge)) (hooked_ex 999500 1001000) spent_store = (vd', m2)" "vd_ok vd'"
    unfolding step [of 999500, simplified] by blast
  obtain vd where "checkReceipt sample_crypto (\<lambda>_. None) (VObj (sample_raw sample_key_bytes sample_challenge)) (hooked_ex 0 0) sample_store =
      (vd, spent_store)" "vd_ok vd" using hooked_first unfolding step [of 0, simplified] by blast
  with second show ?thesis by blast
qed

theorem first_use_refuses_other_devices_witness:
  "vd_unknownDevice (fst (checkReceipt sample_crypto (\<lambda>_. None) (VObj (sample_raw sample_key_bytes sample_challenge))
     (sample_ex 5000) (sample_after (replicate 32 8))))"
proof -
  obtain vd m where c: "checkReceipt sample_crypto (\<lambda>_. None) (VObj (sample_raw sample_key_bytes sample_challenge))
     (sample_ex 5000) (sample_after (replicate 32 8)) = (vd, m)" by (cases rule: prod.exhaust)
  have ne: "toBase64Url sample_key_bytes \<noteq> toBase64Url (replicate 32 8)"
    by (simp add: sample_key_bytes_def)
  have p: "pinned (sample_after (replicate 32 8)) (cp_sub sample_payload) = {toBase64Url (replicate 32 8)}"
    by (simp add: pinned_def sample_after_def sample_payload_def)
  have "vd_unknownDevice vd"
    using first_use_refuses_other_devices [OF c sample_at_time _ sample_verified sample_bound] ne p
    by (simp add: sample_ex_def expectationsFor_def sample_channel_def sample_key_bytes_def sample_device_def)
  then show ?thesis by (simp add: c)
qed

subsection \<open>The store\<close>

definition sample_command :: command where
  "sample_command = \<lparr>cmd_id = cp_nonce sample_payload, cmd_key = js ''pos.lookup'', cmd_inputs = [], cmd_timeout_ms = 120000,
     cmd_dry_run = False, cmd_challenge = sample_challenge, cmd_expires_at = 120\<rparr>"

definition sample_outcome :: "string \<Rightarrow> command_outcome" where
  "sample_outcome c = OutcomeError (js c) [] None None"

definition sample_events :: "event list" where
  "sample_events =
     [(1, Resolve (pd_id sample_pending) (sample_outcome ''A''), Flag True),
      (2, Resolve (pd_id sample_pending) (sample_outcome ''B''), Flag False),
      (3, TakeResult (pd_id sample_pending), Outcome (Some (sample_outcome ''A'')))]"

theorem resolve_exactly_once_witness:
  "length (won (pd_id sample_pending) sample_events) \<le> 1 \<and> subseq (delivered (pd_id sample_pending) sample_events) (won (pd_id sample_pending) sample_events)"
proof -
  have "\<exists>m'. run 0 sample_store sample_events m'"
    by (simp add: sample_events_def sample_store_def sample_pending_def empty_memory_def resolve_def takeResult_def)
  then obtain m' where r: "run 0 sample_store sample_events m'" by blast
  have "results sample_store (pd_id sample_pending) = None" by (simp add: sample_store_def empty_memory_def)
  moreover have "\<not> list_ex (enqueues (pd_id sample_pending)) sample_events" by (simp add: sample_events_def enqueues_def)
  ultimately show ?thesis using resolve_exactly_once [OF r, of "pd_id sample_pending"] by (auto split: if_splits)
qed

text \<open>A command queued, taken, put back by the poll that could not deliver it, and taken again.\<close>

definition returned_events :: "event list" where
  "returned_events =
     [(1, Enqueue (js ''alice'') sample_command sample_pending 5, Unit), (2, TakeNow (js ''alice'') 1, Commands [sample_command]),
      (3, Requeue (js ''alice'') [sample_command], Unit), (4, TakeNow (js ''alice'') 1, Commands [sample_command])]"

theorem commands_first_in_first_out_witness:
  "line (js ''alice'') [] returned_events \<noteq> None"
proof -
  have "\<exists>m'. run 0 (empty_memory 0) returned_events m'"
    by (simp add: returned_events_def enqueue_def takeNow_def requeue_def sweep_def empty_memory_def queue_of_def live_queue_def
      put_queue_def SWEEP_EVERY_MS_def Let_def sample_command_def sample_pending_def)
  then obtain m' where r: "run 0 (empty_memory 0) returned_events m'" by blast
  have "commands_of (empty_memory 0) (js ''alice'') = []" by (simp add: commands_of_def queue_of_def empty_memory_def)
  then show ?thesis using commands_first_in_first_out [OF r, of "js ''alice''"] by auto
qed

theorem nonce_spent_once_witness:
  "\<not> (\<exists>m'. run 0 (empty_memory 0) [(1, SpendNonce (js ''n'') 60, Flag True), (2, SpendNonce (js ''n'') 60, Flag True)] m')"
  using nonce_spent_once [of 0 "empty_memory 0" 1 "js ''n''" 60 "[]" 2 60 "Flag True"] by auto

subsection \<open>The page channel\<close>

definition sample_server :: server where
  "sample_server = \<lparr>sv_store = sample_store, sv_pageRuns = Map.empty\<rparr>"

definition sample_request :: "jsstring \<Rightarrow> jsstring \<Rightarrow> request" where
  "sample_request method body = \<lparr>rq_method = method,
     rq_authorization = Some (js ''Writ '' @ user_token sample_crypto sample_secret (js ''alice'') 1000),
     rq_wait = None, rq_content_length = None, rq_chunks = Some [utf8 body], rq_now = 5000, rq_wakes = [],
     rq_aborted = False, rq_now_after = 5000\<rparr>"

lemma sample_authenticated:
  "authenticate sample_crypto sample_secret (rq_authorization (sample_request method body)) 5000 = Some (js ''alice'')"
proof -
  let ?t = "user_token sample_crypto sample_secret (js ''alice'') 1000"
  have "?t \<noteq> []" "\<forall>u \<in> set ?t. \<not> is_space u"
    by (auto simp: user_token_def token_of_def mac_def is_space_def dest: no_space_b64 simp del: canon.simps)
  then show ?thesis
    using writ_header_token sample_user_token by (simp add: authenticate_def sample_request_def)
qed

theorem foreign_result_refused_witness:
  "result_handler sample_crypto (\<lambda>_. None) sample_channel sample_secret 5000 (js ''mallory'')
     (VObj [(js ''id'', VStr (pd_id sample_pending)), (js ''ok'', VBool True)]) sample_store =
   (Respond (failure 404 BAD_REQUEST), sample_store)"
  by (rule foreign_result_refused [where i = "pd_id sample_pending" and p = sample_pending and x = 1000000 and ok = True])
    (simp_all add: sample_store_def sample_pending_def sample_payload_def length_toBase64Url)

definition sample_result :: jsval where
  "sample_result = VObj [(js ''id'', VStr (pd_id sample_pending)), (js ''ok'', VBool True), (js ''data'', sample_data),
     (js ''receipt'', VObj (sample_raw sample_key_bytes sample_challenge))]"

theorem delivered_data_verified_witness:
  "\<exists>e m'. result_handler sample_crypto (\<lambda>_. None) sample_channel sample_secret 0 (js ''alice'') sample_result sample_store = (e, m') \<and>
     (\<exists>j p y v d. pendings sample_store j = Some (p, y) \<and> (0 :: int) < y \<and> pd_id p = pd_id sample_pending \<and> pd_user p = js ''alice'' \<and>
    verifyReceiptSignature sample_crypto v = Inr (sample_receipt sample_key_bytes sample_challenge, d))"
proof -
  obtain e m' where r: "result_handler sample_crypto (\<lambda>_. None) sample_channel sample_secret 0 (js ''alice'') sample_result sample_store = (e, m')"
    by (cases rule: prod.exhaust)
  have out: "result_outcome sample_crypto (\<lambda>_. None) (expectationsFor sample_channel sample_secret 0 sample_pending (js ''alice''))
      [(js ''id'', VStr (pd_id sample_pending)), (js ''ok'', VBool True), (js ''data'', sample_data),
       (js ''receipt'', VObj (sample_raw sample_key_bytes sample_challenge))] True sample_store =
      (OutcomeOk sample_data (sample_receipt sample_key_bytes sample_challenge), sample_after sample_key_bytes)"
    using sample_accepted [of sample_key_bytes "\<lambda>_. None"]
    by (simp add: result_outcome_def jhas_def own_keys_def sample_ex_def sample_verdict_def sample_key_bytes_def)
  have len: "length (pd_id sample_pending) \<le> 64" "pd_id sample_pending \<noteq> []"
    by (auto simp: sample_pending_def sample_payload_def length_toBase64Url)
  have res: "results m' (pd_id sample_pending) = Some (OutcomeOk sample_data (sample_receipt sample_key_bytes sample_challenge), 1000000)"
    using r out len
    by (auto simp: result_handler_def sample_result_def pending_def sample_store_def resolve_def sample_after_def
        sample_pending_def empty_memory_def)
  have "results sample_store (pd_id sample_pending) = None" by (simp add: sample_store_def empty_memory_def)
  then have "results sample_store (pd_id sample_pending) \<noteq> Some (OutcomeOk sample_data (sample_receipt sample_key_bytes sample_challenge), 1000000)"
    by simp
  from delivered_data_verified [OF r res this] show ?thesis using r by blast
qed

theorem poll_hands_over_witness:
  "\<exists>rs m' cs. poll sample_channel (sample_request (js ''GET'') []) (js ''alice'')
       (sample_store\<lparr>queues := [js ''alice'' \<mapsto> [(sample_command, 120000)]]\<rparr>) = (Respond rs, m') \<and>
     rs_body rs = CommandsBody cs \<and> cs = [sample_command] \<and> length cs \<le> MAX_COMMANDS_PER_POLL"
proof -
  obtain rs m' where p: "poll sample_channel (sample_request (js ''GET'') []) (js ''alice'')
       (sample_store\<lparr>queues := [js ''alice'' \<mapsto> [(sample_command, 120000)]]\<rparr>) = (Respond rs, m')"
      "rs_body rs = CommandsBody [sample_command]"
    by (simp add: poll_def waitSeconds_def sample_request_def take_commands_def take_loop.simps touchPresence_def getPresence_def
        setPresence_def sweep_def sample_store_def empty_memory_def SWEEP_EVERY_MS_def takeNow_def live_queue_def
        MAX_COMMANDS_PER_POLL_def sample_command_def Let_def)
  then show ?thesis using poll_hands_over [OF p] by blast
qed

definition sample_body :: jsstring where
  "sample_body = [123, 34] @ js ''run'' @ [34, 58, 123, 34] @ js ''key'' @ [34, 58, 34] @ js ''pos.lookup'' @ [34, 125, 125]"

lemma sample_post_run:
  "handleChannel sample_crypto (\<lambda>_. None) sample_channel
     (sample_request (js ''POST'') sample_body) sample_server =
   (Inr (js ''alice'', sample_function, [], DEFAULT_CALL_TIMEOUT_MS, False), sample_server\<lparr>sv_pageRuns := [js ''alice'' \<mapsto> 1]\<rparr>)"
proof -
  have parsed: "json_parse sample_body = Some (VObj [(js ''run'', VObj [(js ''key'', VStr (js ''pos.lookup''))])])"
    by code_simp
  have read: "from_utf8 (utf8 sample_body) = sample_body"
    by code_simp
  have len: "length (utf8 sample_body) = 28" by code_simp
  have "checkInputs sample_function (VObj []) = Inr []"
    by (rule checkInputs_ok) (auto simp: sample_function_def utf8Length_def obj_text_def MAX_INPUT_BYTES_def MAX_JSON_DEPTH_def
        utf8_point_def is_high_def is_low_def)
  then have inputs: "checkInputs sample_function VUndef = Inr []"
    using checkInputs_nullish [of VUndef] by (simp add: nullish_def)
  have "run_checks sample_channel (js ''alice'') (VObj [(js ''key'', VStr (js ''pos.lookup''))]) =
      Inr (sample_function, [], DEFAULT_CALL_TIMEOUT_MS, False)"
    using sample_key inputs
    by (simp add: run_checks_def functionOf_def sample_channel_def inherited_js nullish_def or_else_def run_timeout_def)
      (simp add: sample_function_def)
  then have h: "run_handler sample_channel (js ''alice'') (VObj [(js ''key'', VStr (js ''pos.lookup''))]) sample_server =
      (StartRun (js ''alice'') sample_function [] DEFAULT_CALL_TIMEOUT_MS False, sample_server\<lparr>sv_pageRuns := [js ''alice'' \<mapsto> 1]\<rparr>)"
    by (simp add: run_handler_def inFlight_def sample_server_def MAX_PAGE_RUNS_PER_USER_def)
  have b: "readBody (sample_request (js ''POST'') sample_body) 4096 = Some sample_body"
    using len by (simp add: readBody_def sample_request_def read)
  have "post sample_crypto (\<lambda>_. None) sample_channel sample_secret (sample_request (js ''POST'') sample_body) (js ''alice'') sample_server =
      (StartRun (js ''alice'') sample_function [] DEFAULT_CALL_TIMEOUT_MS False, sample_server\<lparr>sv_pageRuns := [js ''alice'' \<mapsto> 1]\<rparr>)"
    using h b parsed by (simp add: post_def parseObject_def inherited_js sample_channel_def [THEN arg_cong, of ch_maxBodyBytes])
  moreover have "js_upper (js ''POST'') = js ''POST''" by code_simp
  ultimately show ?thesis
    using sample_authenticated [of "js ''POST''" sample_body]
    by (simp add: handleChannel_def sample_channel_def [THEN arg_cong, of ch_secret] settle_ending_def sample_request_def [THEN arg_cong, of rq_method]
        sample_request_def [THEN arg_cong, of rq_now])
qed

theorem channel_keeps_results_verified_witness:
  "results_verified sample_crypto sample_secret (sv_store (sample_server\<lparr>sv_pageRuns := [js ''alice'' \<mapsto> 1]\<rparr>))"
  by (rule channel_keeps_results_verified [OF sample_post_run])
    (simp_all add: sample_channel_def sample_request_def sample_server_def sample_store_def empty_memory_def results_verified_def)

theorem changes_need_a_token_witness:
  "\<exists>secret h tok p. ch_secret sample_channel = Some secret \<and>
     rq_authorization (sample_request (js ''POST'') sample_body) = Some h \<and> writ_header h = Some tok \<and>
     readUserToken sample_crypto secret (VStr tok) (rq_now (sample_request (js ''POST'') sample_body) div 1000) = Some p \<and>
     js ''alice'' = up_sub p"
proof -
  have "sample_server\<lparr>sv_pageRuns := [js ''alice'' \<mapsto> 1]\<rparr> \<noteq> sample_server \<or>
      Inr (js ''alice'', sample_function, [], DEFAULT_CALL_TIMEOUT_MS, False) =
      (Inr (js ''alice'', sample_function, [], DEFAULT_CALL_TIMEOUT_MS, False) ::
         response + jsstring \<times> contract_function \<times> fields \<times> int \<times> bool)" by simp
  from changes_need_a_token [OF sample_post_run this] show ?thesis by blast
qed

theorem page_runs_bounded_witness:
  "inFlight (sv_pageRuns (sample_server\<lparr>sv_pageRuns := [js ''alice'' \<mapsto> 1]\<rparr>)) (js ''alice'') = count_list [js ''alice''] (js ''alice'') \<and>
   count_list [js ''alice''] (js ''alice'') \<le> MAX_PAGE_RUNS_PER_USER"
proof (rule page_runs_bounded)
  show "channel_reach sample_crypto (\<lambda>_. None) sample_channel sample_store
      (sample_server\<lparr>sv_pageRuns := [js ''alice'' \<mapsto> 1]\<rparr>, [js ''alice''])"
    by (rule channel_reach.Next [OF channel_reach.Initially])
      (unfold sample_server_def [symmetric], rule channel_step.Started [OF sample_post_run])
qed

subsection \<open>Writ Cloud\<close>

definition sample_cloud :: cloud_request where
  "sample_cloud = \<lparr>cr_base = js ''https://api.usewrit.app'', cr_mapping = \<lparr>cm_workflow_id = 7, cm_function = None\<rparr>, cr_inputs = [],
     cr_dryRun = False, cr_timing = \<lparr>pt_initialMs = None, pt_maxMs = None\<rparr>\<rparr>"

definition sample_dispatch :: dispatch where
  "sample_dispatch = Answer \<lparr>hr_status = 200, hr_retry_after = None, hr_body = VObj [(js ''task_id'', VStr (js ''t1''))]\<rparr>"

definition sample_read :: observation where
  "sample_read = \<lparr>ob_aborted = False, ob_reply = Some \<lparr>hr_status = 200, hr_retry_after = None,
      hr_body = VObj [(js ''success'', VBool True), (js ''result_data'', VNum (int_num 42))]\<rparr>, ob_left = 1000, ob_random = 0\<rparr>"

definition sample_wait :: observation where
  "sample_wait = \<lparr>ob_aborted = False, ob_reply = None, ob_left = 0, ob_random = 1\<rparr>"

theorem runOnCloud_returns_witness: "\<exists>r. runOnCloud sample_cloud sample_dispatch [sample_wait] = Some r"
  by (rule runOnCloud_returns) (simp add: sample_wait_def)

theorem runOnCloud_data_witness:
  "\<exists>reply. sample_dispatch = Answer reply \<and> ok_status reply"
proof -
  have "runOnCloud sample_cloud sample_dispatch [sample_read] = Some (Inr (VNum (int_num 42)))"
    by code_simp
  from runOnCloud_data [OF this] show ?thesis by blast
qed

theorem poll_waits_bounded_witness:
  "list_all (\<lambda>(s, ob). 0 \<le> s \<and> s \<le> ob_left ob \<and> s \<le> max 60000 (max_interval (cr_timing sample_cloud) * (6 / 5)))
     (zip (snd (poll_loop [] (max_interval (cr_timing sample_cloud)) (first_interval (cr_timing sample_cloud)) 0 [sample_wait])) [sample_wait])"
  unfolding list_all_iff by (rule poll_waits_bounded) (simp add: sample_wait_def)

subsection \<open>Contracts\<close>

definition sample_contract :: jsval where
  "sample_contract = VObj
     [(js ''format'', VStr CONTRACT_FORMAT), (js ''generated_at'', VStr (js ''2026-01-01'')), (js ''generator'', VStr (js ''writ'')),
      (js ''packages'', VArr [VObj [(js ''id'', VStr (js ''acme/pos''))]]),
      (js ''functions'', VArr [VObj [(js ''key'', VStr (js ''pos.lookup'')), (js ''description'', VStr []),
         (js ''package'', VStr (js ''acme/pos'')), (js ''inputs'', VArr []), (js ''outputs'', VArr []),
         (js ''writes'', VBool False), (js ''local_network'', VArr [])]])]"

lemma sample_contract_keys:
  "map_sum (\<lambda>_. ()) (\<lambda>c. map cf_key (ct_functions c)) (validateContract (\<lambda>_. True) sample_contract) = Inr [js ''pos.lookup'']"
  by code_simp

lemma sample_contract_valid:
  obtains c where "validateContract (\<lambda>_. True) sample_contract = Inr c" "map cf_key (ct_functions c) = [js ''pos.lookup'']"
  using sample_contract_keys by (cases "validateContract (\<lambda>_. True) sample_contract") auto

theorem validateContract_valid_witness:
  "\<exists>c ids. validateContract (\<lambda>_. True) sample_contract = Inr c \<and> valid_functions ids (ct_functions c)"
proof -
  obtain c where c: "validateContract (\<lambda>_. True) sample_contract = Inr c" by (rule sample_contract_valid)
  from validateContract_valid [OF this] show ?thesis using c by blast
qed

theorem buildTree_validated_witness:
  "\<exists>c t. validateContract (\<lambda>_. True) sample_contract = Inr c \<and> buildTree (ct_functions c) cf_key [] = Some t \<and>
     tree_get [js ''pos'', js ''lookup''] t = Some (js ''pos.lookup'')"
proof -
  obtain c where c: "validateContract (\<lambda>_. True) sample_contract = Inr c" "map cf_key (ct_functions c) = [js ''pos.lookup'']"
    by (rule sample_contract_valid)
  obtain t where t: "buildTree (ct_functions c) cf_key [] = Some t" "\<And>path m. tree_get path t = Some m \<longleftrightarrow>
       (\<exists>fn \<in> set (ct_functions c). js_join dot path = cf_key fn \<and> path \<noteq> [] \<and> (\<forall>s \<in> set path. dot \<notin> set s) \<and> m = cf_key fn)"
    using buildTree_validated [OF c(1), of cf_key] by blast
  have "js_join dot [js ''pos'', js ''lookup''] = js ''pos.lookup''" "\<forall>s \<in> set [js ''pos'', js ''lookup'']. dot \<notin> set s"
    by code_simp+
  moreover obtain fn where "fn \<in> set (ct_functions c)" "cf_key fn = js ''pos.lookup''" using c(2) by (cases "ct_functions c") auto
  ultimately have "tree_get [js ''pos'', js ''lookup''] t = Some (js ''pos.lookup'')" unfolding t(2) by (intro bexI [of _ fn]) simp_all
  then show ?thesis using c t(1) by blast
qed

theorem checkInputs_inherited_name_witness:
  "checkInputs (sample_function\<lparr>cf_inputs := [\<lparr>ci_name = js ''toString'', ci_required = True, ci_description = None\<rparr>]\<rparr>) (VObj []) = Inr []"
  by (rule checkInputs_inherited_name [where i = "\<lparr>ci_name = js ''toString'', ci_required = True, ci_description = None\<rparr>"])
    (simp_all add: PROTOTYPE_NAMES_def)

theorem checkInputs_sound_witness:
  "is_json (VObj []) \<and> nesting (VObj []) \<le> MAX_JSON_DEPTH"
proof -
  have "checkInputs sample_function (VObj []) = Inr []"
    by (rule checkInputs_ok) (auto simp: sample_function_def utf8Length_def obj_text_def MAX_INPUT_BYTES_def MAX_JSON_DEPTH_def
        utf8_point_def is_high_def is_low_def)
  from checkInputs_sound [OF this] show ?thesis by simp
qed

subsection \<open>Run tokens\<close>

theorem mintRunToken_errors_witness:
  "err_code (err CONFIG_INVALID) \<in> {CONFIG_INVALID, BAD_REQUEST, INPUT_INVALID}"
proof -
  have "mintRunToken sample_crypto (VStr []) (VObj []) 0 = Inl (err CONFIG_INVALID)"
    by (simp add: mintRunToken_def checkSecretKey_def js_startsWith_def SECRET_KEY_PREFIX_def)
  from mintRunToken_errors [OF this] show ?thesis by blast
qed

end
