(* ===== verification/Bridge.thy ===== *)
theory Bridge
  imports Page_Channel Cloud_Run
begin

section \<open>The bridge object (server-node/src/bridge.ts)\<close>

text \<open>
  \<open>createWritBridge\<close> checks its options and settles every function's mode; the object it answers mints
  tokens and challenges, verifies receipts, and runs functions on a user's computer or on Writ Cloud.
  \<open>new URL\<close>, the environment and the network are arguments; the state is the memory store.
\<close>

subsection \<open>Options\<close>

record url =
  u_href :: jsstring
  u_protocol :: jsstring
  u_hostname :: jsstring
  u_search :: jsstring
  u_hash :: jsstring
  u_username :: jsstring
  u_password :: jsstring

text \<open>An option that must be a function when it is given.\<close>

datatype 'f hook = Absent | Given 'f | NotAFunction

datatype secret_option = NoSecret | Secret secret | OtherSecret

datatype pin_option = PinDefault | PinPolicy device_policy | PinOther

record bridge_options =
  op_contract :: jsval
  op_mode :: jsval
  op_functionModes :: jsval
  op_secret :: secret_option
  op_apiKey :: jsval
  op_pollSeconds :: jsval
  op_cloudBase :: jsval
  op_pinDevices :: pin_option
  op_authorizeRun :: "(jsstring \<Rightarrow> jsstring \<Rightarrow> fields \<Rightarrow> bool) hook"
  op_cloudPoll :: poll_timing
  op_maxBodyBytes :: jsval
  op_fetch :: "unit hook"
  op_now :: "unit hook"

text \<open>What the bridge finds around it: environment variables, \<open>new URL\<close>, \<open>Date.parse\<close>, a global \<open>fetch\<close>.\<close>

record surroundings =
  env_secret :: "jsstring option"
  env_apiKey :: "jsstring option"
  parse_url :: "jsstring \<Rightarrow> url option"
  date_ok :: "jsstring \<Rightarrow> bool"
  global_fetch :: bool

record bridge =
  br_functions :: "contract_function list"
  br_modes :: "jsstring \<rightharpoonup> WritBridgeMode"
  br_secret :: "secret option"
  br_apiKey :: "jsstring option"
  br_pollSeconds :: int
  br_cloudBase :: jsstring
  br_maxBodyBytes :: int
  br_devices :: device_policy
  br_authorizeRun :: "(jsstring \<Rightarrow> jsstring \<Rightarrow> fields \<Rightarrow> bool) option"
  br_cloudPoll :: poll_timing
  br_fetch :: bool

definition localNetworkOf :: "contract_function \<Rightarrow> jsstring list" where
  "localNetworkOf fn =
     cf_local_network fn @
     map (\<lambda>s. js ''{{'' @ cs_key s @ js ''}}'')
       (filter (\<lambda>s. cs_kind s = KindLanHost) (case cf_settings fn of None \<Rightarrow> [] | Some ss \<Rightarrow> ss))"

abbreviation configInvalid :: bridge_error where
  "configInvalid \<equiv> err CONFIG_INVALID"

definition env :: "jsstring option \<Rightarrow> jsstring option" where
  "env value = (if value = Some [] then None else value)"

definition js_opt :: "jsstring option \<Rightarrow> jsval" where
  "js_opt x = (case x of None \<Rightarrow> VUndef | Some s \<Rightarrow> VStr s)"

definition strip_slashes :: "jsstring \<Rightarrow> jsstring" where
  "strip_slashes s = rev (dropWhile (\<lambda>u. u = 47) (rev s))"

definition cloudBaseOf :: "(jsstring \<Rightarrow> url option) \<Rightarrow> jsval \<Rightarrow> bridge_error + jsstring" where
  "cloudBaseOf new_URL raw =
     res_bind (req (str_of raw) configInvalid) (\<lambda>text.
     res_bind (req (new_URL text) configInvalid) (\<lambda>url.
     let local = u_hostname url \<in> {js ''localhost'', js ''127.0.0.1'', js ''[::1]''} in
     res_bind (guard (u_protocol url = js ''https:'' \<or> (u_protocol url = js ''http:'' \<and> local)) configInvalid) (\<lambda>_.
     res_bind (guard (u_search url = [] \<and> u_hash url = [] \<and> u_username url = [] \<and> u_password url = []) configInvalid) (\<lambda>_.
     Inr (strip_slashes (u_href url))))))"

subsection \<open>Creation\<close>

text \<open>\<open>functionModes\<close>: entry by entry.\<close>

definition add_override ::
  "contract_function list \<Rightarrow> jsstring \<times> jsval \<Rightarrow> (jsstring \<rightharpoonup> WritBridgeMode) \<Rightarrow> bridge_error + (jsstring \<rightharpoonup> WritBridgeMode)" where
  "add_override functions entry acc =
     res_bind (guard (fst entry \<in> set (map cf_key functions)) configInvalid) (\<lambda>_.
     res_bind (req (mode_of (snd entry)) configInvalid) (\<lambda>mode.
     Inr (acc(fst entry \<mapsto> mode))))"

definition overrides_of :: "contract_function list \<Rightarrow> jsval \<Rightarrow> bridge_error + (jsstring \<rightharpoonup> WritBridgeMode)" where
  "overrides_of functions v =
     (if v = VUndef then Inr Map.empty
      else res_bind (req (obj_of v) configInvalid) (\<lambda>entries. fold_res (add_override functions) entries Map.empty))"

text \<open>The secret: an empty one is none, a short one is refused.\<close>

definition secret_of :: "secret_option \<Rightarrow> jsstring option \<Rightarrow> bridge_error + secret option" where
  "secret_of given fromEnv =
     (case (case given of NoSecret \<Rightarrow> (case env fromEnv of None \<Rightarrow> NoSecret | Some s \<Rightarrow> Secret (SecretText s)) | _ \<Rightarrow> given) of
        NoSecret \<Rightarrow> Inr None
      | OtherSecret \<Rightarrow> Inl configInvalid
      | Secret s \<Rightarrow>
          (let n = length (secretBytes s) in
           if n = 0 then Inr None else if n < MIN_SECRET_BYTES then Inl configInvalid else Inr (Some s)))"

definition apiKey_of :: "jsval \<Rightarrow> jsstring option \<Rightarrow> bridge_error + jsstring option" where
  "apiKey_of given fromEnv =
     (let raw = or_else given (js_opt (env fromEnv)) in
      if raw = VUndef then Inr None
      else res_bind (req (str_of raw) configInvalid) (\<lambda>key. Inr (if js_trim key \<noteq> [] then Some (js_trim key) else None)))"

text \<open>The effective mode of one function.\<close>

definition effective_mode ::
  "(jsstring \<rightharpoonup> WritBridgeMode) \<Rightarrow> WritBridgeMode \<Rightarrow> jsstring option \<Rightarrow> contract_function \<Rightarrow> bridge_error + WritBridgeMode" where
  "effective_mode overrides bridgeMode apiKey fn =
     (let explicit = (case overrides (cf_key fn) of Some mode \<Rightarrow> Some mode | None \<Rightarrow> cf_mode fn) in
      res_bind (if localNetworkOf fn \<noteq> []
                then res_bind (guard (explicit = None \<or> explicit = Some Required) configInvalid) (\<lambda>_. Inr Required)
                else Inr (case explicit of Some mode \<Rightarrow> mode | None \<Rightarrow> bridgeMode)) (\<lambda>mode.
      res_bind (guard (mode = Required \<or> cf_cloud fn \<noteq> None) (err CLOUD_NOT_CONFIGURED)) (\<lambda>_.
      res_bind (guard (mode = Required \<or> apiKey \<noteq> None) (err CLOUD_NOT_CONFIGURED)) (\<lambda>_.
      Inr mode))))"

definition set_mode ::
  "(jsstring \<rightharpoonup> WritBridgeMode) \<Rightarrow> WritBridgeMode \<Rightarrow> jsstring option \<Rightarrow> contract_function \<Rightarrow> (jsstring \<rightharpoonup> WritBridgeMode) \<Rightarrow>
     bridge_error + (jsstring \<rightharpoonup> WritBridgeMode)" where
  "set_mode overrides bridgeMode apiKey fn acc =
     res_bind (effective_mode overrides bridgeMode apiKey fn) (\<lambda>mode. Inr (acc(cf_key fn \<mapsto> mode)))"

definition hook_ok :: "'f hook \<Rightarrow> bridge_error + unit" where
  "hook_ok h = guard (h \<noteq> NotAFunction) configInvalid"

definition createWritBridge :: "surroundings \<Rightarrow> bridge_options option \<Rightarrow> bridge_error + bridge" where
  "createWritBridge W opts =
     res_bind (req opts configInvalid) (\<lambda>options.
     res_bind (validateContract (date_ok W) (op_contract options)) (\<lambda>contract.
     let functions = ct_functions contract in
     res_bind (req (mode_of (or_else (op_mode options) (VStr (js ''required'')))) configInvalid) (\<lambda>bridgeMode.
     res_bind (overrides_of functions (op_functionModes options)) (\<lambda>overrides.
     res_bind (secret_of (op_secret options) (env_secret W)) (\<lambda>secret.
     res_bind (apiKey_of (op_apiKey options) (env_apiKey W)) (\<lambda>apiKey.
     res_bind (req (whole_int (or_else (op_pollSeconds options) (VNum (int_num DEFAULT_POLL_SECONDS)))) configInvalid) (\<lambda>pollSeconds.
     res_bind (guard (MIN_POLL_SECONDS \<le> pollSeconds \<and> pollSeconds \<le> MAX_POLL_SECONDS) configInvalid) (\<lambda>_.
     res_bind (cloudBaseOf (parse_url W) (or_else (op_cloudBase options) (VStr DEFAULT_CLOUD_BASE))) (\<lambda>cloudBase.
     res_bind (req (safe_int (or_else (op_maxBodyBytes options) (VNum (int_num (int DEFAULT_MAX_BODY_BYTES))))) configInvalid) (\<lambda>maxBodyBytes.
     res_bind (guard (1024 \<le> maxBodyBytes) configInvalid) (\<lambda>_.
     res_bind (case op_pinDevices options of PinDefault \<Rightarrow> Inr FirstUse | PinPolicy p \<Rightarrow> Inr p | PinOther \<Rightarrow> Inl configInvalid) (\<lambda>devices.
     res_bind (hook_ok (op_authorizeRun options)) (\<lambda>_.
     res_bind (hook_ok (op_fetch options)) (\<lambda>_.
     res_bind (hook_ok (op_now options)) (\<lambda>_.
     res_bind (fold_res (set_mode overrides bridgeMode apiKey) functions Map.empty) (\<lambda>modes.
     res_bind (guard (secret \<noteq> None \<or> list_all (\<lambda>fn. modes (cf_key fn) = Some Cloud) functions) configInvalid) (\<lambda>_.
     res_bind (guard (list_all (\<lambda>fn. hd (segments (cf_key fn)) \<notin> set BRIDGE_MEMBER_NAMES) functions) configInvalid) (\<lambda>_.
     let fetcher = (op_fetch options = Given () \<or> global_fetch W) in
     res_bind (guard (fetcher \<or> apiKey = None) configInvalid) (\<lambda>_.
     Inr \<lparr>br_functions = functions, br_modes = modes, br_secret = secret, br_apiKey = apiKey,
          br_pollSeconds = pollSeconds, br_cloudBase = cloudBase, br_maxBodyBytes = maxBodyBytes, br_devices = devices,
          br_authorizeRun = (case op_authorizeRun options of Given f \<Rightarrow> Some f | _ \<Rightarrow> None),
          br_cloudPoll = op_cloudPoll options, br_fetch = fetcher\<rparr>)))))))))))))))))))"

subsection \<open>Helpers of the object\<close>

definition modeOf :: "bridge \<Rightarrow> jsstring \<Rightarrow> bridge_error + WritBridgeMode" where
  "modeOf br key = req (br_modes br key) (err INPUT_INVALID)"

definition requireSecret :: "bridge \<Rightarrow> bridge_error + secret" where
  "requireSecret br = req (br_secret br) configInvalid"

definition ttlOf :: "jsval \<Rightarrow> int \<Rightarrow> bridge_error + int" where
  "ttlOf v fallback =
     res_bind (req (safe_int (or_else v (VNum (int_num fallback)))) (err BAD_REQUEST)) (\<lambda>ttl.
     res_bind (guard (1 \<le> ttl \<and> ttl \<le> MAX_TOKEN_TTL_SECONDS) (err BAD_REQUEST)) (\<lambda>_. Inr ttl))"

definition userOf :: "jsval \<Rightarrow> bridge_error + jsstring" where
  "userOf userId = req (subjectOf userId) (err INPUT_INVALID)"

text \<open>The page channel of the bridge.\<close>

definition channel_of :: "bridge \<Rightarrow> channel" where
  "channel_of br =
     \<lparr>ch_secret = br_secret br, ch_pollSeconds = br_pollSeconds br, ch_maxBodyBytes = br_maxBodyBytes br,
      ch_functions = br_functions br, ch_modes = br_modes br, ch_devices = br_devices br, ch_authorizeRun = br_authorizeRun br\<rparr>"

subsection \<open>Call options\<close>

record user_call =
  uc_timeoutMs :: int
  uc_waitForUserMs :: int
  uc_dryRun :: bool

definition timeoutOf :: "jsval \<Rightarrow> bridge_error + int" where
  "timeoutOf v =
     (if v = VUndef then Inr DEFAULT_CALL_TIMEOUT_MS
      else res_bind (req (whole_int v) (err BAD_REQUEST)) (\<lambda>t.
           res_bind (guard (MIN_CALL_TIMEOUT_MS \<le> t \<and> t \<le> MAX_CALL_TIMEOUT_MS) (err BAD_REQUEST)) (\<lambda>_. Inr t)))"

definition dryRunOf :: "jsval \<Rightarrow> bridge_error + bool" where
  "dryRunOf v = (if v = VUndef then Inr False else req (bool_of v) (err BAD_REQUEST))"

definition options_of :: "jsval \<Rightarrow> bridge_error + fields" where
  "options_of raw = (if raw = VUndef then Inr [] else req (obj_of raw) (err BAD_REQUEST))"

definition userCallOptions :: "jsval \<Rightarrow> bridge_error + user_call" where
  "userCallOptions raw =
     res_bind (options_of raw) (\<lambda>options.
     res_bind (req (whole_int (or_else (jget options (js ''waitForUserMs'')) (VNum (int_num 0)))) (err BAD_REQUEST)) (\<lambda>wait.
     res_bind (guard (0 \<le> wait \<and> wait \<le> MAX_WAIT_FOR_USER_MS) (err BAD_REQUEST)) (\<lambda>_.
     res_bind (timeoutOf (jget options (js ''timeoutMs''))) (\<lambda>timeoutMs.
     res_bind (dryRunOf (jget options (js ''dryRun''))) (\<lambda>dryRun.
     Inr \<lparr>uc_timeoutMs = timeoutMs, uc_waitForUserMs = wait, uc_dryRun = dryRun\<rparr>)))))"

definition cloudCallOptions :: "jsval \<Rightarrow> bridge_error + int \<times> bool" where
  "cloudCallOptions raw =
     res_bind (options_of raw) (\<lambda>options.
     res_bind (timeoutOf (jget options (js ''timeoutMs''))) (\<lambda>timeoutMs.
     res_bind (dryRunOf (jget options (js ''dryRun''))) (\<lambda>dryRun. Inr (timeoutMs, dryRun))))"

subsection \<open>Writ Cloud\<close>

text \<open>A run takes what the network answers: the dispatch and the turns of the polling loop.\<close>

type_synonym cloud_answers = "dispatch \<times> observation list"

definition runCloud :: "bridge \<Rightarrow> contract_function \<Rightarrow> fields \<Rightarrow> bool \<Rightarrow> cloud_answers \<Rightarrow> (bridge_error + jsval) option" where
  "runCloud br fn inputs dryRun answers =
     (case cf_cloud fn of
        None \<Rightarrow> Some (Inl (err CLOUD_NOT_CONFIGURED))
      | Some mapping \<Rightarrow>
          if br_apiKey br = None \<or> \<not> br_fetch br then Some (Inl (err CLOUD_NOT_CONFIGURED))
          else runOnCloud
            \<lparr>cr_base = br_cloudBase br, cr_mapping = mapping, cr_inputs = inputs, cr_dryRun = dryRun, cr_timing = br_cloudPoll br\<rparr>
            (fst answers) (snd answers))"

subsection \<open>The user's computer\<close>

datatype route = RouteUser | RouteAway code

definition routeFor :: "int \<Rightarrow> jsstring \<Rightarrow> jsstring \<Rightarrow> memory \<Rightarrow> route \<times> memory" where
  "routeFor now u key m =
     (case getPresence now u m of
        (None, m1) \<Rightarrow> (RouteAway WRIT_REQUIRED, m1)
      | (Some p, m1) \<Rightarrow>
          let online = (now - pr_last_seen p \<le> PRESENCE_TTL_MS) in
          (if online \<and> pr_ready p \<and> key \<in> set (pr_granted p) then RouteUser
           else if online \<and> pr_ready p then RouteAway NOT_GRANTED
           else if online then RouteAway WRIT_REQUIRED
           else if pr_ever_ready p then RouteAway USER_OFFLINE
           else RouteAway WRIT_REQUIRED, m1))"

text \<open>The re-checks of \<open>waitForUser\<close> before its deadline: when each happens, and what other requests did.\<close>

fun waitForUser :: "jsstring \<Rightarrow> jsstring \<Rightarrow> int \<Rightarrow> (int \<times> (memory \<Rightarrow> memory)) list \<Rightarrow> memory \<Rightarrow> route \<times> memory" where
  "waitForUser u key now wakes m =
     (case routeFor now u key m of
        (RouteUser, m1) \<Rightarrow> (RouteUser, m1)
      | (RouteAway c, m1) \<Rightarrow>
          (case wakes of [] \<Rightarrow> (RouteAway c, m1) | (now', others) # wakes' \<Rightarrow> waitForUser u key now' wakes' (others m1)))"

declare waitForUser.simps [simp del]

definition ceil_div :: "int \<Rightarrow> int \<Rightarrow> int" where
  "ceil_div a b = - ((- a) div b)"

datatype attempt = Done jsval receipt | Away code | Fail bridge_error

definition command_expiry :: "int \<Rightarrow> int \<Rightarrow> int" where
  "command_expiry sentAt timeoutMs = ceil_div (sentAt + timeoutMs) 1000"

definition challenge_expiry :: "int \<Rightarrow> int \<Rightarrow> int" where
  "challenge_expiry sentAt timeoutMs = ceil_div (sentAt + timeoutMs + RESULT_GRACE_MS) 1000 + 1"

definition outcome_error :: "jsstring \<Rightarrow> jsstring \<Rightarrow> receipt option \<Rightarrow> device option \<Rightarrow> bridge_error" where
  "outcome_error i code receipt unknownDevice =
     BridgeError (normalizeVisitorCode code) []
       ([(js ''commandId'', VStr i)] @
        (case receipt of None \<Rightarrow> [] | Some r \<Rightarrow> [(js ''receipt'', VObj (rc_raw r))]) @
        (if js (code_name (normalizeVisitorCode code)) \<noteq> code then [(js ''visitorCode'', VStr code)] else []) @
        (case unknownDevice of None \<Rightarrow> [] | Some d \<Rightarrow>
           [(js ''unknownDevice'', VBool True),
            (js ''device'', VObj [(js ''kid'', VStr (dv_kid d)), (js ''alg'', VStr (js ''Ed25519'')),
               (js ''public_key'', VStr (dv_public_key d)), (js ''hardware'', VBool (dv_hardware d))])]))"

definition attempt_of :: "jsstring \<Rightarrow> command_outcome \<Rightarrow> attempt" where
  "attempt_of i out =
     (case out of
        OutcomeOk data receipt \<Rightarrow> Done data receipt
      | OutcomeError code message receipt unknownDevice \<Rightarrow>
          if normalizeVisitorCode code = NOT_GRANTED \<and> receipt = None then Away NOT_GRANTED
          else Fail (outcome_error i code receipt unknownDevice))"

text \<open>What happens around a command: its random id, when it is sent, and the wake-ups of its two waits.\<close>

record exchange =
  xc_random :: bytes
  xc_sentAt :: int
  xc_pickup :: "(int \<times> (memory \<Rightarrow> memory)) list"
  xc_rest :: "(int \<times> (memory \<Rightarrow> memory)) list"
  xc_pickedUp :: int

definition command_of :: "contract_function \<Rightarrow> fields \<Rightarrow> user_call \<Rightarrow> jsstring \<Rightarrow> jsstring \<Rightarrow> int \<Rightarrow> command" where
  "command_of fn inputs call i challenge sentAt =
     \<lparr>cmd_id = i, cmd_key = cf_key fn, cmd_inputs = inputs, cmd_timeout_ms = uc_timeoutMs call, cmd_dry_run = uc_dryRun call,
      cmd_challenge = challenge, cmd_expires_at = command_expiry sentAt (uc_timeoutMs call)\<rparr>"

definition pending_of :: "jsstring \<Rightarrow> contract_function \<Rightarrow> user_call \<Rightarrow> jsstring \<Rightarrow> jsstring \<Rightarrow> int \<Rightarrow> jsstring \<Rightarrow> pending_command" where
  "pending_of u fn call i challenge sentAt hash =
     \<lparr>pd_id = i, pd_user = u, pd_key = cf_key fn, pd_challenge = challenge,
      pd_expires_at = challenge_expiry sentAt (uc_timeoutMs call), pd_inputs_hash = Some hash\<rparr>"

text \<open>What is made before the command is queued: its id, which is the challenge's nonce, the challenge, and the hash
  that binds the inputs to it.\<close>

definition prepare ::
  "crypto \<Rightarrow> bridge \<Rightarrow> jsstring \<Rightarrow> contract_function \<Rightarrow> fields \<Rightarrow> user_call \<Rightarrow> exchange \<Rightarrow>
     bridge_error + jsstring \<times> jsstring \<times> jsstring" where
  "prepare C br u fn inputs call X =
     res_bind (requireSecret br) (\<lambda>secret.
     let i = newNonce (xc_random X) in
     res_bind (mintChallenge C secret \<lparr>cp_sub = u, cp_key = cf_key fn, cp_nonce = i,
        cp_exp = challenge_expiry (xc_sentAt X) (uc_timeoutMs call)\<rparr>) (\<lambda>challenge.
     res_bind (inputsHash C (Some challenge) (VObj inputs)) (\<lambda>hash. Inr (i, challenge, hash))))"

definition runOnUser ::
  "crypto \<Rightarrow> bridge \<Rightarrow> jsstring \<Rightarrow> contract_function \<Rightarrow> fields \<Rightarrow> user_call \<Rightarrow> exchange \<Rightarrow> memory \<Rightarrow> attempt \<times> memory" where
  "runOnUser C br u fn inputs call X m =
     (case prepare C br u fn inputs call X of
        Inl e \<Rightarrow> (Fail e, m)
      | Inr (i, challenge, hash) \<Rightarrow>
          (let command = command_of fn inputs call i challenge (xc_sentAt X);
               m1 = enqueue (xc_sentAt X) u command (pending_of u fn call i challenge (xc_sentAt X) hash)
                      (uc_timeoutMs call + RESULT_GRACE_MS + 1000) m in
           (case awaitResult i (xc_sentAt X) (xc_pickup X) m1 of
              (Some out, m2) \<Rightarrow> (attempt_of i out, m2)
            | (None, m2) \<Rightarrow>
                (case withdraw u command m2 of
                   (True, m3) \<Rightarrow> (Away USER_OFFLINE, cancel i m3)
                 | (False, m3) \<Rightarrow>
                     (case awaitResult i (xc_pickedUp X) (xc_rest X) m3 of
                        (Some out, m4) \<Rightarrow> (attempt_of i out, m4)
                      | (None, m4) \<Rightarrow>
                          (Fail (BridgeError TIMEOUT [] [(js ''commandId'', VStr i)]), cancel i m4))))))"

definition awayError :: "code \<Rightarrow> bridge_error" where
  "awayError c = (case c of NOT_GRANTED \<Rightarrow> err NOT_GRANTED | USER_OFFLINE \<Rightarrow> err USER_OFFLINE | _ \<Rightarrow> err WRIT_REQUIRED)"

subsection \<open>Calls\<close>

datatype venue = OnUser receipt | OnCloud

record call_result =
  res_data :: jsval
  res_venue :: venue

definition on_cloud :: "(bridge_error + jsval) option \<Rightarrow> (bridge_error + call_result) option" where
  "on_cloud r = map_option (map_sum id (\<lambda>data. \<lparr>res_data = data, res_venue = OnCloud\<rparr>)) r"

text \<open>What a call meets: when it starts, the re-checks of its wait for the user and when the wait ends, the exchange of its
  command, and the answers of Writ Cloud.\<close>

record call_world =
  cw_now :: int
  cw_rechecks :: "(int \<times> (memory \<Rightarrow> memory)) list"
  cw_exchange :: exchange
  cw_cloud :: cloud_answers

definition fall_back ::
  "bridge \<Rightarrow> contract_function \<Rightarrow> fields \<Rightarrow> user_call \<Rightarrow> WritBridgeMode \<Rightarrow> call_world \<Rightarrow> code \<Rightarrow> (bridge_error + call_result) option" where
  "fall_back br fn inputs call mode X c =
     (if mode = Recommended then on_cloud (runCloud br fn inputs (uc_dryRun call) (cw_cloud X)) else Some (Inl (awayError c)))"

definition chosen_route ::
  "jsstring \<Rightarrow> jsstring \<Rightarrow> user_call \<Rightarrow> WritBridgeMode \<Rightarrow> call_world \<Rightarrow> memory \<Rightarrow> route \<times> memory" where
  "chosen_route u key call mode X m =
     (case routeFor (cw_now X) u key m of
        (RouteUser, m1) \<Rightarrow> (RouteUser, m1)
      | (RouteAway c, m1) \<Rightarrow>
          if mode = Required \<and> uc_waitForUserMs call > 0
          then waitForUser u key (cw_now X) (cw_rechecks X) m1 else (RouteAway c, m1))"

definition callForUser ::
  "crypto \<Rightarrow> bridge \<Rightarrow> jsstring \<Rightarrow> contract_function \<Rightarrow> jsval \<Rightarrow> jsval \<Rightarrow> call_world \<Rightarrow> memory \<Rightarrow>
     (bridge_error + call_result) option \<times> memory" where
  "callForUser C br u fn inputs rawOptions X m =
     (case res_bind (checkInputs fn inputs) (\<lambda>clean.
           res_bind (userCallOptions rawOptions) (\<lambda>call.
           res_bind (modeOf br (cf_key fn)) (\<lambda>mode. Inr (clean, call, mode)))) of
        Inl e \<Rightarrow> (Some (Inl e), m)
      | Inr (clean, call, mode) \<Rightarrow>
          if mode = Cloud then (on_cloud (runCloud br fn clean (uc_dryRun call) (cw_cloud X)), m)
          else
            (case chosen_route u (cf_key fn) call mode X m of
               (RouteAway c, m2) \<Rightarrow> (fall_back br fn clean call mode X c, m2)
             | (RouteUser, m2) \<Rightarrow>
                 (case runOnUser C br u fn clean call (cw_exchange X) m2 of
                    (Done data receipt, m3) \<Rightarrow> (Some (Inr \<lparr>res_data = data, res_venue = OnUser receipt\<rparr>), m3)
                  | (Fail e, m3) \<Rightarrow> (Some (Inl e), m3)
                  | (Away c, m3) \<Rightarrow> (fall_back br fn clean call mode X c, m3))))"

definition callOnCloud ::
  "bridge \<Rightarrow> contract_function \<Rightarrow> jsval \<Rightarrow> jsval \<Rightarrow> cloud_answers \<Rightarrow> (bridge_error + call_result) option" where
  "callOnCloud br fn inputs rawOptions answers =
     (case res_bind (checkInputs fn inputs) (\<lambda>clean.
           res_bind (cloudCallOptions rawOptions) (\<lambda>call.
           res_bind (modeOf br (cf_key fn)) (\<lambda>mode.
           res_bind (guard (mode \<noteq> Required) (err WRIT_REQUIRED)) (\<lambda>_. Inr (clean, call))))) of
        Inl e \<Rightarrow> Some (Inl e)
      | Inr (clean, call) \<Rightarrow> on_cloud (runCloud br fn clean (snd call) answers))"

subsection \<open>The members of the object\<close>

definition userToken :: "crypto \<Rightarrow> bridge \<Rightarrow> jsval \<Rightarrow> jsval \<Rightarrow> int \<Rightarrow> bridge_error + jsstring" where
  "userToken C br userId tokenOptions now =
     res_bind (userOf userId) (\<lambda>sub.
     res_bind (options_of tokenOptions) (\<lambda>opts.
     res_bind (ttlOf (jget opts (js ''ttlSeconds'')) DEFAULT_USER_TOKEN_TTL_SECONDS) (\<lambda>ttl.
     res_bind (requireSecret br) (\<lambda>secret. mintUserToken C secret sub (now div 1000 + ttl)))))"

definition challenge :: "crypto \<Rightarrow> bridge \<Rightarrow> jsval \<Rightarrow> bytes \<Rightarrow> int \<Rightarrow> bridge_error + jsstring" where
  "challenge C br challengeOptions random16 now =
     res_bind (req (obj_of challengeOptions) (err BAD_REQUEST)) (\<lambda>opts.
     res_bind (req (subjectOf (jget opts (js ''subject''))) (err INPUT_INVALID)) (\<lambda>sub.
     res_bind (req (str_of (jget opts (js ''key''))) (err INPUT_INVALID)) (\<lambda>key.
     res_bind (modeOf br key) (\<lambda>_.
     res_bind (ttlOf (jget opts (js ''ttlSeconds'')) DEFAULT_CHALLENGE_TTL_SECONDS) (\<lambda>ttl.
     res_bind (requireSecret br) (\<lambda>secret.
     mintChallenge C secret \<lparr>cp_sub = sub, cp_key = key, cp_nonce = newNonce random16, cp_exp = now div 1000 + ttl\<rparr>))))))"

text \<open>A property read without what the prototype contributes: \<open>undefined\<close> is no expectation.\<close>

definition given :: "fields \<Rightarrow> jsstring \<Rightarrow> jsval option" where
  "given opts k = (if jget opts k = VUndef then None else Some (jget opts k))"

definition verify_expectations :: "bridge \<Rightarrow> jsval \<Rightarrow> int \<Rightarrow> bridge_error + memory expectations" where
  "verify_expectations br verifyOptions now =
     res_bind (req (obj_of verifyOptions) (err BAD_REQUEST)) (\<lambda>opts.
     res_bind (req (str_of (jget opts (js ''challenge''))) (err BAD_REQUEST)) (\<lambda>ch.
     res_bind (req (str_of (jget opts (js ''key''))) (err BAD_REQUEST)) (\<lambda>key.
     res_bind (requireSecret br) (\<lambda>secret.
     res_bind (case given opts (js ''subject'') of None \<Rightarrow> Inr None
               | Some v \<Rightarrow> map_sum id Some (req (subjectOf v) (err BAD_REQUEST))) (\<lambda>subject.
     res_bind (case given opts (js ''origin'') of None \<Rightarrow> Inr None
               | Some v \<Rightarrow> map_sum id Some (req (str_of v) (err BAD_REQUEST))) (\<lambda>origin.
     Inr \<lparr>ex_secret = secret, ex_nowSeconds = now div 1000, ex_challenge = ch, ex_key = key, ex_subject = subject,
          ex_nonce = None, ex_origin = origin, ex_data = given opts (js ''data''), ex_inputs = given opts (js ''inputs''),
          ex_inputsHash = None, ex_requireSuccess = True, ex_devices = br_devices br, ex_hookWait = id,
          ex_checkDevice = (\<lambda>s k f m. map_prod Some id (checkDevice s k f m)),
          ex_spendNonce = (\<lambda>n ttl m. spendNonce now n ttl m)\<rparr>))))))"

text \<open>The answer of \<open>verify\<close> is the verdict without the receipt.\<close>

definition verify ::
  "crypto \<Rightarrow> (jsstring \<Rightarrow> jsstring option) \<Rightarrow> bridge \<Rightarrow> jsval \<Rightarrow> jsval \<Rightarrow> int \<Rightarrow> memory \<Rightarrow> (bridge_error + verdict) \<times> memory" where
  "verify C url_origin br receipt verifyOptions now m =
     (case verify_expectations br verifyOptions now of
        Inl e \<Rightarrow> (Inl e, m)
      | Inr ex \<Rightarrow> (case checkReceipt C url_origin receipt ex m of
          (vd, m1) \<Rightarrow> (Inr (vd\<lparr>vd_receipt := None\<rparr>), m1)))"

text \<open>\<open>/^[A-Za-z0-9+/_-]{43}=?$/\<close>.\<close>

definition device_key_text :: "jsstring \<Rightarrow> bool" where
  "device_key_text s \<longleftrightarrow>
     (length s = 43 \<or> (length s = 44 \<and> last s = 61)) \<and>
     list_all (\<lambda>u. is_alnum u \<or> u = 43 \<or> u = 47 \<or> u = 95 \<or> u = 45) (take 43 s)"

definition approveDevice :: "jsval \<Rightarrow> jsval \<Rightarrow> memory \<Rightarrow> (bridge_error + unit) \<times> memory" where
  "approveDevice userId dev m =
     (case res_bind (req (str_of (case dev of VStr s \<Rightarrow> VStr s | VObj d \<Rightarrow> jget d (js ''public_key'') | _ \<Rightarrow> VUndef)) (err BAD_REQUEST)) (\<lambda>publicKey.
           res_bind (guard (device_key_text publicKey) (err BAD_REQUEST)) (\<lambda>_.
           res_bind (userOf userId) (\<lambda>sub. Inr (sub, publicKey)))) of
        Inl e \<Rightarrow> (Inl e, m)
      | Inr (sub, publicKey) \<Rightarrow> (Inr (), pinDevice sub publicKey m))"

definition forgetUserDevices :: "jsval \<Rightarrow> memory \<Rightarrow> (bridge_error + unit) \<times> memory" where
  "forgetUserDevices userId m =
     (case userOf userId of Inl e \<Rightarrow> (Inl e, m) | Inr sub \<Rightarrow> (Inr (), forgetDevices sub m))"

definition online :: "int \<Rightarrow> jsval \<Rightarrow> memory \<Rightarrow> (bridge_error + bool) \<times> memory" where
  "online now userId m =
     (case userOf userId of
        Inl e \<Rightarrow> (Inl e, m)
      | Inr sub \<Rightarrow> (case getPresence now sub m of
          (p, m1) \<Rightarrow> (Inr (case p of None \<Rightarrow> False | Some p \<Rightarrow> pr_ready p \<and> now - pr_last_seen p \<le> PRESENCE_TTL_MS), m1)))"

subsection \<open>The modes of a created bridge\<close>

lemma modes_fold:
  "fold_res (set_mode ov bm ak) fns acc = Inr modes \<Longrightarrow> distinct (map cf_key fns) \<Longrightarrow>
     (\<forall>fn \<in> set fns. \<exists>mode. effective_mode ov bm ak fn = Inr mode \<and> modes (cf_key fn) = Some mode) \<and>
     (\<forall>k. k \<notin> set (map cf_key fns) \<longrightarrow> modes k = acc k)"
proof (induction fns arbitrary: acc)
  case Nil
  then show ?case by simp
next
  case (Cons fn fns)
  then obtain mode where m: "effective_mode ov bm ak fn = Inr mode"
      and f: "fold_res (set_mode ov bm ak) fns (acc(cf_key fn \<mapsto> mode)) = Inr modes"
    unfolding fold_res.simps set_mode_def res_bind_eq_Inr by (elim exE conjE) (auto simp only: sum.inject)
  have d: "distinct (map cf_key fns)" "cf_key fn \<notin> set (map cf_key fns)" using Cons.prems(2) by simp_all
  show ?case using Cons.IH [OF f d(1)] m d(2) by auto
qed

lemma effective_mode_Inr:
  "effective_mode ov bm ak fn = Inr mode \<Longrightarrow>
     (localNetworkOf fn \<noteq> [] \<longrightarrow> mode = Required) \<and> (mode \<noteq> Required \<longrightarrow> cf_cloud fn \<noteq> None \<and> ak \<noteq> None)"
  by (auto simp: effective_mode_def Let_def result_simps split: if_splits)

lemma secret_of_Inr: "secret_of g e = Inr (Some s) \<Longrightarrow> MIN_SECRET_BYTES \<le> length (secretBytes s)"
  by (auto simp: secret_of_def Let_def split: secret_option.splits option.splits if_splits)

lemma createWritBridge_parts:
  assumes "createWritBridge W opts = Inr br"
  shows "\<exists>ov bm g e. fold_res (set_mode ov bm (br_apiKey br)) (br_functions br) Map.empty = Inr (br_modes br) \<and>
    distinct (map cf_key (br_functions br)) \<and> br_functions br \<noteq> [] \<and> secret_of g e = Inr (br_secret br) \<and>
    (br_secret br \<noteq> None \<or> list_all (\<lambda>fn. br_modes br (cf_key fn) = Some Cloud) (br_functions br)) \<and>
    (br_fetch br \<or> br_apiKey br = None)"
  using assms unfolding createWritBridge_def res_bind_eq_Inr req_eq guard_eq Let_def
proof (elim exE conjE)
  fix options contract bridgeMode ov secret apiKey pollSeconds cloudBase maxBodyBytes devices modes and u :: unit
  assume v: "validateContract (date_ok W) (op_contract options) = Inr contract"
    and s: "secret_of (op_secret options) (env_secret W) = Inr secret"
    and m: "fold_res (set_mode ov bridgeMode apiKey) (ct_functions contract) Map.empty = Inr modes"
    and c: "secret \<noteq> None \<or> list_all (\<lambda>fn. modes (cf_key fn) = Some Cloud) (ct_functions contract)"
    and f: "(op_fetch options = Given () \<or> global_fetch W) \<or> apiKey = None"
    and br: "Inr \<lparr>br_functions = ct_functions contract, br_modes = modes, br_secret = secret, br_apiKey = apiKey,
          br_pollSeconds = pollSeconds, br_cloudBase = cloudBase, br_maxBodyBytes = maxBodyBytes, br_devices = devices,
          br_authorizeRun = (case op_authorizeRun options of Given f \<Rightarrow> Some f | _ \<Rightarrow> None),
          br_cloudPoll = op_cloudPoll options, br_fetch = (op_fetch options = Given () \<or> global_fetch W)\<rparr> = Inr br"
  have eqs: "br_functions br = ct_functions contract" "br_modes br = modes" "br_secret br = secret" "br_apiKey br = apiKey"
      "br_fetch br = (op_fetch options = Given () \<or> global_fetch W)"
    using br by auto
  have "distinct (map cf_key (ct_functions contract))" "ct_functions contract \<noteq> []"
    using validateContract_functions [OF v] by (auto simp: valid_functions_def)
  then show ?thesis unfolding eqs using s m c f by blast
qed

text \<open>C5: what creation guarantees of every function of the contract.  It has a mode; one that touches the
  local network is \<open>required\<close>; one that may leave the visitor's computer has a Writ Cloud mapping, and the
  bridge an API key and a \<open>fetch\<close>; one that may run on it finds a secret of at least 32 bytes.\<close>

theorem createWritBridge_modes:
  assumes "createWritBridge W opts = Inr br" "fn \<in> set (br_functions br)"
  shows "\<exists>mode. br_modes br (cf_key fn) = Some mode \<and>
    (localNetworkOf fn \<noteq> [] \<longrightarrow> mode = Required) \<and>
    (mode \<noteq> Required \<longrightarrow> cf_cloud fn \<noteq> None \<and> br_apiKey br \<noteq> None \<and> br_fetch br) \<and>
    (mode \<noteq> Cloud \<longrightarrow> (\<exists>s. br_secret br = Some s \<and> 32 \<le> length (secretBytes s)))"
proof -
  obtain ov bm g e where f: "fold_res (set_mode ov bm (br_apiKey br)) (br_functions br) Map.empty = Inr (br_modes br)"
      "distinct (map cf_key (br_functions br))" "secret_of g e = Inr (br_secret br)"
      "br_secret br \<noteq> None \<or> list_all (\<lambda>fn. br_modes br (cf_key fn) = Some Cloud) (br_functions br)"
      "br_fetch br \<or> br_apiKey br = None"
    using createWritBridge_parts [OF assms(1)] by blast
  obtain mode where m: "effective_mode ov bm (br_apiKey br) fn = Inr mode" "br_modes br (cf_key fn) = Some mode"
    using modes_fold [OF f(1,2)] assms(2) by blast
  have "mode \<noteq> Cloud \<Longrightarrow> \<exists>s. br_secret br = Some s \<and> 32 \<le> length (secretBytes s)"
  proof -
    assume "mode \<noteq> Cloud"
    then have "\<not> list_all (\<lambda>fn. br_modes br (cf_key fn) = Some Cloud) (br_functions br)"
      using m(2) assms(2) by (auto simp: list_all_iff intro: bexI [of _ fn])
    then obtain s where s: "br_secret br = Some s" using f(4) by blast
    then have "MIN_SECRET_BYTES \<le> length (secretBytes s)" using f(3) secret_of_Inr by simp
    then show ?thesis using s by (simp add: MIN_SECRET_BYTES_def)
  qed
  moreover have "localNetworkOf fn \<noteq> [] \<longrightarrow> mode = Required" "mode \<noteq> Required \<Longrightarrow> cf_cloud fn \<noteq> None \<and> br_apiKey br \<noteq> None \<and> br_fetch br"
    using effective_mode_Inr [OF m(1)] f(5) by auto
  ultimately show ?thesis using m(2) by (intro exI [of _ mode]) simp
qed

subsection \<open>A bridge's user token opens its own channel\<close>

text \<open>An integral number prints as its integer, however many decimals its mantissa carries.\<close>

lemma strip10_scale: "0 < n \<Longrightarrow> strip10 (n * 10 ^ e) = (fst (strip10 n), snd (strip10 n) + e)"
proof (induction e)
  case 0
  then show ?case by simp
next
  case (Suc e)
  have "n * 10 ^ Suc e = 10 * (n * 10 ^ e)" by simp
  then have "strip10 (n * 10 ^ Suc e) = (case strip10 (n * 10 ^ e) of (s, z) \<Rightarrow> (s, Suc z))"
    using Suc.prems by (subst strip10.simps) simp
  then show ?case using Suc by simp
qed

lemma num_text_integral: "is_integer n \<Longrightarrow> num_text n = num_text (int_num (num_int n))"
proof (cases n)
  case (Fin m e)
  assume "is_integer n"
  then obtain i where i: "m = i * 10 ^ e" by (auto simp: Fin mult.commute elim: dvdE)
  show ?thesis
  proof (cases "i = 0")
    case False
    then have "strip10 (nat \<bar>m\<bar>) = (fst (strip10 (nat \<bar>i\<bar>)), snd (strip10 (nat \<bar>i\<bar>)) + e)"
      using strip10_scale [of "nat \<bar>i\<bar>" e] by (simp add: i abs_mult nat_mult_distrib nat_power_eq)
    moreover have "m < 0 \<longleftrightarrow> i < 0" by (simp add: i mult_less_0_iff)
    ultimately show ?thesis using False
      by (simp add: Fin int_num_def i split_beta Let_def)
  qed (simp add: Fin i int_num_def)
qed auto

lemma int_subject:
  assumes "\<bar>i\<bar> \<le> MAX_SAFE_INTEGER"
  shows "subjectOf (VStr (num_text (int_num i))) = Some (num_text (int_num i))"
proof -
  have t: "num_text (int_num i) = int_text i" using assms by (simp add: num_text_int_num MAX_SAFE_INTEGER_def)
  have d: "length (nat_text (nat j)) \<le> 16" "nat_text n \<noteq> []" if "\<bar>j\<bar> \<le> MAX_SAFE_INTEGER" for j n
    using that length_dec_digits [of "nat j" 16] by (auto simp: nat_text_def MAX_SAFE_INTEGER_def nat_less_iff)
  have "u < 0x20 \<or> u = 0x7f \<Longrightarrow> u \<notin> set (nat_text n)" for u n
    using nat_text_digits [of u n] by (auto simp: unit_class_defs word_le_nat_alt word_less_nat_alt)
  then have "\<not> list_ex (\<lambda>u. u < 0x20 \<or> u = 0x7f) (int_text i)"
    by (auto simp: int_text_def list_ex_iff js_words)
  moreover have "0 < length (int_text i)" "length (int_text i) \<le> 17"
    using d [of i] d [of "- i"] assms by (auto simp: int_text_def js_words)
  ultimately show ?thesis by (simp add: t subjectOf_def MAX_SUBJECT_LENGTH_def)
qed

lemma subjectOf_idem: "subjectOf v = Some sub \<Longrightarrow> subjectOf (VStr sub) = Some sub"
proof (cases v)
  case (VNum n)
  assume "subjectOf v = Some sub"
  then have n: "is_integer n" "\<bar>num_int n\<bar> \<le> MAX_SAFE_INTEGER" "sub = num_text n"
    by (auto simp: VNum subjectOf_def is_safe_integer_def split: if_splits)
  show ?thesis using int_subject [OF n(2)] num_text_integral [OF n(1)] n(3) by simp
qed (auto simp: subjectOf_def split: if_splits)

lemma dot_not_space: "\<not> is_space 46"
  by (simp add: is_space_def)

text \<open>The user token a bridge mints opens that bridge's page channel: whatever user id and
  options \<open>userToken\<close> accepted, the header \<open>Writ <token>\<close> authenticates as that user at every time before
  the token's expiry, at least one second and at most \<open>MAX_TOKEN_TTL_SECONDS\<close> later.\<close>

theorem userToken_authenticates:
  assumes "userToken C br userId tokenOptions now = Inr tok" "hmac_32 C"
    and "\<bar>now div 1000\<bar> + MAX_TOKEN_TTL_SECONDS \<le> MAX_SAFE_INTEGER"
  shows "\<exists>sub ttl secret. userOf userId = Inr sub \<and> ch_secret (channel_of br) = Some secret \<and> 1 \<le> ttl \<and> ttl \<le> MAX_TOKEN_TTL_SECONDS \<and>
    (\<forall>t. t div 1000 < now div 1000 + ttl \<longrightarrow> authenticate C secret (Some (js ''Writ '' @ tok)) t = Some sub)"
proof -
  obtain sub ttl secret where h: "userOf userId = Inr sub" "br_secret br = Some secret" "1 \<le> ttl" "ttl \<le> MAX_TOKEN_TTL_SECONDS"
      "mintUserToken C secret sub (now div 1000 + ttl) = Inr tok"
    using assms(1) unfolding userToken_def ttlOf_def requireSecret_def
    by (auto simp: result_simps)
  have sub: "subjectOf (VStr sub) = Some sub" using h(1) subjectOf_idem by (auto simp: userOf_def result_simps)
  have lone: "\<not> LONE_SURROGATE sub" 
    using h(5) by (simp add: mintUserToken_def signToken_Inr user_fields_def MAX_JSON_DEPTH_def numeral_eq_Suc)
  have x: "\<bar>now div 1000 + ttl\<bar> \<le> MAX_SAFE_INTEGER" using assms(3) h(3,4) by linarith
  have tok: "tok = user_token C secret sub (now div 1000 + ttl)"
    using minted_user_token(1) [OF assms(2) sub lone x, of "now div 1000" secret] h(3,5) by simp
  have "tok \<noteq> []" "\<forall>u \<in> set tok. \<not> is_space u"
    using tok no_space_b64 by (auto simp: user_token_def token_of_def mac_def dot_not_space simp del: canon.simps)
  then have "authenticate C secret (Some (js ''Writ '' @ tok)) t = Some sub" if "t div 1000 < now div 1000 + ttl" for t
    using minted_user_token(3) [OF assms(2) sub lone x that, of secret] tok by (simp add: authenticate_def writ_header_token)
  then show ?thesis using h by (intro exI [of _ sub] exI [of _ ttl] exI [of _ secret]) (simp add: channel_of_def)
qed

subsection \<open>Where a call runs\<close>

lemma fall_back_required [simp]: "fall_back br fn clean call Required X c = Some (Inl (awayError c))"
  by (simp add: fall_back_def)

lemma chosen_route_cloud [simp]: "chosen_route u key call mode (X\<lparr>cw_cloud := answers\<rparr>) m = chosen_route u key call mode X m"
proof -
  obtain r m1 where "routeFor (cw_now X) u key m = (r, m1)" by (cases "routeFor (cw_now X) u key m")
  then show ?thesis by (cases r) (simp_all add: chosen_route_def)
qed

text \<open>C4: a \<open>required\<close> function never leaves the visitor's computer: \<open>callForUser\<close> answers without asking
  Writ Cloud, whatever it would answer; it always ends, and a success comes with the receipt of the
  computer that ran it; \<open>callOnCloud\<close> is refused.\<close>

theorem required_runs_on_the_user:
  assumes "br_modes br (cf_key fn) = Some Required"
  shows "callForUser C br u fn inputs opts (X\<lparr>cw_cloud := answers\<rparr>) m = callForUser C br u fn inputs opts X m \<and>
    (\<exists>e. fst (callForUser C br u fn inputs opts X m) = Some (Inl e) \<or>
       (\<exists>data rc. fst (callForUser C br u fn inputs opts X m) = Some (Inr \<lparr>res_data = data, res_venue = OnUser rc\<rparr>))) \<and>
    (\<exists>e. callOnCloud br fn inputs opts answers = Some (Inl e))"
proof (intro conjI)
  let ?pre = "res_bind (checkInputs fn inputs) (\<lambda>clean. res_bind (userCallOptions opts) (\<lambda>call.
     res_bind (modeOf br (cf_key fn)) (\<lambda>mode. Inr (clean, call, mode))))"
  have pre: "(\<exists>e. ?pre = Inl e) \<or> (\<exists>clean call. ?pre = Inr (clean, call, Required))"
    using assms by (cases "checkInputs fn inputs"; cases "userCallOptions opts") (simp_all add: modeOf_def)
  have ran: "\<exists>out m'. callForUser C br u fn inputs opts (X\<lparr>cw_cloud := y\<rparr>) m = (Some out, m') \<and>
      callForUser C br u fn inputs opts X m = (Some out, m') \<and>
      ((\<exists>e. out = Inl e) \<or> (\<exists>data rc. out = Inr \<lparr>res_data = data, res_venue = OnUser rc\<rparr>))" for y
    using pre
  proof (elim disjE exE)
    fix e assume "?pre = Inl e"
    then show ?thesis by (simp add: callForUser_def)
  next
    fix clean call assume p: "?pre = Inr (clean, call, Required)"
    obtain r m1 where r: "chosen_route u (cf_key fn) call Required X m = (r, m1)" by (cases "chosen_route u (cf_key fn) call Required X m")
    obtain a m2 where a: "runOnUser C br u fn clean call (cw_exchange X) m1 = (a, m2)" by (cases "runOnUser C br u fn clean call (cw_exchange X) m1")
    show ?thesis unfolding callForUser_def p by (cases r; cases a) (simp_all add: r a)
  qed
  show "callForUser C br u fn inputs opts (X\<lparr>cw_cloud := answers\<rparr>) m = callForUser C br u fn inputs opts X m"
    using ran [of answers] by auto
  show "\<exists>e. fst (callForUser C br u fn inputs opts X m) = Some (Inl e) \<or>
       (\<exists>data rc. fst (callForUser C br u fn inputs opts X m) = Some (Inr \<lparr>res_data = data, res_venue = OnUser rc\<rparr>))"
    using ran [of answers] by auto
  show "\<exists>e. callOnCloud br fn inputs opts answers = Some (Inl e)"
    using assms by (cases "checkInputs fn inputs"; cases "cloudCallOptions opts") (simp_all add: callOnCloud_def modeOf_def)
qed

subsection \<open>What a call hands over\<close>

lemma takeResult_verified:
  assumes "results_verified C secret m" "takeResult now i m = (q, m')"
  shows "results_verified C secret m' \<and> (\<forall>data rc. q = Some (OutcomeOk data rc) \<longrightarrow> verified_for C secret i data rc)"
  using assms by (auto simp: takeResult_def results_verified_def split: option.splits if_splits)

lemma enqueue_verified: "results_verified C secret m \<Longrightarrow> results_verified C secret (enqueue now u c p ttl m)"
  using sweep_verified [of C secret m now] results_verified_eq [of "enqueue now u c p ttl m" "sweep now m" C secret]
  by (simp add: enqueue_def Let_def)

lemma withdraw_results: "withdraw u c m = (b, m') \<Longrightarrow> results m' = results m"
  by (auto simp: withdraw_def split: option.splits if_splits)

lemma cancel_verified: "results_verified C secret m \<Longrightarrow> results_verified C secret (cancel i m)"
  by (simp add: results_verified_def cancel_def)

lemma routeFor_verified: "results_verified C secret m \<Longrightarrow> results_verified C secret (snd (routeFor now u key m))"
proof -
  assume v: "results_verified C secret m"
  obtain p m1 where g: "getPresence now u m = (p, m1)" by (cases "getPresence now u m")
  have "results_verified C secret m1"
    using sweep_verified [OF v] results_verified_eq [OF getPresence_results [OF g]] by simp
  then show ?thesis by (simp add: routeFor_def g Let_def split: option.split)
qed

lemma waitForUser_verified:
  "results_verified C secret m \<Longrightarrow> \<forall>w \<in> set wakes. keeps (results_verified C secret) (snd w) \<Longrightarrow>
     results_verified C secret (snd (waitForUser u key now wakes m))"
proof (induction wakes arbitrary: now m)
  case Nil
  obtain r m1 where g: "routeFor now u key m = (r, m1)" by (cases "routeFor now u key m")
  then have "results_verified C secret m1" using routeFor_verified [OF Nil.prems(1), of now u key] by simp
  then show ?case by (subst waitForUser.simps) (simp add: g split: route.split)
next
  case (Cons w wakes)
  obtain later other where w: "w = (later, other)" by (cases w)
  obtain r m1 where g: "routeFor now u key m = (r, m1)" by (cases "routeFor now u key m")
  then have v: "results_verified C secret m1" using routeFor_verified [OF Cons.prems(1), of now u key] by simp
  then have "results_verified C secret (other m1)" using Cons.prems(2) by (simp add: keeps_def w)
  then show ?case using v Cons.IH Cons.prems(2) by (subst waitForUser.simps) (simp add: g w split: route.split)
qed

lemma awaitResult_verified:
  "results_verified C secret m \<Longrightarrow> \<forall>w \<in> set wakes. keeps (results_verified C secret) (snd w) \<Longrightarrow>
     awaitResult i now wakes m = (q, m') \<Longrightarrow>
     results_verified C secret m' \<and> (\<forall>data rc. q = Some (OutcomeOk data rc) \<longrightarrow> verified_for C secret i data rc)"
proof (induction wakes arbitrary: now m)
  case Nil
  obtain p m1 where t: "takeResult now i m = (p, m1)" by (cases "takeResult now i m")
  then have "awaitResult i now [] m = (p, m1)" by (subst awaitResult.simps) (simp split: option.split)
  then show ?case using takeResult_verified [OF Nil.prems(1) t] Nil.prems(3) by simp
next
  case (Cons w wakes)
  obtain later other where w: "w = (later, other)" by (cases w)
  obtain p m1 where t: "takeResult now i m = (p, m1)" by (cases "takeResult now i m")
  note v = takeResult_verified [OF Cons.prems(1) t]
  then have o: "results_verified C secret (other m1)" using Cons.prems(2) by (simp add: keeps_def w)
  show ?case
  proof (cases p)
    case None
    have "awaitResult i later wakes (other m1) = (q, m')"
      using Cons.prems(3) None by (subst (asm) awaitResult.simps) (simp add: t w)
    then show ?thesis using Cons.IH [OF o] Cons.prems(2) by (metis list.set_intros(2))
  next
    case (Some out)
    then have "q = Some out" "m' = m1"
      using Cons.prems(3) by (subst (asm) awaitResult.simps; simp add: t)+
    then show ?thesis using v Some by simp
  qed
qed

lemma chosen_route_verified:
  assumes "results_verified C secret m" "\<forall>w \<in> set (cw_rechecks X). keeps (results_verified C secret) (snd w)"
  shows "results_verified C secret (snd (chosen_route u key call mode X m))"
proof -
  obtain r m1 where g: "routeFor (cw_now X) u key m = (r, m1)" by (cases "routeFor (cw_now X) u key m")
  then have "results_verified C secret m1" using routeFor_verified [OF assms(1), of "cw_now X" u key] by simp
  then show ?thesis
    using waitForUser_verified assms(2) by (simp add: chosen_route_def g split: route.split)
qed

lemma attempt_of_Done: "attempt_of i out = Done data rc \<Longrightarrow> out = OutcomeOk data rc"
  by (auto simp: attempt_of_def split: command_outcome.splits if_splits)

lemma runOnUser_verified:
  assumes "results_verified C secret m" "runOnUser C br u fn inputs call X m = (Done data rc, m')"
    and "\<forall>w \<in> set (xc_pickup X @ xc_rest X). keeps (results_verified C secret) (snd w)"
  shows "verified_for C secret (newNonce (xc_random X)) data rc"
proof -
  let ?i = "newNonce (xc_random X)"
  obtain ch hash where p: "prepare C br u fn inputs call X = Inr (?i, ch, hash)"
  proof (cases "prepare C br u fn inputs call X")
    case (Inl e)
    then show ?thesis using assms(2) by (simp add: runOnUser_def)
  next
    case (Inr a)
    then show ?thesis using that by (auto simp: prepare_def Let_def res_bind_eq_Inr)
  qed
  define command where "command = command_of fn inputs call ?i ch (xc_sentAt X)"
  define m1 where "m1 = enqueue (xc_sentAt X) u command (pending_of u fn call ?i ch (xc_sentAt X) hash) (uc_timeoutMs call + RESULT_GRACE_MS + 1000) m"
  have m1: "results_verified C secret m1" unfolding m1_def by (rule enqueue_verified [OF assms(1)])
  have k: "\<forall>w \<in> set (xc_pickup X). keeps (results_verified C secret) (snd w)" "\<forall>w \<in> set (xc_rest X). keeps (results_verified C secret) (snd w)"
    using assms(3) by auto
  obtain q m2 where q: "awaitResult ?i (xc_sentAt X) (xc_pickup X) m1 = (q, m2)" by (cases "awaitResult ?i (xc_sentAt X) (xc_pickup X) m1")
  note v2 = awaitResult_verified [OF m1 k(1) q]
  obtain b m3 where b: "withdraw u command m2 = (b, m3)" by (cases "withdraw u command m2")
  have m3: "results_verified C secret m3" using v2 results_verified_eq [OF withdraw_results [OF b]] by simp
  obtain q' m4 where q': "awaitResult ?i (xc_pickedUp X) (xc_rest X) m3 = (q', m4)" by (cases "awaitResult ?i (xc_pickedUp X) (xc_rest X) m3")
  note v4 = awaitResult_verified [OF m3 k(2) q']
  show ?thesis
    using assms(2) v2 v4 unfolding runOnUser_def p Let_def sum.case prod.case command_def [symmetric] m1_def [symmetric]
    by (cases q; cases b; cases q') (auto simp: q b q' dest: attempt_of_Done)
qed

text \<open>C2: what \<open>forUser\<close> hands the server code is verified.  Suppose every success in the store is verified
  and the other requests served during the call keep it so, as the page channel does.  When a call
  answers data that a user's computer produced, the receipt beside it is genuine, of success, signs
  the hash of exactly that data, and answers a challenge under this bridge's secret with the call's own nonce.\<close>

theorem user_data_verified:
  assumes "callForUser C br u fn inputs opts X m = (Some (Inr \<lparr>res_data = data, res_venue = OnUser rc\<rparr>), m')"
    and "results_verified C secret m"
    and "\<forall>w \<in> set (cw_rechecks X @ xc_pickup (cw_exchange X) @ xc_rest (cw_exchange X)). keeps (results_verified C secret) (snd w)"
  shows "verified_for C secret (newNonce (xc_random (cw_exchange X))) data rc"
proof -
  have nc: "on_cloud r \<noteq> Some (Inr \<lparr>res_data = data, res_venue = OnUser rc\<rparr>)" for r
    by (cases r; cases "the r") (auto simp: on_cloud_def)
  then have nf: "fall_back br fn clean call mode Z c \<noteq> Some (Inr \<lparr>res_data = data, res_venue = OnUser rc\<rparr>)" for clean call mode Z c
    by (simp add: fall_back_def)
  obtain clean call mode where pre: "res_bind (checkInputs fn inputs) (\<lambda>clean. res_bind (userCallOptions opts) (\<lambda>call.
      res_bind (modeOf br (cf_key fn)) (\<lambda>mode. Inr (clean, call, mode)))) = Inr (clean, call, mode)"
    using assms(1) unfolding callForUser_def by (auto split: sum.splits)
  obtain r m1 where r: "chosen_route u (cf_key fn) call mode X m = (r, m1)" by (cases "chosen_route u (cf_key fn) call mode X m")
  have m1: "results_verified C secret m1"
    using chosen_route_verified [OF assms(2), of X u "cf_key fn" call mode] assms(3) r by simp
  obtain a m2 where a: "runOnUser C br u fn clean call (cw_exchange X) m1 = (a, m2)" by (cases "runOnUser C br u fn clean call (cw_exchange X) m1")
  have "a = Done data rc"
    using assms(1) nc nf unfolding callForUser_def pre
    by (cases r; cases a) (simp_all add: r a split: if_splits)
  then show ?thesis using runOnUser_verified [OF m1] a assms(3) by simp
qed

text \<open>\<open>approveDevice\<close> takes a public key in the ordinary base64 alphabet, or with its padding, without
  complaint and pins it as it stands; no receipt that parses can name a key so written, so the
  approval never lets any computer in.\<close>

theorem approveDevice_never_matches:
  assumes "device_key_text k" "u \<in> set k" "u = 43 \<or> u = 47 \<or> u = 61" "subjectOf userId = Some sub"
  shows "approveDevice userId (VStr k) m = (Inr (), pinDevice sub k m) \<and> k \<in> pinned (pinDevice sub k m) sub \<and>
    (\<forall>raw rc. parseReceipt raw = Inr rc \<longrightarrow> dv_public_key (rc_device rc) \<noteq> k)"
proof (intro conjI allI impI)
  show "approveDevice userId (VStr k) m = (Inr (), pinDevice sub k m)"
    using assms(1,4) by (simp add: approveDevice_def userOf_def)
  show "k \<in> pinned (pinDevice sub k m) sub"
    by (simp add: pinDevice_def pinned_def)
  fix raw rc assume "parseReceipt raw = Inr rc"
  then obtain bs where "dv_public_key (rc_device rc) = toBase64Url bs"
    using parseReceipt_Inr [of raw rc] parseDevice_Inr by blast
  then have "BASE64URL (dv_public_key (rc_device rc))"
    using fromBase64Url_toBase64Url [of bs] by (simp add: fromBase64Url_def split: if_splits)
  moreover have "\<not> BASE64URL k"
    using assms(2,3) by (auto simp: BASE64URL_def list_all_iff unit_class_defs intro!: bexI [of _ u])
  ultimately show "dv_public_key (rc_device rc) \<noteq> k" by auto
qed

end
