(* ===== verification/Bridge_Witnesses.thy ===== *)
theory Bridge_Witnesses
  imports Witnesses Bridge
begin

section \<open>Instances of the bridge object's properties\<close>

text \<open>
  A bridge created for the sample contract, and a call that a user's computer answers.
\<close>

definition sample_surroundings :: surroundings where
  "sample_surroundings = \<lparr>env_secret = None, env_apiKey = None,
     parse_url = (\<lambda>t. Some \<lparr>u_href = t, u_protocol = js ''https:'', u_hostname = js ''api.usewrit.app'', u_search = [],
        u_hash = [], u_username = [], u_password = []\<rparr>),
     date_ok = (\<lambda>_. True), global_fetch = True\<rparr>"

definition sample_options :: bridge_options where
  "sample_options = \<lparr>op_contract = sample_contract, op_mode = VUndef, op_functionModes = VUndef,
     op_secret = Secret sample_secret, op_apiKey = VUndef, op_pollSeconds = VUndef, op_cloudBase = VUndef,
     op_pinDevices = PinDefault, op_authorizeRun = Absent, op_cloudPoll = \<lparr>pt_initialMs = None, pt_maxMs = None\<rparr>,
     op_maxBodyBytes = VUndef, op_fetch = Absent, op_now = Absent\<rparr>"

lemma sample_contract_shape:
  "map_sum (\<lambda>_. ()) (\<lambda>c. map (\<lambda>f. (cf_key f, cf_local_network f, cf_settings f = None, cf_mode f = None)) (ct_functions c))
     (validateContract (\<lambda>_. True) sample_contract) = Inr [(js ''pos.lookup'', [], True, True)]"
  by code_simp

lemma sample_created:
  "\<exists>br. createWritBridge sample_surroundings (Some sample_options) = Inr br \<and> map cf_key (br_functions br) = [js ''pos.lookup'']"
proof -
  obtain c where c: "validateContract (\<lambda>_. True) sample_contract = Inr c"
      "map (\<lambda>f. (cf_key f, cf_local_network f, cf_settings f = None, cf_mode f = None)) (ct_functions c) = [(js ''pos.lookup'', [], True, True)]"
    using sample_contract_shape by (cases "validateContract (\<lambda>_. True) sample_contract") auto
  then obtain fn where fn: "ct_functions c = [fn]" "cf_key fn = js ''pos.lookup''" "cf_local_network fn = []" "cf_settings fn = None" "cf_mode fn = None"
    by (cases "ct_functions c") auto
  have member: "hd (segments (js ''pos.lookup'')) \<notin> set BRIDGE_MEMBER_NAMES" by code_simp
  have required: "mode_of (VStr (js ''required'')) = Some Required" by code_simp
  have modes: "fold_res (set_mode Map.empty Required None) [fn] Map.empty = Inr [js ''pos.lookup'' \<mapsto> Required]"
    using fn by (simp add: set_mode_def effective_mode_def localNetworkOf_def)
  show ?thesis
    using c fn member required modes
    by (simp add: createWritBridge_def sample_surroundings_def sample_options_def or_else_def nullish_def overrides_of_def secret_of_def
        sample_secret_def MIN_SECRET_BYTES_def apiKey_of_def env_def js_opt_def whole_int_def safe_int_def DEFAULT_POLL_SECONDS_def MIN_POLL_SECONDS_def
        MAX_POLL_SECONDS_def cloudBaseOf_def DEFAULT_MAX_BODY_BYTES_def MAX_SAFE_INTEGER_def hook_ok_def Let_def del: fold_res.simps)
qed

theorem createWritBridge_modes_witness:
  "\<exists>br fn mode. createWritBridge sample_surroundings (Some sample_options) = Inr br \<and> fn \<in> set (br_functions br) \<and>
     br_modes br (cf_key fn) = Some mode \<and> (mode \<noteq> Cloud \<longrightarrow> br_secret br \<noteq> None)"
proof -
  obtain br where b: "createWritBridge sample_surroundings (Some sample_options) = Inr br" "map cf_key (br_functions br) = [js ''pos.lookup'']"
    using sample_created by (elim exE conjE) (rule that)
  define fn where "fn = hd (br_functions br)"
  have fn: "fn \<in> set (br_functions br)" unfolding fn_def using b(2) by (cases "br_functions br") simp_all
  show ?thesis
  proof -
    obtain mode where "br_modes br (cf_key fn) = Some mode" "mode \<noteq> Cloud \<longrightarrow> (\<exists>s. br_secret br = Some s \<and> 32 \<le> length (secretBytes s))"
      using createWritBridge_modes [OF b(1) fn] by (elim exE conjE) (rule that)
    moreover from this have "mode \<noteq> Cloud \<longrightarrow> br_secret br \<noteq> None" by auto
    ultimately show ?thesis using b(1) fn by - (rule exI [of _ br], rule exI [of _ fn], rule exI [of _ mode], intro conjI)
  qed
qed

subsection \<open>A bridge at work\<close>

definition sample_bridge :: bridge where
  "sample_bridge = \<lparr>br_functions = [sample_function], br_modes = [js ''pos.lookup'' \<mapsto> Recommended],
     br_secret = Some sample_secret, br_apiKey = None, br_pollSeconds = 25, br_cloudBase = DEFAULT_CLOUD_BASE,
     br_maxBodyBytes = 4096, br_devices = FirstUse, br_authorizeRun = None,
     br_cloudPoll = \<lparr>pt_initialMs = None, pt_maxMs = None\<rparr>, br_fetch = True\<rparr>"

lemma sample_channel_of: "channel_of sample_bridge = sample_channel"
  by (simp add: channel_of_def sample_bridge_def sample_channel_def)

theorem userToken_authenticates_witness:
  "\<exists>tok. userToken sample_crypto sample_bridge (VStr (js ''alice'')) VUndef 5000 = Inr tok \<and>
     authenticate sample_crypto sample_secret (Some (js ''Writ '' @ tok)) 5500 = Some (js ''alice'')"
proof -
  let ?tok = "user_token sample_crypto sample_secret (js ''alice'') 3605"
  have "mintUserToken sample_crypto sample_secret (js ''alice'') 3605 = Inr ?tok"
    by (rule minted_user_token(1) [OF sample_hmac sample_subject, where now = 0]) (simp_all add: MAX_SAFE_INTEGER_def)
  then have t: "userToken sample_crypto sample_bridge (VStr (js ''alice'')) VUndef 5000 = Inr ?tok"
    using sample_subject
    by (simp add: userToken_def userOf_def options_of_def ttlOf_def or_else_def nullish_def requireSecret_def sample_bridge_def
        DEFAULT_USER_TOKEN_TTL_SECONDS_def MAX_TOKEN_TTL_SECONDS_def MAX_SAFE_INTEGER_def inherited_js)
  obtain sub ttl secret where "userOf (VStr (js ''alice'')) = Inr sub" "ch_secret (channel_of sample_bridge) = Some secret" "1 \<le> ttl"
      "\<And>t. t div 1000 < 5000 div 1000 + ttl \<Longrightarrow> authenticate sample_crypto secret (Some (js ''Writ '' @ ?tok)) t = Some sub"
    using userToken_authenticates [OF t sample_hmac] by (auto simp: MAX_TOKEN_TTL_SECONDS_def MAX_SAFE_INTEGER_def)
  moreover from this have "sub = js ''alice''" "secret = sample_secret"
    using sample_subject by (auto simp: userOf_def sample_channel_of sample_channel_def)
  ultimately have "authenticate sample_crypto sample_secret (Some (js ''Writ '' @ ?tok)) 5500 = Some (js ''alice'')" by simp
  then show ?thesis using t by blast
qed

theorem required_runs_on_the_user_witness:
  "\<exists>e. callOnCloud (sample_bridge\<lparr>br_modes := [js ''pos.lookup'' \<mapsto> Required]\<rparr>) sample_function VUndef VUndef (NoAnswer False, []) = Some (Inl e)"
proof -
  have "br_modes (sample_bridge\<lparr>br_modes := [js ''pos.lookup'' \<mapsto> Required]\<rparr>) (cf_key sample_function) = Some Required"
    by (simp add: sample_function_def)
  from required_runs_on_the_user [OF this] show ?thesis by blast
qed

subsection \<open>A call\<close>

definition sample_presence :: presence where
  "sample_presence = \<lparr>pr_ready = True, pr_granted = [js ''pos.lookup''], pr_writ_version = None, pr_last_seen = 0, pr_ever_ready = True\<rparr>"

definition sample_present :: memory where
  "sample_present = (empty_memory 0)\<lparr>presences := [js ''alice'' \<mapsto> (sample_presence, 100000)]\<rparr>"

definition sample_delivery :: "memory \<Rightarrow> memory" where
  "sample_delivery m = m\<lparr>results := (results m)(cp_nonce sample_payload \<mapsto>
     (OutcomeOk sample_data (sample_receipt sample_key_bytes sample_challenge), 100000))\<rparr>"

definition sample_world :: call_world where
  "sample_world = \<lparr>cw_now = 0, cw_rechecks = [], cw_exchange = \<lparr>xc_random = replicate 16 0, xc_sentAt = 0,
     xc_pickup = [(10, sample_delivery)], xc_rest = [], xc_pickedUp = 0\<rparr>, cw_cloud = (NoAnswer False, [])\<rparr>"

lemma sample_verified_for:
  "verified_for sample_crypto sample_secret (cp_nonce sample_payload) sample_data (sample_receipt sample_key_bytes sample_challenge)"
proof -
  have "verifyReceiptSignature sample_crypto (VObj (sample_raw sample_key_bytes sample_challenge)) =
      Inr (sample_receipt sample_key_bytes sample_challenge, sample_device sample_key_bytes)"
    by (rule sample_verified) (simp add: sample_key_bytes_def)
  moreover have "content_ok sample_crypto (sample_receipt sample_key_bytes sample_challenge) (sample_ex 0)" by (rule sample_content)
  moreover have "readChallenge sample_crypto sample_secret (VStr sample_challenge) 0 = Inr sample_payload"
    using sample_challenge_ok(2) [of 0] by simp
  moreover have "dataHash sample_crypto sample_data = Inr sample_data_hash"
    using sample_content [of sample_key_bytes 0] by (simp add: content_ok_def sample_receipt_def sample_ex_def)
  ultimately show ?thesis
    unfolding verified_for_def
    by (intro conjI exI) (assumption | simp add: sample_receipt_def sample_payload_def)+
qed

lemma sample_delivery_keeps: "keeps (results_verified sample_crypto sample_secret) sample_delivery"
  using sample_verified_for by (auto simp: keeps_def results_verified_def sample_delivery_def)

theorem approveDevice_never_matches_witness:
  "approveDevice (VStr (js ''alice'')) (VStr (replicate 43 65 @ [61])) sample_store =
     (Inr (), pinDevice (js ''alice'') (replicate 43 65 @ [61]) sample_store)"
proof -
  have k: "device_key_text (replicate 43 65 @ [61])" by (simp add: device_key_text_def list_all_iff unit_class_defs)
  from approveDevice_never_matches [OF k, of 61 "VStr (js ''alice'')" "js ''alice''"] sample_subject show ?thesis by simp
qed

lemma sample_call:
  "\<exists>m'. callForUser sample_crypto sample_bridge (js ''alice'') sample_function VUndef VUndef sample_world sample_present =
     (Some (Inr \<lparr>res_data = sample_data, res_venue = OnUser (sample_receipt sample_key_bytes sample_challenge)\<rparr>), m')"
proof -
  have i: "checkInputs sample_function VUndef = Inr []"
    using checkInputs_nullish [of VUndef] checkInputs_ok [of "[]" sample_function "[]"]
    by (auto simp: nullish_def sample_function_def utf8Length_def obj_text_def MAX_INPUT_BYTES_def MAX_JSON_DEPTH_def
        utf8_point_def is_high_def is_low_def)
  have op: "userCallOptions VUndef = Inr \<lparr>uc_timeoutMs = 120000, uc_waitForUserMs = 0, uc_dryRun = False\<rparr>"
    by (simp add: userCallOptions_def options_of_def timeoutOf_def dryRunOf_def or_else_def nullish_def inherited_js MAX_WAIT_FOR_USER_MS_def
        DEFAULT_CALL_TIMEOUT_MS_def whole_int_def)
  let ?call = "\<lparr>uc_timeoutMs = 120000, uc_waitForUserMs = 0, uc_dryRun = False\<rparr>"
  have r: "chosen_route (js ''alice'') (cf_key sample_function) ?call Recommended sample_world sample_present = (RouteUser, sample_present)"
    by (simp add: chosen_route_def routeFor_def getPresence_def sweep_def sample_present_def sample_world_def sample_presence_def
        empty_memory_def SWEEP_EVERY_MS_def PRESENCE_TTL_MS_def sample_function_def)
  have "mintChallenge sample_crypto sample_secret \<lparr>cp_sub = js ''alice'', cp_key = js ''pos.lookup'', cp_nonce = toBase64Url (replicate 16 0), cp_exp = 126\<rparr> =
      Inr (challenge_token sample_crypto sample_secret \<lparr>cp_sub = js ''alice'', cp_key = js ''pos.lookup'', cp_nonce = toBase64Url (replicate 16 0), cp_exp = 126\<rparr>)"
    using sample_subject sample_key sample_nonce by (intro minted_challenge(1) [OF sample_hmac]) (simp_all add: MAX_SAFE_INTEGER_def)
  then obtain ch where ch: "mintChallenge sample_crypto sample_secret \<lparr>cp_sub = js ''alice'', cp_key = js ''pos.lookup'',
      cp_nonce = toBase64Url (replicate 16 0), cp_exp = 126\<rparr> = Inr ch" by blast
  have x: "challenge_expiry 0 120000 = 126" by (simp add: challenge_expiry_def ceil_div_def RESULT_GRACE_MS_def)
  have "emittable MAX_JSON_DEPTH (VObj [])" by (simp add: MAX_JSON_DEPTH_def numeral_eq_Suc)
  then obtain h where h: "inputsHash sample_crypto (Some ch) (VObj []) = Inr h"
    by (simp add: inputsHash_def or_else_def nullish_def result_simps canonicalJson_Inr del: canon.simps)
  have p: "prepare sample_crypto sample_bridge (js ''alice'') sample_function [] ?call (cw_exchange sample_world) =
      Inr (cp_nonce sample_payload, ch, h)"
    using ch h x by (simp add: prepare_def requireSecret_def sample_bridge_def sample_function_def sample_world_def newNonce_def Let_def sample_payload_def)
  have t1: "takeResult 0 (cp_nonce sample_payload) (enqueue 0 (js ''alice'') c q ttl sample_present) =
      (None, enqueue 0 (js ''alice'') c q ttl sample_present)" for c q ttl
    by (simp add: takeResult_def enqueue_def sweep_def sample_present_def empty_memory_def SWEEP_EVERY_MS_def Let_def)
  have t2: "\<exists>m2. takeResult 10 (cp_nonce sample_payload) (sample_delivery m1) =
      (Some (OutcomeOk sample_data (sample_receipt sample_key_bytes sample_challenge)), m2)" for m1
    by (simp add: takeResult_def sample_delivery_def)
  have wait: "\<exists>m2. awaitResult (cp_nonce sample_payload) 0 [(10, sample_delivery)] (enqueue 0 (js ''alice'') c q ttl sample_present) =
      (Some (OutcomeOk sample_data (sample_receipt sample_key_bytes sample_challenge)), m2)" for c q ttl
  proof -
    obtain m2 where "takeResult 10 (cp_nonce sample_payload) (sample_delivery (enqueue 0 (js ''alice'') c q ttl sample_present)) =
        (Some (OutcomeOk sample_data (sample_receipt sample_key_bytes sample_challenge)), m2)" using t2 by blast
    then show ?thesis using t1 by (simp add: awaitResult.simps)
  qed
  have w: "xc_pickup (cw_exchange sample_world) = [(10, sample_delivery)]" "xc_sentAt (cw_exchange sample_world) = 0"
    by (simp_all add: sample_world_def)
  have run: "\<exists>m'. runOnUser sample_crypto sample_bridge (js ''alice'') sample_function [] ?call (cw_exchange sample_world) sample_present =
      (Done sample_data (sample_receipt sample_key_bytes sample_challenge), m')"
  proof -
    obtain m2 where "awaitResult (cp_nonce sample_payload) 0 [(10, sample_delivery)] (enqueue 0 (js ''alice'')
        (command_of sample_function [] ?call (cp_nonce sample_payload) ch 0) (pending_of (js ''alice'') sample_function ?call (cp_nonce sample_payload) ch 0 h)
        (uc_timeoutMs ?call + RESULT_GRACE_MS + 1000) sample_present) = (Some (OutcomeOk sample_data (sample_receipt sample_key_bytes sample_challenge)), m2)"
      using wait by blast
    then show ?thesis by (simp add: runOnUser_def p w Let_def attempt_of_def)
  qed
  then obtain m' where run: "runOnUser sample_crypto sample_bridge (js ''alice'') sample_function [] ?call (cw_exchange sample_world) sample_present =
      (Done sample_data (sample_receipt sample_key_bytes sample_challenge), m')" by blast
  have mode: "modeOf sample_bridge (cf_key sample_function) = Inr Recommended"
    by (simp add: modeOf_def sample_bridge_def sample_function_def)
  show ?thesis by (simp add: callForUser_def i op mode r run)
qed

theorem user_data_verified_witness:
  "verified_for sample_crypto sample_secret (toBase64Url (replicate 16 0)) sample_data (sample_receipt sample_key_bytes sample_challenge)"
proof -
  obtain m' where c: "callForUser sample_crypto sample_bridge (js ''alice'') sample_function VUndef VUndef sample_world sample_present =
     (Some (Inr \<lparr>res_data = sample_data, res_venue = OnUser (sample_receipt sample_key_bytes sample_challenge)\<rparr>), m')"
    using sample_call by blast
  have "results_verified sample_crypto sample_secret sample_present"
    by (simp add: results_verified_def sample_present_def empty_memory_def)
  from user_data_verified [OF c this] show ?thesis
    using sample_delivery_keeps by (simp add: sample_world_def newNonce_def)
qed

end
