(* ===== verification/Sse.thy ===== *)
theory Sse
  imports Encodings
begin

section \<open>Server-sent events (typescript/src/sse.ts)\<close>

text \<open>
  \<open>iterateSseFrames\<close> reads chunks of bytes, decodes them as they come, and yields frames.  The reads are
  an argument.  \<open>TextDecoder\<close> with \<open>stream: true\<close> keeps the bytes of an unfinished sequence for the next
  chunk and drops one byte order mark at the start.
\<close>

subsection \<open>TextDecoder\<close>

text \<open>The first character of some bytes and what follows it; \<open>None\<close> when the bytes are used up or end
  within a sequence that more bytes could complete.\<close>

definition utf8_next4 :: "byte \<Rightarrow> byte \<Rightarrow> byte \<Rightarrow> bytes \<Rightarrow> (jsstring \<times> bytes) option" where
  "utf8_next4 b c d ds =
     (case ds of
        [] \<Rightarrow> None
      | e # es \<Rightarrow>
          if cont e
          then Some (surrogates ((unat b - 0xF0) * 262144 + (unat c - 0x80) * 4096 + (unat d - 0x80) * 64 + (unat e - 0x80)), es)
          else Some ([REPLACEMENT], ds))"

definition utf8_next :: "bytes \<Rightarrow> (jsstring \<times> bytes) option" where
  "utf8_next s =
     (case s of
        [] \<Rightarrow> None
      | b # bs \<Rightarrow>
          (let n = unat b in
           if n < 0x80 then Some ([of_nat n], bs)
           else if \<not> (0xC2 \<le> n \<and> n \<le> 0xF4) then Some ([REPLACEMENT], bs)
           else (case bs of
               [] \<Rightarrow> None
             | c # cs \<Rightarrow>
                 if n \<le> 0xDF then
                   (if cont c then Some ([of_nat ((n - 0xC0) * 64 + (unat c - 0x80))], cs) else Some ([REPLACEMENT], bs))
                 else if \<not> second_ok b c then Some ([REPLACEMENT], bs)
                 else (case cs of
                     [] \<Rightarrow> None
                   | d # ds \<Rightarrow>
                       if \<not> cont d then Some ([REPLACEMENT], cs)
                       else if n \<le> 0xEF
                       then Some ([of_nat ((n - 0xE0) * 4096 + (unat c - 0x80) * 64 + (unat d - 0x80))], ds)
                       else utf8_next4 b c d ds))))"

lemma utf8_next_shorter [termination_simp]: "utf8_next s = Some (t, r) \<Longrightarrow> length r < length s"
  by (auto simp: utf8_next_def utf8_next4_def Let_def split: list.splits if_splits)

text \<open>Decode as far as the bytes go, and keep the rest.\<close>

fun decode_part :: "bytes \<Rightarrow> jsstring \<times> bytes" where
  "decode_part s = (case utf8_next s of None \<Rightarrow> ([], s) | Some (t, r) \<Rightarrow> apfst ((@) t) (decode_part r))"

declare decode_part.simps [simp del]

lemma from_utf8_two:
  "0xC2 \<le> unat b \<Longrightarrow> unat b \<le> 0xDF \<Longrightarrow> from_utf8 (b # c # cs) =
     (if cont c then of_nat ((unat b - 0xC0) * 64 + (unat c - 0x80)) # from_utf8 cs else REPLACEMENT # from_utf8 (c # cs))"
  by (subst from_utf8.simps(2)) (simp add: Let_def)

lemma from_utf8_three:
  "0xE0 \<le> unat b \<Longrightarrow> unat b \<le> 0xEF \<Longrightarrow> from_utf8 (b # c # cs) =
     (if second_ok b c then
        (case cs of
           d # ds \<Rightarrow> if cont d
               then of_nat ((unat b - 0xE0) * 4096 + (unat c - 0x80) * 64 + (unat d - 0x80)) # from_utf8 ds
               else REPLACEMENT # from_utf8 cs
         | [] \<Rightarrow> [REPLACEMENT])
      else REPLACEMENT # from_utf8 (c # cs))"
  by (subst from_utf8.simps(2)) (simp add: Let_def)

lemma from_utf8_four:
  "0xF0 \<le> unat b \<Longrightarrow> unat b \<le> 0xF4 \<Longrightarrow> from_utf8 (b # c # cs) =
     (if second_ok b c then
        (case cs of
           d # ds \<Rightarrow> if cont d then
               (case ds of
                  e # es \<Rightarrow> if cont e
                      then surrogates ((unat b - 0xF0) * 262144 + (unat c - 0x80) * 4096 +
                             (unat d - 0x80) * 64 + (unat e - 0x80)) @ from_utf8 es
                      else REPLACEMENT # from_utf8 ds
                | [] \<Rightarrow> [REPLACEMENT])
             else REPLACEMENT # from_utf8 cs
         | [] \<Rightarrow> [REPLACEMENT])
      else REPLACEMENT # from_utf8 (c # cs))"
  by (subst from_utf8.simps(2)) (simp add: Let_def)

lemma utf8_next_prefix:
  assumes "utf8_next s = Some (t, r)"
  shows "from_utf8 (s @ x) = t @ from_utf8 (r @ x)"
proof -
  obtain b bs where s: "s = b # bs" using assms by (cases s) (simp_all add: utf8_next_def)
  consider "unat b < 0x80" | "0xC2 \<le> unat b" "unat b \<le> 0xDF" | "0xE0 \<le> unat b" "unat b \<le> 0xEF" | "0xF0 \<le> unat b" "unat b \<le> 0xF4"
    | "\<not> unat b < 0x80" "\<not> (0xC2 \<le> unat b \<and> unat b \<le> 0xF4)" by linarith
  then show ?thesis
  proof cases
    case 1
    then show ?thesis using assms by (auto simp: s utf8_next_def from_utf8.simps(2) [of b] Let_def)
  next
    case 2
    then obtain c cs where c: "bs = c # cs" using assms by (cases bs) (simp_all add: s utf8_next_def Let_def)
    show ?thesis using 2 assms by (cases "cont c") (auto simp: s c utf8_next_def Let_def from_utf8_two)
  next
    case 3
    then obtain c cs where c: "bs = c # cs" using assms by (cases bs) (simp_all add: s utf8_next_def Let_def)
    show ?thesis
    proof (cases "second_ok b c")
      case True
      then obtain d ds where d: "cs = d # ds" using 3 assms by (cases cs) (simp_all add: s c utf8_next_def Let_def)
      show ?thesis using assms True 3
        by (cases "cont d") (auto simp: s c d utf8_next_def Let_def from_utf8_three)
    next
      case False
      then show ?thesis using assms 3 by (auto simp: s c utf8_next_def Let_def from_utf8_three)
    qed
  next
    case 4
    then obtain c cs where c: "bs = c # cs" using assms by (cases bs) (simp_all add: s utf8_next_def Let_def)
    show ?thesis
    proof (cases "second_ok b c")
      case True
      then obtain d ds where d: "cs = d # ds" using 4 assms by (cases cs) (simp_all add: s c utf8_next_def Let_def)
      show ?thesis
      proof (cases "cont d")
        case cd: True
        then obtain e es where e: "ds = e # es"
          using True 4 assms by (cases ds) (simp_all add: s c d utf8_next_def utf8_next4_def Let_def)
        show ?thesis using assms True cd 4
          by (cases "cont e") (auto simp: s c d e utf8_next_def utf8_next4_def Let_def from_utf8_four)
      next
        case False
        then show ?thesis using assms True 4 by (auto simp: s c d utf8_next_def Let_def from_utf8_four)
      qed
    next
      case False
      then show ?thesis using assms 4 by (auto simp: s c utf8_next_def Let_def from_utf8_four)
    qed
  next
    case 5
    then have "\<not> (0xE0 \<le> unat b \<and> unat b \<le> 0xEF)" "\<not> (0xC2 \<le> unat b \<and> unat b \<le> 0xDF)" "\<not> (0xF0 \<le> unat b \<and> unat b \<le> 0xF4)" by linarith+
    then have "from_utf8 (b # y) = REPLACEMENT # from_utf8 y" for y using 5 by (subst from_utf8.simps(2)) (auto simp: Let_def)
    then show ?thesis using assms 5 by (auto simp: s utf8_next_def Let_def split: if_splits)
  qed
qed

lemma decode_part_prefix: "from_utf8 (s @ x) = fst (decode_part s) @ from_utf8 (snd (decode_part s) @ x)"
proof (induction s rule: decode_part.induct)
  case (1 s)
  show ?case
  proof (cases "utf8_next s")
    case None
    then show ?thesis by (simp add: decode_part.simps [of s])
  next
    case (Some p)
    obtain t r where p: "p = (t, r)" by (cases p)
    have "from_utf8 (s @ x) = t @ from_utf8 (r @ x)" using utf8_next_prefix Some p by simp
    moreover have "from_utf8 (r @ x) = fst (decode_part r) @ from_utf8 (snd (decode_part r) @ x)"
      using "1" Some p by blast
    ultimately show ?thesis by (simp add: decode_part.simps [of s] Some p)
  qed
qed

text \<open>The decoder: the bytes kept, and whether the stream is past its first character (a byte order mark
  there is dropped).\<close>

record decoder =
  dc_pending :: bytes
  dc_started :: bool

definition BOM :: codeunit where
  "BOM = 0xFEFF"

definition strip_bom :: "bool \<Rightarrow> jsstring \<Rightarrow> jsstring" where
  "strip_bom started t = (if \<not> started \<and> t \<noteq> [] \<and> hd t = BOM then tl t else t)"

definition decode_chunk :: "bytes \<Rightarrow> decoder \<Rightarrow> jsstring \<times> decoder" where
  "decode_chunk bs d =
     (case decode_part (dc_pending d @ bs) of
        (t, rest) \<Rightarrow> (strip_bom (dc_started d) t, \<lparr>dc_pending = rest, dc_started = dc_started d \<or> t \<noteq> []\<rparr>))"

definition decode_flush :: "decoder \<Rightarrow> jsstring" where
  "decode_flush d = strip_bom (dc_started d) (from_utf8 (dc_pending d))"

definition new_decoder :: decoder where
  "new_decoder = \<lparr>dc_pending = [], dc_started = False\<rparr>"

subsection \<open>Lines and frames\<close>

record frame =
  fr_event :: "jsstring option"
  fr_data :: jsstring

record parser =
  ps_buf :: jsstring
  ps_event :: "jsstring option"
  ps_data :: "jsstring list"

definition newline :: codeunit where
  "newline = 10"

definition chomp :: "jsstring \<Rightarrow> jsstring" where
  "chomp line = (if line \<noteq> [] \<and> last line = 13 then butlast line else line)"

text \<open>\<open>line.indexOf(":")\<close>: the field before it, the value after it without one leading space.\<close>

definition field_of :: "jsstring \<Rightarrow> jsstring \<times> jsstring" where
  "field_of line =
     (case dropWhile (\<lambda>u. u \<noteq> 58) line of
        [] \<Rightarrow> (line, [])
      | _ # value \<Rightarrow> (takeWhile (\<lambda>u. u \<noteq> 58) line, if value \<noteq> [] \<and> hd value = 32 then tl value else value))"

definition dispatch :: "jsstring option \<Rightarrow> jsstring list \<Rightarrow> frame list" where
  "dispatch ev ds = (if ds \<noteq> [] then [\<lparr>fr_event = ev, fr_data = js_join newline ds\<rparr>] else [])"

definition feed_line :: "jsstring \<Rightarrow> jsstring option \<Rightarrow> jsstring list \<Rightarrow> frame list \<times> jsstring option \<times> jsstring list" where
  "feed_line raw ev ds =
     (let line = chomp raw in
      if line = [] then (dispatch ev ds, None, [])
      else if hd line = 58 then ([], ev, ds)
      else (case field_of line of
          (name, v) \<Rightarrow>
            if name = js ''event'' then ([], Some v, ds)
            else if name = js ''data'' then ([], ev, ds @ [v])
            else ([], ev, ds)))"

text \<open>\<open>while ((newline = buf.indexOf("\n")) >= 0)\<close>.\<close>

fun feed_lines :: "jsstring list \<Rightarrow> jsstring option \<Rightarrow> jsstring list \<Rightarrow> frame list \<times> parser" where
  "feed_lines [] ev ds = ([], \<lparr>ps_buf = [], ps_event = ev, ps_data = ds\<rparr>)"
| "feed_lines [rest] ev ds = ([], \<lparr>ps_buf = rest, ps_event = ev, ps_data = ds\<rparr>)"
| "feed_lines (line # l # ls) ev ds =
     (case feed_line line ev ds of
        (fs, ev', ds') \<Rightarrow> apfst ((@) fs) (feed_lines (l # ls) ev' ds'))"

definition feed :: "jsstring \<Rightarrow> parser \<Rightarrow> frame list \<times> parser" where
  "feed t p = feed_lines (js_split newline (ps_buf p @ t)) (ps_event p) (ps_data p)"

definition new_parser :: parser where
  "new_parser = \<lparr>ps_buf = [], ps_event = None, ps_data = []\<rparr>"

subsection \<open>The generator\<close>

text \<open>\<open>reader.read()\<close> answers bytes, the end, or rejects; the frames yielded, and how the iteration ended
  (\<open>None\<close>: the reads so far did not end it).\<close>

datatype sse_read = Chunk bytes | Closed | Broken

datatype sse_end = Complete | StreamFailed

fun iterate :: "sse_read list \<Rightarrow> decoder \<Rightarrow> parser \<Rightarrow> frame list \<times> sse_end option" where
  "iterate [] d p = ([], None)"
| "iterate (Broken # rs) d p = ([], Some StreamFailed)"
| "iterate (Closed # rs) d p =
     (case feed (decode_flush d) p of (fs, p') \<Rightarrow> (fs @ dispatch (ps_event p') (ps_data p'), Some Complete))"
| "iterate (Chunk bs # rs) d p =
     (case decode_chunk bs d of (t, d') \<Rightarrow>
        (case feed t p of (fs, p') \<Rightarrow> apfst ((@) fs) (iterate rs d' p')))"

definition iterateSseFrames :: "sse_read list \<Rightarrow> frame list \<times> sse_end option" where
  "iterateSseFrames rs = iterate rs new_decoder new_parser"

subsection \<open>Reading in pieces\<close>

text \<open>Feeding text in two pieces is feeding it at once.\<close>

lemma js_split_pieces:
  "\<exists>ls l. js_split sep s = ls @ [l] \<and> js_split sep (s @ t) = ls @ js_split sep (l @ t)"
proof (induction s)
  case Nil
  then show ?case by (intro exI [of _ "[]"]) simp
next
  case (Cons c s)
  then obtain ls l where l: "js_split sep s = ls @ [l]" "js_split sep (s @ t) = ls @ js_split sep (l @ t)" by blast
  show ?case
  proof (cases "c = sep")
    case True
    then show ?thesis using l by (intro exI [of _ "[] # ls"] exI [of _ l]) simp
  next
    case False
    show ?thesis
    proof (cases ls)
      case Nil
      then show ?thesis using l False by (intro exI [of _ "[]"] exI [of _ "c # l"]) simp
    next
      case (Cons w ws)
      then show ?thesis using l False by (intro exI [of _ "(c # w) # ws"] exI [of _ l]) simp
    qed
  qed
qed

lemma feed_lines_Cons: "ls \<noteq> [] \<Longrightarrow> feed_lines (line # ls) ev ds =
    (case feed_line line ev ds of (fs, ev', ds') \<Rightarrow> apfst ((@) fs) (feed_lines ls ev' ds'))"
  by (cases ls) auto

lemma feed_lines_buf: "ps_buf (snd (feed_lines (ls @ [l]) ev ds)) = l"
  by (induction ls arbitrary: ev ds) (simp_all add: feed_lines_Cons split_beta)

lemma feed_lines_append:
  "vs \<noteq> [] \<Longrightarrow> feed_lines (ls @ vs) ev ds =
     (case feed_lines (ls @ [l]) ev ds of (fs, p) \<Rightarrow> apfst ((@) fs) (feed_lines vs (ps_event p) (ps_data p)))"
  by (induction ls arbitrary: ev ds) (simp_all add: feed_lines_Cons split_beta apfst_def map_prod_def)

lemma feed_append: "feed (s @ t) p = (case feed s p of (fs, p') \<Rightarrow> apfst ((@) fs) (feed t p'))"
proof -
  obtain ls l where l: "js_split newline (ps_buf p @ s) = ls @ [l]"
      "js_split newline ((ps_buf p @ s) @ t) = ls @ js_split newline (l @ t)"
    using js_split_pieces by blast
  obtain fs p' where f: "feed_lines (ls @ [l]) (ps_event p) (ps_data p) = (fs, p')" by (cases "feed_lines (ls @ [l]) (ps_event p) (ps_data p)")
  have "ps_buf p' = l" using feed_lines_buf [of ls l "ps_event p" "ps_data p"] f by simp
  then show ?thesis
    using l f feed_lines_append [of "js_split newline (l @ t)" ls "ps_event p" "ps_data p" l] by (simp add: feed_def)
qed

lemma strip_bom_append: "strip_bom b (s @ t) = strip_bom b s @ strip_bom (b \<or> s \<noteq> []) t"
  by (cases s) (auto simp: strip_bom_def)

definition finish :: "frame list \<times> parser \<Rightarrow> frame list \<times> sse_end option" where
  "finish r = (case r of (fs, p) \<Rightarrow> (fs @ dispatch (ps_event p) (ps_data p), Some Complete))"

lemma iterate_chunks:
  "iterate (map Chunk cs @ [Closed]) d p = finish (feed (strip_bom (dc_started d) (from_utf8 (dc_pending d @ concat cs))) p)"
proof (induction cs arbitrary: d p)
  case Nil
  then show ?case by (simp add: finish_def decode_flush_def)
next
  case (Cons bs cs)
  obtain t rest where t: "decode_part (dc_pending d @ bs) = (t, rest)" by (cases "decode_part (dc_pending d @ bs)")
  let ?d = "\<lparr>dc_pending = rest, dc_started = dc_started d \<or> t \<noteq> []\<rparr>"
  obtain fs p' where f: "feed (strip_bom (dc_started d) t) p = (fs, p')" by (cases "feed (strip_bom (dc_started d) t) p")
  have "from_utf8 (dc_pending d @ bs @ concat cs) = t @ from_utf8 (rest @ concat cs)"
    using decode_part_prefix [of "dc_pending d @ bs" "concat cs"] t by simp
  then have "feed (strip_bom (dc_started d) (from_utf8 (dc_pending d @ concat (bs # cs)))) p =
      apfst ((@) fs) (feed (strip_bom (dc_started ?d) (from_utf8 (dc_pending ?d @ concat cs))) p')"
    using f by (simp add: strip_bom_append feed_append)
  then show ?case
    using Cons [of ?d p'] f t by (simp add: decode_chunk_def finish_def split_beta)
qed

subsection \<open>What a stream means\<close>

text \<open>The frames of a text, without a parser state: its terminated lines, in blocks separated by empty
  lines; a block with a \<open>data\<close> field is a frame, with the last \<open>event\<close> field of the block.\<close>

fun blocks :: "jsstring list \<Rightarrow> jsstring list list" where
  "blocks [] = [[]]"
| "blocks (l # ls) = (if l = [] then [] # blocks ls else (case blocks ls of [] \<Rightarrow> [[l]] | b # bs \<Rightarrow> (l # b) # bs))"

definition values_of :: "string \<Rightarrow> jsstring list \<Rightarrow> jsstring list" where
  "values_of name block = map (snd \<circ> field_of) (filter (\<lambda>l. hd l \<noteq> 58 \<and> fst (field_of l) = js name) block)"

definition event_of :: "jsstring list \<Rightarrow> jsstring option" where
  "event_of block = (if values_of ''event'' block = [] then None else Some (last (values_of ''event'' block)))"

definition sse_frames :: "jsstring \<Rightarrow> frame list" where
  "sse_frames t = concat (map (\<lambda>b. dispatch (event_of b) (values_of ''data'' b)) (blocks (map chomp (butlast (js_split newline t)))))"

lemma blocks_not_Nil [simp]: "blocks ls \<noteq> []"
  by (induction ls) (auto split: list.splits)

lemma values_of_Cons [simp]:
  "values_of name (l # b) = (if hd l \<noteq> 58 \<and> fst (field_of l) = js name then [snd (field_of l)] else []) @ values_of name b"
  "values_of name [] = []"
  by (simp_all add: values_of_def)

definition latest :: "jsstring option \<Rightarrow> jsstring list \<Rightarrow> jsstring option" where
  "latest ev vs = (if vs = [] then ev else Some (last vs))"

lemma feed_lines_blocks:
  "finish (feed_lines (ls @ [l]) ev ds) =
     (case blocks (map chomp ls) of b # bs \<Rightarrow>
        (dispatch (latest ev (values_of ''event'' b)) (ds @ values_of ''data'' b) @
         concat (map (\<lambda>b. dispatch (event_of b) (values_of ''data'' b)) bs), Some Complete))"
proof (induction ls arbitrary: ev ds)
  case Nil
  then show ?case by (simp add: finish_def latest_def)
next
  case (Cons line ls)
  obtain b bs where b: "blocks (map chomp ls) = b # bs" by (cases "blocks (map chomp ls)") simp_all
  obtain fs ev' ds' where f: "feed_line line ev ds = (fs, ev', ds')" by (cases "feed_line line ev ds")
  have step: "finish (feed_lines ((line # ls) @ [l]) ev ds) = apfst ((@) fs) (finish (feed_lines (ls @ [l]) ev' ds'))"
    by (simp add: feed_lines_Cons f finish_def split_beta)
  note ih = Cons [of ev' ds', unfolded b, simplified]
  show ?case
  proof (cases "chomp line = []")
    case True
    then have "fs = dispatch ev ds" "ev' = None" "ds' = []" using f by (simp_all add: feed_line_def)
    then show ?thesis unfolding step ih using True b by (simp add: latest_def event_of_def)
  next
    case False
    then have "fs = []" using f by (auto simp: feed_line_def Let_def split: if_splits prod.splits)
    moreover have "ev' = latest ev (values_of ''event'' [chomp line])" "ds' = ds @ values_of ''data'' [chomp line]"
      using f False by (auto simp: feed_line_def Let_def latest_def split: if_splits prod.splits)
    ultimately show ?thesis unfolding step ih using False b by (simp add: latest_def)
  qed
qed

text \<open>C39: what a stream of events means does not depend on how it arrives.  Whatever chunks the bytes come
  in, even split within a character, a field or a line end, the frames are those of the whole decoded
  text: each block of terminated lines up to an empty line that has a \<open>data\<close> field, with its last \<open>event\<close>.\<close>

theorem sse_chunking:
  "iterateSseFrames (map Chunk cs @ [Closed]) = (sse_frames (strip_bom False (from_utf8 (concat cs))), Some Complete)"
proof -
  let ?t = "strip_bom False (from_utf8 (concat cs))"
  obtain ls l where l: "js_split newline ?t = ls @ [l]" using js_split_pieces by blast
  obtain b bs where b: "blocks (map chomp ls) = b # bs" by (cases "blocks (map chomp ls)") simp_all
  have "iterateSseFrames (map Chunk cs @ [Closed]) = finish (feed_lines (ls @ [l]) None [])"
    using iterate_chunks [of cs new_decoder new_parser] l
    by (simp add: iterateSseFrames_def new_decoder_def feed_def new_parser_def)
  then show ?thesis
    using feed_lines_blocks [of ls l None "[]"] l b by (simp add: sse_frames_def latest_def event_of_def)
qed

end
