(* ===== verification/Retry.thy ===== *)
theory Retry
  imports Canonical Complex_Main
begin

section \<open>Retrying transient failures (typescript/src/retry.ts)\<close>

text \<open>
  \<open>withRetry\<close> runs an attempt until it answers something final, gives up, or has tried often enough.
  What an attempt meets is an argument: one \<open>trial\<close> per attempt.  Times are exact rationals of
  milliseconds; a result \<open>None\<close> means the given trials were not enough for the call to return.
\<close>

record retry_policy =
  rp_maxAttempts :: rat
  rp_baseDelayMs :: rat
  rp_maxDelayMs :: rat
  rp_maxRetryAfterMs :: rat
  rp_retryUnsafeMethods :: "bool option"

definition DEFAULT_RETRY_POLICY :: retry_policy where
  "DEFAULT_RETRY_POLICY = \<lparr>rp_maxAttempts = 4, rp_baseDelayMs = 250, rp_maxDelayMs = 8000, rp_maxRetryAfterMs = 30000,
     rp_retryUnsafeMethods = None\<rparr>"

definition RETRYABLE_STATUSES :: "nat list" where
  "RETRYABLE_STATUSES = [408, 425, 429, 500, 502, 503, 504]"

definition SAFE_METHODS :: "jsstring list" where
  "SAFE_METHODS = map js [''GET'', ''HEAD'', ''OPTIONS'']"

definition isSafeMethod :: "jsstring \<Rightarrow> bool" where
  "isSafeMethod m \<longleftrightarrow> js_upper m \<in> set SAFE_METHODS"

definition canRetryMethod :: "retry_policy \<Rightarrow> jsstring \<Rightarrow> bool" where
  "canRetryMethod p m \<longleftrightarrow> isSafeMethod m \<or> rp_retryUnsafeMethods p = Some True"

definition backoffMs :: "retry_policy \<Rightarrow> nat \<Rightarrow> rat \<Rightarrow> rat" where
  "backoffMs p attempt random =
     (let base = (if rp_baseDelayMs p > 0 then rp_baseDelayMs p else rp_baseDelayMs DEFAULT_RETRY_POLICY);
          cap = (if rp_maxDelayMs p > 0 then rp_maxDelayMs p else rp_maxDelayMs DEFAULT_RETRY_POLICY);
          raw = min (base * 2 ^ min (attempt - 1) 20) cap
      in raw / 2 + random * (raw / 2))"

text \<open>The \<open>Retry-After\<close> header: absent or empty, a finite number of seconds, a date so many milliseconds
  from now, or neither.\<close>

datatype retry_after = NoHeader | DeltaSeconds rat | HttpDate rat | Unreadable

record response =
  rs_status :: nat
  rs_retry_after :: retry_after

definition retryAfterMs :: "response option \<Rightarrow> rat option" where
  "retryAfterMs r =
     (case r of
        None \<Rightarrow> None
      | Some x \<Rightarrow>
          (case rs_retry_after x of
             NoHeader \<Rightarrow> None
           | DeltaSeconds s \<Rightarrow> if s < 0 then None else Some (s * 1000)
           | HttpDate ms \<Rightarrow> Some (max 0 ms)
           | Unreadable \<Rightarrow> None))"

text \<open>One attempt: the response or the error it ends with, whether the signal is aborted when it throws,
  \<open>Math.random()\<close> of its backoff, and the reason with which the signal aborts the wait that follows, if
  it does.\<close>

record trial =
  tr_outcome :: "jsstring + response"
  tr_aborted :: bool
  tr_random :: rat
  tr_abort_wait :: "jsstring option"

definition max_attempts :: "retry_policy \<Rightarrow> jsstring \<Rightarrow> rat" where
  "max_attempts p m = (if canRetryMethod p m then max 1 (rp_maxAttempts p) else 1)"

definition retry_after_cap :: "retry_policy \<Rightarrow> rat" where
  "retry_after_cap p =
     (if rp_maxRetryAfterMs p > 0 then rp_maxRetryAfterMs p else rp_maxRetryAfterMs DEFAULT_RETRY_POLICY)"

definition response_of :: "trial \<Rightarrow> response option" where
  "response_of t = (case tr_outcome t of Inl e \<Rightarrow> None | Inr r \<Rightarrow> Some r)"

text \<open>The loop answers the result, the waits it made and how many attempts it started.\<close>

fun retry_loop :: "retry_policy \<Rightarrow> rat \<Rightarrow> nat \<Rightarrow> trial list \<Rightarrow> (jsstring + response) option \<times> rat list \<times> nat" where
  "retry_loop p bound n [] = (None, [], 0)"
| "retry_loop p bound n (t # ts) =
     (let response = response_of t in
      if (case tr_outcome t of Inl e \<Rightarrow> tr_aborted t | Inr r \<Rightarrow> rs_status r \<notin> set RETRYABLE_STATUSES)
      then (Some (tr_outcome t), [], 1)
      else if of_nat n \<ge> bound then (Some (tr_outcome t), [], 1)
      else
        (let requested = retryAfterMs response in
         if (case requested of None \<Rightarrow> False | Some ms \<Rightarrow> ms > retry_after_cap p) then (Some (tr_outcome t), [], 1)
         else
           (let wait = (case requested of None \<Rightarrow> backoffMs p n (tr_random t) | Some ms \<Rightarrow> ms) in
            case (if wait \<le> 0 then None else tr_abort_wait t) of
              Some reason \<Rightarrow> (Some (Inl reason), [wait], 1)
            | None \<Rightarrow> (case retry_loop p bound (Suc n) ts of (r, waits, k) \<Rightarrow> (r, wait # waits, Suc k)))))"

definition withRetry :: "retry_policy \<Rightarrow> jsstring \<Rightarrow> trial list \<Rightarrow> (jsstring + response) option \<times> rat list \<times> nat" where
  "withRetry p m ts = retry_loop p (max_attempts p m) 1 ts"

subsection \<open>Idempotency keys\<close>

text \<open>\<open>n.toString(36)\<close> and \<open>padStart\<close>.\<close>

definition digit36 :: "nat \<Rightarrow> codeunit" where
  "digit36 d = (if d < 10 then 48 + of_nat d else 87 + of_nat d)"

fun digits36 :: "nat \<Rightarrow> nat list" where
  "digits36 n = (if n < 36 then [n] else digits36 (n div 36) @ [n mod 36])"

declare digits36.simps [simp del]

definition base36 :: "nat \<Rightarrow> jsstring" where
  "base36 n = map digit36 (digits36 n)"

definition padStart :: "nat \<Rightarrow> codeunit \<Rightarrow> jsstring \<Rightarrow> jsstring" where
  "padStart n c s = replicate (n - length s) c @ s"

text \<open>What the platform offers: \<open>crypto.randomUUID()\<close>, \<open>crypto.getRandomValues\<close> on 16 bytes, or neither; in
  which case the clock, four draws below \<open>2 ^ 32\<close>, and the process's counter make the key.\<close>

datatype key_source = RandomUUID jsstring | RandomBytes "byte list" | LastResort nat "nat list"

definition hex2 :: "byte \<Rightarrow> jsstring" where
  "hex2 b = [hex_unit (unat b div 16), hex_unit (unat b mod 16)]"

definition lastResortKey :: "nat \<Rightarrow> nat list \<Rightarrow> nat \<Rightarrow> jsstring \<times> nat" where
  "lastResortKey now draws counter =
     (base36 now @ js ''-'' @ base36 (Suc counter) @ js ''-'' @ concat (map (\<lambda>r. padStart 7 48 (base36 r)) draws), Suc counter)"

definition newIdempotencyKey :: "key_source \<Rightarrow> nat \<Rightarrow> jsstring \<times> nat" where
  "newIdempotencyKey src counter =
     (case src of
        RandomUUID u \<Rightarrow> (js ''writ-'' @ u, counter)
      | RandomBytes bs \<Rightarrow> (js ''writ-'' @ concat (map hex2 bs), counter)
      | LastResort now draws \<Rightarrow> (case lastResortKey now draws counter of (k, c) \<Rightarrow> (js ''writ-'' @ k, c)))"

subsection \<open>Properties of the loop\<close>

lemma max_attempts_ge: "1 \<le> max_attempts p m"
  by (simp add: max_attempts_def)

lemma backoff_bounds:
  assumes "0 \<le> random" "random \<le> 1"
  shows "0 < backoffMs p n random \<and> backoffMs p n random \<le> (if rp_maxDelayMs p > 0 then rp_maxDelayMs p else 8000)"
proof -
  define base where "base = (if rp_baseDelayMs p > 0 then rp_baseDelayMs p else rp_baseDelayMs DEFAULT_RETRY_POLICY)"
  define cap where "cap = (if rp_maxDelayMs p > 0 then rp_maxDelayMs p else rp_maxDelayMs DEFAULT_RETRY_POLICY)"
  define raw where "raw = min (base * 2 ^ min (n - 1) 20) cap"
  have pos: "0 < base" "0 < cap" by (simp_all add: base_def cap_def DEFAULT_RETRY_POLICY_def)
  then have raw: "0 < raw" "raw \<le> cap" by (simp_all add: raw_def)
  have b: "backoffMs p n random = raw / 2 + random * (raw / 2)"
    by (simp add: backoffMs_def Let_def raw_def base_def cap_def)
  have "random * (raw / 2) \<le> 1 * (raw / 2)" using assms(2) raw(1) by (intro mult_right_mono) auto
  moreover have "0 \<le> random * (raw / 2)" using assms(1) raw(1) by simp
  ultimately have "0 < backoffMs p n random" "backoffMs p n random \<le> raw" using raw(1) unfolding b by linarith+
  then show ?thesis using raw(2) by (simp add: cap_def DEFAULT_RETRY_POLICY_def split: if_splits)
qed

text \<open>The wait before the next attempt: the backoff, or what the server asked for, within its cap.\<close>

definition wait_of :: "retry_policy \<Rightarrow> nat \<Rightarrow> trial \<Rightarrow> rat \<Rightarrow> bool" where
  "wait_of p n t w \<longleftrightarrow> w = backoffMs p n (tr_random t) \<or> 0 \<le> w \<and> w \<le> retry_after_cap p"

lemma retryAfterMs_nonneg: "retryAfterMs r = Some ms \<Longrightarrow> 0 \<le> ms"
  by (auto simp: retryAfterMs_def split: option.splits retry_after.splits if_splits)

lemma retry_loop_Cons:
  assumes "retry_loop p bound n (t # ts) = (r, waits, k)"
  shows "r = Some (tr_outcome t) \<and> waits = [] \<and> k = 1 \<or>
    (of_nat n < bound \<and> (\<exists>w. wait_of p n t w \<and>
       ((\<exists>e. r = Some (Inl e) \<and> tr_abort_wait t = Some e \<and> waits = [w] \<and> k = 1) \<or>
        (\<exists>waits' k'. retry_loop p bound (Suc n) ts = (r, waits', k') \<and> waits = w # waits' \<and> k = Suc k'))))"
proof -
  obtain r' waits' k' where more: "retry_loop p bound (Suc n) ts = (r', waits', k')" by (cases "retry_loop p bound (Suc n) ts")
  define w where "w = (case retryAfterMs (response_of t) of None \<Rightarrow> backoffMs p n (tr_random t) | Some ms \<Rightarrow> ms)"
  show ?thesis
  proof (cases "(case tr_outcome t of Inl e \<Rightarrow> tr_aborted t | Inr r \<Rightarrow> rs_status r \<notin> set RETRYABLE_STATUSES) \<or> of_nat n \<ge> bound \<or>
      (case retryAfterMs (response_of t) of None \<Rightarrow> False | Some ms \<Rightarrow> ms > retry_after_cap p)")
    case True
    then have "retry_loop p bound n (t # ts) = (Some (tr_outcome t), [], 1)"
      by (elim disjE) (simp_all only: retry_loop.simps Let_def if_True if_cancel)
    then show ?thesis using assms by simp
  next
    case False
    then have ok: "wait_of p n t w"
      using retryAfterMs_nonneg by (auto simp: wait_of_def w_def split: option.splits)
    have e: "retry_loop p bound n (t # ts) = (case (if w \<le> 0 then None else tr_abort_wait t) of
        Some reason \<Rightarrow> (Some (Inl reason), [w], 1) | None \<Rightarrow> (r', w # waits', Suc k'))"
      using False more unfolding retry_loop.simps Let_def w_def [symmetric]
      by (simp add: case_prod_unfold split: option.split)
    have n: "of_nat n < bound" using False by linarith
    show ?thesis
    proof (cases "if w \<le> 0 then None else tr_abort_wait t")
      case None
      then have "r = r'" "waits = w # waits'" "k = Suc k'" using assms e by simp_all
      then show ?thesis using ok n more by blast
    next
      case (Some reason)
      then have "r = Some (Inl reason)" "waits = [w]" "k = 1" "tr_abort_wait t = Some reason"
        using assms e by (simp_all split: if_splits)
      then show ?thesis using ok n by blast
    qed
  qed
qed

lemma retry_loop_attempts:
  "retry_loop p bound n ts = (r, waits, k) \<Longrightarrow>
     (k \<le> 1 \<or> of_nat (n + k - 2) < bound) \<and> (r = None \<longrightarrow> k = length ts \<and> (ts = [] \<or> of_nat (n + k - 1) < bound))"
proof (induction ts arbitrary: n waits k)
  case Nil
  then show ?case by simp
next
  case (Cons t ts)
  from retry_loop_Cons [OF Cons.prems] show ?case
  proof (elim disjE conjE exE)
    fix w waits' k' assume m: "retry_loop p bound (Suc n) ts = (r, waits', k')" "k = Suc k'" "of_nat n < bound"
    show ?thesis using Cons.IH [OF m(1)] m(2,3) by (cases k'; cases ts) auto
  qed auto
qed

lemma retry_loop_waits:
  "retry_loop p bound n ts = (r, waits, k) \<Longrightarrow> \<forall>t \<in> set ts. 0 \<le> tr_random t \<and> tr_random t \<le> 1 \<Longrightarrow>
     list_all (\<lambda>w. 0 \<le> w \<and> w \<le> max (if rp_maxDelayMs p > 0 then rp_maxDelayMs p else 8000) (retry_after_cap p)) waits"
proof (induction ts arbitrary: n waits k)
  case Nil
  then show ?case by simp
next
  case (Cons t ts)
  have w: "0 \<le> w \<and> w \<le> max (if rp_maxDelayMs p > 0 then rp_maxDelayMs p else 8000) (retry_after_cap p)"
    if "wait_of p n t w" for w
    using that backoff_bounds [of "tr_random t" p n] Cons.prems(2) unfolding wait_of_def by (fastforce simp: max_def)
  from retry_loop_Cons [OF Cons.prems(1)] show ?case
    using w Cons.IH Cons.prems(2) by fastforce
qed

lemma retry_loop_result:
  "retry_loop p bound n ts = (Some r, waits, k) \<Longrightarrow>
     0 < k \<and> k \<le> length ts \<and> (r = tr_outcome (ts ! (k - 1)) \<or> (\<exists>e. r = Inl e \<and> tr_abort_wait (ts ! (k - 1)) = Some e))"
proof (induction ts arbitrary: n waits k)
  case Nil
  then show ?case by simp
next
  case (Cons t ts)
  from retry_loop_Cons [OF Cons.prems] show ?case
  proof (elim disjE conjE exE)
    fix w waits' k' assume m: "retry_loop p bound (Suc n) ts = (Some r, waits', k')" "k = Suc k'"
    show ?thesis using Cons.IH [OF m(1)] m(2) by (auto simp: nth_Cons')
  qed auto
qed

lemma unsafe_once:
  assumes "withRetry p m ts = (r, waits, k)" "\<not> isSafeMethod m" "rp_retryUnsafeMethods p \<noteq> Some True"
  shows "k \<le> 1"
proof -
  have "retry_loop p 1 1 ts = (r, waits, k)"
    using assms by (simp add: withRetry_def max_attempts_def canRetryMethod_def)
  from retry_loop_attempts [OF this] show ?thesis by (cases "k \<le> 1") (auto simp: le_Suc_eq not_le)
qed

text \<open>C40: a request is never sent too often.  \<open>withRetry\<close> makes at most \<open>maxAttempts\<close> attempts, and exactly one
  for an unsafe method without \<open>retryUnsafeMethods\<close>; it returns as soon as as many trials are over, with
  the outcome of its last attempt or the reason of an abort; and each wait between attempts is between
  zero and the larger of the backoff cap and the cap on \<open>Retry-After\<close>.\<close>

theorem withRetry_bounded:
  assumes "withRetry p m ts = (r, waits, k)" "\<forall>t \<in> set ts. 0 \<le> tr_random t \<and> tr_random t \<le> 1"
  shows "of_nat k < max_attempts p m + 1 \<and> (\<not> isSafeMethod m \<and> rp_retryUnsafeMethods p \<noteq> Some True \<longrightarrow> k \<le> 1) \<and>
    (max_attempts p m \<le> of_nat (length ts) \<longrightarrow> r \<noteq> None) \<and>
    (\<forall>x. r = Some x \<longrightarrow> 0 < k \<and> k \<le> length ts \<and>
       (x = tr_outcome (ts ! (k - 1)) \<or> (\<exists>e. x = Inl e \<and> tr_abort_wait (ts ! (k - 1)) = Some e))) \<and>
    list_all (\<lambda>w. 0 \<le> w \<and> w \<le> max (if rp_maxDelayMs p > 0 then rp_maxDelayMs p else 8000) (retry_after_cap p)) waits"
proof -
  have l: "retry_loop p (max_attempts p m) 1 ts = (r, waits, k)" using assms(1) by (simp add: withRetry_def)
  note a = retry_loop_attempts [OF l]
  have 1: "of_nat k < max_attempts p m + 1"
    using a max_attempts_ge [of p m] by (cases "k \<le> 1") (auto simp: of_nat_diff le_Suc_eq)
  have 2: "k \<le> 1" if "\<not> isSafeMethod m \<and> rp_retryUnsafeMethods p \<noteq> Some True"
    using that unsafe_once [OF assms(1)] by blast
  have 3: "r \<noteq> None" if "max_attempts p m \<le> of_nat (length ts)"
    using a that max_attempts_ge [of p m] by (cases ts) auto
  show ?thesis
    using 1 2 3 retry_loop_result [of p "max_attempts p m" 1 ts _ waits k] l retry_loop_waits [OF l assms(2)] by blast
qed

text \<open>What is final is never retried: a response with any other status, an error once the caller has
  aborted, and a response that asks to wait longer than the cap end the call at their attempt.\<close>

theorem withRetry_final:
  assumes "case tr_outcome t of Inl e \<Rightarrow> tr_aborted t
    | Inr x \<Rightarrow> rs_status x \<notin> set RETRYABLE_STATUSES \<or> (\<exists>ms. retryAfterMs (Some x) = Some ms \<and> retry_after_cap p < ms)"
  shows "withRetry p m (t # ts) = (Some (tr_outcome t), [], 1)"
  using assms by (auto simp: withRetry_def Let_def response_of_def split: sum.splits)

end
