(* ===== verification/Api_Errors.thy ===== *)
theory Api_Errors
  imports Json_Text
begin

section \<open>Errors of the agent client (typescript/src/errors.ts)\<close>

text \<open>
  A response that is not 2xx becomes a \<open>WritApiError\<close>; its message and code come from the JSON body where
  it has them, else from the text and the status.  Here the message is part of the value.
\<close>

record api_error =
  ae_status :: nat
  ae_code :: jsstring
  ae_message :: jsstring
  ae_body :: jsval

text \<open>The kinds of error the client throws.\<close>

datatype writ_error =
    ApiError api_error
  | ConnectionError
  | TimedOut
  | DiscoveryError
  | NotJson

definition codeForStatus :: "nat \<Rightarrow> jsstring" where
  "codeForStatus status =
     (if status = 400 then js ''bad_request''
      else if status = 401 then js ''unauthorized''
      else if status = 403 then js ''forbidden''
      else if status = 404 then js ''not_found''
      else if status = 409 then js ''conflict''
      else if status = 422 then js ''unprocessable''
      else if status = 429 then js ''rate_limited''
      else if status \<ge> 500 then js ''internal'' else js ''http_'' @ nat_text status)"

definition MAX_TEXT_MESSAGE :: nat where
  "MAX_TEXT_MESSAGE = 500"

definition asString :: "jsval \<Rightarrow> jsstring option" where
  "asString v = (case v of VStr s \<Rightarrow> if s \<noteq> [] then Some s else None | _ \<Rightarrow> None)"

definition truncate :: "jsstring \<Rightarrow> nat \<Rightarrow> jsstring" where
  "truncate s n = (if length s \<le> n then s else take n s @ [0x2026])"

text \<open>\<open>a ?? b\<close> on what \<open>asString\<close> answers.\<close>

fun first_some :: "'a option list \<Rightarrow> 'a \<Rightarrow> 'a" where
  "first_some [] d = d"
| "first_some (None # xs) d = first_some xs d"
| "first_some (Some x # xs) d = x"

definition parsed_object :: "jsstring \<Rightarrow> fields option" where
  "parsed_object rawBody = (case json_parse rawBody of Some (VObj fs) \<Rightarrow> Some fs | _ \<Rightarrow> None)"

definition apiErrorFrom :: "nat \<Rightarrow> jsstring \<Rightarrow> jsstring \<Rightarrow> api_error" where
  "apiErrorFrom status statusText rawBody =
     (let body = (case json_parse rawBody of None \<Rightarrow> VStr rawBody | Some j \<Rightarrow> j);
          fallbackMessage = (if js_trim statusText \<noteq> [] then statusText else js ''HTTP '' @ nat_text status)
      in (case parsed_object rawBody of
            Some parsed \<Rightarrow>
              \<lparr>ae_status = status,
               ae_code = first_some [asString (jget parsed (js ''code''))] (codeForStatus status),
               ae_message = first_some [asString (jget parsed (js ''error'')), asString (jget parsed (js ''detail'')),
                 asString (jget parsed (js ''message''))] fallbackMessage,
               ae_body = body\<rparr>
          | None \<Rightarrow>
              \<lparr>ae_status = status, ae_code = codeForStatus status,
               ae_message = (let t = js_trim rawBody in if t \<noteq> [] then truncate t MAX_TEXT_MESSAGE else fallbackMessage),
               ae_body = body\<rparr>))"

lemma first_some_not_Nil: "d \<noteq> [] \<Longrightarrow> first_some (map asString vs) d \<noteq> []"
  by (induction vs) (auto simp: asString_def split: jsval.splits)

lemma codeForStatus_not_Nil: "codeForStatus status \<noteq> []"
  by (simp add: codeForStatus_def js_def)

text \<open>An error always says something: it has a code and a message, whatever the body.\<close>

lemma apiErrorFrom_says:
  "ae_code (apiErrorFrom status st raw) \<noteq> []" "ae_message (apiErrorFrom status st raw) \<noteq> []"
  "ae_status (apiErrorFrom status st raw) = status"
proof -
  have fb: "(if js_trim st \<noteq> [] then st else js ''HTTP '' @ nat_text status) \<noteq> []" by (auto simp: js_def)
  have tr: "t \<noteq> [] \<Longrightarrow> truncate t MAX_TEXT_MESSAGE \<noteq> []" for t by (auto simp: truncate_def)
  show "ae_code (apiErrorFrom status st raw) \<noteq> []" "ae_message (apiErrorFrom status st raw) \<noteq> []"
      "ae_status (apiErrorFrom status st raw) = status"
    using fb tr [of "js_trim raw"] codeForStatus_not_Nil [of status] first_some_not_Nil [of _ "[_]"] first_some_not_Nil [of _ "[_, _, _]"]
    by (auto simp: apiErrorFrom_def Let_def split: option.splits)
qed

end
