(* ===== verification/Discovery.thy ===== *)
theory Discovery
  imports Api_Errors
begin

section \<open>Finding the agent (typescript/src/discovery.ts)\<close>

text \<open>
  \<open>discoverAgent\<close> answers the base URL and token of a live agent: the ones given, or the first runtime
  descriptor on disk whose agent answers.  The file system, \<open>path.join\<close> and the liveness probe are the
  fields of a parameter record.
\<close>

record platform =
  pf_files :: bool
  pf_join :: "jsstring list \<Rightarrow> jsstring"
  pf_homedir :: jsstring
  pf_read :: "jsstring \<Rightarrow> jsstring option"
  pf_dir :: "jsstring \<Rightarrow> (jsstring \<times> bool) list option"
  pf_probe :: "jsstring \<Rightarrow> jsstring \<Rightarrow> bool"

record discovery_options =
  do_baseUrl :: "jsstring option"
  do_token :: "jsstring option"
  do_env :: "jsstring \<rightharpoonup> jsstring"
  do_writDir :: "jsstring option"

record connection =
  cn_baseUrl :: jsstring
  cn_token :: jsstring

definition MAX_PROFILE_DIRS :: nat where
  "MAX_PROFILE_DIRS = 32"

definition PROFILE_ID_RE :: "jsstring \<Rightarrow> bool" where
  "PROFILE_ID_RE s \<longleftrightarrow> s \<noteq> [] \<and> list_all (\<lambda>u. is_alnum u \<or> u = 95 \<or> u = 45) s"

definition normalizeBaseUrl :: "jsstring \<Rightarrow> jsstring" where
  "normalizeBaseUrl url = rev (dropWhile (\<lambda>u. u = 47) (rev url))"

text \<open>\<open>a ?? b\<close> and \<open>a && b\<close> on optional texts.\<close>

definition coalesce :: "'a option \<Rightarrow> 'a option \<Rightarrow> 'a option" where
  "coalesce a b = (case a of None \<Rightarrow> b | Some x \<Rightarrow> Some x)"

definition truthy :: "jsstring option \<Rightarrow> bool" where
  "truthy x \<longleftrightarrow> x \<noteq> None \<and> x \<noteq> Some []"

definition explicitBaseUrl :: "discovery_options \<Rightarrow> jsstring option" where
  "explicitBaseUrl opts = coalesce (do_baseUrl opts) (do_env opts (js ''WRIT_API_URL''))"

definition explicitToken :: "discovery_options \<Rightarrow> jsstring option" where
  "explicitToken opts = coalesce (do_token opts) (do_env opts (js ''WRIT_TOKEN''))"

subsection \<open>Candidates\<close>

definition active_profile :: "platform \<Rightarrow> jsstring \<Rightarrow> jsstring list" where
  "active_profile P writDir =
     (case pf_read P (pf_join P [writDir, js ''active_profile'']) of
        None \<Rightarrow> []
      | Some raw \<Rightarrow>
          (let profile = js_trim raw in
           if profile \<noteq> [] \<and> profile \<noteq> js ''local'' \<and> length profile \<le> 128 \<and> PROFILE_ID_RE profile
           then [pf_join P [writDir, js ''profiles'', profile, js ''runtime.json'']] else []))"

fun profile_dirs :: "platform \<Rightarrow> jsstring \<Rightarrow> (jsstring \<times> bool) list \<Rightarrow> nat \<Rightarrow> jsstring list" where
  "profile_dirs P writDir [] taken = []"
| "profile_dirs P writDir ((name, isDir) # entries) taken =
     (if taken \<ge> MAX_PROFILE_DIRS then []
      else if \<not> isDir then profile_dirs P writDir entries taken
      else pf_join P [writDir, js ''profiles'', name, js ''runtime.json''] # profile_dirs P writDir entries (taken + 1))"

definition candidates :: "platform \<Rightarrow> discovery_options \<Rightarrow> jsstring list" where
  "candidates P opts =
     (let writDir = (case do_writDir opts of Some d \<Rightarrow> d | None \<Rightarrow> pf_join P [pf_homedir P, js ''.writ'']) in
      (case do_env opts (js ''WRIT_HOME'') of None \<Rightarrow> [] | Some [] \<Rightarrow> [] | Some home \<Rightarrow> [pf_join P [home, js ''runtime.json'']]) @
      active_profile P writDir @ [pf_join P [writDir, js ''runtime.json'']] @
      (case pf_dir P (pf_join P [writDir, js ''profiles'']) of None \<Rightarrow> [] | Some entries \<Rightarrow> profile_dirs P writDir entries 0))"

subsection \<open>Descriptors and the probe\<close>

definition readRuntimeInfo :: "platform \<Rightarrow> jsstring \<Rightarrow> (jsnum \<times> jsstring) option" where
  "readRuntimeInfo P file =
     (case pf_read P file of
        None \<Rightarrow> None
      | Some raw \<Rightarrow>
          (case json_parse raw of
             Some (VObj info) \<Rightarrow>
               (case (jget info (js ''port''), jget info (js ''token'')) of
                  (VNum port, VStr token) \<Rightarrow> if is_integer port then Some (port, token) else None
                | _ \<Rightarrow> None)
           | _ \<Rightarrow> None))"

definition connection_of :: "discovery_options \<Rightarrow> jsnum \<times> jsstring \<Rightarrow> connection" where
  "connection_of opts info =
     \<lparr>cn_baseUrl = (if truthy (explicitBaseUrl opts) then normalizeBaseUrl (the (explicitBaseUrl opts))
        else js ''http://127.0.0.1:'' @ num_text (fst info)),
      cn_token = (case explicitToken opts of Some t \<Rightarrow> t | None \<Rightarrow> snd info)\<rparr>"

text \<open>One candidate: the connection it names, when its agent answers.\<close>

definition try_candidate :: "platform \<Rightarrow> discovery_options \<Rightarrow> jsstring \<Rightarrow> connection option" where
  "try_candidate P opts file =
     (case readRuntimeInfo P file of
        None \<Rightarrow> None
      | Some info \<Rightarrow>
          (let c = connection_of opts info in
           if cn_token c = [] then None
           else if pf_probe P (cn_baseUrl c) (cn_token c) then Some c else None))"

fun first_live :: "platform \<Rightarrow> discovery_options \<Rightarrow> jsstring list \<Rightarrow> jsstring set \<Rightarrow> connection option" where
  "first_live P opts [] seen = None"
| "first_live P opts (file # files) seen =
     (if file \<in> seen then first_live P opts files seen
      else (case try_candidate P opts file of Some c \<Rightarrow> Some c | None \<Rightarrow> first_live P opts files (insert file seen)))"

definition discoverAgent :: "platform \<Rightarrow> discovery_options \<Rightarrow> writ_error + connection" where
  "discoverAgent P opts =
     (if truthy (explicitBaseUrl opts) \<and> truthy (explicitToken opts)
      then Inr \<lparr>cn_baseUrl = normalizeBaseUrl (the (explicitBaseUrl opts)), cn_token = the (explicitToken opts)\<rparr>
      else if \<not> pf_files P then Inl DiscoveryError
      else req (first_live P opts (candidates P opts) {}) DiscoveryError)"

subsection \<open>Properties\<close>

lemma first_live_find:
  "\<forall>f \<in> seen. try_candidate P opts f = None \<Longrightarrow> first_live P opts files seen =
     (case find (\<lambda>f. try_candidate P opts f \<noteq> None) files of None \<Rightarrow> None | Some f \<Rightarrow> try_candidate P opts f)"
  by (induction files arbitrary: seen) (auto split: option.splits)

lemma length_profile_dirs: "length (profile_dirs P writDir es taken) \<le> MAX_PROFILE_DIRS - taken"
proof (induction es arbitrary: taken)
  case (Cons e es)
  obtain name isDir where e: "e = (name, isDir)" by (cases e)
  show ?case using Cons [of taken] Cons [of "taken + 1"] by (simp add: e) linarith
qed simp

lemma length_candidates: "length (candidates P opts) \<le> 35"
proof -
  have p: "length (active_profile P w) \<le> 1" for w by (simp add: active_profile_def Let_def split: option.split)
  have h: "length (case h of None \<Rightarrow> [] | Some [] \<Rightarrow> [] | Some home \<Rightarrow> [pf_join P [home, js ''runtime.json'']]) \<le> 1" for h
    by (simp split: option.split list.split)
  have d: "length (case x of None \<Rightarrow> [] | Some entries \<Rightarrow> profile_dirs P w entries 0) \<le> 32" for x w
    using length_profile_dirs [of P w _ 0] by (simp add: MAX_PROFILE_DIRS_def split: option.split)
  have "length (a @ b @ [x] @ c) \<le> 35" if "length a \<le> 1" "length b \<le> 1" "length c \<le> 32" for a b c :: "jsstring list" and x
    using that by simp
  then show ?thesis unfolding candidates_def Let_def using p h d by blast
qed

text \<open>Discovery answers the first live candidate.  Without an explicit URL and token, the connection is the
  one of the first of at most 35 candidate descriptors that reads well and whose agent answered the probe
  under the very URL and token returned; with no such candidate it fails.  Remembering the paths already
  tried changes nothing.\<close>

theorem discoverAgent_first_live:
  assumes "\<not> (truthy (explicitBaseUrl opts) \<and> truthy (explicitToken opts))" "pf_files P"
  shows "length (candidates P opts) \<le> 35 \<and> discoverAgent P opts =
    (case find (\<lambda>f. try_candidate P opts f \<noteq> None) (candidates P opts) of
       None \<Rightarrow> Inl DiscoveryError | Some f \<Rightarrow> Inr (the (try_candidate P opts f))) \<and>
    (\<forall>c. discoverAgent P opts = Inr c \<longrightarrow> cn_token c \<noteq> [] \<and> pf_probe P (cn_baseUrl c) (cn_token c))"
proof -
  let ?f = "find (\<lambda>f. try_candidate P opts f \<noteq> None) (candidates P opts)"
  have d: "discoverAgent P opts = (case ?f of None \<Rightarrow> Inl DiscoveryError | Some f \<Rightarrow> Inr (the (try_candidate P opts f)))"
  proof (cases ?f)
    case None
    then show ?thesis using assms first_live_find [of "{}" P opts "candidates P opts"] by (auto simp: discoverAgent_def)
  next
    case (Some f)
    then have "try_candidate P opts f \<noteq> None" by (auto simp: find_Some_iff)
    then show ?thesis using Some assms first_live_find [of "{}" P opts "candidates P opts"] by (auto simp: discoverAgent_def)
  qed
  have "cn_token c \<noteq> [] \<and> pf_probe P (cn_baseUrl c) (cn_token c)" if "discoverAgent P opts = Inr c" for c
  proof -
    have "?f \<noteq> None"
    proof
      assume "?f = None"
      then have "discoverAgent P opts = Inl DiscoveryError" using d by simp
      then show False using that by simp
    qed
    then obtain f where f: "?f = Some f" by blast
    then have "try_candidate P opts f \<noteq> None" by (auto simp: find_Some_iff)
    then have "try_candidate P opts f = Some c" using that d f by auto
    then show ?thesis by (auto simp: try_candidate_def Let_def split: option.splits if_splits)
  qed
  then show ?thesis using d length_candidates by blast
qed

end
