(* ===== verification/Http_Client.thy ===== *)
theory Http_Client
  imports Retry Discovery "HOL-Library.AList"
begin

section \<open>The agent client's transport (typescript/src/http.ts)\<close>

text \<open>
  One request: the headers, the retry policy, the fetch under it, and what its outcome means.  \<open>URL\<close>
  building is an argument; the network is the list of trials \<open>withRetry\<close> meets.
\<close>

subsection \<open>Construction\<close>

record retry_override =
  ov_maxAttempts :: "rat option"
  ov_baseDelayMs :: "rat option"
  ov_maxDelayMs :: "rat option"
  ov_maxRetryAfterMs :: "rat option"
  ov_retryUnsafeMethods :: "bool option"

definition given_or :: "'a option \<Rightarrow> 'a \<Rightarrow> 'a" where
  "given_or x d = (case x of None \<Rightarrow> d | Some v \<Rightarrow> v)"

definition http_policy :: "retry_override \<Rightarrow> retry_policy" where
  "http_policy ov =
     \<lparr>rp_maxAttempts = given_or (ov_maxAttempts ov) (rp_maxAttempts DEFAULT_RETRY_POLICY),
      rp_baseDelayMs = given_or (ov_baseDelayMs ov) (rp_baseDelayMs DEFAULT_RETRY_POLICY),
      rp_maxDelayMs = given_or (ov_maxDelayMs ov) (rp_maxDelayMs DEFAULT_RETRY_POLICY),
      rp_maxRetryAfterMs = given_or (ov_maxRetryAfterMs ov) (rp_maxRetryAfterMs DEFAULT_RETRY_POLICY),
      rp_retryUnsafeMethods = Some False\<rparr>"

subsection \<open>The shared connection\<close>

text \<open>\<open>#conn\<close>: no discovery, one under way (its number), or its connection.  \<open>connection()\<close> shares what is
  there; a failed discovery resets only itself.\<close>

datatype conn_state = Idle | Flying nat | Resolved connection

record transport =
  tp_conn :: conn_state
  tp_started :: nat
  tp_failed :: nat

definition initial_transport :: "discovery_options \<Rightarrow> transport" where
  "initial_transport opts =
     \<lparr>tp_conn = (if truthy (do_baseUrl opts) \<and> truthy (do_token opts)
        then Resolved \<lparr>cn_baseUrl = normalizeBaseUrl (the (do_baseUrl opts)), cn_token = the (do_token opts)\<rparr> else Idle),
      tp_started = 0, tp_failed = 0\<rparr>"

definition ask_connection :: "transport \<Rightarrow> transport" where
  "ask_connection t =
     (case tp_conn t of
        Idle \<Rightarrow> t\<lparr>tp_conn := Flying (tp_started t), tp_started := tp_started t + 1\<rparr>
      | _ \<Rightarrow> t)"

definition settle_discovery :: "nat \<Rightarrow> writ_error + connection \<Rightarrow> transport \<Rightarrow> transport" where
  "settle_discovery i result t =
     (case result of
        Inr c \<Rightarrow> if tp_conn t = Flying i then t\<lparr>tp_conn := Resolved c\<rparr> else t
      | Inl e \<Rightarrow> t\<lparr>tp_conn := (if tp_conn t = Flying i then Idle else tp_conn t), tp_failed := tp_failed t + 1\<rparr>)"

text \<open>Requests and discoveries in any order; a discovery settles once, while it is under way.\<close>

inductive transport_reach :: "discovery_options \<Rightarrow> transport \<Rightarrow> bool" for opts where
  Start: "transport_reach opts (initial_transport opts)"
| Ask: "transport_reach opts t \<Longrightarrow> transport_reach opts (ask_connection t)"
| Settled: "transport_reach opts t \<Longrightarrow> tp_conn t = Flying i \<Longrightarrow> transport_reach opts (settle_discovery i result t)"

subsection \<open>One request\<close>

record request_options =
  ro_query :: fields
  ro_json :: "jsval option"
  ro_headers :: "(jsstring \<times> jsstring) list"
  ro_allowStatuses :: "nat list"

definition USER_AGENT :: jsstring where
  "USER_AGENT = js ''writ-sdk-typescript/1.3.0''"

text \<open>\<open>{ ...a, ...b }\<close>: a property of \<open>b\<close> replaces that of \<open>a\<close> in its place.\<close>

definition spread :: "('a \<times> 'b) list \<Rightarrow> ('a \<times> 'b) list \<Rightarrow> ('a \<times> 'b) list" where
  "spread xs ys = fold (\<lambda>(k, v). AList.update k v) ys xs"

definition headers_of :: "connection \<Rightarrow> bool \<Rightarrow> request_options \<Rightarrow> (jsstring \<times> jsstring) list" where
  "headers_of conn streaming opts =
     (let headers = spread
        [(js ''authorization'', js ''Bearer '' @ cn_token conn), (js ''user-agent'', USER_AGENT),
         (js ''accept'', if streaming then js ''text/event-stream'' else js ''application/json'')] (ro_headers opts)
      in if ro_json opts \<noteq> None then AList.update (js ''content-type'') (js ''application/json'') headers else headers)"

definition query_of :: "fields \<Rightarrow> (jsstring \<times> jsstring) list" where
  "query_of query = fold (\<lambda>(k, v) acc. if nullish v then acc else AList.update k (js_String v) acc) query []"

text \<open>What the network answers: the trials, whether the timeout fired, the status text, and the body, when it can be read.\<close>

record exchange =
  ex_trials :: "trial list"
  ex_timedOut :: bool
  ex_statusText :: jsstring
  ex_text :: "jsstring option"

definition send :: "retry_policy \<Rightarrow> jsstring \<Rightarrow> request_options \<Rightarrow> exchange \<Rightarrow> (writ_error + response) option" where
  "send policy m opts X =
     (case fst (withRetry policy m (ex_trials X)) of
        None \<Rightarrow> None
      | Some (Inl e) \<Rightarrow> Some (Inl (if ex_timedOut X then TimedOut else ConnectionError))
      | Some (Inr r) \<Rightarrow>
          Some (if (200 \<le> rs_status r \<and> rs_status r \<le> 299) \<or> rs_status r \<in> set (ro_allowStatuses opts) then Inr r
            else Inl (ApiError (apiErrorFrom (rs_status r) (ex_statusText X) (case ex_text X of Some t \<Rightarrow> t | None \<Rightarrow> [])))))"

definition readText :: "exchange \<Rightarrow> writ_error + jsstring" where
  "readText X = req (ex_text X) ConnectionError"

definition request_text :: "retry_policy \<Rightarrow> jsstring \<Rightarrow> request_options \<Rightarrow> exchange \<Rightarrow> (writ_error + jsstring) option" where
  "request_text policy m opts X = map_option (\<lambda>r. res_bind r (\<lambda>_. readText X)) (send policy m opts X)"

definition request_json :: "retry_policy \<Rightarrow> jsstring \<Rightarrow> request_options \<Rightarrow> exchange \<Rightarrow> (writ_error + jsval) option" where
  "request_json policy m opts X =
     map_option (\<lambda>r. res_bind r (\<lambda>t. if t = [] then Inr VUndef else req (json_parse t) NotJson)) (request_text policy m opts X)"

subsection \<open>Properties\<close>

lemma transport_invariant:
  "transport_reach opts t \<Longrightarrow> tp_started t \<le> tp_failed t + 1 \<and>
     (tp_conn t = Idle \<longrightarrow> tp_started t = tp_failed t) \<and> (\<forall>i. tp_conn t = Flying i \<longrightarrow> Suc i = tp_started t \<and> tp_started t = Suc (tp_failed t))"
  by (induction rule: transport_reach.induct)
    (auto simp: initial_transport_def ask_connection_def settle_discovery_def split: conn_state.splits sum.splits)

text \<open>Discovery is single-flight.  However requests and discoveries interleave, at most one discovery is
  under way: every one started before it has failed; and once there is a connection none is started.\<close>

theorem discovery_single_flight:
  assumes "transport_reach opts t"
  shows "tp_started t \<le> tp_failed t + 1 \<and> (\<forall>i. tp_conn t = Flying i \<longrightarrow> Suc i = tp_started t \<and> tp_failed t = i) \<and>
    (\<forall>c. tp_conn t = Resolved c \<longrightarrow> ask_connection t = t)"
  using transport_invariant [OF assms] by (auto simp: ask_connection_def)

text \<open>The agent client never repeats an unsafe request.  Whatever retry options the caller passes, a request
  whose method is not GET, HEAD or OPTIONS is sent at most once, since the agent has no idempotency keys.\<close>

theorem unsafe_request_sent_once:
  assumes "\<not> isSafeMethod m" "withRetry (http_policy ov) m ts = (r, waits, k)"
  shows "k \<le> 1"
  using unsafe_once [OF assms(2,1)] by (simp add: http_policy_def)

end
