(* ===== verification/Webhook.thy ===== *)
theory Webhook
  imports Receipt Complex_Main
begin

section \<open>Webhook deliveries (typescript/src/webhook.ts)\<close>

text \<open>
  \<open>verifyWebhook\<close> authenticates a delivery by an HMAC over its timestamp and body, or, when the caller
  allows it, by the legacy HMAC over the body alone.  HMAC-SHA256 is a field of \<open>crypto\<close>; the clock and
  the conversions \<open>Number(text)\<close> of odd spellings are arguments.
\<close>

subsection \<open>Headers\<close>

text \<open>Anything with a \<open>get\<close> method, or a plain object whose values are strings or arrays of strings.\<close>

datatype header_source = HeaderGet "jsstring \<Rightarrow> jsstring option" | HeaderBag fields

text \<open>The header names in lower case.\<close>

definition WEBHOOK_SIGNATURE_V1_HEADER :: jsstring where
  "WEBHOOK_SIGNATURE_V1_HEADER = js ''x-writ-signature-v1''"
definition WEBHOOK_SIGNATURE_HEADER :: jsstring where
  "WEBHOOK_SIGNATURE_HEADER = js ''x-writ-signature''"
definition WEBHOOK_TIMESTAMP_HEADER :: jsstring where
  "WEBHOOK_TIMESTAMP_HEADER = js ''x-writ-timestamp''"
definition DEFAULT_WEBHOOK_TOLERANCE_MS :: int where
  "DEFAULT_WEBHOOK_TOLERANCE_MS = 5 * 60 * 1000"

definition first_value :: "jsval \<Rightarrow> jsstring option" where
  "first_value v = (case v of VStr s \<Rightarrow> Some s | VArr (VStr s # _) \<Rightarrow> Some s | _ \<Rightarrow> None)"

definition headerValue :: "header_source \<Rightarrow> jsstring \<Rightarrow> jsstring option" where
  "headerValue headers name =
     (case headers of
        HeaderGet f \<Rightarrow> f name
      | HeaderBag bag \<Rightarrow>
          (let direct = or_else (jget bag name) (jget bag (js_lower name));
               found = or_else direct (case find (\<lambda>(k, v). js_lower k = js_lower name) bag of None \<Rightarrow> VUndef | Some (k, v) \<Rightarrow> v)
           in first_value found))"

subsection \<open>The signature\<close>

datatype webhook_body = TextBody jsstring | RawBody bytes

definition toBytes :: "webhook_body \<Rightarrow> bytes" where
  "toBytes body = (case body of TextBody s \<Rightarrow> utf8 s | RawBody b \<Rightarrow> b)"

definition concat_bytes :: "jsstring \<Rightarrow> bytes \<Rightarrow> bytes" where
  "concat_bytes prefix body = utf8 prefix @ body"

definition hmacHex :: "crypto \<Rightarrow> jsstring \<Rightarrow> bytes \<Rightarrow> jsstring" where
  "hmacHex C secret message = hex_bytes (hmac_sha256 C (utf8 secret) message)"

text \<open>\<open>diff |= a.charCodeAt(i) ^ b.charCodeAt(i)\<close> over all positions.\<close>

unbundle bit_operations_syntax

fun diff_units :: "jsstring \<Rightarrow> jsstring \<Rightarrow> codeunit \<Rightarrow> codeunit" where
  "diff_units (a # as) (b # bs) diff = diff_units as bs (diff OR (a XOR b))"
| "diff_units _ _ diff = diff"

definition timingSafeEqual :: "jsstring \<Rightarrow> jsstring \<Rightarrow> bool" where
  "timingSafeEqual a b = (if length a \<noteq> length b then False else diff_units a b 0 = 0)"

definition stripPrefix :: "jsstring \<Rightarrow> jsstring" where
  "stripPrefix sig = js_lower (if take 7 sig = js ''sha256='' then drop 7 sig else sig)"

subsection \<open>Freshness\<close>

datatype webhook_failure = NoSignature | SignatureMismatch | Stale | BadTimestamp | NoSecret

record webhook_options =
  wo_toleranceMs :: "rat option"
  wo_allowLegacyBodyOnly :: bool

text \<open>\<open>Number(ts)\<close> when it is finite: a decimal integer is its value; \<open>other\<close> reads the other spellings.\<close>

fun decimal :: "jsstring \<Rightarrow> nat \<Rightarrow> nat" where
  "decimal [] acc = acc"
| "decimal (u # us) acc = decimal us (10 * acc + (unat u - 48))"

definition seconds_of :: "(jsstring \<Rightarrow> rat option) \<Rightarrow> jsstring \<Rightarrow> rat option" where
  "seconds_of other ts =
     (if ts \<noteq> [] \<and> length ts \<le> 15 \<and> list_all is_digit ts then Some (of_nat (decimal ts 0)) else other ts)"

definition checkFreshness :: "(jsstring \<Rightarrow> rat option) \<Rightarrow> jsstring \<Rightarrow> webhook_options \<Rightarrow> rat \<Rightarrow> webhook_failure + unit" where
  "checkFreshness other ts opts now =
     (let tolerance = (case wo_toleranceMs opts of None \<Rightarrow> of_int DEFAULT_WEBHOOK_TOLERANCE_MS | Some t \<Rightarrow> t) in
      if tolerance < 0 then Inr ()
      else res_bind (req (seconds_of other ts) BadTimestamp) (\<lambda>seconds.
           let drift = \<bar>now - seconds * 1000\<bar> in
           guard (\<not> drift > tolerance) Stale))"

subsection \<open>Verification\<close>

text \<open>\<open>headerValue(...)?.trim()\<close>, where an empty text is as good as none.\<close>

definition header_text :: "header_source \<Rightarrow> jsstring \<Rightarrow> jsstring option" where
  "header_text headers name =
     (case headerValue headers name of None \<Rightarrow> None | Some s \<Rightarrow> if js_trim s = [] then None else Some (js_trim s))"

definition verifyWebhook ::
  "crypto \<Rightarrow> (jsstring \<Rightarrow> rat option) \<Rightarrow> header_source \<Rightarrow> webhook_body \<Rightarrow> jsstring \<Rightarrow> webhook_options \<Rightarrow> rat \<Rightarrow>
     webhook_failure + unit" where
  "verifyWebhook C other headers body secret opts now =
     res_bind (guard (secret \<noteq> []) NoSecret) (\<lambda>_.
     (case header_text headers WEBHOOK_SIGNATURE_V1_HEADER of
        Some v1 \<Rightarrow>
          res_bind (req (header_text headers WEBHOOK_TIMESTAMP_HEADER) BadTimestamp) (\<lambda>ts.
          res_bind (checkFreshness other ts opts now) (\<lambda>_.
          guard (timingSafeEqual (stripPrefix v1) (hmacHex C secret (concat_bytes (ts @ js ''.'') (toBytes body)))) SignatureMismatch))
      | None \<Rightarrow>
          res_bind (req (header_text headers WEBHOOK_SIGNATURE_HEADER) NoSignature) (\<lambda>legacy.
          res_bind (guard (wo_allowLegacyBodyOnly opts) NoSignature) (\<lambda>_.
          guard (timingSafeEqual (stripPrefix legacy) (hmacHex C secret (toBytes body))) SignatureMismatch))))"

text \<open>The headers of an inbound call: name, value.\<close>

definition signWebhookRequest :: "crypto \<Rightarrow> webhook_body \<Rightarrow> jsstring \<Rightarrow> nat \<Rightarrow> (jsstring \<times> jsstring) list" where
  "signWebhookRequest C body secret nowSeconds =
     (let ts = nat_text nowSeconds; sig = hmacHex C secret (concat_bytes (ts @ js ''.'') (toBytes body)) in
      [(js ''X-Writ-Timestamp'', ts), (js ''X-Writ-Signature'', js ''sha256='' @ sig)])"

subsection \<open>Properties\<close>

lemma xor_eq_0: "(a :: codeunit) XOR b = 0 \<longleftrightarrow> a = b"
proof
  assume "a XOR b = 0"
  then have "(a XOR b) XOR b = b" by simp
  then show "a = b" by (simp add: xor.assoc)
qed simp

lemma diff_units_0: "length a = length b \<Longrightarrow> diff_units a b d = 0 \<longleftrightarrow> d = 0 \<and> a = b"
  by (induction a b arbitrary: d rule: list_induct2) (auto simp: or_eq_0_iff xor_eq_0)

lemma timingSafeEqual_eq: "timingSafeEqual a b \<longleftrightarrow> a = b"
  by (auto simp: timingSafeEqual_def diff_units_0)

definition fresh :: "(jsstring \<Rightarrow> rat option) \<Rightarrow> jsstring \<Rightarrow> webhook_options \<Rightarrow> rat \<Rightarrow> bool" where
  "fresh other ts opts now \<longleftrightarrow>
     (let tolerance = (case wo_toleranceMs opts of None \<Rightarrow> 300000 | Some t \<Rightarrow> t) in
      tolerance < 0 \<or> (\<exists>s. seconds_of other ts = Some s \<and> \<bar>now - s * 1000\<bar> \<le> tolerance))"

lemma checkFreshness_Inr: "checkFreshness other ts opts now = Inr u \<longleftrightarrow> fresh other ts opts now"
  by (auto simp: checkFreshness_def fresh_def Let_def DEFAULT_WEBHOOK_TOLERANCE_MS_def result_simps not_less split: option.splits)

text \<open>A delivery is accepted exactly when its signature is right.  \<open>verifyWebhook\<close> resolves if and only if the secret
  is not empty and either a V1 signature is there, with a fresh timestamp, and its hex digits are those of the HMAC
  of \<open>timestamp.body\<close>; or none is there, the caller allows the legacy header, and it is the HMAC of the body.
  The comparison that takes the same time for every text decides equality.\<close>

theorem verifyWebhook_accepts:
  "verifyWebhook C other headers body secret opts now = Inr () \<longleftrightarrow>
     secret \<noteq> [] \<and>
     (case header_text headers WEBHOOK_SIGNATURE_V1_HEADER of
        Some v1 \<Rightarrow> (\<exists>ts. header_text headers WEBHOOK_TIMESTAMP_HEADER = Some ts \<and> fresh other ts opts now \<and>
          stripPrefix v1 = hex_bytes (hmac_sha256 C (utf8 secret) (utf8 (ts @ js ''.'') @ toBytes body)))
      | None \<Rightarrow> wo_allowLegacyBodyOnly opts \<and> (\<exists>legacy. header_text headers WEBHOOK_SIGNATURE_HEADER = Some legacy \<and>
          stripPrefix legacy = hex_bytes (hmac_sha256 C (utf8 secret) (toBytes body))))"
  by (auto simp: verifyWebhook_def result_simps checkFreshness_Inr timingSafeEqual_eq hmacHex_def concat_bytes_def split: option.splits)

lemma decimal_digits: "list_all (\<lambda>d. d < 10) ds \<Longrightarrow> decimal (map digit_unit ds) acc = foldl (\<lambda>a d. 10 * a + d) acc ds"
  by (induction ds arbitrary: acc) (auto simp: unat_digit_unit)

lemma seconds_of_nat_text:
  assumes "n < 10 ^ 15"
  shows "seconds_of other (nat_text n) = Some (of_nat n)"
proof -
  have "decimal (nat_text n) 0 = n"
    using decimal_digits [of "dec_digits n" 0] dec_digits_foldl [of n] dec_digits_less [of _ n]
    by (simp add: nat_text_def list_all_iff)
  moreover have "list_all is_digit (nat_text n)" using nat_text_digits by (auto simp: list_all_iff)
  moreover have "length (nat_text n) \<le> 15" using length_dec_digits [of n 15] assms by (simp add: nat_text_def)
  ultimately show ?thesis by (simp add: seconds_of_def)
qed

lemma js_lower_append: "js_lower (s @ t) = js_lower s @ js_lower t"
  by (induction s) auto

lemma plain_unit:
  assumes "is_digit u \<or> is_lower u"
  shows "\<not> is_upper u \<and> u \<noteq> 0x212A \<and> u \<noteq> 0x0130 \<and> \<not> is_space u"
proof -
  have "48 \<le> unat u \<and> unat u \<le> 57 \<or> 97 \<le> unat u \<and> unat u \<le> 122"
    using assms by (simp add: unit_class_defs word_le_nat_alt)
  then have n: "unat u \<le> 122" "\<not> (65 \<le> unat u \<and> unat u \<le> 90)" "33 \<le> unat u" by linarith+
  then have "u \<noteq> 0x212A" "u \<noteq> 0x0130" by auto
  moreover have "\<not> is_space u" using n by (auto simp: is_space_def word_le_nat_alt)
  ultimately show ?thesis using n by (simp add: is_upper_def unit_between_def word_le_nat_alt)
qed

lemma plain_units: "list_all (\<lambda>u. is_digit u \<or> is_lower u) s \<Longrightarrow> js_lower s = s \<and> (\<forall>u \<in> set s. \<not> is_space u)"
  by (induction s) (auto simp: plain_unit)

lemma hex_unit_plain: "n < 16 \<Longrightarrow> is_digit (hex_unit n) \<or> is_lower (hex_unit n)"
proof -
  assume "n < 16"
  then have "n \<in> set [0..<16]" by simp
  moreover have "\<forall>n \<in> set [0..<16]. is_digit (hex_unit n) \<or> is_lower (hex_unit n)" by code_simp
  ultimately show ?thesis by blast
qed

lemma hex_bytes_plain: "list_all (\<lambda>u. is_digit u \<or> is_lower u) (hex_bytes bs)"
proof -
  have "unat (b :: byte) div 16 < 16" for b
  proof -
    have "unat b < 2 ^ LENGTH(8)" by (rule unsigned_less)
    then show ?thesis by simp
  qed
  then show ?thesis by (auto simp: hex_bytes_def list_all_iff hex_unit_plain)
qed

text \<open>The headers of a delivery, as the sender names them.\<close>

definition delivery :: "crypto \<Rightarrow> webhook_body \<Rightarrow> jsstring \<Rightarrow> nat \<Rightarrow> header_source" where
  "delivery C body secret n = HeaderBag
     [(js ''X-Writ-Timestamp'', VStr (nat_text n)),
      (js ''X-Writ-Signature-V1'', VStr (js ''sha256='' @ hmacHex C secret (concat_bytes (nat_text n @ js ''.'') (toBytes body))))]"

lemma delivery_headers:
  "header_text (delivery C body secret n) WEBHOOK_SIGNATURE_V1_HEADER =
     Some (js ''sha256='' @ hmacHex C secret (concat_bytes (nat_text n @ js ''.'') (toBytes body)))"
  "header_text (delivery C body secret n) WEBHOOK_TIMESTAMP_HEADER = Some (nat_text n)"
proof -
  have low: "js_lower (js ''x-writ-signature-v1'') = js ''x-writ-signature-v1''" "js_lower (js ''x-writ-timestamp'') = js ''x-writ-timestamp''"
    "js_lower (js ''X-Writ-Timestamp'') = js ''x-writ-timestamp''" "js_lower (js ''X-Writ-Signature-V1'') = js ''x-writ-signature-v1''"
    by code_simp+
  have "\<forall>u \<in> set (js ''sha256=''). \<not> is_space u" by code_simp
  then have sp: "js_trim (js ''sha256='' @ hmacHex C secret m) = js ''sha256='' @ hmacHex C secret m" for m
    using plain_units [OF hex_bytes_plain] by (intro js_trim_plain) (auto simp: hmacHex_def)
  have tr: "js_trim (nat_text n) = nat_text n"
    using nat_text_digits plain_unit by (intro js_trim_plain) blast
  show "header_text (delivery C body secret n) WEBHOOK_SIGNATURE_V1_HEADER =
     Some (js ''sha256='' @ hmacHex C secret (concat_bytes (nat_text n @ js ''.'') (toBytes body)))"
    "header_text (delivery C body secret n) WEBHOOK_TIMESTAMP_HEADER = Some (nat_text n)"
    by (simp_all add: header_text_def headerValue_def delivery_def WEBHOOK_SIGNATURE_V1_HEADER_def WEBHOOK_TIMESTAMP_HEADER_def
        low inherited_js or_else_def nullish_def first_value_def sp tr Let_def)
qed

text \<open>A delivery signed at a time is accepted within the tolerance of that time, on either side, and at no other time:
  a captured delivery cannot be replayed later.\<close>

theorem delivery_window:
  assumes "secret \<noteq> []" "n < 10 ^ 15" "wo_toleranceMs opts = None"
  shows "verifyWebhook C other (delivery C body secret n) body secret opts now =
    (if \<bar>now - of_nat n * 1000\<bar> \<le> 300000 then Inr () else Inl Stale)"
proof -
  let ?h = "hmacHex C secret (concat_bytes (nat_text n @ js ''.'') (toBytes body))"
  have p: "stripPrefix (js ''sha256='' @ ?h) = ?h"
    using plain_units [OF hex_bytes_plain] by (simp add: stripPrefix_def hmacHex_def)
  show ?thesis
    using assms by (simp add: verifyWebhook_def delivery_headers p timingSafeEqual_eq checkFreshness_def seconds_of_nat_text
        DEFAULT_WEBHOOK_TOLERANCE_MS_def not_less guard_def)
qed

end
