(* ===== verification/Web_Errors.thy ===== *)
theory Web_Errors
  imports Js_Value Bridge_Constants "HOL-Library.AList"
begin

section \<open>Errors of the page library (web/src/errors.ts)\<close>

text \<open>
  Every failure the page library reports is a \<open>WritError\<close> with a code of the contract.  Message texts
  are not modelled; the details are.
\<close>

definition WRIT_ERROR_CODES :: "jsstring list" where
  "WRIT_ERROR_CODES = map js
     [''NOT_INSTALLED'', ''DESKTOP_MISSING'', ''DESKTOP_OUTDATED'', ''DAEMON_UNAVAILABLE'', ''VAULT_LOCKED'',
      ''CONSENT_DENIED'', ''NOT_GRANTED'', ''GRANT_STALE'', ''WRITE_NEEDS_CONFIRM'', ''INPUT_INVALID'',
      ''RATE_LIMITED'', ''LAN_NOT_ALLOWED'', ''RUN_FAILED'', ''CANCELLED'', ''TIMEOUT'', ''RESULT_TOO_LARGE'',
      ''BAD_REQUEST'', ''ORIGIN_NOT_ALLOWED'', ''INTERNAL'', ''RECIPE_UNAVAILABLE'', ''PUBLICATION_REVOKED'',
      ''QUOTA_EXCEEDED'', ''WRIT_REQUIRED'', ''USER_OFFLINE'', ''RESULT_UNVERIFIED'', ''CLOUD_NOT_CONFIGURED'']"

definition isWritErrorCode :: "jsval \<Rightarrow> bool" where
  "isWritErrorCode v = (case v of VStr s \<Rightarrow> s \<in> set WRIT_ERROR_CODES | _ \<Rightarrow> False)"

record writ_error =
  we_code :: jsstring
  we_details :: "fields option"

text \<open>What can be thrown: a \<open>WritError\<close> of this copy of the library, or any other value; an object is
  given by its properties.\<close>

datatype thrown = Writ writ_error | Thrown jsval

definition normalizeErrorCode :: "jsval \<Rightarrow> jsstring" where
  "normalizeErrorCode raw =
     (case raw of
        VStr s \<Rightarrow> if s \<in> set WRIT_ERROR_CODES then s
                  else if s = js ''PROTOCOL_MISMATCH'' then js ''DESKTOP_OUTDATED'' else js ''INTERNAL''
      | _ \<Rightarrow> js ''INTERNAL'')"

definition looksLikeWritError :: "thrown \<Rightarrow> writ_error option" where
  "looksLikeWritError e =
     (case e of
        Writ w \<Rightarrow> Some w
      | Thrown (VObj r) \<Rightarrow>
          (case (jget r (js ''code''), jget r (js ''message'')) of
             (VStr c, VStr _) \<Rightarrow>
               if jget r (js ''name'') = VStr (js ''WritError'') \<and> c \<in> set WRIT_ERROR_CODES
               then Some \<lparr>we_code = c, we_details = obj_of (jget r (js ''details''))\<rparr> else None
           | _ \<Rightarrow> None)
      | _ \<Rightarrow> None)"

definition isWritError :: "thrown \<Rightarrow> jsstring list option \<Rightarrow> bool" where
  "isWritError e codes =
     (case looksLikeWritError e of
        None \<Rightarrow> False
      | Some w \<Rightarrow> (case codes of None \<Rightarrow> True | Some cs \<Rightarrow> we_code w \<in> set cs))"

text \<open>\<open>{ ...a, ...b }\<close>.\<close>

definition mergeDetails :: "fields option \<Rightarrow> fields option \<Rightarrow> fields option" where
  "mergeDetails a b =
     (case (a, b) of
        (None, None) \<Rightarrow> None
      | _ \<Rightarrow> Some (fold (\<lambda>(k, v). AList.update k v) (case b of None \<Rightarrow> [] | Some fs \<Rightarrow> fs) (case a of None \<Rightarrow> [] | Some fs \<Rightarrow> fs)))"

definition toWritError :: "thrown \<Rightarrow> fields option \<Rightarrow> writ_error" where
  "toWritError e extra =
     (case looksLikeWritError e of
        Some w \<Rightarrow> (case (e, extra) of (Writ w', None) \<Rightarrow> w' | _ \<Rightarrow> w\<lparr>we_details := mergeDetails (we_details w) extra\<rparr>)
      | None \<Rightarrow>
          (case e of
             Thrown (VObj r) \<Rightarrow>
               (case jget r (js ''code'') of
                  VStr c \<Rightarrow>
                    if c \<noteq> [] then
                      (let code = normalizeErrorCode (VStr c) in
                       \<lparr>we_code = code, we_details = mergeDetails
                          (if code = c then None else Some [(js ''providerCode'', VStr c)]) extra\<rparr>)
                    else \<lparr>we_code = js ''INTERNAL'', we_details = extra\<rparr>
                | _ \<Rightarrow> \<lparr>we_code = js ''INTERNAL'', we_details = extra\<rparr>)
           | _ \<Rightarrow> \<lparr>we_code = js ''INTERNAL'', we_details = extra\<rparr>))"

lemma normalizeErrorCode_known: "normalizeErrorCode raw \<in> set WRIT_ERROR_CODES"
  by (auto simp: normalizeErrorCode_def WRIT_ERROR_CODES_def split: jsval.split)

text \<open>Whatever is thrown, the code reported is one of the contract's.\<close>

lemma toWritError_known:
  assumes "\<And>w. e = Writ w \<Longrightarrow> we_code w \<in> set WRIT_ERROR_CODES"
  shows "we_code (toWritError e extra) \<in> set WRIT_ERROR_CODES"
proof (cases "looksLikeWritError e")
  case None
  have "js ''INTERNAL'' \<in> set WRIT_ERROR_CODES" by (simp add: WRIT_ERROR_CODES_def)
  then show ?thesis
    using None normalizeErrorCode_known by (auto simp: toWritError_def Let_def split: thrown.split jsval.split)
next
  case (Some w)
  then have "we_code w \<in> set WRIT_ERROR_CODES"
    using assms by (auto simp: looksLikeWritError_def split: thrown.splits jsval.splits if_splits)
  then show ?thesis using Some assms by (auto simp: toWritError_def split: thrown.split option.split)
qed

end
