(* ===== verification/Visitor_Channel.thy ===== *)
theory Visitor_Channel
  imports Web_Errors "HOL-Library.Sublist"
begin

section \<open>The page's end of the channel (web/src/bridge-channel.ts)\<close>

text \<open>
  The page tells the site's server whether the visitor's Writ is ready, polls it for commands, runs
  them, and posts their outcomes.  The class is a record of its fields; each callback (a call of its
  methods, a timer, the end of a fetch or of a run) is one function on it, up to its next \<open>await\<close>.
  What goes out is appended to a log.  Readiness, visibility and the clock are arguments.
\<close>

definition BRIDGE_MIN_POLL_INTERVAL_MS :: int where "BRIDGE_MIN_POLL_INTERVAL_MS = 1000"
definition BRIDGE_BACKOFF_MIN_MS :: int where "BRIDGE_BACKOFF_MIN_MS = 1000"
definition BRIDGE_BACKOFF_MAX_MS :: int where "BRIDGE_BACKOFF_MAX_MS = 30000"
definition BRIDGE_RESULT_ATTEMPTS :: nat where "BRIDGE_RESULT_ATTEMPTS = 4"
definition BRIDGE_SEEN_COMMANDS :: nat where "BRIDGE_SEEN_COMMANDS = 256"
definition MAX_COMMAND_ID_LENGTH :: nat where "MAX_COMMAND_ID_LENGTH = 128"

subsection \<open>Data\<close>

datatype channel_state = ChIdle | ChPolling | ChRetrying | ChPaused | ChUnauthorized | ChStopped

record readiness =
  rd_ready :: bool
  rd_granted :: "jsstring list"
  rd_version :: "jsstring option"

record page_command =
  pc_id :: jsstring
  pc_key :: jsstring
  pc_inputs :: fields
  pc_timeoutMs :: "jsnum option"
  pc_dryRun :: "bool option"
  pc_challenge :: "jsstring option"
  pc_expiresAt :: "jsnum option"

text \<open>An outcome; a message text is left out.\<close>

datatype outcome = Succeeded jsval "fields option" | FailedWith jsstring "fields option"

text \<open>What goes out: a poll, a hello, an outcome (with \<open>keepalive\<close>); and which command ids were taken and run.\<close>

datatype sent = Get | Hello readiness | Result jsstring outcome bool | Took jsstring | Ran jsstring

text \<open>Where the poll loop is: not running, awaiting a poll (begun at a time, aborted or not), or asleep.\<close>

datatype loop_point = NoLoop | AtPoll int bool | AtSleep

text \<open>An outcome being posted: its next attempt, its backoff, and whether it awaits an answer or the wait.\<close>

record posting =
  po_id :: jsstring
  po_outcome :: outcome
  po_expiresAt :: "jsnum option"
  po_attempt :: nat
  po_delay :: int
  po_final :: bool
  po_waiting :: bool

record page =
  pg_state :: channel_state
  pg_started :: bool
  pg_stopped :: bool
  pg_paused :: bool
  pg_unauthorized :: bool
  pg_looping :: bool
  pg_backoffMs :: int
  pg_loop :: loop_point
  pg_helloTimer :: bool
  pg_hiddenTimer :: bool
  pg_lastHello :: "readiness option"
  pg_hellos :: "readiness list"
  pg_running :: "(jsstring \<times> nat) list"
  pg_active :: "(nat \<times> page_command) list"
  pg_aborted :: "nat list"
  pg_fresh :: nat
  pg_seen :: "jsstring list"
  pg_postings :: "posting list"
  pg_log :: "sent list"

definition new_page :: page where
  "new_page = \<lparr>pg_state = ChIdle, pg_started = False, pg_stopped = False, pg_paused = False, pg_unauthorized = False,
     pg_looping = False, pg_backoffMs = 0, pg_loop = NoLoop, pg_helloTimer = False, pg_hiddenTimer = False,
     pg_lastHello = None, pg_hellos = [], pg_running = [], pg_active = [], pg_aborted = [], pg_fresh = 0,
     pg_seen = [], pg_postings = [], pg_log = []\<rparr>"

record surroundings =
  sr_readiness :: readiness
  sr_hidden :: bool
  sr_now :: int

definition log_sent :: "sent \<Rightarrow> page \<Rightarrow> page" where
  "log_sent x p = p\<lparr>pg_log := pg_log p @ [x]\<rparr>"

subsection \<open>The state shown\<close>

definition label_of :: "page \<Rightarrow> channel_state" where
  "label_of p =
     (if pg_stopped p then ChStopped
      else if pg_unauthorized p then ChUnauthorized
      else if pg_paused p then ChPaused
      else if pg_looping p then (if pg_backoffMs p > 0 then ChRetrying else ChPolling)
      else ChIdle)"

definition updateState :: "page \<Rightarrow> page" where
  "updateState p = p\<lparr>pg_state := label_of p\<rparr>"

subsection \<open>Polling\<close>

definition shouldPoll :: "surroundings \<Rightarrow> page \<Rightarrow> bool" where
  "shouldPoll env p \<longleftrightarrow>
     pg_started p \<and> \<not> pg_stopped p \<and> \<not> pg_paused p \<and> \<not> pg_unauthorized p \<and> rd_ready (sr_readiness env)"

text \<open>\<open>#pollAbort?.abort()\<close>; \<open>#wake\<close> only lets a sleep end, which here any sleep may.\<close>

definition abort_poll :: "page \<Rightarrow> page" where
  "abort_poll p = (case pg_loop p of AtPoll t a \<Rightarrow> p\<lparr>pg_loop := AtPoll t True\<rparr> | _ \<Rightarrow> p)"

text \<open>The head of the \<open>while\<close> loop: the next poll, or the \<open>finally\<close> block.\<close>

definition loop_head :: "surroundings \<Rightarrow> page \<Rightarrow> page" where
  "loop_head env p =
     (if shouldPoll env p then log_sent Get (p\<lparr>pg_loop := AtPoll (sr_now env) False\<rparr>)
      else updateState (p\<lparr>pg_loop := NoLoop, pg_looping := False\<rparr>))"

definition loop_start :: "surroundings \<Rightarrow> page \<Rightarrow> page" where
  "loop_start env p = loop_head env (updateState (p\<lparr>pg_looping := True\<rparr>))"

definition sync :: "surroundings \<Rightarrow> page \<Rightarrow> page" where
  "sync env p =
     updateState
       (if shouldPoll env p
        then (let p1 = (if \<not> pg_looping p then loop_start env p else p) in p1\<lparr>pg_helloTimer := True\<rparr>)
        else (abort_poll p)\<lparr>pg_helloTimer := False\<rparr>)"

definition refused :: "page \<Rightarrow> page" where
  "refused p =
     (if pg_unauthorized p then p
      else updateState ((abort_poll (p\<lparr>pg_unauthorized := True\<rparr>))\<lparr>pg_helloTimer := False\<rparr>))"

definition next_backoff :: "int \<Rightarrow> int" where
  "next_backoff b = (if b = 0 then BRIDGE_BACKOFF_MIN_MS else min (b * 2) BRIDGE_BACKOFF_MAX_MS)"

definition backoff :: "page \<Rightarrow> page" where
  "backoff p = (updateState (p\<lparr>pg_backoffMs := next_backoff (pg_backoffMs p)\<rparr>))\<lparr>pg_loop := AtSleep\<rparr>"

text \<open>How a poll ends: the fetch or the reading of its body failed (after the guard timer, or not), or an
  answer with a status and, where it is read, a body.\<close>

datatype poll_end = PollThrew bool | PollAnswered nat jsval

datatype poll_answer = Commands "jsval list" | PollAborted | PollUnauthorized | PollFailed

definition poll_answer_of :: "bool \<Rightarrow> poll_end \<Rightarrow> poll_answer" where
  "poll_answer_of aborted e =
     (case e of
        PollThrew timedOut \<Rightarrow> if aborted \<and> \<not> timedOut then PollAborted else PollFailed
      | PollAnswered status body \<Rightarrow>
          if status = 401 \<or> status = 403 then PollUnauthorized
          else if status = 204 then Commands []
          else if \<not> (200 \<le> status \<and> status \<le> 299) then PollFailed
          else (case obj_of body of
              None \<Rightarrow> PollFailed
            | Some r \<Rightarrow> (case jget r (js ''commands'') of VArr cs \<Rightarrow> Commands cs | _ \<Rightarrow> PollFailed)))"

subsection \<open>Hello\<close>

text \<open>Hellos are compared by their JSON text; equal readiness is equal text.\<close>

definition hello :: "surroundings \<Rightarrow> bool \<Rightarrow> page \<Rightarrow> page" where
  "hello env force p =
     (if pg_stopped p \<or> pg_unauthorized p then p
      else if \<not> force \<and> pg_lastHello p = Some (sr_readiness env) then p
      else log_sent (Hello (sr_readiness env))
             (p\<lparr>pg_lastHello := Some (sr_readiness env), pg_hellos := pg_hellos p @ [sr_readiness env]\<rparr>))"

definition hello_done :: "nat \<Rightarrow> nat option \<Rightarrow> page \<Rightarrow> page" where
  "hello_done i status p =
     (if i < length (pg_hellos p) then
        (let h = pg_hellos p ! i; p1 = p\<lparr>pg_hellos := take i (pg_hellos p) @ drop (Suc i) (pg_hellos p)\<rparr> in
         if status = Some 401 \<or> status = Some 403 then refused p1
         else if (case status of None \<Rightarrow> True | Some s \<Rightarrow> s \<ge> 400) \<and> pg_lastHello p1 = Some h
         then p1\<lparr>pg_lastHello := None\<rparr> else p1)
      else p)"

subsection \<open>Commands\<close>

definition opt_num :: "jsval \<Rightarrow> jsnum option option" where
  "opt_num v = (case v of VUndef \<Rightarrow> Some None | VNull \<Rightarrow> Some None | VNum n \<Rightarrow> if is_finite n then Some (Some n) else None | _ \<Rightarrow> None)"

definition opt_bool :: "jsval \<Rightarrow> bool option option" where
  "opt_bool v = (case v of VUndef \<Rightarrow> Some None | VNull \<Rightarrow> Some None | VBool b \<Rightarrow> Some (Some b) | _ \<Rightarrow> None)"

definition opt_str :: "jsval \<Rightarrow> jsstring option option" where
  "opt_str v = (case v of VUndef \<Rightarrow> Some None | VNull \<Rightarrow> Some None | VStr s \<Rightarrow> Some (Some s) | _ \<Rightarrow> None)"

text \<open>A command, or the id of one that is malformed.\<close>

definition parseCommand :: "jsval \<Rightarrow> (jsstring + page_command) option" where
  "parseCommand raw =
     (case obj_of raw of
        None \<Rightarrow> None
      | Some r \<Rightarrow>
          (case jget r (js ''id'') of
             VStr i \<Rightarrow>
               if i = [] \<or> length i > MAX_COMMAND_ID_LENGTH then None
               else Some
                 (res_bind (req (str_of (jget r (js ''key''))) i) (\<lambda>key.
                  res_bind (guard (FUNCTION_KEY_PATTERN key) i) (\<lambda>_.
                  res_bind (req (obj_of (or_else (jget r (js ''inputs'')) (VObj []))) i) (\<lambda>inputs.
                  res_bind (req (obj_of (or_else (jget r (js ''options'')) (VObj []))) i) (\<lambda>options.
                  res_bind (req (opt_num (jget options (js ''timeout_ms''))) i) (\<lambda>timeoutMs.
                  res_bind (req (opt_bool (jget options (js ''dry_run''))) i) (\<lambda>dryRun.
                  res_bind (req (opt_str (jget r (js ''challenge''))) i) (\<lambda>challenge.
                  res_bind (req (opt_num (jget r (js ''expires_at''))) i) (\<lambda>expiresAt.
                  Inr \<lparr>pc_id = i, pc_key = key, pc_inputs = inputs, pc_timeoutMs = timeoutMs, pc_dryRun = dryRun,
                       pc_challenge = challenge, pc_expiresAt = expiresAt\<rparr>)))))))))
           | _ \<Rightarrow> None))"

text \<open>\<open>Date.now() / 1000 >= expiresAt\<close>.\<close>

definition expired :: "int \<Rightarrow> jsnum option \<Rightarrow> bool" where
  "expired now x = (case x of Some (Fin m e) \<Rightarrow> m * 1000 \<le> now * 10 ^ e | _ \<Rightarrow> False)"

text \<open>The head of the posting loop: one more post, unless the token was refused.\<close>

definition post_head :: "posting \<Rightarrow> page \<Rightarrow> posting option \<times> page" where
  "post_head d p =
     (if pg_unauthorized p then (None, p)
      else (Some (d\<lparr>po_final := pg_stopped p, po_waiting := False\<rparr>), log_sent (Result (po_id d) (po_outcome d) (pg_stopped p)) p))"

definition deliver :: "jsstring \<Rightarrow> outcome \<Rightarrow> jsnum option \<Rightarrow> page \<Rightarrow> page" where
  "deliver i out expiresAt p =
     (case post_head \<lparr>po_id = i, po_outcome = out, po_expiresAt = expiresAt, po_attempt = 1, po_delay = BRIDGE_BACKOFF_MIN_MS,
        po_final = False, po_waiting = False\<rparr> p of
        (None, p1) \<Rightarrow> p1
      | (Some d, p1) \<Rightarrow> p1\<lparr>pg_postings := pg_postings p1 @ [d]\<rparr>)"

definition drop_posting :: "nat \<Rightarrow> page \<Rightarrow> page" where
  "drop_posting k p = p\<lparr>pg_postings := take k (pg_postings p) @ drop (Suc k) (pg_postings p)\<rparr>"

definition deliver_answered :: "int \<Rightarrow> nat \<Rightarrow> nat option \<Rightarrow> page \<Rightarrow> page" where
  "deliver_answered now k status p =
     (if k < length (pg_postings p) \<and> \<not> po_waiting (pg_postings p ! k) then
        (let d = pg_postings p ! k in
         if status = Some 401 \<or> status = Some 403 then refused (drop_posting k p)
         else if (case status of None \<Rightarrow> False | Some s \<Rightarrow> s < 500 \<and> s \<noteq> 408 \<and> s \<noteq> 429) then drop_posting k p
         else if po_final d \<or> pg_stopped p \<or> po_attempt d \<ge> BRIDGE_RESULT_ATTEMPTS then drop_posting k p
         else if expired now (po_expiresAt d) then drop_posting k p
         else p\<lparr>pg_postings := (pg_postings p)[k := d\<lparr>po_waiting := True\<rparr>]\<rparr>)
      else p)"

definition deliver_waited :: "nat \<Rightarrow> page \<Rightarrow> page" where
  "deliver_waited k p =
     (if k < length (pg_postings p) \<and> po_waiting (pg_postings p ! k) then
        (let d = (pg_postings p ! k)\<lparr>po_delay := min (po_delay (pg_postings p ! k) * 2) BRIDGE_BACKOFF_MAX_MS,
             po_attempt := po_attempt (pg_postings p ! k) + 1\<rparr> in
         (case post_head d p of
            (None, p1) \<Rightarrow> drop_posting k p1
          | (Some d', p1) \<Rightarrow> p1\<lparr>pg_postings := (pg_postings p1)[k := d']\<rparr>))
      else p)"

definition remember :: "jsstring \<Rightarrow> page \<Rightarrow> page" where
  "remember i p =
     log_sent (Took i) (p\<lparr>pg_seen := drop (length (pg_seen p @ [i]) - BRIDGE_SEEN_COMMANDS) (pg_seen p @ [i])\<rparr>)"

definition execute :: "page_command \<Rightarrow> page \<Rightarrow> page" where
  "execute c p =
     log_sent (Ran (pc_id c))
       (p\<lparr>pg_running := AList.update (pc_id c) (pg_fresh p) (pg_running p), pg_active := pg_active p @ [(pg_fresh p, c)],
          pg_fresh := pg_fresh p + 1\<rparr>)"

definition accept :: "int \<Rightarrow> jsval \<Rightarrow> page \<Rightarrow> page" where
  "accept now raw p =
     (case parseCommand raw of
        None \<Rightarrow> p
      | Some parsed \<Rightarrow>
          (let i = (case parsed of Inl i \<Rightarrow> i | Inr c \<Rightarrow> pc_id c) in
           if i \<in> set (pg_seen p) then p
           else (let p1 = remember i p in
             (case parsed of
                Inl _ \<Rightarrow> deliver i (FailedWith (js ''BAD_REQUEST'') None) None p1
              | Inr c \<Rightarrow>
                  if expired now (pc_expiresAt c) then deliver i (FailedWith (js ''TIMEOUT'') None) None p1
                  else execute c p1))))"

text \<open>How a run ends: \<open>run\<close> resolved, or rejected.\<close>

datatype run_end = Resolved outcome | Rejected thrown

definition run_ended :: "nat \<Rightarrow> run_end \<Rightarrow> page \<Rightarrow> page" where
  "run_ended h e p =
     (case map_of (pg_active p) h of
        None \<Rightarrow> p
      | Some c \<Rightarrow>
          (let out = (case e of Resolved out \<Rightarrow> out | Rejected t \<Rightarrow> FailedWith (we_code (toWritError t None)) None);
               p1 = p\<lparr>pg_running := AList.delete (pc_id c) (pg_running p), pg_active := AList.delete h (pg_active p)\<rparr>
           in deliver (pc_id c) out (pc_expiresAt c) p1))"

subsection \<open>The loop goes on\<close>

definition poll_ended :: "surroundings \<Rightarrow> poll_end \<Rightarrow> page \<Rightarrow> page" where
  "poll_ended env e p =
     (case pg_loop p of
        AtPoll started aborted \<Rightarrow>
          (case poll_answer_of aborted e of
             PollAborted \<Rightarrow> loop_head env p
           | PollUnauthorized \<Rightarrow> updateState ((refused (p\<lparr>pg_loop := NoLoop\<rparr>))\<lparr>pg_looping := False\<rparr>)
           | PollFailed \<Rightarrow> backoff p
           | Commands cs \<Rightarrow>
               (let p1 = updateState (p\<lparr>pg_backoffMs := 0\<rparr>);
                    p2 = fold (accept (sr_now env)) cs p1 in
                if cs = [] \<and> sr_now env - started < BRIDGE_MIN_POLL_INTERVAL_MS then p2\<lparr>pg_loop := AtSleep\<rparr>
                else loop_head env p2))
      | _ \<Rightarrow> p)"

definition sleep_ended :: "surroundings \<Rightarrow> page \<Rightarrow> page" where
  "sleep_ended env p = (if pg_loop p = AtSleep then loop_head env p else p)"

subsection \<open>Methods and visibility\<close>

definition armHiddenTimer :: "page \<Rightarrow> page" where
  "armHiddenTimer p = (if pg_hiddenTimer p \<or> pg_paused p then p else p\<lparr>pg_hiddenTimer := True\<rparr>)"

definition start :: "surroundings \<Rightarrow> page \<Rightarrow> page" where
  "start env p =
     (if pg_started p \<or> pg_stopped p then p
      else (let p1 = p\<lparr>pg_started := True\<rparr>; p2 = (if sr_hidden env then armHiddenTimer p1 else p1) in
        sync env (hello env True p2)))"

definition notify :: "surroundings \<Rightarrow> page \<Rightarrow> page" where
  "notify env p = (if \<not> pg_started p \<or> pg_stopped p then p else sync env (hello env False p))"

definition stop :: "page \<Rightarrow> page" where
  "stop p =
     (if pg_stopped p then p
      else updateState ((abort_poll (p\<lparr>pg_stopped := True, pg_helloTimer := False, pg_hiddenTimer := False\<rparr>))
             \<lparr>pg_aborted := pg_aborted p @ map snd (pg_running p)\<rparr>))"

text \<open>\<open>visibilitychange\<close> is listened to from \<open>start\<close> to \<open>stop\<close>.\<close>

definition visibilityChanged :: "surroundings \<Rightarrow> page \<Rightarrow> page" where
  "visibilityChanged env p =
     (if \<not> pg_started p \<or> pg_stopped p then p
      else if sr_hidden env then armHiddenTimer p
      else (let p1 = p\<lparr>pg_hiddenTimer := False\<rparr> in
        if pg_paused p1 then sync env (hello env True (p1\<lparr>pg_paused := False, pg_backoffMs := 0\<rparr>)) else p1))"

definition hidden_timer :: "surroundings \<Rightarrow> page \<Rightarrow> page" where
  "hidden_timer env p =
     (if \<not> pg_hiddenTimer p then p
      else (let p1 = p\<lparr>pg_hiddenTimer := False\<rparr> in
        if pg_stopped p1 \<or> \<not> sr_hidden env then p1 else sync env (p1\<lparr>pg_paused := True\<rparr>)))"

definition hello_timer :: "surroundings \<Rightarrow> page \<Rightarrow> page" where
  "hello_timer env p = (if pg_helloTimer p then hello env True p else p)"

subsection \<open>Any order of callbacks\<close>

datatype callback =
    Start | Notify | Stop | VisibilityChange | HiddenTimer | HelloTimer | HelloDone nat "nat option"
  | PollEnds poll_end | SleepEnds | RunEnds nat run_end | PostAnswered nat "nat option" | PostWaited nat

fun step :: "surroundings \<times> callback \<Rightarrow> page \<Rightarrow> page" where
  "step (env, Start) p = start env p"
| "step (env, Notify) p = notify env p"
| "step (env, Stop) p = stop p"
| "step (env, VisibilityChange) p = visibilityChanged env p"
| "step (env, HiddenTimer) p = hidden_timer env p"
| "step (env, HelloTimer) p = hello_timer env p"
| "step (env, HelloDone i s) p = hello_done i s p"
| "step (env, PollEnds e) p = poll_ended env e p"
| "step (env, SleepEnds) p = sleep_ended env p"
| "step (env, RunEnds h e) p = run_ended h e p"
| "step (env, PostAnswered k s) p = deliver_answered (sr_now env) k s p"
| "step (env, PostWaited k) p = deliver_waited k p"

definition history :: "(surroundings \<times> callback) list \<Rightarrow> page" where
  "history cs = fold step cs new_page"

subsection \<open>What goes out\<close>

definition took :: "sent list \<Rightarrow> jsstring list" where
  "took xs = concat (map (\<lambda>x. case x of Took i \<Rightarrow> [i] | _ \<Rightarrow> []) xs)"

definition ran :: "sent list \<Rightarrow> jsstring list" where
  "ran xs = concat (map (\<lambda>x. case x of Ran i \<Rightarrow> [i] | _ \<Rightarrow> []) xs)"

definition polls :: "sent list \<Rightarrow> sent list" where
  "polls xs = filter (\<lambda>x. case x of Get \<Rightarrow> True | Hello _ \<Rightarrow> True | _ \<Rightarrow> False) xs"

definition posts :: "sent list \<Rightarrow> sent list" where
  "posts xs = filter (\<lambda>x. case x of Result _ _ _ \<Rightarrow> True | _ \<Rightarrow> False) xs"

lemma log_parts [simp]:
  "took (xs @ ys) = took xs @ took ys" "took [] = []" "took (x # xs) = (case x of Took i \<Rightarrow> [i] | _ \<Rightarrow> []) @ took xs"
  "ran (xs @ ys) = ran xs @ ran ys" "ran [] = []" "ran (x # xs) = (case x of Ran i \<Rightarrow> [i] | _ \<Rightarrow> []) @ ran xs"
  "polls (xs @ ys) = polls xs @ polls ys" "polls [] = []"
  "polls (x # xs) = (case x of Get \<Rightarrow> [x] | Hello _ \<Rightarrow> [x] | _ \<Rightarrow> []) @ polls xs"
  "posts (xs @ ys) = posts xs @ posts ys" "posts [] = []"
  "posts (x # xs) = (case x of Result _ _ _ \<Rightarrow> [x] | _ \<Rightarrow> []) @ posts xs"
  by (simp_all add: took_def ran_def polls_def posts_def split: sent.split)

lemmas page_defs =
  log_sent_def updateState_def abort_poll_def loop_head_def loop_start_def sync_def refused_def backoff_def hello_def hello_done_def
  post_head_def deliver_def drop_posting_def deliver_answered_def deliver_waited_def execute_def run_ended_def
  sleep_ended_def armHiddenTimer_def start_def notify_def stop_def visibilityChanged_def hidden_timer_def hello_timer_def Let_def

subsection \<open>A refused or stopped channel is silent\<close>

text \<open>No callback undoes a refusal or a stop, or polls or says hello after it.\<close>

definition quiet :: "page \<Rightarrow> page \<Rightarrow> bool" where
  "quiet p p' \<longleftrightarrow>
     (pg_stopped p \<longrightarrow> pg_stopped p') \<and> (pg_unauthorized p \<longrightarrow> pg_unauthorized p') \<and>
     (pg_stopped p \<or> pg_unauthorized p \<longrightarrow> polls (pg_log p') = polls (pg_log p)) \<and>
     (pg_unauthorized p \<longrightarrow> posts (pg_log p') = posts (pg_log p))"

lemma quiet_refl [simp]: "quiet p p"
  by (simp add: quiet_def)

lemma quiet_trans: "quiet p q \<Longrightarrow> quiet q r \<Longrightarrow> quiet p r"
  by (auto simp: quiet_def)

lemma quiet_accept: "quiet p (accept now raw p)"
  by (auto simp: quiet_def accept_def remember_def page_defs split: option.split sum.split)

lemma quiet_fold: "(\<And>x p. quiet p (f x p)) \<Longrightarrow> quiet p (fold f xs p)"
  by (induction xs arbitrary: p) (auto intro: quiet_trans)

lemma quiet_loop_head: "quiet p (loop_head env p)"
  by (auto simp: quiet_def loop_head_def shouldPoll_def page_defs)

lemma quiet_from: "pg_stopped q = pg_stopped p \<Longrightarrow> pg_unauthorized q = pg_unauthorized p \<Longrightarrow> pg_log q = pg_log p \<Longrightarrow> quiet q r \<Longrightarrow> quiet p r"
  by (simp add: quiet_def)

lemma quiet_to: "pg_stopped r = pg_stopped q \<Longrightarrow> pg_unauthorized r = pg_unauthorized q \<Longrightarrow> pg_log r = pg_log q \<Longrightarrow> quiet p q \<Longrightarrow> quiet p r"
  by (simp add: quiet_def)

lemma quiet_sync: "quiet p (sync env p)"
proof -
  have a: "quiet p (abort_poll p)" by (simp add: quiet_def abort_poll_def split: loop_point.split)
  have "quiet p (loop_start env p)"
    unfolding loop_start_def by (rule quiet_from [OF _ _ _ quiet_loop_head]) (simp_all add: updateState_def)
  then show ?thesis using a
    unfolding sync_def Let_def by (auto simp: updateState_def intro: quiet_to)
qed

lemma quiet_hello: "quiet p (hello env force p)"
  by (simp add: quiet_def hello_def log_sent_def)

lemma quiet_refused: "quiet p (refused p)"
  by (simp add: quiet_def refused_def updateState_def abort_poll_def split: loop_point.split)

lemma quiet_deliver: "quiet p (deliver i out x p)"
  by (simp add: quiet_def deliver_def post_head_def log_sent_def)

lemma quiet_poll_ended: "quiet p (poll_ended env e p)"
proof (cases "pg_loop p")
  case (AtPoll started aborted)
  have b: "quiet p (updateState (p\<lparr>pg_backoffMs := 0\<rparr>))" by (simp add: quiet_def updateState_def)
  have f: "quiet p (fold (accept now) cs (updateState (p\<lparr>pg_backoffMs := 0\<rparr>)))" for cs now
    by (rule quiet_trans [OF b quiet_fold]) (rule quiet_accept)
  show ?thesis
  proof (cases "poll_answer_of aborted e")
    case (Commands cs)
    have "quiet p (loop_head env (fold (accept (sr_now env)) cs (updateState (p\<lparr>pg_backoffMs := 0\<rparr>))))"
      by (rule quiet_trans [OF f quiet_loop_head])
    moreover have "quiet p ((fold (accept (sr_now env)) cs (updateState (p\<lparr>pg_backoffMs := 0\<rparr>)))\<lparr>pg_loop := AtSleep\<rparr>)"
      by (rule quiet_to [OF _ _ _ f]) simp_all
    ultimately show ?thesis by (simp only: poll_ended_def AtPoll Commands loop_point.case poll_answer.case Let_def split: if_split) simp
  next
    case PollAborted
    then show ?thesis using quiet_loop_head by (simp add: poll_ended_def AtPoll)
  next
    case PollUnauthorized
    have "quiet p (refused (p\<lparr>pg_loop := NoLoop\<rparr>))" by (rule quiet_from [OF _ _ _ quiet_refused]) simp_all
    then have "quiet p (updateState ((refused (p\<lparr>pg_loop := NoLoop\<rparr>))\<lparr>pg_looping := False\<rparr>))"
      by (rule quiet_to [rotated 3]) (simp_all add: updateState_def)
    then show ?thesis by (simp only: poll_ended_def AtPoll PollUnauthorized loop_point.case poll_answer.case)
  next
    case PollFailed
    then show ?thesis by (simp add: poll_ended_def AtPoll backoff_def updateState_def quiet_def)
  qed
qed (simp_all add: poll_ended_def)

lemma quiet_hello_done: "quiet p (hello_done i s p)"
proof -
  have "quiet p (refused (p\<lparr>pg_hellos := h\<rparr>))" for h by (rule quiet_from [OF _ _ _ quiet_refused]) simp_all
  moreover have "quiet p (p\<lparr>pg_hellos := h\<rparr>)" "quiet p (p\<lparr>pg_hellos := h, pg_lastHello := None\<rparr>)" for h by (simp_all add: quiet_def)
  ultimately show ?thesis by (simp add: hello_done_def Let_def)
qed

lemma quiet_run_ended: "quiet p (run_ended h e p)"
  unfolding run_ended_def Let_def by (auto intro: quiet_from [OF _ _ _ quiet_deliver] split: option.split)

lemma quiet_deliver_answered: "quiet p (deliver_answered now k s p)"
proof -
  have "quiet p (refused (p\<lparr>pg_postings := ds\<rparr>))" for ds by (rule quiet_from [OF _ _ _ quiet_refused]) simp_all
  moreover have "quiet p (p\<lparr>pg_postings := ds\<rparr>)" for ds by (simp add: quiet_def)
  ultimately show ?thesis by (simp add: deliver_answered_def drop_posting_def Let_def)
qed

lemma quiet_deliver_waited: "quiet p (deliver_waited k p)"
  by (simp add: quiet_def deliver_waited_def post_head_def drop_posting_def log_sent_def Let_def)

lemma quiet_start: "quiet p (start env p)"
proof -
  have "quiet p (sync env (hello env True q))" if "pg_stopped q = pg_stopped p" "pg_unauthorized q = pg_unauthorized p" "pg_log q = pg_log p" for q
    by (rule quiet_from [OF that quiet_trans [OF quiet_hello quiet_sync]])
  then show ?thesis by (simp add: start_def armHiddenTimer_def Let_def)
qed

lemma quiet_visibility: "quiet p (visibilityChanged env p)"
proof -
  have "quiet p (sync env (hello env True q))" if "pg_stopped q = pg_stopped p" "pg_unauthorized q = pg_unauthorized p" "pg_log q = pg_log p" for q
    by (rule quiet_from [OF that quiet_trans [OF quiet_hello quiet_sync]])
  then show ?thesis by (simp add: visibilityChanged_def armHiddenTimer_def Let_def) (simp add: quiet_def)
qed

lemma quiet_step: "quiet p (step c p)"
proof (cases "(c, p)" rule: step.cases)
  case (1 env q) then show ?thesis using quiet_start by simp
next
  case (2 env q) then show ?thesis using quiet_trans [OF quiet_hello quiet_sync] by (simp add: notify_def)
next
  case (3 env q) then show ?thesis
    by (simp add: stop_def quiet_def updateState_def abort_poll_def split: loop_point.split)
next
  case (4 env q) then show ?thesis using quiet_visibility by simp
next
  case (5 env q)
  have "quiet q (sync env (q\<lparr>pg_hiddenTimer := False, pg_paused := True\<rparr>))"
    by (rule quiet_from [OF _ _ _ quiet_sync]) simp_all
  then show ?thesis using 5 by (simp add: hidden_timer_def Let_def) (simp add: quiet_def)
next
  case (6 env q) then show ?thesis using quiet_hello by (simp add: hello_timer_def)
next
  case (7 env i st q) then show ?thesis using quiet_hello_done by simp
next
  case (8 env e q) then show ?thesis using quiet_poll_ended by simp
next
  case (9 env q) then show ?thesis using quiet_loop_head by (simp add: sleep_ended_def)
next
  case (10 env h e q) then show ?thesis using quiet_run_ended by simp
next
  case (11 env k st q) then show ?thesis using quiet_deliver_answered by simp
next
  case (12 env k q) then show ?thesis using quiet_deliver_waited by simp
qed

text \<open>Once the server refused the token, or the page destroyed the channel, the channel never polls or
  says hello again, whatever callbacks still come and in whatever order; after a refusal it posts no
  result either; and neither state is ever left.\<close>

theorem channel_stays_silent:
  assumes "pg_stopped p \<or> pg_unauthorized p"
  shows "polls (pg_log (fold step cs p)) = polls (pg_log p) \<and>
    (pg_unauthorized p \<longrightarrow> posts (pg_log (fold step cs p)) = posts (pg_log p) \<and> pg_unauthorized (fold step cs p)) \<and>
    (pg_stopped p \<longrightarrow> pg_stopped (fold step cs p))"
proof -
  have "quiet p (fold step cs p)" by (rule quiet_fold) (rule quiet_step)
  then show ?thesis using assms by (simp add: quiet_def)
qed

subsection \<open>Every command at most once\<close>

text \<open>What the page remembers: the ids seen, and those taken and run so far.\<close>

definition memory_of :: "page \<Rightarrow> jsstring list \<times> jsstring list \<times> jsstring list" where
  "memory_of p = (pg_seen p, took (pg_log p), ran (pg_log p))"

text \<open>The ids seen are the last \<open>BRIDGE_SEEN_COMMANDS\<close> taken; among the taken, equal ids are far apart; what
  ran was taken.\<close>

definition memory_ok :: "jsstring list \<times> jsstring list \<times> jsstring list \<Rightarrow> bool" where
  "memory_ok m \<longleftrightarrow>
     (case m of (seen, tk, rn) \<Rightarrow>
        seen = drop (length tk - BRIDGE_SEEN_COMMANDS) tk \<and> subseq rn tk \<and>
        (\<forall>i j. i < j \<longrightarrow> j < length tk \<longrightarrow> j - i \<le> BRIDGE_SEEN_COMMANDS \<longrightarrow> tk ! i \<noteq> tk ! j))"

lemma memory_simps [simp]:
  "memory_of (updateState p) = memory_of p" "memory_of (abort_poll p) = memory_of p" "memory_of (refused p) = memory_of p"
  "memory_of (hello env force p) = memory_of p" "memory_of (backoff p) = memory_of p" "memory_of (deliver i out x p) = memory_of p"
  by (simp_all add: memory_of_def updateState_def abort_poll_def refused_def hello_def log_sent_def backoff_def deliver_def post_head_def
      split: loop_point.split)

lemma memory_update [simp]:
  "memory_of (p\<lparr>pg_loop := l\<rparr>) = memory_of p" "memory_of (p\<lparr>pg_looping := b\<rparr>) = memory_of p"
  "memory_of (p\<lparr>pg_helloTimer := b\<rparr>) = memory_of p" "memory_of (p\<lparr>pg_hiddenTimer := b\<rparr>) = memory_of p"
  "memory_of (p\<lparr>pg_postings := ds\<rparr>) = memory_of p" "memory_of (p\<lparr>pg_hellos := hs\<rparr>) = memory_of p"
  "memory_of (p\<lparr>pg_lastHello := lh\<rparr>) = memory_of p" "memory_of (p\<lparr>pg_paused := b\<rparr>) = memory_of p"
  "memory_of (p\<lparr>pg_started := b\<rparr>) = memory_of p" "memory_of (p\<lparr>pg_stopped := b\<rparr>) = memory_of p"
  "memory_of (p\<lparr>pg_backoffMs := n\<rparr>) = memory_of p" "memory_of (p\<lparr>pg_aborted := ns\<rparr>) = memory_of p"
  "memory_of (p\<lparr>pg_running := rs\<rparr>) = memory_of p" "memory_of (p\<lparr>pg_active := ac\<rparr>) = memory_of p"
  by (simp_all add: memory_of_def)

lemma memory_loop_head [simp]: "memory_of (loop_head env p) = memory_of p"
  by (simp add: loop_head_def) (simp add: memory_of_def log_sent_def)

lemma memory_sync [simp]: "memory_of (sync env p) = memory_of p"
  by (simp add: sync_def loop_start_def Let_def)

lemma memory_deliver_waited [simp]: "memory_of (deliver_waited k p) = memory_of p"
  by (simp add: deliver_waited_def post_head_def drop_posting_def Let_def) (simp add: memory_of_def log_sent_def)

lemma memory_remember:
  assumes "memory_ok (memory_of p)" "i \<notin> set (pg_seen p)"
  shows "memory_ok (memory_of (remember i p)) \<and> memory_of (remember i p) = (pg_seen (remember i p), took (pg_log p) @ [i], ran (pg_log p))"
proof -
  let ?tk = "took (pg_log p)" and ?n = BRIDGE_SEEN_COMMANDS
  have ok: "pg_seen p = drop (length ?tk - ?n) ?tk" "subseq (ran (pg_log p)) ?tk"
      "\<And>a b. a < b \<Longrightarrow> b < length ?tk \<Longrightarrow> b - a \<le> ?n \<Longrightarrow> ?tk ! a \<noteq> ?tk ! b"
    using assms(1) by (auto simp: memory_ok_def memory_of_def)
  have "drop (length (pg_seen p @ [i]) - ?n) (pg_seen p @ [i]) = drop (length (?tk @ [i]) - ?n) (?tk @ [i])"
  proof (cases "length ?tk < ?n")
    case False
    then have e: "Suc (length ?tk - 256) = length ?tk - 255" by (simp add: BRIDGE_SEEN_COMMANDS_def)
    show ?thesis using False unfolding ok(1) by (simp add: BRIDGE_SEEN_COMMANDS_def drop_append) (simp only: e)
  qed (simp add: ok(1) BRIDGE_SEEN_COMMANDS_def)
  moreover have "(?tk @ [i]) ! a \<noteq> (?tk @ [i]) ! b" if h: "a < b" "b < length (?tk @ [i])" "b - a \<le> ?n" for a b
  proof (cases "b < length ?tk")
    case True
    then show ?thesis using ok(3) h by (simp add: nth_append)
  next
    case False
    then have b: "b = length ?tk" using h(2) by simp
    have "?tk ! a \<in> set (drop (length ?tk - ?n) ?tk)"
    proof -
      have "drop (length ?tk - ?n) ?tk ! (a - (length ?tk - ?n)) = ?tk ! a" using h b by (simp add: BRIDGE_SEEN_COMMANDS_def)
      moreover have "a - (length ?tk - ?n) < length (drop (length ?tk - ?n) ?tk)" using h b by simp
      ultimately show ?thesis by (metis nth_mem)
    qed
    then show ?thesis using assms(2) ok(1) h b by (auto simp: nth_append)
  qed
  moreover have "subseq (ran (pg_log p)) (?tk @ [i])" using ok(2) by (rule subseq_rev_drop_many)
  ultimately show ?thesis by (auto simp: memory_ok_def memory_of_def remember_def log_sent_def)
qed

lemma memory_accept: "memory_ok (memory_of p) \<Longrightarrow> memory_ok (memory_of (accept now raw p))"
proof (cases "parseCommand raw")
  case (Some parsed)
  assume ok: "memory_ok (memory_of p)"
  define i where "i = (case parsed of Inl i \<Rightarrow> i | Inr c \<Rightarrow> pc_id c)"
  show ?thesis
  proof (cases "i \<in> set (pg_seen p)")
    case True
    then show ?thesis using ok by (simp add: accept_def Some i_def)
  next
    case False
    note r = memory_remember [OF ok False]
    have "memory_ok (memory_of (execute c (remember i p)))" if "parsed = Inr c" for c
    proof -
      have "pc_id c = i" using that by (simp add: i_def)
      moreover have "subseq (ran (pg_log p)) (took (pg_log p))" using ok by (simp add: memory_ok_def memory_of_def)
      ultimately show ?thesis using r
        by (auto simp: memory_ok_def memory_of_def execute_def log_sent_def remember_def list_emb_append_mono)
    qed
    then show ?thesis using r False by (auto simp: accept_def Some i_def [symmetric] Let_def split: sum.split)
  qed
qed (simp add: accept_def)

lemma memory_step: "memory_ok (memory_of p) \<Longrightarrow> memory_ok (memory_of (step c p))"
proof (cases "(c, p)" rule: step.cases)
  case (8 env e q)
  assume "memory_ok (memory_of p)"
  then have "memory_ok (memory_of (fold (accept now) cs (updateState (q\<lparr>pg_backoffMs := 0\<rparr>))))" for now cs
    using 8 by (induction cs rule: rev_induct) (simp_all add: memory_accept)
  then show ?thesis using 8 \<open>memory_ok (memory_of p)\<close>
    by (auto simp: poll_ended_def Let_def split: loop_point.split poll_answer.split)
qed (auto simp: start_def armHiddenTimer_def notify_def stop_def visibilityChanged_def hidden_timer_def hello_timer_def hello_done_def
    sleep_ended_def run_ended_def deliver_answered_def drop_posting_def Let_def split: option.split)

text \<open>C18: a command runs at most once.  Whatever the server sends and however often it delivers a command
  again, any \<open>BRIDGE_SEEN_COMMANDS + 1\<close> commands taken in a row have different ids, and what the page runs is,
  in order, among the commands it took.\<close>

theorem commands_run_once:
  assumes "a < b" "b < length (took (pg_log (history cs)))" "b - a \<le> BRIDGE_SEEN_COMMANDS"
  shows "took (pg_log (history cs)) ! a \<noteq> took (pg_log (history cs)) ! b \<and>
    subseq (ran (pg_log (history cs))) (took (pg_log (history cs)))"
proof -
  have "memory_ok (memory_of (fold step cs p))" if "memory_ok (memory_of p)" for p
    using that by (induction cs arbitrary: p) (simp_all add: memory_step)
  moreover have "memory_ok (memory_of new_page)" by (simp add: memory_ok_def memory_of_def new_page_def)
  ultimately have "memory_ok (memory_of (history cs))" by (simp add: history_def)
  then show ?thesis using assms by (simp add: memory_ok_def memory_of_def)
qed

end
