(* ===== verification/Visitor_Waits.thy ===== *)
theory Visitor_Waits
  imports Visitor_Channel
begin

section \<open>The state the channel shows, and how long it waits\<close>

text \<open>
  An invariant of every history of \<open>Visitor_Channel\<close>: the state shown is the one the fields say, the loop
  flag agrees with the loop's position, and the waits of the polling loop and of the posting loops stay
  between the constants of the code.
\<close>

definition backoff_ok :: "int \<Rightarrow> bool" where
  "backoff_ok b \<longleftrightarrow> b = 0 \<or> BRIDGE_BACKOFF_MIN_MS \<le> b \<and> b \<le> BRIDGE_BACKOFF_MAX_MS"

definition posting_ok :: "posting \<Rightarrow> bool" where
  "posting_ok d \<longleftrightarrow> 1 \<le> po_attempt d \<and> po_attempt d + (if po_waiting d then 1 else 0) \<le> BRIDGE_RESULT_ATTEMPTS \<and>
     BRIDGE_BACKOFF_MIN_MS \<le> po_delay d \<and> po_delay d \<le> BRIDGE_BACKOFF_MAX_MS"

definition waits_ok :: "page \<Rightarrow> bool" where
  "waits_ok p \<longleftrightarrow> (pg_looping p \<longleftrightarrow> pg_loop p \<noteq> NoLoop) \<and> backoff_ok (pg_backoffMs p) \<and> list_all posting_ok (pg_postings p)"

definition shown_ok :: "page \<Rightarrow> bool" where
  "shown_ok p \<longleftrightarrow> pg_state p = label_of p"

definition channel_ok :: "page \<Rightarrow> bool" where
  "channel_ok p \<longleftrightarrow> shown_ok p \<and> waits_ok p"

lemma list_all_del [intro]: "list_all P xs \<Longrightarrow> list_all P (take k xs @ drop (Suc k) xs)"
  by (auto simp: list_all_iff dest: in_set_takeD in_set_dropD)

lemma list_all_upd [intro]: "list_all P xs \<Longrightarrow> P y \<Longrightarrow> list_all P (xs[k := y])"
  using set_update_subset_insert [of xs k y] by (auto simp: list_all_iff)

lemma backoff_ok_simps [simp]: "backoff_ok 0" "backoff_ok b \<Longrightarrow> backoff_ok (next_backoff b)"
  by (auto simp: backoff_ok_def next_backoff_def BRIDGE_BACKOFF_MIN_MS_def BRIDGE_BACKOFF_MAX_MS_def)

lemmas label_cong = label_of_def shown_ok_def

lemma ok_updateState [intro]: "waits_ok p \<Longrightarrow> channel_ok (updateState p)"
  by (simp add: channel_ok_def shown_ok_def waits_ok_def updateState_def label_of_def)

lemma waits_abort_poll [simp]: "waits_ok (abort_poll p) = waits_ok p"
  by (simp add: waits_ok_def abort_poll_def split: loop_point.split)

lemma waits_flags [simp]:
  "waits_ok (p\<lparr>pg_helloTimer := b\<rparr>) = waits_ok p" "waits_ok (p\<lparr>pg_hiddenTimer := b\<rparr>) = waits_ok p"
  "waits_ok (p\<lparr>pg_stopped := b\<rparr>) = waits_ok p" "waits_ok (p\<lparr>pg_unauthorized := b\<rparr>) = waits_ok p"
  "waits_ok (p\<lparr>pg_paused := b\<rparr>) = waits_ok p" "waits_ok (p\<lparr>pg_started := b\<rparr>) = waits_ok p"
  "waits_ok (p\<lparr>pg_state := st\<rparr>) = waits_ok p" "waits_ok (p\<lparr>pg_aborted := ab\<rparr>) = waits_ok p"
  "waits_ok (p\<lparr>pg_log := lg\<rparr>) = waits_ok p" "waits_ok (p\<lparr>pg_lastHello := lh\<rparr>) = waits_ok p"
  "waits_ok (p\<lparr>pg_hellos := hs\<rparr>) = waits_ok p" "waits_ok (p\<lparr>pg_seen := sn\<rparr>) = waits_ok p"
  "waits_ok (p\<lparr>pg_running := rn\<rparr>) = waits_ok p" "waits_ok (p\<lparr>pg_active := ac\<rparr>) = waits_ok p"
  "waits_ok (p\<lparr>pg_fresh := fr\<rparr>) = waits_ok p"
  by (simp_all add: waits_ok_def)

lemma shown_flags [simp]:
  "shown_ok (p\<lparr>pg_helloTimer := b\<rparr>) = shown_ok p" "shown_ok (p\<lparr>pg_hiddenTimer := b\<rparr>) = shown_ok p"
  "shown_ok (p\<lparr>pg_started := b\<rparr>) = shown_ok p" "shown_ok (p\<lparr>pg_aborted := ab\<rparr>) = shown_ok p"
  "shown_ok (p\<lparr>pg_log := lg\<rparr>) = shown_ok p" "shown_ok (p\<lparr>pg_lastHello := lh\<rparr>) = shown_ok p"
  "shown_ok (p\<lparr>pg_hellos := hs\<rparr>) = shown_ok p" "shown_ok (p\<lparr>pg_seen := sn\<rparr>) = shown_ok p"
  "shown_ok (p\<lparr>pg_running := rn\<rparr>) = shown_ok p" "shown_ok (p\<lparr>pg_active := ac\<rparr>) = shown_ok p"
  "shown_ok (p\<lparr>pg_fresh := fr\<rparr>) = shown_ok p" "shown_ok (p\<lparr>pg_postings := po\<rparr>) = shown_ok p"
  "shown_ok (p\<lparr>pg_loop := lp\<rparr>) = shown_ok p"
  by (simp_all add: shown_ok_def label_of_def)

lemma ok_loop_head: "channel_ok p \<Longrightarrow> pg_looping p \<Longrightarrow> channel_ok (loop_head env p)"
  unfolding loop_head_def channel_ok_def
  by (cases "shouldPoll env p") (simp_all add: log_sent_def waits_ok_def updateState_def shown_ok_def label_of_def)

lemma ok_loop_start: "waits_ok p \<Longrightarrow> channel_ok (loop_start env p)"
proof -
  assume w: "waits_ok p"
  have "pg_looping (updateState (p\<lparr>pg_looping := True\<rparr>))" "shown_ok (updateState (p\<lparr>pg_looping := True\<rparr>))"
    by (simp_all add: updateState_def shown_ok_def label_of_def)
  then show ?thesis
    using w unfolding loop_start_def channel_ok_def loop_head_def
    by (simp add: log_sent_def waits_ok_def updateState_def shown_ok_def label_of_def)
qed

lemma ok_sync [intro]: "waits_ok p \<Longrightarrow> channel_ok (sync env p)"
proof -
  assume w: "waits_ok p"
  have "waits_ok (loop_start env p)" using ok_loop_start [OF w] by (simp add: channel_ok_def)
  then show ?thesis unfolding sync_def Let_def by (intro ok_updateState) (simp add: w)
qed

lemma waits_hello [simp]: "waits_ok (hello env force p) = waits_ok p"
  by (simp add: hello_def log_sent_def)

lemma shown_hello [simp]: "shown_ok (hello env force p) = shown_ok p"
  by (simp add: hello_def log_sent_def)

lemma ok_hello: "channel_ok p \<Longrightarrow> channel_ok (hello env force p)"
  by (simp add: channel_ok_def)

lemma waits_refused: "waits_ok p \<Longrightarrow> waits_ok (refused p)"
  by (simp add: refused_def updateState_def)

lemma ok_refused: "channel_ok p \<Longrightarrow> channel_ok (refused p)"
  by (cases "pg_unauthorized p") (simp add: refused_def, simp add: refused_def ok_updateState channel_ok_def [of p])

lemma waits_postings: "waits_ok p \<Longrightarrow> list_all posting_ok po \<Longrightarrow> waits_ok (p\<lparr>pg_postings := po\<rparr>)"
  by (simp add: waits_ok_def)

lemma waits_list: "waits_ok p \<Longrightarrow> list_all posting_ok (pg_postings p)"
  by (simp add: waits_ok_def)

lemma ok_postings: "channel_ok p \<Longrightarrow> list_all posting_ok po \<Longrightarrow> channel_ok (p\<lparr>pg_postings := po\<rparr>)"
  by (simp add: channel_ok_def waits_postings)

lemma ok_log_sent [simp]: "channel_ok (log_sent x p) = channel_ok p"
  by (simp add: channel_ok_def log_sent_def)

lemma ok_list: "channel_ok p \<Longrightarrow> list_all posting_ok (pg_postings p)"
  by (simp add: channel_ok_def waits_list)

lemma first_post: "posting_ok \<lparr>po_id = i, po_outcome = out, po_expiresAt = x, po_attempt = 1, po_delay = BRIDGE_BACKOFF_MIN_MS,
    po_final = f, po_waiting = False\<rparr>"
  by (simp add: posting_ok_def BRIDGE_BACKOFF_MIN_MS_def BRIDGE_BACKOFF_MAX_MS_def BRIDGE_RESULT_ATTEMPTS_def)

lemma ok_deliver: "channel_ok p \<Longrightarrow> channel_ok (deliver i out x p)"
proof -
  assume p: "channel_ok p"
  have "channel_ok ((log_sent y p)\<lparr>pg_postings := pg_postings (log_sent y p) @
      [\<lparr>po_id = i, po_outcome = out, po_expiresAt = x, po_attempt = 1, po_delay = BRIDGE_BACKOFF_MIN_MS,
    po_final = f, po_waiting = False\<rparr>]\<rparr>)" for y f
  proof (rule ok_postings)
    show "list_all posting_ok (pg_postings (log_sent y p) @ [\<lparr>po_id = i, po_outcome = out, po_expiresAt = x, po_attempt = 1,
        po_delay = BRIDGE_BACKOFF_MIN_MS, po_final = f, po_waiting = False\<rparr>])"
      using first_post [of i out x f] ok_list [OF p] by (simp add: log_sent_def)
  qed (use p in simp)
  then show ?thesis using p by (simp add: deliver_def post_head_def)
qed

lemma looping_deliver [simp]: "pg_looping (deliver i out x p) = pg_looping p"
  by (simp add: deliver_def post_head_def log_sent_def)

lemma ok_remember: "channel_ok p \<Longrightarrow> channel_ok (remember i p)" "pg_looping (remember i p) = pg_looping p"
  by (simp_all add: remember_def channel_ok_def log_sent_def)

lemma ok_execute: "channel_ok p \<Longrightarrow> channel_ok (execute c p)" "pg_looping (execute c p) = pg_looping p"
  by (simp_all add: execute_def channel_ok_def log_sent_def)

lemma ok_accept: "channel_ok p \<Longrightarrow> channel_ok (accept now raw p) \<and> pg_looping (accept now raw p) = pg_looping p"
  by (cases "parseCommand raw")
    (simp_all add: accept_def Let_def ok_deliver ok_remember ok_execute split: sum.split)

lemma ok_fold_accept: "channel_ok p \<Longrightarrow> channel_ok (fold (accept now) cs p) \<and> pg_looping (fold (accept now) cs p) = pg_looping p"
  by (induction cs arbitrary: p) (simp_all add: ok_accept)

lemma ok_sleep: "channel_ok p \<Longrightarrow> pg_looping p \<Longrightarrow> channel_ok (p\<lparr>pg_loop := AtSleep\<rparr>)"
  by (simp add: channel_ok_def waits_ok_def)

lemma ok_poll_ended:
  assumes "channel_ok p"
  shows "channel_ok (poll_ended env e p)"
proof (cases "pg_loop p")
  case (AtPoll started aborted)
  have l: "pg_looping p" using assms AtPoll by (simp add: channel_ok_def waits_ok_def)
  show ?thesis
  proof (cases "poll_answer_of aborted e")
    case (Commands cs)
    let ?q = "fold (accept (sr_now env)) cs (updateState (p\<lparr>pg_backoffMs := 0\<rparr>))"
    have "waits_ok (p\<lparr>pg_backoffMs := 0\<rparr>)" using assms by (simp add: channel_ok_def waits_ok_def)
    from ok_fold_accept [OF ok_updateState [OF this]] l have q: "channel_ok ?q" "pg_looping ?q"
      by (simp_all add: updateState_def)
    then have "channel_ok (loop_head (env) ?q)" "channel_ok (?q\<lparr>pg_loop := AtSleep\<rparr>)" by (rule ok_loop_head, rule ok_sleep)
    then show ?thesis by (auto simp: poll_ended_def AtPoll Commands Let_def)
  next
    case PollAborted
    then show ?thesis using ok_loop_head assms l by (simp add: poll_ended_def AtPoll)
  next
    case PollUnauthorized
    have "pg_loop (refused (p\<lparr>pg_loop := NoLoop\<rparr>)) = NoLoop" "pg_backoffMs (refused (p\<lparr>pg_loop := NoLoop\<rparr>)) = pg_backoffMs p"
      "pg_postings (refused (p\<lparr>pg_loop := NoLoop\<rparr>)) = pg_postings p"
      by (simp_all add: refused_def updateState_def abort_poll_def)
    then have "waits_ok ((refused (p\<lparr>pg_loop := NoLoop\<rparr>))\<lparr>pg_looping := False\<rparr>)"
      using assms by (simp add: waits_ok_def channel_ok_def)
    then show ?thesis by (simp add: poll_ended_def AtPoll PollUnauthorized ok_updateState)
  next
    case PollFailed
    have "waits_ok (p\<lparr>pg_backoffMs := next_backoff (pg_backoffMs p)\<rparr>)" using assms by (simp add: channel_ok_def waits_ok_def)
    from ok_sleep [OF ok_updateState [OF this]] l show ?thesis
      by (simp add: poll_ended_def AtPoll PollFailed backoff_def updateState_def)
  qed
qed (use assms in \<open>simp_all add: poll_ended_def\<close>)

lemma ok_drop: "channel_ok p \<Longrightarrow> channel_ok (drop_posting k p)"
  unfolding drop_posting_def by (rule ok_postings) (auto intro: list_all_del ok_list simp del: list_all_append)

lemma ok_deliver_answered:
  assumes "channel_ok p"
  shows "channel_ok (deliver_answered now k s p)"
proof -
  have "channel_ok (p\<lparr>pg_postings := (pg_postings p)[k := (pg_postings p ! k)\<lparr>po_waiting := True\<rparr>]\<rparr>)"
    if "k < length (pg_postings p)" "\<not> po_attempt (pg_postings p ! k) \<ge> BRIDGE_RESULT_ATTEMPTS"
  proof (rule ok_postings [OF assms])
    have "posting_ok (pg_postings p ! k)" using ok_list [OF assms] that(1) by (simp add: list_all_length)
    then have "posting_ok ((pg_postings p ! k)\<lparr>po_waiting := True\<rparr>)" using that(2) by (simp add: posting_ok_def)
    then show "list_all posting_ok ((pg_postings p)[k := (pg_postings p ! k)\<lparr>po_waiting := True\<rparr>])"
      using ok_list [OF assms] by (rule list_all_upd [rotated])
  qed
  then show ?thesis using assms ok_refused ok_drop by (simp add: deliver_answered_def Let_def)
qed

lemma ok_deliver_waited:
  assumes "channel_ok p"
  shows "channel_ok (deliver_waited k p)"
proof -
  let ?d = "pg_postings p ! k"
  let ?e = "?d\<lparr>po_delay := min (po_delay ?d * 2) BRIDGE_BACKOFF_MAX_MS, po_attempt := po_attempt ?d + 1, po_final := pg_stopped p, po_waiting := False\<rparr>"
  have "channel_ok ((log_sent x p)\<lparr>pg_postings := (pg_postings p)[k := ?e]\<rparr>)" if "k < length (pg_postings p)" "po_waiting ?d" for x
  proof (rule ok_postings)
    have "posting_ok ?d" using ok_list [OF assms] that(1) by (simp add: list_all_length)
    then have "posting_ok ?e" using that(2) by (simp add: posting_ok_def BRIDGE_BACKOFF_MIN_MS_def BRIDGE_BACKOFF_MAX_MS_def)
    then show "list_all posting_ok ((pg_postings p)[k := ?e])" using ok_list [OF assms] by (rule list_all_upd [rotated])
  qed (use assms in simp)
  then show ?thesis using assms ok_drop by (simp add: deliver_waited_def post_head_def log_sent_def Let_def)
qed

lemma ok_waits: "channel_ok p \<Longrightarrow> waits_ok p"
  by (simp add: channel_ok_def)

lemma ok_hello_done: "channel_ok p \<Longrightarrow> channel_ok (hello_done i s p)"
proof -
  assume p: "channel_ok p"
  have "channel_ok (p\<lparr>pg_hellos := h\<rparr>)" "channel_ok (p\<lparr>pg_hellos := h, pg_lastHello := None\<rparr>)" for h
    using p by (simp_all add: channel_ok_def)
  then show ?thesis using ok_refused p by (simp add: hello_done_def Let_def)
qed

lemma ok_run_ended: "channel_ok p \<Longrightarrow> channel_ok (run_ended h e p)"
proof -
  assume p: "channel_ok p"
  have "channel_ok (p\<lparr>pg_running := a, pg_active := b\<rparr>)" for a b using p by (simp add: channel_ok_def)
  then show ?thesis using ok_deliver p by (simp add: run_ended_def Let_def split: option.split)
qed

lemma waits_armHiddenTimer [simp]: "waits_ok (armHiddenTimer p) = waits_ok p"
  by (simp add: armHiddenTimer_def)

lemma waits_no_backoff: "waits_ok p \<Longrightarrow> waits_ok (p\<lparr>pg_backoffMs := 0\<rparr>)"
  by (simp add: waits_ok_def)

lemma ok_visibilityChanged: "channel_ok p \<Longrightarrow> channel_ok (visibilityChanged env p)"
proof -
  assume p: "channel_ok p"
  have "channel_ok (sync env (hello env True (p\<lparr>pg_hiddenTimer := False, pg_paused := False, pg_backoffMs := 0\<rparr>)))"
    using waits_no_backoff [of "p\<lparr>pg_hiddenTimer := False, pg_paused := False\<rparr>"] ok_waits [OF p] by (intro ok_sync) simp
  moreover have "channel_ok (armHiddenTimer p)" "channel_ok (p\<lparr>pg_hiddenTimer := False\<rparr>)"
    using p by (simp_all add: armHiddenTimer_def channel_ok_def)
  ultimately show ?thesis using p by (simp add: visibilityChanged_def Let_def)
qed

lemma ok_hidden_timer: "channel_ok p \<Longrightarrow> channel_ok (hidden_timer env p)"
proof -
  assume p: "channel_ok p"
  have "channel_ok (sync env (p\<lparr>pg_hiddenTimer := False, pg_paused := True\<rparr>))" using ok_waits [OF p] by (intro ok_sync) simp
  moreover have "channel_ok (p\<lparr>pg_hiddenTimer := False\<rparr>)" using p by (simp add: channel_ok_def)
  ultimately show ?thesis using p by (simp add: hidden_timer_def Let_def)
qed

lemma ok_stop: "channel_ok p \<Longrightarrow> channel_ok (stop p)"
  unfolding stop_def by (cases "pg_stopped p") (simp_all add: ok_updateState ok_waits)

lemma ok_start: "channel_ok p \<Longrightarrow> channel_ok (start env p)"
  unfolding start_def Let_def by (simp add: ok_sync ok_waits)

lemma ok_notify: "channel_ok p \<Longrightarrow> channel_ok (notify env p)"
  unfolding notify_def by (simp add: ok_sync ok_waits)

lemma ok_step: "channel_ok p \<Longrightarrow> channel_ok (step c p)"
  by (cases "(c, p)" rule: step.cases)
    (simp_all add: ok_start ok_notify ok_stop ok_visibilityChanged ok_hidden_timer ok_hello_done ok_poll_ended ok_run_ended
      ok_deliver_answered ok_deliver_waited hello_timer_def sleep_ended_def ok_hello ok_loop_head channel_ok_def [of p] waits_ok_def [of p])

text \<open>C19: in every history of the channel the state it shows is its true one, its backoff is none or one
  between one and thirty seconds, and every outcome being posted is in one of its at most
  \<open>BRIDGE_RESULT_ATTEMPTS\<close> attempts with a delay between one and thirty seconds.\<close>

theorem channel_waits_bounded:
  "pg_state (history cs) = label_of (history cs) \<and>
   (pg_backoffMs (history cs) = 0 \<or> 1000 \<le> pg_backoffMs (history cs) \<and> pg_backoffMs (history cs) \<le> 30000) \<and>
   list_all (\<lambda>d. 1 \<le> po_attempt d \<and> po_attempt d \<le> 4 \<and> 1000 \<le> po_delay d \<and> po_delay d \<le> 30000) (pg_postings (history cs))"
proof -
  have "channel_ok (fold step cs p)" if "channel_ok p" for p
    using that by (induction cs arbitrary: p) (simp_all add: ok_step)
  moreover have "channel_ok new_page" by (simp add: channel_ok_def shown_ok_def waits_ok_def label_of_def new_page_def)
  ultimately have "channel_ok (history cs)" by (simp add: history_def)
  then have "shown_ok (history cs)" "backoff_ok (pg_backoffMs (history cs))" "list_all posting_ok (pg_postings (history cs))"
    by (simp_all add: channel_ok_def waits_ok_def)
  then show ?thesis
    by (auto simp: shown_ok_def backoff_ok_def posting_ok_def BRIDGE_BACKOFF_MIN_MS_def BRIDGE_BACKOFF_MAX_MS_def
        BRIDGE_RESULT_ATTEMPTS_def elim: list.pred_mono_strong split: if_splits)
qed

end
