(* ===== verification/Client_Witnesses.thy ===== *)
theory Client_Witnesses
  imports Sse Http_Client Webhook Visitor_Waits
begin

section \<open>The properties of the clients at work\<close>

text \<open>Each property of the agent client and of the page's channel with a hypothesis, applied to concrete values.\<close>

subsection \<open>Retries\<close>

definition sample_trials :: "trial list" where
  "sample_trials =
     [\<lparr>tr_outcome = Inr \<lparr>rs_status = 503, rs_retry_after = NoHeader\<rparr>, tr_aborted = False, tr_random = 1 / 2, tr_abort_wait = None\<rparr>,
      \<lparr>tr_outcome = Inr \<lparr>rs_status = 429, rs_retry_after = DeltaSeconds 2\<rparr>, tr_aborted = False, tr_random = 0, tr_abort_wait = None\<rparr>,
      \<lparr>tr_outcome = Inr \<lparr>rs_status = 200, rs_retry_after = NoHeader\<rparr>, tr_aborted = False, tr_random = 0, tr_abort_wait = None\<rparr>]"

lemma sample_get: "withRetry DEFAULT_RETRY_POLICY (js ''GET'') sample_trials =
    (Some (Inr \<lparr>rs_status = 200, rs_retry_after = NoHeader\<rparr>), [375 / 2, 2000], 3)"
  by code_simp

theorem withRetry_bounded_witness:
  "list_all (\<lambda>w. 0 \<le> w \<and> w \<le> max 8000 (retry_after_cap DEFAULT_RETRY_POLICY)) [375 / 2, 2000]"
  using withRetry_bounded [OF sample_get]
  by (simp add: sample_trials_def DEFAULT_RETRY_POLICY_def)

lemma sample_post: "withRetry (http_policy \<lparr>ov_maxAttempts = Some 9, ov_baseDelayMs = None, ov_maxDelayMs = None,
    ov_maxRetryAfterMs = None, ov_retryUnsafeMethods = Some True\<rparr>) (js ''POST'') sample_trials =
    (Some (Inr \<lparr>rs_status = 503, rs_retry_after = NoHeader\<rparr>), [], 1)"
  by code_simp

theorem unsafe_request_sent_once_witness:
  "snd (snd (withRetry (http_policy \<lparr>ov_maxAttempts = Some 9, ov_baseDelayMs = None, ov_maxDelayMs = None,
    ov_maxRetryAfterMs = None, ov_retryUnsafeMethods = Some True\<rparr>) (js ''POST'') sample_trials)) \<le> 1"
proof -
  have "\<not> isSafeMethod (js ''POST'')" by code_simp
  from unsafe_request_sent_once [OF this sample_post] show ?thesis by (simp add: sample_post)
qed

subsection \<open>Webhooks\<close>

definition client_crypto :: crypto where
  "client_crypto = \<lparr>hmac_sha256 = (\<lambda>k m. take 32 (k @ m @ replicate 32 0)), sha256 = (\<lambda>m. take 32 (m @ replicate 32 0)),
     ed25519_verify = (\<lambda>pk m s. s = take 64 (pk @ m))\<rparr>"

theorem delivery_window_witness:
  "verifyWebhook client_crypto (\<lambda>_. None) (delivery client_crypto (TextBody (js ''{}'')) (js ''shh'') 1000) (TextBody (js ''{}''))
     (js ''shh'') \<lparr>wo_toleranceMs = None, wo_allowLegacyBodyOnly = False\<rparr> 1300000 = Inr () \<and>
   verifyWebhook client_crypto (\<lambda>_. None) (delivery client_crypto (TextBody (js ''{}'')) (js ''shh'') 1000) (TextBody (js ''{}''))
     (js ''shh'') \<lparr>wo_toleranceMs = None, wo_allowLegacyBodyOnly = False\<rparr> 1300001 = Inl Stale"
  by (subst delivery_window, simp, simp, simp, subst delivery_window) simp_all

subsection \<open>Discovery\<close>

definition descriptor :: "int \<Rightarrow> string \<Rightarrow> fields" where
  "descriptor port token = [(js ''port'', VNum (int_num port)), (js ''token'', VStr (js token))]"

definition sample_platform :: platform where
  "sample_platform =
     \<lparr>pf_files = True, pf_join = concat, pf_homedir = js ''/h'',
      pf_read = (\<lambda>f. if f = js ''/h.writruntime.json'' then Some (canon (VObj (descriptor 7001 ''a'')))
        else if f = js ''/h.writprofilesbobruntime.json'' then Some (canon (VObj (descriptor 7002 ''b''))) else None),
      pf_dir = (\<lambda>_. Some [(js ''bob'', True)]),
      pf_probe = (\<lambda>u t. t = js ''b'')\<rparr>"

definition sample_options :: discovery_options where
  "sample_options = \<lparr>do_baseUrl = None, do_token = None, do_env = (\<lambda>_. None), do_writDir = None\<rparr>"

lemma descriptor_read:
  assumes "pf_read P f = Some (canon (VObj (descriptor port token)))" "\<bar>port\<bar> \<le> 2 ^ 53"
  shows "readRuntimeInfo P f = Some (int_num port, js token)"
proof -
  have k: "js ''port'' \<noteq> js ''token''" by code_simp
  have "exact (VObj (descriptor port token))" using assms(2) k by (simp add: descriptor_def)
  then obtain gs where gs: "json_parse (canon (VObj (descriptor port token))) = Some (VObj gs)"
    "\<And>k v. map_of (descriptor port token) k = Some v \<Longrightarrow> v \<noteq> VUndef \<Longrightarrow> \<exists>w. map_of gs k = Some w \<and> same_json w v"
    by (rule json_parse_canon_obj) (rule that; assumption)
  have "map_of gs (js ''port'') = Some (VNum (int_num port))" "map_of gs (js ''token'') = Some (VStr (js token))"
    using gs(2) [of "js ''port''" "VNum (int_num port)"] gs(2) [of "js ''token''" "VStr (js token)"] k
    by (simp_all add: descriptor_def same_json_atom)
  then show ?thesis using assms(1) gs(1) by (simp add: readRuntimeInfo_def jget_def int_num_def del: canon.simps)
qed

lemma sample_paths:
  "candidates sample_platform sample_options = [js ''/h.writruntime.json'', js ''/h.writprofilesbobruntime.json'']"
  "js ''/h.writprofilesbobruntime.json'' \<noteq> js ''/h.writruntime.json''" "js ''a'' \<noteq> js ''b''"
proof -
  have "js ''/h.writactive_profile'' \<noteq> js ''/h.writruntime.json''" "js ''/h.writactive_profile'' \<noteq> js ''/h.writprofilesbobruntime.json''"
    by code_simp+
  then show "candidates sample_platform sample_options = [js ''/h.writruntime.json'', js ''/h.writprofilesbobruntime.json'']"
    by (simp add: candidates_def active_profile_def sample_platform_def sample_options_def MAX_PROFILE_DIRS_def js_def Let_def del: canon.simps)
qed code_simp+

lemma sample_tries:
  "try_candidate sample_platform sample_options (js ''/h.writruntime.json'') = None"
  "try_candidate sample_platform sample_options (js ''/h.writprofilesbobruntime.json'') =
     Some \<lparr>cn_baseUrl = js ''http://127.0.0.1:7002'', cn_token = js ''b''\<rparr>"
proof -
  have r: "readRuntimeInfo sample_platform (js ''/h.writruntime.json'') = Some (int_num 7001, js ''a'')"
    "readRuntimeInfo sample_platform (js ''/h.writprofilesbobruntime.json'') = Some (int_num 7002, js ''b'')"
    by (rule descriptor_read; simp add: sample_platform_def sample_paths del: canon.simps)+
  have n: "num_text (int_num 7002) = js ''7002''"
    by (simp add: num_text_int_num int_text_def nat_text_def dec_digits.simps digit_unit_def js_def)
  have u: "js ''http://127.0.0.1:'' @ js ''7002'' = js ''http://127.0.0.1:7002''" by (simp add: js_def)
  have c: "connection_of sample_options (p, t) = \<lparr>cn_baseUrl = js ''http://127.0.0.1:'' @ num_text p, cn_token = t\<rparr>" for p t
    by (simp add: connection_of_def sample_options_def truthy_def explicitBaseUrl_def explicitToken_def coalesce_def)
  have e: "js ''a'' \<noteq> []" "js ''b'' \<noteq> []" by (simp_all add: js_def)
  show "try_candidate sample_platform sample_options (js ''/h.writruntime.json'') = None"
    using e sample_paths(3) by (simp add: try_candidate_def r c Let_def) (simp add: sample_platform_def)
  show "try_candidate sample_platform sample_options (js ''/h.writprofilesbobruntime.json'') =
     Some \<lparr>cn_baseUrl = js ''http://127.0.0.1:7002'', cn_token = js ''b''\<rparr>"
    using e by (simp add: try_candidate_def r c n u Let_def) (simp add: sample_platform_def)
qed

theorem discoverAgent_first_live_witness:
  "discoverAgent sample_platform sample_options = Inr \<lparr>cn_baseUrl = js ''http://127.0.0.1:7002'', cn_token = js ''b''\<rparr> \<and>
   length (candidates sample_platform sample_options) \<le> 35"
proof -
  have "\<not> (truthy (explicitBaseUrl sample_options) \<and> truthy (explicitToken sample_options))" "pf_files sample_platform"
    by (simp_all add: truthy_def explicitBaseUrl_def sample_options_def coalesce_def sample_platform_def)
  note w = discoverAgent_first_live [OF this]
  then show ?thesis by (simp add: sample_paths(1) sample_tries)
qed

definition sample_flight :: transport where
  "sample_flight = ask_connection (settle_discovery 0 (Inl DiscoveryError) (ask_connection (ask_connection (initial_transport sample_options))))"

theorem discovery_single_flight_witness: "tp_started sample_flight \<le> tp_failed sample_flight + 1 \<and> tp_started sample_flight = 2"
proof -
  have s: "tp_conn (ask_connection (ask_connection (initial_transport sample_options))) = Flying 0"
    by (simp add: ask_connection_def initial_transport_def sample_options_def truthy_def)
  have "transport_reach sample_options sample_flight"
    unfolding sample_flight_def by (intro transport_reach.intros s)
  moreover have "tp_started sample_flight = 2"
    by (simp add: sample_flight_def ask_connection_def settle_discovery_def initial_transport_def sample_options_def truthy_def)
  ultimately show ?thesis using discovery_single_flight by blast
qed

subsection \<open>The page's channel\<close>

definition sample_env :: surroundings where
  "sample_env = \<lparr>sr_readiness = \<lparr>rd_ready = True, rd_granted = [], rd_version = None\<rparr>, sr_hidden = False, sr_now = 0\<rparr>"

definition sample_command :: "string \<Rightarrow> jsval" where
  "sample_command i = VObj [(js ''id'', VStr (js i)), (js ''key'', VStr (js ''pos.lookup''))]"

definition sample_poll :: "string list \<Rightarrow> poll_end" where
  "sample_poll is = PollAnswered 200 (VObj [(js ''commands'', VArr (map sample_command is))])"

lemma sample_started: "step (sample_env, Start) new_page = new_page\<lparr>pg_state := ChPolling, pg_started := True, pg_looping := True,
   pg_loop := AtPoll 0 False, pg_helloTimer := True, pg_lastHello := Some (sr_readiness sample_env),
   pg_hellos := [sr_readiness sample_env], pg_log := [Hello (sr_readiness sample_env), Get]\<rparr>"
  by (simp add: page_defs sample_env_def label_of_def new_page_def shouldPoll_def)

theorem channel_stays_silent_witness:
  "polls (pg_log (fold step [(sample_env, PollEnds (sample_poll [''c1''])), (sample_env, Notify)]
     (history [(sample_env, Start), (sample_env, Stop)]))) = [Hello (sr_readiness sample_env), Get]"
proof -
  have h: "pg_stopped (history [(sample_env, Start), (sample_env, Stop)])"
    "pg_log (history [(sample_env, Start), (sample_env, Stop)]) = [Hello (sr_readiness sample_env), Get]"
    by (simp_all add: history_def sample_started del: step.simps(1)) (simp_all add: page_defs new_page_def)
  from channel_stays_silent [OF disjI1, OF h(1), THEN conjunct1] show ?thesis
    by (simp only: h(2)) simp
qed

lemma sample_parsed: "parseCommand (sample_command ''c1'') = Some (Inr \<lparr>pc_id = js ''c1'', pc_key = js ''pos.lookup'', pc_inputs = [],
    pc_timeoutMs = None, pc_dryRun = None, pc_challenge = None, pc_expiresAt = None\<rparr>)"
  "parseCommand (sample_command ''c2'') = Some (Inr \<lparr>pc_id = js ''c2'', pc_key = js ''pos.lookup'', pc_inputs = [],
    pc_timeoutMs = None, pc_dryRun = None, pc_challenge = None, pc_expiresAt = None\<rparr>)"
  by code_simp+

lemma sample_took: "took (pg_log (history [(sample_env, Start), (sample_env, PollEnds (sample_poll [''c1'', ''c2'', ''c1'']))])) =
    [js ''c1'', js ''c2'']"
proof -
  have c: "poll_answer_of False (sample_poll [''c1'', ''c2'', ''c1'']) = Commands (map sample_command [''c1'', ''c2'', ''c1''])"
    by (simp add: poll_answer_of_def sample_poll_def obj_of_def)
  have l: "pg_log (loop_head e p) = pg_log p @ (if shouldPoll e p then [Get] else [])" for e p
    by (simp add: loop_head_def log_sent_def updateState_def)
  have "js ''c1'' \<noteq> js ''c2''" by code_simp
  then show ?thesis
    by (simp add: history_def sample_started del: step.simps(1)) (simp add: poll_ended_def c Let_def l accept_def sample_parsed expired_def remember_def execute_def
        log_sent_def updateState_def new_page_def BRIDGE_SEEN_COMMANDS_def)
qed

theorem commands_run_once_witness:
  "took (pg_log (history [(sample_env, Start), (sample_env, PollEnds (sample_poll [''c1'', ''c2'', ''c1'']))])) ! 0 \<noteq>
   took (pg_log (history [(sample_env, Start), (sample_env, PollEnds (sample_poll [''c1'', ''c2'', ''c1'']))])) ! 1"
proof -
  have "(1 :: nat) < length (took (pg_log (history [(sample_env, Start), (sample_env, PollEnds (sample_poll [''c1'', ''c2'', ''c1'']))])))"
    by (simp only: sample_took) simp
  from commands_run_once [OF _ this, of 0] show ?thesis by (simp add: BRIDGE_SEEN_COMMANDS_def)
qed

end
