(* ===== verification/Page_Tokens.thy ===== *)
theory Page_Tokens
  imports Run_Token Web_Errors Complex_Main
begin

section \<open>Run tokens in the page (web/src/run-token.ts)\<close>

text \<open>
  The page keeps the run token the site's server minted until a minute before it expires.  The cache is a
  record of its fields; each function is one synchronous part of the class.  Times are exact rationals
  of milliseconds.  \<open>WeakMap\<close> identity (\<open>runTokensFor\<close>) is not modelled: this is one cache.
\<close>

definition RUN_TOKEN_REFRESH_MARGIN_MS :: rat where "RUN_TOKEN_REFRESH_MARGIN_MS = 60000"
definition MAX_RUN_TOKEN_LENGTH :: nat where "MAX_RUN_TOKEN_LENGTH = 4096"

subsection \<open>Reading a token\<close>

definition jwt_unit :: "codeunit \<Rightarrow> bool" where
  "jwt_unit u \<longleftrightarrow> is_alnum u \<or> u = 95 \<or> u = 45"

definition JWT_SHAPE :: "jsstring \<Rightarrow> bool" where
  "JWT_SHAPE s \<longleftrightarrow> length (js_split 46 s) = 3 \<and> list_all (\<lambda>part. part \<noteq> [] \<and> list_all jwt_unit part) (js_split 46 s)"

definition badRequest :: writ_error where
  "badRequest = \<lparr>we_code = js ''BAD_REQUEST'', we_details = None\<rparr>"

definition checkRunToken :: "jsval \<Rightarrow> writ_error + jsstring" where
  "checkRunToken raw =
     (let token = (case raw of VStr s \<Rightarrow> js_trim s | _ \<Rightarrow> []) in
      if token = [] \<or> length token > MAX_RUN_TOKEN_LENGTH \<or> \<not> JWT_SHAPE token then Inl badRequest else Inr token)"

definition checkGivenRunToken :: "jsval \<Rightarrow> writ_error + jsstring" where
  "checkGivenRunToken raw =
     (case raw of
        VStr s \<Rightarrow> if s = [] \<or> length s > MAX_RUN_TOKEN_LENGTH \<or> \<not> list_all (\<lambda>u. 0x21 \<le> u \<and> u \<le> 0x7e) s
                  then Inl badRequest else Inr s
      | _ \<Rightarrow> Inl badRequest)"

text \<open>The loop over the segment: a 16-bit buffer and the number of bits in it not used yet.\<close>

fun decode_units :: "jsstring \<Rightarrow> nat \<Rightarrow> nat \<Rightarrow> bytes option" where
  "decode_units [] buffer bits = Some []"
| "decode_units (u # us) buffer bits =
     (case b64_value u of
        None \<Rightarrow> None
      | Some v \<Rightarrow>
          (let buffer' = (buffer * 64 + v) mod 65536; bits' = bits + 6 in
           if bits' \<ge> 8
           then map_option ((#) (of_nat (buffer' div 2 ^ (bits' - 8) mod 256))) (decode_units us buffer' (bits' - 8))
           else decode_units us buffer' bits'))"

text \<open>\<open>decodeURIComponent\<close> of the bytes, each percent-escaped: UTF-8, or a \<open>URIError\<close>.\<close>

definition uri_text :: "bytes \<Rightarrow> jsstring option" where
  "uri_text bs = (if utf8 (from_utf8 bs) = bs then Some (from_utf8 bs) else None)"

definition decodeBase64UrlText :: "jsstring \<Rightarrow> jsstring option" where
  "decodeBase64UrlText segment =
     (if length segment mod 4 = 1 then None
      else (case decode_units segment 0 0 of None \<Rightarrow> None | Some bs \<Rightarrow> uri_text bs))"

definition runTokenExpiry :: "jsstring \<Rightarrow> jsnum option" where
  "runTokenExpiry token =
     (case js_split 46 token of
        [header, claims, signature] \<Rightarrow>
          (case decodeBase64UrlText claims of
             None \<Rightarrow> None
           | Some t \<Rightarrow>
               (case json_parse t of
                  Some (VObj fs) \<Rightarrow> (case jget fs (js ''exp'') of VNum n \<Rightarrow> if is_finite n then Some n else None | _ \<Rightarrow> None)
                | _ \<Rightarrow> None))
      | _ \<Rightarrow> None)"

subsection \<open>The cache\<close>

fun num_rat :: "jsnum \<Rightarrow> rat" where
  "num_rat (Fin m e) = of_int m / 10 ^ e"
| "num_rat _ = 0"

record token_cache =
  tc_token :: "jsstring option"
  tc_reuseUntil :: rat
  tc_pending :: "nat option"
  tc_asked :: nat

definition new_cache :: token_cache where
  "new_cache = \<lparr>tc_token = None, tc_reuseUntil = 0, tc_pending = None, tc_asked = 0\<rparr>"

text \<open>\<open>get\<close> answers the cached token, or the promise of a request to the backend (its number).\<close>

datatype got = Cached jsstring | Asked nat

definition cache_get :: "rat \<Rightarrow> token_cache \<Rightarrow> got \<times> token_cache" where
  "cache_get now c =
     (case (if now < tc_reuseUntil c then tc_token c else None) of
        Some t \<Rightarrow> (Cached t, c)
      | None \<Rightarrow>
          (let c1 = c\<lparr>tc_token := None\<rparr> in
           case tc_pending c1 of
             Some i \<Rightarrow> (Asked i, c1)
           | None \<Rightarrow> (Asked (tc_asked c1), c1\<lparr>tc_pending := Some (tc_asked c1), tc_asked := tc_asked c1 + 1\<rparr>)))"

definition cache_refused :: "jsstring \<Rightarrow> token_cache \<Rightarrow> token_cache" where
  "cache_refused t c = (if tc_token c \<noteq> Some t then c else c\<lparr>tc_token := None, tc_reuseUntil := 0\<rparr>)"

text \<open>What the promise settles with, once \<open>getRunToken\<close> rejected or resolved.\<close>

definition fetch_result :: "thrown + jsval \<Rightarrow> writ_error + jsstring" where
  "fetch_result answer =
     (case answer of
        Inl e \<Rightarrow> Inl (if isWritError e None then toWritError e None else \<lparr>we_code = js ''NOT_GRANTED'', we_details = None\<rparr>)
      | Inr raw \<Rightarrow> checkRunToken raw)"

definition fetch_answered :: "rat \<Rightarrow> thrown + jsval \<Rightarrow> token_cache \<Rightarrow> token_cache" where
  "fetch_answered now answer c =
     (case fetch_result answer of
        Inl e \<Rightarrow> c
      | Inr token \<Rightarrow>
          (case runTokenExpiry token of
             None \<Rightarrow> c
           | Some expiry \<Rightarrow>
               (let until = num_rat expiry * 1000 - RUN_TOKEN_REFRESH_MARGIN_MS in
                if until > now then c\<lparr>tc_token := Some token, tc_reuseUntil := until\<rparr> else c)))"

definition fetch_cleared :: "nat \<Rightarrow> token_cache \<Rightarrow> token_cache" where
  "fetch_cleared i c = (if tc_pending c = Some i then c\<lparr>tc_pending := None\<rparr> else c)"

text \<open>Gets, refusals, and the two parts of the end of request \<open>i\<close>, in any order.\<close>

datatype cache_event = Get rat | Refuse jsstring | Answered rat "thrown + jsval" | Cleared nat

fun cache_step :: "cache_event \<Rightarrow> token_cache \<Rightarrow> token_cache" where
  "cache_step (Get now) c = snd (cache_get now c)"
| "cache_step (Refuse t) c = cache_refused t c"
| "cache_step (Answered now answer) c = fetch_answered now answer c"
| "cache_step (Cleared i) c = fetch_cleared i c"

definition cache_history :: "cache_event list \<Rightarrow> token_cache" where
  "cache_history es = fold cache_step es new_cache"

subsection \<open>What is reused\<close>

definition fetched :: "jsstring \<Rightarrow> cache_event \<Rightarrow> bool" where
  "fetched t e \<longleftrightarrow> (\<exists>now answer. e = Answered now answer \<and> fetch_result answer = Inr t)"

definition kept :: "cache_event set \<Rightarrow> token_cache \<Rightarrow> bool" where
  "kept E c \<longleftrightarrow> (\<forall>t. tc_token c = Some t \<longrightarrow> (\<exists>e \<in> E. fetched t e) \<and>
     (\<exists>expiry. runTokenExpiry t = Some expiry \<and> tc_reuseUntil c = num_rat expiry * 1000 - 60000))"

lemma kept_cache_step:
  assumes "kept E c" "e \<in> E"
  shows "kept E (cache_step e c)"
proof (cases e)
  case (Answered now answer)
  show ?thesis
  proof (cases "fetch_result answer")
    case (Inr token)
    have "fetched token e" using Answered Inr by (auto simp: fetched_def)
    then show ?thesis using assms Inr Answered
      by (auto simp: kept_def fetch_answered_def Let_def RUN_TOKEN_REFRESH_MARGIN_MS_def split: option.split)
  qed (use assms Answered in \<open>simp add: fetch_answered_def\<close>)
qed (use assms in \<open>auto simp: kept_def cache_get_def cache_refused_def fetch_cleared_def Let_def split: option.split\<close>)

lemma kept_cache_history: "kept (set es) (cache_history es)"
proof -
  have "kept (set es) (fold cache_step xs new_cache)" if "set xs \<subseteq> set es" for xs
    using that by (induction xs rule: rev_induct) (auto simp: kept_cache_step, simp add: kept_def new_cache_def)
  then show ?thesis by (simp add: cache_history_def)
qed

lemma cached_token: "fst (cache_get now c) = Cached t \<Longrightarrow> tc_token c = Some t \<and> now < tc_reuseUntil c"
  by (auto simp: cache_get_def Let_def split: option.splits if_splits)

text \<open>A run token is reused only while it is good.  Whatever the order of calls, refusals and answers, a token
  \<open>get\<close> answers at some time without asking the backend is one the backend answered before, and expires
  more than a minute after that time.\<close>

theorem cached_token_fresh:
  assumes "fst (cache_get now (cache_history es)) = Cached t"
  shows "(\<exists>e \<in> set es. fetched t e) \<and> (\<exists>expiry. runTokenExpiry t = Some expiry \<and> now + 60000 < num_rat expiry * 1000)"
proof -
  have "tc_token (cache_history es) = Some t" and n: "now < tc_reuseUntil (cache_history es)"
    using cached_token [OF assms] by simp_all
  then obtain expiry where "\<exists>e \<in> set es. fetched t e" "runTokenExpiry t = Some expiry"
    and "tc_reuseUntil (cache_history es) = num_rat expiry * 1000 - 60000"
    using kept_cache_history [of es] by (auto simp: kept_def)
  with n show ?thesis by auto
qed

text \<open>A run token Writ Cloud refused is not used again: after the refusal, until the backend itself
  answers that very token anew, no \<open>get\<close> answers it from the cache.\<close>

theorem refused_token_dropped:
  assumes "\<not> list_ex (fetched t) es"
  shows "fst (cache_get now (fold cache_step es (cache_refused t c))) \<noteq> Cached t"
proof -
  have step: "tc_token (cache_step e c) \<noteq> Some t" if "\<not> fetched t e" "tc_token c \<noteq> Some t" for e c
    using that by (cases e) (auto simp: fetched_def cache_get_def cache_refused_def fetch_cleared_def fetch_answered_def Let_def
        split: option.splits sum.splits)
  have "tc_token (fold cache_step es c) \<noteq> Some t" if "tc_token c \<noteq> Some t" for c
    using assms that by (induction es arbitrary: c) (auto simp: step)
  moreover have "tc_token (cache_refused t c) \<noteq> Some t" by (simp add: cache_refused_def)
  ultimately show ?thesis using cached_token by blast
qed

lemma nat_parts: "0 < c \<Longrightarrow> (c * x + y) div c = x + y div c" "(c * x + y) mod c = y mod c" for c :: nat
  by simp_all

lemma mod_buffer:
  "(m mod 65536) div 16 mod 256 = m div 16 mod (256::nat)" "(m mod 65536) div 4 mod 256 = m div 4 mod (256::nat)"
  "(m mod 65536) mod 256 = m mod (256::nat)" "(m mod 65536) mod 16 = m mod (16::nat)" "(m mod 65536) mod 4 = m mod (4::nat)"
proof -
  have "m mod (16 * 4096) div 16 = m div 16 mod 4096"
    by (simp only: mod_mult2_eq nat_parts zero_less_numeral mod_div_trivial add_0_right)
  moreover have "m mod (4 * 16384) div 4 = m div 4 mod 16384"
    by (simp only: mod_mult2_eq nat_parts zero_less_numeral mod_div_trivial add_0_right)
  ultimately show "(m mod 65536) div 16 mod 256 = m div 16 mod 256" "(m mod 65536) div 4 mod 256 = m div 4 mod 256"
    by (simp_all add: mod_mod_cancel)
  show "(m mod 65536) mod 256 = m mod 256" "(m mod 65536) mod 16 = m mod 16" "(m mod 65536) mod 4 = m mod 4"
    by (simp_all add: mod_mod_cancel)
qed

lemma decode_two:
  assumes "b64_value u = Some p" "b64_value w = Some q" "p < 64" "q < 64"
  shows "\<exists>B. B mod 16 = q mod 16 \<and>
    decode_units (u # w # us) buf 0 = map_option ((#) (of_nat (p * 4 + q div 16))) (decode_units us B 4)"
proof -
  let ?A = "(buf * 64 + p) mod 65536" let ?B = "(?A * 64 + q) mod 65536"
  have e: "?A * 64 + q = 16 * (4 * ?A) + q" by simp
  then have "(?A * 64 + q) mod 16 = q mod 16" by (simp only: nat_parts)
  then have b: "?B mod 16 = q mod 16" by (simp only: mod_buffer)
  from e have "(?A * 64 + q) div 16 = 4 * ?A + q div 16" by (simp only: nat_parts zero_less_numeral)
  moreover have "(4 * ?A + q div 16) mod 256 = p * 4 + q div 16"
  proof -
    have "(4 * ?A) mod (4 * 64) = 4 * (?A mod 64)" by (simp only: mult_mod_right)
    then have "4 * ?A mod 256 = 4 * (?A mod 64)" by simp
    also have "?A mod 64 = p" using assms(3) by (simp add: mod_mod_cancel)
    finally have "(4 * ?A + q div 16) mod 256 = (4 * p + q div 16) mod 256" by (metis mod_add_left_eq)
    moreover have "4 * p + q div 16 < 256" using assms(3,4) by linarith
    ultimately show ?thesis by simp
  qed
  ultimately have "?B div 16 mod 256 = p * 4 + q div 16" by (simp only: mod_buffer)
  then have "decode_units (u # w # us) buf 0 = map_option ((#) (of_nat (p * 4 + q div 16))) (decode_units us ?B 4)"
    by (simp only: decode_units.simps assms option.case Let_def add_0 if_True if_False) simp
  with b show ?thesis by blast
qed

lemma decode_third:
  assumes "b64_value u = Some r" "r < 64" "B mod 16 = q"
  shows "\<exists>B'. B' mod 4 = r mod 4 \<and> decode_units (u # us) B 4 = map_option ((#) (of_nat (q * 16 + r div 4))) (decode_units us B' 2)"
proof -
  let ?B = "(B * 64 + r) mod 65536"
  have e: "B * 64 + r = 4 * (16 * B) + r" by simp
  then have "(B * 64 + r) mod 4 = r mod 4" by (simp only: nat_parts)
  then have b: "?B mod 4 = r mod 4" by (simp only: mod_buffer)
  have "(B * 64 + r) div 4 = 16 * B + r div 4" using e by (simp only: nat_parts zero_less_numeral)
  moreover have "(16 * B + r div 4) mod 256 = q * 16 + r div 4"
  proof -
    have "(16 * B) mod (16 * 16) = 16 * (B mod 16)" by (simp only: mult_mod_right)
    then have "16 * B mod 256 = 16 * q" using assms(3) by simp
    then have "(16 * B + r div 4) mod 256 = (16 * q + r div 4) mod 256" by (metis mod_add_left_eq)
    moreover have "q < 16" using assms(3) by (simp flip: assms(3))
    then have "16 * q + r div 4 < 256" using assms(2) by linarith
    ultimately show ?thesis by simp
  qed
  ultimately have "?B div 4 mod 256 = q * 16 + r div 4" by (simp only: mod_buffer)
  then have "decode_units (u # us) B 4 = map_option ((#) (of_nat (q * 16 + r div 4))) (decode_units us ?B 2)"
    by (simp only: decode_units.simps assms option.case Let_def) simp
  with b show ?thesis by blast
qed

lemma decode_fourth:
  assumes "b64_value u = Some s" "s < 64" "B mod 4 = r"
  shows "\<exists>B'. decode_units (u # us) B 2 = map_option ((#) (of_nat (r * 64 + s))) (decode_units us B' 0)"
proof -
  let ?B = "(B * 64 + s) mod 65536"
  have "(64 * B) mod (64 * 4) = 64 * (B mod 4)" by (simp only: mult_mod_right)
  then have "64 * B mod 256 = 64 * r" using assms(3) by simp
  then have "(64 * B + s) mod 256 = (64 * r + s) mod 256" by (metis mod_add_left_eq)
  moreover have "r < 4" using assms(3) by (simp flip: assms(3))
  then have "64 * r + s < 256" using assms(2) by linarith
  ultimately have "?B mod 256 = r * 64 + s" by (simp only: mod_buffer) (simp add: mult.commute)
  then have "decode_units (u # us) B 2 = map_option ((#) (of_nat (r * 64 + s))) (decode_units us ?B 0)"
    by (simp only: decode_units.simps assms option.case Let_def) simp
  then show ?thesis by blast
qed

lemma div_mod_parts:
  fixes n m k :: nat
  assumes "m < 256" "k < 256"
  shows "n div 4 * 4 + (n mod 4 * 16 + m div 16) div 16 = n"
    "(n mod 4 * 16 + m div 16) mod 16 * 16 + (m mod 16 * 4 + k div 64) div 4 = m"
    "(m mod 16 * 4 + k div 64) mod 4 * 64 + k mod 64 = k"
proof -
  have m: "m div 16 < 16" and k: "k div 64 < 4" using assms by (simp_all add: less_mult_imp_div_less)
  have "(16 * (n mod 4) + m div 16) div 16 = n mod 4" "(16 * (n mod 4) + m div 16) mod 16 = m div 16"
    "(4 * (m mod 16) + k div 64) div 4 = m mod 16" "(4 * (m mod 16) + k div 64) mod 4 = k div 64"
    using m k by (simp_all only: nat_parts zero_less_numeral div_less mod_less add_0_right)
  then show "n div 4 * 4 + (n mod 4 * 16 + m div 16) div 16 = n"
    "(n mod 4 * 16 + m div 16) mod 16 * 16 + (m mod 16 * 4 + k div 64) div 4 = m"
    "(m mod 16 * 4 + k div 64) mod 4 * 64 + k mod 64 = k"
    by (simp_all only: mult.commute [of _ 16] mult.commute [of _ 4] mult.commute [of _ 64]) simp_all
qed

lemma sextet_bounds:
  fixes n m k :: nat
  assumes "n < 256" "m < 256" "k < 256"
  shows "n div 4 < 64" "n mod 4 * 16 + m div 16 < 64" "m mod 16 * 4 + k div 64 < 64" "k mod 64 < 64"
proof -
  have "n div 4 < 64" "m div 16 < 16" "k div 64 < 4" using assms by (simp_all add: less_mult_imp_div_less)
  moreover have "n mod 4 < 4" "m mod 16 < 16" by simp_all
  ultimately show "n div 4 < 64" "n mod 4 * 16 + m div 16 < 64" "m mod 16 * 4 + k div 64 < 64" by linarith+
qed simp

lemma decode_units_text: "decode_units (base64url_text bs) buf 0 = Some bs"
proof (induction bs arbitrary: buf rule: base64url_text.induct)
  case 1
  show ?case by simp
next
  case (2 a)
  let ?n = "unat a"
  have bd: "?n div 4 < 64" "?n mod 4 * 16 + 0 div 16 < 64" using unat_byte [of a] by (simp_all only: sextet_bounds zero_less_numeral)
  note v = bd [THEN b64_unit_value, THEN conjunct1]
  obtain B where "decode_units [b64_unit (?n div 4), b64_unit (?n mod 4 * 16 + 0 div 16)] buf 0 =
      map_option ((#) (of_nat (?n div 4 * 4 + (?n mod 4 * 16 + 0 div 16) div 16))) (decode_units [] B 4)"
    using decode_two [OF v bd] by blast
  then show ?case using div_mod_parts(1) [of 0 0 ?n] by (simp add: Let_def)
next
  case (3 a b)
  let ?n = "unat a" let ?m = "unat b"
  have bd: "?n div 4 < 64" "?n mod 4 * 16 + ?m div 16 < 64" "?m mod 16 * 4 + 0 div 64 < 64"
    using sextet_bounds [of ?n ?m 0] unat_byte [of a] unat_byte [of b] by simp_all
  note v = bd [THEN b64_unit_value, THEN conjunct1]
  obtain B where B: "B mod 16 = (?n mod 4 * 16 + ?m div 16) mod 16"
    "decode_units (base64url_text [a, b]) buf 0 =
      map_option ((#) (of_nat (?n div 4 * 4 + (?n mod 4 * 16 + ?m div 16) div 16))) (decode_units [b64_unit (?m mod 16 * 4 + 0 div 64)] B 4)"
    using decode_two [OF v(1,2) bd(1,2), of "[b64_unit (?m mod 16 * 4 + 0 div 64)]" buf] by (auto simp: Let_def)
  obtain B' where "decode_units [b64_unit (?m mod 16 * 4 + 0 div 64)] B 4 =
      map_option ((#) (of_nat ((?n mod 4 * 16 + ?m div 16) mod 16 * 16 + (?m mod 16 * 4 + 0 div 64) div 4))) (decode_units [] B' 2)"
    using decode_third [OF v(3) bd(3) B(1), of "[]"] by blast
  then show ?case using B(2) div_mod_parts(1,2) [of ?m 0 ?n] unat_byte [of b] by simp
next
  case (4 a b c r)
  let ?n = "unat a" let ?m = "unat b" let ?k = "unat c"
  have bd: "?n div 4 < 64" "?n mod 4 * 16 + ?m div 16 < 64" "?m mod 16 * 4 + ?k div 64 < 64" "?k mod 64 < 64"
    using sextet_bounds [of ?n ?m ?k] unat_byte [of a] unat_byte [of b] unat_byte [of c] by simp_all
  note v = bd [THEN b64_unit_value, THEN conjunct1]
  let ?u = "b64_unit (?m mod 16 * 4 + ?k div 64)" let ?w = "b64_unit (?k mod 64)" let ?t = "base64url_text r"
  obtain B where B: "B mod 16 = (?n mod 4 * 16 + ?m div 16) mod 16"
    "decode_units (base64url_text (a # b # c # r)) buf 0 =
      map_option ((#) (of_nat (?n div 4 * 4 + (?n mod 4 * 16 + ?m div 16) div 16))) (decode_units (?u # ?w # ?t) B 4)"
    using decode_two [OF v(1,2) bd(1,2), of "?u # ?w # ?t" buf] by (auto simp: Let_def)
  obtain C where C: "C mod 4 = (?m mod 16 * 4 + ?k div 64) mod 4" "decode_units (?u # ?w # ?t) B 4 =
      map_option ((#) (of_nat ((?n mod 4 * 16 + ?m div 16) mod 16 * 16 + (?m mod 16 * 4 + ?k div 64) div 4))) (decode_units (?w # ?t) C 2)"
    using decode_third [OF v(3) bd(3) B(1), of "?w # ?t"] by blast
  obtain D where "decode_units (?w # ?t) C 2 =
      map_option ((#) (of_nat ((?m mod 16 * 4 + ?k div 64) mod 4 * 64 + ?k mod 64))) (decode_units ?t D 0)"
    using decode_fourth [OF v(4) bd(4) C(1), of ?t] by blast
  then show ?case using B(2) C(2) "4" div_mod_parts(1,2) [of ?m ?k ?n] div_mod_parts(3) [of ?m ?k] unat_byte [of b] unat_byte [of c] by (simp del: base64url_text.simps)
qed

lemma decodeBase64UrlText_toBase64Url:
  assumes "\<not> LONE_SURROGATE t"
  shows "decodeBase64UrlText (toBase64Url (utf8 t)) = Some t"
proof -
  have "length (toBase64Url bs) mod 4 \<noteq> 1" for bs unfolding length_toBase64Url by presburger
  then show ?thesis using assms
    by (simp add: decodeBase64UrlText_def toBase64Url_def decode_units_text uri_text_def from_utf8_utf8)
qed

text \<open>The text of an object whose members are atoms, in any order.\<close>

lemma json_parse_members:
  assumes "fs \<noteq> []" "distinct (map fst fs)" "list_all (exact \<circ> snd) fs"
  obtains gs where "json_parse ([123] @ js_join comma (map member_text fs) @ [125]) = Some (VObj gs)"
    "\<And>k. rel_option same_json (map_of gs k) (map_of fs k)"
proof -
  let ?j = "js_join comma (map member_text fs)"
  have IH: "\<exists>w. parse_val n (canon x @ r) = Some (w, r) \<and> same_json w x"
    if "(k, x) \<in> set fs" "exact x" "delimiter r" "2 * length (canon x) \<le> n" for k x n r
    using that(2-4) by (rule parse_val_canon)
  have d: "distinct (map fst [])" "fst ` set [] \<inter> fst ` set fs = {}" by simp_all
  have "\<exists>gs. parse_members (2 * length ?j + 5) [] (?j @ 125 # []) = Some (gs, []) \<and> distinct (map fst gs) \<and>
      (\<forall>k. rel_option same_json (map_of gs k) ((map_of [] ++ map_of fs) k))"
    using parse_members_canon [OF IH assms(3,1) _ d(1) assms(2) d(2)] by simp
  then obtain gs where gs: "parse_members (2 * length ?j + 5) [] (?j @ [125]) = Some (gs, [])"
      "\<And>k. rel_option same_json (map_of gs k) (map_of fs k)" by auto
  obtain t where "?j = 34 # t"
    using js_join_first [of "map member_text fs" 34 _ comma] assms(1) by (auto simp: hd_map member_text_def quote_text_def)
  then have "parse_members m [] (?j @ [125]) = Some (gs, []) \<Longrightarrow> parse_val (Suc m) ([123] @ ?j @ [125]) = Some (VObj gs, [])" for m
    by simp
  then have "parse_val (Suc (2 * length ?j + 5)) ([123] @ ?j @ [125]) = Some (VObj gs, [])"
    using gs(1) by blast
  moreover have "2 * length ([123] @ ?j @ [125]) + 2 = Suc (2 * length ?j + 5)" by simp
  ultimately have "json_parse ([123] @ ?j @ [125]) = Some (VObj gs)"
    by (simp only: json_parse_def) (simp add: skip_ws_def)
  then show ?thesis using that gs(2) by blast
qed


subsection \<open>The server's tokens in the page\<close>

lemma run_claims_text:
  assumes "\<bar>iat + ttl\<bar> \<le> 2 ^ 53" "\<bar>iat\<bar> \<le> 2 ^ 53" "sub = None \<or> (\<exists>s. sub = Some s \<and> \<not> LONE_SURROGATE s)" "\<not> LONE_SURROGATE pub"
  shows "json_text (VObj (run_claims pub iat ttl sub)) = [123] @ js_join comma (map member_text (run_claims pub iat ttl sub)) @ [125]"
  using assms(1) assms(3,4)
  by (auto simp: run_claims_def member_text_def obj_text_def stringifies_to_nothing_def stringify_string_quote num_of_bigint_exact)

lemma run_claims_expiry:
  assumes "\<bar>iat + ttl\<bar> \<le> 2 ^ 53" "\<bar>iat\<bar> \<le> 2 ^ 53" "sub = None \<or> (\<exists>s. sub = Some s \<and> \<not> LONE_SURROGATE s)" "\<not> LONE_SURROGATE pub"
  obtains gs where "json_parse (json_text (VObj (run_claims pub iat ttl sub))) = Some (VObj gs)"
    "jget gs (js ''exp'') = VNum (int_num (iat + ttl))"
proof -
  let ?fs = "run_claims pub iat ttl sub"
  have "?fs \<noteq> []" "distinct (map fst ?fs)" "list_all (exact \<circ> snd) ?fs"
    using assms(1,2) by (auto simp: run_claims_def num_of_bigint_exact split: option.split)
  then obtain gs where gs: "json_parse ([123] @ js_join comma (map member_text ?fs) @ [125]) = Some (VObj gs)"
    "\<And>k. rel_option same_json (map_of gs k) (map_of ?fs k)" by (rule json_parse_members) (rule that; assumption)
  have "map_of ?fs (js ''exp'') = Some (VNum (int_num (iat + ttl)))"
    using assms(1) by (simp add: run_claims_def num_of_bigint_exact)
  then obtain w where "map_of gs (js ''exp'') = Some w" "same_json w (VNum (int_num (iat + ttl)))"
    using gs(2) [of "js ''exp''"] by (auto simp: option_rel_Some2)
  then have "jget gs (js ''exp'') = VNum (int_num (iat + ttl))" by (simp add: jget_own same_json_atom)
  then show ?thesis using that gs(1) run_claims_text [OF assms] by simp
qed

lemma jwt_parts:
  "js_split 46 (jwt C key claims) = [base64Url (json_text (VObj HEADER_JSON)), base64Url (json_text (VObj claims)),
     toBase64Url (hmac_sha256 C (utf8 key) (ascii (js_join 46 [base64Url (json_text (VObj HEADER_JSON)), base64Url (json_text (VObj claims))])))]"
proof -
  let ?h = "base64Url (json_text (VObj HEADER_JSON))" let ?c = "base64Url (json_text (VObj claims))"
  have "jwt C key claims = js_join 46 [?h, ?c, toBase64Url (hmac_sha256 C (utf8 key) (ascii (js_join 46 [?h, ?c])))]"
    by (simp add: jwt_def Let_def)
  then show ?thesis
    by (simp only:) (rule js_split_join; auto simp: base64Url_def toBase64Url_no_dot)
qed

lemma toBase64Url_units: "list_all jwt_unit (toBase64Url bs)"
proof -
  have "BASE64URL (toBase64Url bs)" using fromBase64Url_toBase64Url [of bs] unfolding fromBase64Url_def by (auto split: if_splits)
  then show ?thesis by (auto simp: BASE64URL_def list_all_iff jwt_unit_def is_unit_def)
qed

lemma jwt_unit_not_space: "jwt_unit u \<Longrightarrow> \<not> is_space u"
  by (auto simp: jwt_unit_def unit_class_defs word_le_nat_alt)

lemma member_bytes:
  "length (utf8 ([123] @ js_join comma (map member_text fs) @ [125])) \<le>
     2 + sum_list (map (\<lambda>kv. Suc (sum_list (map unit_bytes (member_text kv)))) fs)"
proof -
  have "length (utf8 ([123] @ js_join comma (map member_text fs) @ [125])) \<le>
      2 + sum_list (map unit_bytes (js_join comma (map member_text fs)))"
    using length_utf8 [of "[123] @ js_join comma (map member_text fs) @ [125]"] by (simp add: unit_bytes_def)
  also have "\<dots> \<le> 2 + sum_list (map (\<lambda>w. Suc (sum_list (map unit_bytes w))) (map member_text fs))"
    by (intro add_left_mono unit_bytes_join)
  finally show ?thesis by (simp add: comp_def)
qed

lemma run_claims_length:
  assumes "PUBLICATION_ID_PATTERN pub" "0 \<le> iat" "iat + ttl \<le> MAX_SAFE_INTEGER" "0 \<le> ttl"
    and "\<forall>s. sub = Some s \<longrightarrow> length s \<le> 256 \<and> \<not> LONE_SURROGATE s \<and> list_all (\<lambda>u. \<not> u < 32) s"
  shows "length (utf8 (json_text (VObj (run_claims pub iat ttl sub)))) \<le> 1000 \<and> \<not> LONE_SURROGATE pub"
proof -
  have pub: "length pub = 26" "\<And>u. u \<in> set pub \<Longrightarrow> unat u < 256 \<and> \<not> u < 32"
  proof -
    show "length pub = 26" using assms(1) by (simp add: PUBLICATION_ID_PATTERN_def)
    fix u assume "u \<in> set pub"
    then have "u \<in> set (js ''pub_'') \<or> u \<in> set (drop 4 pub)"
      using assms(1) by (metis PUBLICATION_ID_PATTERN_def append_take_drop_id Un_iff set_append)
    then show "unat u < 256 \<and> \<not> u < 32"
      using assms(1) by (auto simp: PUBLICATION_ID_PATTERN_def list_all_iff js_def unit_class_defs word_le_nat_alt word_less_nat_alt)
  qed
  have lone: "\<not> LONE_SURROGATE pub" using pub(2) by (intro LONE_SURROGATE_small) blast
  have b: "\<bar>iat + ttl\<bar> \<le> MAX_SAFE_INTEGER" "\<bar>iat\<bar> \<le> MAX_SAFE_INTEGER" using assms(2-4) by simp_all
  then have e: "\<bar>iat + ttl\<bar> \<le> 2 ^ 53" "\<bar>iat\<bar> \<le> 2 ^ 53" by (simp_all add: MAX_SAFE_INTEGER_def)
  have "sub = None \<or> (\<exists>s. sub = Some s \<and> \<not> LONE_SURROGATE s)" using assms(5) by (cases sub) auto
  note claims_text = run_claims_text [OF e this lone]
  have "sum_list (map unit_bytes (quote_text pub)) \<le> 80" using unit_bytes_quote [of pub] pub by simp
  moreover have "sum_list (map unit_bytes (quote_text s)) \<le> 770" if "sub = Some s" for s
    using unit_bytes_quote [of s] assms(5) that by (force simp: list_all_iff)
  moreover have "sum_list (map unit_bytes (quote_text (js ''pub''))) = 5" "sum_list (map unit_bytes (quote_text (js ''iat''))) = 5"
    by (simp_all add: quote_text_def js_def escape_def unit_bytes_def)
  ultimately have "length (utf8 (json_text (VObj (run_claims pub iat ttl sub)))) \<le> 1000"
    using member_bytes [of "run_claims pub iat ttl sub"] unit_bytes_int [OF b(1)] unit_bytes_int [OF b(2)]
    unfolding claims_text by (cases sub) (fastforce simp: run_claims_def member_text_def num_of_bigint_exact [OF e(1)])+
  then show ?thesis using lone by blast
qed

lemma members_unicode:
  assumes "list_all (\<lambda>(k, v). \<not> LONE_SURROGATE k \<and> emittable 1 v) fs"
  shows "\<not> LONE_SURROGATE ([123] @ js_join comma (map member_text fs) @ [125])"
proof -
  have "\<not> lone_from False (member_text (k, v))" if "(k, v) \<in> set fs" for k v
    using that assms canon_unicode [of 1 v]
    by (fastforce simp: member_text_def list_all_iff lone_from_append quote_text_unicode)
  then have "\<not> lone_from False (js_join comma (map member_text fs))" by (intro lone_from_join) auto
  then show ?thesis by (simp add: LONE_SURROGATE_def lone_from_append)
qed

lemma utf8_not_Nil: "s \<noteq> [] \<Longrightarrow> utf8 s \<noteq> []"
  by (cases s rule: utf8.cases) (auto simp: utf8_point_def)

lemma set_js_join: "u \<in> set (js_join sep ws) \<Longrightarrow> u = sep \<or> (\<exists>w \<in> set ws. u \<in> set w)"
  by (induction sep ws rule: js_join.induct) auto

lemma JWT_SHAPE_plain:
  assumes "JWT_SHAPE s"
  shows "s \<noteq> [] \<and> js_trim s = s"
proof
  show "s \<noteq> []" using assms by (auto simp: JWT_SHAPE_def)
  have "\<not> is_space u" if "u \<in> set s" for u
  proof -
    have "u \<in> set (js_join 46 (js_split 46 s))" using that by simp
    then have "u = 46 \<or> (\<exists>w \<in> set (js_split 46 s). u \<in> set w)" by (rule set_js_join)
    then have "u = 46 \<or> jwt_unit u" using assms by (auto simp: JWT_SHAPE_def list_all_iff)
    then show ?thesis using jwt_unit_not_space by (auto simp: is_space_def)
  qed
  then show "js_trim s = s" by (intro js_trim_plain) blast
qed

lemma jwt_shape:
  assumes "hmac_32 C" "\<bar>iat + ttl\<bar> \<le> 2 ^ 53" "\<bar>iat\<bar> \<le> 2 ^ 53" "sub = None \<or> (\<exists>s. sub = Some s \<and> \<not> LONE_SURROGATE s)" "\<not> LONE_SURROGATE pub"
  shows "JWT_SHAPE (jwt C key (run_claims pub iat ttl sub))"
proof -
  have "utf8 (json_text (VObj HEADER_JSON)) \<noteq> []" "utf8 (json_text (VObj (run_claims pub iat ttl sub))) \<noteq> []"
    unfolding HEADER_JSON_text run_claims_text [OF assms(2-5)] by (simp_all add: utf8_not_Nil)
  moreover have "hmac_sha256 C k m \<noteq> []" for k m using assms(1) by (metis hmac_32_def list.size(3) zero_neq_numeral)
  ultimately show ?thesis
    by (simp only: JWT_SHAPE_def jwt_parts) (simp add: base64Url_def toBase64Url_units del: json_text.simps)
qed

lemma minted_token_facts:
  assumes "hmac_32 C" "mintRunToken C secretKey (VObj opts) now_ms = Inr t"
    and "safe_int (or_else (jget opts (js ''issuedAt'')) (VNum (int_num (now_ms div 1000)))) = Some iat" "iat + 3600 \<le> MAX_SAFE_INTEGER"
  obtains ttl key pub sub where "t = jwt C key (run_claims pub iat ttl sub)" "safe_int (or_else (jget opts (js ''ttlSeconds'')) (VNum (int_num DEFAULT_RUN_TOKEN_TTL_SECONDS))) = Some ttl"
    "1 \<le> ttl" "ttl \<le> 3600" "checkRunToken (VStr t) = Inr t" "runTokenExpiry t = Some (int_num (iat + ttl))"
proof -
  from mintRunToken_claims [OF assms(2)] assms(3) obtain key pub ttl sub where k: "PUBLICATION_ID_PATTERN pub" "1 \<le> ttl" "ttl \<le> 3600"
      "0 \<le> iat" "t = jwt C key (run_claims pub iat ttl sub)"
    and l: "safe_int (or_else (jget opts (js ''ttlSeconds'')) (VNum (int_num DEFAULT_RUN_TOKEN_TTL_SECONDS))) = Some ttl"
    and s: "\<forall>s. sub = Some s \<longrightarrow> 0 < length s \<and> length s \<le> 256 \<and> \<not> LONE_SURROGATE s \<and> list_all (\<lambda>u. \<not> u < 32) s" by auto
  let ?claims = "run_claims pub iat ttl sub"
  have iat: "iat + ttl \<le> MAX_SAFE_INTEGER" using assms(4) k(3) by simp
  have "\<forall>s. sub = Some s \<longrightarrow> length s \<le> 256 \<and> \<not> LONE_SURROGATE s \<and> list_all (\<lambda>u. \<not> u < 32) s" using s by blast
  from run_claims_length [OF k(1,4) iat _ this] k(2) have len: "length (utf8 (json_text (VObj ?claims))) \<le> 1000" and lone: "\<not> LONE_SURROGATE pub" by simp_all
  have sub: "sub = None \<or> (\<exists>s. sub = Some s \<and> \<not> LONE_SURROGATE s)" using s by (cases sub) auto
  have e: "\<bar>iat + ttl\<bar> \<le> 2 ^ 53" "\<bar>iat\<bar> \<le> 2 ^ 53" using iat k(2,4) by (simp_all add: MAX_SAFE_INTEGER_def)
  obtain gs where gs: "json_parse (json_text (VObj ?claims)) = Some (VObj gs)" "jget gs (js ''exp'') = VNum (int_num (iat + ttl))"
    using run_claims_expiry [OF e sub lone] by blast
  have "list_all (\<lambda>(k, v). \<not> LONE_SURROGATE k \<and> emittable 1 v) ?claims"
    using sub lone e by (auto simp: run_claims_def num_of_bigint_exact)
  from members_unicode [OF this] have uni: "\<not> LONE_SURROGATE (json_text (VObj ?claims))"
    by (simp only: run_claims_text [OF e sub lone] not_False_eq_True)
  then have x: "runTokenExpiry t = Some (int_num (iat + ttl))"
    by (simp add: runTokenExpiry_def k(5) jwt_parts base64Url_def decodeBase64UrlText_toBase64Url gs del: json_text.simps)
  let ?h = "json_text (VObj HEADER_JSON)"
  have header: "length (utf8 ?h) \<le> 90" unfolding HEADER_JSON_text
    by (rule order_trans [OF length_utf8]) (simp add: js_def unit_bytes_def)
  have "jwt C key ?claims = js_join 46 (js_split 46 (jwt C key ?claims))" by simp
  then have "length t = length (base64Url ?h) + length (base64Url (json_text (VObj ?claims))) + 45"
    using assms(1) by (simp only: jwt_parts k(5)) (simp add: length_toBase64Url hmac_32_def del: json_text.simps)
  moreover have "length (base64Url ?h) \<le> 130" "length (base64Url (json_text (VObj ?claims))) \<le> 1400"
    using header len by (simp_all add: base64Url_def length_toBase64Url del: json_text.simps)
  ultimately have "length t \<le> MAX_RUN_TOKEN_LENGTH" by (simp add: MAX_RUN_TOKEN_LENGTH_def)
  moreover have shape: "JWT_SHAPE t" unfolding k(5) by (rule jwt_shape) (use assms(1) e sub lone in simp_all)
  moreover have "t \<noteq> []" "js_trim t = t" using JWT_SHAPE_plain [OF shape] by simp_all
  ultimately have "checkRunToken (VStr t) = Inr t" by (simp add: checkRunToken_def)
  then show ?thesis using that [OF k(5) l k(2,3) _ x] by blast
qed

text \<open>C17: what the server mints, the page can use.  A run token minted with a time of issue \<open>iat\<close> (the \<open>issuedAt\<close> given, or
  else now) and a lifetime \<open>ttl\<close> (the \<open>ttlSeconds\<close> given, or else 600) passes the page's check, the page reads as its
  expiry exactly the \<open>iat + ttl\<close> the server signed, and once it is fetched every \<open>get\<close> until a minute before then answers it from the cache.
  Times of issue are those of which an expiry is a safe integer.\<close>

theorem minted_token_read:
  assumes "hmac_32 C" "mintRunToken C secretKey (VObj opts) now_ms = Inr t"
    and "safe_int (or_else (jget opts (js ''issuedAt'')) (VNum (int_num (now_ms div 1000)))) = Some iat" "iat + 3600 \<le> MAX_SAFE_INTEGER"
    and "safe_int (or_else (jget opts (js ''ttlSeconds'')) (VNum (int_num 600))) = Some ttl"
  shows "(\<exists>key pub sub. t = jwt C key (run_claims pub iat ttl sub)) \<and> 1 \<le> ttl \<and> ttl \<le> 3600 \<and> checkRunToken (VStr t) = Inr t \<and> runTokenExpiry t = Some (int_num (iat + ttl)) \<and>
    (\<forall>since later c. since \<le> later \<and> later + 60000 < of_int (iat + ttl) * 1000 \<longrightarrow>
       fst (cache_get later (fetch_answered since (Inr (VStr t)) c)) = Cached t)"
proof -
  have ttl: "\<exists>key pub sub. t = jwt C key (run_claims pub iat ttl sub)" "1 \<le> ttl" "ttl \<le> 3600" "checkRunToken (VStr t) = Inr t" "runTokenExpiry t = Some (int_num (iat + ttl))"
    by (rule minted_token_facts [OF assms(1-4)]; use assms(5) in \<open>auto simp: DEFAULT_RUN_TOKEN_TTL_SECONDS_def\<close>)+
  have "fst (cache_get later (fetch_answered since (Inr (VStr t)) c)) = Cached t"
    if "since \<le> later" "later + 60000 < of_int (iat + ttl) * 1000" for since later c
    using that ttl by (simp add: fetch_answered_def fetch_result_def Let_def RUN_TOKEN_REFRESH_MARGIN_MS_def cache_get_def int_num_def)
  then show ?thesis using ttl by blast
qed

end
