(* ===== verification/Visitor_Call.thy ===== *)
theory Visitor_Call
  imports Web_Errors Bridge_Json
begin

section \<open>Calls and the routing of their events (web/src/call.ts)\<close>

text \<open>
  Every call of a page shares one listener on the extension's \<open>call\<close> events.  The router and the calls
  are one record; a call is known by its number.  Each callback is one function on the record; what goes
  out (requests, listeners invoked) is appended to a log.  A listener's own calls into the library are
  later steps: the model takes them after the callback that invoked it.  Message texts are left out.
\<close>

definition HOLD_MS :: int where "HOLD_MS = 30000"
definition MAX_HELD_CALLS :: nat where "MAX_HELD_CALLS = 32"
definition MAX_HELD_EVENTS_PER_CALL :: nat where "MAX_HELD_EVENTS_PER_CALL = 64"
definition MAX_QUEUED_TRANSIENT :: nat where "MAX_QUEUED_TRANSIENT = 50"
definition CALL_TIMEOUT_GRACE_MS :: int where "CALL_TIMEOUT_GRACE_MS = 5000"
definition DEFAULT_CALL_TIMEOUT_MS :: int where "DEFAULT_CALL_TIMEOUT_MS = 120000"

definition CALL_EVENT_TYPES :: "jsstring list" where
  "CALL_EVENT_TYPES = map js [''started'', ''progress'', ''needs_user'', ''finished'', ''error'']"

definition ENGINES :: "jsstring list" where
  "ENGINES = map js [''http'', ''browser'', ''hybrid'']"

subsection \<open>Events\<close>

record call_event =
  ce_call_id :: jsstring
  ce_type :: jsstring
  ce_fields :: fields

definition parseCallEvent :: "jsval \<Rightarrow> call_event option" where
  "parseCallEvent payload =
     (case payload of
        VObj r \<Rightarrow>
          (case (jget r (js ''call_id''), jget r (js ''type'')) of
             (VStr i, VStr t) \<Rightarrow>
               if i = [] \<or> t \<notin> set CALL_EVENT_TYPES then None
               else Some \<lparr>ce_call_id = i, ce_type = t, ce_fields = r\<rparr>
           | _ \<Rightarrow> None)
      | _ \<Rightarrow> None)"

definition readCallId :: "jsval \<Rightarrow> jsstring option" where
  "readCallId answer =
     (case answer of
        VObj r \<Rightarrow> (case jget r (js ''call_id'') of VStr i \<Rightarrow> if i \<noteq> [] then Some i else None | _ \<Rightarrow> None)
      | _ \<Rightarrow> None)"

definition finite_number :: "jsval \<Rightarrow> jsnum option" where
  "finite_number v = (case v of VNum n \<Rightarrow> if is_finite n then Some n else None | _ \<Rightarrow> None)"

text \<open>\<open>parseReceipt\<close> of web/src/receipt.ts: a JSON copy of a plain object.\<close>

definition MAX_RECEIPT_DEPTH :: nat where "MAX_RECEIPT_DEPTH = 8"

definition parseReceipt :: "jsval \<Rightarrow> jsval option" where
  "parseReceipt raw =
     (if isPlainObject raw
      then (case cloneJsonValue raw [] MAX_RECEIPT_DEPTH of Inr copy \<Rightarrow> Some copy | Inl e \<Rightarrow> None) else None)"

subsection \<open>The router\<close>

record router =
  rt_routes :: "(jsstring \<times> nat) list"
  rt_held :: "(jsstring \<times> int \<times> call_event list) list"
  rt_expecting :: nat
  rt_attached :: bool

definition new_router :: router where
  "new_router = \<lparr>rt_routes = [], rt_held = [], rt_expecting = 0, rt_attached = False\<rparr>"

definition rt_expect :: "router \<Rightarrow> router" where
  "rt_expect r = r\<lparr>rt_attached := True, rt_expecting := rt_expecting r + 1\<rparr>"

definition maybeDetach :: "router \<Rightarrow> router" where
  "maybeDetach r =
     (if \<not> rt_attached r \<or> rt_expecting r > 0 \<or> rt_routes r \<noteq> [] then r
      else r\<lparr>rt_held := [], rt_attached := False\<rparr>)"

definition rt_unexpect :: "router \<Rightarrow> router" where
  "rt_unexpect r = maybeDetach (r\<lparr>rt_expecting := rt_expecting r - 1\<rparr>)"

definition rt_release :: "jsstring \<Rightarrow> router \<Rightarrow> router" where
  "rt_release i r = maybeDetach (r\<lparr>rt_routes := AList.delete i (rt_routes r), rt_held := AList.delete i (rt_held r)\<rparr>)"

text \<open>\<open>#hold\<close>: old entries go, then the oldest while there are too many, then the event is kept.\<close>

definition rt_hold :: "int \<Rightarrow> call_event \<Rightarrow> router \<Rightarrow> router" where
  "rt_hold now ev r =
     (let i = ce_call_id ev;
          held = filter (\<lambda>(i, since, evs). \<not> now - since > HOLD_MS) (rt_held r);
          held = (if map_of held i = None
                  then drop (Suc (length held) - MAX_HELD_CALLS) held @ [(i, now, [])] else held)
      in r\<lparr>rt_held := map (\<lambda>(k, since, evs).
              (k, since, if k = i \<and> length evs < MAX_HELD_EVENTS_PER_CALL then evs @ [ev] else evs)) held\<rparr>)"

subsection \<open>Calls\<close>

datatype call_status = CallPending | CallRunning | CallFinished | CallFailed | CallCancelled

datatype event_name = OnStarted | OnProgress | OnNeedsUser | OnFinished | OnError

record call_result =
  cr_data :: jsval
  cr_runId :: jsnum
  cr_durationMs :: jsnum
  cr_engine :: "jsstring option"
  cr_callId :: jsstring
  cr_receipt :: "jsval option option"

datatype payload = RunStarted jsnum | Progress jsnum jsnum | NeedsUser jsstring | Finished call_result | Errored writ_error

text \<open>A microtask that replays events: one to one listener, or the queued ones to all.\<close>

datatype replay = ReplayTo event_name nat payload | ReplayAll event_name "payload list"

text \<open>The fields of \<open>WritCall\<close>, the settled promises (\<open>cl_result\<close>, \<open>cl_callId\<close>), whether the answer to
  \<open>writ_call\<close> is outstanding, the failure a microtask will report, and, as history, whether the page or
  the guard gave the call up.\<close>

record call =
  cl_status :: call_status
  cl_runId :: "jsnum option"
  cl_id :: "jsstring option"
  cl_settled :: bool
  cl_awaitingId :: bool
  cl_awaitingToken :: bool
  cl_token :: "jsstring option"
  cl_timer :: bool
  cl_signal :: bool
  cl_cancelAck :: "jsstring option"
  cl_listeners :: "event_name \<Rightarrow> nat list"
  cl_sticky :: "event_name \<Rightarrow> payload option"
  cl_queued :: "event_name \<Rightarrow> payload list"
  cl_replays :: "replay list"
  cl_result :: "(writ_error + call_result) option"
  cl_callId :: "(writ_error + jsstring) option"
  cl_params :: "fields option"
  cl_guardMs :: int
  cl_outstanding :: bool
  cl_failing :: "writ_error option"
  cl_abandoned :: bool

datatype call_out =
    CallRequest nat fields "jsstring option" | CancelRequest nat jsstring | Invoked nat event_name nat payload
  | SettleTold nat | FailureTold nat writ_error | TokenRefused nat jsstring | TokenAsked nat

record client =
  ct_router :: router
  ct_calls :: "call list"
  ct_log :: "call_out list"

definition call_at :: "client \<Rightarrow> nat \<Rightarrow> call" where
  "call_at s h = ct_calls s ! h"

definition put :: "nat \<Rightarrow> (call \<Rightarrow> call) \<Rightarrow> client \<Rightarrow> client" where
  "put h f s = s\<lparr>ct_calls := (ct_calls s)[h := f (ct_calls s ! h)]\<rparr>"

definition out :: "call_out list \<Rightarrow> client \<Rightarrow> client" where
  "out xs s = s\<lparr>ct_log := ct_log s @ xs\<rparr>"

definition routed :: "(router \<Rightarrow> router) \<Rightarrow> client \<Rightarrow> client" where
  "routed f s = s\<lparr>ct_router := f (ct_router s)\<rparr>"

subsection \<open>Emitting\<close>

definition lifecycle :: "event_name \<Rightarrow> bool" where
  "lifecycle e \<longleftrightarrow> e = OnStarted \<or> e = OnFinished \<or> e = OnError"

definition emit :: "nat \<Rightarrow> event_name \<Rightarrow> payload \<Rightarrow> client \<Rightarrow> client" where
  "emit h e x s =
     (let s1 = (if lifecycle e then put h (\<lambda>c. c\<lparr>cl_sticky := (cl_sticky c)(e := Some x)\<rparr>) s else s);
          listeners = cl_listeners (call_at s1 h) e in
      if listeners = [] then
        (if \<not> lifecycle e
         then put h (\<lambda>c. let queue = cl_queued c e;
                            kept = (if length queue \<ge> MAX_QUEUED_TRANSIENT then tl queue else queue)
                        in c\<lparr>cl_queued := (cl_queued c)(e := kept @ [x])\<rparr>) s1
         else s1)
      else out (map (\<lambda>fn. Invoked h e fn x) listeners) s1)"

text \<open>\<open>on\<close> and \<open>off\<close> of a known event and a function; the replays run as microtasks, in order.\<close>

definition on_event :: "nat \<Rightarrow> event_name \<Rightarrow> nat \<Rightarrow> client \<Rightarrow> client" where
  "on_event h e fn s =
     (let c = call_at s h in
      if fn \<in> set (cl_listeners c e) then s
      else put h (\<lambda>c. c\<lparr>cl_listeners := (cl_listeners c)(e := cl_listeners c e @ [fn]),
               cl_queued := (cl_queued c)(e := []),
               cl_replays := cl_replays c @
                 (case cl_sticky c e of None \<Rightarrow> [] | Some x \<Rightarrow> [ReplayTo e fn x]) @
                 (if cl_queued c e = [] then [] else [ReplayAll e (cl_queued c e)])\<rparr>) s)"

definition off_event :: "nat \<Rightarrow> event_name \<Rightarrow> nat \<Rightarrow> client \<Rightarrow> client" where
  "off_event h e fn s = put h (\<lambda>c. c\<lparr>cl_listeners := (cl_listeners c)(e := filter (\<lambda>f. f \<noteq> fn) (cl_listeners c e))\<rparr>) s"

definition run_replay :: "nat \<Rightarrow> client \<Rightarrow> client" where
  "run_replay h s =
     (case cl_replays (call_at s h) of
        [] \<Rightarrow> s
      | r # rs \<Rightarrow>
          out (case r of
                 ReplayTo e fn x \<Rightarrow> if fn \<in> set (cl_listeners (call_at s h) e) then [Invoked h e fn x] else []
               | ReplayAll e xs \<Rightarrow> concat (map (\<lambda>x. map (\<lambda>fn. Invoked h e fn x) (cl_listeners (call_at s h) e)) xs))
            (put h (\<lambda>c. c\<lparr>cl_replays := rs\<rparr>) s))"

subsection \<open>Settling\<close>

definition clearTimerWhenDone :: "call \<Rightarrow> call" where
  "clearTimerWhenDone c = (if \<not> cl_timer c \<or> \<not> cl_settled c \<or> cl_awaitingId c then c else c\<lparr>cl_timer := False\<rparr>)"

definition cleanup :: "nat \<Rightarrow> client \<Rightarrow> client" where
  "cleanup h s =
     (let s1 = put h (\<lambda>c. (clearTimerWhenDone c)\<lparr>cl_signal := False\<rparr>) s;
          s2 = (case cl_id (call_at s1 h) of None \<Rightarrow> s1 | Some i \<Rightarrow> routed (rt_release i) s1)
      in out [SettleTold h] s2)"

definition fail :: "nat \<Rightarrow> writ_error \<Rightarrow> client \<Rightarrow> client" where
  "fail h e s =
     (if cl_settled (call_at s h) then s
      else
        (let s1 = put h (\<lambda>c. c\<lparr>cl_settled := True,
               cl_status := (if we_code e = js ''CANCELLED'' then CallCancelled else CallFailed)\<rparr>) s;
             s2 = cleanup h s1;
             s3 = (case cl_token (call_at s2 h) of
                     Some t \<Rightarrow> if we_code e = js ''NOT_GRANTED'' then out [TokenRefused h t] s2 else s2
                   | None \<Rightarrow> s2);
             s4 = out [FailureTold h e] s3;
             s5 = put h (\<lambda>c. if cl_id c = None then c\<lparr>cl_callId := Some (Inl e)\<rparr> else c) s4;
             s6 = emit h OnError (Errored e) s5
         in put h (\<lambda>c. c\<lparr>cl_result := Some (Inl e)\<rparr>) s6))"

definition result_of :: "call \<Rightarrow> fields \<Rightarrow> call_result" where
  "result_of c r =
     \<lparr>cr_data = jget r (js ''data''), cr_runId = (case cl_runId c of Some n \<Rightarrow> n | None \<Rightarrow> int_num 0),
      cr_durationMs = (case finite_number (jget r (js ''duration_ms'')) of Some n \<Rightarrow> n | None \<Rightarrow> int_num 0),
      cr_engine = (case jget r (js ''engine'') of VStr e \<Rightarrow> if e \<in> set ENGINES then Some e else None | _ \<Rightarrow> None),
      cr_callId = (case cl_id c of Some i \<Rightarrow> i | None \<Rightarrow> []),
      cr_receipt = (if jhas r (js ''receipt'') then Some (parseReceipt (jget r (js ''receipt''))) else None)\<rparr>"

definition note_run :: "fields \<Rightarrow> call \<Rightarrow> call" where
  "note_run r c = (case finite_number (jget r (js ''run_id'')) of Some n \<Rightarrow> c\<lparr>cl_runId := Some n\<rparr> | None \<Rightarrow> c)"

definition finish :: "nat \<Rightarrow> fields \<Rightarrow> client \<Rightarrow> client" where
  "finish h r s =
     (let s1 = put h (note_run r) s;
          result = result_of (call_at s1 h) r;
          s2 = put h (\<lambda>c. c\<lparr>cl_settled := True, cl_status := CallFinished\<rparr>) s1;
          s3 = emit h OnFinished (Finished result) (cleanup h s2)
      in put h (\<lambda>c. c\<lparr>cl_result := Some (Inr result)\<rparr>) s3)"

definition event_error :: "call \<Rightarrow> fields \<Rightarrow> writ_error" where
  "event_error c r =
     (let raw = (case jget r (js ''code'') of VStr x \<Rightarrow> if x \<noteq> [] then x else js ''INTERNAL'' | _ \<Rightarrow> js ''INTERNAL'');
          code = normalizeErrorCode (VStr raw) in
      \<lparr>we_code = code,
       we_details = Some
         ([(js ''callId'', case cl_id c of Some i \<Rightarrow> VStr i | None \<Rightarrow> VNull)] @
          (case cl_runId c of Some n \<Rightarrow> [(js ''runId'', VNum n)] | None \<Rightarrow> []) @
          (if code \<noteq> raw then [(js ''providerCode'', VStr raw)] else []) @
          (case parseReceipt (jget r (js ''receipt'')) of Some x \<Rightarrow> [(js ''receipt'', x)] | None \<Rightarrow> []))\<rparr>)"

definition onEvent :: "nat \<Rightarrow> call_event \<Rightarrow> client \<Rightarrow> client" where
  "onEvent h ev s =
     (let r = ce_fields ev; t = ce_type ev in
      if cl_settled (call_at s h) then s
      else if t = js ''started'' then
        (let s1 = put h (\<lambda>c. (note_run r c)\<lparr>cl_status := CallRunning\<rparr>) s in
         case cl_runId (call_at s1 h) of Some n \<Rightarrow> emit h OnStarted (RunStarted n) s1 | None \<Rightarrow> s1)
      else if t = js ''progress'' then
        (let s1 = put h (\<lambda>c. if cl_status c = CallPending then c\<lparr>cl_status := CallRunning\<rparr> else c) s in
         case (finite_number (jget r (js ''index'')), finite_number (jget r (js ''total''))) of
           (Some i, Some n) \<Rightarrow> emit h OnProgress (Progress i n) s1
         | _ \<Rightarrow> s1)
      else if t = js ''needs_user'' then
        (case jget r (js ''reason'') of VStr x \<Rightarrow> emit h OnNeedsUser (NeedsUser x) s | _ \<Rightarrow> s)
      else if t = js ''finished'' then finish h r s
      else if t = js ''error'' then fail h (event_error (call_at s h) r) s
      else s)"

definition sendCancel :: "nat \<Rightarrow> jsstring \<Rightarrow> client \<Rightarrow> client" where
  "sendCancel h i s =
     (if cl_cancelAck (call_at s h) = None
      then out [CancelRequest h i] (put h (\<lambda>c. c\<lparr>cl_cancelAck := Some i\<rparr>) s) else s)"

definition abandon :: "nat \<Rightarrow> writ_error \<Rightarrow> client \<Rightarrow> client" where
  "abandon h e s =
     (if cl_settled (call_at s h) then s
      else (let s1 = put h (\<lambda>c. c\<lparr>cl_abandoned := True\<rparr>) (fail h e s) in
        case cl_id (call_at s1 h) of Some i \<Rightarrow> sendCancel h i s1 | None \<Rightarrow> s1))"

definition stopAwaiting :: "nat \<Rightarrow> client \<Rightarrow> client" where
  "stopAwaiting h s =
     (if \<not> cl_awaitingId (call_at s h) then s
      else put h clearTimerWhenDone (routed rt_unexpect (put h (\<lambda>c. c\<lparr>cl_awaitingId := False\<rparr>) s)))"

subsection \<open>Events from the extension\<close>

definition dispatch :: "int \<Rightarrow> jsval \<Rightarrow> client \<Rightarrow> client" where
  "dispatch now payload s =
     (case parseCallEvent payload of
        None \<Rightarrow> s
      | Some ev \<Rightarrow>
          (case map_of (rt_routes (ct_router s)) (ce_call_id ev) of
             Some h \<Rightarrow> onEvent h ev s
           | None \<Rightarrow> if rt_expecting (ct_router s) > 0 then routed (rt_hold now ev) s else s))"

text \<open>\<open>claim\<close>: route the id here and hand over what was held, until the route is gone.\<close>

fun replay_held :: "nat \<Rightarrow> jsstring \<Rightarrow> call_event list \<Rightarrow> client \<Rightarrow> client" where
  "replay_held h i [] s = s"
| "replay_held h i (ev # evs) s =
     (if map_of (rt_routes (ct_router s)) i \<noteq> Some h then s else replay_held h i evs (onEvent h ev s))"

definition claim :: "nat \<Rightarrow> jsstring \<Rightarrow> client \<Rightarrow> client" where
  "claim h i s =
     (let s1 = routed (\<lambda>r. r\<lparr>rt_routes := AList.update i h (rt_routes r)\<rparr>) s in
      case map_of (rt_held (ct_router s1)) i of
        None \<Rightarrow> s1
      | Some (since, evs) \<Rightarrow> replay_held h i evs (routed (\<lambda>r. r\<lparr>rt_held := AList.delete i (rt_held r)\<rparr>) s1))"

definition internal_error :: writ_error where
  "internal_error = \<lparr>we_code = js ''INTERNAL'', we_details = None\<rparr>"

definition onAnswer :: "nat \<Rightarrow> jsval \<Rightarrow> client \<Rightarrow> client" where
  "onAnswer h answer s =
     (let i = readCallId answer in
      if \<not> cl_awaitingId (call_at s h) then (case i of Some i \<Rightarrow> sendCancel h i s | None \<Rightarrow> s)
      else
        (case i of
           None \<Rightarrow> fail h internal_error (stopAwaiting h s)
         | Some i \<Rightarrow>
             (let s1 = put h (\<lambda>c. c\<lparr>cl_id := Some i, cl_callId := (if cl_callId c = None then Some (Inr i) else cl_callId c)\<rparr>) s in
              if cl_settled (call_at s1 h) then stopAwaiting h (sendCancel h i s1)
              else stopAwaiting h (claim h i s1))))"

definition onRequestError :: "nat \<Rightarrow> thrown \<Rightarrow> client \<Rightarrow> client" where
  "onRequestError h e s =
     (if \<not> cl_awaitingId (call_at s h) then s else fail h (toWritError e None) (stopAwaiting h s))"

definition onGuardTimeout :: "nat \<Rightarrow> client \<Rightarrow> client" where
  "onGuardTimeout h s =
     (let e = \<lparr>we_code = js ''TIMEOUT'',
             we_details = Some [(js ''timeoutMs'', VNum (int_num (cl_guardMs (call_at s h) - CALL_TIMEOUT_GRACE_MS)))]\<rparr>
      in stopAwaiting h (abandon h e (put h (\<lambda>c. c\<lparr>cl_timer := False\<rparr>) s)))"

definition cancelled :: writ_error where
  "cancelled = \<lparr>we_code = js ''CANCELLED'', we_details = None\<rparr>"

text \<open>The page's \<open>cancel()\<close>, and its signal's abort.\<close>

definition cancel :: "nat \<Rightarrow> client \<Rightarrow> client" where
  "cancel h s = abandon h cancelled s"

definition onAbort :: "nat \<Rightarrow> client \<Rightarrow> client" where
  "onAbort h s = (if cl_signal (call_at s h) then abandon h cancelled s else s)"

subsection \<open>Starting a call\<close>

text \<open>\<open>#send\<close>: \<open>on_throws\<close> is what \<open>provider.on\<close> throws, should it be attached and throw.\<close>

definition send :: "nat \<Rightarrow> thrown option \<Rightarrow> client \<Rightarrow> client" where
  "send h on_throws s =
     (case (if rt_attached (ct_router s) then None else on_throws) of
        Some e \<Rightarrow> put h (\<lambda>c. c\<lparr>cl_failing := Some (toWritError e None)\<rparr>) s
      | None \<Rightarrow>
          (let s1 = put h (\<lambda>c. c\<lparr>cl_awaitingId := True, cl_timer := True, cl_outstanding := True\<rparr>) (routed rt_expect s) in
           out [CallRequest h (case cl_params (call_at s1 h) of Some p \<Rightarrow> p | None \<Rightarrow> []) (cl_token (call_at s1 h))] s1))"

record call_init =
  ci_params :: "fields option"
  ci_error :: "writ_error option"
  ci_runToken :: bool
  ci_timeoutMs :: "int option"
  ci_signal :: "bool option"

definition fresh_call :: "call_init \<Rightarrow> call" where
  "fresh_call init =
     \<lparr>cl_status = CallPending, cl_runId = None, cl_id = None, cl_settled = False, cl_awaitingId = False, cl_awaitingToken = False,
      cl_token = None, cl_timer = False, cl_signal = False, cl_cancelAck = None, cl_listeners = (\<lambda>_. []), cl_sticky = (\<lambda>_. None),
      cl_queued = (\<lambda>_. []), cl_replays = [], cl_result = None, cl_callId = None, cl_params = ci_params init,
      cl_guardMs = (case ci_timeoutMs init of Some t \<Rightarrow> t | None \<Rightarrow> DEFAULT_CALL_TIMEOUT_MS) + CALL_TIMEOUT_GRACE_MS,
      cl_outstanding = False, cl_failing = None, cl_abandoned = False\<rparr>"

text \<open>The constructor; \<open>ci_signal\<close> is the signal's \<open>aborted\<close>.  The new call is the last.\<close>

definition new_call :: "call_init \<Rightarrow> thrown option \<Rightarrow> client \<Rightarrow> client" where
  "new_call init on_throws s =
     (let h = length (ct_calls s); s0 = s\<lparr>ct_calls := ct_calls s @ [fresh_call init]\<rparr> in
      if ci_error init \<noteq> None \<or> ci_params init = None
      then put h (\<lambda>c. c\<lparr>cl_failing := Some (case ci_error init of Some e \<Rightarrow> e | None \<Rightarrow> internal_error)\<rparr>) s0
      else if ci_signal init = Some True then put h (\<lambda>c. c\<lparr>cl_failing := Some cancelled\<rparr>) s0
      else
        (let s1 = put h (\<lambda>c. c\<lparr>cl_signal := ci_signal init \<noteq> None\<rparr>) s0 in
         if \<not> ci_runToken init then send h on_throws s1
         else out [TokenAsked h] (put h (\<lambda>c. c\<lparr>cl_timer := True, cl_awaitingToken := True\<rparr>) s1)))"

text \<open>The run token arrived, or could not be had.\<close>

definition token_answered :: "nat \<Rightarrow> thrown + jsstring \<Rightarrow> thrown option \<Rightarrow> client \<Rightarrow> client" where
  "token_answered h answer on_throws s =
     (let s1 = put h (\<lambda>c. c\<lparr>cl_awaitingToken := False\<rparr>) s in
      case answer of
        Inl e \<Rightarrow> fail h (toWritError e None) s1
      | Inr t \<Rightarrow> if cl_settled (call_at s1 h) then s1
                 else send h on_throws (put h (\<lambda>c. c\<lparr>cl_token := Some t\<rparr>) s1))"

definition run_failing :: "nat \<Rightarrow> client \<Rightarrow> client" where
  "run_failing h s =
     (case cl_failing (call_at s h) of
        None \<Rightarrow> s | Some e \<Rightarrow> fail h e (put h (\<lambda>c. c\<lparr>cl_failing := None\<rparr>) s))"

subsection \<open>Any order of callbacks\<close>

datatype call_step =
    NewCall call_init "thrown option" | TokenAnswered nat "thrown + jsstring" "thrown option" | FailTask nat
  | CallAnswered nat jsval | RequestFailed nat thrown | ProviderEvent int jsval | GuardFires nat | Aborted nat | Cancel nat
  | On nat event_name nat | Off nat event_name nat | ReplayTask nat

definition answered :: "nat \<Rightarrow> client \<Rightarrow> client" where
  "answered h s = put h (\<lambda>c. c\<lparr>cl_outstanding := False\<rparr>) s"

text \<open>A callback that cannot come in this state changes nothing.\<close>

definition call_step :: "call_step \<Rightarrow> client \<Rightarrow> client" where
  "call_step e s =
     (let known = (\<lambda>h. h < length (ct_calls s)) in
      case e of
        NewCall init on_throws \<Rightarrow> new_call init on_throws s
      | TokenAnswered h a on_throws \<Rightarrow> if known h \<and> cl_awaitingToken (call_at s h) then token_answered h a on_throws s else s
      | FailTask h \<Rightarrow> if known h then run_failing h s else s
      | CallAnswered h a \<Rightarrow> if known h \<and> cl_outstanding (call_at s h) then onAnswer h a (answered h s) else s
      | RequestFailed h x \<Rightarrow> if known h \<and> cl_outstanding (call_at s h) then onRequestError h x (answered h s) else s
      | ProviderEvent now p \<Rightarrow> if rt_attached (ct_router s) then dispatch now p s else s
      | GuardFires h \<Rightarrow> if known h \<and> cl_timer (call_at s h) then onGuardTimeout h s else s
      | Aborted h \<Rightarrow> if known h then onAbort h s else s
      | Cancel h \<Rightarrow> if known h then cancel h s else s
      | On h ev fn \<Rightarrow> if known h then on_event h ev fn s else s
      | Off h ev fn \<Rightarrow> if known h then off_event h ev fn s else s
      | ReplayTask h \<Rightarrow> if known h then run_replay h s else s)"

definition new_client :: client where
  "new_client = \<lparr>ct_router = new_router, ct_calls = [], ct_log = []\<rparr>"

definition call_history :: "call_step list \<Rightarrow> client" where
  "call_history es = fold call_step es new_client"

end
