(* ===== verification/Page_Session.thy ===== *)
theory Page_Session
  imports Visitor_Call Page_Tokens
begin

section \<open>Sessions of the page (web/src/validate.ts, linked.ts, client.ts)\<close>

text \<open>
  What a page may ask of its session: the checks before a call is made, what is sent for it, the reading of
  the extension's grants, and the session over any interleaving with its calls.  A function passed in (an
  \<open>AbortSignal\<close>'s methods, \<open>getRunToken\<close>) is known by a number.  \<open>FUNCTION_KEY_PATTERN\<close>, \<open>MAX_INPUT_BYTES\<close> and
  the bounds of a timeout are the constants of the server's package, which web/src/constants.ts repeats.
\<close>

definition MAX_CHALLENGE_LENGTH :: nat where "MAX_CHALLENGE_LENGTH = 2048"
definition MAX_INPUT_DEPTH :: nat where "MAX_INPUT_DEPTH = 64"

definition RESERVED_INPUT_NAMES :: "jsstring list" where
  "RESERVED_INPUT_NAMES = map js [''persona_id'', ''function_name'', ''auth_policy'']"

definition FORBIDDEN_INPUT_PREFIXES :: "jsstring list" where
  "FORBIDDEN_INPUT_PREFIXES = map js [''secret:'', ''file:'']"

definition RECIPE_CACHE_MODES :: "jsstring list" where
  "RECIPE_CACHE_MODES = map js [''session'', ''call'']"

definition input_invalid :: writ_error where
  "input_invalid = \<lparr>we_code = js ''INPUT_INVALID'', we_details = None\<rparr>"

subsection \<open>Counting (web/src/json.ts)\<close>

text \<open>The loops of \<open>utf8Length\<close> and \<open>charCount\<close>.\<close>

fun utf8Length :: "jsstring \<Rightarrow> nat" where
  "utf8Length [] = 0"
| "utf8Length (u # us) =
     (if u < 0x80 then 1 + utf8Length us
      else if u < 0x800 then 2 + utf8Length us
      else if is_high u then
        (case us of
           [] \<Rightarrow> 3 + utf8Length us
         | v # vs \<Rightarrow> if is_low v then 4 + utf8Length vs else 3 + utf8Length us)
      else 3 + utf8Length us)"

fun charCount :: "jsstring \<Rightarrow> nat" where
  "charCount [] = 0"
| "charCount (u # us) =
     (case us of
        [] \<Rightarrow> 1
      | v # vs \<Rightarrow> if is_high u \<and> is_low v then 1 + charCount vs else 1 + charCount us)"

subsection \<open>Call options\<close>

datatype signal_arg = NoSignal | Signal bool | NotASignal
datatype token_arg = TokenValue jsval | TokenSource nat

record raw_options =
  ro_signal :: signal_arg
  ro_timeoutMs :: jsval
  ro_dryRun :: jsval
  ro_challenge :: jsval
  ro_token :: token_arg
  ro_recipeCache :: jsval

datatype options_arg = NoOptions | NotAnObject | Options raw_options

datatype run_token = GivenToken jsstring | TokenFrom nat

record clean_options =
  co_signal :: "bool option"
  co_timeoutMs :: "int option"
  co_dryRun :: "bool option"
  co_challenge :: "jsstring option"
  co_token :: "run_token option"
  co_recipeCache :: "jsstring option"

definition validateFunctionKey :: "jsval \<Rightarrow> writ_error + jsstring" where
  "validateFunctionKey key = (case key of VStr k \<Rightarrow> if FUNCTION_KEY_PATTERN k then Inr k else Inl badRequest | _ \<Rightarrow> Inl badRequest)"

definition clampTimeout :: "jsnum \<Rightarrow> int" where
  "clampTimeout ms = min MAX_CALL_TIMEOUT_MS (max MIN_CALL_TIMEOUT_MS (num_round ms))"

definition validateChallenge :: "jsval \<Rightarrow> writ_error + jsstring option" where
  "validateChallenge challenge =
     (if nullish challenge then Inr None
      else (case challenge of
              VStr c \<Rightarrow> if c = [] \<or> length c > MAX_CHALLENGE_LENGTH then Inl badRequest else Inr (Some c)
            | _ \<Rightarrow> Inl badRequest))"

definition validateRecipeCache :: "jsval \<Rightarrow> writ_error + jsstring option" where
  "validateRecipeCache v =
     (if nullish v then Inr None
      else (case v of VStr m \<Rightarrow> if m \<in> set RECIPE_CACHE_MODES then Inr (Some m) else Inl badRequest | _ \<Rightarrow> Inl badRequest))"

definition validateDiscoveryTimeout :: "jsval \<Rightarrow> int \<Rightarrow> writ_error + int" where
  "validateDiscoveryTimeout timeoutMs fallback =
     (case timeoutMs of
        VUndef \<Rightarrow> Inr fallback
      | VNum n \<Rightarrow> if is_finite n \<and> num_ge_int n 0 then Inr (num_round n) else Inl badRequest
      | _ \<Rightarrow> Inl badRequest)"

definition timeout_option :: "jsval \<Rightarrow> writ_error + int option" where
  "timeout_option v =
     (case v of
        VUndef \<Rightarrow> Inr None
      | VNum n \<Rightarrow> if is_finite n \<and> \<not> num_le_int n 0 then Inr (Some (clampTimeout n)) else Inl badRequest
      | _ \<Rightarrow> Inl badRequest)"

definition token_option :: "token_arg \<Rightarrow> writ_error + run_token option" where
  "token_option a =
     (case a of
        TokenSource f \<Rightarrow> Inr (Some (TokenFrom f))
      | TokenValue v \<Rightarrow> if nullish v then Inr None else map_sum id (Some \<circ> GivenToken) (checkGivenRunToken v))"

definition validateCallOptions :: "options_arg \<Rightarrow> writ_error + clean_options" where
  "validateCallOptions options =
     (case options of
        NoOptions \<Rightarrow> Inr \<lparr>co_signal = None, co_timeoutMs = None, co_dryRun = None, co_challenge = None, co_token = None, co_recipeCache = None\<rparr>
      | NotAnObject \<Rightarrow> Inl badRequest
      | Options r \<Rightarrow>
          res_bind (guard (ro_signal r \<noteq> NotASignal) badRequest) (\<lambda>_.
          res_bind (timeout_option (ro_timeoutMs r)) (\<lambda>clamped.
          res_bind (guard (ro_dryRun r = VUndef \<or> bool_of (ro_dryRun r) \<noteq> None) badRequest) (\<lambda>_.
          res_bind (token_option (ro_token r)) (\<lambda>cleanToken.
          res_bind (validateChallenge (ro_challenge r)) (\<lambda>challenge.
          res_bind (validateRecipeCache (ro_recipeCache r)) (\<lambda>recipeCache.
            Inr \<lparr>co_signal = (case ro_signal r of Signal aborted \<Rightarrow> Some aborted | _ \<Rightarrow> None), co_timeoutMs = clamped,
                 co_dryRun = bool_of (ro_dryRun r), co_challenge = challenge, co_token = cleanToken, co_recipeCache = recipeCache\<rparr>)))))))"

subsection \<open>Inputs\<close>

definition forbidden_name :: "jsstring \<Rightarrow> bool" where
  "forbidden_name name \<longleftrightarrow>
     name \<in> set RESERVED_INPUT_NAMES \<or> list_ex (\<lambda>p. take (length p) (js_lower name) = p) FORBIDDEN_INPUT_PREFIXES"

definition sanitizeInputs :: "jsval \<Rightarrow> writ_error + fields option" where
  "sanitizeInputs inputs =
     (if inputs = VUndef then Inr None
      else
        res_bind (guard (isPlainObject inputs) input_invalid) (\<lambda>_.
        res_bind (guard (\<not> list_ex forbidden_name (case inputs of VObj fs \<Rightarrow> own_keys fs | _ \<Rightarrow> [])) input_invalid) (\<lambda>_.
        res_bind (map_sum (\<lambda>_. input_invalid) id (cloneJsonValue inputs [] MAX_INPUT_DEPTH)) (\<lambda>copy.
        res_bind (guard (utf8Length (json_text copy) \<le> MAX_INPUT_BYTES) input_invalid) (\<lambda>_.
          Inr (obj_of copy))))))"

subsection \<open>Linked workflows\<close>

datatype linked_access = LinkedPublic | LinkedToken

datatype source_arg = NoSource | Source nat | OtherSource

text \<open>\<open>{ getRunToken?, recipeCache? }\<close>; and the key and the access mode, when its package is linked, of each
  validated function request.\<close>

record linked_options =
  lo_getRunToken :: source_arg
  lo_recipeCache :: jsval

type_synonym requested = "(jsstring \<times> linked_access option) list"

record linked_config =
  lc_access :: "jsstring \<rightharpoonup> linked_access"
  lc_getRunToken :: "nat option"
  lc_recipeCache :: jsstring

definition validateLinkedOptions :: "linked_options \<Rightarrow> writ_error + nat option \<times> jsstring option" where
  "validateLinkedOptions options =
     res_bind (guard (lo_getRunToken options \<noteq> OtherSource) badRequest) (\<lambda>_.
     res_bind (validateRecipeCache (lo_recipeCache options)) (\<lambda>recipeCache.
       Inr (case lo_getRunToken options of Source f \<Rightarrow> Some f | _ \<Rightarrow> None, recipeCache)))"

definition linkedAccessOfRequests :: "requested \<Rightarrow> (jsstring \<times> linked_access) list" where
  "linkedAccessOfRequests functions = concat (map (\<lambda>(key, access). case access of Some a \<Rightarrow> [(key, a)] | None \<Rightarrow> []) functions)"

definition requireRunTokens :: "(jsstring \<times> linked_access) list \<Rightarrow> bool \<Rightarrow> writ_error + unit" where
  "requireRunTokens access hasSource = guard (hasSource \<or> \<not> list_ex (\<lambda>(key, mode). mode = LinkedToken) access) badRequest"

definition linkedSessionConfig :: "linked_options \<Rightarrow> requested \<Rightarrow> writ_error + linked_config" where
  "linkedSessionConfig options functions =
     res_bind (validateLinkedOptions options) (\<lambda>(source, recipeCache).
     let access = linkedAccessOfRequests functions in
     res_bind (requireRunTokens access (source \<noteq> None)) (\<lambda>_.
       Inr \<lparr>lc_access = map_of access, lc_getRunToken = source,
            lc_recipeCache = (case recipeCache of Some m \<Rightarrow> m | None \<Rightarrow> js ''session'')\<rparr>))"

subsection \<open>What a call sends\<close>

text \<open>\<open>session.call\<close> up to the new call: its parameters, and the source of its run token when it needs one.\<close>

definition run_token_of :: "linked_config \<Rightarrow> jsstring \<Rightarrow> run_token option \<Rightarrow> writ_error + (jsstring option \<times> nat option)" where
  "run_token_of cfg key given =
     (case given of
        Some (GivenToken t) \<Rightarrow> Inr (Some t, None)
      | Some (TokenFrom f) \<Rightarrow> Inr (None, Some f)
      | None \<Rightarrow>
          if lc_access cfg key = Some LinkedToken
          then (case lc_getRunToken cfg of None \<Rightarrow> Inl badRequest | Some f \<Rightarrow> Inr (None, Some f))
          else Inr (None, None))"

definition optional_field :: "string \<Rightarrow> jsval option \<Rightarrow> fields" where
  "optional_field name v = (case v of None \<Rightarrow> [] | Some x \<Rightarrow> [(js name, x)])"

definition built_params :: "linked_config \<Rightarrow> jsstring \<Rightarrow> clean_options \<Rightarrow> fields option \<Rightarrow> jsstring option \<Rightarrow> fields" where
  "built_params cfg key opts inputs token =
     [(js ''key'', VStr key)] @ optional_field ''inputs'' (map_option VObj inputs)
     @ optional_field ''timeout_ms'' (map_option (VNum \<circ> int_num) (co_timeoutMs opts))
     @ optional_field ''dry_run'' (map_option VBool (co_dryRun opts))
     @ optional_field ''challenge'' (map_option VStr (co_challenge opts))
     @ optional_field ''recipe_cache'' (map_option VStr
         (case co_recipeCache opts of Some m \<Rightarrow> Some m
          | None \<Rightarrow> if lc_access cfg key = None then None else Some (lc_recipeCache cfg)))
     @ optional_field ''token'' (map_option VStr token)"

definition prepare_call :: "linked_config \<Rightarrow> bool \<Rightarrow> jsval \<Rightarrow> jsval \<Rightarrow> options_arg \<Rightarrow> writ_error + call_init \<times> nat option" where
  "prepare_call cfg disconnected key inputs options =
     res_bind (validateFunctionKey key) (\<lambda>validKey.
     res_bind (validateCallOptions options) (\<lambda>opts.
     res_bind (sanitizeInputs inputs) (\<lambda>clean.
     res_bind (guard (\<not> disconnected) \<lparr>we_code = js ''NOT_GRANTED'', we_details = None\<rparr>) (\<lambda>_.
     res_bind (run_token_of cfg validKey (co_token opts)) (\<lambda>(token, source).
       Inr (\<lparr>ci_params = Some (built_params cfg validKey opts clean token), ci_error = None, ci_runToken = source \<noteq> None,
             ci_timeoutMs = co_timeoutMs opts, ci_signal = co_signal opts\<rparr>, source))))))"

definition session_init :: "linked_config \<Rightarrow> bool \<Rightarrow> jsval \<Rightarrow> jsval \<Rightarrow> options_arg \<Rightarrow> call_init" where
  "session_init cfg disconnected key inputs options =
     (case prepare_call cfg disconnected key inputs options of
        Inr (init, source) \<Rightarrow> init
      | Inl e \<Rightarrow> \<lparr>ci_params = None, ci_error = Some e, ci_runToken = False, ci_timeoutMs = None, ci_signal = None\<rparr>)"

subsection \<open>Grants\<close>

record granted_input =
  gi_name :: jsstring
  gi_required :: bool
  gi_description :: "jsstring option"

record granted_function =
  gf_key :: jsstring
  gf_description :: jsstring
  gf_inputs :: "granted_input list"
  gf_outputs :: "jsstring list"
  gf_writes :: bool
  gf_local_network :: bool
  gf_package :: "(jsstring \<times> jsstring option) option option"

definition parseGrantedPackage :: "jsval \<Rightarrow> (jsstring \<times> jsstring option) option option" where
  "parseGrantedPackage raw =
     (case raw of
        VNull \<Rightarrow> Some None
      | VObj r \<Rightarrow>
          (case jget r (js ''id'') of
             VStr i \<Rightarrow> if i = [] then None else Some (Some (i, str_of (jget r (js ''version''))))
           | _ \<Rightarrow> None)
      | _ \<Rightarrow> None)"

definition parse_granted_input :: "jsval \<Rightarrow> granted_input option" where
  "parse_granted_input entry =
     (case entry of
        VObj r \<Rightarrow>
          (case jget r (js ''name'') of
             VStr name \<Rightarrow>
               if name = [] then None
               else Some \<lparr>gi_name = name, gi_required = (jget r (js ''required'') = VBool True),
                      gi_description = str_of (jget r (js ''description''))\<rparr>
           | _ \<Rightarrow> None)
      | _ \<Rightarrow> None)"

definition parseGrantedFunction :: "jsval \<Rightarrow> granted_function option" where
  "parseGrantedFunction raw =
     (case raw of
        VObj r \<Rightarrow>
          (case jget r (js ''key'') of
             VStr key \<Rightarrow>
               if key = [] then None
               else Some \<lparr>gf_key = key,
                 gf_description = (case jget r (js ''description'') of VStr d \<Rightarrow> d | _ \<Rightarrow> []),
                 gf_inputs = (case jget r (js ''inputs'') of VArr xs \<Rightarrow> List.map_filter parse_granted_input xs | _ \<Rightarrow> []),
                 gf_outputs = (case jget r (js ''outputs'') of VArr xs \<Rightarrow> List.map_filter str_of xs | _ \<Rightarrow> []),
                 gf_writes = (jget r (js ''writes'') = VBool True),
                 gf_local_network = (jget r (js ''local_network'') = VBool True),
                 gf_package = parseGrantedPackage (jget r (js ''package''))\<rparr>
           | _ \<Rightarrow> None)
      | _ \<Rightarrow> None)"

definition parseGrantSet :: "jsval \<Rightarrow> writ_error + jsstring \<times> granted_function list" where
  "parseGrantSet answer =
     (case answer of
        VObj r \<Rightarrow>
          (case (jget r (js ''origin''), jget r (js ''functions'')) of
             (VStr origin, VArr fns) \<Rightarrow> Inr (origin, List.map_filter parseGrantedFunction fns)
           | _ \<Rightarrow> Inl internal_error)
      | _ \<Rightarrow> Inl internal_error)"

subsection \<open>The session and its calls\<close>

text \<open>One session on its client; \<open>ss_inFlight\<close> holds the handles by the numbers of their calls.\<close>

record session =
  ss_client :: client
  ss_origin :: jsstring
  ss_functions :: "granted_function list"
  ss_disconnected :: bool
  ss_inFlight :: "nat list"

definition function_of :: "session \<Rightarrow> jsstring \<Rightarrow> granted_function option" where
  "function_of s key = find (\<lambda>fn. gf_key fn = key) (ss_functions s)"

text \<open>A change of the client: \<open>onSettle\<close> takes the calls it settles out of \<open>inFlight\<close>.\<close>

definition with_client :: "(client \<Rightarrow> client) \<Rightarrow> session \<Rightarrow> session" where
  "with_client f s =
     (let c = f (ss_client s); new = drop (length (ct_log (ss_client s))) (ct_log c) in
      s\<lparr>ss_client := c, ss_inFlight := filter (\<lambda>h. SettleTold h \<notin> set new) (ss_inFlight s)\<rparr>)"

definition session_call :: "linked_config \<Rightarrow> jsval \<Rightarrow> jsval \<Rightarrow> options_arg \<Rightarrow> thrown option \<Rightarrow> session \<Rightarrow> session" where
  "session_call cfg key inputs options on_throws s =
     (let init = session_init cfg (ss_disconnected s) key inputs options;
          h = length (ct_calls (ss_client s));
          s1 = with_client (new_call init on_throws) s
      in if ci_error init = None then s1\<lparr>ss_inFlight := ss_inFlight s1 @ [h]\<rparr> else s1)"

text \<open>\<open>disconnect()\<close>: the part before its first \<open>await\<close>, and the part after the answer.\<close>

definition disconnect :: "session \<Rightarrow> session" where
  "disconnect s =
     (let running = ss_inFlight s in
      with_client (fold cancel running) (s\<lparr>ss_disconnected := True, ss_inFlight := []\<rparr>))"

definition disconnected_now :: "session \<Rightarrow> session" where
  "disconnected_now s = s\<lparr>ss_functions := []\<rparr>"

definition refreshed :: "jsval \<Rightarrow> session \<Rightarrow> writ_error + session" where
  "refreshed answer s =
     map_sum id (\<lambda>(origin, functions). s\<lparr>ss_origin := origin, ss_functions := (if ss_disconnected s then [] else functions)\<rparr>)
       (parseGrantSet answer)"

datatype session_step =
    SessionCall jsval jsval options_arg "thrown option" | ClientStep call_step | Disconnect | DisconnectAnswered | Refreshed jsval

text \<open>The client's callbacks; new calls come through the session.\<close>

definition is_callback :: "call_step \<Rightarrow> bool" where
  "is_callback e = (case e of NewCall init x \<Rightarrow> False | _ \<Rightarrow> True)"

definition session_step :: "linked_config \<Rightarrow> session_step \<Rightarrow> session \<Rightarrow> session" where
  "session_step cfg e s =
     (case e of
        SessionCall key inputs options on_throws \<Rightarrow> session_call cfg key inputs options on_throws s
      | ClientStep c \<Rightarrow> if is_callback c then with_client (call_step c) s else s
      | Disconnect \<Rightarrow> disconnect s
      | DisconnectAnswered \<Rightarrow> if ss_disconnected s then disconnected_now s else s
      | Refreshed answer \<Rightarrow> (case refreshed answer s of Inr s' \<Rightarrow> s' | Inl e \<Rightarrow> s))"

definition new_session :: "jsstring \<Rightarrow> granted_function list \<Rightarrow> session" where
  "new_session origin functions =
     \<lparr>ss_client = new_client, ss_origin = origin, ss_functions = functions, ss_disconnected = False, ss_inFlight = []\<rparr>"

definition session_history :: "linked_config \<Rightarrow> jsstring \<Rightarrow> granted_function list \<Rightarrow> session_step list \<Rightarrow> session" where
  "session_history cfg origin functions es = fold (session_step cfg) es (new_session origin functions)"

subsection \<open>What the checks let through\<close>

lemma utf8_point_length: "length (utf8_point p) = (if p < 0x80 then 1 else if p < 0x800 then 2 else if p < 0x10000 then 3 else 4)"
  by (simp add: utf8_point_def)

lemma utf8_unit_length:
  "length (utf8_point (unat (if is_high u \<or> is_low u then REPLACEMENT else u))) = (if u < 0x80 then 1 else if u < 0x800 then 2 else 3)"
proof (cases "is_high u \<or> is_low u")
  case True
  then have "\<not> u < 0x800" by (auto simp: unat_is_high unat_is_low word_less_nat_alt)
  then have "\<not> u < 0x80" by (simp add: word_less_nat_alt)
  with \<open>\<not> u < 0x800\<close> show ?thesis using True by (simp add: utf8_point_length REPLACEMENT_def)
next
  case False
  have "unat u < 0x10000" using unat_unit_less [of u] by simp
  then show ?thesis using False by (simp add: utf8_point_length word_less_nat_alt)
qed

text \<open>The page's count of UTF-8 bytes, a loop over code units, is the length of the UTF-8 encoding.\<close>

theorem utf8Length_counts: "utf8Length s = length (utf8 s)"
proof (induction s rule: utf8.induct)
  case (2 u)
  then show ?case using utf8_unit_length [of u] by simp
next
  case (3 u v us)
  have pair: "\<not> u < 0x800 \<and> \<not> u < 0x80" if "is_high u"
    using that by (simp add: unat_is_high word_less_nat_alt)
  show ?case
  proof (cases "is_high u \<and> is_low v")
    case True
    then show ?thesis using 3 pair by (simp add: utf8_point_length code_point_def)
  next
    case False
    then show ?thesis using 3 utf8_unit_length [of u] pair by (auto simp del: utf8Length.simps simp: utf8Length.simps(2) [of u])
  qed
qed simp

end
