(* ===== verification/Visitor_Call_Changes.thy ===== *)
theory Visitor_Call_Changes
  imports Visitor_Call
begin

section \<open>What a callback changes\<close>

text \<open>
  Each callback changes one call, the router and the log; \<open>becomes\<close> states such a change up to the fields
  the invariant reads (\<open>vital\<close>).  The invariant \<open>calls_ok\<close> and the changes that keep it (\<open>changes\<close>).
\<close>

subsection \<open>Changes\<close>

definition vital where
  "vital c = (cl_status c, cl_id c, cl_settled c, cl_awaitingId c, cl_awaitingToken c, cl_timer c, cl_cancelAck c, cl_result c,
     cl_outstanding c, cl_failing c, cl_abandoned c)"

definition key_log :: "call_out list \<Rightarrow> call_out list" where
  "key_log xs = filter (\<lambda>x. case x of SettleTold _ \<Rightarrow> True | CancelRequest _ _ \<Rightarrow> True | _ \<Rightarrow> False) xs"

definition becomes :: "nat \<Rightarrow> call \<Rightarrow> router \<Rightarrow> call_out list \<Rightarrow> client \<Rightarrow> client \<Rightarrow> bool" where
  "becomes h c r xs s s' \<longleftrightarrow>
     length (ct_calls s') = length (ct_calls s) \<and> ct_router s' = r \<and> vital (call_at s' h) = vital c \<and>
     (\<forall>k. k \<noteq> h \<longrightarrow> call_at s' k = call_at s k) \<and> key_log (ct_log s') = key_log (ct_log s) @ xs"

lemma key_log_simps [simp]:
  "key_log [] = []" "key_log (xs @ ys) = key_log xs @ key_log ys"
  "key_log (SettleTold h # xs) = SettleTold h # key_log xs" "key_log (CancelRequest h i # xs) = CancelRequest h i # key_log xs"
  "key_log (Invoked h e fn x # xs) = key_log xs" "key_log (FailureTold h w # xs) = key_log xs"
  "key_log (TokenRefused h t # xs) = key_log xs" "key_log (TokenAsked h # xs) = key_log xs"
  "key_log (CallRequest h p tk # xs) = key_log xs"
  by (simp_all add: key_log_def)

lemma key_log_invoked [simp]: "key_log (map (\<lambda>fn. Invoked h e fn x) fns) = []"
  by (simp add: key_log_def filter_empty_conv)

lemma client_simps [simp]:
  "length (ct_calls (put h f s)) = length (ct_calls s)" "ct_router (put h f s) = ct_router s" "ct_log (put h f s) = ct_log s"
  "h < length (ct_calls s) \<Longrightarrow> call_at (put h f s) h = f (call_at s h)" "k \<noteq> h \<Longrightarrow> call_at (put h f s) k = call_at s k"
  "ct_calls (out xs s) = ct_calls s" "ct_router (out xs s) = ct_router s" "ct_log (out xs s) = ct_log s @ xs"
  "ct_calls (routed g s) = ct_calls s" "ct_router (routed g s) = g (ct_router s)" "ct_log (routed g s) = ct_log s"
  "call_at (out xs s) k = call_at s k" "call_at (routed g s) k = call_at s k"
  by (simp_all add: put_def out_def routed_def call_at_def)

lemma becomes_refl: "becomes h (call_at s h) (ct_router s) [] s s"
  by (simp add: becomes_def)

lemma becomes_trans:
  "becomes h c r xs s s' \<Longrightarrow> becomes h c' r' ys s' s'' \<Longrightarrow> becomes h c' r' (xs @ ys) s s''"
  by (simp add: becomes_def)

lemma becomes_put: "h < length (ct_calls s) \<Longrightarrow> vital (f (call_at s h)) = vital c \<Longrightarrow> becomes h c (ct_router s) [] s (put h f s)"
  by (simp add: becomes_def)

lemma becomes_cong: "becomes h c r xs s s' \<Longrightarrow> vital c = vital c' \<Longrightarrow> r = r' \<Longrightarrow> xs = ys \<Longrightarrow> becomes h c' r' ys s s'"
  by (simp add: becomes_def)

lemma becomes_emit: "h < length (ct_calls s) \<Longrightarrow> becomes h (call_at s h) (ct_router s) [] s (emit h e x s)"
  by (simp add: becomes_def emit_def Let_def vital_def)

lemma vital_fields:
  assumes "vital c = vital d"
  shows "cl_status c = cl_status d" "cl_id c = cl_id d" "cl_settled c = cl_settled d" "cl_awaitingId c = cl_awaitingId d"
    "cl_awaitingToken c = cl_awaitingToken d" "cl_timer c = cl_timer d" "cl_cancelAck c = cl_cancelAck d" "cl_result c = cl_result d"
    "cl_outstanding c = cl_outstanding d" "cl_failing c = cl_failing d" "cl_abandoned c = cl_abandoned d"
  using assms by (simp_all add: vital_def)

subsection \<open>What each handler does\<close>

definition failed_status :: "writ_error \<Rightarrow> call_status" where
  "failed_status e = (if we_code e = js ''CANCELLED'' then CallCancelled else CallFailed)"

definition final_status :: "writ_error + call_result \<Rightarrow> call_status" where
  "final_status res = (case res of Inl e \<Rightarrow> failed_status e | Inr r \<Rightarrow> CallFinished)"

definition settle_call :: "writ_error + call_result \<Rightarrow> call \<Rightarrow> call" where
  "settle_call res c = (clearTimerWhenDone (c\<lparr>cl_settled := True, cl_status := final_status res\<rparr>))\<lparr>cl_result := Some res\<rparr>"

definition release_of :: "call \<Rightarrow> router \<Rightarrow> router" where
  "release_of c r = (case cl_id c of None \<Rightarrow> r | Some i \<Rightarrow> rt_release i r)"

lemma becomes_cleanup:
  assumes "h < length (ct_calls s)"
  shows "becomes h (clearTimerWhenDone (call_at s h)) (release_of (call_at s h) (ct_router s)) [SettleTold h] s (cleanup h s)"
  using assms by (simp add: becomes_def cleanup_def Let_def release_of_def clearTimerWhenDone_def vital_def split: option.split)

lemma becomes_fail:
  assumes h: "h < length (ct_calls s)" and u: "\<not> cl_settled (call_at s h)"
  shows "becomes h (settle_call (Inl e) (call_at s h)) (release_of (call_at s h) (ct_router s)) [SettleTold h] s (fail h e s)"
proof -
  let ?c = "call_at s h"
  let ?c1 = "?c\<lparr>cl_settled := True, cl_status := failed_status e\<rparr>"
  define s1 where "s1 = put h (\<lambda>c. c\<lparr>cl_settled := True, cl_status := failed_status e\<rparr>) s"
  have s1: "call_at s1 h = ?c1" "h < length (ct_calls s1)" "ct_router s1 = ct_router s" "becomes h ?c1 (ct_router s) [] s s1"
    using h by (simp_all add: s1_def becomes_put)
  define s2 where "s2 = cleanup h s1"
  have s2: "becomes h (clearTimerWhenDone ?c1) (release_of ?c (ct_router s)) [SettleTold h] s1 s2"
    using becomes_cleanup [OF s1(2)] by (simp add: s2_def s1 release_of_def)
  define s3 where "s3 = (case cl_token (call_at s2 h) of
      Some t \<Rightarrow> if we_code e = js ''NOT_GRANTED'' then out [TokenRefused h t] s2 else s2 | None \<Rightarrow> s2)"
  define s5 where "s5 = put h (\<lambda>c. if cl_id c = None then c\<lparr>cl_callId := Some (Inl e)\<rparr> else c) (out [FailureTold h e] s3)"
  have l2: "h < length (ct_calls s2)" using s2 s1(2) by (simp add: becomes_def)
  have s5: "becomes h (call_at s2 h) (ct_router s2) [] s2 s5" "h < length (ct_calls s5)"
    using l2 by (auto simp: s5_def s3_def becomes_def vital_def split: option.split)
  define s6 where "s6 = emit h OnError (Errored e) s5"
  have s6: "becomes h (call_at s5 h) (ct_router s5) [] s5 s6" using becomes_emit [OF s5(2)] by (simp add: s6_def)
  have "fail h e s = put h (\<lambda>c. c\<lparr>cl_result := Some (Inl e)\<rparr>) s6"
    using u unfolding fail_def Let_def s6_def s5_def s3_def s2_def s1_def failed_status_def by simp
  moreover have "becomes h (clearTimerWhenDone ?c1) (release_of ?c (ct_router s)) [SettleTold h] s s6"
    using becomes_trans [OF s1(4) becomes_trans [OF s2 becomes_trans [OF s5(1) s6]]] s2 s5(1) s6 by (simp add: becomes_def)
  ultimately show ?thesis using h by (simp add: becomes_def settle_call_def final_status_def vital_def)
qed

lemma becomes_finish:
  assumes h: "h < length (ct_calls s)"
  shows "\<exists>res. becomes h (settle_call (Inr res) (call_at s h)) (release_of (call_at s h) (ct_router s)) [SettleTold h] s (finish h r s)"
proof -
  let ?c = "call_at s h"
  define res where "res = result_of (note_run r ?c) r"
  define s2 where "s2 = put h (\<lambda>c. c\<lparr>cl_settled := True, cl_status := CallFinished\<rparr>) (put h (note_run r) s)"
  have s2: "call_at s2 h = (note_run r ?c)\<lparr>cl_settled := True, cl_status := CallFinished\<rparr>" "h < length (ct_calls s2)" "ct_router s2 = ct_router s"
    using h by (simp_all add: s2_def)
  have v: "vital (note_run r ?c) = vital ?c" "cl_id (note_run r ?c) = cl_id ?c" by (simp_all add: note_run_def vital_def split: option.split)
  have b2: "becomes h (?c\<lparr>cl_settled := True, cl_status := CallFinished\<rparr>) (ct_router s) [] s s2"
    using h v by (simp add: s2_def becomes_def vital_def)
  define s3 where "s3 = cleanup h s2"
  have b3: "becomes h (clearTimerWhenDone (call_at s2 h)) (release_of ?c (ct_router s)) [SettleTold h] s2 s3"
    using becomes_cleanup [OF s2(2)] s2 v by (simp add: s3_def release_of_def)
  have l3: "h < length (ct_calls s3)" using b3 s2(2) by (simp add: becomes_def)
  define s4 where "s4 = emit h OnFinished (Finished res) s3"
  have b4: "becomes h (call_at s3 h) (ct_router s3) [] s3 s4" using becomes_emit [OF l3] by (simp add: s4_def)
  have e: "finish h r s = put h (\<lambda>c. c\<lparr>cl_result := Some (Inr res)\<rparr>) s4"
    using h unfolding finish_def Let_def s4_def s3_def s2_def res_def by simp
  have "vital (clearTimerWhenDone (call_at s2 h)) = vital (clearTimerWhenDone (?c\<lparr>cl_settled := True, cl_status := CallFinished\<rparr>))"
    using v unfolding s2(1) by (simp add: clearTimerWhenDone_def vital_def)
  then have "becomes h (clearTimerWhenDone (?c\<lparr>cl_settled := True, cl_status := CallFinished\<rparr>)) (release_of ?c (ct_router s)) [SettleTold h] s s4"
    using becomes_trans [OF b2 becomes_trans [OF b3 b4]] b3 b4 by (simp add: becomes_def)
  then have "becomes h (settle_call (Inr res) ?c) (release_of ?c (ct_router s)) [SettleTold h] s (finish h r s)"
    using h unfolding e by (simp add: becomes_def settle_call_def final_status_def vital_def)
  then show ?thesis by blast
qed

definition heard :: "nat \<Rightarrow> client \<Rightarrow> client \<Rightarrow> bool" where
  "heard h s s' \<longleftrightarrow>
     (\<exists>st. (st = cl_status (call_at s h) \<or> st = CallRunning) \<and> becomes h ((call_at s h)\<lparr>cl_status := st\<rparr>) (ct_router s) [] s s') \<or>
     (\<exists>res. becomes h (settle_call res (call_at s h)) (release_of (call_at s h) (ct_router s)) [SettleTold h] s s')"

lemma becomes_len: "becomes h c r xs s s' \<Longrightarrow> length (ct_calls s') = length (ct_calls s)"
  by (simp add: becomes_def)

lemma becomes_emit_after:
  assumes "becomes h c r xs s s'" "h < length (ct_calls s)"
  shows "becomes h c r xs s (emit h e x s')"
  using becomes_trans [OF assms(1) becomes_emit] assms by (auto simp: becomes_def)

lemma vital_note_run: "vital (note_run r c) = vital c"
  by (simp add: note_run_def vital_def split: option.split)

lemma heard_quiet:
  "becomes h (call_at s h) (ct_router s) [] s s' \<Longrightarrow> heard h s s'"
  unfolding heard_def by (intro disjI1 exI [of _ "cl_status (call_at s h)"]) simp

lemma heard_running:
  "becomes h ((call_at s h)\<lparr>cl_status := CallRunning\<rparr>) (ct_router s) [] s s' \<Longrightarrow> heard h s s'"
  unfolding heard_def by blast

lemma onEvent_heard:
  assumes h: "h < length (ct_calls s)" and u: "\<not> cl_settled (call_at s h)"
  shows "heard h s (onEvent h ev s)"
proof -
  let ?c = "call_at s h" and ?r = "ce_fields ev"
  define s1 where "s1 = put h (\<lambda>c. (note_run ?r c)\<lparr>cl_status := CallRunning\<rparr>) s"
  define s2 where "s2 = put h (\<lambda>c. if cl_status c = CallPending then c\<lparr>cl_status := CallRunning\<rparr> else c) s"
  have "vital ((note_run ?r ?c)\<lparr>cl_status := CallRunning\<rparr>) = vital (?c\<lparr>cl_status := CallRunning\<rparr>)"
    using vital_note_run [of ?r ?c] by (simp add: vital_def)
  then have b1: "becomes h (?c\<lparr>cl_status := CallRunning\<rparr>) (ct_router s) [] s s1"
    using h by (simp add: s1_def becomes_put)
  have h2: "heard h s s2" "heard h s (emit h e x s2)" for e x
  proof -
    have b: "becomes h (?c\<lparr>cl_status := if cl_status ?c = CallPending then CallRunning else cl_status ?c\<rparr>) (ct_router s) [] s s2"
      using h unfolding s2_def by (intro becomes_put) (simp_all add: vital_def)
    show "heard h s s2" unfolding heard_def by (rule disjI1, rule exI, rule conjI [OF _ b]) simp
    show "heard h s (emit h e x s2)" unfolding heard_def by (rule disjI1, rule exI, rule conjI [OF _ becomes_emit_after [OF b h]]) simp
  qed
  have "heard h s (fail h e s)" for e
    using becomes_fail [OF h u] unfolding heard_def by blast
  moreover have "heard h s (finish h r s)" for r
    using becomes_finish [OF h] unfolding heard_def by blast
  ultimately show ?thesis
    using u heard_running [OF b1] heard_running [OF becomes_emit_after [OF b1 h]] h2
      heard_quiet [OF becomes_refl] heard_quiet [OF becomes_emit [OF h]]
    by (simp add: onEvent_def Let_def s1_def [symmetric] s2_def [symmetric] split: option.split jsval.split)
qed

lemma settle_call_status: "settle_call res (c\<lparr>cl_status := st\<rparr>) = settle_call res c"
  by (simp add: settle_call_def clearTimerWhenDone_def)

lemma vital_settle: "vital c = vital d \<Longrightarrow> vital (settle_call res c) = vital (settle_call res d)"
  by (simp add: settle_call_def clearTimerWhenDone_def vital_def)

lemma heard_trans:
  assumes q: "becomes h ((call_at s h)\<lparr>cl_status := st\<rparr>) (ct_router s) [] s s'"
    and st: "st = cl_status (call_at s h) \<or> st = CallRunning" and later: "heard h s' s''"
  shows "heard h s s''"
proof -
  have v: "vital (call_at s' h) = vital ((call_at s h)\<lparr>cl_status := st\<rparr>)" and r: "ct_router s' = ct_router s"
    using q by (simp_all add: becomes_def)
  have f: "cl_status (call_at s' h) = st" "cl_id (call_at s' h) = cl_id (call_at s h)"
    using vital_fields [OF v] by simp_all
  from later consider
      (quiet) st' where "st' = st \<or> st' = CallRunning" "becomes h ((call_at s' h)\<lparr>cl_status := st'\<rparr>) (ct_router s) [] s' s''"
    | (settled) res where "becomes h (settle_call res (call_at s' h)) (release_of (call_at s h) (ct_router s)) [SettleTold h] s' s''"
    unfolding heard_def r f(1) release_of_def f(2) by blast
  then show ?thesis
  proof cases
    case quiet
    have w: "vital ((call_at s' h)\<lparr>cl_status := st'\<rparr>) = vital ((call_at s h)\<lparr>cl_status := st'\<rparr>)"
      using v by (simp add: vital_def)
    have "becomes h ((call_at s h)\<lparr>cl_status := st'\<rparr>) (ct_router s) [] s s''"
      using becomes_cong [OF becomes_trans [OF q quiet(2)] w] by simp
    then show ?thesis using quiet(1) st unfolding heard_def by blast
  next
    case settled
    have w: "vital (settle_call res (call_at s' h)) = vital (settle_call res (call_at s h))"
      using vital_settle [OF v] by (simp add: settle_call_status)
    have "becomes h (settle_call res (call_at s h)) (release_of (call_at s h) (ct_router s)) [SettleTold h] s s''"
      using becomes_cong [OF becomes_trans [OF q settled] w] by simp
    then show ?thesis unfolding heard_def by blast
  qed
qed

lemma maybeDetach_simps [simp]:
  "rt_routes (maybeDetach r) = rt_routes r" "rt_expecting (maybeDetach r) = rt_expecting r"
  by (simp_all add: maybeDetach_def)

lemma router_step_simps [simp]:
  "rt_routes (rt_release i r) = AList.delete i (rt_routes r)" "rt_expecting (rt_release i r) = rt_expecting r"
  "rt_routes (rt_unexpect r) = rt_routes r" "rt_expecting (rt_unexpect r) = rt_expecting r - 1"
  "rt_routes (rt_expect r) = rt_routes r" "rt_expecting (rt_expect r) = rt_expecting r + 1"
  "rt_routes (rt_hold t ev r) = rt_routes r" "rt_expecting (rt_hold t ev r) = rt_expecting r"
  by (simp_all add: rt_release_def rt_unexpect_def rt_expect_def rt_hold_def Let_def)

lemma replay_held_unrouted:
  "map_of (rt_routes (ct_router s)) i = None \<Longrightarrow> replay_held h i evs s = s"
  by (cases evs) auto

lemma replay_held_heard:
  assumes "h < length (ct_calls s)" "\<not> cl_settled (call_at s h)" "cl_id (call_at s h) = Some i"
  shows "heard h s (replay_held h i evs s)"
  using assms
proof (induction evs arbitrary: s)
  case Nil
  then show ?case by (simp add: heard_quiet [OF becomes_refl])
next
  case (Cons ev evs)
  show ?case
  proof (cases "map_of (rt_routes (ct_router s)) i = Some h")
    case False
    then show ?thesis by (simp add: heard_quiet [OF becomes_refl])
  next
    case True
    let ?s = "onEvent h ev s"
    from onEvent_heard [OF Cons.prems(1,2)] consider
        (quiet) st where "st = cl_status (call_at s h) \<or> st = CallRunning"
          "becomes h ((call_at s h)\<lparr>cl_status := st\<rparr>) (ct_router s) [] s ?s"
      | (settled) res where "becomes h (settle_call res (call_at s h)) (release_of (call_at s h) (ct_router s)) [SettleTold h] s ?s"
      unfolding heard_def by blast
    then show ?thesis
    proof cases
      case quiet
      have f: "cl_settled (call_at ?s h) = cl_settled (call_at s h)" "cl_id (call_at ?s h) = cl_id (call_at s h)"
        using quiet(2) vital_fields [of "call_at ?s h" "(call_at s h)\<lparr>cl_status := st\<rparr>"] by (simp_all add: becomes_def)
      have "heard h ?s (replay_held h i evs ?s)"
        using Cons.IH [of ?s] Cons.prems f becomes_len [OF quiet(2)] by simp
      then show ?thesis using heard_trans [OF quiet(2,1)] True by simp
    next
      case settled
      have "ct_router ?s = rt_release i (ct_router s)"
        using settled Cons.prems(3) by (simp add: becomes_def release_of_def)
      then have "replay_held h i evs ?s = ?s"
        by (intro replay_held_unrouted) (simp add: delete_conv')
      then show ?thesis using settled True unfolding heard_def by auto
    qed
  qed
qed

subsection \<open>The router\<close>

definition rt_weak :: "router \<Rightarrow> bool" where
  "rt_weak r \<longleftrightarrow>
     (rt_expecting r > 0 \<or> rt_routes r \<noteq> [] \<longrightarrow> rt_attached r) \<and> (\<not> rt_attached r \<longrightarrow> rt_held r = []) \<and>
     length (rt_held r) \<le> MAX_HELD_CALLS \<and>
     list_all (\<lambda>(i, since, evs). length evs \<le> MAX_HELD_EVENTS_PER_CALL) (rt_held r)"

text \<open>Listening exactly while a call is in flight, and holding a bounded number of events.\<close>

definition rt_ok :: "router \<Rightarrow> bool" where
  "rt_ok r \<longleftrightarrow> rt_weak r \<and> (rt_attached r \<longrightarrow> rt_expecting r > 0 \<or> rt_routes r \<noteq> [])"

lemma rt_okD: "rt_ok r \<Longrightarrow> rt_weak r"
  by (simp add: rt_ok_def)

lemma rt_ok_maybeDetach: "rt_weak r \<Longrightarrow> rt_ok (maybeDetach r)"
  by (auto simp: rt_ok_def rt_weak_def maybeDetach_def)

lemma rt_ok_expect: "rt_weak r \<Longrightarrow> rt_ok (rt_expect r)"
  by (auto simp: rt_ok_def rt_weak_def rt_expect_def)

lemma rt_ok_unexpect: "rt_weak r \<Longrightarrow> rt_ok (rt_unexpect r)"
  unfolding rt_unexpect_def by (rule rt_ok_maybeDetach) (auto simp: rt_weak_def)

lemma rt_ok_release: "rt_weak r \<Longrightarrow> rt_ok (rt_release i r)"
  unfolding rt_release_def
  by (rule rt_ok_maybeDetach) (auto simp: rt_weak_def AList.delete_eq list_all_iff intro: order_trans [OF length_filter_le])

lemma rt_ok_hold:
  assumes "rt_ok r" "rt_expecting r > 0"
  shows "rt_ok (rt_hold t ev r)"
proof -
  let ?i = "ce_call_id ev"
  define young where "young = filter (\<lambda>(i, since, evs). \<not> t - since > HOLD_MS) (rt_held r)"
  define held where "held = (if map_of young ?i = None
    then drop (Suc (length young) - MAX_HELD_CALLS) young @ [(?i, t, [])] else young)"
  define new where "new = map (\<lambda>(k, since, evs). (k, since,
    if k = ?i \<and> length evs < MAX_HELD_EVENTS_PER_CALL then evs @ [ev] else evs)) held"
  have r: "rt_hold t ev r = r\<lparr>rt_held := new\<rparr>"
    unfolding rt_hold_def Let_def new_def held_def young_def ..
  let ?few = "list_all (\<lambda>(i, since, evs). length evs \<le> MAX_HELD_EVENTS_PER_CALL)"
  have w: "length (rt_held r) \<le> MAX_HELD_CALLS" "?few (rt_held r)"
    using assms by (simp_all add: rt_ok_def rt_weak_def)
  have y: "length young \<le> MAX_HELD_CALLS" "?few young"
    using w order_trans [OF length_filter_le] by (auto simp: young_def list_all_iff)
  have "length held \<le> MAX_HELD_CALLS"
    using y(1) by (auto simp: held_def MAX_HELD_CALLS_def)
  moreover have "?few held"
    using y(2) by (auto simp: held_def list_all_iff dest!: in_set_dropD)
  ultimately have "length new \<le> MAX_HELD_CALLS" "?few new"
    by (auto simp: new_def list_all_iff)
  then show ?thesis using assms unfolding r by (simp add: rt_ok_def rt_weak_def)
qed

lemma rt_weak_route: "rt_weak r \<Longrightarrow> rt_attached r \<Longrightarrow> rt_weak (r\<lparr>rt_routes := AList.update i h (rt_routes r)\<rparr>)"
  by (simp add: rt_weak_def)

lemma rt_weak_unhold: "rt_weak r \<Longrightarrow> rt_weak (r\<lparr>rt_held := AList.delete i (rt_held r)\<rparr>)"
  by (auto simp: rt_weak_def AList.delete_eq list_all_iff intro: order_trans [OF length_filter_le])

subsection \<open>The invariant\<close>

definition told :: "nat \<Rightarrow> call_out list \<Rightarrow> nat" where
  "told h xs = length (filter (\<lambda>x. x = SettleTold h) xs)"

definition cancels :: "nat \<Rightarrow> call_out list \<Rightarrow> jsstring list" where
  "cancels h xs = concat (map (\<lambda>x. case x of CancelRequest k i \<Rightarrow> if k = h then [i] else [] | _ \<Rightarrow> []) xs)"

definition names_only :: "(nat \<Rightarrow> bool) \<Rightarrow> call_out list \<Rightarrow> bool" where
  "names_only P xs = list_all (\<lambda>x. case x of SettleTold k \<Rightarrow> P k | CancelRequest k i \<Rightarrow> P k | _ \<Rightarrow> True) xs"

lemma log_simps [simp]:
  "told h [] = 0" "told h (xs @ ys) = told h xs + told h ys" "told h (SettleTold k # xs) = of_bool (k = h) + told h xs"
  "told h (CancelRequest k i # xs) = told h xs"
  "cancels h [] = []" "cancels h (xs @ ys) = cancels h xs @ cancels h ys" "cancels h (SettleTold k # xs) = cancels h xs"
  "cancels h (CancelRequest k i # xs) = (if k = h then [i] else []) @ cancels h xs"
  "names_only P []" "names_only P (xs @ ys) \<longleftrightarrow> names_only P xs \<and> names_only P ys"
  "names_only P (SettleTold k # xs) \<longleftrightarrow> P k \<and> names_only P xs" "names_only P (CancelRequest k i # xs) \<longleftrightarrow> P k \<and> names_only P xs"
  by (simp_all add: told_def cancels_def names_only_def)

lemma names_other:
  "names_only P xs \<Longrightarrow> \<not> P k \<Longrightarrow> told k xs = 0 \<and> cancels k xs = []"
  by (induction xs) (auto simp: told_def cancels_def names_only_def split: call_out.splits)

lemma names_weaken: "names_only P xs \<Longrightarrow> (\<And>k. P k \<Longrightarrow> Q k) \<Longrightarrow> names_only Q xs"
  unfolding names_only_def by (erule list.pred_mono_strong) (auto split: call_out.splits)

lemma log_key [simp]: "told h (key_log xs) = told h xs" "cancels h (key_log xs) = cancels h xs"
proof (induction xs)
  case (Cons x xs)
  { case 1 then show ?case using Cons by (cases x) (simp_all add: told_def key_log_def) }
  { case 2 then show ?case using Cons by (cases x) (simp_all add: cancels_def key_log_def) }
qed simp_all

definition call_ok :: "nat \<Rightarrow> call_out list \<Rightarrow> call \<Rightarrow> bool" where
  "call_ok h xs c \<longleftrightarrow>
     (cl_settled c \<longleftrightarrow> cl_result c \<noteq> None) \<and>
     (case cl_result c of None \<Rightarrow> cl_status c = CallPending \<or> cl_status c = CallRunning | Some res \<Rightarrow> cl_status c = final_status res) \<and>
     (cl_timer c \<longrightarrow> \<not> cl_settled c \<or> cl_awaitingId c) \<and> (\<not> cl_settled c \<longrightarrow> cl_timer c \<or> cl_failing c \<noteq> None) \<and>
     (cl_awaitingId c \<longrightarrow> cl_outstanding c \<and> cl_timer c) \<and>
     (cl_outstanding c \<or> cl_awaitingToken c \<longrightarrow> cl_cancelAck c = None \<and> cl_id c = None) \<and>
     \<not> (cl_outstanding c \<and> cl_awaitingToken c) \<and> (\<not> cl_settled c \<longrightarrow> cl_cancelAck c = None) \<and>
     (cl_abandoned c \<longrightarrow> cl_settled c \<and> (cl_id c \<noteq> None \<longrightarrow> cl_cancelAck c = cl_id c)) \<and>
     told h xs = of_bool (cl_settled c) \<and> cancels h xs = (case cl_cancelAck c of None \<Rightarrow> [] | Some i \<Rightarrow> [i]) \<and>
     (cl_outstanding c \<and> \<not> cl_settled c \<longrightarrow> cl_awaitingId c)"

definition awaiting :: "client \<Rightarrow> nat" where
  "awaiting s = length (filter cl_awaitingId (ct_calls s))"

text \<open>All of it but \<open>call_ok\<close> of the call in hand; and of that one too.\<close>

definition inv_but :: "nat \<Rightarrow> client \<Rightarrow> bool" where
  "inv_but h s \<longleftrightarrow>
     rt_ok (ct_router s) \<and> rt_expecting (ct_router s) = awaiting s \<and>
     (\<forall>i k. map_of (rt_routes (ct_router s)) i = Some k \<longrightarrow>
        k < length (ct_calls s) \<and> cl_id (call_at s k) = Some i \<and> \<not> cl_settled (call_at s k)) \<and>
     (\<forall>k < length (ct_calls s). k \<noteq> h \<longrightarrow> call_ok k (ct_log s) (call_at s k)) \<and>
     names_only (\<lambda>k. k < length (ct_calls s)) (ct_log s)"

definition calls_ok :: "client \<Rightarrow> bool" where
  "calls_ok s \<longleftrightarrow> (\<forall>h. inv_but h s)"

definition kept :: "client \<Rightarrow> client \<Rightarrow> bool" where
  "kept s s' \<longleftrightarrow> length (ct_calls s) \<le> length (ct_calls s') \<and>
     (\<forall>k < length (ct_calls s).
        (cl_settled (call_at s k) \<longrightarrow> cl_settled (call_at s' k) \<and> cl_result (call_at s' k) = cl_result (call_at s k)) \<and>
        (cl_timer (call_at s k) \<longrightarrow> cl_timer (call_at s' k) \<or> cl_settled (call_at s' k)))"

text \<open>A change of one call that keeps the invariant.\<close>

definition sound :: "nat \<Rightarrow> client \<Rightarrow> call \<Rightarrow> router \<Rightarrow> call_out list \<Rightarrow> bool" where
  "sound h s c r xs \<longleftrightarrow>
     call_ok h (ct_log s @ xs) c \<and> names_only (\<lambda>k. k = h) xs \<and> rt_ok r \<and>
     rt_expecting r + of_bool (cl_awaitingId (call_at s h)) = rt_expecting (ct_router s) + of_bool (cl_awaitingId c) \<and>
     (\<forall>i k. map_of (rt_routes r) i = Some k \<longrightarrow>
        (if k = h then cl_id c = Some i \<and> \<not> cl_settled c else map_of (rt_routes (ct_router s)) i = Some k)) \<and>
     (cl_settled (call_at s h) \<longrightarrow> cl_settled c \<and> cl_result c = cl_result (call_at s h)) \<and>
     (cl_timer (call_at s h) \<longrightarrow> cl_timer c \<or> cl_settled c)"

definition changes :: "nat \<Rightarrow> client \<Rightarrow> client \<Rightarrow> bool" where
  "changes h s s' \<longleftrightarrow> (\<exists>c r xs. becomes h c r xs s s' \<and> sound h s c r xs)"

lemma length_filter_update:
  "h < length xs \<Longrightarrow> length (filter P (xs[h := y])) + of_bool (P (xs ! h)) = length (filter P xs) + of_bool (P y)"
proof (induction xs arbitrary: h)
  case (Cons x xs)
  then show ?case by (cases h) auto
qed simp

lemma call_ok_log:
  assumes "told h ys = told h xs" "cancels h ys = cancels h xs" "call_ok h xs c"
  shows "call_ok h ys c"
  using assms(3) unfolding call_ok_def assms(1,2) .

lemma call_ok_vital:
  assumes "vital d = vital c" "call_ok h xs c"
  shows "call_ok h xs d"
  using assms(2) unfolding call_ok_def vital_fields [OF assms(1)] .

lemma same_key_log:
  assumes "key_log ys = key_log xs @ zs"
  shows "told h ys = told h (xs @ zs)" "cancels h ys = cancels h (xs @ zs)"
  using arg_cong [OF assms, of "told h"] arg_cong [OF assms, of "cancels h"] by simp_all

lemma names_key [simp]: "names_only P (key_log xs) = names_only P xs"
  by (induction xs) (auto simp: names_only_def key_log_def split: call_out.splits)

lemma becomes_awaiting:
  assumes "becomes h c r xs s s'" "h < length (ct_calls s)"
  shows "awaiting s' + of_bool (cl_awaitingId (call_at s h)) = awaiting s + of_bool (cl_awaitingId c)"
proof -
  have "ct_calls s' = (ct_calls s)[h := call_at s' h]"
    using assms by (intro nth_equalityI) (auto simp: becomes_def call_at_def nth_list_update)
  moreover have "cl_awaitingId (call_at s' h) = cl_awaitingId c"
    using assms(1) vital_fields(4) [of "call_at s' h" c] by (simp add: becomes_def)
  ultimately show ?thesis
    using length_filter_update [OF assms(2), of cl_awaitingId "call_at s' h"] by (simp add: awaiting_def call_at_def)
qed

lemma changes_inv:
  assumes i: "inv_but h s" and h: "h < length (ct_calls s)" and c: "changes h s s'"
  shows "calls_ok s'" and "kept s s'"
proof -
  obtain c r xs where b: "becomes h c r xs s s'" and d: "sound h s c r xs" using c unfolding changes_def by blast
  have l: "length (ct_calls s') = length (ct_calls s)" and r: "ct_router s' = r" and v: "vital (call_at s' h) = vital c"
    and o: "\<And>k. k \<noteq> h \<Longrightarrow> call_at s' k = call_at s k" and k: "key_log (ct_log s') = key_log (ct_log s) @ xs"
    using b by (simp_all add: becomes_def)
  note vf = vital_fields [OF v]
  have n: "names_only (\<lambda>k. k = h) xs" using d by (simp add: sound_def)
  have ok: "call_ok j (ct_log s') (call_at s' j)" if "j < length (ct_calls s')" for j
  proof (cases "j = h")
    case True
    have "call_ok h (ct_log s') c"
      by (rule call_ok_log [OF same_key_log [OF k]]) (use d in \<open>simp add: sound_def\<close>)
    then show ?thesis using call_ok_vital [OF v] True by simp
  next
    case False
    have "told j (ct_log s') = told j (ct_log s)" "cancels j (ct_log s') = cancels j (ct_log s)"
      using same_key_log [OF k, of j] names_other [OF n, of j] False by simp_all
    moreover have "call_ok j (ct_log s) (call_at s j)" using i that False l by (simp add: inv_but_def)
    ultimately show ?thesis using call_ok_log o [OF False] by simp
  qed
  have "names_only (\<lambda>k. k < length (ct_calls s)) (key_log (ct_log s'))"
    using i names_weaken [OF n, of "\<lambda>k. k < length (ct_calls s)"] h unfolding k by (simp add: inv_but_def)
  moreover have "rt_expecting r = awaiting s'"
    using becomes_awaiting [OF b h] d i by (simp add: sound_def inv_but_def)
  moreover have "k < length (ct_calls s') \<and> cl_id (call_at s' k) = Some j \<and> \<not> cl_settled (call_at s' k)"
    if "map_of (rt_routes r) j = Some k" for j k
  proof (cases "k = h")
    case True
    then have "cl_id c = Some j \<and> \<not> cl_settled c" using that d by (simp add: sound_def)
    then show ?thesis using True vf(2,3) h l by simp
  next
    case False
    then have "map_of (rt_routes (ct_router s)) j = Some k" using that d by (simp add: sound_def)
    then show ?thesis using i o [OF False] l by (simp add: inv_but_def)
  qed
  ultimately show "calls_ok s'"
    unfolding calls_ok_def inv_but_def r using ok d l by (simp add: sound_def)
  show "kept s s'"
  proof -
    have "(cl_settled (call_at s k) \<longrightarrow> cl_settled (call_at s' k) \<and> cl_result (call_at s' k) = cl_result (call_at s k)) \<and>
        (cl_timer (call_at s k) \<longrightarrow> cl_timer (call_at s' k) \<or> cl_settled (call_at s' k))" for k
    proof (cases "k = h")
      case True
      then show ?thesis using d vf(3,6,8) by (simp add: sound_def)
    next
      case False
      then show ?thesis using o by simp
    qed
    then show ?thesis unfolding kept_def using l by simp
  qed
qed

end
