(* ===== verification/Visitor_Call_Safety.thy ===== *)
theory Visitor_Call_Safety
  imports Visitor_Call_Changes
begin

section \<open>Calls settle once, and leave nothing running\<close>

text \<open>
  Every callback of \<open>Visitor_Call\<close> keeps the invariant \<open>calls_ok\<close> of \<open>Visitor_Call_Changes\<close>, so every
  history has it; what that means for the page is stated at the end.
\<close>

subsection \<open>Every callback keeps it\<close>

lemma calls_ok_facts:
  assumes "calls_ok s"
  shows "h < length (ct_calls s) \<Longrightarrow> call_ok h (ct_log s) (call_at s h)" "rt_ok (ct_router s)"
    "map_of (rt_routes (ct_router s)) i = Some k \<Longrightarrow> k < length (ct_calls s) \<and> cl_id (call_at s k) = Some i \<and> \<not> cl_settled (call_at s k)"
    "rt_expecting (ct_router s) = awaiting s" "names_only (\<lambda>k. k < length (ct_calls s)) (ct_log s)"
  using assms [unfolded calls_ok_def, rule_format, of "Suc h"] by (simp_all add: inv_but_def)

lemma call_okD:
  assumes "call_ok h xs c"
  shows "cl_settled c \<longleftrightarrow> cl_result c \<noteq> None"
    "case cl_result c of None \<Rightarrow> cl_status c = CallPending \<or> cl_status c = CallRunning | Some res \<Rightarrow> cl_status c = final_status res"
    "cl_timer c \<longrightarrow> \<not> cl_settled c \<or> cl_awaitingId c" "\<not> cl_settled c \<longrightarrow> cl_timer c \<or> cl_failing c \<noteq> None"
    "cl_awaitingId c \<longrightarrow> cl_outstanding c \<and> cl_timer c"
    "cl_outstanding c \<or> cl_awaitingToken c \<longrightarrow> cl_cancelAck c = None \<and> cl_id c = None"
    "\<not> (cl_outstanding c \<and> cl_awaitingToken c)" "\<not> cl_settled c \<longrightarrow> cl_cancelAck c = None"
    "cl_abandoned c \<longrightarrow> cl_settled c \<and> (cl_id c \<noteq> None \<longrightarrow> cl_cancelAck c = cl_id c)"
    "told h xs = of_bool (cl_settled c)" "cancels h xs = (case cl_cancelAck c of None \<Rightarrow> [] | Some i \<Rightarrow> [i])"
    "cl_outstanding c \<and> \<not> cl_settled c \<longrightarrow> cl_awaitingId c"
  using assms unfolding call_ok_def by blast+

lemma awaiting_pos:
  assumes "calls_ok s" "h < length (ct_calls s)" "cl_awaitingId (call_at s h)"
  shows "rt_expecting (ct_router s) > 0"
proof -
  have "call_at s h \<in> set (filter cl_awaitingId (ct_calls s))" using assms(2,3) by (simp add: call_at_def)
  then show ?thesis using calls_ok_facts(4) [OF assms(1)] by (cases "awaiting s") (auto simp: awaiting_def filter_empty_conv)
qed

lemma changesI: "becomes h c r xs s s' \<Longrightarrow> sound h s c r xs \<Longrightarrow> changes h s s'"
  unfolding changes_def by blast

lemma routes_kept:
  assumes "calls_ok s" "map_of (rt_routes (ct_router s)) i = Some k" "cl_id c = cl_id (call_at s h)" "cl_settled c = cl_settled (call_at s h)"
  shows "if k = h then cl_id c = Some i \<and> \<not> cl_settled c else map_of (rt_routes (ct_router s)) i = Some k"
  using assms(2-4) calls_ok_facts(3) [OF assms(1,2)] by (cases "k = h") auto

lemma routes_released:
  assumes ok: "calls_ok s" and r: "rt_routes r = rt_routes (ct_router s)" and id: "cl_id c = cl_id (call_at s h)"
    and m: "map_of (rt_routes (release_of c r)) i = Some k"
  shows "k \<noteq> h \<and> map_of (rt_routes (ct_router s)) i = Some k"
proof (cases "cl_id c")
  case None
  then have "map_of (rt_routes (ct_router s)) i = Some k" using m r by (simp add: release_of_def)
  then show ?thesis using calls_ok_facts(3) [OF ok] None id by auto
next
  case (Some j)
  then have "i \<noteq> j" "map_of (rt_routes (ct_router s)) i = Some k"
    using m r by (auto simp: release_of_def delete_conv' split: if_splits)
  then show ?thesis using calls_ok_facts(3) [OF ok] Some id by auto
qed

lemma release_of_facts: "rt_weak r \<Longrightarrow> cl_id c \<noteq> None \<or> rt_ok r \<Longrightarrow> rt_ok (release_of c r)" "rt_expecting (release_of c r) = rt_expecting r"
  by (auto simp: release_of_def rt_ok_release split: option.split)

text \<open>A callback that leaves the vital fields, or only moves an unsettled call to running.\<close>

lemma changes_status:
  assumes ok: "calls_ok s" and h: "h < length (ct_calls s)" and st: "st = cl_status (call_at s h) \<or> st = CallRunning \<and> \<not> cl_settled (call_at s h)"
    and b: "becomes h ((call_at s h)\<lparr>cl_status := st\<rparr>) (ct_router s) [] s s'"
  shows "changes h s s'"
proof (rule changesI [OF b])
  let ?c = "(call_at s h)\<lparr>cl_status := st\<rparr>"
  note d = call_okD [OF calls_ok_facts(1) [OF ok h]]
  have "call_ok h (ct_log s) ?c"
  proof (cases "cl_settled (call_at s h)")
    case True
    then have "?c = call_at s h" using st by simp
    then show ?thesis using calls_ok_facts(1) [OF ok h] by simp
  next
    case False
    then have "cl_result (call_at s h) = None" "st = CallPending \<or> st = CallRunning" using d(1,2) st by auto
    then show ?thesis using False d(3-) unfolding call_ok_def by simp
  qed
  then show "sound h s ?c (ct_router s) []"
    using calls_ok_facts(2) [OF ok] routes_kept [OF ok, of _ _ ?c h] by (simp add: sound_def)
qed

lemma changes_same: "calls_ok s \<Longrightarrow> h < length (ct_calls s) \<Longrightarrow> becomes h (call_at s h) (ct_router s) [] s s' \<Longrightarrow> changes h s s'"
  using changes_status [of s h "cl_status (call_at s h)" s'] by simp

lemma changes_refl: "calls_ok s \<Longrightarrow> h < length (ct_calls s) \<Longrightarrow> changes h s s"
  by (rule changes_same [OF _ _ becomes_refl])

text \<open>Settling, once the call awaits nothing or awaits on.\<close>

lemma sound_final:
  assumes ok: "calls_ok s" and h: "h < length (ct_calls s)" and u: "\<not> cl_settled (call_at s h)"
    and c: "cl_settled c" "cl_result c = Some res" "cl_status c = final_status res" "cl_timer c \<longrightarrow> cl_awaitingId c"
      "cl_awaitingId c \<longrightarrow> cl_outstanding c \<and> cl_timer c" "cl_outstanding c \<or> cl_awaitingToken c \<longrightarrow> cl_cancelAck c = None \<and> cl_id c = None"
      "\<not> (cl_outstanding c \<and> cl_awaitingToken c)" "cl_abandoned c \<longrightarrow> cl_id c \<noteq> None \<longrightarrow> cl_cancelAck c = cl_id c"
    and xs: "xs = SettleTold h # (case cl_cancelAck c of None \<Rightarrow> [] | Some i \<Rightarrow> [CancelRequest h i])"
    and r: "rt_ok r" "rt_expecting r + of_bool (cl_awaitingId (call_at s h)) = rt_expecting (ct_router s) + of_bool (cl_awaitingId c)"
      "\<And>i k. map_of (rt_routes r) i = Some k \<Longrightarrow> k \<noteq> h \<and> map_of (rt_routes (ct_router s)) i = Some k"
  shows "sound h s c r xs"
proof -
  have l: "told h (ct_log s) = 0" "cancels h (ct_log s) = []"
    using call_okD(8,10,11) [OF calls_ok_facts(1) [OF ok h]] u by simp_all
  have x: "told h xs = 1" "cancels h xs = (case cl_cancelAck c of None \<Rightarrow> [] | Some i \<Rightarrow> [i])" "names_only (\<lambda>k. k = h) xs"
    unfolding xs by (cases "cl_cancelAck c"; simp)+
  have "call_ok h (ct_log s @ xs) c" using c l x unfolding call_ok_def by simp
  then show ?thesis using u c(1) x(3) r unfolding sound_def by simp
qed

lemma sound_settle:
  assumes ok: "calls_ok s" and h: "h < length (ct_calls s)" and u: "\<not> cl_settled (call_at s h)"
    and c: "cl_settled c = False" "cl_result c = None" "cl_id c = cl_id (call_at s h)" "cl_cancelAck c = None" "\<not> cl_abandoned c"
      "cl_awaitingId c \<longrightarrow> cl_outstanding c \<and> cl_timer c" "cl_outstanding c \<or> cl_awaitingToken c \<longrightarrow> cl_id c = None"
      "\<not> (cl_outstanding c \<and> cl_awaitingToken c)"
    and r: "rt_ok r" "rt_routes r = rt_routes (ct_router s)"
      "rt_expecting r + of_bool (cl_awaitingId (call_at s h)) = rt_expecting (ct_router s) + of_bool (cl_awaitingId c)"
  shows "sound h s (settle_call res c) (release_of c r) [SettleTold h]"
  by (rule sound_final [OF ok h u, where res = res])
    (use c r release_of_facts(1) [OF rt_okD [OF r(1)]] routes_released [OF ok r(2) c(3)] in
      \<open>simp_all add: settle_call_def clearTimerWhenDone_def release_of_facts(2)\<close>)

lemma becomes_facts:
  assumes "becomes h c r xs s s'" "h < length (ct_calls s)"
  shows "h < length (ct_calls s')" "ct_router s' = r" "vital (call_at s' h) = vital c"
  using assms by (simp_all add: becomes_def)

lemma becomes_stopAwaiting:
  assumes "h < length (ct_calls s)"
  shows "becomes h (if cl_awaitingId (call_at s h) then clearTimerWhenDone ((call_at s h)\<lparr>cl_awaitingId := False\<rparr>) else call_at s h)
    (if cl_awaitingId (call_at s h) then rt_unexpect (ct_router s) else ct_router s) [] s (stopAwaiting h s)"
  using assms by (simp add: becomes_def stopAwaiting_def)

lemma becomes_sendCancel:
  assumes "h < length (ct_calls s)" "cl_cancelAck (call_at s h) = None"
  shows "becomes h ((call_at s h)\<lparr>cl_cancelAck := Some i\<rparr>) (ct_router s) [CancelRequest h i] s (sendCancel h i s)"
  using assms by (simp add: becomes_def sendCancel_def)

lemma changes_fail_after:
  assumes ok: "calls_ok s" and h: "h < length (ct_calls s)" and u: "\<not> cl_settled (call_at s h)"
    and b: "becomes h c r [] s s1"
    and c: "cl_settled c = False" "cl_result c = None" "cl_id c = cl_id (call_at s h)" "cl_cancelAck c = None" "\<not> cl_abandoned c"
      "cl_awaitingId c \<longrightarrow> cl_outstanding c \<and> cl_timer c" "cl_outstanding c \<or> cl_awaitingToken c \<longrightarrow> cl_id c = None"
      "\<not> (cl_outstanding c \<and> cl_awaitingToken c)"
    and r: "rt_ok r" "rt_routes r = rt_routes (ct_router s)"
      "rt_expecting r + of_bool (cl_awaitingId (call_at s h)) = rt_expecting (ct_router s) + of_bool (cl_awaitingId c)"
  shows "changes h s (fail h e s1)"
proof -
  note f = becomes_facts [OF b h]
  note vf = vital_fields [OF f(3)]
  have "becomes h (settle_call (Inl e) (call_at s1 h)) (release_of (call_at s1 h) r) [SettleTold h] s1 (fail h e s1)"
    using becomes_fail [OF f(1)] vf(3) c(1) f(2) by simp
  from becomes_trans [OF b this]
  have "becomes h (settle_call (Inl e) (call_at s1 h)) (release_of (call_at s1 h) r) [SettleTold h] s (fail h e s1)" by simp
  then show ?thesis
    by (rule changesI [OF _ sound_settle [OF ok h u]]) (use vf c r in simp_all)
qed

lemma unsettled_facts:
  assumes "calls_ok s" "h < length (ct_calls s)" "\<not> cl_settled (call_at s h)"
  shows "cl_result (call_at s h) = None" "cl_cancelAck (call_at s h) = None" "\<not> cl_abandoned (call_at s h)"
    "cl_awaitingId (call_at s h) \<longrightarrow> cl_outstanding (call_at s h) \<and> cl_timer (call_at s h)"
    "cl_outstanding (call_at s h) \<or> cl_awaitingToken (call_at s h) \<longrightarrow> cl_id (call_at s h) = None"
    "\<not> (cl_outstanding (call_at s h) \<and> cl_awaitingToken (call_at s h))"
  using calls_ok_facts(1) [OF assms(1,2)] assms(3) by (auto simp: call_ok_def)

lemma changes_fail:
  assumes ok: "calls_ok s" and h: "h < length (ct_calls s)" and u: "\<not> cl_settled (call_at s h)"
  shows "changes h s (fail h e s)"
  by (rule changes_fail_after [OF ok h u becomes_refl])
    (use unsettled_facts [OF ok h u] calls_ok_facts(2) [OF ok] u in simp_all)

text \<open>Bookkeeping that settles nothing.\<close>

lemma sound_keep:
  assumes ok: "calls_ok s" and h: "h < length (ct_calls s)"
    and same: "cl_settled c = cl_settled (call_at s h)" "cl_result c = cl_result (call_at s h)" "cl_status c = cl_status (call_at s h)"
      "cl_id c = cl_id (call_at s h)" "cl_cancelAck c = cl_cancelAck (call_at s h)" "cl_abandoned c = cl_abandoned (call_at s h)"
    and c: "cl_timer c \<longrightarrow> \<not> cl_settled c \<or> cl_awaitingId c" "\<not> cl_settled c \<longrightarrow> cl_timer c \<or> cl_failing c \<noteq> None"
      "cl_awaitingId c \<longrightarrow> cl_outstanding c \<and> cl_timer c"
      "cl_outstanding c \<or> cl_awaitingToken c \<longrightarrow> cl_outstanding (call_at s h) \<or> cl_awaitingToken (call_at s h)"
      "\<not> (cl_outstanding c \<and> cl_awaitingToken c)" "cl_timer (call_at s h) \<longrightarrow> cl_timer c \<or> cl_settled c"
      "cl_outstanding c \<and> \<not> cl_settled c \<longrightarrow> cl_awaitingId c"
    and r: "rt_ok r" "rt_routes r = rt_routes (ct_router s)"
      "rt_expecting r + of_bool (cl_awaitingId (call_at s h)) = rt_expecting (ct_router s) + of_bool (cl_awaitingId c)"
  shows "sound h s c r []"
proof -
  have "call_ok h (ct_log s) c"
    using call_okD [OF calls_ok_facts(1) [OF ok h]] c unfolding call_ok_def same by blast
  moreover have "if k = h then cl_id c = Some i \<and> \<not> cl_settled c else map_of (rt_routes (ct_router s)) i = Some k"
    if "map_of (rt_routes r) i = Some k" for i k
    using routes_kept [OF ok _ same(4,1)] that r(2) by simp
  ultimately show ?thesis
    using same(1,2) c(6) r(1,3) unfolding sound_def by (simp only: append_Nil2 log_simps) blast
qed

lemma unawait_facts:
  assumes "calls_ok s" "h < length (ct_calls s)" "cl_awaitingId (call_at s h)"
  shows "rt_ok (rt_unexpect (ct_router s))" "rt_expecting (ct_router s) = rt_expecting (ct_router s) - 1 + 1"
  using assms awaiting_pos [OF assms] rt_ok_unexpect [OF rt_okD [OF calls_ok_facts(2) [OF assms(1)]]] by simp_all

lemma run_failing_changes:
  assumes ok: "calls_ok s" and h: "h < length (ct_calls s)"
  shows "changes h s (run_failing h s)"
proof (cases "cl_failing (call_at s h)")
  case None
  then show ?thesis using changes_refl [OF ok h] by (simp add: run_failing_def)
next
  case (Some e)
  let ?c = "(call_at s h)\<lparr>cl_failing := None\<rparr>"
  let ?s = "put h (\<lambda>c. c\<lparr>cl_failing := None\<rparr>) s"
  have b: "becomes h ?c (ct_router s) [] s ?s" using h by (simp add: becomes_put)
  have e: "run_failing h s = fail h e ?s" using Some by (simp add: run_failing_def)
  show ?thesis
  proof (cases "cl_settled (call_at s h)")
    case False
    show ?thesis unfolding e
      by (rule changes_fail_after [OF ok h False b]) (use unsettled_facts [OF ok h False] calls_ok_facts(2) [OF ok] False in simp_all)
  next
    case True
    then have "fail h e ?s = ?s" using h by (simp add: fail_def)
    moreover have "sound h s ?c (ct_router s) []"
      by (rule sound_keep [OF ok h]; simp?; use call_okD(3-7) [OF calls_ok_facts(1) [OF ok h]] calls_ok_facts(2) [OF ok] True in blast)
    ultimately show ?thesis using changesI [OF b] e by simp
  qed
qed

lemma becomes_send:
  assumes "h < length (ct_calls s)"
  shows "\<exists>c r. becomes h c r [] s (send h x s) \<and>
    ((\<exists>w. c = (call_at s h)\<lparr>cl_failing := Some w\<rparr>) \<and> r = ct_router s \<or>
     c = (call_at s h)\<lparr>cl_awaitingId := True, cl_timer := True, cl_outstanding := True\<rparr> \<and> r = rt_expect (ct_router s))"
proof (cases "if rt_attached (ct_router s) then None else x")
  case None
  have "becomes h ((call_at s h)\<lparr>cl_awaitingId := True, cl_timer := True, cl_outstanding := True\<rparr>) (rt_expect (ct_router s)) [] s (send h x s)"
    using assms unfolding send_def None by (simp add: becomes_def)
  then show ?thesis by blast
next
  case (Some w)
  have "becomes h ((call_at s h)\<lparr>cl_failing := Some (toWritError w None)\<rparr>) (ct_router s) [] s (send h x s)"
    using assms unfolding send_def Some by (simp add: becomes_def)
  then show ?thesis by blast
qed

lemma token_answered_changes:
  assumes ok: "calls_ok s" and h: "h < length (ct_calls s)" and t: "cl_awaitingToken (call_at s h)"
  shows "changes h s (token_answered h a x s)"
proof -
  let ?c = "(call_at s h)\<lparr>cl_awaitingToken := False\<rparr>"
  let ?s = "put h (\<lambda>c. c\<lparr>cl_awaitingToken := False\<rparr>) s"
  have b: "becomes h ?c (ct_router s) [] s ?s" using h by (simp add: becomes_put)
  note d = call_okD(3-7,12) [OF calls_ok_facts(1) [OF ok h]] and r = calls_ok_facts(2) [OF ok]
  show ?thesis
  proof (cases "cl_settled (call_at s h)")
    case True
    have "token_answered h a x s = ?s" using h True by (auto simp: token_answered_def Let_def fail_def split: sum.split)
    moreover have "changes h s ?s"
      by (rule changesI [OF b sound_keep [OF ok h]]; simp?; use d r t True in blast)
    ultimately show ?thesis by simp
  next
    case u: False
    show ?thesis
    proof (cases a)
      case (Inl e)
      have "token_answered h a x s = fail h (toWritError e None) ?s" by (simp add: token_answered_def Inl Let_def)
      then show ?thesis
        using changes_fail_after [OF ok h u b] unsettled_facts [OF ok h u] r u t by simp
    next
      case (Inr k)
      let ?s2 = "put h (\<lambda>c. c\<lparr>cl_token := Some k\<rparr>) ?s"
      have e: "token_answered h a x s = send h x ?s2" using h u by (simp add: token_answered_def Inr Let_def)
      have h2: "h < length (ct_calls ?s2)" using h by simp
      have c2: "call_at ?s2 h = ?c\<lparr>cl_token := Some k\<rparr>" "ct_router ?s2 = ct_router s" using h by simp_all
      have b2: "becomes h (?c\<lparr>cl_token := Some k\<rparr>) (ct_router s) [] s ?s2" using h by (simp add: becomes_def vital_def)
      obtain c r' where c: "becomes h c r' [] ?s2 (send h x ?s2)"
        and cr: "(\<exists>w. c = ?c\<lparr>cl_token := Some k, cl_failing := Some w\<rparr>) \<and> r' = ct_router s \<or>
          c = ?c\<lparr>cl_token := Some k, cl_awaitingId := True, cl_timer := True, cl_outstanding := True\<rparr> \<and> r' = rt_expect (ct_router s)"
        using becomes_send [OF h2, of x] unfolding c2 by auto
      have "becomes h c r' [] s (send h x ?s2)" using becomes_trans [OF b2 c] by simp
      moreover have "sound h s (?c\<lparr>cl_token := Some k, cl_failing := Some w\<rparr>) (ct_router s) []" for w
        by (rule sound_keep [OF ok h]) (use d r t u in simp_all)
      moreover have "sound h s (?c\<lparr>cl_token := Some k, cl_awaitingId := True, cl_timer := True, cl_outstanding := True\<rparr>) (rt_expect (ct_router s)) []"
        by (rule sound_keep [OF ok h]) (use d r t u rt_ok_expect [OF rt_okD [OF r]] in simp_all)
      ultimately have "sound h s c r' []" "becomes h c r' [] s (send h x ?s2)" using cr by auto
      then show ?thesis unfolding e using changesI by blast
    qed
  qed
qed

subsubsection \<open>The answer to \<open>writ_call\<close>\<close>

lemma becomes_unawaited:
  assumes "h < length (ct_calls s)" "cl_awaitingId (call_at s h)"
  shows "becomes h (clearTimerWhenDone ((call_at s h)\<lparr>cl_outstanding := False, cl_awaitingId := False\<rparr>))
    (rt_unexpect (ct_router s)) [] s (stopAwaiting h (answered h s))"
  using assms by (simp add: becomes_def stopAwaiting_def answered_def)

lemma unawaited_fail_changes:
  assumes ok: "calls_ok s" and h: "h < length (ct_calls s)" and w: "cl_awaitingId (call_at s h)"
  shows "changes h s (fail h e (stopAwaiting h (answered h s)))"
proof -
  let ?c = "clearTimerWhenDone ((call_at s h)\<lparr>cl_outstanding := False, cl_awaitingId := False\<rparr>)"
  note b = becomes_unawaited [OF h w] and r = unawait_facts [OF ok h w]
  show ?thesis
  proof (cases "cl_settled (call_at s h)")
    case True
    then have "fail h e (stopAwaiting h (answered h s)) = stopAwaiting h (answered h s)"
      using vital_fields(3) [OF becomes_facts(3) [OF b h]] by (simp add: fail_def clearTimerWhenDone_def)
    moreover have "changes h s (stopAwaiting h (answered h s))"
      by (rule changesI [OF b sound_keep [OF ok h]])
        (use call_okD(3,5-7,12) [OF calls_ok_facts(1) [OF ok h]] r w True in \<open>simp_all add: clearTimerWhenDone_def\<close>)
    ultimately show ?thesis by simp
  next
    case u: False
    show ?thesis
      by (rule changes_fail_after [OF ok h u b])
        (use unsettled_facts [OF ok h u] r w u in \<open>simp_all add: clearTimerWhenDone_def\<close>)
  qed
qed

lemma onRequestError_changes:
  assumes ok: "calls_ok s" and h: "h < length (ct_calls s)" and w: "cl_outstanding (call_at s h)"
  shows "changes h s (onRequestError h x (answered h s))"
proof (cases "cl_awaitingId (call_at s h)")
  case True
  then show ?thesis using unawaited_fail_changes [OF ok h] h by (simp add: onRequestError_def answered_def)
next
  case False
  have b: "becomes h ((call_at s h)\<lparr>cl_outstanding := False\<rparr>) (ct_router s) [] s (answered h s)"
    using h by (simp add: answered_def becomes_put)
  have "changes h s (answered h s)"
    by (rule changesI [OF b sound_keep [OF ok h]])
      (use call_okD(3,4,7,12) [OF calls_ok_facts(1) [OF ok h]] calls_ok_facts(2) [OF ok] w False in simp_all)
  then show ?thesis using False h by (simp add: onRequestError_def answered_def)
qed

lemma late_answer_changes:
  assumes ok: "calls_ok s" and h: "h < length (ct_calls s)" and w: "cl_outstanding (call_at s h)" "\<not> cl_awaitingId (call_at s h)"
  shows "changes h s (sendCancel h i (answered h s))"
proof -
  let ?c = "(call_at s h)\<lparr>cl_outstanding := False, cl_cancelAck := Some i\<rparr>"
  note d = call_okD [OF calls_ok_facts(1) [OF ok h]]
  have a: "cl_cancelAck (call_at s h) = None" "cl_id (call_at s h) = None" "cl_settled (call_at s h)" using d(6,12) w by blast+
  have "becomes h ?c (ct_router s) [CancelRequest h i] s (sendCancel h i (answered h s))"
    using h a by (simp add: becomes_def answered_def sendCancel_def)
  moreover have "call_ok h (ct_log s @ [CancelRequest h i]) ?c"
  proof -
    have "told h (ct_log s) = 1" "cancels h (ct_log s) = []" using d(10,11) a by simp_all
    moreover obtain res where "cl_result (call_at s h) = Some res" "cl_status (call_at s h) = final_status res"
      using d(1,2) a by auto
    ultimately show ?thesis using d(3-5,7) a w unfolding call_ok_def by simp
  qed
  then have "sound h s ?c (ct_router s) [CancelRequest h i]"
    using routes_kept [OF ok, of _ _ ?c h] calls_ok_facts(2) [OF ok] a by (simp add: sound_def)
  ultimately show ?thesis by (rule changesI)
qed

lemma abandoned_answer_changes:
  assumes ok: "calls_ok s" and h: "h < length (ct_calls s)" and w: "cl_awaitingId (call_at s h)" and t: "cl_settled (call_at s h)"
  shows "changes h s (stopAwaiting h (sendCancel h i (put h (\<lambda>c. c\<lparr>cl_id := Some i, cl_callId := f c\<rparr>) (answered h s))))"
proof -
  let ?c = "clearTimerWhenDone ((call_at s h)\<lparr>cl_outstanding := False, cl_id := Some i, cl_cancelAck := Some i, cl_awaitingId := False\<rparr>)"
  note d = call_okD [OF calls_ok_facts(1) [OF ok h]] and r = unawait_facts [OF ok h w]
  have a: "cl_cancelAck (call_at s h) = None" "cl_id (call_at s h) = None" "cl_outstanding (call_at s h)" using d(5,6) w by blast+
  have b: "becomes h ?c (rt_unexpect (ct_router s)) [CancelRequest h i] s
      (stopAwaiting h (sendCancel h i (put h (\<lambda>c. c\<lparr>cl_id := Some i, cl_callId := f c\<rparr>) (answered h s))))"
    using h a w by (simp add: becomes_def answered_def sendCancel_def stopAwaiting_def vital_def clearTimerWhenDone_def)
  have "call_ok h (ct_log s @ [CancelRequest h i]) ?c"
  proof -
    have "told h (ct_log s) = 1" "cancels h (ct_log s) = []" using d(10,11) a t by simp_all
    moreover obtain res where "cl_result (call_at s h) = Some res" "cl_status (call_at s h) = final_status res"
      using d(1,2) t by auto
    ultimately show ?thesis using d(7) a t unfolding call_ok_def clearTimerWhenDone_def by simp
  qed
  moreover have "map_of (rt_routes (ct_router s)) j \<noteq> Some h" for j using calls_ok_facts(3) [OF ok, of j h] a(2) by auto
  moreover have "\<not> cl_awaitingId ?c" "cl_settled ?c" "cl_result ?c = cl_result (call_at s h)"
    using t by (simp_all add: clearTimerWhenDone_def)
  ultimately have "sound h s ?c (rt_unexpect (ct_router s)) [CancelRequest h i]"
    using r w unfolding sound_def by simp
  with b show ?thesis by (rule changesI)
qed

lemma claim_heard:
  assumes h: "h < length (ct_calls s)" and c: "\<not> cl_settled (call_at s h)" "cl_id (call_at s h) = Some i"
    and r: "rt_weak (ct_router s)" "rt_attached (ct_router s)"
  shows "\<exists>r' s'. becomes h (call_at s h) r' [] s s' \<and> heard h s' (claim h i s) \<and> rt_weak r' \<and>
    rt_routes r' = AList.update i h (rt_routes (ct_router s)) \<and> rt_expecting r' = rt_expecting (ct_router s)"
proof -
  let ?r1 = "(ct_router s)\<lparr>rt_routes := AList.update i h (rt_routes (ct_router s))\<rparr>"
  define s1 where "s1 = routed (\<lambda>r. r\<lparr>rt_routes := AList.update i h (rt_routes r)\<rparr>) s"
  have w: "rt_weak ?r1" using rt_weak_route [OF r] by simp
  have s1: "ct_router s1 = ?r1" "call_at s1 h = call_at s h" "length (ct_calls s1) = length (ct_calls s)" by (simp_all add: s1_def)
  show ?thesis
  proof (cases "map_of (rt_held ?r1) i")
    case None
    then have "claim h i s = s1" by (simp add: claim_def Let_def s1_def)
    then show ?thesis
      using w heard_quiet [OF becomes_refl, of h s1] by (intro exI [of _ ?r1] exI [of _ s1]) (simp add: becomes_def s1_def)
  next
    case (Some x)
    let ?r2 = "?r1\<lparr>rt_held := AList.delete i (rt_held ?r1)\<rparr>"
    define s2 where "s2 = routed (\<lambda>r. r\<lparr>rt_held := AList.delete i (rt_held r)\<rparr>) s1"
    have "claim h i s = replay_held h i (snd x) s2"
      using Some unfolding claim_def Let_def s2_def s1_def by (simp add: case_prod_unfold)
    moreover have "heard h s2 (replay_held h i (snd x) s2)"
      by (rule replay_held_heard) (use h c in \<open>simp_all add: s2_def s1_def\<close>)
    moreover have "becomes h (call_at s h) ?r2 [] s s2" by (simp add: becomes_def s2_def s1_def)
    ultimately show ?thesis using rt_weak_unhold [OF w, of i] by (intro exI [of _ ?r2] exI [of _ s2]) simp
  qed
qed

lemma becomes_stop_after:
  assumes b: "becomes h c r xs s s'" and w: "cl_awaitingId c" and h: "h < length (ct_calls s)"
  shows "becomes h (clearTimerWhenDone (c\<lparr>cl_awaitingId := False\<rparr>)) (rt_unexpect r) xs s (stopAwaiting h s')"
proof -
  note f = becomes_facts [OF b h]
  have "vital (clearTimerWhenDone ((call_at s' h)\<lparr>cl_awaitingId := False\<rparr>)) = vital (clearTimerWhenDone (c\<lparr>cl_awaitingId := False\<rparr>))"
    using vital_fields [OF f(3)] by (simp add: vital_def clearTimerWhenDone_def)
  then show ?thesis
    using becomes_cong [OF becomes_trans [OF b becomes_stopAwaiting [OF f(1)]]] w vital_fields(4) [OF f(3)] f(2) by simp
qed

lemma claimed_changes:
  assumes ok: "calls_ok s" and h: "h < length (ct_calls s)" and w: "cl_awaitingId (call_at s h)" and u: "\<not> cl_settled (call_at s h)"
  shows "changes h s (stopAwaiting h (claim h i (put h (\<lambda>c. c\<lparr>cl_id := Some i, cl_callId := f c\<rparr>) (answered h s))))"
proof -
  let ?c = "call_at s h" and ?r = "ct_router s"
  define c1 where "c1 = ?c\<lparr>cl_outstanding := False, cl_id := Some i\<rparr>"
  define s1 where "s1 = put h (\<lambda>c. c\<lparr>cl_id := Some i, cl_callId := f c\<rparr>) (answered h s)"
  have b1: "becomes h c1 ?r [] s s1" using h by (simp add: becomes_def s1_def answered_def c1_def vital_def)
  have h1: "h < length (ct_calls s1)" and v1: "vital (call_at s1 h) = vital c1" and r1: "ct_router s1 = ?r" using becomes_facts [OF b1 h] by simp_all
  note d = call_okD [OF calls_ok_facts(1) [OF ok h]]
  have a: "cl_cancelAck ?c = None" "cl_id ?c = None" "cl_outstanding ?c" "cl_timer ?c" "\<not> cl_awaitingToken ?c" "cl_result ?c = None"
      "\<not> cl_abandoned ?c" "cl_status ?c = CallPending \<or> cl_status ?c = CallRunning"
    using d(1,2,5-7,9) w u by auto
  have x: "rt_expecting ?r > 0" by (rule awaiting_pos [OF ok h w])
  have rw: "rt_weak ?r" "rt_attached ?r" using calls_ok_facts(2) [OF ok] x by (simp_all add: rt_ok_def rt_weak_def)
  have c1: "\<not> cl_settled (call_at s1 h)" "cl_id (call_at s1 h) = Some i" using vital_fields(2,3) [OF v1] u by (simp_all add: c1_def)
  obtain r' s2 where b2: "becomes h (call_at s1 h) r' [] s1 s2" and heard: "heard h s2 (claim h i s1)" and r': "rt_weak r'"
      "rt_routes r' = AList.update i h (rt_routes ?r)" "rt_expecting r' = rt_expecting ?r"
    using claim_heard [OF h1 c1] rw unfolding r1 by blast
  have b12: "becomes h c1 r' [] s s2"
    using becomes_cong [OF becomes_trans [OF b1 b2] v1] by simp
  note f2 = becomes_facts [OF b12 h]
  note vf = vital_fields [OF f2(3)]
  have other: "k \<noteq> h \<and> map_of (rt_routes ?r) j = Some k" if "map_of (rt_routes r') j = Some k" "j \<noteq> i" for j k
    using that calls_ok_facts(3) [OF ok, of j k] a(2) unfolding r'(2) update_conv' by auto
  note stop = becomes_stop_after [OF _ _ h]
  from heard consider
      (quiet) st where "st = cl_status ?c \<or> st = CallRunning" "becomes h ((call_at s2 h)\<lparr>cl_status := st\<rparr>) r' [] s2 (claim h i s1)"
    | (settled) res where "becomes h (settle_call res (call_at s2 h)) (rt_release i r') [SettleTold h] s2 (claim h i s1)"
    unfolding heard_def release_of_def using f2(2) vf(1,2) by (auto simp: c1_def)
  then have "changes h s (stopAwaiting h (claim h i s1))"
  proof cases
    case quiet
    have "vital ((call_at s2 h)\<lparr>cl_status := st\<rparr>) = vital (c1\<lparr>cl_status := st\<rparr>)" using vf by (simp add: vital_def)
    then have "becomes h (c1\<lparr>cl_status := st\<rparr>) r' [] s (claim h i s1)"
      using becomes_cong [OF becomes_trans [OF b12 quiet(2)]] by simp
    from stop [OF this] have b: "becomes h (c1\<lparr>cl_status := st, cl_awaitingId := False\<rparr>) (rt_unexpect r') [] s (stopAwaiting h (claim h i s1))"
      using w u by (simp add: c1_def clearTimerWhenDone_def)
    have "call_ok h (ct_log s) (c1\<lparr>cl_status := st, cl_awaitingId := False\<rparr>)"
      using quiet(1) a u d(10,11) by (auto simp: call_ok_def c1_def)
    moreover have "if k = h then j = i else map_of (rt_routes ?r) j = Some k" if "map_of (rt_routes r') j = Some k" for j k
      using other [OF that] that unfolding r'(2) update_conv' by (auto split: if_splits)
    then have "if k = h then i = j else map_of (rt_routes ?r) j = Some k" if "map_of (rt_routes r') j = Some k" for j k
      using that by (auto split: if_splits)
    ultimately have "sound h s (c1\<lparr>cl_status := st, cl_awaitingId := False\<rparr>) (rt_unexpect r') []"
      using rt_ok_unexpect [OF r'(1)] x unfolding sound_def by (simp add: c1_def a u w r'(3))
    with b show ?thesis by (rule changesI)
  next
    case settled
    have "vital (settle_call res (call_at s2 h)) = vital (settle_call res c1)" by (rule vital_settle [OF f2(3)])
    then have "becomes h (settle_call res c1) (rt_release i r') [SettleTold h] s (claim h i s1)"
      using becomes_cong [OF becomes_trans [OF b12 settled]] by simp
    from stop [OF this] have b: "becomes h (clearTimerWhenDone ((settle_call res c1)\<lparr>cl_awaitingId := False\<rparr>)) (rt_unexpect (rt_release i r'))
        [SettleTold h] s (stopAwaiting h (claim h i s1))"
      using w by (simp add: c1_def settle_call_def clearTimerWhenDone_def)
    have "map_of (rt_routes r') j = Some k \<and> j \<noteq> i" if "map_of (AList.delete i (rt_routes r')) j = Some k" for j k
      using that by (auto simp: delete_conv' split: if_splits)
    then have "k \<noteq> h \<and> map_of (rt_routes ?r) j = Some k" if "map_of (AList.delete i (rt_routes r')) j = Some k" for j k
      using that other by blast
    moreover note rt_ok_unexpect [OF rt_okD [OF rt_ok_release [OF r'(1)]]]
    ultimately show ?thesis
      by (intro changesI [OF b sound_final [OF ok h u, where res = res]])
        (use x w in \<open>simp_all add: a r'(3) c1_def settle_call_def clearTimerWhenDone_def\<close>)
  qed
  then show ?thesis by (simp add: s1_def)
qed

lemma onAnswer_changes:
  assumes ok: "calls_ok s" and h: "h < length (ct_calls s)" and w: "cl_outstanding (call_at s h)"
  shows "changes h s (onAnswer h a (answered h s))"
proof -
  have f: "cl_awaitingId (call_at (answered h s) h) = cl_awaitingId (call_at s h)"
      "cl_settled (call_at (answered h s) h) = cl_settled (call_at s h)" "h < length (ct_calls (answered h s))"
    using h by (simp_all add: answered_def)
  have quiet: "changes h s (answered h s)" if "\<not> cl_awaitingId (call_at s h)"
    using onRequestError_changes [OF ok h w] that f by (simp add: onRequestError_def)
  show ?thesis
    unfolding onAnswer_def Let_def
    using f quiet late_answer_changes [OF ok h w] unawaited_fail_changes [OF ok h]
      abandoned_answer_changes [OF ok h] claimed_changes [OF ok h]
    by (simp split: option.split)
qed

subsubsection \<open>Giving up\<close>

definition given_up :: "writ_error + call_result \<Rightarrow> call \<Rightarrow> call" where
  "given_up res c = (settle_call res c)\<lparr>cl_abandoned := True, cl_cancelAck := cl_id c\<rparr>"

definition given_up_log :: "nat \<Rightarrow> call \<Rightarrow> call_out list" where
  "given_up_log h c = SettleTold h # (case cl_id c of None \<Rightarrow> [] | Some i \<Rightarrow> [CancelRequest h i])"

lemma becomes_abandon:
  assumes h: "h < length (ct_calls s)" and u: "\<not> cl_settled (call_at s h)" and a: "cl_cancelAck (call_at s h) = None"
  shows "becomes h (given_up (Inl e) (call_at s h)) (release_of (call_at s h) (ct_router s)) (given_up_log h (call_at s h)) s (abandon h e s)"
proof -
  let ?c = "call_at s h"
  define s1 where "s1 = put h (\<lambda>c. c\<lparr>cl_abandoned := True\<rparr>) (fail h e s)"
  note b = becomes_fail [OF h u, of e]
  have v: "vital (call_at s1 h) = vital ((settle_call (Inl e) ?c)\<lparr>cl_abandoned := True\<rparr>)"
    using becomes_facts [OF b h] by (simp add: s1_def vital_def)
  have b1: "becomes h ((settle_call (Inl e) ?c)\<lparr>cl_abandoned := True\<rparr>) (release_of ?c (ct_router s)) [SettleTold h] s s1"
    using b h v by (simp add: becomes_def s1_def)
  have h1: "h < length (ct_calls s1)" using becomes_facts [OF b1 h] by simp
  have f: "cl_id (call_at s1 h) = cl_id ?c" "cl_cancelAck (call_at s1 h) = None"
    using vital_fields(2,7) [OF v] a by (simp_all add: settle_call_def clearTimerWhenDone_def)
  have e: "abandon h e s = (case cl_id ?c of Some i \<Rightarrow> sendCancel h i s1 | None \<Rightarrow> s1)"
    using u f unfolding abandon_def Let_def s1_def [symmetric] by simp
  show ?thesis
  proof (cases "cl_id ?c")
    case None
    have "vital (given_up (Inl e) ?c) = vital ((settle_call (Inl e) ?c)\<lparr>cl_abandoned := True\<rparr>)"
      using None a by (simp add: given_up_def vital_def settle_call_def clearTimerWhenDone_def)
    then show ?thesis using b1 None unfolding e by (simp add: becomes_def given_up_log_def)
  next
    case (Some i)
    have "vital ((call_at s1 h)\<lparr>cl_cancelAck := Some i\<rparr>) = vital (given_up (Inl e) ?c)"
      using vital_fields [OF v] Some by (simp add: given_up_def vital_def)
    moreover have "becomes h ((call_at s1 h)\<lparr>cl_cancelAck := Some i\<rparr>) (release_of ?c (ct_router s)) (given_up_log h ?c) s (sendCancel h i s1)"
      using becomes_trans [OF b1 becomes_sendCancel [OF h1 f(2)]] becomes_facts(2) [OF b1 h] Some by (simp add: given_up_log_def)
    ultimately show ?thesis unfolding e Some using becomes_cong Some by fastforce
  qed
qed

lemma given_up_simps:
  "cl_settled (given_up res c)" "cl_result (given_up res c) = Some res" "cl_status (given_up res c) = final_status res"
  "cl_id (given_up res c) = cl_id c" "cl_cancelAck (given_up res c) = cl_id c" "cl_abandoned (given_up res c)"
  "cl_awaitingId (given_up res c) = cl_awaitingId c" "cl_awaitingToken (given_up res c) = cl_awaitingToken c"
  "cl_outstanding (given_up res c) = cl_outstanding c" "cl_timer (given_up res c) \<longleftrightarrow> cl_timer c \<and> cl_awaitingId c"
  by (auto simp: given_up_def settle_call_def clearTimerWhenDone_def)

lemma abandon_changes:
  assumes ok: "calls_ok s" and h: "h < length (ct_calls s)"
  shows "changes h s (abandon h e s)"
proof (cases "cl_settled (call_at s h)")
  case True
  then show ?thesis using changes_refl [OF ok h] by (simp add: abandon_def)
next
  case u: False
  note f = unsettled_facts [OF ok h u] and r = calls_ok_facts(2) [OF ok]
  show ?thesis
    by (rule changesI [OF becomes_abandon [OF h u f(2)] sound_final [OF ok h u, where res = "Inl e"]])
      (use f release_of_facts(1) [OF rt_okD [OF r]] r routes_released [OF ok refl refl] in
        \<open>simp_all add: given_up_simps given_up_log_def release_of_facts(2)\<close>)
qed

lemma onGuardTimeout_changes:
  assumes ok: "calls_ok s" and h: "h < length (ct_calls s)" and t: "cl_timer (call_at s h)"
  shows "changes h s (onGuardTimeout h s)"
proof -
  let ?c = "call_at s h" and ?r = "ct_router s"
  let ?c1 = "?c\<lparr>cl_timer := False\<rparr>"
  let ?s1 = "put h (\<lambda>c. c\<lparr>cl_timer := False\<rparr>) s"
  define e where "e = \<lparr>we_code = js ''TIMEOUT'', we_details = Some [(js ''timeoutMs'', VNum (int_num (cl_guardMs ?c - CALL_TIMEOUT_GRACE_MS)))]\<rparr>"
  have g: "onGuardTimeout h s = stopAwaiting h (abandon h e ?s1)" by (simp add: onGuardTimeout_def e_def)
  have b: "becomes h ?c1 ?r [] s ?s1" and h1: "h < length (ct_calls ?s1)" and c1: "call_at ?s1 h = ?c1" "ct_router ?s1 = ?r"
    using h by (simp_all add: becomes_put)
  note r = calls_ok_facts(2) [OF ok]
  show ?thesis
  proof (cases "cl_settled ?c")
    case True
    then have w: "cl_awaitingId ?c" using call_okD(3) [OF calls_ok_facts(1) [OF ok h]] t by simp
    have "abandon h e ?s1 = ?s1" using True c1 by (simp add: abandon_def)
    moreover have "becomes h (?c1\<lparr>cl_awaitingId := False\<rparr>) (rt_unexpect ?r) [] s (stopAwaiting h ?s1)"
      using becomes_stop_after [OF b _ h] w by (simp add: clearTimerWhenDone_def)
    moreover have "sound h s (?c1\<lparr>cl_awaitingId := False\<rparr>) (rt_unexpect ?r) []"
      by (rule sound_keep [OF ok h]; simp?;
          use call_okD(7) [OF calls_ok_facts(1) [OF ok h]] unawait_facts [OF ok h w] True w in simp)
    ultimately show ?thesis unfolding g by (simp add: changesI)
  next
    case u: False
    note f = unsettled_facts [OF ok h u]
    let ?g = "given_up (Inl e) ?c1"
    have ab: "becomes h ?g (release_of ?c ?r) (given_up_log h ?c) s (abandon h e ?s1)"
      using becomes_trans [OF b becomes_abandon [OF h1, of e]] u f(2) c1 by (simp add: release_of_def given_up_log_def)
    note fa = becomes_facts [OF ab h]
    have v: "cl_awaitingId (call_at (abandon h e ?s1) h) = cl_awaitingId ?c"
      using vital_fields(4) [OF fa(3)] by (simp add: given_up_simps)
    have x: "given_up_log h ?c = SettleTold h # (case cl_cancelAck (given_up (Inl e) ?c1) of None \<Rightarrow> [] | Some i \<Rightarrow> [CancelRequest h i])"
      by (simp add: given_up_log_def given_up_simps)
    show ?thesis
    proof (cases "cl_awaitingId ?c")
      case False
      then have "onGuardTimeout h s = abandon h e ?s1" using v unfolding g stopAwaiting_def by simp
      moreover have "sound h s ?g (release_of ?c ?r) (given_up_log h ?c)"
        by (rule sound_final [OF ok h u, where res = "Inl e"])
          (use f release_of_facts(1) [OF rt_okD [OF r]] r routes_released [OF ok refl refl] False in
            \<open>simp_all add: given_up_simps release_of_facts(2) x\<close>)
      ultimately show ?thesis using changesI [OF ab] by simp
    next
      case w: True
      then have i: "cl_id ?c = None" using f(4,5) by simp
      have b2: "becomes h (clearTimerWhenDone (?g\<lparr>cl_awaitingId := False\<rparr>)) (rt_unexpect ?r) [SettleTold h] s (onGuardTimeout h s)"
        using becomes_stop_after [OF ab _ h] w i unfolding g by (simp add: given_up_simps release_of_def given_up_log_def)
      have nr: "k \<noteq> h" if "map_of (rt_routes ?r) j = Some k" for j k using calls_ok_facts(3) [OF ok that] i by auto
      have "sound h s (clearTimerWhenDone (?g\<lparr>cl_awaitingId := False\<rparr>)) (rt_unexpect ?r) [SettleTold h]"
        by (rule sound_final [OF ok h u, where res = "Inl e"])
          (use f w i nr unawait_facts [OF ok h w] in \<open>simp_all add: given_up_simps clearTimerWhenDone_def\<close>)
      with b2 show ?thesis by (rule changesI)
    qed
  qed
qed

subsubsection \<open>Listeners and events\<close>

lemma listener_changes:
  assumes "calls_ok s" "h < length (ct_calls s)"
  shows "changes h s (on_event h e fn s)" "changes h s (off_event h e fn s)" "changes h s (run_replay h s)"
  using assms changes_refl [OF assms]
  by (auto intro!: changes_same simp: on_event_def off_event_def run_replay_def becomes_def Let_def vital_def key_log_def filter_empty_conv
      split: list.split replay.split)

lemma onEvent_changes:
  assumes ok: "calls_ok s" and h: "h < length (ct_calls s)"
  shows "changes h s (onEvent h ev s)"
proof (cases "cl_settled (call_at s h)")
  case True
  then show ?thesis using changes_refl [OF ok h] by (simp add: onEvent_def Let_def)
next
  case u: False
  note f = unsettled_facts [OF ok h u]
  have "sound h s (settle_call res (call_at s h)) (release_of (call_at s h) (ct_router s)) [SettleTold h]" for res
    by (rule sound_settle [OF ok h u]) (use f u calls_ok_facts(2) [OF ok] in simp_all)
  then show ?thesis
    using onEvent_heard [OF h u, of ev] changes_status [OF ok h] u unfolding heard_def by (auto intro: changesI)
qed

definition steps_to :: "client \<Rightarrow> client \<Rightarrow> bool" where
  "steps_to s s' \<longleftrightarrow> calls_ok s' \<and> kept s s'"

lemma steps_refl: "calls_ok s \<Longrightarrow> steps_to s s"
  by (simp add: steps_to_def kept_def)

lemma steps_changes: "calls_ok s \<Longrightarrow> h < length (ct_calls s) \<Longrightarrow> changes h s s' \<Longrightarrow> steps_to s s'"
  unfolding steps_to_def using changes_inv [of h s s'] by (simp add: calls_ok_def)

lemma steps_hold:
  assumes "calls_ok s" "rt_expecting (ct_router s) > 0"
  shows "steps_to s (routed (rt_hold t ev) s)"
  using assms rt_ok_hold [OF calls_ok_facts(2) [OF assms(1)] assms(2)]
  by (simp add: steps_to_def kept_def calls_ok_def inv_but_def awaiting_def)

lemma steps_dispatch:
  assumes ok: "calls_ok s"
  shows "steps_to s (dispatch t p s)"
  using steps_refl [OF ok] steps_hold [OF ok] calls_ok_facts(3) [OF ok] steps_changes [OF ok _ onEvent_changes [OF ok]]
  by (auto simp: dispatch_def split: option.split)

subsubsection \<open>A new call\<close>

lemma inv_fresh:
  assumes ok: "calls_ok s"
  shows "inv_but (length (ct_calls s)) (s\<lparr>ct_calls := ct_calls s @ [fresh_call init]\<rparr>)"
proof -
  have "awaiting (s\<lparr>ct_calls := ct_calls s @ [fresh_call init]\<rparr>) = awaiting s" by (simp add: awaiting_def fresh_call_def)
  moreover have "names_only (\<lambda>k. k < Suc (length (ct_calls s))) (ct_log s)"
    using names_weaken [OF calls_ok_facts(5) [OF ok]] by simp
  moreover have "call_at (s\<lparr>ct_calls := ct_calls s @ [fresh_call init]\<rparr>) k = call_at s k" if "k < length (ct_calls s)" for k
    using that by (simp add: call_at_def nth_append)
  ultimately show ?thesis
    using calls_ok_facts(1-4) [OF ok] by (auto simp: inv_but_def less_Suc_eq)
qed

lemma sound_fresh:
  assumes s: "ct_log s = ct_log s0" "ct_router s = ct_router s0" "cl_awaitingId (call_at s h) = False" "\<not> cl_settled (call_at s h)"
      "cl_timer (call_at s h) \<longrightarrow> cl_timer c"
    and ok: "calls_ok s0" "h = length (ct_calls s0)"
    and c: "cl_settled c = False" "cl_result c = None" "cl_status c = CallPending" "cl_id c = None" "cl_cancelAck c = None" "\<not> cl_abandoned c"
      "cl_timer c \<or> cl_failing c \<noteq> None" "cl_awaitingId c \<longrightarrow> cl_timer c" "cl_outstanding c = cl_awaitingId c" "\<not> (cl_outstanding c \<and> cl_awaitingToken c)"
    and r: "rt_ok r" "rt_routes r = rt_routes (ct_router s0)" "rt_expecting r = rt_expecting (ct_router s0) + of_bool (cl_awaitingId c)"
  shows "sound h s c r []"
proof -
  have "told h (ct_log s0) = 0" "cancels h (ct_log s0) = []"
    using names_other [OF calls_ok_facts(5) [OF ok(1)], of h] ok(2) by simp_all
  then have "call_ok h (ct_log s0) c" using c by (auto simp: call_ok_def)
  moreover have "k \<noteq> h" if "map_of (rt_routes (ct_router s0)) j = Some k" for j k
    using calls_ok_facts(3) [OF ok(1) that] ok(2) by auto
  ultimately show ?thesis using s c(1) r unfolding sound_def by simp
qed

lemma steps_new_call:
  assumes ok: "calls_ok s"
  shows "steps_to s (new_call init x s)"
proof -
  define h where "h = length (ct_calls s)"
  define s0 where "s0 = s\<lparr>ct_calls := ct_calls s @ [fresh_call init]\<rparr>"
  have l: "h < length (ct_calls s0)" and c0: "call_at s0 h = fresh_call init" and rt: "ct_router s0 = ct_router s" "ct_log s0 = ct_log s"
    by (simp_all add: s0_def h_def call_at_def)
  note r = calls_ok_facts(2) [OF ok]
  note fresh = sound_fresh [OF rt(2,1) _ _ _ ok h_def, unfolded c0]
  have failing: "changes h s0 (put h (\<lambda>c. c\<lparr>cl_failing := Some e\<rparr>) s0)" for e
    by (rule changesI [OF becomes_put [OF l refl] fresh]) (use r in \<open>simp_all add: c0 rt fresh_call_def\<close>)
  define s1 where "s1 = put h (\<lambda>c. c\<lparr>cl_signal := ci_signal init \<noteq> None\<rparr>) s0"
  have b1: "becomes h (fresh_call init) (ct_router s) [] s0 s1" and l1: "h < length (ct_calls s1)"
    and c1: "call_at s1 h = (fresh_call init)\<lparr>cl_signal := ci_signal init \<noteq> None\<rparr>" "ct_router s1 = ct_router s"
    using l c0 rt by (simp_all add: s1_def becomes_def vital_def)
  have sent: "changes h s0 (send h x s1)"
  proof -
    obtain c r' where b: "becomes h c r' [] s1 (send h x s1)"
      and c: "(\<exists>w. c = (call_at s1 h)\<lparr>cl_failing := Some w\<rparr>) \<and> r' = ct_router s \<or>
        c = (call_at s1 h)\<lparr>cl_awaitingId := True, cl_timer := True, cl_outstanding := True\<rparr> \<and> r' = rt_expect (ct_router s)"
      using becomes_send [OF l1, of x] unfolding c1(2) by blast
    have "sound h s0 ((call_at s1 h)\<lparr>cl_failing := Some w\<rparr>) (ct_router s) []" for w
      by (rule fresh) (use r in \<open>simp_all add: c1 fresh_call_def\<close>)
    moreover have "sound h s0 ((call_at s1 h)\<lparr>cl_awaitingId := True, cl_timer := True, cl_outstanding := True\<rparr>) (rt_expect (ct_router s)) []"
      by (rule fresh) (use rt_ok_expect [OF rt_okD [OF r]] in \<open>simp_all add: c1 fresh_call_def\<close>)
    ultimately have "sound h s0 c r' []" using c by blast
    then show ?thesis using becomes_trans [OF b1 b] changesI by fastforce
  qed
  have asked: "changes h s0 (out [TokenAsked h] (put h (\<lambda>c. c\<lparr>cl_timer := True, cl_awaitingToken := True\<rparr>) s1))"
  proof (rule changesI)
    show "becomes h ((fresh_call init)\<lparr>cl_timer := True, cl_awaitingToken := True\<rparr>) (ct_router s) [] s0
        (out [TokenAsked h] (put h (\<lambda>c. c\<lparr>cl_timer := True, cl_awaitingToken := True\<rparr>) s1))"
      using l1 b1 c1 by (simp add: becomes_def vital_def)
    show "sound h s0 ((fresh_call init)\<lparr>cl_timer := True, cl_awaitingToken := True\<rparr>) (ct_router s) []"
      by (rule fresh) (use r in \<open>simp_all add: fresh_call_def\<close>)
  qed
  have "changes h s0 (new_call init x s)"
    unfolding new_call_def Let_def h_def [symmetric] s0_def [symmetric] s1_def [symmetric] using failing sent asked by simp
  then have "calls_ok (new_call init x s)" "kept s0 (new_call init x s)"
    using changes_inv [OF inv_fresh [OF ok], of init] l by (simp_all add: s0_def h_def)
  moreover have "kept s (new_call init x s)" if "kept s0 (new_call init x s)"
    using that unfolding kept_def s0_def by (auto simp: call_at_def nth_append)
  ultimately show ?thesis by (simp add: steps_to_def)
qed

subsection \<open>Every history\<close>

lemma steps_call_step:
  assumes ok: "calls_ok s"
  shows "steps_to s (call_step e s)"
proof (cases e)
  case (NewCall init x)
  then show ?thesis using steps_new_call [OF ok] by (simp add: call_step_def)
next
  case (ProviderEvent t p)
  then show ?thesis using steps_dispatch [OF ok] steps_refl [OF ok] by (simp add: call_step_def)
qed (auto simp: call_step_def cancel_def onAbort_def intro: steps_refl [OF ok] steps_changes [OF ok _ token_answered_changes [OF ok]]
    steps_changes [OF ok _ run_failing_changes [OF ok]] steps_changes [OF ok _ onAnswer_changes [OF ok]]
    steps_changes [OF ok _ onRequestError_changes [OF ok]] steps_changes [OF ok _ onGuardTimeout_changes [OF ok]]
    steps_changes [OF ok _ abandon_changes [OF ok]] steps_changes [OF ok _ listener_changes(1) [OF ok]]
    steps_changes [OF ok _ listener_changes(2) [OF ok]] steps_changes [OF ok _ listener_changes(3) [OF ok]])

lemma kept_trans:
  assumes "kept s s'" "kept s' s''"
  shows "kept s s''"
proof -
  have "(cl_settled (call_at s k) \<longrightarrow> cl_settled (call_at s'' k) \<and> cl_result (call_at s'' k) = cl_result (call_at s k)) \<and>
      (cl_timer (call_at s k) \<longrightarrow> cl_timer (call_at s'' k) \<or> cl_settled (call_at s'' k))" if k: "k < length (ct_calls s)" for k
  proof -
    have "k < length (ct_calls s')" using assms(1) k by (simp add: kept_def)
    then show ?thesis using assms k unfolding kept_def by metis
  qed
  then show ?thesis using assms unfolding kept_def by simp
qed

lemma calls_ok_new: "calls_ok new_client"
  by (simp add: calls_ok_def inv_but_def new_client_def new_router_def awaiting_def rt_ok_def rt_weak_def MAX_HELD_CALLS_def)

lemma call_history_snoc: "call_history (es @ [e]) = call_step e (call_history es)"
  by (simp add: call_history_def)

lemma calls_ok_history: "calls_ok (call_history es)"
proof (induction es rule: rev_induct)
  case Nil
  then show ?case by (simp add: call_history_def calls_ok_new)
next
  case (snoc e es)
  then show ?case using steps_call_step by (simp add: call_history_snoc steps_to_def)
qed

lemma kept_history: "kept (call_history es) (call_history (es @ fs))"
proof (induction fs rule: rev_induct)
  case Nil
  then show ?case by (simp add: kept_def)
next
  case (snoc f fs)
  have "kept (call_history (es @ fs)) (call_history ((es @ fs) @ [f]))"
    unfolding call_history_snoc using steps_call_step [OF calls_ok_history [of "es @ fs"], of f] by (simp add: steps_to_def)
  then show ?case using kept_trans [OF snoc] by simp
qed

text \<open>In every history the page listens to the extension's \<open>call\<close> events exactly while some call awaits
  the answer to its \<open>writ_call\<close> or has a route; the router counts the awaiting calls; every route leads to an
  unsettled call of that id; and what it holds for unclaimed ids stays bounded.\<close>

theorem listening_while_calls_run:
  "let s = call_history es; r = ct_router s in
    (rt_attached r \<longleftrightarrow> list_ex cl_awaitingId (ct_calls s) \<or> 0 < length (rt_routes r)) \<and>
    rt_expecting r = length (filter cl_awaitingId (ct_calls s)) \<and>
    {(i, h). map_of (rt_routes r) i = Some h} \<subseteq>
      {(i, h). h < length (ct_calls s) \<and> cl_id (call_at s h) = Some i \<and> \<not> cl_settled (call_at s h)} \<and>
    length (rt_held r) \<le> MAX_HELD_CALLS \<and> list_all (\<lambda>(i, since, evs). length evs \<le> MAX_HELD_EVENTS_PER_CALL) (rt_held r)"
proof -
  define s where "s = call_history es"
  define r where "r = ct_router s"
  have ok: "calls_ok s" unfolding s_def by (rule calls_ok_history)
  have e: "rt_expecting r = length (filter cl_awaitingId (ct_calls s))"
    using calls_ok_facts(4) [OF ok] by (simp add: r_def awaiting_def)
  then have "rt_expecting r > 0 \<longleftrightarrow> list_ex cl_awaitingId (ct_calls s)"
    by (auto simp: list_ex_iff filter_empty_conv)
  moreover have "{(i, h). map_of (rt_routes r) i = Some h} \<subseteq>
      {(i, h). h < length (ct_calls s) \<and> cl_id (call_at s h) = Some i \<and> \<not> cl_settled (call_at s h)}"
    using calls_ok_facts(3) [OF ok] unfolding r_def by blast
  moreover have "rt_attached r \<longleftrightarrow> rt_expecting r > 0 \<or> rt_routes r \<noteq> []" "length (rt_held r) \<le> MAX_HELD_CALLS"
      "list_all (\<lambda>(i, since, evs). length evs \<le> MAX_HELD_EVENTS_PER_CALL) (rt_held r)"
    using calls_ok_facts(2) [OF ok] unfolding r_def [symmetric] by (auto simp: rt_ok_def rt_weak_def)
  ultimately show ?thesis using e unfolding Let_def s_def [symmetric] r_def [symmetric] by (intro conjI) simp_all
qed

text \<open>C20: A call settles once: whatever comes after, its result stays, its status is the result's, and the page
  is told of its settling exactly once.\<close>

theorem call_settles_once:
  assumes "h < length (ct_calls (call_history es))" "cl_result (call_at (call_history es) h) = Some res"
  shows "cl_result (call_at (call_history (es @ fs)) h) = Some res \<and>
    cl_status (call_at (call_history (es @ fs)) h) = final_status res \<and> told h (ct_log (call_history (es @ fs))) = 1"
proof -
  let ?s = "call_history (es @ fs)"
  have "cl_settled (call_at (call_history es) h)"
    using call_okD(1) [OF calls_ok_facts(1) [OF calls_ok_history assms(1)]] assms(2) by simp
  then have r: "cl_settled (call_at ?s h)" "cl_result (call_at ?s h) = Some res" "h < length (ct_calls ?s)"
    using kept_history [of es fs] assms unfolding kept_def by simp_all
  then show ?thesis using call_okD(2,10) [OF calls_ok_facts(1) [OF calls_ok_history r(3)]] by simp
qed

text \<open>C22: A run the page gave up on is told to stop, once: when a call that the page or its guard abandoned has
  an id, that run was cancelled; and when the answer to its \<open>writ_call\<close> names a run only after the call
  settled, the answer makes the page cancel it.\<close>

theorem given_up_run_cancelled:
  assumes "h < length (ct_calls (call_history es))"
  shows "(cl_abandoned (call_at (call_history es) h) \<and> cl_id (call_at (call_history es) h) = Some i \<longrightarrow>
      cancels h (ct_log (call_history es)) = [i]) \<and>
    (cl_outstanding (call_at (call_history es) h) \<and> cl_settled (call_at (call_history es) h) \<and> readCallId a = Some i \<longrightarrow>
      cancels h (ct_log (call_history (es @ [CallAnswered h a]))) = [i])"
proof -
  let ?s = "call_history es"
  note d = call_okD [OF calls_ok_facts(1) [OF calls_ok_history assms]]
  have "cancels h (ct_log (call_history (es @ [CallAnswered h a]))) = [i]"
    if "cl_outstanding (call_at ?s h)" "cl_settled (call_at ?s h)" "readCallId a = Some i"
  proof -
    have c: "cl_cancelAck (call_at ?s h) = None" using d(6) that by blast
    then have l: "cancels h (ct_log ?s) = []" using d(11) by simp
    have e: "call_history (es @ [CallAnswered h a]) = onAnswer h a (answered h ?s)"
      using assms that unfolding call_history_snoc by (simp add: call_step_def)
    show ?thesis
      using assms that c l unfolding e
      by (simp add: onAnswer_def Let_def sendCancel_def answered_def stopAwaiting_def)
  qed
  moreover have "cancels h (ct_log ?s) = [i]" if "cl_abandoned (call_at ?s h)" "cl_id (call_at ?s h) = Some i"
    using d(9,11) that by simp
  ultimately show ?thesis by blast
qed

subsection \<open>Every call settles\<close>

text \<open>An endless history, and what the page's event loop owes it: a set timer fires unless it is cleared, and a
  queued failure is run.\<close>

definition so_far :: "(nat \<Rightarrow> call_step) \<Rightarrow> nat \<Rightarrow> client" where
  "so_far events n = call_history (map events [0..<n])"

definition loop_runs :: "(nat \<Rightarrow> call_step) \<Rightarrow> nat \<Rightarrow> bool" where
  "loop_runs events h \<longleftrightarrow>
     (\<forall>n. cl_timer (call_at (so_far events n) h) \<longrightarrow> (\<exists>m \<ge> n. events m = GuardFires h \<or> \<not> cl_timer (call_at (so_far events m) h))) \<and>
     (\<forall>n. cl_failing (call_at (so_far events n) h) \<noteq> None \<longrightarrow>
        (\<exists>m \<ge> n. events m = FailTask h \<or> cl_failing (call_at (so_far events m) h) = None))"

lemma so_far_later: "n \<le> m \<Longrightarrow> \<exists>fs. so_far events m = call_history (map events [0..<n] @ fs)"
  unfolding so_far_def by (metis le_add_diff_inverse map_append upt_add_eq_append zero_le)

lemma so_far_kept: "n \<le> m \<Longrightarrow> kept (so_far events n) (so_far events m)"
  using so_far_later [of n m events] kept_history [of "map events [0..<n]"] by (auto simp: so_far_def)

lemma so_far_Suc: "so_far events (Suc n) = call_step (events n) (so_far events n)"
  by (simp add: so_far_def call_history_snoc)

lemma fail_settles:
  assumes "h < length (ct_calls s)"
  shows "cl_settled (call_at (fail h e s) h)"
proof (cases "cl_settled (call_at s h)")
  case True
  then show ?thesis by (simp add: fail_def)
next
  case False
  note b = becomes_fail [OF assms False, of e]
  show ?thesis
    using vital_fields(3) [OF becomes_facts(3) [OF b assms]] by (simp add: settle_call_def clearTimerWhenDone_def)
qed

lemma guard_settles:
  assumes ok: "calls_ok s" and h: "h < length (ct_calls s)"
  shows "cl_settled (call_at (onGuardTimeout h s) h)"
proof -
  let ?s = "put h (\<lambda>c. c\<lparr>cl_timer := False\<rparr>) s"
  have h1: "h < length (ct_calls ?s)" using h by simp
  have a: "h < length (ct_calls (abandon h e ?s)) \<and> cl_settled (call_at (abandon h e ?s) h)" for e
  proof (cases "cl_settled (call_at s h)")
    case True
    then show ?thesis using h by (simp add: abandon_def)
  next
    case False
    note b = becomes_abandon [OF h1, of e]
    have "\<not> cl_settled (call_at ?s h)" "cl_cancelAck (call_at ?s h) = None" using False unsettled_facts(2) [OF ok h False] h by simp_all
    from becomes_facts [OF b [OF this] h1] show ?thesis using vital_fields(3) given_up_simps(1) by metis
  qed
  have "cl_settled (call_at (stopAwaiting h t) h)" if "h < length (ct_calls t)" "cl_settled (call_at t h)" for t
    using vital_fields(3) [OF becomes_facts(3) [OF becomes_stopAwaiting [OF that(1)] that(1)]] that(2)
    by (simp add: clearTimerWhenDone_def split: if_splits)
  then show ?thesis using a by (simp add: onGuardTimeout_def)
qed

lemma run_failing_settles:
  assumes "h < length (ct_calls s)" "cl_failing (call_at s h) \<noteq> None"
  shows "cl_settled (call_at (run_failing h s) h)"
  using assms fail_settles [of h "put h (\<lambda>c. c\<lparr>cl_failing := None\<rparr>) s"] by (auto simp: run_failing_def)

text \<open>C21: Every call settles: in a page whose event loop fires set timers and runs queued tasks, each call that was
  made is settled after finitely many callbacks, whatever the extension and Writ Cloud answer, or if they
  never answer.\<close>

theorem every_call_settles:
  assumes runs: "loop_runs events h" and made: "h < length (ct_calls (so_far events n))"
  shows "\<exists>m. n \<le> m \<and> cl_settled (call_at (so_far events m) h) \<and> cl_result (call_at (so_far events m) h) \<noteq> None"
proof -
  let ?s = "so_far events" and ?c = "\<lambda>m. call_at (so_far events m) h"
  have ok: "calls_ok (?s m)" for m unfolding so_far_def by (rule calls_ok_history)
  have made: "h < length (ct_calls (?s m))" if "n \<le> m" for m using so_far_kept [OF that, of events] made by (simp add: kept_def)
  have by_timer: "\<exists>m \<ge> k. cl_settled (?c m)" if k: "n \<le> k" "cl_timer (?c k)" for k
  proof -
    obtain m where m: "m \<ge> k" "events m = GuardFires h \<or> \<not> cl_timer (?c m)" using runs k unfolding loop_runs_def by blast
    have l: "h < length (ct_calls (?s m))" using made m k by simp
    show ?thesis
    proof (cases "cl_timer (?c m)")
      case True
      then have "?s (Suc m) = onGuardTimeout h (?s m)" using m(2) l by (simp add: so_far_Suc call_step_def)
      then show ?thesis using guard_settles [OF ok l] m(1) by (metis le_SucI)
    next
      case False
      then have "cl_settled (?c m)" using so_far_kept [OF m(1), of events] made [OF k(1)] k(2) by (auto simp: kept_def)
      then show ?thesis using m(1) by blast
    qed
  qed
  have "\<exists>m \<ge> n. cl_settled (?c m)"
  proof (rule ccontr)
    assume none: "\<not> (\<exists>m \<ge> n. cl_settled (?c m))"
    have failing: "cl_failing (?c m) \<noteq> None" if "n \<le> m" for m
      using call_okD(4) [OF calls_ok_facts(1) [OF ok made [OF that]]] none by_timer [OF that] that le_trans by blast
    then obtain m where m: "m \<ge> n" "events m = FailTask h" using runs unfolding loop_runs_def by blast
    have "?s (Suc m) = run_failing h (?s m)" using m made by (simp add: so_far_Suc call_step_def)
    then show False using run_failing_settles [OF made failing] m none by (metis le_SucI)
  qed
  then show ?thesis using call_okD(1) [OF calls_ok_facts(1) [OF ok made]] by blast
qed

end
