(* ===== verification/Page_Session_Safety.thy ===== *)
theory Page_Session_Safety
  imports Page_Session Visitor_Call_Safety
begin

section \<open>What a session sends, and how it ends\<close>

text \<open>
  Which \<open>writ_call\<close> requests a history of a session makes, and that a disconnected session leaves no call
  running.  \<open>calm\<close> is a change of the client that sends no request and starts no wait for a token.
\<close>

subsection \<open>Requests\<close>

definition reqs :: "nat \<Rightarrow> call_out list \<Rightarrow> (fields \<times> jsstring option) list" where
  "reqs h xs = concat (map (\<lambda>x. case x of CallRequest k p tk \<Rightarrow> if k = h then [(p, tk)] else [] | _ \<Rightarrow> []) xs)"

definition calm :: "client \<Rightarrow> client \<Rightarrow> bool" where
  "calm s s' \<longleftrightarrow>
     length (ct_calls s') = length (ct_calls s) \<and> (\<forall>h. reqs h (ct_log s') = reqs h (ct_log s)) \<and>
     (\<forall>k. cl_params (call_at s' k) = cl_params (call_at s k) \<and> cl_awaitingToken (call_at s' k) = cl_awaitingToken (call_at s k))"

lemma reqs_simps [simp]:
  "reqs h [] = []" "reqs h (xs @ ys) = reqs h xs @ reqs h ys" "reqs h (SettleTold k # xs) = reqs h xs"
  "reqs h (CancelRequest k i # xs) = reqs h xs" "reqs h (Invoked k e fn x # xs) = reqs h xs"
  "reqs h (FailureTold k w # xs) = reqs h xs" "reqs h (TokenRefused k t # xs) = reqs h xs" "reqs h (TokenAsked k # xs) = reqs h xs"
  "reqs h (CallRequest k p tk # xs) = (if k = h then [(p, tk)] else []) @ reqs h xs"
  by (simp_all add: reqs_def)

lemma reqs_invoked [simp]: "reqs h (map (\<lambda>fn. Invoked k e fn x) fns) = []"
  by (induction fns) simp_all

lemma reqs_invoked_all [simp]: "reqs h (concat (map (\<lambda>x. map (\<lambda>fn. Invoked k e fn x) fns) xs)) = []"
  by (induction xs) simp_all

lemma calm_refl: "calm s s"
  by (simp add: calm_def)

lemma calm_put:
  assumes "calm s t" "\<And>c. cl_params (f c) = cl_params c" "\<And>c. cl_awaitingToken (f c) = cl_awaitingToken c"
  shows "calm s (put h f t)"
proof -
  have "cl_params (call_at (put h f t) k) = cl_params (call_at t k) \<and> cl_awaitingToken (call_at (put h f t) k) = cl_awaitingToken (call_at t k)" for k
    using assms(2,3) by (cases "h < length (ct_calls t)"; cases "k = h") (simp_all add: put_def call_at_def list_update_beyond)
  then show ?thesis using assms(1) by (simp add: calm_def)
qed

lemma calm_out: "calm s t \<Longrightarrow> (\<And>h. reqs h xs = []) \<Longrightarrow> calm s (out xs t)"
  by (simp add: calm_def)

lemma calm_routed: "calm s t \<Longrightarrow> calm s (routed g t)"
  by (simp add: calm_def)

lemma calm_if: "calm s a \<Longrightarrow> calm s b \<Longrightarrow> calm s (if p then a else b)"
  by simp

lemma calm_option: "calm s a \<Longrightarrow> (\<And>x. calm s (f x)) \<Longrightarrow> calm s (case v of None \<Rightarrow> a | Some x \<Rightarrow> f x)"
  by (simp split: option.split)

lemma calm_jsval:
  "calm s a \<Longrightarrow> (\<And>x. calm s (f x)) \<Longrightarrow> calm s (case v of VStr x \<Rightarrow> f x | _ \<Rightarrow> a)"
  by (simp split: jsval.split)

lemma calm_pair: "(\<And>x y. calm s (f x y)) \<Longrightarrow> calm s (case v of (x, y) \<Rightarrow> f x y)"
  by (simp split: prod.split)

lemma kept_fields [simp]:
  "cl_params (clearTimerWhenDone c) = cl_params c" "cl_awaitingToken (clearTimerWhenDone c) = cl_awaitingToken c"
  "cl_params (note_run r c) = cl_params c" "cl_awaitingToken (note_run r c) = cl_awaitingToken c"
  by (simp_all add: clearTimerWhenDone_def note_run_def split: option.split)

lemmas calm_rules = calm_put calm_out calm_routed calm_if calm_option calm_jsval calm_pair

lemma calm_emit: "calm s t \<Longrightarrow> calm s (Visitor_Call.emit h e x t)"
  unfolding Visitor_Call.emit_def Let_def by (intro calm_rules; simp)

lemma calm_cleanup: "calm s t \<Longrightarrow> calm s (cleanup h t)"
  unfolding cleanup_def Let_def by (intro calm_rules; simp)

lemma calm_fail: "calm s t \<Longrightarrow> calm s (fail h e t)"
  unfolding fail_def Let_def by (intro calm_rules calm_emit calm_cleanup; simp)

lemma calm_finish: "calm s t \<Longrightarrow> calm s (finish h r t)"
  unfolding finish_def Let_def by (intro calm_rules calm_emit calm_cleanup; simp)

lemma calm_onEvent: "calm s t \<Longrightarrow> calm s (onEvent h ev t)"
  unfolding onEvent_def Let_def by (intro calm_rules calm_emit calm_finish calm_fail; simp)

lemma calm_sendCancel: "calm s t \<Longrightarrow> calm s (sendCancel h i t)"
  unfolding sendCancel_def by (intro calm_rules; simp)

lemma calm_abandon: "calm s t \<Longrightarrow> calm s (abandon h e t)"
  unfolding abandon_def Let_def by (intro calm_rules calm_fail calm_sendCancel; simp)

lemma calm_stopAwaiting: "calm s t \<Longrightarrow> calm s (stopAwaiting h t)"
  unfolding stopAwaiting_def by (intro calm_rules; simp)

lemma calm_replay: "calm s t \<Longrightarrow> calm s (replay_held h i evs t)"
  by (induction evs arbitrary: t) (auto intro: calm_onEvent)

lemma calm_claim: "calm s t \<Longrightarrow> calm s (claim h i t)"
  unfolding claim_def Let_def by (intro calm_rules calm_replay; simp)

lemma calm_dispatch: "calm s t \<Longrightarrow> calm s (Visitor_Call.dispatch now p t)"
  unfolding Visitor_Call.dispatch_def by (intro calm_rules calm_onEvent; simp)

lemma calm_answered: "calm s t \<Longrightarrow> calm s (answered h t)"
  unfolding answered_def by (intro calm_rules; simp)

lemma calm_onAnswer: "calm s t \<Longrightarrow> calm s (onAnswer h a t)"
  unfolding onAnswer_def Let_def by (intro calm_rules calm_sendCancel calm_fail calm_stopAwaiting calm_claim; simp)

lemma calm_onRequestError: "calm s t \<Longrightarrow> calm s (onRequestError h x t)"
  unfolding onRequestError_def by (intro calm_rules calm_fail calm_stopAwaiting; simp)

lemma calm_onGuardTimeout: "calm s t \<Longrightarrow> calm s (onGuardTimeout h t)"
  unfolding onGuardTimeout_def Let_def by (intro calm_rules calm_abandon calm_stopAwaiting; simp)

lemma calm_listeners: "calm s t \<Longrightarrow> calm s (on_event h e fn t)" "calm s t \<Longrightarrow> calm s (off_event h e fn t)" "calm s t \<Longrightarrow> calm s (run_replay h t)"
  unfolding on_event_def off_event_def run_replay_def Let_def
  by (auto intro!: calm_rules simp del: call.unfold_congs split: list.split replay.split)

lemma calm_run_failing: "calm s t \<Longrightarrow> calm s (run_failing h t)"
  unfolding run_failing_def by (intro calm_rules calm_fail; simp)

lemma calm_step:
  assumes "\<And>init x. e \<noteq> NewCall init x" "\<And>h a x. e \<noteq> TokenAnswered h a x"
  shows "calm s (call_step e s)"
  using assms unfolding call_step_def Let_def cancel_def onAbort_def
  by (cases e) (auto intro: calm_refl calm_run_failing calm_onAnswer calm_answered calm_onRequestError calm_dispatch calm_onGuardTimeout
      calm_abandon calm_listeners)

subsection \<open>At most one request for a call, with what it was made with\<close>

definition inits :: "call_step list \<Rightarrow> call_init list" where
  "inits es = concat (map (\<lambda>e. case e of NewCall init x \<Rightarrow> [init] | _ \<Rightarrow> []) es)"

definition request_of :: "call_init \<Rightarrow> (fields \<times> jsstring option) list \<Rightarrow> bool" where
  "request_of init rs \<longleftrightarrow> rs = [] \<or>
     (\<exists>p tk. ci_params init = Some p \<and> ci_error init = None \<and> rs = [(p, tk)] \<and> (tk \<noteq> None \<longleftrightarrow> ci_runToken init))"

definition asks_token :: "call_init \<Rightarrow> bool" where
  "asks_token init \<longleftrightarrow> ci_runToken init \<and> ci_error init = None \<and> ci_params init \<noteq> None"

definition requests_ok :: "call_init list \<Rightarrow> client \<Rightarrow> bool" where
  "requests_ok is s \<longleftrightarrow>
     length (ct_calls s) = length is \<and> (\<forall>h \<ge> length is. reqs h (ct_log s) = []) \<and>
     (\<forall>h < length is. cl_params (call_at s h) = ci_params (is ! h) \<and> request_of (is ! h) (reqs h (ct_log s)) \<and>
        (cl_awaitingToken (call_at s h) \<longrightarrow> asks_token (is ! h) \<and> reqs h (ct_log s) = []))"

lemma requests_calm: "requests_ok is s \<Longrightarrow> calm s s' \<Longrightarrow> requests_ok is s'"
  by (simp add: requests_ok_def calm_def)

lemma send_effect:
  assumes "h < length (ct_calls s)"
  shows "length (ct_calls (Visitor_Call.send h x s)) = length (ct_calls s)"
    "cl_params (call_at (Visitor_Call.send h x s) k) = cl_params (call_at s k)" "cl_awaitingToken (call_at (Visitor_Call.send h x s) k) = cl_awaitingToken (call_at s k)"
    "reqs k (ct_log (Visitor_Call.send h x s)) = reqs k (ct_log s) \<or>
     k = h \<and> reqs k (ct_log (Visitor_Call.send h x s)) = reqs k (ct_log s) @ [(case cl_params (call_at s h) of Some p \<Rightarrow> p | None \<Rightarrow> [], cl_token (call_at s h))]"
  using assms by (cases "k = h"; simp add: Visitor_Call.send_def split: option.split)+

lemma requests_send:
  assumes ok: "requests_ok is s" and h: "h < length is" and i: "reqs h (ct_log s) = []" "ci_params (is ! h) \<noteq> None" "ci_error (is ! h) = None"
    and t: "cl_token (call_at s h) \<noteq> None \<longleftrightarrow> ci_runToken (is ! h)" "\<not> cl_awaitingToken (call_at s h)"
  shows "requests_ok is (Visitor_Call.send h x s)"
proof -
  have l: "h < length (ct_calls s)" using ok h by (simp add: requests_ok_def)
  note e = send_effect [OF l, where x = x]
  have p: "cl_params (call_at s h) = ci_params (is ! h)" using ok h by (simp add: requests_ok_def)
  have "request_of (is ! h) (reqs h (ct_log (Visitor_Call.send h x s)))"
    using e(4) [where k = h] i t(1) p by (auto simp: request_of_def)
  then show ?thesis
    using ok e h t(2) unfolding requests_ok_def by (metis not_less)
qed

lemma requests_token:
  assumes ok: "requests_ok is s" and h: "h < length (ct_calls s)" and w: "cl_awaitingToken (call_at s h)"
  shows "requests_ok is (token_answered h a x s)"
proof -
  let ?s = "put h (\<lambda>c. c\<lparr>cl_awaitingToken := False\<rparr>) s"
  have i: "h < length is" "asks_token (is ! h)" "reqs h (ct_log s) = []" using ok h w by (simp_all add: requests_ok_def)
  have c: "call_at ?s k = (if k = h then (call_at s h)\<lparr>cl_awaitingToken := False\<rparr> else call_at s k)" for k
    using h by simp
  have ok1: "requests_ok is ?s" using ok by (simp add: requests_ok_def c)
  show ?thesis
  proof (cases a)
    case (Inl e)
    then show ?thesis using requests_calm [OF ok1 calm_fail [OF calm_refl]] by (simp add: token_answered_def Let_def)
  next
    case (Inr t)
    let ?s2 = "put h (\<lambda>c. c\<lparr>cl_token := Some t\<rparr>) ?s"
    have "requests_ok is ?s2" by (rule requests_calm [OF ok1 calm_put [OF calm_refl]]) simp_all
    then have "requests_ok is (Visitor_Call.send h x ?s2)"
      by (rule requests_send) (use i h in \<open>simp_all add: asks_token_def\<close>)
    then show ?thesis using Inr ok1 by (simp add: token_answered_def Let_def)
  qed
qed

lemma requests_fresh:
  assumes "requests_ok is s"
  shows "requests_ok (is @ [init]) (s\<lparr>ct_calls := ct_calls s @ [fresh_call init]\<rparr>)"
  using assms by (auto simp: requests_ok_def call_at_def nth_append fresh_call_def request_of_def less_Suc_eq)

lemma requests_new:
  assumes ok: "requests_ok is s"
  shows "requests_ok (is @ [init]) (new_call init x s)"
proof -
  let ?h = "length (ct_calls s)"
  define s0 where "s0 = s\<lparr>ct_calls := ct_calls s @ [fresh_call init]\<rparr>"
  have ok0: "requests_ok (is @ [init]) s0" unfolding s0_def by (rule requests_fresh [OF ok])
  have h: "?h = length is" using ok by (simp add: requests_ok_def)
  have c0: "call_at s0 ?h = fresh_call init" "?h < length (ct_calls s0)" by (simp_all add: s0_def call_at_def)
  have r0: "reqs ?h (ct_log s0) = []" using ok h by (simp add: requests_ok_def s0_def)
  have failing: "requests_ok (is @ [init]) (put ?h (\<lambda>c. c\<lparr>cl_failing := e\<rparr>) s0)" for e
    by (rule requests_calm [OF ok0 calm_put [OF calm_refl]]) simp_all
  define s1 where "s1 = put ?h (\<lambda>c. c\<lparr>cl_signal := ci_signal init \<noteq> None\<rparr>) s0"
  have ok1: "requests_ok (is @ [init]) s1" unfolding s1_def by (rule requests_calm [OF ok0 calm_put [OF calm_refl]]) simp_all
  have r1: "reqs ?h (ct_log s1) = []" "call_at s1 ?h = (fresh_call init)\<lparr>cl_signal := ci_signal init \<noteq> None\<rparr>" "?h < length (ct_calls s1)"
    using r0 c0 by (simp_all add: s1_def)
  have sent: "requests_ok (is @ [init]) (Visitor_Call.send ?h x s1)" if "ci_error init = None" "ci_params init \<noteq> None" "\<not> ci_runToken init"
    by (rule requests_send [OF ok1]) (use that h r1 in \<open>simp_all add: nth_append fresh_call_def\<close>)
  have asked: "requests_ok (is @ [init]) (out [TokenAsked ?h] (put ?h (\<lambda>c. c\<lparr>cl_timer := True, cl_awaitingToken := True\<rparr>) s1))"
    if "ci_error init = None" "ci_params init \<noteq> None" "ci_runToken init"
  proof -
    have "call_at (put ?h (\<lambda>c. c\<lparr>cl_timer := True, cl_awaitingToken := True\<rparr>) s1) k =
        (if k = ?h then (call_at s1 ?h)\<lparr>cl_timer := True, cl_awaitingToken := True\<rparr> else call_at s1 k)" for k
      using r1(3) by simp
    moreover have "asks_token ((is @ [init]) ! ?h)" using that h by (simp add: asks_token_def)
    ultimately show ?thesis
      using ok1 r1(1) unfolding requests_ok_def by simp
  qed
  show ?thesis
    unfolding new_call_def Let_def s0_def [symmetric] s1_def [symmetric] using failing sent asked by auto
qed

lemma requests_history: "requests_ok (inits es) (call_history es)"
proof (induction es rule: rev_induct)
  case Nil
  then show ?case by (simp add: requests_ok_def inits_def call_history_def new_client_def)
next
  case (snoc e es)
  let ?s = "call_history es"
  show ?case
  proof (cases e)
    case (NewCall init x)
    then show ?thesis using requests_new [OF snoc] by (simp add: call_history_snoc call_step_def inits_def)
  next
    case (TokenAnswered h a x)
    then show ?thesis using requests_token [OF snoc] snoc by (simp add: call_history_snoc call_step_def inits_def)
  qed (use requests_calm [OF snoc calm_step [of e ?s]] in \<open>simp_all add: call_history_snoc inits_def\<close>)
qed

subsection \<open>The session's calls are calls of its client\<close>

lemma cancel_settles:
  assumes ok: "calls_ok s" and h: "h < length (ct_calls s)"
  shows "cl_settled (call_at (cancel h s) h)"
proof (cases "cl_settled (call_at s h)")
  case True
  then show ?thesis by (simp add: cancel_def abandon_def)
next
  case False
  note b = becomes_abandon [OF h False unsettled_facts(2) [OF ok h False], of cancelled]
  show ?thesis
    using vital_fields(3) [OF becomes_facts(3) [OF b h]] by (simp add: cancel_def given_up_simps)
qed

lemma call_history_append: "call_history (es @ fs) = fold call_step fs (call_history es)"
  by (simp add: call_history_def)

lemma history_length: "length (ct_calls (call_history es)) = length (inits es)"
  using requests_history [of es] by (simp add: requests_ok_def)

lemma history_params: "h < length (inits es) \<Longrightarrow> cl_params (call_at (call_history es) h) = ci_params (inits es ! h)"
  using requests_history [of es] by (simp add: requests_ok_def)

lemma inits_append [simp]: "inits (es @ fs) = inits es @ inits fs"
  by (simp add: inits_def)

lemma inits_cancels [simp]: "inits (map Cancel hs) = []"
  by (induction hs) (simp_all add: inits_def)

lemma inits_callback: "is_callback e \<Longrightarrow> inits [e] = []"
  by (cases e) (simp_all add: inits_def is_callback_def)

lemma fold_cancel:
  "\<forall>h \<in> set hs. h < length (ct_calls (call_history es)) \<Longrightarrow> fold cancel hs (call_history es) = call_history (es @ map Cancel hs)"
proof (induction hs arbitrary: es)
  case (Cons h hs)
  have "call_history (es @ [Cancel h]) = cancel h (call_history es)"
    using Cons.prems by (simp add: call_history_snoc call_step_def)
  moreover have "length (ct_calls (call_history (es @ [Cancel h]))) = length (ct_calls (call_history es))"
    by (simp add: history_length inits_def)
  ultimately show ?case using Cons.IH [of "es @ [Cancel h]"] Cons.prems by simp
qed simp

lemma cancels_settle:
  assumes "\<forall>h \<in> set hs. h < length (ct_calls (call_history es))" "k \<in> set hs"
  shows "cl_settled (call_at (call_history (es @ map Cancel hs)) k)"
  using assms
proof (induction hs arbitrary: es)
  case (Cons h hs)
  have e: "call_history (es @ [Cancel h]) = cancel h (call_history es)"
    using Cons.prems by (simp add: call_history_snoc call_step_def)
  have l: "length (ct_calls (call_history (es @ [Cancel h]))) = length (ct_calls (call_history es))"
    by (simp add: history_length inits_def)
  show ?case
  proof (cases "k = h")
    case True
    have "cl_settled (call_at (call_history (es @ [Cancel h])) h)"
      using cancel_settles [OF calls_ok_history] Cons.prems e by simp
    then show ?thesis
      using kept_history [of "es @ [Cancel h]" "map Cancel hs"] l Cons.prems True by (simp add: kept_def)
  next
    case False
    then show ?thesis using Cons.IH [of "es @ [Cancel h]"] Cons.prems l by simp
  qed
qed simp

text \<open>The history of calls behind a session, and what \<open>inFlight\<close> holds.\<close>

definition made_by :: "linked_config \<Rightarrow> (jsval \<Rightarrow> bool) \<Rightarrow> call_init \<Rightarrow> bool" where
  "made_by cfg P init \<longleftrightarrow> (\<exists>d key inputs options. P inputs \<and> init = session_init cfg d key inputs options)"

definition flying :: "session \<Rightarrow> bool" where
  "flying s \<longleftrightarrow>
     (\<forall>h \<in> set (ss_inFlight s). h < length (ct_calls (ss_client s))) \<and>
     (\<forall>h < length (ct_calls (ss_client s)). cl_params (call_at (ss_client s) h) \<noteq> None \<longrightarrow>
        cl_settled (call_at (ss_client s) h) \<or> \<not> ss_disconnected s \<and> h \<in> set (ss_inFlight s))"

definition session_ok :: "linked_config \<Rightarrow> (jsval \<Rightarrow> bool) \<Rightarrow> session \<Rightarrow> bool" where
  "session_ok cfg P s \<longleftrightarrow> (\<exists>es. ss_client s = call_history es \<and> (\<forall>init \<in> set (inits es). made_by cfg P init)) \<and> flying s"

lemma not_told:
  assumes "h < length (ct_calls (call_history es))" "\<not> cl_settled (call_at (call_history es) h)"
  shows "SettleTold h \<notin> set (ct_log (call_history es))"
  using call_okD(10) [OF calls_ok_facts(1) [OF calls_ok_history assms(1)]] assms(2) by (auto simp: told_def filter_empty_conv)

lemma flying_with:
  assumes f: "flying s" and c: "ss_client s = call_history es" "f (ss_client s) = call_history (es @ fs)" and i: "inits fs = []"
  shows "flying (with_client f s)"
proof -
  let ?s = "with_client f s"
  have l: "length (ct_calls (call_history (es @ fs))) = length (ct_calls (call_history es))" using i by (simp add: history_length)
  have c': "ss_client ?s = call_history (es @ fs)" using c by (simp add: with_client_def Let_def)
  have p: "cl_params (call_at (call_history (es @ fs)) h) = cl_params (call_at (call_history es) h)" if "h < length (ct_calls (call_history es))" for h
    using that history_params [of h es] history_params [of h "es @ fs"] i by (simp add: history_length)
  have k: "cl_settled (call_at (call_history (es @ fs)) h)" if "h < length (ct_calls (call_history es))" "cl_settled (call_at (call_history es) h)" for h
    using kept_history [of es fs] that by (simp add: kept_def)
  have m: "h \<in> set (ss_inFlight ?s)" if "h \<in> set (ss_inFlight s)" "\<not> cl_settled (call_at (call_history (es @ fs)) h)" for h
  proof -
    have "h < length (ct_calls (call_history (es @ fs)))" using f that(1) c l by (simp add: flying_def)
    from not_told [OF this that(2)] show ?thesis using that(1) c by (auto simp: with_client_def Let_def dest: in_set_dropD)
  qed
  have sub: "set (ss_inFlight ?s) \<subseteq> set (ss_inFlight s)" by (auto simp: with_client_def Let_def)
  have d: "ss_disconnected ?s = ss_disconnected s" by (simp add: with_client_def Let_def)
  show ?thesis
    using f sub m k p l unfolding flying_def c' c(1) d by (metis subsetD)
qed

lemma session_init_cases:
  "ci_error (session_init cfg d key inputs options) = None \<longleftrightarrow> ci_params (session_init cfg d key inputs options) \<noteq> None"
  "d \<Longrightarrow> ci_params (session_init cfg d key inputs options) = None"
  by (auto simp: session_init_def prepare_call_def result_simps split: sum.split prod.split)

lemma session_ok_call:
  assumes ok: "session_ok cfg P s" and p: "P inputs"
  shows "session_ok cfg P (session_call cfg key inputs options x s)"
proof -
  obtain es where c: "ss_client s = call_history es" and m: "\<forall>init \<in> set (inits es). made_by cfg P init" and f: "flying s"
    using ok unfolding session_ok_def by blast
  define init where "init = session_init cfg (ss_disconnected s) key inputs options"
  let ?e = "NewCall init x" and ?h = "length (ct_calls (ss_client s))"
  let ?s1 = "with_client (new_call init x) s"
  have n: "new_call init x (ss_client s) = call_history (es @ [?e])" using c by (simp add: call_history_snoc call_step_def)
  have i: "inits (es @ [?e]) = inits es @ [init]" by (simp add: inits_def)
  have l: "length (ct_calls (call_history (es @ [?e]))) = Suc ?h" "?h = length (inits es)" using c i by (simp_all add: history_length)
  have c1: "ss_client ?s1 = call_history (es @ [?e])" and d1: "ss_disconnected ?s1 = ss_disconnected s"
    and sub: "set (ss_inFlight ?s1) \<subseteq> set (ss_inFlight s)"
    using n by (auto simp: with_client_def Let_def)
  have old: "cl_settled (call_at (ss_client ?s1) h) \<or> \<not> ss_disconnected s \<and> h \<in> set (ss_inFlight ?s1)"
    if h: "h < ?h" "cl_params (call_at (ss_client ?s1) h) \<noteq> None" for h
  proof (cases "cl_settled (call_at (call_history (es @ [?e])) h)")
    case False
    have "\<not> cl_settled (call_at (call_history es) h)"
      using kept_history [of es "[?e]"] False h(1) c by (auto simp: kept_def)
    moreover have "cl_params (call_at (call_history es) h) \<noteq> None"
      using h c1 l i history_params [of h es] history_params [of h "es @ [?e]"] by (simp add: nth_append)
    ultimately have "\<not> ss_disconnected s \<and> h \<in> set (ss_inFlight s)" using f h(1) c unfolding flying_def by auto
    moreover have "SettleTold h \<notin> set (ct_log (call_history (es @ [?e])))"
      by (rule not_told) (use h(1) l False in simp_all)
    ultimately show ?thesis using n by (auto simp: with_client_def Let_def dest: in_set_dropD)
  qed (use c1 in simp)
  have new: "cl_params (call_at (ss_client ?s1) ?h) = ci_params init"
    using history_params [of ?h "es @ [?e]"] c1 l i by simp
  have "flying (session_call cfg key inputs options x s)"
  proof -
    have "flying (if ci_error init = None then ?s1\<lparr>ss_inFlight := ss_inFlight ?s1 @ [?h]\<rparr> else ?s1)"
      using f sub old new session_init_cases [where cfg = cfg and d = "ss_disconnected s" and key = key and inputs = inputs and options = options] l(1) c1 d1 c
      unfolding flying_def init_def [symmetric] by (auto simp: less_Suc_eq)
    then show ?thesis unfolding session_call_def Let_def init_def .
  qed
  moreover have "ss_client (session_call cfg key inputs options x s) = call_history (es @ [?e])"
    using c1 by (simp add: session_call_def Let_def init_def)
  moreover have "\<forall>init \<in> set (inits (es @ [?e])). made_by cfg P init" using m p i by (auto simp: made_by_def init_def)
  ultimately show ?thesis unfolding session_ok_def by blast
qed

lemma session_ok_callback:
  assumes ok: "session_ok cfg P s" and e: "is_callback e"
  shows "session_ok cfg P (with_client (call_step e) s)"
proof -
  obtain es where c: "ss_client s = call_history es" and m: "\<forall>init \<in> set (inits es). made_by cfg P init" and f: "flying s"
    using ok unfolding session_ok_def by blast
  have n: "call_step e (ss_client s) = call_history (es @ [e])" using c by (simp add: call_history_snoc)
  have "flying (with_client (call_step e) s)" by (rule flying_with [where es = es and fs = "[e]"]) (use f c n inits_callback [OF e] in simp_all)
  moreover have "ss_client (with_client (call_step e) s) = call_history (es @ [e])" using n by (simp add: with_client_def Let_def)
  moreover have "\<forall>init \<in> set (inits (es @ [e])). made_by cfg P init" using m inits_callback [OF e] by simp
  ultimately show ?thesis unfolding session_ok_def by blast
qed

lemma session_ok_disconnect:
  assumes ok: "session_ok cfg P s"
  shows "session_ok cfg P (disconnect s)"
proof -
  obtain es where c: "ss_client s = call_history es" and m: "\<forall>init \<in> set (inits es). made_by cfg P init" and f: "flying s"
    using ok unfolding session_ok_def by blast
  let ?hs = "ss_inFlight s"
  let ?es = "es @ map Cancel ?hs"
  have b: "\<forall>h \<in> set ?hs. h < length (ct_calls (call_history es))" using f c by (simp add: flying_def)
  have n: "ss_client (disconnect s) = call_history ?es"
    using fold_cancel [OF b] c by (simp add: disconnect_def with_client_def Let_def)
  have l: "length (ct_calls (call_history ?es)) = length (ct_calls (call_history es))" by (simp add: history_length)
  have "cl_settled (call_at (call_history ?es) h)"
    if h: "h < length (ct_calls (call_history es))" "cl_params (call_at (call_history ?es) h) \<noteq> None" for h
  proof (cases "cl_settled (call_at (call_history es) h)")
    case True
    then show ?thesis using kept_history [of es "map Cancel ?hs"] h(1) by (simp add: kept_def)
  next
    case False
    have "cl_params (call_at (call_history es) h) \<noteq> None"
      using h history_params [of h es] history_params [of h ?es] by (simp add: history_length)
    then have "h \<in> set ?hs" using f c h(1) False unfolding flying_def by auto
    then show ?thesis by (rule cancels_settle [OF b])
  qed
  then have "flying (disconnect s)"
    using l n unfolding flying_def by (simp add: disconnect_def with_client_def Let_def)
  moreover have "\<forall>init \<in> set (inits ?es). made_by cfg P init" using m by simp
  ultimately show ?thesis using n unfolding session_ok_def by blast
qed

definition inputs_given :: "(jsval \<Rightarrow> bool) \<Rightarrow> session_step \<Rightarrow> bool" where
  "inputs_given P e = (case e of SessionCall key inputs options x \<Rightarrow> P inputs | _ \<Rightarrow> True)"

lemma refreshed_Inr:
  "refreshed answer s = Inr s' \<Longrightarrow> ss_client s' = ss_client s \<and> ss_inFlight s' = ss_inFlight s \<and> ss_disconnected s' = ss_disconnected s"
  by (cases "parseGrantSet answer") (auto simp: refreshed_def)

lemma session_ok_same:
  "session_ok cfg P s \<Longrightarrow> ss_client s' = ss_client s \<Longrightarrow> ss_inFlight s' = ss_inFlight s \<Longrightarrow> ss_disconnected s' = ss_disconnected s \<Longrightarrow>
   session_ok cfg P s'"
  by (simp add: session_ok_def flying_def)

lemma session_ok_step:
  assumes ok: "session_ok cfg P s" and e: "inputs_given P e"
  shows "session_ok cfg P (session_step cfg e s)"
proof (cases e)
  case (SessionCall key inputs options x)
  then show ?thesis using session_ok_call [OF ok] e by (simp add: session_step_def inputs_given_def)
next
  case (ClientStep c)
  then show ?thesis using session_ok_callback [OF ok] ok by (simp add: session_step_def)
next
  case Disconnect
  then show ?thesis using session_ok_disconnect [OF ok] by (simp add: session_step_def)
next
  case DisconnectAnswered
  then show ?thesis using session_ok_same [OF ok] ok by (simp add: session_step_def disconnected_now_def)
next
  case (Refreshed answer)
  then show ?thesis using session_ok_same [OF ok] ok by (auto simp: session_step_def dest: refreshed_Inr split: sum.split)
qed

lemma session_ok_history:
  assumes "list_all (inputs_given P) xs"
  shows "session_ok cfg P (session_history cfg origin fns xs)"
  using assms
proof (induction xs rule: rev_induct)
  case Nil
  have "new_client = call_history []" by (simp add: call_history_def)
  then show ?case unfolding session_ok_def session_history_def
    by (auto simp: new_session_def flying_def inits_def call_history_def new_client_def intro: exI [of _ "[]"])
next
  case (snoc x xs)
  then show ?case using session_ok_step [of cfg P "session_history cfg origin fns xs" x] by (simp add: session_history_def)
qed

subsection \<open>What the page sends\<close>

definition valid_inputs :: "jsval \<Rightarrow> bool" where
  "valid_inputs v \<longleftrightarrow> (\<exists>fs. v = VObj fs \<and> is_json v \<and> nesting v \<le> MAX_INPUT_DEPTH \<and> utf8Length (json_text v) \<le> MAX_INPUT_BYTES \<and>
     list_all (\<lambda>name. \<not> forbidden_name name) (map fst fs))"

definition valid_field :: "jsstring \<times> jsval \<Rightarrow> bool" where
  "valid_field kv =
     (let (k, v) = kv in
      (k = js ''key'' \<and> (\<exists>key. v = VStr key \<and> FUNCTION_KEY_PATTERN key)) \<or>
      (k = js ''inputs'' \<and> valid_inputs v) \<or>
      (k = js ''timeout_ms'' \<and> (\<exists>t. v = VNum (int_num t) \<and> MIN_CALL_TIMEOUT_MS \<le> t \<and> t \<le> MAX_CALL_TIMEOUT_MS)) \<or>
      (k = js ''dry_run'' \<and> (\<exists>b. v = VBool b)) \<or>
      (k = js ''challenge'' \<and> (\<exists>c. v = VStr c \<and> 0 < length c \<and> length c \<le> MAX_CHALLENGE_LENGTH)) \<or>
      (k = js ''recipe_cache'' \<and> (\<exists>m. v = VStr m \<and> m \<in> set RECIPE_CACHE_MODES)) \<or>
      (k = js ''token'' \<and> (\<exists>t. v = VStr t \<and> 0 < length t \<and> length t \<le> MAX_RUN_TOKEN_LENGTH \<and> list_all (\<lambda>u. 0x21 \<le> u \<and> u \<le> 0x7e) t)))"

lemma valid_field_names:
  "valid_field (js ''key'', v) \<longleftrightarrow> (\<exists>key. v = VStr key \<and> FUNCTION_KEY_PATTERN key)" "valid_field (js ''inputs'', v) \<longleftrightarrow> valid_inputs v"
  "valid_field (js ''timeout_ms'', v) \<longleftrightarrow> (\<exists>t. v = VNum (int_num t) \<and> MIN_CALL_TIMEOUT_MS \<le> t \<and> t \<le> MAX_CALL_TIMEOUT_MS)"
  "valid_field (js ''dry_run'', v) \<longleftrightarrow> (\<exists>b. v = VBool b)"
  "valid_field (js ''challenge'', v) \<longleftrightarrow> (\<exists>c. v = VStr c \<and> 0 < length c \<and> length c \<le> MAX_CHALLENGE_LENGTH)"
  "valid_field (js ''recipe_cache'', v) \<longleftrightarrow> (\<exists>m. v = VStr m \<and> m \<in> set RECIPE_CACHE_MODES)"
  "valid_field (js ''token'', v) \<longleftrightarrow> (\<exists>t. v = VStr t \<and> 0 < length t \<and> length t \<le> MAX_RUN_TOKEN_LENGTH \<and> list_all (\<lambda>u. 0x21 \<le> u \<and> u \<le> 0x7e) t)"
  by (simp_all add: valid_field_def)

lemma sanitizeInputs_Inr:
  assumes "sanitizeInputs inputs = Inr (Some fs)" "wf_val inputs"
  shows "valid_inputs (VObj fs)"
proof -
  obtain gs where g: "inputs = VObj gs"
    using assms(1) by (cases inputs) (auto simp: sanitizeInputs_def result_simps)
  obtain copy where f: "\<not> list_ex forbidden_name (own_keys gs)" and c: "cloneJsonValue inputs [] MAX_INPUT_DEPTH = Inr copy"
    and u: "utf8Length (json_text copy) \<le> MAX_INPUT_BYTES" and o: "obj_of copy = Some fs"
    using assms(1) g by (cases "cloneJsonValue inputs [] MAX_INPUT_DEPTH") (auto simp: sanitizeInputs_def result_simps)
  have v: "copy = VObj fs" using o by (cases copy) (simp_all add: obj_of_def)
  have "fs = map (\<lambda>(k, v). (k, json_part v)) (filter (\<lambda>(k, v). v \<noteq> VUndef) gs)"
    using c g v by (simp add: cloneJsonValue_Inr)
  then have "set (map fst fs) \<subseteq> set (own_keys gs)" by (force simp: own_keys_def)
  then have "list_all (\<lambda>name. \<not> forbidden_name name) (map fst fs)" using f by (auto simp: list_all_iff list_ex_iff)
  then show ?thesis using cloneJsonValue_is_json [OF c assms(2)] u v by (auto simp: valid_inputs_def)
qed

lemma validateCallOptions_Inr:
  assumes "validateCallOptions options = Inr opts"
  shows "co_timeoutMs opts = Some t \<Longrightarrow> MIN_CALL_TIMEOUT_MS \<le> t \<and> t \<le> MAX_CALL_TIMEOUT_MS"
    "co_challenge opts = Some c \<Longrightarrow> 0 < length c \<and> length c \<le> MAX_CHALLENGE_LENGTH"
    "co_token opts = Some (GivenToken k) \<Longrightarrow> 0 < length k \<and> length k \<le> MAX_RUN_TOKEN_LENGTH \<and> list_all (\<lambda>u. 0x21 \<le> u \<and> u \<le> 0x7e) k"
    "co_recipeCache opts = Some m \<Longrightarrow> m \<in> set RECIPE_CACHE_MODES"
proof -
  have b: "MIN_CALL_TIMEOUT_MS \<le> clampTimeout n \<and> clampTimeout n \<le> MAX_CALL_TIMEOUT_MS" for n
    by (simp add: clampTimeout_def MIN_CALL_TIMEOUT_MS_def MAX_CALL_TIMEOUT_MS_def)
  show "co_timeoutMs opts = Some t \<Longrightarrow> MIN_CALL_TIMEOUT_MS \<le> t \<and> t \<le> MAX_CALL_TIMEOUT_MS"
    using assms b by (auto simp: validateCallOptions_def timeout_option_def result_simps split: options_arg.splits jsval.splits if_splits)
  show "co_challenge opts = Some c \<Longrightarrow> 0 < length c \<and> length c \<le> MAX_CHALLENGE_LENGTH"
    using assms by (auto simp: validateCallOptions_def validateChallenge_def result_simps split: options_arg.splits jsval.splits if_splits)
  show "co_recipeCache opts = Some m \<Longrightarrow> m \<in> set RECIPE_CACHE_MODES"
    using assms by (auto simp: validateCallOptions_def validateRecipeCache_def result_simps split: options_arg.splits jsval.splits if_splits)
  show "co_token opts = Some (GivenToken k) \<Longrightarrow> 0 < length k \<and> length k \<le> MAX_RUN_TOKEN_LENGTH \<and> list_all (\<lambda>u. 0x21 \<le> u \<and> u \<le> 0x7e) k"
    using assms by (auto simp: validateCallOptions_def token_option_def checkGivenRunToken_def result_simps
        split: options_arg.splits jsval.splits if_splits token_arg.splits sum.splits)
qed

lemma optional_field_in: "kv \<in> set (optional_field name v) \<longleftrightarrow> (\<exists>x. v = Some x \<and> kv = (js name, x))"
  by (cases v) (auto simp: optional_field_def)

lemma list_all_optional: "list_all P (optional_field name v) \<longleftrightarrow> (\<forall>x. v = Some x \<longrightarrow> P (js name, x))"
  by (cases v) (simp_all add: optional_field_def)

lemma prepared_parts:
  assumes "ci_params (session_init cfg d key inputs options) = Some p"
  obtains k opts clean token source where "validateFunctionKey key = Inr k" "validateCallOptions options = Inr opts"
    "sanitizeInputs inputs = Inr clean" "run_token_of cfg k (co_token opts) = Inr (token, source)"
    "p = built_params cfg k opts clean token" "ci_runToken (session_init cfg d key inputs options) \<longleftrightarrow> source \<noteq> None"
  using assms by (auto simp: session_init_def prepare_call_def result_simps split: sum.splits prod.splits)

lemma prepared_fields:
  assumes "ci_params (session_init cfg d key inputs options) = Some p" "wf_val inputs" "lc_recipeCache cfg \<in> set RECIPE_CACHE_MODES"
  shows "list_all valid_field p \<and> distinct (map fst p)"
  using assms(1)
proof (rule prepared_parts)
  fix k opts clean token source
  assume "validateFunctionKey key = Inr k" and o: "validateCallOptions options = Inr opts" and "sanitizeInputs inputs = Inr clean"
    and t: "run_token_of cfg k (co_token opts) = Inr (token, source)" and p: "p = built_params cfg k opts clean token"
  moreover have "FUNCTION_KEY_PATTERN k"
    using \<open>validateFunctionKey key = Inr k\<close> by (auto simp: validateFunctionKey_def split: jsval.splits if_splits)
  moreover have "co_token opts = Some (GivenToken x)" if "token = Some x" for x
    using t that by (auto simp: run_token_of_def split: option.splits run_token.splits if_splits)
  ultimately show ?thesis
    unfolding p built_params_def using validateCallOptions_Inr [OF o] sanitizeInputs_Inr [of inputs] assms(2,3)
    by (auto simp: list_all_optional valid_field_names optional_field_def split: option.split)
qed

lemma prepared_token:
  assumes "ci_params (session_init cfg d key inputs options) = Some p"
  shows "\<exists>k. (js ''key'', VStr k) \<in> set p \<and> (lc_access cfg k = Some LinkedToken \<longrightarrow>
       ci_runToken (session_init cfg d key inputs options) \<or> (\<exists>t. (js ''token'', VStr t) \<in> set p))"
  using assms
proof (rule prepared_parts)
  fix k opts clean token source
  assume t: "run_token_of cfg k (co_token opts) = Inr (token, source)" and p: "p = built_params cfg k opts clean token"
    and r: "ci_runToken (session_init cfg d key inputs options) \<longleftrightarrow> source \<noteq> None"
  have "lc_access cfg k = Some LinkedToken \<longrightarrow> source \<noteq> None \<or> token \<noteq> None"
    using t by (auto simp: run_token_of_def dest: sym split: option.splits run_token.splits if_splits)
  then show ?thesis
    using r by (intro exI [of _ k]) (auto simp: p built_params_def optional_field_in)
qed

lemma requests_prepared:
  assumes ok: "session_ok cfg P s" and r: "(p, tk) \<in> set (reqs h (ct_log (ss_client s)))"
  shows "\<exists>d key inputs options. P inputs \<and> ci_params (session_init cfg d key inputs options) = Some p \<and>
    (tk \<noteq> None \<longleftrightarrow> ci_runToken (session_init cfg d key inputs options)) \<and> reqs h (ct_log (ss_client s)) = [(p, tk)]"
proof -
  obtain es where c: "ss_client s = call_history es" and m: "\<forall>init \<in> set (inits es). made_by cfg P init"
    using ok unfolding session_ok_def by blast
  have ro: "requests_ok (inits es) (call_history es)" by (rule requests_history)
  have h: "h < length (inits es)" using ro r c by (cases "h < length (inits es)") (auto simp: requests_ok_def)
  have "request_of (inits es ! h) (reqs h (ct_log (call_history es)))" using ro h by (simp add: requests_ok_def)
  then have q: "ci_params (inits es ! h) = Some p" "reqs h (ct_log (call_history es)) = [(p, tk)]" "tk \<noteq> None \<longleftrightarrow> ci_runToken (inits es ! h)"
    using r c by (auto simp: request_of_def)
  have "made_by cfg P (inits es ! h)" using m h by simp
  then show ?thesis using q c unfolding made_by_def by fastforce
qed

subsection \<open>Where a fetched token comes from\<close>

definition carried :: "client \<Rightarrow> jsstring set" where
  "carried s = {t. \<exists>h p. (p, Some t) \<in> set (reqs h (ct_log s))}"

lemma carried_calm: "calm s s' \<Longrightarrow> carried s' = carried s"
  by (simp add: calm_def carried_def)

lemma carried_send:
  assumes "h < length (ct_calls s)"
  shows "carried (Visitor_Call.send h x s) \<subseteq> carried s \<union> {t. cl_token (call_at s h) = Some t}"
proof
  fix t assume "t \<in> carried (Visitor_Call.send h x s)"
  then obtain k p where "(p, Some t) \<in> set (reqs k (ct_log (Visitor_Call.send h x s)))" by (auto simp: carried_def)
  then show "t \<in> carried s \<union> {t. cl_token (call_at s h) = Some t}"
    using send_effect(4) [OF assms, of k x] unfolding carried_def by auto blast+
qed

lemma carried_new: "carried (new_call init x s) \<subseteq> carried s"
proof -
  let ?h = "length (ct_calls s)"
  define s0 where "s0 = s\<lparr>ct_calls := ct_calls s @ [fresh_call init]\<rparr>"
  define s1 where "s1 = put ?h (\<lambda>c. c\<lparr>cl_signal := ci_signal init \<noteq> None\<rparr>) s0"
  have c: "carried s0 = carried s" "carried s1 = carried s" "\<And>f. carried (put ?h f t) = carried t" "carried (out [TokenAsked ?h] t) = carried t" for t
    by (simp_all add: s0_def s1_def carried_def)
  have f: "?h < length (ct_calls s1)" "cl_token (call_at s1 ?h) = None"
    by (simp_all add: s1_def s0_def) (simp add: call_at_def fresh_call_def)
  have "carried (Visitor_Call.send ?h x s1) \<subseteq> carried s" using carried_send [OF f(1), of x] f(2) c(2) by simp
  then show ?thesis
    unfolding new_call_def Let_def s0_def [symmetric] s1_def [symmetric] using c by auto
qed

lemma carried_answered:
  assumes "h < length (ct_calls s)"
  shows "carried (token_answered h a x s) \<subseteq> carried s \<union> {t. a = Inr t}"
proof (cases a)
  case (Inl e)
  have "carried (fail h w t) = carried t" for w t by (rule carried_calm [OF calm_fail [OF calm_refl]])
  moreover have "carried (put h f s) = carried s" for f by (simp add: carried_def)
  ultimately show ?thesis using Inl by (simp add: token_answered_def Let_def)
next
  case (Inr t)
  let ?s2 = "put h (\<lambda>c. c\<lparr>cl_token := Some t\<rparr>) (put h (\<lambda>c. c\<lparr>cl_awaitingToken := False\<rparr>) s)"
  have "carried ?s2 = carried s" by (simp add: carried_def)
  moreover have "carried (Visitor_Call.send h x ?s2) \<subseteq> carried ?s2 \<union> {u. cl_token (call_at ?s2 h) = Some u}"
    using assms by (intro carried_send) simp
  moreover have "cl_token (call_at ?s2 h) = Some t" using assms by simp
  ultimately show ?thesis using Inr by (auto simp: token_answered_def Let_def carried_def)
qed

definition answered_tokens :: "session_step list \<Rightarrow> jsstring set" where
  "answered_tokens xs = {t. \<exists>h x. ClientStep (TokenAnswered h (Inr t) x) \<in> set xs}"

lemma carried_session_step:
  "carried (ss_client (session_step cfg e s)) \<subseteq> carried (ss_client s) \<union> answered_tokens [e]"
proof (cases e)
  case (SessionCall key inputs options x)
  have "ss_client (session_call cfg key inputs options x s) =
      new_call (session_init cfg (ss_disconnected s) key inputs options) x (ss_client s)"
    by (simp add: session_call_def with_client_def Let_def)
  then show ?thesis using SessionCall carried_new by (auto simp: session_step_def)
next
  case (ClientStep c)
  show ?thesis
  proof (cases "\<exists>h a x. c = TokenAnswered h a x")
    case True
    then obtain h a x where c: "c = TokenAnswered h a x" by blast
    have "carried (call_step c (ss_client s)) \<subseteq> carried (ss_client s) \<union> {t. a = Inr t}"
      using carried_answered [of h "ss_client s" a x] by (simp add: c call_step_def)
    moreover have "{t. a = Inr t} = answered_tokens [e]" using ClientStep c by (auto simp: answered_tokens_def)
    ultimately show ?thesis using ClientStep by (simp add: session_step_def with_client_def Let_def)
  next
    case False
    then have "is_callback c \<Longrightarrow> carried (call_step c (ss_client s)) = carried (ss_client s)"
      by (intro carried_calm calm_step) (auto simp: is_callback_def)
    then show ?thesis using ClientStep by (auto simp: session_step_def with_client_def Let_def)
  qed
next
  case Disconnect
  have "carried (fold cancel hs u) = carried u" for hs u
    by (induction hs arbitrary: u) (simp_all add: cancel_def carried_calm [OF calm_abandon [OF calm_refl]])
  then show ?thesis using Disconnect by (simp add: session_step_def disconnect_def with_client_def Let_def)
qed (auto simp: session_step_def disconnected_now_def dest: refreshed_Inr split: sum.split)

lemma carried_session: "carried (ss_client (session_history cfg origin fns xs)) \<subseteq> answered_tokens xs"
proof (induction xs rule: rev_induct)
  case Nil
  then show ?case by (simp add: session_history_def new_session_def new_client_def carried_def)
next
  case (snoc x xs)
  have "answered_tokens (xs @ [x]) = answered_tokens xs \<union> answered_tokens [x]" by (auto simp: answered_tokens_def)
  then show ?case using snoc carried_session_step [of cfg x "session_history cfg origin fns xs"] by (auto simp: session_history_def)
qed

lemma linkedSessionConfig_recipeCache:
  "linkedSessionConfig options functions = Inr cfg \<Longrightarrow> lc_recipeCache cfg \<in> set RECIPE_CACHE_MODES"
  by (auto simp: linkedSessionConfig_def validateLinkedOptions_def validateRecipeCache_def RECIPE_CACHE_MODES_def result_simps Let_def
    split: jsval.splits if_splits)

lemma fetch_result_token: "fetch_result answer = Inr t \<Longrightarrow> JWT_SHAPE t \<and> t \<noteq> [] \<and> length t \<le> MAX_RUN_TOKEN_LENGTH"
  by (auto simp: fetch_result_def checkRunToken_def Let_def split: sum.splits if_splits)

text \<open>C30: whatever a page passes to \<open>session.call\<close> and in whatever order callbacks come, every \<open>writ_call\<close> the page
  sends carries each field at most once and only fields the extension accepts: a valid key, a timeout within bounds, a
  non-empty challenge, a printable token of allowed length, one of the two recipe cache modes, and inputs that are plain
  JSON of bounded size and depth naming no secret, file or reserved input.  A token fetched for it has the shape
  of a JWT and the allowed length, as the tokens the cache of \<open>run-token.ts\<close> answers have been checked.\<close>

theorem session_sends_valid_params:
  assumes "linkedSessionConfig options functions = Inr cfg" "list_all (inputs_given wf_val) xs"
    and "\<forall>t \<in> answered_tokens xs. \<exists>answer. fetch_result answer = Inr t"
    and "(p, tk) \<in> set (reqs h (ct_log (ss_client (session_history cfg origin fns xs))))"
  shows "list_all valid_field p \<and> distinct (map fst p) \<and>
    (\<forall>t. tk = Some t \<longrightarrow> JWT_SHAPE t \<and> t \<noteq> [] \<and> length t \<le> MAX_RUN_TOKEN_LENGTH)"
proof -
  obtain d key inputs o1 where "wf_val inputs" "ci_params (session_init cfg d key inputs o1) = Some p"
    using requests_prepared [OF session_ok_history [OF assms(2)] assms(4)] by blast
  then have "list_all valid_field p \<and> distinct (map fst p)"
    using prepared_fields linkedSessionConfig_recipeCache [OF assms(1)] by blast
  moreover have "JWT_SHAPE t \<and> t \<noteq> [] \<and> length t \<le> MAX_RUN_TOKEN_LENGTH" if "tk = Some t" for t
  proof -
    have "t \<in> answered_tokens xs"
      using carried_session [of cfg origin fns xs] assms(4) that by (auto simp: carried_def)
    then show ?thesis using assms(3) fetch_result_token by blast
  qed
  ultimately show ?thesis by blast
qed

text \<open>C29: A linked workflow in token mode is never called without a run token: each call makes at most one
  \<open>writ_call\<close> request, and if its key needs a run token the request carries the token the page was given, or
  one that \<open>getRunToken\<close> answered with.\<close>

theorem token_mode_calls_carry_tokens:
  assumes "(p, tk) \<in> set (reqs h (ct_log (ss_client (session_history cfg origin fns xs))))"
  shows "reqs h (ct_log (ss_client (session_history cfg origin fns xs))) = [(p, tk)] \<and>
    (\<exists>k. (js ''key'', VStr k) \<in> set p \<and> (lc_access cfg k = Some LinkedToken \<longrightarrow> tk \<noteq> None \<or> (\<exists>t. (js ''token'', VStr t) \<in> set p)))"
proof -
  have "list_all (inputs_given (\<lambda>_. True)) xs" by (simp add: list_all_iff inputs_given_def split: session_step.split)
  from requests_prepared [OF session_ok_history [OF this] assms] show ?thesis using prepared_token by blast
qed




end
