(* ===== verification/Page_Witnesses.thy ===== *)
theory Page_Witnesses
  imports Page_Tokens Page_Session_Safety
begin

section \<open>The properties of the page library at work\<close>

text \<open>Run tokens and calls with concrete values: each property of the page library with a hypothesis, applied to them.\<close>

definition page_crypto :: crypto where
  "page_crypto = \<lparr>hmac_sha256 = (\<lambda>k m. take 32 (k @ m @ replicate 32 0)), sha256 = (\<lambda>m. take 32 (m @ replicate 32 0)),
     ed25519_verify = (\<lambda>pk m s. s = take 64 (pk @ m))\<rparr>"

subsection \<open>Run tokens\<close>

lemma page_hmac: "hmac_32 page_crypto"
  by (auto simp: hmac_32_def page_crypto_def)

definition sample_publication :: fields where
  "sample_publication = [(js ''publication'', VStr (js ''pub_0123456789abcdefghijkl''))]"

lemma sample_now: "safe_int (or_else (jget sample_publication (js ''issuedAt'')) (VNum (int_num (5000 div 1000)))) = Some 5"
  "(5 :: int) + 3600 \<le> MAX_SAFE_INTEGER" "safe_int (or_else (jget sample_publication (js ''ttlSeconds'')) (VNum (int_num 600))) = Some 600"
  by (simp_all add: sample_publication_def inherited_js nullish_def or_else_def safe_int_def is_safe_integer_def MAX_SAFE_INTEGER_def)

lemma sample_minted: "\<exists>t. mintRunToken page_crypto (VStr (js ''wsk_secret'')) (VObj sample_publication) 5000 = Inr t"
proof -
  have k: "SECRET_KEY_SHAPE (js ''wsk_secret'')" "PUBLICATION_ID_PATTERN (js ''pub_0123456789abcdefghijkl'')"
    by code_simp+
  then have "checkSecretKey (VStr (js ''wsk_secret'')) = Inr (js ''wsk_secret'')" by (simp add: checkSecretKey_Inr)
  then show ?thesis
    using k(2) by (simp add: mintRunToken_def sample_publication_def inherited_js or_else_def nullish_def DEFAULT_RUN_TOKEN_TTL_SECONDS_def
        MAX_RUN_TOKEN_TTL_SECONDS_def MAX_SAFE_INTEGER_def safe_int_def is_safe_integer_def Let_def del: json_text.simps)
qed

definition sample_token :: jsstring where
  "sample_token = (case mintRunToken page_crypto (VStr (js ''wsk_secret'')) (VObj sample_publication) 5000 of Inr t \<Rightarrow> t | Inl _ \<Rightarrow> [])"

lemma sample_token: "mintRunToken page_crypto (VStr (js ''wsk_secret'')) (VObj sample_publication) 5000 = Inr sample_token"
  using sample_minted by (auto simp: sample_token_def)

theorem minted_token_read_witness:
  "runTokenExpiry sample_token = Some (int_num 605)"
  using minted_token_read [OF page_hmac sample_token sample_now] by simp

lemma sample_cached: "fst (cache_get (-70000) (cache_history [Get (-90000), Answered (-80000) (Inr (VStr sample_token)), Cleared 0])) = Cached sample_token"
proof -
  have ttl: "checkRunToken (VStr sample_token) = Inr sample_token" "runTokenExpiry sample_token = Some (int_num 605)"
    by (rule minted_token_facts [OF page_hmac sample_token sample_now(1,2)];
      use sample_now(3) in \<open>auto simp: DEFAULT_RUN_TOKEN_TTL_SECONDS_def\<close>)+
  then show ?thesis
    by (simp add: cache_history_def new_cache_def cache_get_def fetch_answered_def fetch_result_def fetch_cleared_def int_num_def
        RUN_TOKEN_REFRESH_MARGIN_MS_def Let_def)
qed

theorem cached_token_fresh_witness:
  "\<exists>expiry. runTokenExpiry sample_token = Some expiry \<and> - 10000 < num_rat expiry * 1000"
  using cached_token_fresh [OF sample_cached] by auto

theorem refused_token_dropped_witness:
  "fst (cache_get (-70000) (fold cache_step [Get 0, Cleared 0]
     (cache_refused sample_token (cache_history [Get (-90000), Answered (-80000) (Inr (VStr sample_token)), Cleared 0])))) \<noteq> Cached sample_token"
  by (rule refused_token_dropped) (simp add: fetched_def)

subsection \<open>Calls\<close>

definition page_call :: call_init where
  "page_call = \<lparr>ci_params = Some [], ci_error = None, ci_runToken = False, ci_timeoutMs = None, ci_signal = None\<rparr>"

definition run_answer :: jsval where
  "run_answer = VObj [(js ''call_id'', VStr (js ''run''))]"

lemmas call_evaluation = call_history_def call_step_def new_call_def send_def page_call_def fresh_call_def new_client_def new_router_def
  put_def out_def routed_def call_at_def rt_expect_def cancel_def abandon_def fail_def cleanup_def clearTimerWhenDone_def emit_def
  lifecycle_def cancelled_def

theorem call_settles_once_witness:
  "cl_result (call_at (call_history ([NewCall page_call None, Cancel 0] @ [CallAnswered 0 run_answer])) 0) = Some (Inl cancelled) \<and>
   cl_status (call_at (call_history ([NewCall page_call None, Cancel 0] @ [CallAnswered 0 run_answer])) 0) = final_status (Inl cancelled) \<and>
   told 0 (ct_log (call_history ([NewCall page_call None, Cancel 0] @ [CallAnswered 0 run_answer]))) = 1"
  by (rule call_settles_once) (simp_all add: call_evaluation Let_def)

theorem given_up_run_cancelled_witness:
  "cancels 0 (ct_log (call_history ([NewCall page_call None, Cancel 0] @ [CallAnswered 0 run_answer]))) = [js ''run'']"
  by (rule given_up_run_cancelled [THEN conjunct2, rule_format])
    (simp_all add: call_evaluation Let_def run_answer_def readCallId_def jget_def)

definition endless_calls :: "nat \<Rightarrow> call_step" where
  "endless_calls n = (if n = 0 then NewCall page_call None else if even n then FailTask 0 else GuardFires 0)"

theorem every_call_settles_witness:
  "\<exists>m. 1 \<le> m \<and> cl_settled (call_at (so_far endless_calls m) 0) \<and> cl_result (call_at (so_far endless_calls m) 0) \<noteq> None"
proof (rule every_call_settles)
  show "loop_runs endless_calls 0"
    unfolding loop_runs_def
  proof (intro conjI allI impI)
    fix n
    show "\<exists>m\<ge>n. endless_calls m = GuardFires 0 \<or> \<not> cl_timer (call_at (so_far endless_calls m) 0)"
      by (rule exI [of _ "2 * n + 1"]) (simp add: endless_calls_def)
    show "\<exists>m\<ge>n. endless_calls m = FailTask 0 \<or> cl_failing (call_at (so_far endless_calls m) 0) = None"
      by (rule exI [of _ "2 * n + 2"]) (simp add: endless_calls_def)
  qed
  show "0 < length (ct_calls (so_far endless_calls 1))"
    by (simp add: so_far_def endless_calls_def call_evaluation Let_def)
qed

subsection \<open>Sessions\<close>

definition sample_linked :: linked_config where
  "sample_linked = \<lparr>lc_access = map_of [(js ''pos.receive'', LinkedToken)], lc_getRunToken = Some 0, lc_recipeCache = js ''session''\<rparr>"

lemma sample_config:
  "linkedSessionConfig \<lparr>lo_getRunToken = Source 0, lo_recipeCache = VUndef\<rparr> [(js ''pos.receive'', Some LinkedToken)] = Inr sample_linked"
  by (simp add: linkedSessionConfig_def validateLinkedOptions_def validateRecipeCache_def nullish_def linkedAccessOfRequests_def
    requireRunTokens_def sample_linked_def)

definition sample_session_steps :: "session_step list" where
  "sample_session_steps = [SessionCall (VStr (js ''pos.receive'')) VUndef NoOptions None, ClientStep (TokenAnswered 0 (Inr (js ''a.b.c'')) None)]"

definition sample_params :: fields where
  "sample_params = [(js ''key'', VStr (js ''pos.receive'')), (js ''recipe_cache'', VStr (js ''session''))]"

lemmas session_evaluation = session_history_def session_step_def session_call_def with_client_def disconnect_def new_session_def
  new_call_def Visitor_Call.send_def fresh_call_def new_client_def new_router_def put_def out_def routed_def call_at_def rt_expect_def
  token_answered_def call_step_def is_callback_def

lemma sample_prepared:
  "session_init sample_linked False (VStr (js ''pos.receive'')) VUndef NoOptions =
     \<lparr>ci_params = Some sample_params, ci_error = None, ci_runToken = True, ci_timeoutMs = None, ci_signal = None\<rparr>"
proof -
  have "FUNCTION_KEY_PATTERN (js ''pos.receive'')" by code_simp
  then show ?thesis
    by (simp add: session_init_def prepare_call_def validateFunctionKey_def validateCallOptions_def sanitizeInputs_def run_token_of_def
        sample_linked_def sample_params_def built_params_def optional_field_def)
qed

lemma sample_requested:
  "(sample_params, Some (js ''a.b.c'')) \<in> set (reqs 0 (ct_log (ss_client (session_history sample_linked [] [] sample_session_steps))))"
  by (simp add: sample_session_steps_def session_evaluation Let_def sample_prepared)

lemma sample_fetched: "fetch_result (Inr (VStr (js ''a.b.c''))) = Inr (js ''a.b.c'')"
  by code_simp

theorem session_sends_valid_params_witness: "list_all valid_field sample_params \<and> JWT_SHAPE (js ''a.b.c'')"
proof -
  have "\<forall>t \<in> answered_tokens sample_session_steps. \<exists>answer. fetch_result answer = Inr t"
    using sample_fetched by (auto simp: answered_tokens_def sample_session_steps_def)
  from session_sends_valid_params [OF sample_config _ this sample_requested] show ?thesis
    by (simp add: sample_session_steps_def inputs_given_def)
qed

theorem token_mode_calls_carry_tokens_witness:
  "reqs 0 (ct_log (ss_client (session_history sample_linked [] [] sample_session_steps))) = [(sample_params, Some (js ''a.b.c''))]"
  using token_mode_calls_carry_tokens [OF sample_requested] by blast


end
