(* ===== verification/Page_Bridge.thy ===== *)
theory Page_Bridge
  imports Page_Session Visitor_Channel
begin

section \<open>The bridge of the page (web/src/bridge.ts)\<close>

text \<open>
  \<open>BridgeRuntime\<close>: where each call of the page runs, and how the page follows the visitor's Writ.  The
  runtime is one record; each callback (a promise that settled, a banner's event, an answer) is one function
  on it, and \<open>bridge_step\<close> is any of them.  Sessions, calls and \<open>sessionReady\<close> promises are numbers; what a
  session grants is part of the state.  The banner and the extension are the events they produce; message
  texts, the suggested settings and the banner's options are left out.
\<close>

definition MAX_LOCAL_CALLS_IN_FLIGHT :: nat where "MAX_LOCAL_CALLS_IN_FLIGHT = 4"


definition BRIDGE_RESERVED_NAMES :: "jsstring list" where
  "BRIDGE_RESERVED_NAMES = map js [''ready'', ''status'', ''destroy'', ''venue'', ''suggestSettings'', ''refreshRecipes'']"

subsection \<open>Functions\<close>

datatype bridge_mode = ModeRequired | ModeRecommended | ModeCloud

text \<open>Of a contract's function: its key, its mode if it has one, whether it reaches the local network (or has a
  \<open>lan_host\<close> setting), its inputs, and the access mode of its package when that is linked.\<close>

record contract_function =
  pf_key :: jsstring
  pf_mode :: "bridge_mode option"
  pf_lan :: bool
  pf_inputs :: "(jsstring \<times> bool) list"
  pf_linked :: "linked_access option"

record bridge_function =
  bf_key :: jsstring
  bf_mode :: bridge_mode
  bf_inputs :: "(jsstring \<times> bool) list"
  bf_linked :: "linked_access option"

definition contractInputChecker :: "(jsstring \<times> bool) list \<Rightarrow> jsval \<Rightarrow> writ_error + unit" where
  "contractInputChecker declared inputs =
     res_bind (guard (inputs = VUndef \<or> isPlainObject inputs) input_invalid) (\<lambda>_.
     let given = (case inputs of VObj fs \<Rightarrow> fs | _ \<Rightarrow> []) in
     res_bind (guard (\<not> list_ex (\<lambda>name. jget given name \<noteq> VUndef \<and> name \<notin> fst ` set declared) (own_keys given)) input_invalid) (\<lambda>_.
       guard (\<not> list_ex (\<lambda>(name, required). required \<and> jget given name = VUndef) declared) input_invalid))"

definition bridge_function_of :: "bridge_mode \<Rightarrow> contract_function \<Rightarrow> writ_error + bridge_function" where
  "bridge_function_of mode fn =
     res_bind (guard (hd (js_split 46 (pf_key fn)) \<notin> set BRIDGE_RESERVED_NAMES) input_invalid) (\<lambda>_.
     let resolved = (case pf_mode fn of Some m \<Rightarrow> m | None \<Rightarrow> mode) in
     res_bind (guard (\<not> (pf_lan fn \<and> resolved \<noteq> ModeRequired)) input_invalid) (\<lambda>_.
       Inr \<lparr>bf_key = pf_key fn, bf_mode = resolved, bf_inputs = pf_inputs fn, bf_linked = pf_linked fn\<rparr>))"

fun bridge_functions :: "bridge_mode \<Rightarrow> contract_function list \<Rightarrow> writ_error + bridge_function list" where
  "bridge_functions mode [] = Inr []"
| "bridge_functions mode (fn # fns) =
     res_bind (bridge_function_of mode fn) (\<lambda>f. res_bind (bridge_functions mode fns) (\<lambda>fs. Inr (f # fs)))"

text \<open>Of the configuration: its functions, \<open>getRunToken\<close> and \<open>recipeCache\<close>; whether there is a window, whether it
  can fetch, and its origin.\<close>

record bridge_config =
  bc_functions :: "bridge_function list"
  bc_getRunToken :: "nat option"
  bc_recipeCache :: jsstring
  bc_window :: bool
  bc_fetch :: bool
  bc_origin :: jsstring

text \<open>\<open>validateBridgeOptions\<close>, from the validated contract and linked options on.\<close>

definition validateBridgeOptions :: "bridge_mode \<Rightarrow> contract_function list \<Rightarrow> linked_options \<Rightarrow> bool \<Rightarrow> bool \<Rightarrow> jsstring \<Rightarrow> writ_error + bridge_config" where
  "validateBridgeOptions mode contract options win fetch origin =
     res_bind (validateLinkedOptions options) (\<lambda>(source, recipeCache).
     res_bind (bridge_functions mode contract) (\<lambda>functions.
     let local = linkedAccessOfRequests (map (\<lambda>fn. (bf_key fn, bf_linked fn)) (filter (\<lambda>fn. bf_mode fn \<noteq> ModeCloud) functions)) in
     res_bind (requireRunTokens local (source \<noteq> None)) (\<lambda>_.
       Inr \<lparr>bc_functions = functions, bc_getRunToken = source,
            bc_recipeCache = (case recipeCache of Some m \<Rightarrow> m | None \<Rightarrow> js ''session''),
            bc_window = win, bc_fetch = fetch, bc_origin = origin\<rparr>)))"

definition function_for :: "bridge_config \<Rightarrow> jsstring \<Rightarrow> bridge_function option" where
  "function_for cfg key = find (\<lambda>fn. bf_key fn = key) (bc_functions cfg)"

definition localKeys :: "bridge_config \<Rightarrow> jsstring list" where
  "localKeys cfg = map bf_key (filter (\<lambda>fn. bf_mode fn \<noteq> ModeCloud) (bc_functions cfg))"

definition requiredKeys :: "bridge_config \<Rightarrow> jsstring list" where
  "requiredKeys cfg = map bf_key (filter (\<lambda>fn. bf_mode fn = ModeRequired) (bc_functions cfg))"

subsection \<open>Slots\<close>

record slots =
  sl_free :: nat
  sl_queue :: "nat list"

definition new_slots :: "nat \<Rightarrow> slots" where
  "new_slots n = \<lparr>sl_free = n, sl_queue = []\<rparr>"

text \<open>\<open>acquire\<close> by the holder \<open>h\<close>: granted at once or queued; \<open>release\<close>: whom the slot passes to.\<close>

definition acquire :: "nat \<Rightarrow> slots \<Rightarrow> bool \<times> slots" where
  "acquire h s = (if sl_free s > 0 then (True, s\<lparr>sl_free := sl_free s - 1\<rparr>) else (False, s\<lparr>sl_queue := sl_queue s @ [h]\<rparr>))"

definition release :: "slots \<Rightarrow> nat option \<times> slots" where
  "release s = (case sl_queue s of [] \<Rightarrow> (None, s\<lparr>sl_free := sl_free s + 1\<rparr>) | n # ns \<Rightarrow> (Some n, s\<lparr>sl_queue := ns\<rparr>))"

definition leave_queue :: "nat \<Rightarrow> slots \<Rightarrow> slots" where
  "leave_queue h s = s\<lparr>sl_queue := remove1 h (sl_queue s)\<rparr>"

subsection \<open>State\<close>

datatype 'a promise = Pending | Resolved 'a | Rejected writ_error

datatype venue = OnUser | OnCloud

record bridge_result =
  br_data :: jsval
  br_venue :: venue
  br_receipt :: "jsval option"
  br_runId :: "jsnum option"
  br_callId :: "jsstring option"

text \<open>Where a call is: awaiting the first check (or, when that is over, only its turn), a session, a slot; running in a session with a slot; at the
  site's server; or over, for the page or for the channel.\<close>

datatype stage =
    AwaitChecked bool | AwaitSession nat | AwaitSlot nat | Running nat | AtServer | Ended "writ_error + bridge_result" | Reported outcome

text \<open>A call of the page or a command of the server; its options as they will be given to the session; why it
  was aborted.  What goes out: a session's call, a request to the server, the banner and the channel.\<close>

record bridge_call =
  bl_fn :: bridge_function
  bl_command :: bool
  bl_inputs :: jsval
  bl_opts :: raw_options
  bl_aborted :: "writ_error option"
  bl_timedOut :: bool
  bl_stage :: stage

datatype bridge_out =
    CallOnUser nat nat jsstring jsval raw_options | PostRun nat jsval | BannerStarted nat | BannerRemoved
  | ChannelStarted | ChannelStopped | Notified

record runtime =
  rn_destroyed :: bool
  rn_generation :: nat
  rn_starter :: bool
  rn_client :: bool
  rn_session :: "nat option"
  rn_granted :: "jsstring list"
  rn_version :: "jsstring option"
  rn_localEnded :: "writ_error option"
  rn_refreshing :: "nat option"
  rn_checked :: bool
  rn_sessions :: "nat promise list"
  rn_isReady :: bool
  rn_ready :: "unit promise"
  rn_slots :: slots
  rn_calls :: "bridge_call list"
  rn_functions :: "nat \<Rightarrow> jsstring list"
  rn_log :: "bridge_out list"

definition new_runtime :: runtime where
  "new_runtime = \<lparr>rn_destroyed = False, rn_generation = 0, rn_starter = False, rn_client = False, rn_session = None,
     rn_granted = [], rn_version = None, rn_localEnded = None, rn_refreshing = None, rn_checked = False,
     rn_sessions = [Pending], rn_isReady = False, rn_ready = Pending,
     rn_slots = new_slots MAX_LOCAL_CALLS_IN_FLIGHT, rn_calls = [], rn_functions = (\<lambda>_. []), rn_log = []\<rparr>"

definition told :: "bridge_out list \<Rightarrow> runtime \<Rightarrow> runtime" where
  "told xs s = s\<lparr>rn_log := rn_log s @ xs\<rparr>"

definition the_call :: "runtime \<Rightarrow> nat \<Rightarrow> bridge_call" where
  "the_call s h = rn_calls s ! h"

definition set_call :: "nat \<Rightarrow> (bridge_call \<Rightarrow> bridge_call) \<Rightarrow> runtime \<Rightarrow> runtime" where
  "set_call h f s = s\<lparr>rn_calls := (rn_calls s)[h := f (rn_calls s ! h)]\<rparr>"

definition to_stage :: "nat \<Rightarrow> stage \<Rightarrow> runtime \<Rightarrow> runtime" where
  "to_stage h st = set_call h (\<lambda>c. c\<lparr>bl_stage := st\<rparr>)"

text \<open>A promise settles once; \<open>#sessionReady\<close> is the last of its kind.\<close>

definition settle_with :: "'a promise \<Rightarrow> 'a promise \<Rightarrow> 'a promise" where
  "settle_with v p = (case p of Pending \<Rightarrow> v | _ \<Rightarrow> p)"

definition settle_session :: "nat promise \<Rightarrow> runtime \<Rightarrow> runtime" where
  "settle_session v s = s\<lparr>rn_sessions := butlast (rn_sessions s) @ [settle_with v (last (rn_sessions s))]\<rparr>"

subsection \<open>Readiness\<close>

definition sessionFor :: "runtime \<Rightarrow> jsstring \<Rightarrow> nat option" where
  "sessionFor s key = (if key \<in> set (rn_granted s) then rn_session s else None)"

definition grantedBy :: "bridge_config \<Rightarrow> runtime \<Rightarrow> nat \<Rightarrow> jsstring list" where
  "grantedBy cfg s session = sort (filter (\<lambda>key. key \<in> set (rn_functions s session)) (map bf_key (bc_functions cfg)))"

definition readiness :: "runtime \<Rightarrow> readiness" where
  "readiness s =
     (let ready = (\<not> rn_destroyed s \<and> rn_session s \<noteq> None \<and> rn_granted s \<noteq> []) in
      \<lparr>rd_ready = ready, rd_granted = (if ready then rn_granted s else []), rd_version = rn_version s\<rparr>)"

definition is_ready_now :: "bridge_config \<Rightarrow> runtime \<Rightarrow> bool" where
  "is_ready_now cfg s =
     (if requiredKeys cfg \<noteq> [] then rn_session s \<noteq> None \<and> list_all (\<lambda>key. key \<in> set (rn_granted s)) (requiredKeys cfg)
      else rn_checked s)"

definition updateReady :: "bridge_config \<Rightarrow> runtime \<Rightarrow> runtime" where
  "updateReady cfg s =
     (if rn_destroyed s then s
      else if is_ready_now cfg s \<and> \<not> rn_isReady s then s\<lparr>rn_isReady := True, rn_ready := settle_with (Resolved ()) (rn_ready s)\<rparr>
      else if \<not> is_ready_now cfg s \<and> rn_isReady s then s\<lparr>rn_isReady := False, rn_ready := Pending\<rparr>
      else s)"

definition markChecked :: "bridge_config \<Rightarrow> runtime \<Rightarrow> runtime" where
  "markChecked cfg s = (if rn_checked s then s else updateReady cfg (s\<lparr>rn_checked := True\<rparr>))"

definition endLocal :: "bridge_config \<Rightarrow> writ_error \<Rightarrow> runtime \<Rightarrow> runtime" where
  "endLocal cfg e s =
     (let s1 = settle_session (Rejected e) (markChecked cfg (s\<lparr>rn_localEnded := Some e\<rparr>)) in
      if requiredKeys cfg \<noteq> [] \<and> \<not> rn_isReady s1 then s1\<lparr>rn_ready := settle_with (Rejected e) (rn_ready s1)\<rparr>
      else updateReady cfg s1)"

definition adopt :: "bridge_config \<Rightarrow> nat \<Rightarrow> runtime \<Rightarrow> runtime" where
  "adopt cfg session s =
     (if rn_destroyed s then s
      else told [Notified] (updateReady cfg (settle_session (Resolved session)
        (markChecked cfg (s\<lparr>rn_session := Some session, rn_granted := grantedBy cfg s session\<rparr>)))))"

text \<open>\<open>#startLocal\<close>: \<open>throws\<close> is what \<open>startBanner\<close> throws, if it does.\<close>

definition startLocal :: "bridge_config \<Rightarrow> writ_error option \<Rightarrow> runtime \<Rightarrow> runtime" where
  "startLocal cfg throws s =
     (let s1 = told (if rn_starter s then [BannerRemoved] else []) (s\<lparr>rn_generation := rn_generation s + 1, rn_starter := False\<rparr>) in
      case throws of
        Some e \<Rightarrow> endLocal cfg e s1
      | None \<Rightarrow> told [BannerStarted (rn_generation s1)] (s1\<lparr>rn_starter := True\<rparr>))"

definition onLocalClosed :: "bridge_config \<Rightarrow> writ_error \<Rightarrow> runtime \<Rightarrow> runtime" where
  "onLocalClosed cfg e s = (let s1 = s\<lparr>rn_starter := False\<rparr> in if rn_destroyed s1 then s1 else endLocal cfg e s1)"

definition resetLocal :: "bridge_config \<Rightarrow> writ_error option \<Rightarrow> runtime \<Rightarrow> runtime" where
  "resetLocal cfg throws s =
     startLocal cfg throws (told [Notified] (updateReady cfg
       (s\<lparr>rn_session := None, rn_granted := [], rn_sessions := rn_sessions s @ [Pending]\<rparr>)))"

text \<open>\<open>#refreshGrants\<close> before and after its \<open>await\<close>; the answer is what the session grants now, or a failure.\<close>

definition refreshGrants :: "nat \<Rightarrow> runtime \<Rightarrow> runtime" where
  "refreshGrants session s =
     (if rn_refreshing s \<noteq> None \<or> rn_session s \<noteq> Some session \<or> rn_destroyed s then s else s\<lparr>rn_refreshing := Some session\<rparr>)"

definition grants_refreshed :: "bridge_config \<Rightarrow> jsstring list option \<Rightarrow> writ_error option \<Rightarrow> runtime \<Rightarrow> runtime" where
  "grants_refreshed cfg answer throws s =
     (case rn_refreshing s of
        None \<Rightarrow> s
      | Some session \<Rightarrow>
          (let s1 = s\<lparr>rn_refreshing := None\<rparr> in
           case answer of
             None \<Rightarrow> s1
           | Some fns \<Rightarrow>
               (let s2 = s1\<lparr>rn_functions := (rn_functions s1)(session := fns)\<rparr> in
                if rn_session s2 \<noteq> Some session \<or> rn_destroyed s2 then s2
                else
                  (let s3 = s2\<lparr>rn_granted := grantedBy cfg s2 session\<rparr> in
                   if list_all (\<lambda>key. key \<in> set (rn_granted s3)) (localKeys cfg) then told [Notified] s3
                   else resetLocal cfg throws s3))))"

definition replaceSession :: "bridge_config \<Rightarrow> nat \<Rightarrow> writ_error option \<Rightarrow> runtime \<Rightarrow> runtime" where
  "replaceSession cfg session throws s =
     (if rn_destroyed s then s
      else
        (let granted = grantedBy cfg s session; complete = list_all (\<lambda>key. key \<in> set granted) (localKeys cfg) in
         if rn_session s = None then
           (if \<not> complete then s
            else adopt cfg session (told (if rn_starter s then [BannerRemoved] else [])
              (s\<lparr>rn_generation := rn_generation s + 1, rn_starter := False\<rparr>)))
         else if \<not> complete then resetLocal cfg throws s
         else told [Notified] (updateReady cfg (s\<lparr>rn_session := Some session, rn_granted := granted\<rparr>))))"

subsection \<open>Ends of calls\<close>

definition cancelled :: writ_error where
  "cancelled = \<lparr>we_code = js ''CANCELLED'', we_details = None\<rparr>"

definition abortedBy :: "thrown \<Rightarrow> writ_error" where
  "abortedBy reason =
     (case looksLikeWritError reason of
        Some w \<Rightarrow> if isWritError reason (Some [js ''CANCELLED'']) then w else cancelled
      | None \<Rightarrow> cancelled)"

definition venue_text :: "venue \<Rightarrow> jsval" where
  "venue_text v = VStr (case v of OnUser \<Rightarrow> js ''user'' | OnCloud \<Rightarrow> js ''cloud'')"

definition withVenue :: "writ_error \<Rightarrow> venue \<Rightarrow> writ_error" where
  "withVenue e v =
     (if (case we_details e of Some d \<Rightarrow> jget d (js ''venue'') = venue_text v | None \<Rightarrow> False) then e
      else e\<lparr>we_details := mergeDetails (we_details e) (Some [(js ''venue'', venue_text v)])\<rparr>)"

definition receiptOf :: "writ_error \<Rightarrow> jsval option" where
  "receiptOf e = (case we_details e of Some d \<Rightarrow> parseReceipt (jget d (js ''receipt'')) | None \<Rightarrow> None)"

definition fields_of :: "jsval option \<Rightarrow> fields option" where
  "fields_of v = Option.bind v obj_of"

text \<open>The outcome of a page's call; of a server's command, as the channel reports it.\<close>

definition conclude :: "nat \<Rightarrow> writ_error + bridge_result \<Rightarrow> runtime \<Rightarrow> runtime" where
  "conclude h res s =
     to_stage h
       (if bl_command (the_call s h)
        then Reported (case res of Inr r \<Rightarrow> Succeeded (br_data r) (fields_of (br_receipt r))
                       | Inl e \<Rightarrow> FailedWith (we_code e) (fields_of (receiptOf e)))
        else Ended res) s"

subsection \<open>On the visitor's computer\<close>

text \<open>A call's clean options, as the session takes them.\<close>

definition given_options :: "clean_options \<Rightarrow> raw_options" where
  "given_options opts =
     \<lparr>ro_signal = NoSignal,
      ro_timeoutMs = (case co_timeoutMs opts of Some ms \<Rightarrow> VNum (int_num ms) | None \<Rightarrow> VUndef),
      ro_dryRun = (case co_dryRun opts of Some b \<Rightarrow> VBool b | None \<Rightarrow> VUndef),
      ro_challenge = (case co_challenge opts of Some c \<Rightarrow> VStr c | None \<Rightarrow> VUndef),
      ro_token = (case co_token opts of Some (GivenToken t) \<Rightarrow> TokenValue (VStr t) | Some (TokenFrom f) \<Rightarrow> TokenSource f
                  | None \<Rightarrow> TokenValue VUndef),
      ro_recipeCache = (case co_recipeCache opts of Some m \<Rightarrow> VStr m | None \<Rightarrow> VUndef)\<rparr>"

definition command_options :: "page_command \<Rightarrow> raw_options" where
  "command_options c =
     \<lparr>ro_signal = NoSignal,
      ro_timeoutMs = (case pc_timeoutMs c of Some ms \<Rightarrow> VNum ms | None \<Rightarrow> VUndef),
      ro_dryRun = (case pc_dryRun c of Some b \<Rightarrow> VBool b | None \<Rightarrow> VUndef),
      ro_challenge = (case pc_challenge c of Some x \<Rightarrow> VStr x | None \<Rightarrow> VUndef),
      ro_token = TokenValue VUndef, ro_recipeCache = VUndef\<rparr>"

definition linkedCallOptions :: "bridge_config \<Rightarrow> bridge_function \<Rightarrow> token_arg \<Rightarrow> jsval \<Rightarrow> token_arg \<times> jsval" where
  "linkedCallOptions cfg fn token recipeCache =
     (if bf_linked fn = None then (TokenValue VUndef, VUndef)
      else
        (if token \<noteq> TokenValue VUndef then token
         else (case (bf_linked fn, bc_getRunToken cfg) of
                 (Some LinkedToken, Some f) \<Rightarrow> TokenSource f | _ \<Rightarrow> TokenValue VUndef),
         if recipeCache = VUndef then VStr (bc_recipeCache cfg) else recipeCache))"

definition session_options :: "bridge_config \<Rightarrow> bridge_call \<Rightarrow> raw_options" where
  "session_options cfg c =
     (let (token, recipeCache) = linkedCallOptions cfg (bl_fn c) (ro_token (bl_opts c)) (ro_recipeCache (bl_opts c)) in
      (bl_opts c)\<lparr>ro_signal := Signal (bl_aborted c \<noteq> None), ro_token := token, ro_recipeCache := recipeCache\<rparr>)"

definition run_local :: "bridge_config \<Rightarrow> nat \<Rightarrow> nat \<Rightarrow> runtime \<Rightarrow> runtime" where
  "run_local cfg h session s =
     (let c = the_call s h in
      told [CallOnUser h session (bf_key (bl_fn c)) (bl_inputs c) (session_options cfg c)] (to_stage h (Running session) s))"

definition enter_local :: "bridge_config \<Rightarrow> nat \<Rightarrow> nat \<Rightarrow> runtime \<Rightarrow> runtime" where
  "enter_local cfg h session s =
     (case bl_aborted (the_call s h) of
        Some e \<Rightarrow> conclude h (Inl e) s
      | None \<Rightarrow>
          (case acquire h (rn_slots s) of
             (True, sl) \<Rightarrow> run_local cfg h session (s\<lparr>rn_slots := sl\<rparr>)
           | (False, sl) \<Rightarrow> to_stage h (AwaitSlot session) (s\<lparr>rn_slots := sl\<rparr>)))"

text \<open>A released slot passes to the first in the queue.\<close>

definition pass_slot :: "bridge_config \<Rightarrow> runtime \<Rightarrow> runtime" where
  "pass_slot cfg s =
     (case release (rn_slots s) of
        (None, sl) \<Rightarrow> s\<lparr>rn_slots := sl\<rparr>
      | (Some n, sl) \<Rightarrow>
          (case bl_stage (the_call s n) of
             AwaitSlot session \<Rightarrow> run_local cfg n session (s\<lparr>rn_slots := sl\<rparr>)
           | _ \<Rightarrow> s\<lparr>rn_slots := sl\<rparr>))"

definition stale_codes :: "jsstring list" where
  "stale_codes = map js [''NOT_GRANTED'', ''GRANT_STALE'']"

definition user_answered :: "bridge_config \<Rightarrow> nat \<Rightarrow> thrown + call_result \<Rightarrow> runtime \<Rightarrow> runtime" where
  "user_answered cfg h answer s =
     (case bl_stage (the_call s h) of
        Running session \<Rightarrow>
          (case answer of
             Inr r \<Rightarrow>
               pass_slot cfg (conclude h (Inr \<lparr>br_data = cr_data r, br_venue = OnUser, br_receipt = Option.bind (cr_receipt r) id,
                 br_runId = Some (cr_runId r), br_callId = Some (cr_callId r)\<rparr>) s)
           | Inl x \<Rightarrow>
               (let failure = toWritError x None;
                    s1 = (if we_code failure \<in> set stale_codes then refreshGrants session s else s)
                in pass_slot cfg (conclude h (Inl (if bl_command (the_call s h) then failure else withVenue failure OnUser)) s1)))
      | _ \<Rightarrow> s)"

subsection \<open>On Writ Cloud, through the site's server\<close>

definition cloud_details :: "nat \<Rightarrow> fields" where
  "cloud_details status = [(js ''venue'', venue_text OnCloud), (js ''status'', VNum (int_num (int status)))]"

definition cloud_fault :: "string \<Rightarrow> writ_error" where
  "cloud_fault code = \<lparr>we_code = js code, we_details = Some [(js ''venue'', venue_text OnCloud)]\<rparr>"

definition status_code :: "nat \<Rightarrow> string" where
  "status_code status =
     (if status = 400 then ''BAD_REQUEST''
      else if status = 401 \<or> status = 403 then ''NOT_GRANTED''
      else if status = 404 \<or> status = 405 then ''BAD_REQUEST''
      else if status = 408 \<or> status = 504 then ''TIMEOUT''
      else if status = 413 then ''INPUT_INVALID''
      else if status = 429 then ''RATE_LIMITED''
      else ''INTERNAL'')"

definition cloudError :: "nat \<Rightarrow> jsval \<Rightarrow> writ_error" where
  "cloudError status payload =
     (let raw = (case payload of VObj r \<Rightarrow> (case jget r (js ''error'') of VObj e \<Rightarrow> e | _ \<Rightarrow> r) | _ \<Rightarrow> []) in
      case jget raw (js ''code'') of
        VStr (c # cs) \<Rightarrow>
          toWritError (Thrown (VObj [(js ''code'', VStr (c # cs)),
            (js ''message'', case jget raw (js ''message'') of VStr m \<Rightarrow> VStr m | _ \<Rightarrow> VUndef)])) (Some (cloud_details status))
      | _ \<Rightarrow> \<lparr>we_code = js (status_code status), we_details = Some (cloud_details status)\<rparr>)"

definition run_body :: "bridge_call \<Rightarrow> jsval" where
  "run_body c =
     VObj [(js ''run'', VObj [(js ''key'', VStr (bf_key (bl_fn c))), (js ''inputs'', bl_inputs c),
       (js ''options'', VObj
         (optional_field ''timeout_ms'' (if ro_timeoutMs (bl_opts c) = VUndef then None else Some (ro_timeoutMs (bl_opts c)))
          @ optional_field ''dry_run'' (if ro_dryRun (bl_opts c) = VUndef then None else Some (ro_dryRun (bl_opts c)))))])]"

text \<open>A fetch whose signal is aborted sends nothing, and fails.\<close>

definition go_cloud :: "bridge_config \<Rightarrow> nat \<Rightarrow> runtime \<Rightarrow> runtime" where
  "go_cloud cfg h s =
     (if \<not> bc_fetch cfg then conclude h (Inl (cloud_fault ''INTERNAL'')) s
      else told (if bl_aborted (the_call s h) = None then [PostRun h (run_body (the_call s h))] else []) (to_stage h AtServer s))"

text \<open>What the fetch gives: nothing (it failed, or its body did after a timeout or an abort), a status with
  a body that is not JSON, or a status and a body.\<close>

datatype server_answer = NoAnswer | NoBody nat | Answer nat jsval

definition fetch_failure :: "bridge_call \<Rightarrow> writ_error" where
  "fetch_failure c =
     (if bl_timedOut c then cloud_fault ''TIMEOUT''
      else case bl_aborted c of Some e \<Rightarrow> withVenue e OnCloud | None \<Rightarrow> cloud_fault ''INTERNAL'')"

definition read_answer :: "nat \<Rightarrow> jsval \<Rightarrow> writ_error + bridge_result" where
  "read_answer status payload =
     (if \<not> (200 \<le> status \<and> status \<le> 299) then Inl (cloudError status payload)
      else (case payload of
              VObj r \<Rightarrow>
                if js ''data'' \<in> fst ` set r
                then Inr \<lparr>br_data = jget r (js ''data''), br_venue = OnCloud, br_receipt = None, br_runId = None, br_callId = None\<rparr>
                else Inl \<lparr>we_code = js ''INTERNAL'', we_details = Some (cloud_details status)\<rparr>
            | _ \<Rightarrow> Inl \<lparr>we_code = js ''INTERNAL'', we_details = Some (cloud_details status)\<rparr>))"

definition server_answered :: "nat \<Rightarrow> server_answer \<Rightarrow> runtime \<Rightarrow> runtime" where
  "server_answered h answer s =
     (if bl_stage (the_call s h) \<noteq> AtServer then s
      else
        (let c = the_call s h in
         conclude h
           (case answer of
              NoAnswer \<Rightarrow> Inl (fetch_failure c)
            | NoBody status \<Rightarrow>
                if bl_timedOut c \<or> bl_aborted c \<noteq> None then Inl (fetch_failure c) else read_answer status VUndef
            | Answer status payload \<Rightarrow> read_answer status payload) s))"

definition server_timeout :: "nat \<Rightarrow> runtime \<Rightarrow> runtime" where
  "server_timeout h s =
     (if bl_stage (the_call s h) = AtServer then set_call h (\<lambda>c. c\<lparr>bl_timedOut := True\<rparr>) s else s)"

subsection \<open>Routing\<close>

definition not_installed :: writ_error where
  "not_installed = \<lparr>we_code = js ''NOT_INSTALLED'', we_details = None\<rparr>"

text \<open>\<open>#call\<close> before it makes its link: the clean inputs and options.\<close>

definition checked_call :: "bridge_config \<Rightarrow> bridge_function \<Rightarrow> jsval \<Rightarrow> options_arg \<Rightarrow> runtime \<Rightarrow> writ_error + fields \<times> clean_options" where
  "checked_call cfg fn inputs options s =
     res_bind (guard (\<not> rn_destroyed s) cancelled) (\<lambda>_.
     res_bind (contractInputChecker (bf_inputs fn) inputs) (\<lambda>_.
     res_bind (validateCallOptions options) (\<lambda>opts.
     res_bind (sanitizeInputs inputs) (\<lambda>clean.
     res_bind (guard (bc_window cfg) not_installed) (\<lambda>_.
       Inr (case clean of Some fs \<Rightarrow> fs | None \<Rightarrow> [], opts))))))"

text \<open>Up to the first \<open>await\<close> on something unsettled: \<open>untilAborted\<close> fails at once when the signal is aborted.\<close>

definition route :: "bridge_config \<Rightarrow> nat \<Rightarrow> runtime \<Rightarrow> runtime" where
  "route cfg h s =
     (let c = the_call s h in
      case bf_mode (bl_fn c) of
        ModeCloud \<Rightarrow> go_cloud cfg h s
      | ModeRecommended \<Rightarrow>
          if rn_checked s \<or> rn_localEnded s \<noteq> None then to_stage h (AwaitChecked False) s
          else (case bl_aborted c of Some e \<Rightarrow> conclude h (Inl e) s | None \<Rightarrow> to_stage h (AwaitChecked True) s)
      | ModeRequired \<Rightarrow>
          (case sessionFor s (bf_key (bl_fn c)) of
             Some session \<Rightarrow> enter_local cfg h session s
           | None \<Rightarrow>
               (case rn_localEnded s of
                  Some e \<Rightarrow> conclude h (Inl e) s
                | None \<Rightarrow>
                    (case bl_aborted c of
                       Some e \<Rightarrow> conclude h (Inl e) s
                     | None \<Rightarrow> to_stage h (AwaitSession (length (rn_sessions s) - 1)) s))))"

text \<open>A call of the bridge's method for \<open>key\<close>; \<open>reason\<close> is why its signal is aborted, if it already is.\<close>

definition start_call :: "bridge_config \<Rightarrow> jsstring \<Rightarrow> jsval \<Rightarrow> options_arg \<Rightarrow> thrown \<Rightarrow> runtime \<Rightarrow> runtime" where
  "start_call cfg key inputs options reason s =
     (case function_for cfg key of
        None \<Rightarrow> s
      | Some fn \<Rightarrow>
          (case checked_call cfg fn inputs options s of
             Inl e \<Rightarrow>
               s\<lparr>rn_calls := rn_calls s @ [\<lparr>bl_fn = fn, bl_command = False, bl_inputs = VUndef,
                 bl_opts = given_options \<lparr>co_signal = None, co_timeoutMs = None, co_dryRun = None, co_challenge = None, co_token = None,
                   co_recipeCache = None\<rparr>, bl_aborted = None, bl_timedOut = False, bl_stage = Ended (Inl e)\<rparr>]\<rparr>
           | Inr (clean, opts) \<Rightarrow>
               route cfg (length (rn_calls s))
                 (s\<lparr>rn_calls := rn_calls s @ [\<lparr>bl_fn = fn, bl_command = False, bl_inputs = VObj clean, bl_opts = given_options opts,
                   bl_aborted = (if co_signal opts = Some True then Some (abortedBy reason) else None), bl_timedOut = False,
                   bl_stage = AwaitChecked False\<rparr>]\<rparr>)))"

definition resume_checked :: "bridge_config \<Rightarrow> nat \<Rightarrow> runtime \<Rightarrow> runtime" where
  "resume_checked cfg h s =
     (case bl_stage (the_call s h) of
        AwaitChecked waits \<Rightarrow>
          if waits \<and> \<not> rn_checked s then s
          else (case sessionFor s (bf_key (bl_fn (the_call s h))) of
                  Some session \<Rightarrow> enter_local cfg h session s
                | None \<Rightarrow> go_cloud cfg h s)
      | _ \<Rightarrow> s)"

definition resume_session :: "bridge_config \<Rightarrow> nat \<Rightarrow> runtime \<Rightarrow> runtime" where
  "resume_session cfg h s =
     (case bl_stage (the_call s h) of
        AwaitSession n \<Rightarrow>
          (case rn_sessions s ! n of
             Pending \<Rightarrow> s
           | Rejected e \<Rightarrow> conclude h (Inl e) s
           | Resolved _ \<Rightarrow>
               (case sessionFor s (bf_key (bl_fn (the_call s h))) of
                  Some session \<Rightarrow> enter_local cfg h session s
                | None \<Rightarrow>
                    conclude h (Inl \<lparr>we_code = js ''NOT_GRANTED'', we_details = Some [(js ''origin'', VStr (bc_origin cfg))]\<rparr>) s))
      | _ \<Rightarrow> s)"

definition runCommand :: "bridge_config \<Rightarrow> page_command \<Rightarrow> runtime \<Rightarrow> runtime" where
  "runCommand cfg command s =
     (let key = pc_key command; h = length (rn_calls s);
          made = (\<lambda>fn st. s\<lparr>rn_calls := rn_calls s @ [\<lparr>bl_fn = fn, bl_command = True, bl_inputs = VObj (pc_inputs command),
            bl_opts = command_options command, bl_aborted = None, bl_timedOut = False, bl_stage = st\<rparr>]\<rparr>);
          unknown = \<lparr>bf_key = key, bf_mode = ModeRequired, bf_inputs = [], bf_linked = None\<rparr>
      in case function_for cfg key of
           None \<Rightarrow> made unknown (Reported (FailedWith (js ''NOT_GRANTED'') None))
         | Some fn \<Rightarrow>
             (case sessionFor s key of
                None \<Rightarrow> made fn (Reported (FailedWith (js ''NOT_GRANTED'') None))
              | Some session \<Rightarrow>
                  (case contractInputChecker (bf_inputs fn) (VObj (pc_inputs command)) of
                     Inl e \<Rightarrow> made fn (Reported (FailedWith (we_code e) None))
                   | Inr _ \<Rightarrow> enter_local cfg h session (made fn (AwaitChecked False)))))"

subsection \<open>Aborts and the end\<close>

text \<open>The signal of one call aborts: waits end, a queued call leaves the queue, the rest only know.\<close>

definition abort_call :: "writ_error \<Rightarrow> nat \<Rightarrow> runtime \<Rightarrow> runtime" where
  "abort_call e h s =
     (if h \<ge> length (rn_calls s) \<or> bl_aborted (the_call s h) \<noteq> None then s
      else
        (let s1 = set_call h (\<lambda>c. c\<lparr>bl_aborted := Some e\<rparr>) s in
         case bl_stage (the_call s h) of
           AwaitChecked True \<Rightarrow> conclude h (Inl e) s1
         | AwaitSession _ \<Rightarrow> conclude h (Inl e) s1
         | AwaitSlot _ \<Rightarrow> conclude h (Inl e) (s1\<lparr>rn_slots := leave_queue h (rn_slots s1)\<rparr>)
         | Ended _ \<Rightarrow> s
         | Reported _ \<Rightarrow> s
         | _ \<Rightarrow> s1))"

definition destroy :: "runtime \<Rightarrow> runtime" where
  "destroy s =
     (if rn_destroyed s then s
      else
        (let s1 = told ((if rn_starter s then [BannerRemoved] else []) @ [ChannelStopped])
               (s\<lparr>rn_destroyed := True, rn_generation := rn_generation s + 1, rn_starter := False\<rparr>);
             s2 = settle_session (Rejected cancelled) (fold (abort_call cancelled) [0..<length (rn_calls s1)] s1);
             s3 = (if rn_isReady s2 then s2\<lparr>rn_isReady := False, rn_ready := Pending\<rparr> else s2)
         in s3\<lparr>rn_ready := settle_with (Rejected cancelled) (rn_ready s3)\<rparr>))"

definition start :: "bridge_config \<Rightarrow> writ_error option \<Rightarrow> runtime \<Rightarrow> runtime" where
  "start cfg throws s =
     (if \<not> bc_window cfg then
        (let s1 = settle_session (Rejected not_installed) (s\<lparr>rn_localEnded := Some not_installed\<rparr>) in
         s1\<lparr>rn_ready := settle_with (Rejected not_installed) (rn_ready s1)\<rparr>)
      else if localKeys cfg = [] then markChecked cfg s
      else told [ChannelStarted] (startLocal cfg throws s))"

subsection \<open>What the page reads\<close>

record bridge_status =
  bs_ready :: bool
  bs_local :: bool
  bs_granted :: "jsstring list"
  bs_writVersion :: "jsstring option"
  bs_destroyed :: bool

definition status :: "runtime \<Rightarrow> bridge_status" where
  "status s = \<lparr>bs_ready = rn_isReady s, bs_local = (rn_session s \<noteq> None \<and> rn_granted s \<noteq> []), bs_granted = rn_granted s,
     bs_writVersion = rn_version s, bs_destroyed = rn_destroyed s\<rparr>"

definition venue_for :: "bridge_config \<Rightarrow> runtime \<Rightarrow> jsstring \<Rightarrow> writ_error + venue option" where
  "venue_for cfg s key =
     (case function_for cfg key of
        None \<Rightarrow> Inl badRequest
      | Some fn \<Rightarrow> Inr
          (if rn_destroyed s \<or> \<not> bc_window cfg then None
           else if bf_mode fn = ModeCloud then Some OnCloud
           else if sessionFor s key \<noteq> None then Some OnUser
           else if bf_mode fn = ModeRecommended \<and> (rn_checked s \<or> rn_localEnded s \<noteq> None) then Some OnCloud
           else None))"

subsection \<open>Any order of callbacks\<close>

text \<open>The banner's events carry the generation that started it; an older banner is not heard.\<close>

definition version_answered :: "nat \<Rightarrow> jsval \<Rightarrow> runtime \<Rightarrow> runtime" where
  "version_answered gen answer s =
     (if gen \<noteq> rn_generation s \<or> rn_destroyed s then s
      else told [Notified] (s\<lparr>rn_version := str_of (jget (case answer of VObj r \<Rightarrow> r | _ \<Rightarrow> []) (js ''desktop_version''))\<rparr>))"

definition granting :: "nat \<Rightarrow> jsstring list \<Rightarrow> runtime \<Rightarrow> runtime" where
  "granting session fns s = s\<lparr>rn_functions := (rn_functions s)(session := fns)\<rparr>"

datatype bridge_step =
    BridgeStart "writ_error option" | PageCall jsstring jsval options_arg thrown | ServerCommand page_command
  | ResumeChecked nat | ResumeSession nat | PageAborts nat thrown
  | UserAnswered nat "thrown + call_result" | ServerAnswered nat server_answer | ServerTimeout nat
  | BannerReady nat nat "jsstring list" | BannerPending nat | BannerClient nat | BannerClosed nat writ_error
  | VersionAnswered nat jsval | GrantsRefreshed "jsstring list option" "writ_error option"
  | Reconnected nat "jsstring list" "writ_error option" | DestroyBridge

definition bridge_step :: "bridge_config \<Rightarrow> bridge_step \<Rightarrow> runtime \<Rightarrow> runtime" where
  "bridge_step cfg e s =
     (case e of
        BridgeStart throws \<Rightarrow> start cfg throws s
      | PageCall key inputs options reason \<Rightarrow> start_call cfg key inputs options reason s
      | ServerCommand command \<Rightarrow> runCommand cfg command s
      | ResumeChecked h \<Rightarrow> if h < length (rn_calls s) then resume_checked cfg h s else s
      | ResumeSession h \<Rightarrow> if h < length (rn_calls s) then resume_session cfg h s else s
      | PageAborts h reason \<Rightarrow> abort_call (abortedBy reason) h s
      | UserAnswered h answer \<Rightarrow> if h < length (rn_calls s) then user_answered cfg h answer s else s
      | ServerAnswered h answer \<Rightarrow> if h < length (rn_calls s) then server_answered h answer s else s
      | ServerTimeout h \<Rightarrow> if h < length (rn_calls s) then server_timeout h s else s
      | BannerReady gen session fns \<Rightarrow> if gen = rn_generation s then adopt cfg session (granting session fns s) else s
      | BannerPending gen \<Rightarrow> if gen = rn_generation s then markChecked cfg s else s
      | BannerClient gen \<Rightarrow> if gen = rn_generation s then s\<lparr>rn_client := True\<rparr> else s
      | BannerClosed gen e1 \<Rightarrow> if gen = rn_generation s then onLocalClosed cfg e1 s else s
      | VersionAnswered gen answer \<Rightarrow> version_answered gen answer s
      | GrantsRefreshed answer throws \<Rightarrow> grants_refreshed cfg answer throws s
      | Reconnected session fns throws \<Rightarrow> replaceSession cfg session throws (granting session fns s)
      | DestroyBridge \<Rightarrow> destroy s)"

definition bridge_history :: "bridge_config \<Rightarrow> bridge_step list \<Rightarrow> runtime" where
  "bridge_history cfg es = fold (bridge_step cfg) es new_runtime"

end
