(* ===== verification/Page_Bridge_Safety.thy ===== *)
theory Page_Bridge_Safety
  imports Page_Bridge
begin

section \<open>Where the bridge of the page runs its calls\<close>

text \<open>
  Invariants of every history of \<open>Page_Bridge\<close>.  The callbacks about the visitor's Writ leave the calls alone
  (\<open>core\<close>), those about calls leave the visitor's state alone (\<open>face\<close>); \<open>slots_ok\<close> counts the slots, \<open>call_ok\<close> says
  what a call's stage tells of it, \<open>said_ok\<close> what a request that went out tells, in terms of the states so far.
\<close>

subsection \<open>What a callback leaves alone\<close>

definition quiet_out :: "bridge_out \<Rightarrow> bool" where
  "quiet_out x = (case x of CallOnUser _ _ _ _ _ \<Rightarrow> False | PostRun _ _ \<Rightarrow> False | _ \<Rightarrow> True)"

definition said :: "runtime \<Rightarrow> bridge_out list" where
  "said s = filter (\<lambda>x. \<not> quiet_out x) (rn_log s)"

definition core :: "runtime \<Rightarrow> bridge_call list \<times> slots \<times> bridge_out list" where
  "core s = (rn_calls s, rn_slots s, said s)"

definition face where
  "face s = (rn_destroyed s, rn_session s, rn_granted s, rn_localEnded s, rn_checked s, rn_sessions s, rn_isReady s, rn_ready s)"

lemma core_told [simp]: "list_all quiet_out xs \<Longrightarrow> core (told xs s) = core s"
  by (induction xs) (auto simp: core_def told_def said_def list_all_iff filter_empty_conv)

lemma quiet_outs [simp]:
  "quiet_out (BannerStarted n)" "quiet_out BannerRemoved" "quiet_out ChannelStarted" "quiet_out ChannelStopped" "quiet_out Notified"
  "\<not> quiet_out (CallOnUser h n k i p)" "\<not> quiet_out (PostRun h b)"
  by (simp_all add: quiet_out_def)

lemma core_fields [simp]:
  "core (s\<lparr>rn_destroyed := a\<rparr>) = core s" "core (s\<lparr>rn_generation := b\<rparr>) = core s" "core (s\<lparr>rn_starter := a\<rparr>) = core s"
  "core (s\<lparr>rn_client := a\<rparr>) = core s" "core (s\<lparr>rn_session := c\<rparr>) = core s" "core (s\<lparr>rn_granted := d\<rparr>) = core s"
  "core (s\<lparr>rn_version := f\<rparr>) = core s" "core (s\<lparr>rn_localEnded := g\<rparr>) = core s" "core (s\<lparr>rn_refreshing := c\<rparr>) = core s"
  "core (s\<lparr>rn_checked := a\<rparr>) = core s" "core (s\<lparr>rn_sessions := i\<rparr>) = core s" "core (s\<lparr>rn_isReady := a\<rparr>) = core s"
  "core (s\<lparr>rn_ready := j\<rparr>) = core s" "core (s\<lparr>rn_functions := k\<rparr>) = core s"
  by (simp_all add: core_def said_def)

lemma core_updateReady [simp]: "core (updateReady cfg s) = core s"
  by (simp add: updateReady_def)

lemma core_settle_session [simp]: "core (settle_session v s) = core s"
  by (simp add: settle_session_def)

lemma core_markChecked [simp]: "core (markChecked cfg s) = core s"
  by (simp add: markChecked_def)

lemma core_endLocal [simp]: "core (endLocal cfg e s) = core s"
  by (simp add: endLocal_def Let_def)

lemma core_adopt [simp]: "core (adopt cfg n s) = core s"
  by (simp add: adopt_def)

lemma core_startLocal [simp]: "core (startLocal cfg throws s) = core s"
  by (simp add: startLocal_def Let_def split: option.split)

lemma core_resetLocal [simp]: "core (resetLocal cfg throws s) = core s"
  by (simp add: resetLocal_def)

lemma core_onLocalClosed [simp]: "core (onLocalClosed cfg e s) = core s"
  by (simp add: onLocalClosed_def Let_def)

lemma core_refreshGrants [simp]: "core (refreshGrants n s) = core s"
  by (simp add: refreshGrants_def)

lemma core_grants_refreshed [simp]: "core (grants_refreshed cfg answer throws s) = core s"
  by (simp add: grants_refreshed_def Let_def split: option.split)

lemma core_replaceSession [simp]: "core (replaceSession cfg n throws s) = core s"
  by (simp add: replaceSession_def Let_def)

lemma core_granting [simp]: "core (granting n fns s) = core s"
  by (simp add: granting_def)

lemma core_version_answered [simp]: "core (version_answered gen answer s) = core s"
  by (simp add: version_answered_def)

lemma core_start [simp]: "core (start cfg throws s) = core s"
  by (simp add: start_def Let_def)

lemma face_fields [simp]:
  "face (s\<lparr>rn_slots := a\<rparr>) = face s" "face (s\<lparr>rn_calls := b\<rparr>) = face s" "face (s\<lparr>rn_log := c\<rparr>) = face s"
  "face (s\<lparr>rn_refreshing := d\<rparr>) = face s"
  by (simp_all add: face_def)

lemma face_calls [simp]:
  "face (told xs s) = face s" "face (set_call h f s) = face s" "face (to_stage h st s) = face s" "face (conclude h r s) = face s"
  "face (run_local cfg h n s) = face s" "face (refreshGrants n s) = face s"
  by (simp_all add: told_def set_call_def to_stage_def conclude_def run_local_def Let_def refreshGrants_def)

lemma face_enter_local [simp]: "face (enter_local cfg h n s) = face s"
  by (simp add: enter_local_def split: option.split prod.split bool.split)

lemma face_pass_slot [simp]: "face (pass_slot cfg s) = face s"
  by (simp add: pass_slot_def split: option.split prod.split stage.split)

lemma face_go_cloud [simp]: "face (go_cloud cfg h s) = face s"
  by (simp add: go_cloud_def)

lemma face_route [simp]: "face (route cfg h s) = face s"
  by (simp add: route_def Let_def split: bridge_mode.split option.split)

lemma face_answers [simp]:
  "face (user_answered cfg h a s) = face s" "face (server_answered h b s) = face s" "face (server_timeout h s) = face s"
  by (simp_all add: user_answered_def server_answered_def server_timeout_def Let_def split: stage.split sum.split)

lemma face_steps [simp]:
  "face (start_call cfg key inputs options reason s) = face s" "face (resume_checked cfg h s) = face s"
  "face (resume_session cfg h s) = face s" "face (runCommand cfg command s) = face s" "face (abort_call e h s) = face s"
  by (simp_all add: start_call_def resume_checked_def resume_session_def runCommand_def abort_call_def Let_def
    split: option.split sum.split stage.split bool.split promise.split prod.split)

lemma face_fold_abort [simp]: "face (fold (abort_call e) hs s) = face s"
  by (induction hs arbitrary: s) simp_all

subsection \<open>The visitor's Writ\<close>

definition sessions_ok :: "runtime \<Rightarrow> bool" where
  "sessions_ok s \<longleftrightarrow> rn_sessions s \<noteq> [] \<and> list_all (\<lambda>p. p \<noteq> Pending) (butlast (rn_sessions s))"

definition ready_kept :: "runtime \<Rightarrow> bool" where
  "ready_kept s \<longleftrightarrow> (rn_isReady s \<longrightarrow> rn_ready s \<noteq> Pending \<and> \<not> rn_destroyed s) \<and> (rn_destroyed s \<longrightarrow> rn_ready s \<noteq> Pending)"

definition visitor_ok :: "bridge_config \<Rightarrow> runtime \<Rightarrow> bool" where
  "visitor_ok cfg s \<longleftrightarrow>
     sessions_ok s \<and> ready_kept s \<and> (rn_isReady s \<longrightarrow> is_ready_now cfg s) \<and>
     (rn_session s \<noteq> None \<or> rn_destroyed s \<longrightarrow> last (rn_sessions s) \<noteq> Pending)"

lemma visitor_ok_face: "face s = face s' \<Longrightarrow> visitor_ok cfg s = visitor_ok cfg s'"
  by (simp add: visitor_ok_def sessions_ok_def ready_kept_def is_ready_now_def face_def)

lemma settle_with_simps [simp]:
  "settle_with v Pending = v" "settle_with v (Resolved x) = Resolved x" "settle_with v (Rejected e) = Rejected e"
  by (simp_all add: settle_with_def)

lemma settle_with_settled: "v \<noteq> Pending \<Longrightarrow> settle_with v p \<noteq> Pending"
  by (cases p) simp_all

lemma settle_session_fields [simp]:
  "rn_session (settle_session v s) = rn_session s" "rn_granted (settle_session v s) = rn_granted s"
  "rn_destroyed (settle_session v s) = rn_destroyed s" "rn_isReady (settle_session v s) = rn_isReady s"
  "rn_ready (settle_session v s) = rn_ready s" "rn_checked (settle_session v s) = rn_checked s"
  "rn_localEnded (settle_session v s) = rn_localEnded s" "rn_starter (settle_session v s) = rn_starter s"
  "last (rn_sessions (settle_session v s)) = settle_with v (last (rn_sessions s))"
  "butlast (rn_sessions (settle_session v s)) = butlast (rn_sessions s)"
  "sessions_ok (settle_session v s) = (sessions_ok (s\<lparr>rn_sessions := butlast (rn_sessions s) @ [Pending]\<rparr>))"
  by (simp_all add: settle_session_def sessions_ok_def)

lemma sessions_ok_last [simp]: "sessions_ok (s\<lparr>rn_sessions := butlast (rn_sessions s) @ [p]\<rparr>) = list_all (\<lambda>p. p \<noteq> Pending) (butlast (rn_sessions s))"
  by (simp add: sessions_ok_def)

lemma updateReady_fields [simp]:
  "rn_session (updateReady cfg s) = rn_session s" "rn_granted (updateReady cfg s) = rn_granted s"
  "rn_destroyed (updateReady cfg s) = rn_destroyed s" "rn_checked (updateReady cfg s) = rn_checked s"
  "rn_localEnded (updateReady cfg s) = rn_localEnded s" "rn_sessions (updateReady cfg s) = rn_sessions s"
  "rn_starter (updateReady cfg s) = rn_starter s" "rn_generation (updateReady cfg s) = rn_generation s"
  "is_ready_now cfg (updateReady cfg s) = is_ready_now cfg s" "sessions_ok (updateReady cfg s) = sessions_ok s"
  by (simp_all add: updateReady_def is_ready_now_def sessions_ok_def)

lemma ready_kept_updateReady [simp]: "ready_kept s \<Longrightarrow> ready_kept (updateReady cfg s)"
  by (auto simp: ready_kept_def updateReady_def settle_with_settled)

lemma updateReady_ready: "ready_kept s \<Longrightarrow> rn_isReady (updateReady cfg s) \<Longrightarrow> is_ready_now cfg s"
  by (auto simp: ready_kept_def updateReady_def split: if_splits)

lemma markChecked_fields [simp]:
  "rn_session (markChecked cfg s) = rn_session s" "rn_granted (markChecked cfg s) = rn_granted s"
  "rn_destroyed (markChecked cfg s) = rn_destroyed s" "rn_checked (markChecked cfg s)"
  "rn_localEnded (markChecked cfg s) = rn_localEnded s" "rn_sessions (markChecked cfg s) = rn_sessions s"
  "rn_starter (markChecked cfg s) = rn_starter s" "rn_generation (markChecked cfg s) = rn_generation s"
  "sessions_ok (markChecked cfg s) = sessions_ok s"
  by (simp_all add: markChecked_def sessions_ok_def)

lemma ready_kept_markChecked [simp]: "ready_kept s \<Longrightarrow> ready_kept (markChecked cfg s)"
  using ready_kept_updateReady [of "s\<lparr>rn_checked := True\<rparr>" cfg] by (simp add: markChecked_def ready_kept_def)

lemma ready_kept_fields [simp]:
  "ready_kept (settle_session v s) = ready_kept s" "ready_kept (told xs s) = ready_kept s"
  "ready_kept (s\<lparr>rn_session := a\<rparr>) = ready_kept s" "ready_kept (s\<lparr>rn_granted := b\<rparr>) = ready_kept s"
  "ready_kept (s\<lparr>rn_localEnded := c\<rparr>) = ready_kept s" "ready_kept (s\<lparr>rn_sessions := d\<rparr>) = ready_kept s"
  "ready_kept (s\<lparr>rn_generation := f\<rparr>) = ready_kept s" "ready_kept (s\<lparr>rn_starter := g\<rparr>) = ready_kept s"
  by (simp_all add: ready_kept_def told_def)

lemma told_fields [simp]:
  "rn_session (told xs s) = rn_session s" "rn_granted (told xs s) = rn_granted s" "rn_destroyed (told xs s) = rn_destroyed s"
  "rn_checked (told xs s) = rn_checked s" "rn_sessions (told xs s) = rn_sessions s" "rn_isReady (told xs s) = rn_isReady s"
  "rn_ready (told xs s) = rn_ready s" "rn_localEnded (told xs s) = rn_localEnded s" "rn_calls (told xs s) = rn_calls s"
  "rn_slots (told xs s) = rn_slots s" "rn_log (told xs s) = rn_log s @ xs" "rn_generation (told xs s) = rn_generation s"
  by (simp_all add: told_def)

text \<open>What each callback needs and leaves; \<open>steady\<close> leaves out the fields that it settles at its end.\<close>

definition steady :: "runtime \<Rightarrow> bool" where
  "steady s \<longleftrightarrow> list_all (\<lambda>p. p \<noteq> Pending) (butlast (rn_sessions s)) \<and> rn_sessions s \<noteq> [] \<and> ready_kept s"

lemma visitor_ok_steady: "visitor_ok cfg s \<Longrightarrow> steady s"
  by (simp add: visitor_ok_def steady_def sessions_ok_def)

lemma steady_fields [simp]:
  "steady (told xs s) = steady s" "steady (s\<lparr>rn_session := a\<rparr>) = steady s" "steady (s\<lparr>rn_granted := b\<rparr>) = steady s"
  "steady (s\<lparr>rn_localEnded := c\<rparr>) = steady s" "steady (s\<lparr>rn_generation := f\<rparr>) = steady s" "steady (s\<lparr>rn_starter := g\<rparr>) = steady s"
  by (simp_all add: steady_def)

lemma steady_calls [simp]: "steady s \<Longrightarrow> steady (updateReady cfg s)" "steady s \<Longrightarrow> steady (markChecked cfg s)"
  by (simp_all add: steady_def)

lemma steady_settle [simp]: "steady s \<Longrightarrow> steady (settle_session v s)"
  by (simp add: steady_def settle_session_def ready_kept_def)

lemma visitor_ok_updateReady:
  assumes "steady s" "rn_session s \<noteq> None \<or> rn_destroyed s \<Longrightarrow> last (rn_sessions s) \<noteq> Pending"
  shows "visitor_ok cfg (updateReady cfg s)"
  using assms by (auto simp: visitor_ok_def steady_def sessions_ok_def dest: updateReady_ready)

lemma visitor_ok_told [simp]: "visitor_ok cfg (told xs s) = visitor_ok cfg s"
  by (rule visitor_ok_face) simp

lemma visitor_ok_markChecked:
  assumes "visitor_ok cfg s" shows "visitor_ok cfg (markChecked cfg s)"
proof (cases "rn_checked s")
  case False
  have "steady (s\<lparr>rn_checked := True\<rparr>)" using visitor_ok_steady [OF assms] by (simp add: steady_def ready_kept_def)
  moreover have "rn_session s \<noteq> None \<or> rn_destroyed s \<Longrightarrow> last (rn_sessions s) \<noteq> Pending" using assms by (simp add: visitor_ok_def)
  ultimately show ?thesis using False visitor_ok_updateReady [of "s\<lparr>rn_checked := True\<rparr>" cfg] by (simp add: markChecked_def)
qed (use assms in \<open>simp add: markChecked_def\<close>)

lemma visitor_ok_adopt:
  assumes "visitor_ok cfg s" shows "visitor_ok cfg (adopt cfg n s)"
  using visitor_ok_steady [OF assms] assms by (simp add: adopt_def settle_with_settled visitor_ok_updateReady)


lemma visitor_ok_endLocal:
  assumes "visitor_ok cfg s" shows "visitor_ok cfg (endLocal cfg e s)"
proof -
  let ?s = "settle_session (Rejected e) (markChecked cfg (s\<lparr>rn_localEnded := Some e\<rparr>))"
  have "steady ?s" using visitor_ok_steady [OF assms] by simp
  moreover have "last (rn_sessions ?s) \<noteq> Pending" by (simp add: settle_with_settled)
  ultimately show ?thesis
    using visitor_ok_updateReady [of ?s cfg] 
    by (auto simp: endLocal_def Let_def visitor_ok_def steady_def sessions_ok_def ready_kept_def settle_with_settled)
qed

lemma visitor_ok_same:
  "visitor_ok cfg (s\<lparr>rn_generation := a\<rparr>) = visitor_ok cfg s" "visitor_ok cfg (s\<lparr>rn_starter := b\<rparr>) = visitor_ok cfg s"
  "visitor_ok cfg (s\<lparr>rn_refreshing := c\<rparr>) = visitor_ok cfg s" "visitor_ok cfg (s\<lparr>rn_functions := d\<rparr>) = visitor_ok cfg s"
  "visitor_ok cfg (s\<lparr>rn_version := f\<rparr>) = visitor_ok cfg s" "visitor_ok cfg (s\<lparr>rn_client := b\<rparr>) = visitor_ok cfg s"
  by (auto intro!: visitor_ok_face simp: face_def)

lemma visitor_ok_startLocal:
  assumes "visitor_ok cfg s" shows "visitor_ok cfg (startLocal cfg throws s)"
  using assms by (simp add: startLocal_def Let_def visitor_ok_same visitor_ok_endLocal split: option.split)

lemma visitor_ok_onLocalClosed:
  assumes "visitor_ok cfg s" shows "visitor_ok cfg (onLocalClosed cfg e s)"
  using assms by (simp add: onLocalClosed_def Let_def visitor_ok_same visitor_ok_endLocal)

lemma visitor_ok_resetLocal:
  assumes "steady s" "last (rn_sessions s) \<noteq> Pending" "\<not> rn_destroyed s" shows "visitor_ok cfg (resetLocal cfg throws s)"
proof -
  have "rn_sessions s = butlast (rn_sessions s) @ [last (rn_sessions s)]" using assms by (simp add: steady_def)
  moreover have "list_all (\<lambda>p. p \<noteq> Pending) (butlast (rn_sessions s) @ [last (rn_sessions s)])"
    using assms unfolding steady_def list_all_append by simp
  ultimately have "list_all (\<lambda>p. p \<noteq> Pending) (rn_sessions s)" by metis
  then have "steady (s\<lparr>rn_session := None, rn_granted := [], rn_sessions := rn_sessions s @ [Pending]\<rparr>)"
    using assms by (simp add: steady_def)
  then show ?thesis
    using assms visitor_ok_updateReady [of "s\<lparr>rn_session := None, rn_granted := [], rn_sessions := rn_sessions s @ [Pending]\<rparr>" cfg]
    by (simp add: resetLocal_def visitor_ok_startLocal)
qed

lemma visitor_ok_granted:
  assumes "visitor_ok cfg s" "list_all (\<lambda>key. key \<in> set g) (localKeys cfg)" "rn_session s \<noteq> None"
  shows "visitor_ok cfg (s\<lparr>rn_granted := g\<rparr>)"
proof -
  have "set (requiredKeys cfg) \<subseteq> set (localKeys cfg)" by (auto simp: requiredKeys_def localKeys_def)
  then have "list_all (\<lambda>key. key \<in> set g) (requiredKeys cfg)" using assms(2) by (auto simp: list_all_iff)
  then show ?thesis using assms by (simp add: visitor_ok_def sessions_ok_def is_ready_now_def ready_kept_def)
qed

lemma visitor_ok_grants_refreshed:
  assumes "visitor_ok cfg s" shows "visitor_ok cfg (grants_refreshed cfg answer throws s)"
proof (cases "\<exists>n fns. rn_refreshing s = Some n \<and> answer = Some fns \<and> rn_session s = Some n \<and> \<not> rn_destroyed s")
  case True
  then obtain n fns where c: "rn_refreshing s = Some n" "answer = Some fns" "rn_session s = Some n" "\<not> rn_destroyed s" by blast
  let ?s = "s\<lparr>rn_refreshing := None, rn_functions := (rn_functions s)(n := fns)\<rparr>"
  let ?g = "grantedBy cfg ?s n"
  have ok: "visitor_ok cfg ?s" using assms by (simp add: visitor_ok_same)
  have "visitor_ok cfg (s\<lparr>rn_refreshing := None, rn_functions := (rn_functions s)(n := fns), rn_granted := ?g\<rparr>)"
    if "list_all (\<lambda>key. key \<in> set ?g) (localKeys cfg)"
    using visitor_ok_granted [OF ok that] c by simp
  moreover have "visitor_ok cfg (resetLocal cfg throws (s\<lparr>rn_refreshing := None, rn_functions := (rn_functions s)(n := fns), rn_granted := ?g\<rparr>))"
    by (rule visitor_ok_resetLocal) (use visitor_ok_steady [OF ok] assms c in \<open>simp_all add: visitor_ok_def steady_def ready_kept_def\<close>)
  ultimately show ?thesis using c by (simp add: grants_refreshed_def Let_def)
next
  case False
  then show ?thesis using assms by (auto simp: grants_refreshed_def Let_def visitor_ok_same split: option.split)
qed

lemma visitor_ok_replaceSession:
  assumes "visitor_ok cfg s" shows "visitor_ok cfg (replaceSession cfg n throws s)"
proof -
  have st: "steady s" and l: "rn_session s \<noteq> None \<Longrightarrow> last (rn_sessions s) \<noteq> Pending"
    using assms visitor_ok_steady by (auto simp: visitor_ok_def)
  show ?thesis
    using assms st l
    by (auto simp: replaceSession_def Let_def visitor_ok_same intro!: visitor_ok_adopt visitor_ok_resetLocal visitor_ok_updateReady)
qed

lemma visitor_ok_start:
  assumes "visitor_ok cfg s" shows "visitor_ok cfg (start cfg throws s)"
proof -
  have "visitor_ok cfg (s1\<lparr>rn_ready := settle_with (Rejected not_installed) (rn_ready s1)\<rparr>)"
    if "s1 = settle_session (Rejected not_installed) (s\<lparr>rn_localEnded := Some not_installed\<rparr>)" for s1
    using assms that
    by (auto simp: visitor_ok_def sessions_ok_def ready_kept_def is_ready_now_def settle_with_settled settle_session_def)
  then show ?thesis using assms by (simp add: start_def Let_def visitor_ok_markChecked visitor_ok_startLocal)
qed

lemma visitor_ok_destroy:
  assumes "visitor_ok cfg s" shows "visitor_ok cfg (destroy s)"
proof (cases "rn_destroyed s")
  case False
  have "visitor_ok cfg (let s2 = settle_session (Rejected Page_Bridge.cancelled) t;
      s3 = (if rn_isReady s2 then s2\<lparr>rn_isReady := False, rn_ready := Pending\<rparr> else s2)
    in s3\<lparr>rn_ready := settle_with (Rejected Page_Bridge.cancelled) (rn_ready s3)\<rparr>)" if "face t = face (s\<lparr>rn_destroyed := True\<rparr>)" for t
    using assms that
    by (auto simp: Let_def face_def visitor_ok_def sessions_ok_def ready_kept_def settle_with_settled settle_session_def)
  moreover have "face (fold (abort_call Page_Bridge.cancelled) hs (told xs
      (s\<lparr>rn_destroyed := True, rn_generation := n, rn_starter := b\<rparr>))) = face (s\<lparr>rn_destroyed := True\<rparr>)" for hs xs n b
    by (simp only: face_fold_abort face_calls) (simp add: face_def)
  ultimately show ?thesis using False by (simp only: destroy_def Let_def if_False)
qed (use assms in \<open>simp add: destroy_def\<close>)

lemma visitor_ok_step:
  assumes "visitor_ok cfg s" shows "visitor_ok cfg (bridge_step cfg e s)"
proof -
  have "face t = face s \<Longrightarrow> visitor_ok cfg t" for t using assms visitor_ok_face by blast
  moreover have "visitor_ok cfg (granting n fns s)" for n fns using assms by (simp add: granting_def visitor_ok_same)
  ultimately show ?thesis using assms
    by (cases e) (simp_all add: bridge_step_def visitor_ok_start visitor_ok_adopt visitor_ok_markChecked visitor_ok_onLocalClosed
      visitor_ok_grants_refreshed visitor_ok_replaceSession visitor_ok_destroy version_answered_def visitor_ok_same)
qed

lemma visitor_ok_history: "visitor_ok cfg (bridge_history cfg es)"
proof (induction es rule: rev_induct)
  case Nil
  show ?case by (simp add: bridge_history_def new_runtime_def visitor_ok_def sessions_ok_def ready_kept_def)
next
  case (snoc e es)
  then show ?case by (simp add: bridge_history_def visitor_ok_step)
qed


subsection \<open>Calls and slots\<close>

definition over :: "stage \<Rightarrow> bool" where
  "over st = (case st of Ended _ \<Rightarrow> True | Reported _ \<Rightarrow> True | _ \<Rightarrow> False)"

definition is_running :: "stage \<Rightarrow> bool" where
  "is_running st = (case st of Running _ \<Rightarrow> True | _ \<Rightarrow> False)"

definition in_queue :: "stage \<Rightarrow> bool" where
  "in_queue st = (case st of AwaitSlot _ \<Rightarrow> True | _ \<Rightarrow> False)"

definition pausing :: "stage \<Rightarrow> bool" where
  "pausing st = (case st of AwaitChecked w \<Rightarrow> w | AwaitSession _ \<Rightarrow> True | AwaitSlot _ \<Rightarrow> True | _ \<Rightarrow> False)"

lemma stage_simps [simp]:
  "over (Ended r)" "over (Reported x)" "\<not> over (AwaitChecked w)" "\<not> over (AwaitSession n)" "\<not> over (AwaitSlot n)"
  "\<not> over (Running n)" "\<not> over AtServer"
  "is_running (Running n)" "\<not> is_running (Ended r)" "\<not> is_running (Reported x)" "\<not> is_running (AwaitChecked w)"
  "\<not> is_running (AwaitSession n)" "\<not> is_running (AwaitSlot n)" "\<not> is_running AtServer"
  "in_queue (AwaitSlot n)" "\<not> in_queue (Ended r)" "\<not> in_queue (Reported x)" "\<not> in_queue (AwaitChecked w)"
  "\<not> in_queue (AwaitSession n)" "\<not> in_queue (Running n)" "\<not> in_queue AtServer"
  "pausing (AwaitChecked w) = w" "pausing (AwaitSession n)" "pausing (AwaitSlot n)" "\<not> pausing (Running n)" "\<not> pausing AtServer"
  "\<not> pausing (Ended r)" "\<not> pausing (Reported x)"
  by (simp_all add: over_def is_running_def in_queue_def pausing_def)

definition running_calls :: "runtime \<Rightarrow> nat" where
  "running_calls s = length (filter (\<lambda>c. is_running (bl_stage c)) (rn_calls s))"

definition queued_calls :: "runtime \<Rightarrow> nat set" where
  "queued_calls s = {h. h < length (rn_calls s) \<and> in_queue (bl_stage (rn_calls s ! h))}"

text \<open>\<open>k\<close> slots are held by no call just now.\<close>

definition slots_ok :: "nat \<Rightarrow> runtime \<Rightarrow> bool" where
  "slots_ok k s \<longleftrightarrow>
     sl_free (rn_slots s) + running_calls s + k = MAX_LOCAL_CALLS_IN_FLIGHT \<and> distinct (sl_queue (rn_slots s)) \<and>
     set (sl_queue (rn_slots s)) = queued_calls s \<and> (sl_queue (rn_slots s) = [] \<or> sl_free (rn_slots s) = 0)"

definition looked :: "runtime \<Rightarrow> bool" where
  "looked s \<longleftrightarrow> rn_checked s \<or> rn_localEnded s \<noteq> None"

definition chosen :: "(runtime \<Rightarrow> bool) \<Rightarrow> jsstring \<Rightarrow> nat \<Rightarrow> bool" where
  "chosen past key session \<longleftrightarrow> (\<exists>t. past t \<and> sessionFor t key = Some session)"

definition passed_over :: "(runtime \<Rightarrow> bool) \<Rightarrow> jsstring \<Rightarrow> bool" where
  "passed_over past key \<longleftrightarrow> (\<exists>t. past t \<and> looked t \<and> sessionFor t key = None)"

definition stage_ok :: "(runtime \<Rightarrow> bool) \<Rightarrow> runtime \<Rightarrow> bridge_call \<Rightarrow> bool" where
  "stage_ok past s c \<longleftrightarrow>
     (case bl_stage c of
        AwaitChecked waits \<Rightarrow> \<not> bl_command c \<and> bf_mode (bl_fn c) = ModeRecommended \<and> (if waits then bl_aborted c = None else looked s)
      | AwaitSession n \<Rightarrow> \<not> bl_command c \<and> bf_mode (bl_fn c) = ModeRequired \<and> bl_aborted c = None \<and> n < length (rn_sessions s)
      | AwaitSlot n \<Rightarrow> (bl_command c \<or> bf_mode (bl_fn c) \<noteq> ModeCloud) \<and> chosen past (bf_key (bl_fn c)) n \<and> bl_aborted c = None
      | Running n \<Rightarrow> (bl_command c \<or> bf_mode (bl_fn c) \<noteq> ModeCloud) \<and> chosen past (bf_key (bl_fn c)) n
      | AtServer \<Rightarrow> \<not> bl_command c \<and> bf_mode (bl_fn c) \<noteq> ModeRequired
      | _ \<Rightarrow> True)"

definition made_ok :: "bridge_call \<Rightarrow> bool" where
  "made_ok c \<longleftrightarrow> bl_command c \<or> (\<exists>options opts. validateCallOptions options = Inr opts \<and> bl_opts c = given_options opts)"

definition given_up :: "bridge_call \<Rightarrow> bool" where
  "given_up c \<longleftrightarrow> bl_command c \<or> over (bl_stage c) \<or> (bl_aborted c \<noteq> None \<and> \<not> pausing (bl_stage c))"

definition call_ok :: "bridge_config \<Rightarrow> (runtime \<Rightarrow> bool) \<Rightarrow> bool \<Rightarrow> runtime \<Rightarrow> bridge_call \<Rightarrow> bool" where
  "call_ok cfg past d s c \<longleftrightarrow>
     stage_ok past s c \<and> made_ok c \<and> (over (bl_stage c) \<or> bl_fn c \<in> set (bc_functions cfg)) \<and> (d \<longrightarrow> given_up c)"

definition passed_options :: "bridge_config \<Rightarrow> bridge_function \<Rightarrow> raw_options \<Rightarrow> raw_options" where
  "passed_options cfg fn opts =
     opts\<lparr>ro_signal := Signal False, ro_token := fst (linkedCallOptions cfg fn (ro_token opts) (ro_recipeCache opts)),
       ro_recipeCache := snd (linkedCallOptions cfg fn (ro_token opts) (ro_recipeCache opts))\<rparr>"

text \<open>What of a call never changes.\<close>

definition fixed :: "bridge_call \<Rightarrow> bridge_call" where
  "fixed c = c\<lparr>bl_aborted := None, bl_timedOut := False, bl_stage := AtServer\<rparr>"

definition said_ok :: "bridge_config \<Rightarrow> (runtime \<Rightarrow> bool) \<Rightarrow> bridge_call list \<Rightarrow> bridge_out \<Rightarrow> bool" where
  "said_ok cfg past cs x \<longleftrightarrow>
     (case x of
        CallOnUser h n key inputs opts \<Rightarrow>
          h < length cs \<and> key = bf_key (bl_fn (cs ! h)) \<and> inputs = bl_inputs (cs ! h) \<and> bl_fn (cs ! h) \<in> set (bc_functions cfg) \<and>
          opts = passed_options cfg (bl_fn (cs ! h)) (bl_opts (cs ! h)) \<and> made_ok (cs ! h) \<and>
          (bl_command (cs ! h) \<or> bf_mode (bl_fn (cs ! h)) \<noteq> ModeCloud) \<and> chosen past key n
      | PostRun h body \<Rightarrow>
          h < length cs \<and> \<not> bl_command (cs ! h) \<and>
          (bf_mode (bl_fn (cs ! h)) = ModeCloud \<or>
           bf_mode (bl_fn (cs ! h)) = ModeRecommended \<and> passed_over past (bf_key (bl_fn (cs ! h))))
      | _ \<Rightarrow> True)"

definition calls_fit :: "bridge_config \<Rightarrow> (runtime \<Rightarrow> bool) \<Rightarrow> bool \<Rightarrow> nat set \<Rightarrow> runtime \<Rightarrow> bool" where
  "calls_fit cfg past d X s \<longleftrightarrow>
     (\<forall>h < length (rn_calls s). h \<notin> X \<longrightarrow> call_ok cfg past d s (rn_calls s ! h)) \<and>
     list_all (said_ok cfg past (rn_calls s)) (said s)"

definition bridge_ok :: "bridge_config \<Rightarrow> (runtime \<Rightarrow> bool) \<Rightarrow> bool \<Rightarrow> nat set \<Rightarrow> nat \<Rightarrow> runtime \<Rightarrow> bool" where
  "bridge_ok cfg past d X k s \<longleftrightarrow> slots_ok k s \<and> calls_fit cfg past d X s"

subsection \<open>Changes of one call\<close>

lemma made_ok_fields [simp]:
  "made_ok (c\<lparr>bl_aborted := a\<rparr>) = made_ok c" "made_ok (c\<lparr>bl_timedOut := b\<rparr>) = made_ok c" "made_ok (c\<lparr>bl_stage := st\<rparr>) = made_ok c"
  by (simp_all add: made_ok_def)

lemma call_ok_pausing: "call_ok cfg past d s c \<Longrightarrow> bl_aborted c = None \<or> given_up c"
  by (cases "bl_stage c") (auto simp: call_ok_def stage_ok_def given_up_def split: if_splits)

lemma set_call_fields [simp]:
  "rn_calls (set_call h f s) = (rn_calls s)[h := f (rn_calls s ! h)]" "rn_slots (set_call h f s) = rn_slots s"
  "rn_log (set_call h f s) = rn_log s" "said (set_call h f s) = said s"
  by (simp_all add: set_call_def said_def)

lemma to_stage_fields [simp]:
  "rn_calls (to_stage h st s) = (rn_calls s)[h := (rn_calls s ! h)\<lparr>bl_stage := st\<rparr>]" "rn_slots (to_stage h st s) = rn_slots s"
  "said (to_stage h st s) = said s"
  by (simp_all add: to_stage_def)

lemma call_ok_face:
  assumes "face t = face s" shows "call_ok cfg past d t c = call_ok cfg past d s c"
  using assms by (auto simp: call_ok_def stage_ok_def looked_def face_def split: stage.split)

lemma count_update:
  assumes "h < length xs"
  shows "length (filter P (xs[h := x])) + (if P (xs ! h) then 1 else 0) = length (filter P xs) + (if P x then 1 else (0::nat))"
  using assms
proof (induction xs arbitrary: h)
  case (Cons y ys)
  then show ?case by (cases h) auto
qed simp

lemma said_ok_fixed:
  assumes "map fixed cs = map fixed cs'" shows "said_ok cfg past cs x = said_ok cfg past cs' x"
proof -
  have len: "length cs = length cs'" using assms by (rule map_eq_imp_length_eq)
  have "fixed (cs ! h) = fixed (cs' ! h)" if "h < length cs" for h
    using assms that len by (metis nth_map)
  then have "bl_fn (cs ! h) = bl_fn (cs' ! h) \<and> bl_command (cs ! h) = bl_command (cs' ! h) \<and>
      bl_inputs (cs ! h) = bl_inputs (cs' ! h) \<and> bl_opts (cs ! h) = bl_opts (cs' ! h)" if "h < length cs" for h
    using that by (fastforce simp: fixed_def dest: arg_cong [where f = bl_fn] arg_cong [where f = bl_command]
      arg_cong [where f = bl_inputs] arg_cong [where f = bl_opts])
  moreover from this have "made_ok (cs ! h) = made_ok (cs' ! h)" if "h < length cs" for h using that by (simp add: made_ok_def)
  ultimately show ?thesis using len by (cases x) (simp_all add: said_ok_def cong: conj_cong)
qed

lemma fixed_update: "h < length cs \<Longrightarrow> fixed c = fixed (cs ! h) \<Longrightarrow> map fixed (cs[h := c]) = map fixed cs"
  by (metis list_update_id map_update)

lemma slots_ok_to_stage:
  assumes "slots_ok k s" "h < length (rn_calls s)" "\<not> in_queue (bl_stage (rn_calls s ! h))" "\<not> in_queue st"
    "k' + (if is_running st then 1 else 0) = k + (if is_running (bl_stage (rn_calls s ! h)) then 1 else 0)"
  shows "slots_ok k' (to_stage h st s)"
proof -
  have "queued_calls (to_stage h st s) = queued_calls s"
    using assms(2-4) by (auto simp: queued_calls_def nth_list_update)
  moreover have "running_calls (to_stage h st s) + (if is_running (bl_stage (rn_calls s ! h)) then 1 else 0)
      = running_calls s + (if is_running st then 1 else 0)"
    using count_update [OF assms(2), of "\<lambda>c. is_running (bl_stage c)" "(rn_calls s ! h)\<lparr>bl_stage := st\<rparr>"] by (simp add: running_calls_def)
  ultimately show ?thesis using assms(1,5) by (simp add: slots_ok_def)
qed

lemma bridge_ok_to_stage:
  assumes "calls_fit cfg past d {h} s" "h < length (rn_calls s)" "slots_ok k' (to_stage h st s)"
    "call_ok cfg past d s ((rn_calls s ! h)\<lparr>bl_stage := st\<rparr>)"
  shows "bridge_ok cfg past d {} k' (to_stage h st s)"
proof -
  have "call_ok cfg past d (to_stage h st s) c = call_ok cfg past d s c" for c by (rule call_ok_face) simp
  moreover have "said_ok cfg past (rn_calls (to_stage h st s)) x = said_ok cfg past (rn_calls s) x" for x
    by (rule said_ok_fixed) (use assms(2) in \<open>simp add: fixed_update fixed_def\<close>)
  ultimately show ?thesis using assms by (auto simp: bridge_ok_def calls_fit_def nth_list_update list_all_iff)
qed


lemma conclude_stage: "\<exists>st. over st \<and> conclude h r s = to_stage h st s"
  unfolding conclude_def by (rule exI, rule conjI [OF _ refl]) simp

lemma conclude_fields [simp]:
  "rn_slots (conclude h r s) = rn_slots s" "length (rn_calls (conclude h r s)) = length (rn_calls s)"
  by (simp_all add: conclude_def)

lemma over_kind: "over st \<Longrightarrow> \<not> is_running st \<and> \<not> in_queue st \<and> \<not> pausing st"
  by (cases st) simp_all

lemma bridge_ok_conclude:
  assumes "bridge_ok cfg past d {h} k s" "h < length (rn_calls s)" "\<not> in_queue (bl_stage (rn_calls s ! h))" "made_ok (rn_calls s ! h)"
  shows "bridge_ok cfg past d {} (k + (if is_running (bl_stage (rn_calls s ! h)) then 1 else 0)) (conclude h r s)"
proof -
  obtain st where st: "over st" "conclude h r s = to_stage h st s" using conclude_stage by blast
  have "call_ok cfg past d s ((rn_calls s ! h)\<lparr>bl_stage := st\<rparr>)"
    using st(1) assms(4) by (cases st) (simp_all add: call_ok_def stage_ok_def given_up_def)
  moreover have "slots_ok (k + (if is_running (bl_stage (rn_calls s ! h)) then 1 else 0)) (to_stage h st s)"
    by (rule slots_ok_to_stage) (use assms over_kind [OF st(1)] in \<open>simp_all add: bridge_ok_def calls_fit_def\<close>)
  ultimately show ?thesis using assms(1,2) st(2) bridge_ok_to_stage by (auto simp: bridge_ok_def)
qed

lemma bridge_ok_hold: "bridge_ok cfg past d {} k s \<Longrightarrow> bridge_ok cfg past d X k s"
  by (simp add: bridge_ok_def calls_fit_def)

lemma bridge_ok_call: "bridge_ok cfg past d {} k s \<Longrightarrow> h < length (rn_calls s) \<Longrightarrow> call_ok cfg past d s (rn_calls s ! h)"
  by (simp add: bridge_ok_def calls_fit_def)

lemma bridge_ok_told:
  assumes "bridge_ok cfg past d X k s" "list_all (said_ok cfg past (rn_calls s)) (filter (\<lambda>x. \<not> quiet_out x) xs)"
  shows "bridge_ok cfg past d X k (told xs s)"
proof -
  have "call_ok cfg past d (told xs s) c = call_ok cfg past d s c" for c by (rule call_ok_face) simp
  moreover have "slots_ok k (told xs s) = slots_ok k s" by (simp add: slots_ok_def running_calls_def queued_calls_def)
  ultimately show ?thesis using assms by (simp add: bridge_ok_def calls_fit_def said_def)
qed

lemma session_options_passed:
  "bl_aborted c = None \<Longrightarrow> session_options cfg c = passed_options cfg (bl_fn c) (bl_opts c)"
  by (simp add: session_options_def passed_options_def split: prod.split)

lemma bridge_ok_run_local:
  assumes "calls_fit cfg past d {h} s" "h < length (rn_calls s)" "slots_ok k' (to_stage h (Running n) s)"
    "bl_aborted (rn_calls s ! h) = None" "made_ok (rn_calls s ! h)" "bl_fn (rn_calls s ! h) \<in> set (bc_functions cfg)"
    "bl_command (rn_calls s ! h) \<or> bf_mode (bl_fn (rn_calls s ! h)) \<noteq> ModeCloud" "chosen past (bf_key (bl_fn (rn_calls s ! h))) n"
    "d \<longrightarrow> bl_command (rn_calls s ! h)"
  shows "bridge_ok cfg past d {} k' (run_local cfg h n s)"
proof -
  have "call_ok cfg past d s ((rn_calls s ! h)\<lparr>bl_stage := Running n\<rparr>)"
    using assms(4-9) by (auto simp: call_ok_def stage_ok_def given_up_def)
  then have "bridge_ok cfg past d {} k' (to_stage h (Running n) s)" using assms(1-3) by (rule bridge_ok_to_stage [rotated 3])
  then show ?thesis
    unfolding run_local_def Let_def
    by (rule bridge_ok_told) (use assms(2-8) in \<open>simp add: said_ok_def the_call_def session_options_passed made_ok_def\<close>)
qed

lemma counts_slots [simp]:
  "running_calls (s\<lparr>rn_slots := sl\<rparr>) = running_calls s" "queued_calls (s\<lparr>rn_slots := sl\<rparr>) = queued_calls s"
  by (simp_all add: running_calls_def queued_calls_def)

lemma calls_fit_slots [simp]: "calls_fit cfg past d X (s\<lparr>rn_slots := sl\<rparr>) = calls_fit cfg past d X s"
proof -
  have "call_ok cfg past d (s\<lparr>rn_slots := sl\<rparr>) c = call_ok cfg past d s c" for c by (rule call_ok_face) simp
  then show ?thesis by (simp add: calls_fit_def said_def)
qed

text \<open>A call is about to enter: what \<open>enter_local\<close> needs.\<close>

lemma bridge_ok_enter_local:
  assumes ok: "bridge_ok cfg past d {h} 0 s" and h: "h < length (rn_calls s)"
    and st: "\<not> in_queue (bl_stage (rn_calls s ! h))" "\<not> is_running (bl_stage (rn_calls s ! h))"
    and c: "made_ok (rn_calls s ! h)" "bl_fn (rn_calls s ! h) \<in> set (bc_functions cfg)"
      "bl_command (rn_calls s ! h) \<or> bf_mode (bl_fn (rn_calls s ! h)) \<noteq> ModeCloud" "chosen past (bf_key (bl_fn (rn_calls s ! h))) n"
      "d \<longrightarrow> bl_command (rn_calls s ! h) \<or> bl_aborted (rn_calls s ! h) \<noteq> None"
  shows "bridge_ok cfg past d {} 0 (enter_local cfg h n s)"
proof (cases "bl_aborted (rn_calls s ! h)")
  case (Some e)
  then show ?thesis using bridge_ok_conclude [OF ok h st(1) c(1), of "Inl e"] st by (simp add: enter_local_def the_call_def)
next
  case None
  have sl: "slots_ok 0 s" using ok by (simp add: bridge_ok_def calls_fit_def)
  show ?thesis
  proof (cases "sl_free (rn_slots s) > 0")
    case True
    let ?s = "s\<lparr>rn_slots := (rn_slots s)\<lparr>sl_free := sl_free (rn_slots s) - 1\<rparr>\<rparr>"
    have s1: "slots_ok 1 ?s" using sl True by (auto simp: slots_ok_def)
    have s2: "slots_ok 0 (to_stage h (Running n) ?s)" by (rule slots_ok_to_stage [OF s1]) (use h st in simp_all)
    have "calls_fit cfg past d {h} ?s" using ok by (simp add: bridge_ok_def)
    from this _ s2 have "bridge_ok cfg past d {} 0 (run_local cfg h n ?s)"
      by (rule bridge_ok_run_local) (use h c None in simp_all)
    then show ?thesis using None True by (simp add: enter_local_def the_call_def acquire_def)
  next
    case False
    let ?s = "s\<lparr>rn_slots := (rn_slots s)\<lparr>sl_queue := sl_queue (rn_slots s) @ [h]\<rparr>\<rparr>"
    have "call_ok cfg past d s ((rn_calls s ! h)\<lparr>bl_stage := AwaitSlot n\<rparr>)"
      using c None by (auto simp: call_ok_def stage_ok_def given_up_def)
    moreover have "call_ok cfg past d ?s c = call_ok cfg past d s c" for c by (rule call_ok_face) simp
    moreover have "calls_fit cfg past d {h} ?s" using ok by (simp add: bridge_ok_def)
    moreover have "slots_ok 0 (to_stage h (AwaitSlot n) ?s)"
    proof -
      have "running_calls (to_stage h (AwaitSlot n) ?s) = running_calls s"
        using count_update [OF h, of "\<lambda>c. is_running (bl_stage c)" "(rn_calls s ! h)\<lparr>bl_stage := AwaitSlot n\<rparr>"] st
        by (simp add: running_calls_def)
      moreover have "queued_calls (to_stage h (AwaitSlot n) ?s) = insert h (queued_calls s)" "h \<notin> queued_calls s"
        using h st by (auto simp: queued_calls_def nth_list_update)
      ultimately show ?thesis using sl False by (simp add: slots_ok_def)
    qed
    ultimately have "bridge_ok cfg past d {} 0 (to_stage h (AwaitSlot n) ?s)" using h by (simp add: bridge_ok_to_stage)
    then show ?thesis using None False by (simp add: enter_local_def the_call_def acquire_def)
  qed
qed


lemma bridge_ok_pass_slot:
  assumes ok: "bridge_ok cfg past d {} 1 s"
  shows "bridge_ok cfg past d {} 0 (pass_slot cfg s)"
proof (cases "sl_queue (rn_slots s)")
  case Nil
  have "slots_ok 0 (s\<lparr>rn_slots := (rn_slots s)\<lparr>sl_free := sl_free (rn_slots s) + 1\<rparr>\<rparr>)"
    using ok Nil by (simp add: bridge_ok_def calls_fit_def slots_ok_def)
  then show ?thesis using ok Nil by (simp add: pass_slot_def release_def bridge_ok_def)
next
  case (Cons h hs)
  let ?s = "s\<lparr>rn_slots := (rn_slots s)\<lparr>sl_queue := hs\<rparr>\<rparr>"
  have sl: "slots_ok 1 s" using ok by (simp add: bridge_ok_def calls_fit_def)
  have q: "h \<in> queued_calls s" "set hs = queued_calls s - {h}" "distinct hs" "sl_free (rn_slots s) = 0"
    using sl Cons by (auto simp: slots_ok_def)
  then have h: "h < length (rn_calls s)" and w: "in_queue (bl_stage (rn_calls s ! h))" by (simp_all add: queued_calls_def)
  then obtain n where n: "bl_stage (rn_calls s ! h) = AwaitSlot n" by (cases "bl_stage (rn_calls s ! h)") simp_all
  have c: "call_ok cfg past d s (rn_calls s ! h)" by (rule bridge_ok_call [OF ok h])
  have "running_calls (to_stage h (Running n) ?s) = running_calls s + 1"
    using count_update [OF h, of "\<lambda>c. is_running (bl_stage c)" "(rn_calls s ! h)\<lparr>bl_stage := Running n\<rparr>"] n
    by (simp add: running_calls_def)
  moreover have "queued_calls (to_stage h (Running n) ?s) = queued_calls s - {h}"
    using h by (auto simp: queued_calls_def nth_list_update split: if_splits)
  ultimately have sl': "slots_ok 0 (to_stage h (Running n) ?s)" using sl q by (simp add: slots_ok_def)
  have "calls_fit cfg past d {h} ?s" using ok bridge_ok_hold [OF ok, of "{h}"] by (simp add: bridge_ok_def)
  from this _ sl' have "bridge_ok cfg past d {} 0 (run_local cfg h n ?s)"
    by (rule bridge_ok_run_local) (use h n c in \<open>auto simp: call_ok_def stage_ok_def given_up_def\<close>)
  then show ?thesis using Cons n by (simp add: pass_slot_def release_def the_call_def)
qed


lemma bridge_ok_go_cloud:
  assumes ok: "bridge_ok cfg past d {h} 0 s" and h: "h < length (rn_calls s)"
    and st: "\<not> in_queue (bl_stage (rn_calls s ! h))" "\<not> is_running (bl_stage (rn_calls s ! h))"
    and c: "made_ok (rn_calls s ! h)" "bl_fn (rn_calls s ! h) \<in> set (bc_functions cfg)" "\<not> bl_command (rn_calls s ! h)"
      "bf_mode (bl_fn (rn_calls s ! h)) = ModeCloud \<or>
       bf_mode (bl_fn (rn_calls s ! h)) = ModeRecommended \<and> passed_over past (bf_key (bl_fn (rn_calls s ! h)))"
      "d \<longrightarrow> bl_aborted (rn_calls s ! h) \<noteq> None"
  shows "bridge_ok cfg past d {} 0 (go_cloud cfg h s)"
proof (cases "bc_fetch cfg")
  case True
  have "call_ok cfg past d s ((rn_calls s ! h)\<lparr>bl_stage := AtServer\<rparr>)"
    using c by (auto simp: call_ok_def stage_ok_def given_up_def)
  moreover have "slots_ok 0 (to_stage h AtServer s)"
    by (rule slots_ok_to_stage) (use ok h st in \<open>simp_all add: bridge_ok_def\<close>)
  ultimately have "bridge_ok cfg past d {} 0 (to_stage h AtServer s)" using ok h bridge_ok_to_stage by (auto simp: bridge_ok_def)
  then show ?thesis
    unfolding go_cloud_def using True by (auto intro!: bridge_ok_told simp: said_ok_def the_call_def h c)
next
  case False
  then show ?thesis using bridge_ok_conclude [OF ok h st(1) c(1)] st by (simp add: go_cloud_def)
qed

lemma bridge_ok_to_wait:
  assumes ok: "bridge_ok cfg past d {h} 0 s" and h: "h < length (rn_calls s)"
    and st: "\<not> in_queue (bl_stage (rn_calls s ! h))" "\<not> is_running (bl_stage (rn_calls s ! h))" "\<not> in_queue st" "\<not> is_running st"
    and c: "call_ok cfg past d s ((rn_calls s ! h)\<lparr>bl_stage := st\<rparr>)"
  shows "bridge_ok cfg past d {} 0 (to_stage h st s)"
proof -
  have "slots_ok 0 (to_stage h st s)" by (rule slots_ok_to_stage) (use ok h st in \<open>simp_all add: bridge_ok_def\<close>)
  then show ?thesis using ok h c bridge_ok_to_stage by (auto simp: bridge_ok_def)
qed

lemma bridge_ok_same_core:
  assumes "core t = core s" "face t = face s" shows "bridge_ok cfg past d X k t = bridge_ok cfg past d X k s"
proof -
  have "call_ok cfg past d t c = call_ok cfg past d s c" for c by (rule call_ok_face) (rule assms)
  then show ?thesis using assms(1)
    by (simp add: bridge_ok_def calls_fit_def slots_ok_def running_calls_def queued_calls_def core_def)
qed

lemma bridge_ok_refreshGrants [simp]: "bridge_ok cfg past d X k (refreshGrants n s) = bridge_ok cfg past d X k s"
  by (rule bridge_ok_same_core) simp_all

lemma refreshGrants_calls [simp]: "rn_calls (refreshGrants n s) = rn_calls s"
  by (simp add: refreshGrants_def)

lemma bridge_ok_user_answered:
  assumes ok: "bridge_ok cfg past d {} 0 s" and h: "h < length (rn_calls s)"
  shows "bridge_ok cfg past d {} 0 (user_answered cfg h answer s)"
proof (cases "bl_stage (rn_calls s ! h)")
  case (Running n)
  have m: "made_ok (rn_calls s ! h)" using bridge_ok_call [OF ok h] by (simp add: call_ok_def)
  have "bridge_ok cfg past d {} 1 (conclude h r t)" if "t = s \<or> t = refreshGrants n s" for r t
    using bridge_ok_conclude [OF bridge_ok_hold [OF ok] h _ m, of r] bridge_ok_conclude [of cfg past d h 0 "refreshGrants n s" r] that
      bridge_ok_hold [OF ok] h m Running by auto
  then show ?thesis using Running by (auto simp: user_answered_def the_call_def Let_def intro!: bridge_ok_pass_slot split: sum.split)
qed (use ok in \<open>simp_all add: user_answered_def the_call_def\<close>)

lemma bridge_ok_server_answered:
  assumes ok: "bridge_ok cfg past d {} 0 s" and h: "h < length (rn_calls s)"
  shows "bridge_ok cfg past d {} 0 (server_answered h answer s)"
proof (cases "bl_stage (rn_calls s ! h) = AtServer")
  case True
  have m: "made_ok (rn_calls s ! h)" using bridge_ok_call [OF ok h] by (simp add: call_ok_def)
  show ?thesis using bridge_ok_conclude [OF bridge_ok_hold [OF ok] h _ m] True by (simp add: server_answered_def the_call_def Let_def)
qed (use ok in \<open>simp_all add: server_answered_def the_call_def\<close>)

text \<open>Marking a call aborted or timed out.\<close>

lemma bridge_ok_mark:
  assumes ok: "bridge_ok cfg past d {} k s" and h: "h < length (rn_calls s)"
    and f: "fixed (f (rn_calls s ! h)) = fixed (rn_calls s ! h)" "bl_stage (f (rn_calls s ! h)) = bl_stage (rn_calls s ! h)"
  shows "bridge_ok cfg past d {h} k (set_call h f s)"
proof -
  have "call_ok cfg past d (set_call h f s) c = call_ok cfg past d s c" for c by (rule call_ok_face) simp
  moreover have "said_ok cfg past (rn_calls (set_call h f s)) x = said_ok cfg past (rn_calls s) x" for x
    by (rule said_ok_fixed) (use h f in \<open>simp add: fixed_update\<close>)
  moreover have "running_calls (set_call h f s) = running_calls s"
    using count_update [OF h, of "\<lambda>c. is_running (bl_stage c)" "f (rn_calls s ! h)"] f by (simp add: running_calls_def)
  moreover have "queued_calls (set_call h f s) = queued_calls s"
    using h f by (auto simp: queued_calls_def nth_list_update)
  ultimately show ?thesis using ok by (auto simp: bridge_ok_def calls_fit_def slots_ok_def list_all_iff nth_list_update)
qed

lemma bridge_ok_release:
  assumes "bridge_ok cfg past d {h} k s" "call_ok cfg past d s (rn_calls s ! h)" shows "bridge_ok cfg past d {} k s"
  using assms by (auto simp: bridge_ok_def calls_fit_def)

lemma bridge_ok_server_timeout:
  assumes ok: "bridge_ok cfg past d {} 0 s" and h: "h < length (rn_calls s)"
  shows "bridge_ok cfg past d {} 0 (server_timeout h s)"
proof (cases "bl_stage (rn_calls s ! h) = AtServer")
  case True
  let ?s = "set_call h (\<lambda>c. c\<lparr>bl_timedOut := True\<rparr>) s"
  have "bridge_ok cfg past d {h} 0 ?s" by (rule bridge_ok_mark [OF ok h]) (simp_all add: fixed_def)
  moreover have "call_ok cfg past d ?s (rn_calls ?s ! h)"
  proof -
    have "call_ok cfg past d s (rn_calls ?s ! h)"
      using bridge_ok_call [OF ok h] h True by (auto simp: call_ok_def stage_ok_def given_up_def)
    then show ?thesis using call_ok_face [of ?s s] by simp
  qed
  ultimately have "bridge_ok cfg past d {} 0 ?s" by (rule bridge_ok_release)
  then show ?thesis using True by (simp add: server_timeout_def the_call_def)
qed (use ok in \<open>simp add: server_timeout_def the_call_def\<close>)


lemma bridge_ok_abort_call:
  assumes ok: "bridge_ok cfg past d {} 0 s"
  shows "bridge_ok cfg past d {} 0 (abort_call e h s)"
proof (cases "h < length (rn_calls s) \<and> bl_aborted (rn_calls s ! h) = None \<and> \<not> over (bl_stage (rn_calls s ! h))")
  case True
  then have h: "h < length (rn_calls s)" by simp
  let ?s = "set_call h (\<lambda>c. c\<lparr>bl_aborted := Some e\<rparr>) s"
  have mark: "bridge_ok cfg past d {h} 0 ?s" by (rule bridge_ok_mark [OF ok h]) (simp_all add: fixed_def)
  have c: "call_ok cfg past d s (rn_calls s ! h)" by (rule bridge_ok_call [OF ok h])
  then have m: "made_ok (rn_calls ?s ! h)" using h by (simp add: call_ok_def)
  have end_call: "bridge_ok cfg past d {} 0 (conclude h r ?s)" if "\<not> in_queue (bl_stage (rn_calls s ! h))" "\<not> is_running (bl_stage (rn_calls s ! h))" for r
    using bridge_ok_conclude [OF mark _ _ m, of r] that h by simp
  have keep: "bridge_ok cfg past d {} 0 ?s" if "\<not> pausing (bl_stage (rn_calls s ! h))" "\<not> in_queue (bl_stage (rn_calls s ! h))"
  proof (rule bridge_ok_release [OF mark])
    have "call_ok cfg past d s (rn_calls ?s ! h)"
      using c h that True by (auto simp: call_ok_def stage_ok_def given_up_def split: stage.split)
    then show "call_ok cfg past d ?s (rn_calls ?s ! h)" using call_ok_face [of ?s s] by simp
  qed
  show ?thesis
  proof (cases "bl_stage (rn_calls s ! h)")
    case (AwaitSlot n)
    let ?t = "?s\<lparr>rn_slots := leave_queue h (rn_slots s)\<rparr>"
    obtain st where st: "over st" "conclude h (Inl e) ?t = to_stage h st ?t" using conclude_stage by blast
    have "call_ok cfg past d ?t ((rn_calls ?t ! h)\<lparr>bl_stage := st\<rparr>)"
      using st(1) m by (cases st) (simp_all add: call_ok_def stage_ok_def given_up_def)
    moreover have "slots_ok 0 (to_stage h st ?t)"
    proof -
      have "running_calls (to_stage h st ?t) = running_calls s"
        using count_update [OF h, of "\<lambda>c. is_running (bl_stage c)" "(rn_calls s ! h)\<lparr>bl_aborted := Some e, bl_stage := st\<rparr>"]
          AwaitSlot over_kind [OF st(1)] h by (simp add: running_calls_def)
      moreover have "queued_calls (to_stage h st ?t) = queued_calls s - {h}"
        using h over_kind [OF st(1)] by (auto simp: queued_calls_def nth_list_update split: if_splits)
      ultimately show ?thesis using ok by (auto simp: bridge_ok_def slots_ok_def leave_queue_def)
    qed
    moreover have "calls_fit cfg past d {h} ?t" using mark by (simp add: bridge_ok_def)
    ultimately have "bridge_ok cfg past d {} 0 (to_stage h st ?t)" using h by (simp add: bridge_ok_to_stage)
    then show ?thesis using True AwaitSlot st by (simp add: abort_call_def the_call_def Let_def)
  next
    case (AwaitChecked w)
    then show ?thesis using True end_call keep by (cases w) (simp_all add: abort_call_def the_call_def Let_def)
  qed (use True end_call keep in \<open>simp_all add: abort_call_def the_call_def Let_def\<close>)
next
  case False
  then show ?thesis using ok by (auto simp: abort_call_def the_call_def Let_def over_def split: stage.split)
qed

lemma abort_call_calls:
  "length (rn_calls (abort_call e h s)) = length (rn_calls s)"
  "h' \<noteq> h \<Longrightarrow> rn_calls (abort_call e h s) ! h' = rn_calls s ! h'"
  by (simp_all add: abort_call_def Let_def conclude_def split: stage.split bool.split)

lemma abort_call_given_up:
  assumes "h < length (rn_calls s)" "call_ok cfg past d s (rn_calls s ! h)"
  shows "given_up (rn_calls (abort_call e h s) ! h)"
  using assms(1) call_ok_pausing [OF assms(2)]
  by (auto simp: abort_call_def given_up_def Let_def conclude_def the_call_def split: stage.split bool.split)


lemma given_up_all:
  assumes "bridge_ok cfg past False {} 0 s" "n \<le> length (rn_calls s)"
  shows "bridge_ok cfg past False {} 0 (fold (abort_call e) [0..<n] s) \<and> length (rn_calls (fold (abort_call e) [0..<n] s)) = length (rn_calls s) \<and>
    (\<forall>h < n. given_up (rn_calls (fold (abort_call e) [0..<n] s) ! h))"
  using assms(2)
proof (induction n)
  case (Suc n)
  let ?t = "fold (abort_call e) [0..<n] s"
  have t: "bridge_ok cfg past False {} 0 ?t" "n < length (rn_calls ?t)" "length (rn_calls ?t) = length (rn_calls s)"
    "\<And>h. h < n \<Longrightarrow> given_up (rn_calls ?t ! h)" using Suc by auto
  have "given_up (rn_calls (abort_call e n ?t) ! h)" if "h < Suc n" for h
    using abort_call_given_up [OF t(2) bridge_ok_call [OF t(1,2)]] t(4) that abort_call_calls(2)
    by (cases "h = n") simp_all
  then show ?case using bridge_ok_abort_call [OF t(1)] t(3) by (simp add: abort_call_calls(1))
qed (use assms in simp)

lemma bridge_ok_ended:
  assumes "bridge_ok cfg past False X k s" "\<forall>h < length (rn_calls s). given_up (rn_calls s ! h)"
  shows "bridge_ok cfg past True X k s"
  using assms by (simp add: bridge_ok_def calls_fit_def call_ok_def)

text \<open>What a callback about the visitor may change: the calls stay, checks and promises are only added.\<close>

definition grows :: "runtime \<Rightarrow> runtime \<Rightarrow> bool" where
  "grows s t \<longleftrightarrow> (looked s \<longrightarrow> looked t) \<and> length (rn_sessions s) \<le> length (rn_sessions t)"

lemma bridge_ok_grows:
  assumes "bridge_ok cfg past d X k s" "core t = core s" "grows s t" shows "bridge_ok cfg past d X k t"
proof -
  have "call_ok cfg past d s c \<Longrightarrow> call_ok cfg past d t c" for c
    using assms(3) by (cases "bl_stage c") (auto simp: call_ok_def stage_ok_def grows_def split: if_splits)
  then show ?thesis using assms(1,2)
    by (simp add: bridge_ok_def calls_fit_def slots_ok_def running_calls_def queued_calls_def core_def)
qed

lemma grows_refl [simp]: "grows s s" by (simp add: grows_def)

lemma grows_trans: "grows s t \<Longrightarrow> grows t u \<Longrightarrow> grows s u" by (auto simp: grows_def)

lemma grows_fields [simp]:
  "grows s (t\<lparr>rn_destroyed := a\<rparr>) = grows s t" "grows s (t\<lparr>rn_generation := b\<rparr>) = grows s t" "grows s (t\<lparr>rn_starter := a\<rparr>) = grows s t"
  "grows s (t\<lparr>rn_client := a\<rparr>) = grows s t" "grows s (t\<lparr>rn_session := c\<rparr>) = grows s t" "grows s (t\<lparr>rn_granted := f\<rparr>) = grows s t"
  "grows s (t\<lparr>rn_version := g\<rparr>) = grows s t" "grows s (t\<lparr>rn_refreshing := c\<rparr>) = grows s t" "grows s (t\<lparr>rn_isReady := a\<rparr>) = grows s t"
  "grows s (t\<lparr>rn_ready := i\<rparr>) = grows s t" "grows s (t\<lparr>rn_functions := j\<rparr>) = grows s t" "grows s (told xs t) = grows s t"
  "grows s t \<Longrightarrow> grows s (t\<lparr>rn_checked := True\<rparr>)" "grows s t \<Longrightarrow> grows s (t\<lparr>rn_localEnded := Some e\<rparr>)"
  "grows s t \<Longrightarrow> length (rn_sessions t) \<le> length ps \<Longrightarrow> grows s (t\<lparr>rn_sessions := ps\<rparr>)"
  by (auto simp: grows_def looked_def told_def)

lemma grows_updateReady [simp]: "grows s (updateReady cfg t) = grows s t"
  by (simp add: grows_def looked_def)

lemma grows_settle_session [simp]: "grows s t \<Longrightarrow> grows s (settle_session v t)"
  by (auto simp: grows_def looked_def settle_session_def)

lemma grows_markChecked [simp]: "grows s t \<Longrightarrow> grows s (markChecked cfg t)"
  by (simp add: markChecked_def)

lemma grows_endLocal [simp]: "grows s t \<Longrightarrow> grows s (endLocal cfg e t)"
  by (simp add: endLocal_def Let_def)

lemma grows_adopt [simp]: "grows s t \<Longrightarrow> grows s (adopt cfg n t)"
  by (simp add: adopt_def)

lemma grows_startLocal [simp]: "grows s t \<Longrightarrow> grows s (startLocal cfg throws t)"
  by (simp add: startLocal_def Let_def split: option.split)

lemma grows_resetLocal [simp]: "grows s t \<Longrightarrow> grows s (resetLocal cfg throws t)"
  by (simp add: resetLocal_def)

lemma grows_onLocalClosed [simp]: "grows s t \<Longrightarrow> grows s (onLocalClosed cfg e t)"
  by (simp add: onLocalClosed_def Let_def)

lemma grows_grants [simp]:
  "grows s (grants_refreshed cfg answer throws s)" "grows s t \<Longrightarrow> grows s (replaceSession cfg n throws t)"
  "grows s t \<Longrightarrow> grows s (granting n fns t)" "grows s (version_answered gen v s)" "grows s (start cfg throws s)"
  by (simp_all add: grants_refreshed_def replaceSession_def granting_def version_answered_def start_def Let_def split: option.split)


subsection \<open>Steps\<close>

lemma sessionFor_face: "face t = face s \<Longrightarrow> sessionFor t key = sessionFor s key"
  by (simp add: sessionFor_def face_def)

lemma looked_face: "face t = face s \<Longrightarrow> looked t = looked s"
  by (simp add: looked_def face_def)

lemma bridge_ok_append:
  assumes ok: "bridge_ok cfg past d {} 0 s" and st: "\<not> in_queue (bl_stage c)" "\<not> is_running (bl_stage c)"
  shows "bridge_ok cfg past d {length (rn_calls s)} 0 (s\<lparr>rn_calls := rn_calls s @ [c]\<rparr>)"
proof -
  let ?s = "s\<lparr>rn_calls := rn_calls s @ [c]\<rparr>"
  have "call_ok cfg past d ?s x = call_ok cfg past d s x" for x by (rule call_ok_face) simp
  moreover have "said_ok cfg past (rn_calls s) x \<Longrightarrow> said_ok cfg past (rn_calls ?s) x" for x
    by (cases x) (auto simp: said_ok_def nth_append)
  moreover have "running_calls ?s = running_calls s" using st by (simp add: running_calls_def)
  moreover have "queued_calls ?s = queued_calls s" using st by (auto simp: queued_calls_def nth_append less_Suc_eq)
  ultimately show ?thesis using ok
    by (auto simp: bridge_ok_def calls_fit_def slots_ok_def said_def list_all_iff nth_append less_Suc_eq)
qed

lemma bridge_ok_append_over:
  assumes ok: "bridge_ok cfg past d {} 0 s" and c: "over (bl_stage c)" "made_ok c"
  shows "bridge_ok cfg past d {} 0 (s\<lparr>rn_calls := rn_calls s @ [c]\<rparr>)"
proof (rule bridge_ok_release)
  show "bridge_ok cfg past d {length (rn_calls s)} 0 (s\<lparr>rn_calls := rn_calls s @ [c]\<rparr>)"
    by (rule bridge_ok_append) (use ok over_kind [OF c(1)] in simp_all)
  show "call_ok cfg past d (s\<lparr>rn_calls := rn_calls s @ [c]\<rparr>) (rn_calls (s\<lparr>rn_calls := rn_calls s @ [c]\<rparr>) ! length (rn_calls s))"
    using c by (cases "bl_stage c") (simp_all add: call_ok_def stage_ok_def given_up_def)
qed

lemma function_for_in: "function_for cfg key = Some fn \<Longrightarrow> fn \<in> set (bc_functions cfg) \<and> bf_key fn = key"
  by (auto simp: function_for_def find_Some_iff)

lemma bridge_ok_route:
  assumes ok: "bridge_ok cfg past False {h} 0 s" and h: "h < length (rn_calls s)"
    and past: "past t" "face t = face s" "rn_sessions s \<noteq> []"
    and st: "\<not> in_queue (bl_stage (rn_calls s ! h))" "\<not> is_running (bl_stage (rn_calls s ! h))"
    and c: "made_ok (rn_calls s ! h)" "bl_fn (rn_calls s ! h) \<in> set (bc_functions cfg)" "\<not> bl_command (rn_calls s ! h)"
  shows "bridge_ok cfg past False {} 0 (route cfg h s)"
proof -
  let ?c = "rn_calls s ! h"
  have ends: "bridge_ok cfg past False {} 0 (conclude h r s)" for r
    using bridge_ok_conclude [OF ok h st(1) c(1), of r] st by simp
  have waits: "bridge_ok cfg past False {} 0 (to_stage h st s)"
    if "\<not> in_queue st" "\<not> is_running st" "stage_ok past s (?c\<lparr>bl_stage := st\<rparr>)" for st
    by (rule bridge_ok_to_wait [OF ok h st]) (use that c in \<open>simp_all add: call_ok_def\<close>)
  show ?thesis
  proof (cases "bf_mode (bl_fn ?c)")
    case ModeCloud
    have "bridge_ok cfg past False {} 0 (go_cloud cfg h s)" by (rule bridge_ok_go_cloud [OF ok h st c]) (use ModeCloud in simp_all)
    then show ?thesis using ModeCloud by (simp add: route_def the_call_def Let_def)
  next
    case ModeRecommended
    then show ?thesis using ends waits c
      by (auto simp: route_def the_call_def Let_def stage_ok_def looked_def split: option.split)
  next
    case ModeRequired
    have "bridge_ok cfg past False {} 0 (enter_local cfg h n s)" if "sessionFor s (bf_key (bl_fn ?c)) = Some n" for n
      by (rule bridge_ok_enter_local [OF ok h st c(1,2)])
        (use that ModeRequired past sessionFor_face [OF past(2)] in \<open>auto simp: chosen_def\<close>)
    then show ?thesis using ModeRequired ends waits c past(3)
      by (auto simp: route_def the_call_def Let_def stage_ok_def split: option.split)
  qed
qed

lemma bridge_ok_start_call:
  assumes ok: "bridge_ok cfg past (rn_destroyed s) {} 0 s" and past: "past s" "rn_sessions s \<noteq> []"
  shows "bridge_ok cfg past (rn_destroyed s) {} 0 (start_call cfg key inputs options reason s)"
proof (cases "function_for cfg key")
  case (Some fn)
  show ?thesis
  proof (cases "checked_call cfg fn inputs options s")
    case (Inl e)
    let ?none = "\<lparr>co_signal = None, co_timeoutMs = None, co_dryRun = None,
        co_challenge = None, co_token = None, co_recipeCache = None\<rparr>"
    have "made_ok c" if "bl_opts c = given_options ?none" for c
      unfolding made_ok_def by (intro disjI2 exI [of _ NoOptions] exI [of _ ?none]) (simp add: that validateCallOptions_def)
    then show ?thesis using Some Inl by (simp add: start_call_def bridge_ok_append_over [OF ok])
  next
    case (Inr x)
    obtain clean opts where x: "x = (clean, opts)" by fastforce
    have d: "\<not> rn_destroyed s" and v: "validateCallOptions options = Inr opts"
      using Inr x by (auto simp: checked_call_def res_bind_def guard_def split: sum.splits if_splits)
    let ?c = "\<lparr>bl_fn = fn, bl_command = False, bl_inputs = VObj clean, bl_opts = given_options opts,
      bl_aborted = (if co_signal opts = Some True then Some (abortedBy reason) else None), bl_timedOut = False, bl_stage = AwaitChecked False\<rparr>"
    have "bridge_ok cfg past False {length (rn_calls s)} 0 (s\<lparr>rn_calls := rn_calls s @ [?c]\<rparr>)"
      by (rule bridge_ok_append) (use ok d in simp_all)
    then have "bridge_ok cfg past False {} 0 (route cfg (length (rn_calls s)) (s\<lparr>rn_calls := rn_calls s @ [?c]\<rparr>))"
      by (rule bridge_ok_route [where t = s]) (use past v function_for_in [OF Some] in \<open>auto simp: made_ok_def\<close>)
    then show ?thesis using Some Inr x d by (simp add: start_call_def)
  qed
qed (use ok in \<open>simp add: start_call_def\<close>)

lemma bridge_ok_resume_checked:
  assumes ok: "bridge_ok cfg past d {} 0 s" and h: "h < length (rn_calls s)" and past: "past s"
  shows "bridge_ok cfg past d {} 0 (resume_checked cfg h s)"
proof (cases "\<exists>waits. bl_stage (rn_calls s ! h) = AwaitChecked waits \<and> \<not> (waits \<and> \<not> rn_checked s)")
  case True
  then obtain waits where w: "bl_stage (rn_calls s ! h) = AwaitChecked waits" "waits \<longrightarrow> rn_checked s" by blast
  have c: "call_ok cfg past d s (rn_calls s ! h)" by (rule bridge_ok_call [OF ok h])
  have hold: "bridge_ok cfg past d {h} 0 s" by (rule bridge_ok_hold [OF ok])
  have lk: "looked s" using c w by (auto simp: call_ok_def stage_ok_def looked_def split: if_splits)
  have "bridge_ok cfg past d {} 0 (enter_local cfg h n s)" if "sessionFor s (bf_key (bl_fn (rn_calls s ! h))) = Some n" for n
    by (rule bridge_ok_enter_local [OF hold h])
      (use that past c w in \<open>auto simp: chosen_def call_ok_def stage_ok_def given_up_def\<close>)
  moreover have "bridge_ok cfg past d {} 0 (go_cloud cfg h s)" if "sessionFor s (bf_key (bl_fn (rn_calls s ! h))) = None"
    by (rule bridge_ok_go_cloud [OF hold h])
      (use that past c w lk in \<open>auto simp: passed_over_def call_ok_def stage_ok_def given_up_def\<close>)
  ultimately show ?thesis using w ok by (auto simp: resume_checked_def the_call_def split: option.split)
qed (use ok in \<open>auto simp: resume_checked_def the_call_def split: stage.split\<close>)

lemma bridge_ok_resume_session:
  assumes ok: "bridge_ok cfg past d {} 0 s" and h: "h < length (rn_calls s)" and past: "past s"
  shows "bridge_ok cfg past d {} 0 (resume_session cfg h s)"
proof (cases "\<exists>n. bl_stage (rn_calls s ! h) = AwaitSession n")
  case True
  then obtain w where w: "bl_stage (rn_calls s ! h) = AwaitSession w" by blast
  have c: "call_ok cfg past d s (rn_calls s ! h)" by (rule bridge_ok_call [OF ok h])
  have hold: "bridge_ok cfg past d {h} 0 s" by (rule bridge_ok_hold [OF ok])
  have "bridge_ok cfg past d {} 0 (conclude h r s)" for r
    using bridge_ok_conclude [OF hold h, of r] c w by (simp add: call_ok_def)
  moreover have "bridge_ok cfg past d {} 0 (enter_local cfg h n s)" if "sessionFor s (bf_key (bl_fn (rn_calls s ! h))) = Some n" for n
    by (rule bridge_ok_enter_local [OF hold h])
      (use that past c w in \<open>auto simp: chosen_def call_ok_def stage_ok_def given_up_def\<close>)
  ultimately show ?thesis using w ok by (simp add: resume_session_def the_call_def split: option.split promise.split)
qed (use ok in \<open>auto simp: resume_session_def the_call_def split: stage.split\<close>)

lemma bridge_ok_runCommand:
  assumes ok: "bridge_ok cfg past d {} 0 s" and past: "past s"
  shows "bridge_ok cfg past d {} 0 (runCommand cfg command s)"
proof -
  have over: "bridge_ok cfg past d {} 0 (s\<lparr>rn_calls := rn_calls s @ [c]\<rparr>)" if "over (bl_stage c)" "bl_command c" for c
    by (rule bridge_ok_append_over [OF ok that(1)]) (use that(2) in \<open>simp add: made_ok_def\<close>)
  have enter: "bridge_ok cfg past d {} 0 (enter_local cfg (length (rn_calls s)) n (s\<lparr>rn_calls := rn_calls s @ [c]\<rparr>))"
    if "bl_stage c = AwaitChecked False" "bl_command c" "bl_fn c \<in> set (bc_functions cfg)" "sessionFor s (bf_key (bl_fn c)) = Some n" for c n
    by (rule bridge_ok_enter_local [OF bridge_ok_append [OF ok]]) (use that past in \<open>auto simp: chosen_def made_ok_def\<close>)
  show ?thesis
    by (auto simp: runCommand_def Let_def intro!: over enter dest: function_for_in split: option.split sum.split)
qed

lemma core_settled:
  "core (s\<lparr>rn_isReady := b, rn_ready := p\<rparr>) = core s" by (simp add: core_def said_def)

lemma bridge_ok_destroy:
  assumes ok: "bridge_ok cfg past (rn_destroyed s) {} 0 s"
  shows "bridge_ok cfg past True {} 0 (destroy s)"
proof (cases "rn_destroyed s")
  case False
  let ?s1 = "told ((if rn_starter s then [BannerRemoved] else []) @ [ChannelStopped])
               (s\<lparr>rn_destroyed := True, rn_generation := rn_generation s + 1, rn_starter := False\<rparr>)"
  let ?t = "fold (abort_call Page_Bridge.cancelled) [0..<length (rn_calls ?s1)] ?s1"
  have "bridge_ok cfg past False {} 0 ?s1" by (rule bridge_ok_grows [of _ _ _ _ _ s]) (use ok False in simp_all)
  from given_up_all [OF this order_refl] have "bridge_ok cfg past True {} 0 ?t"
    by (intro bridge_ok_ended) simp_all
  then have "bridge_ok cfg past True {} 0 u" if "core u = core ?t" "grows ?t u" for u
    by (rule bridge_ok_grows) (use that in simp_all)
  then show ?thesis using False
    by (simp add: destroy_def Let_def)
qed (use ok in \<open>simp add: destroy_def\<close>)


lemma bridge_ok_past: "bridge_ok cfg past d X k s \<Longrightarrow> (\<And>t. past t \<Longrightarrow> past' t) \<Longrightarrow> bridge_ok cfg past' d X k s"
proof -
  assume ok: "bridge_ok cfg past d X k s" and le: "\<And>t. past t \<Longrightarrow> past' t"
  have ch: "chosen past key n \<Longrightarrow> chosen past' key n" "passed_over past key \<Longrightarrow> passed_over past' key" for key n
    using le by (auto simp: chosen_def passed_over_def)
  have "call_ok cfg past d s c \<Longrightarrow> call_ok cfg past' d s c" for c
    using ch by (cases "bl_stage c") (auto simp: call_ok_def stage_ok_def)
  moreover have "said_ok cfg past cs x \<Longrightarrow> said_ok cfg past' cs x" for cs x
    using ch by (cases x) (auto simp: said_ok_def)
  ultimately show ?thesis using ok by (auto simp: bridge_ok_def calls_fit_def list_all_iff)
qed

text \<open>The callbacks about the visitor, all at once.\<close>

lemma destroyed_kept [simp]:
  "rn_destroyed (updateReady cfg s) = rn_destroyed s" "rn_destroyed (endLocal cfg e s) = rn_destroyed s"
  "rn_destroyed (adopt cfg n s) = rn_destroyed s" "rn_destroyed (startLocal cfg throws s) = rn_destroyed s"
  by (simp_all add: updateReady_def endLocal_def adopt_def startLocal_def Let_def split: option.split)

lemma destroyed_callbacks [simp]:
  "rn_destroyed (resetLocal cfg throws s) = rn_destroyed s" "rn_destroyed (onLocalClosed cfg e s) = rn_destroyed s"
  "rn_destroyed (granting n fns s) = rn_destroyed s" "rn_destroyed (version_answered gen v s) = rn_destroyed s"
  by (simp_all add: resetLocal_def onLocalClosed_def granting_def version_answered_def Let_def)

lemma destroyed_changes [simp]:
  "rn_destroyed (grants_refreshed cfg answer throws s) = rn_destroyed s" "rn_destroyed (replaceSession cfg n throws s) = rn_destroyed s"
  "rn_destroyed (start cfg throws s) = rn_destroyed s"
  by (simp_all add: grants_refreshed_def replaceSession_def start_def Let_def split: option.split)

lemma destroyed_face: "face t = face s \<Longrightarrow> rn_destroyed t = rn_destroyed s" by (simp add: face_def)

lemma destroyed_calls [simp]:
  "rn_destroyed (start_call cfg key inputs options reason s) = rn_destroyed s" "rn_destroyed (resume_checked cfg h s) = rn_destroyed s"
  "rn_destroyed (resume_session cfg h s) = rn_destroyed s" "rn_destroyed (runCommand cfg command s) = rn_destroyed s"
  "rn_destroyed (abort_call e h s) = rn_destroyed s" "rn_destroyed (user_answered cfg h a s) = rn_destroyed s"
  "rn_destroyed (server_answered h b s) = rn_destroyed s" "rn_destroyed (server_timeout h s) = rn_destroyed s"
  by (rule destroyed_face, simp)+

lemma destroyed_destroy [simp]: "rn_destroyed (destroy s)"
proof -
  have "rn_destroyed (fold (abort_call Page_Bridge.cancelled) hs t) = rn_destroyed t" for hs t by (rule destroyed_face) simp
  then show ?thesis by (simp add: destroy_def Let_def)
qed

lemma bridge_ok_step:
  assumes ok: "bridge_ok cfg past (rn_destroyed s) {} 0 s" and past: "past s" "rn_sessions s \<noteq> []"
  shows "bridge_ok cfg past (rn_destroyed (bridge_step cfg e s)) {} 0 (bridge_step cfg e s)"
proof -
  have visitor: "bridge_ok cfg past d {} 0 t" if "d = rn_destroyed s" "core t = core s" "grows s t" for t d
    using bridge_ok_grows [OF ok that(2,3)] that(1) by simp
  show ?thesis
  proof (cases e)
    case (BannerReady gen session fns)
    then show ?thesis by (auto simp: bridge_step_def intro!: visitor)
  next
    case (Reconnected session fns throws)
    then show ?thesis by (auto simp: bridge_step_def intro!: visitor)
  next
    case (BannerClosed gen x)
    then show ?thesis by (auto simp: bridge_step_def intro!: visitor)
  next
    case (BannerPending gen)
    then show ?thesis by (auto simp: bridge_step_def intro!: visitor)
  next
    case (BannerClient gen)
    then show ?thesis by (auto simp: bridge_step_def intro!: visitor)
  next
    case (BridgeStart throws)
    then show ?thesis by (auto simp: bridge_step_def intro!: visitor)
  next
    case (VersionAnswered gen v)
    then show ?thesis by (auto simp: bridge_step_def intro!: visitor)
  next
    case (GrantsRefreshed answer throws)
    then show ?thesis by (auto simp: bridge_step_def intro!: visitor)
  next
    case DestroyBridge
    then show ?thesis using bridge_ok_destroy [OF ok] by (simp add: bridge_step_def)
  qed (use ok past in \<open>simp_all add: bridge_step_def bridge_ok_start_call bridge_ok_resume_checked bridge_ok_resume_session
    bridge_ok_runCommand bridge_ok_abort_call bridge_ok_user_answered bridge_ok_server_answered bridge_ok_server_timeout\<close>)
qed

text \<open>The states a history went through, before its last callback.\<close>

definition went_through :: "bridge_config \<Rightarrow> bridge_step list \<Rightarrow> runtime \<Rightarrow> bool" where
  "went_through cfg es t \<longleftrightarrow> (\<exists>xs ys. es = xs @ ys \<and> ys \<noteq> [] \<and> t = bridge_history cfg xs)"

lemma bridge_history_snoc: "bridge_history cfg (es @ [e]) = bridge_step cfg e (bridge_history cfg es)"
  by (simp add: bridge_history_def)

lemma bridge_ok_history:
  "bridge_ok cfg (went_through cfg es) (rn_destroyed (bridge_history cfg es)) {} 0 (bridge_history cfg es)"
proof (induction es rule: rev_induct)
  case Nil
  show ?case
    by (simp add: bridge_history_def new_runtime_def bridge_ok_def calls_fit_def slots_ok_def running_calls_def queued_calls_def
      new_slots_def said_def)
next
  case (snoc e es)
  have "rn_sessions (bridge_history cfg es) \<noteq> []" using visitor_ok_history by (simp add: visitor_ok_def sessions_ok_def)
  moreover have "went_through cfg (es @ [e]) (bridge_history cfg es)" by (auto simp: went_through_def)
  moreover have "went_through cfg es t \<Longrightarrow> went_through cfg (es @ [e]) t" for t by (fastforce simp: went_through_def)
  ultimately show ?case using bridge_ok_step [OF bridge_ok_past [OF snoc]] by (simp add: bridge_history_snoc)
qed


subsection \<open>After the end\<close>

text \<open>The requests made for the page's own calls.\<close>

definition page_out :: "bridge_call list \<Rightarrow> bridge_out \<Rightarrow> bool" where
  "page_out cs x = (case x of CallOnUser h _ _ _ _ \<Rightarrow> \<not> bl_command (cs ! h) | PostRun _ _ \<Rightarrow> True | _ \<Rightarrow> False)"

definition page_requests :: "runtime \<Rightarrow> bridge_out list" where
  "page_requests s = filter (page_out (rn_calls s)) (said s)"

lemma page_requests_core: "core t = core s \<Longrightarrow> page_requests t = page_requests s"
  by (simp add: page_requests_def core_def)

lemma command_update [simp]: "bl_command c = bl_command (cs ! i) \<Longrightarrow> bl_command (cs[i := c] ! h) = bl_command (cs ! h)"
  by (metis list_update_beyond not_less nth_list_update_eq nth_list_update_neq)

lemma page_out_update [simp]: "bl_command c = bl_command (cs ! i) \<Longrightarrow> page_out (cs[i := c]) = page_out cs"
  by (rule ext) (simp add: page_out_def split: bridge_out.split)

lemma page_requests_stage [simp]: "page_requests (to_stage h st s) = page_requests s" "page_requests (conclude h r s) = page_requests s"
  by (simp_all add: page_requests_def conclude_def)

lemma page_requests_mark [simp]:
  "page_requests (set_call h (\<lambda>c. c\<lparr>bl_aborted := a\<rparr>) s) = page_requests s"
  "page_requests (set_call h (\<lambda>c. c\<lparr>bl_timedOut := b\<rparr>) s) = page_requests s"
  "page_requests (s\<lparr>rn_slots := sl\<rparr>) = page_requests s" "page_requests (refreshGrants n s) = page_requests s"
  by (simp_all add: page_requests_def said_def refreshGrants_def)

lemma page_requests_told [simp]:
  "page_requests (told xs s) = page_requests s @ filter (\<lambda>x. \<not> quiet_out x \<and> page_out (rn_calls s) x) xs"
  by (simp add: page_requests_def said_def conj_commute)

lemma page_requests_run_local:
  assumes "bl_command (the_call s h)" shows "page_requests (run_local cfg h n s) = page_requests s"
  using assms by (simp add: run_local_def Let_def page_out_def the_call_def)

lemma page_requests_enter_local:
  assumes "bl_command (the_call s h) \<or> bl_aborted (the_call s h) \<noteq> None" shows "page_requests (enter_local cfg h n s) = page_requests s"
  using assms by (auto simp: enter_local_def acquire_def page_requests_run_local the_call_def split: option.split)

lemma page_requests_pass_slot:
  assumes "bridge_ok cfg past True {} 1 s" shows "page_requests (pass_slot cfg s) = page_requests s"
proof (cases "sl_queue (rn_slots s)")
  case (Cons h hs)
  have "h \<in> queued_calls s" using assms Cons by (auto simp: bridge_ok_def slots_ok_def)
  then have h: "h < length (rn_calls s)" "in_queue (bl_stage (rn_calls s ! h))" by (simp_all add: queued_calls_def)
  then have "bl_command (rn_calls s ! h)"
    using bridge_ok_call [OF assms h(1)] by (cases "bl_stage (rn_calls s ! h)") (auto simp: call_ok_def given_up_def)
  then show ?thesis using Cons by (simp add: pass_slot_def release_def page_requests_run_local the_call_def split: stage.split)
qed (simp add: pass_slot_def release_def)

lemma page_requests_go_cloud:
  assumes "bl_aborted (the_call s h) \<noteq> None" shows "page_requests (go_cloud cfg h s) = page_requests s"
  using assms by (auto simp: go_cloud_def)

lemma page_requests_append:
  assumes "bridge_ok cfg past d X k s" shows "page_requests (s\<lparr>rn_calls := rn_calls s @ [c]\<rparr>) = page_requests s"
proof -
  have "page_out (rn_calls s @ [c]) x = page_out (rn_calls s) x" if "x \<in> set (said s)" for x
    using assms that by (cases x) (auto simp: bridge_ok_def calls_fit_def list_all_iff said_ok_def page_out_def nth_append)
  moreover have "said (s\<lparr>rn_calls := rn_calls s @ [c]\<rparr>) = said s" by (simp add: said_def)
  ultimately show ?thesis unfolding page_requests_def by (simp cong: filter_cong)
qed


text \<open>A bridge that was destroyed makes no request for the page any more.\<close>

lemma page_requests_quiet_step:
  assumes ok: "bridge_ok cfg past True {} 0 s" and d: "rn_destroyed s"
  shows "page_requests (bridge_step cfg e s) = page_requests s"
proof -
  have aborted: "bl_command (the_call s h) \<or> bl_aborted (the_call s h) \<noteq> None" if "h < length (rn_calls s)" "\<not> over (bl_stage (the_call s h))" for h
    using bridge_ok_call [OF ok that(1)] that by (auto simp: call_ok_def given_up_def the_call_def)
  have slot: "bridge_ok cfg past True {} 1 (conclude h r t)"
    if "h < length (rn_calls s)" "bl_stage (the_call s h) = Running n" "t = s \<or> t = refreshGrants n s" for h r t n
  proof -
    have m: "made_ok (rn_calls s ! h)" using bridge_ok_call [OF ok that(1)] by (simp add: call_ok_def)
    show ?thesis
      using bridge_ok_conclude [OF bridge_ok_hold [OF ok] that(1) _ m, of r] bridge_ok_conclude [of cfg past True h 0 "refreshGrants n s" r]
        that bridge_ok_hold [OF ok] m by (auto simp: the_call_def)
  qed
  have user: "page_requests (user_answered cfg h a s) = page_requests s" if "h < length (rn_calls s)" for h a
  proof (cases "bl_stage (the_call s h)")
    case (Running n)
    have "page_requests (pass_slot cfg (conclude h r t)) = page_requests s" if "t = s \<or> t = refreshGrants n s" for r t
      using page_requests_pass_slot [OF slot [OF \<open>h < length (rn_calls s)\<close> Running that]] that by auto
    then show ?thesis using Running by (simp add: user_answered_def Let_def split: sum.split)
  qed (simp_all add: user_answered_def)
  have checked: "page_requests (resume_checked cfg h s) = page_requests s" if "h < length (rn_calls s)" for h
  proof (cases "bl_stage (the_call s h)")
    case (AwaitChecked w)
    then have "bl_aborted (the_call s h) \<noteq> None"
      using bridge_ok_call [OF ok that] aborted [OF that] by (auto simp: call_ok_def stage_ok_def the_call_def)
    then show ?thesis using AwaitChecked
      by (simp add: resume_checked_def page_requests_enter_local page_requests_go_cloud split: option.split)
  qed (simp_all add: resume_checked_def)
  have session: "page_requests (resume_session cfg h s) = page_requests s" if "h < length (rn_calls s)" for h
  proof (cases "bl_stage (the_call s h)")
    case (AwaitSession w)
    then show ?thesis using aborted [OF that]
      by (simp add: resume_session_def page_requests_enter_local split: option.split promise.split)
  qed (simp_all add: resume_session_def)
  have start: "page_requests (start_call cfg key inputs options reason s) = page_requests s" for key inputs options reason
    using d by (simp add: start_call_def checked_call_def page_requests_append [OF ok] split: option.split)
  have command: "page_requests (runCommand cfg command s) = page_requests s" for command
    by (simp add: runCommand_def Let_def page_requests_append [OF ok] page_requests_enter_local the_call_def split: option.split sum.split)
  have abort: "page_requests (abort_call e h s) = page_requests s" for e h
    by (simp add: abort_call_def Let_def split: stage.split bool.split)
  have answer: "page_requests (server_answered h a s) = page_requests s" "page_requests (server_timeout h s) = page_requests s" for h a
    by (simp_all add: server_answered_def server_timeout_def Let_def)
  show ?thesis using d
    by (cases e) (auto simp: bridge_step_def user checked session start command abort answer destroy_def intro!: page_requests_core)
qed


subsection \<open>What holds of every history\<close>

text \<open>C23: Where calls run.  A call is given to a session of the visitor's Writ only if it is a server's command or its
  function is not cloud-only, and only to a session that granted its key when it was chosen; a request for Writ
  Cloud goes out only for a call of the page whose function is cloud-only, or recommended and, after the first
  check for the visitor's Writ, not granted.  A required function never leaves the visitor's computer.\<close>

theorem calls_run_where_allowed:
  assumes "x \<in> set (rn_log (bridge_history cfg es))"
  shows "case x of
      CallOnUser h n key inputs opts \<Rightarrow>
        (let c = rn_calls (bridge_history cfg es) ! h in
         key = bf_key (bl_fn c) \<and> (bl_command c \<or> bf_mode (bl_fn c) \<noteq> ModeCloud) \<and>
         (\<exists>xs ys. es = xs @ ys \<and> sessionFor (bridge_history cfg xs) key = Some n))
    | PostRun h body \<Rightarrow>
        (let c = rn_calls (bridge_history cfg es) ! h in
         \<not> bl_command c \<and>
         (bf_mode (bl_fn c) = ModeCloud \<or>
          bf_mode (bl_fn c) = ModeRecommended \<and>
          (\<exists>xs ys. es = xs @ ys \<and> looked (bridge_history cfg xs) \<and> sessionFor (bridge_history cfg xs) (bf_key (bl_fn c)) = None)))
    | _ \<Rightarrow> True"
proof (cases "quiet_out x")
  case True
  then show ?thesis by (simp add: quiet_out_def split: bridge_out.splits)
next
  case False
  then have "said_ok cfg (went_through cfg es) (rn_calls (bridge_history cfg es)) x"
    using assms bridge_ok_history [of cfg es] by (auto simp: bridge_ok_def calls_fit_def list_all_iff said_def)
  then show ?thesis
    by (cases x) (auto simp: said_ok_def Let_def chosen_def passed_over_def went_through_def)
qed

text \<open>C25: At most four calls run on the visitor's computer at once, the rest wait in the queue, each once, and nobody
  waits while a slot is free.\<close>

theorem local_slots_bounded:
  "let s = bridge_history cfg es in
     sl_free (rn_slots s) + running_calls s = MAX_LOCAL_CALLS_IN_FLIGHT \<and> distinct (sl_queue (rn_slots s)) \<and>
     set (sl_queue (rn_slots s)) = queued_calls s \<and> (sl_queue (rn_slots s) = [] \<or> running_calls s = MAX_LOCAL_CALLS_IN_FLIGHT)"
  using bridge_ok_history [of cfg es] by (auto simp: bridge_ok_def slots_ok_def Let_def)

text \<open>C24: \<open>destroy()\<close> is final: in a bridge that was destroyed every call of the page is over or aborted and waiting for
  nothing but the answer to its own request, now and later, and no request goes out for the page any more.\<close>

theorem destroyed_bridge_quiet:
  assumes "rn_destroyed (bridge_history cfg es)"
  shows "list_all given_up (rn_calls (bridge_history cfg (es @ fs))) \<and>
    page_requests (bridge_history cfg (es @ fs)) = page_requests (bridge_history cfg es)"
proof -
  have "rn_destroyed (bridge_history cfg (es @ fs)) \<and> page_requests (bridge_history cfg (es @ fs)) = page_requests (bridge_history cfg es)"
  proof (induction fs rule: rev_induct)
    case (snoc e fs)
    let ?s = "bridge_history cfg (es @ fs)"
    have s: "bridge_history cfg (es @ fs @ [e]) = bridge_step cfg e ?s" by (simp add: bridge_history_def)
    have "bridge_ok cfg (went_through cfg (es @ fs)) True {} 0 ?s" using bridge_ok_history [of cfg "es @ fs"] snoc by simp
    then have "page_requests (bridge_step cfg e ?s) = page_requests ?s" using snoc by (blast intro: page_requests_quiet_step)
    moreover have "rn_destroyed (bridge_step cfg e ?s)"
      using snoc by (cases e) (simp_all add: bridge_step_def)
    ultimately show ?case using s snoc by simp
  qed (use assms in simp)
  then show ?thesis using bridge_ok_history [of cfg "es @ fs"]
    by (auto simp: bridge_ok_def calls_fit_def call_ok_def list_all_length)
qed

text \<open>C27: When the bridge says it is ready, it has not been destroyed, every required function is granted by its session,
  and \<open>ready()\<close> has settled.\<close>

theorem ready_means_granted:
  assumes "bs_ready (status (bridge_history cfg es))"
  shows "\<not> bs_destroyed (status (bridge_history cfg es)) \<and> rn_ready (bridge_history cfg es) \<noteq> Pending \<and>
    list_all (\<lambda>key. sessionFor (bridge_history cfg es) key \<noteq> None) (requiredKeys cfg)"
  using assms visitor_ok_history [of cfg es]
  by (auto simp: status_def visitor_ok_def ready_kept_def is_ready_now_def sessionFor_def list_all_iff split: if_splits)

text \<open>No call is stranded: a call that waits for a session waits on a promise that has settled, or on the current one,
  which settles when the visitor's Writ is ready or can no longer be; the current one has settled while there is a
  session and after \<open>destroy()\<close>.\<close>

theorem no_call_stranded:
  assumes "h < length (rn_calls (bridge_history cfg es))" "bl_stage (rn_calls (bridge_history cfg es) ! h) = AwaitSession n"
  shows "rn_sessions (bridge_history cfg es) ! n \<noteq> Pending \<or>
    n = length (rn_sessions (bridge_history cfg es)) - 1 \<and> rn_session (bridge_history cfg es) = None \<and> \<not> rn_destroyed (bridge_history cfg es)"
proof -
  let ?s = "bridge_history cfg es"
  have n: "n < length (rn_sessions ?s)"
    using bridge_ok_call [OF bridge_ok_history assms(1)] assms(2) by (simp add: call_ok_def stage_ok_def)
  have v: "visitor_ok cfg ?s" by (rule visitor_ok_history)
  show ?thesis
  proof (cases "n = length (rn_sessions ?s) - 1")
    case True
    then have "rn_sessions ?s ! n = last (rn_sessions ?s)" using v by (simp add: visitor_ok_def sessions_ok_def last_conv_nth)
    then show ?thesis using True v by (auto simp: visitor_ok_def)
  next
    case False
    then have "n < length (butlast (rn_sessions ?s))" using n by simp
    then show ?thesis using v by (auto simp: visitor_ok_def sessions_ok_def list_all_length nth_butlast)
  qed
qed

end
