(* ===== verification/Page_Bridge_Calls.thy ===== *)
theory Page_Bridge_Calls
  imports Page_Bridge_Safety Page_Session_Safety
begin

section \<open>What the bridge of the page passes to its session\<close>

text \<open>
  A call's options are checked twice, by the bridge (\<open>bridge.ts\<close>) and by the session it calls (\<open>client.ts\<close>): what
  the first check answers passes the second unchanged, and a linked workflow in token mode brings a token.
\<close>

lemma timeout_again:
  "timeout_option v = Inr t \<Longrightarrow> timeout_option (case t of Some ms \<Rightarrow> VNum (int_num ms) | None \<Rightarrow> VUndef) = Inr t"
  by (auto simp: timeout_option_def clampTimeout_def MIN_CALL_TIMEOUT_MS_def MAX_CALL_TIMEOUT_MS_def split: jsval.splits if_splits)

lemma token_again:
  "token_option a = Inr t \<Longrightarrow>
     token_option (case t of Some (GivenToken k) \<Rightarrow> TokenValue (VStr k) | Some (TokenFrom f) \<Rightarrow> TokenSource f | None \<Rightarrow> TokenValue VUndef) = Inr t"
  by (auto simp: token_option_def checkGivenRunToken_def nullish_def split: token_arg.splits jsval.splits if_splits)

lemma challenge_again:
  "validateChallenge v = Inr c \<Longrightarrow> validateChallenge (case c of Some x \<Rightarrow> VStr x | None \<Rightarrow> VUndef) = Inr c"
  by (auto simp: validateChallenge_def nullish_def split: jsval.splits if_splits)

lemma recipe_again:
  "validateRecipeCache v = Inr m \<Longrightarrow> validateRecipeCache (case m of Some x \<Rightarrow> VStr x | None \<Rightarrow> VUndef) = Inr m"
  by (auto simp: validateRecipeCache_def nullish_def split: jsval.splits if_splits)

lemma given_again:
  assumes "validateCallOptions options = Inr opts"
  shows "timeout_option (ro_timeoutMs (given_options opts)) = Inr (co_timeoutMs opts)"
    "ro_dryRun (given_options opts) = VUndef \<or> bool_of (ro_dryRun (given_options opts)) \<noteq> None"
    "token_option (ro_token (given_options opts)) = Inr (co_token opts)"
    "validateChallenge (ro_challenge (given_options opts)) = Inr (co_challenge opts)"
    "validateRecipeCache (ro_recipeCache (given_options opts)) = Inr (co_recipeCache opts)"
proof -
  have "(\<exists>v. timeout_option v = Inr (co_timeoutMs opts)) \<and> (\<exists>a. token_option a = Inr (co_token opts)) \<and>
      (\<exists>v. validateChallenge v = Inr (co_challenge opts)) \<and> (\<exists>v. validateRecipeCache v = Inr (co_recipeCache opts))"
  proof (cases options)
    case NoOptions
    have "timeout_option VUndef = Inr None \<and> token_option (TokenValue VUndef) = Inr None \<and> validateChallenge VUndef = Inr None \<and>
        validateRecipeCache VUndef = Inr None"
      by (simp add: timeout_option_def token_option_def validateChallenge_def validateRecipeCache_def nullish_def)
    then show ?thesis using assms NoOptions by (auto simp: validateCallOptions_def)
  qed (use assms in \<open>auto simp: validateCallOptions_def result_simps\<close>)
  then show "timeout_option (ro_timeoutMs (given_options opts)) = Inr (co_timeoutMs opts)"
    "token_option (ro_token (given_options opts)) = Inr (co_token opts)"
    "validateChallenge (ro_challenge (given_options opts)) = Inr (co_challenge opts)"
    "validateRecipeCache (ro_recipeCache (given_options opts)) = Inr (co_recipeCache opts)"
    using timeout_again token_again challenge_again recipe_again unfolding given_options_def by auto
  show "ro_dryRun (given_options opts) = VUndef \<or> bool_of (ro_dryRun (given_options opts)) \<noteq> None"
    by (simp add: given_options_def bool_of_def split: option.split)
qed

text \<open>The configuration: a function of a local mode in token mode has a source of tokens.\<close>

lemma validateBridgeOptions_Inr:
  assumes "validateBridgeOptions mode contract options win fetch origin = Inr cfg"
  shows "bc_recipeCache cfg \<in> set RECIPE_CACHE_MODES"
    "fn \<in> set (bc_functions cfg) \<Longrightarrow> bf_mode fn \<noteq> ModeCloud \<Longrightarrow> bf_linked fn = Some LinkedToken \<Longrightarrow> bc_getRunToken cfg \<noteq> None"
proof -
  obtain source recipeCache fns where l: "validateLinkedOptions options = Inr (source, recipeCache)"
    and f: "requireRunTokens (linkedAccessOfRequests (map (\<lambda>fn. (bf_key fn, bf_linked fn)) (filter (\<lambda>fn. bf_mode fn \<noteq> ModeCloud) fns)))
        (source \<noteq> None) = Inr ()"
    and c: "bc_functions cfg = fns" "bc_getRunToken cfg = source"
      "bc_recipeCache cfg = (case recipeCache of Some m \<Rightarrow> m | None \<Rightarrow> js ''session'')"
    using assms by (auto simp: validateBridgeOptions_def result_simps Let_def)
  have "recipeCache = Some m \<Longrightarrow> m \<in> set RECIPE_CACHE_MODES" for m
    using l by (auto simp: validateLinkedOptions_def validateRecipeCache_def result_simps split: jsval.splits if_splits)
  then show "bc_recipeCache cfg \<in> set RECIPE_CACHE_MODES" using c by (auto simp: RECIPE_CACHE_MODES_def split: option.split)
  assume fn: "fn \<in> set (bc_functions cfg)" "bf_mode fn \<noteq> ModeCloud" "bf_linked fn = Some LinkedToken"
  then have "(bf_key fn, LinkedToken) \<in> set (linkedAccessOfRequests
      (map (\<lambda>fn. (bf_key fn, bf_linked fn)) (filter (\<lambda>fn. bf_mode fn \<noteq> ModeCloud) fns)))"
    using c by (force simp: linkedAccessOfRequests_def)
  then show "bc_getRunToken cfg \<noteq> None" using f c by (auto simp: requireRunTokens_def result_simps list_ex_iff)
qed

text \<open>What the bridge adds for a linked workflow keeps the token and the cache mode of any options valid.\<close>

lemma passed_linked:
  assumes t: "token_option (ro_token g) = Inr t0" "ro_token g \<noteq> TokenValue VUndef \<Longrightarrow> t0 \<noteq> None"
    and m: "validateRecipeCache (ro_recipeCache g) = Inr m0" and c: "bc_recipeCache cfg \<in> set RECIPE_CACHE_MODES"
  shows "\<exists>t m. token_option (ro_token (passed_options cfg fn g)) = Inr t \<and>
    validateRecipeCache (ro_recipeCache (passed_options cfg fn g)) = Inr m \<and>
    (bf_linked fn = Some LinkedToken \<longrightarrow> bc_getRunToken cfg \<noteq> None \<longrightarrow> t \<noteq> None)"
proof -
  have m': "\<exists>m. validateRecipeCache (if ro_recipeCache g = VUndef then VStr (bc_recipeCache cfg) else ro_recipeCache g) = Inr m"
    using m c by (auto simp: validateRecipeCache_def nullish_def)
  have u: "token_option (TokenValue VUndef) = Inr None" "token_option (TokenSource f) = Inr (Some (TokenFrom f))"
      "validateRecipeCache VUndef = Inr None" for f
    by (simp_all add: token_option_def validateRecipeCache_def nullish_def)
  show ?thesis
  proof (cases "bf_linked fn")
    case None
    then show ?thesis using u by (simp add: passed_options_def linkedCallOptions_def)
  next
    case (Some access)
    then show ?thesis using t m' u
      by (cases access; cases "bc_getRunToken cfg") (auto simp: passed_options_def linkedCallOptions_def)
  qed
qed

lemma passed_fields [simp]:
  "ro_signal (passed_options cfg fn g) = Signal False" "ro_timeoutMs (passed_options cfg fn g) = ro_timeoutMs g"
  "ro_dryRun (passed_options cfg fn g) = ro_dryRun g" "ro_challenge (passed_options cfg fn g) = ro_challenge g"
  by (simp_all add: passed_options_def)

text \<open>So the session judges what it is passed by the timeout and the challenge alone.\<close>

lemma passed_accepted:
  assumes g: "token_option (ro_token g) = Inr t0" "ro_token g \<noteq> TokenValue VUndef \<Longrightarrow> t0 \<noteq> None"
      "validateRecipeCache (ro_recipeCache g) = Inr m0" "ro_dryRun g = VUndef \<or> bool_of (ro_dryRun g) \<noteq> None"
    and c: "bc_recipeCache cfg \<in> set RECIPE_CACHE_MODES"
  shows "\<exists>t m. (bf_linked fn = Some LinkedToken \<longrightarrow> bc_getRunToken cfg \<noteq> None \<longrightarrow> t \<noteq> None) \<and>
    validateCallOptions (Options (passed_options cfg fn g)) =
       res_bind (timeout_option (ro_timeoutMs g)) (\<lambda>ms. res_bind (validateChallenge (ro_challenge g)) (\<lambda>x.
         Inr \<lparr>co_signal = Some False, co_timeoutMs = ms, co_dryRun = bool_of (ro_dryRun g), co_challenge = x, co_token = t,
              co_recipeCache = m\<rparr>))"
proof -
  obtain t m where "token_option (ro_token (passed_options cfg fn g)) = Inr t"
    "validateRecipeCache (ro_recipeCache (passed_options cfg fn g)) = Inr m"
    "bf_linked fn = Some LinkedToken \<longrightarrow> bc_getRunToken cfg \<noteq> None \<longrightarrow> t \<noteq> None"
    using passed_linked [OF g(1-3) c] by blast
  then show ?thesis
    using g(4) by (intro exI [of _ t] exI [of _ m]) (auto simp: validateCallOptions_def res_bind_def split: sum.split)
qed

text \<open>A command's options: the session takes them unless \<open>timeout_ms\<close> is not positive, or the challenge is empty or long.\<close>

definition command_fits :: "page_command \<Rightarrow> bool" where
  "command_fits command \<longleftrightarrow>
     (case pc_timeoutMs command of Some ms \<Rightarrow> is_finite ms \<and> \<not> num_le_int ms 0 | None \<Rightarrow> True) \<and>
     (case pc_challenge command of Some x \<Rightarrow> x \<noteq> [] \<and> length x \<le> MAX_CHALLENGE_LENGTH | None \<Rightarrow> True)"

lemma command_judged:
  "(\<exists>ms x. timeout_option (ro_timeoutMs (command_options command)) = Inr ms \<and>
      validateChallenge (ro_challenge (command_options command)) = Inr x) \<longleftrightarrow> command_fits command"
  "timeout_option (ro_timeoutMs (command_options command)) = Inr ms \<Longrightarrow> ms = map_option clampTimeout (pc_timeoutMs command)"
  "validateChallenge (ro_challenge (command_options command)) = Inr x \<Longrightarrow> x = pc_challenge command"
  by (auto simp: command_options_def timeout_option_def validateChallenge_def nullish_def command_fits_def split: option.splits if_splits)

lemma command_plain:
  "token_option (ro_token (command_options command)) = Inr None" "validateRecipeCache (ro_recipeCache (command_options command)) = Inr None"
  "ro_token (command_options command) = TokenValue VUndef"
  "ro_dryRun (command_options command) = VUndef \<or> bool_of (ro_dryRun (command_options command)) \<noteq> None"
  by (simp_all add: command_options_def token_option_def validateRecipeCache_def nullish_def bool_of_def split: option.split)

subsection \<open>Where a call comes from\<close>

text \<open>A call made for the server is one of the commands \<open>es\<close> brought.\<close>

definition commanded :: "page_command set \<Rightarrow> bridge_call \<Rightarrow> bool" where
  "commanded given c \<longleftrightarrow>
     (bl_command c \<longrightarrow> (\<exists>command \<in> given. bl_opts c = command_options command \<and> bl_inputs c = VObj (pc_inputs command) \<and>
        bf_key (bl_fn c) = pc_key command))"

definition all_commanded :: "page_command set \<Rightarrow> runtime \<Rightarrow> bool" where
  "all_commanded given s \<longleftrightarrow> list_all (commanded given) (rn_calls s)"

lemma commanded_fields [simp]:
  "commanded given (c\<lparr>bl_aborted := a\<rparr>) = commanded given c" "commanded given (c\<lparr>bl_timedOut := b\<rparr>) = commanded given c"
  "commanded given (c\<lparr>bl_stage := st\<rparr>) = commanded given c"
  by (simp_all add: commanded_def)

lemma commanded_update:
  assumes "list_all P cs" "h < length cs \<Longrightarrow> P c" shows "list_all P (cs[h := c])"
  using assms by (cases "h < length cs") (auto simp: list_all_length nth_list_update)

lemma all_commanded_core: "core t = core s \<Longrightarrow> all_commanded given t = all_commanded given s"
  by (simp add: all_commanded_def core_def)

lemma all_commanded_told [simp]:
  "all_commanded given (Page_Bridge.told xs s) = all_commanded given s" "all_commanded given (s\<lparr>rn_slots := sl\<rparr>) = all_commanded given s"
  "all_commanded given (refreshGrants n s) = all_commanded given s"
  by (simp_all add: all_commanded_def Page_Bridge.told_def)

lemma all_commanded_set_call:
  assumes "all_commanded given s" "\<And>c. commanded given (f c) = commanded given c" shows "all_commanded given (set_call h f s)"
  using assms unfolding all_commanded_def set_call_fields by (intro commanded_update) (auto simp: list_all_length)

lemma all_commanded_stage [simp]:
  "all_commanded given s \<Longrightarrow> all_commanded given (to_stage h st s)" "all_commanded given s \<Longrightarrow> all_commanded given (conclude h r s)"
  by (simp_all add: to_stage_def conclude_def all_commanded_set_call)

lemma all_commanded_local [simp]:
  "all_commanded given s \<Longrightarrow> all_commanded given (run_local cfg h n s)" "all_commanded given s \<Longrightarrow> all_commanded given (enter_local cfg h n s)"
  "all_commanded given s \<Longrightarrow> all_commanded given (pass_slot cfg s)" "all_commanded given s \<Longrightarrow> all_commanded given (go_cloud cfg h s)"
  by (simp_all add: run_local_def enter_local_def pass_slot_def go_cloud_def Let_def split: option.split prod.split bool.split stage.split)

lemma all_commanded_answers [simp]:
  "all_commanded given s \<Longrightarrow> all_commanded given (user_answered cfg h x s)" "all_commanded given s \<Longrightarrow> all_commanded given (server_answered h y s)"
  "all_commanded given s \<Longrightarrow> all_commanded given (server_timeout h s)" "all_commanded given s \<Longrightarrow> all_commanded given (route cfg h s)"
  "all_commanded given s \<Longrightarrow> all_commanded given (resume_checked cfg h s)" "all_commanded given s \<Longrightarrow> all_commanded given (resume_session cfg h s)"
  "all_commanded given s \<Longrightarrow> all_commanded given (abort_call e h s)"
  by (simp_all add: user_answered_def server_answered_def server_timeout_def route_def resume_checked_def resume_session_def abort_call_def
    all_commanded_set_call Let_def split: stage.split sum.split option.split promise.split bridge_mode.split bool.split)

lemma all_commanded_append:
  "all_commanded given (s\<lparr>rn_calls := rn_calls s @ [c]\<rparr>) \<longleftrightarrow> all_commanded given s \<and> commanded given c"
  by (simp add: all_commanded_def)

lemma all_commanded_start_call [simp]:
  "all_commanded given s \<Longrightarrow> all_commanded given (start_call cfg key inputs options reason s)"
  by (simp add: start_call_def all_commanded_append commanded_def split: option.split sum.split prod.split)

lemma all_commanded_runCommand:
  assumes "all_commanded given s" "command \<in> given" shows "all_commanded given (runCommand cfg command s)"
proof -
  have "commanded given \<lparr>bl_fn = fn, bl_command = True, bl_inputs = VObj (pc_inputs command), bl_opts = command_options command,
      bl_aborted = None, bl_timedOut = False, bl_stage = st\<rparr>" if "bf_key fn = pc_key command" for fn st
    using assms(2) that by (auto simp: commanded_def)
  then show ?thesis
    using assms(1) by (auto simp: runCommand_def Let_def all_commanded_append dest: function_for_in split: option.split sum.split)
qed

lemma all_commanded_destroy [simp]:
  assumes "all_commanded given s" shows "all_commanded given (destroy s)"
proof -
  have "all_commanded given s \<Longrightarrow> all_commanded given (fold (abort_call e) hs s)" for e hs s
    by (induction hs arbitrary: s) simp_all
  then have "list_all (commanded given) (rn_calls s) \<Longrightarrow> list_all (commanded given) (rn_calls (fold (abort_call e) hs s))" for e hs s
    by (simp add: all_commanded_def)
  then show ?thesis using assms by (simp add: all_commanded_def destroy_def settle_session_def Let_def)
qed

lemma all_commanded_step:
  assumes "all_commanded given s" "\<And>command. e = ServerCommand command \<Longrightarrow> command \<in> given"
  shows "all_commanded given (bridge_step cfg e s)"
proof (cases "core (bridge_step cfg e s) = core s")
  case True
  then show ?thesis using all_commanded_core assms(1) by blast
next
  case False
  show ?thesis
    by (cases e) (use assms False in \<open>simp_all add: bridge_step_def all_commanded_runCommand split: if_splits\<close>)
qed

lemma all_commanded_history: "all_commanded {command. ServerCommand command \<in> set es} (bridge_history cfg es)"
proof -
  have "all_commanded given (fold (bridge_step cfg) es s)"
    if "all_commanded given s" "\<And>command. ServerCommand command \<in> set es \<Longrightarrow> command \<in> given" for given s
    using that by (induction es arbitrary: s) (simp_all add: all_commanded_step)
  then show ?thesis by (simp add: bridge_history_def all_commanded_def new_runtime_def)
qed

text \<open>C26: What the bridge passes to a session is what was asked of it, and the session takes it.  A call of the page has
  valid options again.  A command of the server is one that was received, with its inputs, and the session takes its
  options exactly when its timeout is positive and its challenge is neither empty nor too long.  Once they are taken, a
  linked workflow in token mode brings a run token or a source of one.\<close>

theorem bridge_calls_pass_session_checks:
  assumes cfg: "validateBridgeOptions mode contract options win fetch origin = Inr cfg"
    and x: "CallOnUser h n key inputs opts \<in> set (rn_log (bridge_history cfg es))"
  shows "let c = rn_calls (bridge_history cfg es) ! h; checked = validateCallOptions (Options opts) in
    (if bl_command c
     then \<exists>command. ServerCommand command \<in> set es \<and> pc_key command = key \<and> VObj (pc_inputs command) = inputs \<and>
       (\<not> isl checked \<longleftrightarrow> command_fits command) \<and>
       (\<not> isl checked \<longrightarrow> co_timeoutMs (projr checked) = map_option clampTimeout (pc_timeoutMs command) \<and>
         co_dryRun (projr checked) = pc_dryRun command \<and> co_challenge (projr checked) = pc_challenge command)
     else \<not> isl checked) \<and>
    (\<not> isl checked \<and> bf_linked (bl_fn c) = Some LinkedToken \<and> (bl_command c \<longrightarrow> bf_mode (bl_fn c) \<noteq> ModeCloud) \<longrightarrow>
       co_token (projr checked) \<noteq> None)"
proof -
  let ?s = "bridge_history cfg es"
  let ?c = "rn_calls ?s ! h"
  have said: "said_ok cfg (went_through cfg es) (rn_calls ?s) (CallOnUser h n key inputs opts)"
    using x bridge_ok_history [of cfg es] by (auto simp: bridge_ok_def calls_fit_def list_all_iff said_def)
  then have opts: "opts = passed_options cfg (bl_fn ?c) (bl_opts ?c)" "key = bf_key (bl_fn ?c)" "inputs = bl_inputs ?c" "h < length (rn_calls ?s)"
    by (simp_all add: said_ok_def)
  have src: "bf_linked (bl_fn ?c) = Some LinkedToken \<Longrightarrow> bf_mode (bl_fn ?c) \<noteq> ModeCloud \<Longrightarrow> bc_getRunToken cfg \<noteq> None"
    using said validateBridgeOptions_Inr(2) [OF cfg] by (auto simp: said_ok_def)
  note mode = validateBridgeOptions_Inr(1) [OF cfg]
  show ?thesis
  proof (cases "bl_command ?c")
    case True
    then obtain command where c: "ServerCommand command \<in> set es" "bl_opts ?c = command_options command"
      "inputs = VObj (pc_inputs command)" "key = pc_key command"
      using all_commanded_history [of es cfg] opts by (auto simp: all_commanded_def list_all_length commanded_def)
    have nt: "ro_token (command_options command) \<noteq> TokenValue VUndef \<Longrightarrow> (None :: run_token option) \<noteq> None"
      by (simp add: command_plain(3))
    obtain t m where tm: "bf_linked (bl_fn ?c) = Some LinkedToken \<longrightarrow> bc_getRunToken cfg \<noteq> None \<longrightarrow> t \<noteq> None"
      "validateCallOptions (Options opts) =
         res_bind (timeout_option (ro_timeoutMs (command_options command))) (\<lambda>ms.
           res_bind (validateChallenge (ro_challenge (command_options command))) (\<lambda>x.
             Inr \<lparr>co_signal = Some False, co_timeoutMs = ms, co_dryRun = bool_of (ro_dryRun (command_options command)),
               co_challenge = x, co_token = t, co_recipeCache = m\<rparr>))"
      unfolding opts(1) c(2) using passed_accepted [where fn = "bl_fn ?c", OF command_plain(1) nt command_plain(2,4) mode] by blast
    have dry: "bool_of (ro_dryRun (command_options command)) = pc_dryRun command"
      by (simp add: command_options_def bool_of_def split: option.split)
    have "\<not> isl (validateCallOptions (Options opts)) \<longleftrightarrow> command_fits command"
      unfolding tm(2) using command_judged(1) [of command] by (auto simp: res_bind_def split: sum.split)
    moreover have "\<not> isl (validateCallOptions (Options opts)) \<Longrightarrow>
        co_timeoutMs (projr (validateCallOptions (Options opts))) = map_option clampTimeout (pc_timeoutMs command) \<and>
        co_dryRun (projr (validateCallOptions (Options opts))) = pc_dryRun command \<and>
        co_challenge (projr (validateCallOptions (Options opts))) = pc_challenge command \<and>
        co_token (projr (validateCallOptions (Options opts))) = t"
      unfolding tm(2) using command_judged(2,3) [of command] dry by (auto simp: res_bind_def split: sum.splits)
    ultimately show ?thesis using True c tm(1) src by (auto simp: Let_def)
  next
    case False
    then obtain o1 o2 where given: "validateCallOptions o1 = Inr o2" "bl_opts ?c = given_options o2"
      using said by (auto simp: said_ok_def made_ok_def)
    note again = given_again [OF given(1)]
    have nt: "ro_token (given_options o2) \<noteq> TokenValue VUndef \<Longrightarrow> co_token o2 \<noteq> None"
      by (cases "co_token o2") (simp_all add: given_options_def)
    obtain t m where tm: "bf_linked (bl_fn ?c) = Some LinkedToken \<longrightarrow> bc_getRunToken cfg \<noteq> None \<longrightarrow> t \<noteq> None"
      "validateCallOptions (Options opts) =
         res_bind (timeout_option (ro_timeoutMs (given_options o2))) (\<lambda>ms.
           res_bind (validateChallenge (ro_challenge (given_options o2))) (\<lambda>x.
             Inr \<lparr>co_signal = Some False, co_timeoutMs = ms, co_dryRun = bool_of (ro_dryRun (given_options o2)),
               co_challenge = x, co_token = t, co_recipeCache = m\<rparr>))"
      unfolding opts(1) given(2) using passed_accepted [where fn = "bl_fn ?c", OF again(3) nt again(5) again(2) mode] by blast
    have "bf_mode (bl_fn ?c) \<noteq> ModeCloud" using said False by (simp add: said_ok_def)
    then show ?thesis using tm(1) src False unfolding tm(2) again(1,4) by (simp add: Let_def res_bind_def)
  qed
qed

subsection \<open>A refresh of the grants\<close>

text \<open>What happens while a session stays: calls, their aborts and answers, and refreshes that lose no local function.\<close>

definition ordinary :: "bridge_config \<Rightarrow> bridge_step \<Rightarrow> bool" where
  "ordinary cfg e \<longleftrightarrow>
     (case e of
        GrantsRefreshed answer throws \<Rightarrow> (case answer of Some fns \<Rightarrow> set (localKeys cfg) \<subseteq> set fns | None \<Rightarrow> True)
      | BridgeStart throws \<Rightarrow> False | BannerReady gen n fns \<Rightarrow> False | BannerPending gen \<Rightarrow> False | BannerClosed gen e1 \<Rightarrow> False
      | Reconnected n fns throws \<Rightarrow> False | DestroyBridge \<Rightarrow> False
      | _ \<Rightarrow> True)"

text \<open>A bridge whose session grants every local function, and which does not say so.\<close>

definition unready :: "bridge_config \<Rightarrow> nat \<Rightarrow> unit promise \<Rightarrow> runtime \<Rightarrow> bool" where
  "unready cfg session p s \<longleftrightarrow>
     \<not> rn_destroyed s \<and> rn_session s = Some session \<and> set (localKeys cfg) \<subseteq> set (rn_granted s) \<and> \<not> rn_isReady s \<and> rn_ready s = p"

lemma unready_face: "face t = face s \<Longrightarrow> unready cfg session p t = unready cfg session p s"
  by (simp add: unready_def face_def)

lemma granted_local:
  assumes "set (localKeys cfg) \<subseteq> set fns"
  shows "set (localKeys cfg) \<subseteq> set (grantedBy cfg (s\<lparr>rn_functions := (rn_functions s)(session := fns)\<rparr>) session)"
  using assms by (auto simp: grantedBy_def localKeys_def)

text \<open>A refresh: the grants are what the session says now, and nothing else of readiness changes.\<close>

lemma refresh_unready:
  assumes "rn_session s = Some session" "\<not> rn_destroyed s" "\<not> rn_isReady s" "rn_ready s = p" "set (localKeys cfg) \<subseteq> set fns"
    and r: "rn_refreshing s = Some session"
  shows "unready cfg session p (grants_refreshed cfg (Some fns) throws s)"
proof -
  let ?s = "s\<lparr>rn_refreshing := None, rn_functions := (rn_functions s)(session := fns)\<rparr>"
  have g: "set (localKeys cfg) \<subseteq> set (grantedBy cfg ?s session)"
    using granted_local [OF assms(5), of "s\<lparr>rn_refreshing := None\<rparr>" session] by simp
  then have "list_all (\<lambda>key. key \<in> set (grantedBy cfg ?s session)) (localKeys cfg)" by (auto simp: list_all_iff)
  then show ?thesis using assms g by (simp add: grants_refreshed_def unready_def Page_Bridge.told_def Let_def)
qed

lemma unready_step:
  assumes "unready cfg session p s" "ordinary cfg e" shows "unready cfg session p (bridge_step cfg e s)"
proof (cases "face (bridge_step cfg e s) = face s")
  case True
  then show ?thesis using assms(1) unready_face by blast
next
  case False
  show ?thesis
  proof (cases e)
    case (GrantsRefreshed answer throws)
    show ?thesis
    proof (cases "rn_refreshing s = Some session \<and> answer \<noteq> None")
      case True
      then obtain fns where f: "rn_refreshing s = Some session" "answer = Some fns" by blast
      then have "unready cfg session p (grants_refreshed cfg (Some fns) throws s)"
        using assms GrantsRefreshed by (intro refresh_unready) (simp_all add: unready_def ordinary_def)
      then show ?thesis using GrantsRefreshed f by (simp add: bridge_step_def)
    next
      case False
      then show ?thesis using assms GrantsRefreshed
        by (auto simp: bridge_step_def unready_def grants_refreshed_def Let_def split: option.split)
    qed
  next
    case (VersionAnswered gen v)
    then show ?thesis using assms by (simp add: bridge_step_def version_answered_def unready_def Page_Bridge.told_def)
  next
    case (BannerClient gen)
    then show ?thesis using assms by (simp add: bridge_step_def unready_def)
  qed (use assms False in \<open>simp_all add: bridge_step_def ordinary_def split: if_splits\<close>)
qed

text \<open>C28: A refresh of the grants that completes them leaves the bridge of the page as unready as it was, whatever calls
  and further refreshes follow: its session grants every local function, the condition for being ready holds, and yet the
  status says it is not, and \<open>ready()\<close> stays as it was: \<open>#refreshGrants\<close> sets the grants and returns without
  \<open>#updateReady\<close>.\<close>

theorem refresh_leaves_unready:
  assumes "rn_refreshing (bridge_history cfg es) = Some session" "rn_session (bridge_history cfg es) = Some session"
    and "\<not> rn_destroyed (bridge_history cfg es)" "\<not> rn_isReady (bridge_history cfg es)" "requiredKeys cfg \<noteq> []"
    and "set (localKeys cfg) \<subseteq> set fns" "list_all (ordinary cfg) later"
  shows "let s = bridge_history cfg (es @ GrantsRefreshed (Some fns) throws # later) in
    list_all (\<lambda>key. sessionFor s key = Some session) (localKeys cfg) \<and> is_ready_now cfg s \<and>
    \<not> bs_ready (Page_Bridge.status s) \<and> rn_ready s = rn_ready (bridge_history cfg es)"
proof -
  let ?u = "unready cfg session (rn_ready (bridge_history cfg es))"
  have "?u (grants_refreshed cfg (Some fns) throws (bridge_history cfg es))"
    by (rule refresh_unready [OF assms(2-4) refl assms(6,1)])
  moreover have "?u s \<Longrightarrow> ?u (fold (bridge_step cfg) later s)" for s
    using assms(7) by (induction later arbitrary: s) (simp_all add: unready_step)
  ultimately have "?u (bridge_history cfg (es @ GrantsRefreshed (Some fns) throws # later))"
    by (simp add: bridge_history_def bridge_step_def)
  moreover have "set (requiredKeys cfg) \<subseteq> set (localKeys cfg)" by (auto simp: requiredKeys_def localKeys_def)
  ultimately show ?thesis using assms(5)
    by (auto simp: unready_def sessionFor_def is_ready_now_def Page_Bridge.status_def list_all_iff Let_def)
qed

end
