(* ===== verification/Page_Bridge_Witnesses.thy ===== *)
theory Page_Bridge_Witnesses
  imports Page_Bridge_Calls
begin

section \<open>The bridge of the page with concrete values\<close>

text \<open>A bridge of two functions, the histories of a few calls, and each property with a hypothesis, applied to them.\<close>

definition key_a :: jsstring where "key_a = js ''a''"
definition key_b :: jsstring where "key_b = js ''b''"

definition fn_a :: contract_function where
  "fn_a = \<lparr>pf_key = key_a, pf_mode = None, pf_lan = True, pf_inputs = [], pf_linked = Some LinkedToken\<rparr>"

definition fn_b :: "bridge_mode \<Rightarrow> contract_function" where
  "fn_b mode = \<lparr>pf_key = key_b, pf_mode = Some mode, pf_lan = False, pf_inputs = [], pf_linked = None\<rparr>"

definition sample_bridge :: "bridge_mode \<Rightarrow> bridge_config" where
  "sample_bridge mode =
     \<lparr>bc_functions = [\<lparr>bf_key = key_a, bf_mode = ModeRequired, bf_inputs = [], bf_linked = Some LinkedToken\<rparr>,
                     \<lparr>bf_key = key_b, bf_mode = mode, bf_inputs = [], bf_linked = None\<rparr>],
      bc_getRunToken = Some 0, bc_recipeCache = js ''session'', bc_window = True, bc_fetch = True, bc_origin = js ''o''\<rparr>"

lemma key_ab [simp]: "key_a \<noteq> key_b" "key_b \<noteq> key_a" by (simp_all add: key_a_def key_b_def)

lemma key_heads: "hd (js_split 46 key_a) = key_a" "hd (js_split 46 key_b) = key_b"
  by (code_simp, code_simp)

lemma keys_free: "key_a \<notin> set BRIDGE_RESERVED_NAMES" "key_b \<notin> set BRIDGE_RESERVED_NAMES"
  by (simp_all add: key_a_def key_b_def BRIDGE_RESERVED_NAMES_def)

lemma sample_bridge_valid:
  "validateBridgeOptions ModeRequired [fn_a, fn_b mode] \<lparr>lo_getRunToken = Source 0, lo_recipeCache = VUndef\<rparr> True True (js ''o'')
     = Inr (sample_bridge mode)"
  by (simp add: validateBridgeOptions_def validateLinkedOptions_def validateRecipeCache_def nullish_def bridge_function_of_def
      requireRunTokens_def linkedAccessOfRequests_def fn_a_def fn_b_def sample_bridge_def key_heads keys_free result_simps)


lemma sample_functions [simp]:
  "function_for (sample_bridge mode) key_a = Some \<lparr>bf_key = key_a, bf_mode = ModeRequired, bf_inputs = [], bf_linked = Some LinkedToken\<rparr>"
  "function_for (sample_bridge mode) key_b = Some \<lparr>bf_key = key_b, bf_mode = mode, bf_inputs = [], bf_linked = None\<rparr>"
  "requiredKeys (sample_bridge mode) = (if mode = ModeRequired then [key_a, key_b] else [key_a])"
  "localKeys (sample_bridge mode) = (if mode = ModeCloud then [key_a] else [key_a, key_b])"
  "bc_window (sample_bridge mode)" "bc_fetch (sample_bridge mode)"
  by (simp_all add: sample_bridge_def function_for_def requiredKeys_def localKeys_def)

lemma plain_call [simp]:
  "checked_call (sample_bridge mode) \<lparr>bf_key = k, bf_mode = m, bf_inputs = [], bf_linked = l\<rparr> VUndef NoOptions s =
     (if rn_destroyed s then Inl Page_Bridge.cancelled
      else Inr ([], \<lparr>co_signal = None, co_timeoutMs = None, co_dryRun = None, co_challenge = None, co_token = None, co_recipeCache = None\<rparr>))"
  by (simp add: checked_call_def contractInputChecker_def validateCallOptions_def sanitizeInputs_def own_keys_def result_simps)

text \<open>The bridge starts, and the banner hands over a session that grants only \<open>a\<close>.\<close>

definition started :: runtime where
  "started = new_runtime\<lparr>rn_generation := 1, rn_starter := True, rn_log := [BannerStarted 1, ChannelStarted]\<rparr>"

definition with_a :: "bridge_mode \<Rightarrow> runtime" where
  "with_a mode = started\<lparr>rn_session := Some 7, rn_granted := [key_a], rn_checked := True, rn_sessions := [Resolved 7],
     rn_functions := (\<lambda>_. [])(7 := [key_a]), rn_isReady := (mode \<noteq> ModeRequired),
     rn_ready := (if mode = ModeRequired then Pending else Resolved ()), rn_log := [BannerStarted 1, ChannelStarted, Notified]\<rparr>"

lemma starts: "bridge_step (sample_bridge mode) (BridgeStart None) new_runtime = started"
  by (simp add: bridge_step_def Page_Bridge.start_def startLocal_def Let_def Page_Bridge.told_def started_def new_runtime_def)

lemma granted_a: "rn_functions s 7 = [key_a] \<Longrightarrow> grantedBy (sample_bridge mode) s 7 = [key_a]"
  by (simp add: grantedBy_def sample_bridge_def)

lemma grants_a: "bridge_step (sample_bridge mode) (BannerReady 1 7 [key_a]) started = with_a mode"
proof -
  let ?s = "started\<lparr>rn_functions := (\<lambda>_. [])(7 := [key_a]), rn_session := Some 7, rn_granted := [key_a]\<rparr>"
  have "adopt (sample_bridge mode) 7 (granting 7 [key_a] started) =
      Page_Bridge.told [Notified] (updateReady (sample_bridge mode) (settle_session (Resolved 7) (markChecked (sample_bridge mode) ?s)))"
    by (simp add: adopt_def granting_def granted_a started_def new_runtime_def)
  moreover have "markChecked (sample_bridge mode) ?s = ?s\<lparr>rn_checked := True, rn_isReady := (mode \<noteq> ModeRequired),
     rn_ready := (if mode = ModeRequired then Pending else Resolved ())\<rparr>"
    by (cases mode) (simp_all add: markChecked_def updateReady_def is_ready_now_def started_def new_runtime_def)
  ultimately show ?thesis
    by (cases mode) (simp_all add: bridge_step_def updateReady_def is_ready_now_def settle_session_def with_a_def started_def new_runtime_def
      Page_Bridge.told_def)
qed

text \<open>A call of \<open>a\<close>, which runs in that session.\<close>

definition call_for :: "jsstring \<Rightarrow> bridge_step" where
  "call_for key = PageCall key VUndef NoOptions (Thrown VUndef)"

definition no_options :: raw_options where
  "no_options = \<lparr>ro_signal = NoSignal, ro_timeoutMs = VUndef, ro_dryRun = VUndef, ro_challenge = VUndef, ro_token = TokenValue VUndef,
     ro_recipeCache = VUndef\<rparr>"

definition options_a :: raw_options where
  "options_a = no_options\<lparr>ro_signal := Signal False, ro_token := TokenSource 0, ro_recipeCache := VStr (js ''session'')\<rparr>"

definition call_a :: "stage \<Rightarrow> bridge_call" where
  "call_a st = \<lparr>bl_fn = \<lparr>bf_key = key_a, bf_mode = ModeRequired, bf_inputs = [], bf_linked = Some LinkedToken\<rparr>, bl_command = False,
     bl_inputs = VObj [], bl_opts = no_options, bl_aborted = None, bl_timedOut = False, bl_stage = st\<rparr>"

definition running_a :: "bridge_mode \<Rightarrow> runtime" where
  "running_a mode = (with_a mode)\<lparr>rn_slots := \<lparr>sl_free = 3, sl_queue = []\<rparr>, rn_calls := [call_a (Running 7)],
     rn_log := [BannerStarted 1, ChannelStarted, Notified, CallOnUser 0 7 key_a (VObj []) options_a]\<rparr>"

lemma runs_a: "bridge_step (sample_bridge mode) (call_for key_a) (with_a mode) = running_a mode"
proof -
  have o: "session_options (sample_bridge mode) (call_a st) = options_a" for st
    by (simp add: session_options_def linkedCallOptions_def call_a_def options_a_def no_options_def sample_bridge_def)
  let ?s = "(with_a mode)\<lparr>rn_calls := [call_a (AwaitChecked False)]\<rparr>"
  have "start_call (sample_bridge mode) key_a VUndef NoOptions (Thrown VUndef) (with_a mode) = route (sample_bridge mode) 0 ?s"
    by (simp add: start_call_def with_a_def started_def new_runtime_def given_options_def call_a_def no_options_def)
  also have "\<dots> = run_local (sample_bridge mode) 0 7 (?s\<lparr>rn_slots := \<lparr>sl_free = 3, sl_queue = []\<rparr>\<rparr>)"
    by (simp add: route_def the_call_def call_a_def sessionFor_def enter_local_def acquire_def with_a_def started_def new_runtime_def
      new_slots_def MAX_LOCAL_CALLS_IN_FLIGHT_def)
  also have "\<dots> = running_a mode"
  proof -
    have "call_a (AwaitChecked False)\<lparr>bl_stage := Running 7\<rparr> = call_a (Running 7)" by (simp add: call_a_def)
    moreover have "bf_key (bl_fn (call_a st)) = key_a" "bl_inputs (call_a st) = VObj []" for st by (simp_all add: call_a_def)
    ultimately show ?thesis
      by (simp add: run_local_def Let_def the_call_def to_stage_def set_call_def Page_Bridge.told_def o running_a_def with_a_def
        started_def new_runtime_def)
  qed
  finally show ?thesis by (simp add: bridge_step_def call_for_def)
qed

abbreviation steps_a :: "bridge_step list" where
  "steps_a \<equiv> [BridgeStart None, BannerReady 1 7 [key_a], call_for key_a]"

lemma history_a:
  "bridge_history (sample_bridge mode) [BridgeStart None, BannerReady 1 7 [key_a]] = with_a mode"
  "bridge_history (sample_bridge mode) steps_a = running_a mode"
  by (simp_all only: bridge_history_def fold_simps starts grants_a runs_a)

theorem calls_run_where_allowed_witness:
  "\<exists>xs ys. steps_a = xs @ ys \<and> sessionFor (bridge_history (sample_bridge ModeCloud) xs) key_a = Some 7"
proof -
  have "CallOnUser 0 7 key_a (VObj []) options_a \<in> set (rn_log (bridge_history (sample_bridge ModeCloud) steps_a))"
    unfolding history_a by (simp add: running_a_def)
  from calls_run_where_allowed [OF this] show ?thesis by (simp add: Let_def)
qed

text \<open>A command of the server for \<open>a\<close> with \<open>timeout_ms: 0\<close>, as the channel accepts it.\<close>

definition zero_command :: page_command where
  "zero_command = \<lparr>pc_id = js ''i'', pc_key = key_a, pc_inputs = [], pc_timeoutMs = Some (int_num 0), pc_dryRun = None,
     pc_challenge = None, pc_expiresAt = None\<rparr>"

lemma zero_command_accepted:
  "parseCommand (VObj [(js ''id'', VStr (js ''i'')), (js ''key'', VStr key_a), (js ''options'', VObj [(js ''timeout_ms'', VNum (int_num 0))])])
     = Some (Inr zero_command)"
  by code_simp

lemma runs_zero_command:
  "CallOnUser 0 7 key_a (VObj []) (passed_options (sample_bridge mode) \<lparr>bf_key = key_a, bf_mode = ModeRequired, bf_inputs = [],
       bf_linked = Some LinkedToken\<rparr> (command_options zero_command))
     \<in> set (rn_log (bridge_step (sample_bridge mode) (ServerCommand zero_command) (with_a mode))) \<and>
   bl_command (rn_calls (bridge_step (sample_bridge mode) (ServerCommand zero_command) (with_a mode)) ! 0)"
proof -
  have "contractInputChecker [] (VObj []) = Inr ()" by (simp add: contractInputChecker_def own_keys_def result_simps)
  moreover have "pc_key zero_command = key_a" "pc_inputs zero_command = []" by (simp_all add: zero_command_def)
  ultimately show ?thesis
    by (simp add: bridge_step_def runCommand_def Let_def sessionFor_def with_a_def started_def new_runtime_def enter_local_def the_call_def
      acquire_def new_slots_def MAX_LOCAL_CALLS_IN_FLIGHT_def run_local_def to_stage_def set_call_def Page_Bridge.told_def
      session_options_def passed_options_def split: prod.split)
qed

theorem bridge_calls_pass_session_checks_witness:
  "(\<exists>clean. validateCallOptions (Options options_a) = Inr clean \<and> co_token clean \<noteq> None) \<and>
   isl (validateCallOptions (Options (passed_options (sample_bridge ModeCloud) \<lparr>bf_key = key_a, bf_mode = ModeRequired, bf_inputs = [],
     bf_linked = Some LinkedToken\<rparr> (command_options zero_command))))"
proof
  have c: "rn_calls (bridge_history (sample_bridge ModeCloud) steps_a) = [call_a (Running 7)]"
    unfolding history_a by (simp add: running_a_def)
  have "CallOnUser 0 7 key_a (VObj []) options_a \<in> set (rn_log (bridge_history (sample_bridge ModeCloud) steps_a))"
    unfolding history_a by (simp add: running_a_def)
  from bridge_calls_pass_session_checks [OF sample_bridge_valid this]
  show "\<exists>clean. validateCallOptions (Options options_a) = Inr clean \<and> co_token clean \<noteq> None"
    unfolding c by (cases "validateCallOptions (Options options_a)") (simp_all add: call_a_def Let_def)
next
  let ?es = "[BridgeStart None, BannerReady 1 7 [key_a], ServerCommand zero_command]"
  have h: "bridge_history (sample_bridge ModeCloud) ?es = bridge_step (sample_bridge ModeCloud) (ServerCommand zero_command) (with_a ModeCloud)"
    by (simp only: bridge_history_def fold_simps starts grants_a)
  have "\<not> command_fits zero_command" by (simp add: command_fits_def zero_command_def)
  then show "isl (validateCallOptions (Options (passed_options (sample_bridge ModeCloud) \<lparr>bf_key = key_a, bf_mode = ModeRequired,
      bf_inputs = [], bf_linked = Some LinkedToken\<rparr> (command_options zero_command))))"
    using bridge_calls_pass_session_checks [OF sample_bridge_valid runs_zero_command [THEN conjunct1, of ModeCloud, folded h]]
      runs_zero_command [THEN conjunct2, of ModeCloud, folded h] by (auto simp: Let_def)
qed

theorem ready_means_granted_witness:
  "sessionFor (bridge_history (sample_bridge ModeCloud) [BridgeStart None, BannerReady 1 7 [key_a]]) key_a \<noteq> None"
proof -
  have "bs_ready (Page_Bridge.status (bridge_history (sample_bridge ModeCloud) [BridgeStart None, BannerReady 1 7 [key_a]]))"
    unfolding history_a by (simp add: Page_Bridge.status_def with_a_def)
  from ready_means_granted [OF this] show ?thesis by simp
qed

theorem no_call_stranded_witness:
  "let s = bridge_history (sample_bridge ModeCloud) [BridgeStart None, call_for key_a]
   in bl_stage (rn_calls s ! 0) = AwaitSession 0 \<and> (rn_sessions s ! 0 \<noteq> Pending \<or> 0 = length (rn_sessions s) - 1 \<and> rn_session s = None \<and> \<not> rn_destroyed s)"
proof -
  let ?s = "bridge_history (sample_bridge ModeCloud) [BridgeStart None, call_for key_a]"
  have s: "length (rn_calls ?s) = 1" "bl_stage (rn_calls ?s ! 0) = AwaitSession 0"
    by (simp_all add: bridge_history_def starts) (simp_all add: call_for_def bridge_step_def start_call_def started_def new_runtime_def
      route_def Let_def the_call_def sessionFor_def to_stage_def set_call_def)
  then have "0 < length (rn_calls ?s)" by simp
  from no_call_stranded [OF this s(2)] show ?thesis using s by (simp add: Let_def)
qed

theorem destroyed_bridge_quiet_witness:
  "list_all Page_Bridge_Safety.given_up (rn_calls (bridge_history (sample_bridge ModeCloud) ((steps_a @ [DestroyBridge]) @ [call_for key_a])))"
proof -
  have "rn_destroyed (bridge_history (sample_bridge ModeCloud) (steps_a @ [DestroyBridge]))"
    unfolding bridge_history_snoc by (simp add: bridge_step_def)
  from destroyed_bridge_quiet [OF this] show ?thesis by blast
qed

text \<open>The call ends with \<open>NOT_GRANTED\<close>, and the grants are read again: the visitor has granted \<open>b\<close> as well.\<close>

definition not_granted :: writ_error where
  "not_granted = \<lparr>we_code = js ''NOT_GRANTED'', we_details = None\<rparr>"

theorem refresh_leaves_unready_witness:
  "let s = bridge_history (sample_bridge ModeRequired)
     ((steps_a @ [UserAnswered 0 (Inl (Writ not_granted))]) @ GrantsRefreshed (Some [key_a, key_b]) None # [call_for key_b])
   in sessionFor s key_b = Some 7 \<and> \<not> bs_ready (Page_Bridge.status s)"
proof -
  let ?cfg = "sample_bridge ModeRequired"
  let ?es = "steps_a @ [UserAnswered 0 (Inl (Writ not_granted))]"
  have stale: "toWritError (Writ not_granted) None = not_granted" "we_code not_granted \<in> set stale_codes"
    by (simp_all add: toWritError_def looksLikeWritError_def not_granted_def stale_codes_def)
  have "bridge_history ?cfg ?es = bridge_step ?cfg (UserAnswered 0 (Inl (Writ not_granted))) (running_a ModeRequired)"
    by (simp only: bridge_history_snoc history_a)
  then have s: "rn_refreshing (bridge_history ?cfg ?es) = Some 7" "rn_session (bridge_history ?cfg ?es) = Some 7"
      "\<not> rn_destroyed (bridge_history ?cfg ?es)" "\<not> rn_isReady (bridge_history ?cfg ?es)"
    by (simp_all add: bridge_step_def user_answered_def the_call_def running_a_def call_a_def with_a_def started_def new_runtime_def stale
      refreshGrants_def conclude_def to_stage_def set_call_def pass_slot_def release_def)
  have "requiredKeys ?cfg \<noteq> []" "set (localKeys ?cfg) \<subseteq> set [key_a, key_b]" "list_all (ordinary ?cfg) [call_for key_b]"
    by (simp_all add: ordinary_def call_for_def)
  from refresh_leaves_unready [OF s this] show ?thesis by (simp add: Let_def)
qed

end
