(* ===== verification/Page_Package.thy ===== *)
theory Page_Package
  imports Page_Session
begin

section \<open>Workflow packages (web/src/package.ts)\<close>

text \<open>
  What the page checks of a package before it offers it to the visitor: its fields, the hosts of the local
  network it names, the references in its steps, and where its URLs may point.  Every failure is the error
  \<open>INPUT_INVALID\<close> (the field at fault is in its message text).  Regular expressions are written out as functions
  on code units; \<open>new URL\<close> is an argument, \<open>http_url\<close> (a URL whose protocol is http or https).
\<close>

definition MAX_PACKAGE_DEPTH :: nat where "MAX_PACKAGE_DEPTH = 128"
definition MAX_PACKAGE_BYTES :: nat where "MAX_PACKAGE_BYTES = 524288"
definition MAX_PACKAGE_STEPS :: nat where "MAX_PACKAGE_STEPS = 500"
definition MAX_PACKAGE_NAME_LENGTH :: nat where "MAX_PACKAGE_NAME_LENGTH = 120"
definition MAX_PACKAGE_DESCRIPTION_LENGTH :: nat where "MAX_PACKAGE_DESCRIPTION_LENGTH = 1000"
definition MAX_PACKAGE_VERSION_LENGTH :: nat where "MAX_PACKAGE_VERSION_LENGTH = 32"
definition MAX_PACKAGE_ENTRY_URL_LENGTH :: nat where "MAX_PACKAGE_ENTRY_URL_LENGTH = 2048"
definition MAX_PACKAGE_INPUTS :: nat where "MAX_PACKAGE_INPUTS = 64"
definition MAX_PACKAGE_INPUT_DESCRIPTION_LENGTH :: nat where "MAX_PACKAGE_INPUT_DESCRIPTION_LENGTH = 200"
definition MAX_PACKAGE_CREDENTIALS :: nat where "MAX_PACKAGE_CREDENTIALS = 10"
definition MAX_CREDENTIAL_LABEL_LENGTH :: nat where "MAX_CREDENTIAL_LABEL_LENGTH = 80"
definition MAX_LOCAL_NETWORK_HOSTS :: nat where "MAX_LOCAL_NETWORK_HOSTS = 8"
definition MAX_LOCAL_NETWORK_REASON_LENGTH :: nat where "MAX_LOCAL_NETWORK_REASON_LENGTH = 200"
definition MAX_SETTING_DESCRIPTION_LENGTH :: nat where "MAX_SETTING_DESCRIPTION_LENGTH = 200"
definition MAX_SETTING_EXAMPLE_LENGTH :: nat where "MAX_SETTING_EXAMPLE_LENGTH = 120"

definition PACKAGE_FORMAT :: jsstring where "PACKAGE_FORMAT = js ''writ.workflow/v1''"

definition SETTING_KINDS :: "jsstring list" where "SETTING_KINDS = map js [''text'', ''lan_host'']"

definition REFUSED_PACKAGE_STEP_TYPES :: "jsstring list" where
  "REFUSED_PACKAGE_STEP_TYPES =
     map js [''upload'', ''wait_for_download'', ''ai_fill_form'', ''ai_fill'', ''ai_continue'', ''ai_navigate'', ''codegen'']"

definition PACKAGE_ID_PATTERN :: "jsstring \<Rightarrow> bool" where
  "PACKAGE_ID_PATTERN s = FUNCTION_KEY_PATTERN s"

definition CREDENTIAL_KEY_PATTERN :: "jsstring \<Rightarrow> bool" where
  "CREDENTIAL_KEY_PATTERN s = SETTING_KEY_PATTERN s"

definition name_unit :: "codeunit \<Rightarrow> bool" where
  "name_unit u \<longleftrightarrow> is_alnum u \<or> is_unit (CHR ''_'') u \<or> is_unit (CHR ''.'') u \<or> is_unit (CHR ''-'') u"

definition PACKAGE_INPUT_NAME_PATTERN :: "jsstring \<Rightarrow> bool" where
  "PACKAGE_INPUT_NAME_PATTERN s \<longleftrightarrow> s \<noteq> [] \<and> length s \<le> 64 \<and> list_all name_unit s"

subsection \<open>Searching in text\<close>

definition starts_with :: "jsstring \<Rightarrow> jsstring \<Rightarrow> bool" where
  "starts_with p s \<longleftrightarrow> take (length p) s = p"

definition ends_with :: "jsstring \<Rightarrow> jsstring \<Rightarrow> bool" where
  "ends_with p s \<longleftrightarrow> length p \<le> length s \<and> drop (length s - length p) s = p"

text \<open>\<open>s.indexOf(p)\<close> and \<open>s.includes(p)\<close>.\<close>

fun index_of :: "jsstring \<Rightarrow> jsstring \<Rightarrow> nat option" where
  "index_of p [] = (if p = [] then Some 0 else None)"
| "index_of p (u # us) = (if starts_with p (u # us) then Some 0 else map_option Suc (index_of p us))"

definition contains_text :: "jsstring \<Rightarrow> jsstring \<Rightarrow> bool" where
  "contains_text s p \<longleftrightarrow> index_of p s \<noteq> None"

text \<open>What comes before the first \<open>/\<close>, \<open>?\<close> or \<open>#\<close>.\<close>

definition url_stop :: "codeunit \<Rightarrow> bool" where
  "url_stop u \<longleftrightarrow> is_unit (CHR ''/'') u \<or> is_unit (CHR ''?'') u \<or> is_unit (CHR ''#'') u"

definition before_stop :: "jsstring \<Rightarrow> jsstring" where
  "before_stop s = takeWhile (\<lambda>u. \<not> url_stop u) s"

subsection \<open>Fields\<close>

definition trimmedText :: "jsval \<Rightarrow> jsstring option" where
  "trimmedText v = (case v of VStr s \<Rightarrow> if js_trim s = [] then None else Some (js_trim s) | _ \<Rightarrow> None)"

definition optionalText :: "fields \<Rightarrow> jsstring \<Rightarrow> nat \<Rightarrow> writ_error + jsstring option" where
  "optionalText r field most =
     (let value = jget r field in
      if nullish value then Inr None
      else
        res_bind (req (str_of value) input_invalid) (\<lambda>s.
        res_bind (guard (charCount s \<le> most) input_invalid) (\<lambda>_.
          Inr (if js_trim s = [] then None else Some (js_trim s)))))"

definition optionalArray :: "fields \<Rightarrow> jsstring \<Rightarrow> writ_error + unit" where
  "optionalArray r field = guard (nullish (jget r field) \<or> arr_of (jget r field) \<noteq> None) input_invalid"

definition optionalObject :: "fields \<Rightarrow> jsstring \<Rightarrow> writ_error + unit" where
  "optionalObject r field = guard (nullish (jget r field) \<or> isPlainObject (jget r field)) input_invalid"

definition optionalFlag :: "fields \<Rightarrow> jsstring \<Rightarrow> writ_error + unit" where
  "optionalFlag r field = guard (jget r field = VUndef \<or> bool_of (jget r field) \<noteq> None) input_invalid"

definition validateStep :: "jsval \<Rightarrow> unit \<Rightarrow> writ_error + unit" where
  "validateStep step _ =
     res_bind (req (obj_of step) input_invalid) (\<lambda>r.
     res_bind (req (str_of (jget r (js ''type''))) input_invalid) (\<lambda>type.
       guard (type \<noteq> [] \<and> type \<notin> set REFUSED_PACKAGE_STEP_TYPES) input_invalid))"

definition validateSteps :: "jsval \<Rightarrow> writ_error + jsval list" where
  "validateSteps steps =
     res_bind (req (arr_of steps) input_invalid) (\<lambda>xs.
     res_bind (guard (xs \<noteq> [] \<and> length xs \<le> MAX_PACKAGE_STEPS) input_invalid) (\<lambda>_.
     res_bind (fold_res validateStep xs ()) (\<lambda>_. Inr xs)))"

text \<open>The declared input names.\<close>

definition validate_input :: "fields \<Rightarrow> jsstring \<Rightarrow> jsstring list \<Rightarrow> writ_error + jsstring list" where
  "validate_input inputs name declared =
     res_bind (guard (PACKAGE_INPUT_NAME_PATTERN name) input_invalid) (\<lambda>_.
     res_bind (guard (\<not> forbidden_name name) input_invalid) (\<lambda>_.
     let spec = jget inputs name in
     if spec = VNull then Inr (declared @ [name])
     else
       res_bind (req (obj_of spec) input_invalid) (\<lambda>r.
       res_bind (optionalText r (js ''description'') MAX_PACKAGE_INPUT_DESCRIPTION_LENGTH) (\<lambda>_.
       res_bind (optionalFlag r (js ''required'')) (\<lambda>_.
         Inr (declared @ [name]))))))"

definition validateInputs :: "jsval \<Rightarrow> writ_error + jsstring list" where
  "validateInputs inputs =
     (if nullish inputs then Inr []
      else
        res_bind (req (obj_of inputs) input_invalid) (\<lambda>r.
        res_bind (guard (length (own_keys r) \<le> MAX_PACKAGE_INPUTS) input_invalid) (\<lambda>_.
          fold_res (validate_input r) (own_keys r) [])))"

text \<open>The declared credential keys.\<close>

definition validate_credential :: "jsval \<Rightarrow> jsstring list \<Rightarrow> writ_error + jsstring list" where
  "validate_credential raw keys =
     res_bind (req (obj_of raw) input_invalid) (\<lambda>r.
     res_bind (req (str_of (jget r (js ''key''))) input_invalid) (\<lambda>key.
     res_bind (guard (CREDENTIAL_KEY_PATTERN key \<and> key \<notin> set keys) input_invalid) (\<lambda>_.
     res_bind (optionalText r (js ''label'') MAX_CREDENTIAL_LABEL_LENGTH) (\<lambda>label.
     res_bind (guard (label \<noteq> None) input_invalid) (\<lambda>_.
     res_bind (optionalFlag r (js ''secret'')) (\<lambda>_.
     res_bind (optionalFlag r (js ''required'')) (\<lambda>_.
       Inr (keys @ [key]))))))))"

definition validateCredentials :: "jsval \<Rightarrow> writ_error + jsstring list" where
  "validateCredentials credentials =
     (if nullish credentials then Inr []
      else
        res_bind (req (arr_of credentials) input_invalid) (\<lambda>xs.
        res_bind (guard (length xs \<le> MAX_PACKAGE_CREDENTIALS) input_invalid) (\<lambda>_.
          fold_res validate_credential xs [])))"

definition kind_ok :: "jsval \<Rightarrow> bool" where
  "kind_ok kind \<longleftrightarrow> nullish kind \<or> (case kind of VStr k \<Rightarrow> k \<in> set SETTING_KINDS | _ \<Rightarrow> False)"

text \<open>The declared setting keys: each once, and neither an input nor a credential.\<close>

definition validate_setting :: "jsstring list \<Rightarrow> jsstring list \<Rightarrow> jsval \<Rightarrow> jsstring list \<Rightarrow> writ_error + jsstring list" where
  "validate_setting inputs credentials raw keys =
     res_bind (req (obj_of raw) input_invalid) (\<lambda>r.
     res_bind (req (str_of (jget r (js ''key''))) input_invalid) (\<lambda>key.
     res_bind (guard (SETTING_KEY_PATTERN key) input_invalid) (\<lambda>_.
     res_bind (guard (key \<notin> set RESERVED_INPUT_NAMES) input_invalid) (\<lambda>_.
     res_bind (guard (key \<notin> set keys) input_invalid) (\<lambda>_.
     res_bind (guard (key \<notin> set inputs) input_invalid) (\<lambda>_.
     res_bind (guard (key \<notin> set credentials) input_invalid) (\<lambda>_.
     res_bind (optionalText r (js ''label'') MAX_SETTING_LABEL_LENGTH) (\<lambda>label.
     res_bind (guard (label \<noteq> None) input_invalid) (\<lambda>_.
     res_bind (optionalText r (js ''description'') MAX_SETTING_DESCRIPTION_LENGTH) (\<lambda>_.
     res_bind (optionalText r (js ''example'') MAX_SETTING_EXAMPLE_LENGTH) (\<lambda>_.
     res_bind (guard (kind_ok (jget r (js ''kind''))) input_invalid) (\<lambda>_.
     res_bind (optionalFlag r (js ''required'')) (\<lambda>_.
       Inr (keys @ [key]))))))))))))))"

definition validateSettings :: "jsval \<Rightarrow> jsstring list \<Rightarrow> jsstring list \<Rightarrow> writ_error + jsstring list" where
  "validateSettings settings inputs credentials =
     (if nullish settings then Inr []
      else
        res_bind (req (arr_of settings) input_invalid) (\<lambda>xs.
        res_bind (guard (length xs \<le> MAX_PACKAGE_SETTINGS) input_invalid) (\<lambda>_.
          fold_res (validate_setting inputs credentials) xs [])))"

subsection \<open>Hosts of the local network\<close>

definition colon :: codeunit where "colon = 58"
definition dot :: codeunit where "dot = 46"
definition slash :: codeunit where "slash = 47"

definition hex_unit :: "codeunit \<Rightarrow> bool" where
  "hex_unit u \<longleftrightarrow> is_digit u \<or> unit_between (CHR ''a'') (CHR ''f'') u"

text \<open>\<open>/^\d{1,3}(?:\.\d{1,3}){3}$/\<close>: its parts; and \<open>\[?[0-9a-f]*:[0-9a-f:.]*\]?\<close>.\<close>

definition short_digits :: "jsstring \<Rightarrow> bool" where
  "short_digits s \<longleftrightarrow> s \<noteq> [] \<and> length s \<le> 3 \<and> list_all is_digit s"

definition ipv4_like :: "jsstring \<Rightarrow> bool" where
  "ipv4_like s \<longleftrightarrow> length (js_split dot s) = 4 \<and> list_all short_digits (js_split dot s)"

definition ipv6_like :: "jsstring \<Rightarrow> bool" where
  "ipv6_like s \<longleftrightarrow>
     (let a = (if starts_with (js ''['') s then tl s else s);
          b = (if ends_with (js '']'') a then butlast a else a)
      in colon \<in> set b \<and> list_all hex_unit (takeWhile (\<lambda>u. u \<noteq> colon) b) \<and>
         list_all (\<lambda>u. hex_unit u \<or> u = colon \<or> u = dot) b)"

text \<open>\<open>CIDR_LIKE\<close>, on text in lower case.\<close>

definition CIDR_LIKE :: "jsstring \<Rightarrow> bool" where
  "CIDR_LIKE s \<longleftrightarrow>
     (case js_split slash s of
        [a, b] \<Rightarrow> (ipv4_like a \<or> ipv6_like a) \<and> b \<noteq> [] \<and> list_all is_digit b
      | _ \<Rightarrow> False)"

definition splitGroups :: "jsstring \<Rightarrow> jsstring list" where
  "splitGroups s = (if s = [] then [] else js_split colon s)"

text \<open>\<open>host.split("::")\<close>.\<close>

fun split_double :: "jsstring \<Rightarrow> jsstring list" where
  "split_double (u # v # us) =
     (if u = colon \<and> v = colon then [] # split_double us
      else (case split_double (v # us) of [] \<Rightarrow> [[u]] | w # ws \<Rightarrow> (u # w) # ws))"
| "split_double us = [us]"

definition hex_digit :: "codeunit \<Rightarrow> int" where
  "hex_digit u = (if is_digit u then uint u - 48 else uint u - 87)"

definition hex_value :: "jsstring \<Rightarrow> int" where
  "hex_value s = foldl (\<lambda>n u. 16 * n + hex_digit u) 0 s"

definition hex_group :: "jsstring \<Rightarrow> bool" where
  "hex_group s \<longleftrightarrow> s \<noteq> [] \<and> length s \<le> 4 \<and> list_all hex_unit s"

definition isLoopback :: "jsstring \<Rightarrow> bool" where
  "isLoopback host \<longleftrightarrow>
     (if host = js ''localhost'' \<or> ends_with (js ''.localhost'') host then True
      else
        let v4 = (if starts_with (js ''::ffff:'') host then drop 7 host else host) in
        if ipv4_like v4 then digits_value (hd (js_split dot v4)) = 127
        else if colon \<notin> set host then False
        else
          (let halves = split_double host;
               expanded = (case halves of
                   [l, r] \<Rightarrow>
                     (let zeros = 8 - int (length (splitGroups l)) - int (length (splitGroups r)) in
                      if zeros < 1 then None else Some (splitGroups l @ replicate (nat zeros) (js ''0'') @ splitGroups r))
                 | [_] \<Rightarrow> Some (splitGroups host)
                 | _ \<Rightarrow> None)
           in case expanded of
                None \<Rightarrow> False
              | Some groups \<Rightarrow>
                  length groups = 8 \<and> list_all hex_group groups \<and>
                  list_all (\<lambda>g. hex_value g = 0) (take 7 groups) \<and> hex_value (groups ! 7) = 1))"

text \<open>The host and the port of an address without its scheme and path.\<close>

definition host_and_port :: "jsstring \<Rightarrow> writ_error + jsstring \<times> jsstring option" where
  "host_and_port s =
     (if starts_with (js ''['') s then
        (case index_of (js '']'') s of
           None \<Rightarrow> Inl input_invalid
         | Some close \<Rightarrow>
             (let rest = drop (close + 1) s; host = drop 1 (take close s) in
              if starts_with (js '':'') rest then Inr (host, Some (tl rest))
              else res_bind (guard (rest = []) input_invalid) (\<lambda>_. Inr (host, None))))
      else if 1 < length (filter (\<lambda>u. u = colon) s) then Inr (s, None)
      else
        (case index_of (js '':'') s of
           None \<Rightarrow> Inr (s, None)
         | Some i \<Rightarrow> Inr (take i s, Some (drop (i + 1) s))))"

definition port_ok :: "jsstring \<Rightarrow> bool" where
  "port_ok p \<longleftrightarrow> p \<noteq> [] \<and> length p \<le> 5 \<and> list_all is_digit p \<and> 1 \<le> digits_value p \<and> digits_value p \<le> 65535"

definition without_dot :: "jsstring \<Rightarrow> jsstring" where
  "without_dot host = (if ends_with (js ''.'') host then butlast host else host)"

definition host_unit :: "codeunit \<Rightarrow> bool" where
  "host_unit u \<longleftrightarrow> \<not> (is_space u \<or> is_unit (CHR ''*'') u \<or> is_unit (CHR '','') u \<or> is_unit (CHR '';'') u)"

text \<open>The text of an address that names its host: after the scheme, before the path.\<close>

definition address_of :: "jsstring \<Rightarrow> writ_error + jsstring" where
  "address_of s =
     (case index_of (js ''://'') s of
        Some i \<Rightarrow>
          res_bind (guard (take i s = js ''http'' \<or> take i s = js ''https'') input_invalid) (\<lambda>_.
          let address = before_stop (drop (i + 3) s) in
          res_bind (guard (\<not> contains_text address (js ''@'')) input_invalid) (\<lambda>_. Inr address))
      | None \<Rightarrow> res_bind (guard (\<not> CIDR_LIKE s) input_invalid) (\<lambda>_. Inr (before_stop s)))"

definition checkLocalHost :: "jsstring \<Rightarrow> writ_error + unit" where
  "checkLocalHost raw =
     (let s = js_lower (js_trim raw) in
      res_bind (guard (s \<noteq> []) input_invalid) (\<lambda>_.
      res_bind (address_of s) (\<lambda>address.
      res_bind (guard (address \<noteq> []) input_invalid) (\<lambda>_.
      res_bind (host_and_port address) (\<lambda>(host0, port).
      res_bind (guard (case port of None \<Rightarrow> True | Some p \<Rightarrow> port_ok p) input_invalid) (\<lambda>_.
      let host = without_dot host0 in
      res_bind (guard (host \<noteq> [] \<and> list_all host_unit host) input_invalid) (\<lambda>_.
        guard (\<not> isLoopback host) input_invalid)))))))"

definition validate_host :: "jsval \<Rightarrow> unit \<Rightarrow> writ_error + unit" where
  "validate_host host _ = res_bind (req (str_of host) input_invalid) checkLocalHost"

definition validateLocalNetwork :: "jsval \<Rightarrow> writ_error + unit" where
  "validateLocalNetwork network =
     (if nullish network then Inr ()
      else
        res_bind (req (obj_of network) input_invalid) (\<lambda>r.
        res_bind (req (arr_of (jget r (js ''hosts''))) input_invalid) (\<lambda>hosts.
        res_bind (guard (length hosts \<le> MAX_LOCAL_NETWORK_HOSTS) input_invalid) (\<lambda>_.
        res_bind (fold_res validate_host hosts ()) (\<lambda>_.
        res_bind (optionalText r (js ''reason'') MAX_LOCAL_NETWORK_REASON_LENGTH) (\<lambda>_. Inr ()))))))"


subsection \<open>References in the steps\<close>

text \<open>\<open>regexp.test(s)\<close>, for what matches at the start of a suffix.\<close>

fun anywhere :: "(jsstring \<Rightarrow> bool) \<Rightarrow> jsstring \<Rightarrow> bool" where
  "anywhere p [] = p []"
| "anywhere p (u # us) = (p (u # us) \<or> anywhere p us)"

definition skip_spaces :: "jsstring \<Rightarrow> jsstring" where
  "skip_spaces s = dropWhile is_space s"

text \<open>\<open>FILE_REFERENCE\<close> at the start of a text.\<close>

definition file_here :: "jsstring \<Rightarrow> bool" where
  "file_here s \<longleftrightarrow>
     starts_with (js ''{{'') s \<and>
     (let a = skip_spaces (drop 2 s) in starts_with (js ''file'') a \<and> starts_with (js '':'') (skip_spaces (drop 4 a)))"

text \<open>\<open>SECRET_REFERENCE\<close> at the start of a text: what it captures, and the text after the match.\<close>

definition capture_unit :: "codeunit \<Rightarrow> bool" where
  "capture_unit u \<longleftrightarrow> \<not> (is_unit (CHR ''}'') u \<or> is_unit (CHR ''|'') u \<or> is_space u)"

definition secret_here :: "jsstring \<Rightarrow> (jsstring \<times> jsstring) option" where
  "secret_here s =
     (if \<not> starts_with (js ''{{'') s then None
      else
        (let a = skip_spaces (drop 2 s);
             word = (if starts_with (js ''secret'') a then Some (drop 6 a) else if starts_with (js ''vault'') a then Some (drop 5 a) else None)
         in case word of
              None \<Rightarrow> None
            | Some rest \<Rightarrow>
                (let b = skip_spaces rest in
                 if \<not> starts_with (js '':'') b then None
                 else
                   (let c = skip_spaces (tl b); cap = takeWhile capture_unit c in
                    if cap = [] then None else Some (cap, dropWhile capture_unit c)))))"

lemma secret_here_shorter: "secret_here s = Some (cap, rest) \<Longrightarrow> length rest < length s"
proof -
  assume h: "secret_here s = Some (cap, rest)"
  define b where "b = skip_spaces (let a = skip_spaces (drop 2 s) in if starts_with (js ''secret'') a then drop 6 a else drop 5 a)"
  have "length b \<le> length s"
    unfolding b_def skip_spaces_def Let_def
    by (auto intro: order_trans [OF length_dropWhile_le] le_trans [OF diff_le_self])
      (metis diff_le_self length_drop length_dropWhile_le order_trans)+
  moreover have "b \<noteq> []" "rest = dropWhile capture_unit (skip_spaces (tl b))"
    using h by (auto simp: secret_here_def b_def Let_def starts_with_def split: if_splits option.splits)
  then have "length rest < length b"
    unfolding skip_spaces_def by (metis le_imp_less_Suc length_Cons length_dropWhile_le list.collapse order_trans)
  ultimately show ?thesis by simp
qed

text \<open>\<open>text.matchAll(SECRET_REFERENCE)\<close>: what each match captures.\<close>

function secrets :: "jsstring \<Rightarrow> jsstring list" where
  "secrets s =
     (case secret_here s of
        Some (cap, rest) \<Rightarrow> cap # secrets rest
      | None \<Rightarrow> (case s of [] \<Rightarrow> [] | u # us \<Rightarrow> secrets us))"
  by pat_completeness auto

termination
  by (relation "measure length") (auto dest: secret_here_shorter)

declare secrets.simps [simp del]

definition secret_key :: "jsstring \<Rightarrow> jsstring" where
  "secret_key cap = hd (js_split dot cap)"

definition text_ok :: "jsstring list \<Rightarrow> jsval \<Rightarrow> bool" where
  "text_ok credentials v \<longleftrightarrow>
     nullish v \<or>
     (let t = json_text v in
      \<not> anywhere file_here t \<and> \<not> contains_text t (js ''payment_mode'') \<and> \<not> contains_text t (js ''__pay_'') \<and>
      list_all (\<lambda>cap. secret_key cap \<in> set credentials) (secrets t))"

definition validateText :: "fields \<Rightarrow> jsval list \<Rightarrow> jsstring list \<Rightarrow> writ_error + unit" where
  "validateText r steps credentials =
     guard (list_all (text_ok credentials)
       (steps @ [jget r (js ''functions''), jget r (js ''api_functions''), jget r (js ''auth_config'')])) input_invalid"

subsection \<open>Where URLs may point\<close>

text \<open>\<open>VALUE_PLACEHOLDER\<close> at the start of a text: the name, and the text after the match.\<close>

definition placeholder_here :: "jsstring \<Rightarrow> (jsstring \<times> jsstring) option" where
  "placeholder_here s =
     (if \<not> starts_with (js ''{{'') s then None
      else
        (let a = skip_spaces (drop 2 s); name = takeWhile name_unit a; b = skip_spaces (dropWhile name_unit a) in
         if name \<noteq> [] \<and> starts_with (js ''}}'') b then Some (name, drop 2 b) else None))"

lemma placeholder_here_shorter: "placeholder_here s = Some (name, rest) \<Longrightarrow> length rest < length s"
proof -
  assume h: "placeholder_here s = Some (name, rest)"
  define b where "b = skip_spaces (dropWhile name_unit (skip_spaces (drop 2 s)))"
  have "length b \<le> length s"
    unfolding b_def skip_spaces_def
    by (metis (no_types) diff_le_self length_drop length_dropWhile_le order_trans)
  moreover have "rest = drop 2 b" "b \<noteq> []"
    using h by (auto simp: placeholder_here_def b_def Let_def starts_with_def split: if_splits)
  ultimately show ?thesis by (cases b) auto
qed

text \<open>\<open>url.matchAll(VALUE_PLACEHOLDER)\<close>: where each match starts, and its name.\<close>

function placeholders :: "nat \<Rightarrow> jsstring \<Rightarrow> (nat \<times> jsstring) list" where
  "placeholders i s =
     (case placeholder_here s of
        Some (name, rest) \<Rightarrow> (i, name) # placeholders (i + (length s - length rest)) rest
      | None \<Rightarrow> (case s of [] \<Rightarrow> [] | u # us \<Rightarrow> placeholders (i + 1) us))"
  by pat_completeness auto

termination
  by (relation "measure (length \<circ> snd)") (auto dest: placeholder_here_shorter)

declare placeholders.simps [simp del]

definition authorityEnd :: "jsstring \<Rightarrow> nat" where
  "authorityEnd url =
     (let start = (case index_of (js ''://'') url of Some i \<Rightarrow> i + 3 | None \<Rightarrow> if starts_with (js ''//'') url then 2 else 0) in
      start + length (before_stop (drop start url)))"

definition input_name :: "jsstring \<Rightarrow> jsstring" where
  "input_name raw = (if starts_with (js ''input.'') raw \<and> length raw > 6 then drop 6 raw else raw)"

definition checkUrlAuthority :: "jsstring list \<Rightarrow> jsstring \<Rightarrow> bool" where
  "checkUrlAuthority settings url \<longleftrightarrow>
     list_all (\<lambda>(i, raw). input_name raw \<in> set settings) (takeWhile (\<lambda>(i, raw). i < authorityEnd url) (placeholders 0 url))"

definition url_key :: "jsstring \<Rightarrow> bool" where
  "url_key key \<longleftrightarrow> key = js ''url'' \<or> ends_with (js ''_url'') key"

fun checkUrls :: "jsstring list \<Rightarrow> jsval \<Rightarrow> bool" where
  "checkUrls settings (VArr xs) = list_all (checkUrls settings) xs"
| "checkUrls settings (VObj fs) =
     list_all (\<lambda>kv. case (str_of (snd kv), url_key (fst kv)) of
                      (Some url, True) \<Rightarrow> checkUrlAuthority settings url | _ \<Rightarrow> checkUrls settings (snd kv)) fs"
| "checkUrls settings _ = True"

definition validateUrlAuthorities :: "fields \<Rightarrow> jsstring list \<Rightarrow> writ_error + unit" where
  "validateUrlAuthorities r settings = guard (checkUrls settings (VObj r)) input_invalid"


subsection \<open>The functions of a package\<close>

definition stepConfig :: "fields \<Rightarrow> fields" where
  "stepConfig step = (case jget step (js ''config'') of VObj c \<Rightarrow> c | _ \<Rightarrow> step)"

definition stepFunction :: "jsval \<Rightarrow> jsstring option" where
  "stepFunction step = trimmedText (jget (stepConfig (case step of VObj r \<Rightarrow> r | _ \<Rightarrow> [])) (js ''function_name''))"

definition stepIsAuth :: "fields \<Rightarrow> bool" where
  "stepIsAuth step \<longleftrightarrow> jget (stepConfig step) (js ''is_auth'') = VBool True \<or> jget step (js ''type'') = VStr (js ''login_post'')"

definition disabled :: "fields \<Rightarrow> bool" where
  "disabled r \<longleftrightarrow> jget r (js ''enabled'') = VBool False"

text \<open>A position as given: a number, or text that \<open>/^\s*\d+\s*$/\<close> matches; those that are whole and not negative.\<close>

definition step_index :: "jsval \<Rightarrow> int option" where
  "step_index raw =
     (let v = (case raw of
                 VStr s \<Rightarrow> if js_trim s \<noteq> [] \<and> list_all is_digit (js_trim s) then VNum (num_of_bigint (int (digits_value (js_trim s)))) else VNum NaN
               | _ \<Rightarrow> raw)
      in case whole_int v of Some i \<Rightarrow> if 0 \<le> i then Some i else None | None \<Rightarrow> None)"

definition step_range :: "jsval \<Rightarrow> int list" where
  "step_range pair =
     (case pair of
        VArr [from, to] \<Rightarrow>
          (case (whole_int from, whole_int to) of
             (Some i, Some j) \<Rightarrow> if 0 \<le> i \<and> i \<le> j then [i..j - 1] else []
           | _ \<Rightarrow> [])
      | _ \<Rightarrow> [])"

definition declaredStepIndices :: "fields \<Rightarrow> nat \<Rightarrow> nat list" where
  "declaredStepIndices declaration count =
     (let indices = (case jget declaration (js ''step_indices'') of VArr xs \<Rightarrow> List.map_filter step_index xs | _ \<Rightarrow> []);
          out = (if indices = [] then step_range (jget declaration (js ''step_range'')) else indices)
      in sort (remdups (map nat (filter (\<lambda>i. i < int count) out))))"

text \<open>What is known of a function by its name: whether it signs in, whether it is disabled; in first-seen order.\<close>

type_synonym found = "(jsstring \<times> bool \<times> bool) list"

definition note_step :: "jsval \<Rightarrow> found \<Rightarrow> found" where
  "note_step step found =
     (case stepFunction step of
        None \<Rightarrow> found
      | Some name \<Rightarrow>
          (let (auth, off) = (case map_of found name of Some e \<Rightarrow> e | None \<Rightarrow> (False, False));
               r = (case step of VObj r \<Rightarrow> r | _ \<Rightarrow> [])
           in AList.update name (auth \<or> stepIsAuth r, off \<or> disabled r) found))"

definition note_declaration :: "jsval list \<Rightarrow> jsval \<Rightarrow> found \<Rightarrow> found" where
  "note_declaration steps raw found =
     (case raw of
        VObj r \<Rightarrow>
          (case trimmedText (jget r (js ''name'')) of
             None \<Rightarrow> found
           | Some name \<Rightarrow>
               if name \<in> fst ` set found then found
               else
                 (let owned = List.map_filter (\<lambda>i. if stepFunction (steps ! i) \<noteq> None then None else obj_of (steps ! i))
                                (declaredStepIndices r (length steps))
                  in AList.update name (jget r (js ''is_auth'') = VBool True \<or> list_ex stepIsAuth owned, disabled r \<or> list_ex disabled owned) found))
      | _ \<Rightarrow> found)"

definition note_api :: "fields \<Rightarrow> jsstring \<Rightarrow> found \<Rightarrow> found" where
  "note_api api name found =
     (if name \<in> fst ` set found then found
      else (case jget api name of
              VObj spec \<Rightarrow> AList.update name (jget spec (js ''is_auth'') = VBool True, disabled spec) found
            | _ \<Rightarrow> found))"

definition packageFunctionNames :: "fields \<Rightarrow> jsstring list" where
  "packageFunctionNames pkg =
     (let steps = (case jget pkg (js ''steps'') of VArr xs \<Rightarrow> xs | _ \<Rightarrow> []);
          declared = (case jget pkg (js ''functions'') of VArr xs \<Rightarrow> xs | _ \<Rightarrow> []);
          api = (case jget pkg (js ''api_functions'') of VObj r \<Rightarrow> r | _ \<Rightarrow> []);
          found = fold (note_api api) (own_keys api) (fold (note_declaration steps) declared (fold note_step steps []))
      in map fst (filter (\<lambda>(name, auth, off). \<not> auth \<and> \<not> off) found))"

definition selectPackageFunction :: "jsstring list \<Rightarrow> jsval \<Rightarrow> writ_error + jsstring option" where
  "selectPackageFunction names requested =
     (if nullish requested then res_bind (guard (length names < 2) input_invalid) (\<lambda>_. Inr None)
      else
        res_bind (req (trimmedText requested) input_invalid) (\<lambda>name.
        res_bind (guard (name \<in> set names) input_invalid) (\<lambda>_. Inr (Some name))))"

subsection \<open>The package\<close>

definition validatePackage :: "(jsstring \<Rightarrow> bool) \<Rightarrow> jsval \<Rightarrow> writ_error + fields" where
  "validatePackage http_url value =
     res_bind (guard (isPlainObject value) input_invalid) (\<lambda>_.
     res_bind (map_sum (\<lambda>_. input_invalid) id (cloneJsonValue value [] MAX_PACKAGE_DEPTH)) (\<lambda>copy.
     res_bind (guard (utf8Length (json_text copy) \<le> MAX_PACKAGE_BYTES) input_invalid) (\<lambda>_.
     res_bind (req (obj_of copy) input_invalid) (\<lambda>pkg.
     res_bind (guard (jget pkg (js ''format'') = VStr PACKAGE_FORMAT) input_invalid) (\<lambda>_.
     res_bind (guard (case jget pkg (js ''id'') of VStr i \<Rightarrow> PACKAGE_ID_PATTERN i | _ \<Rightarrow> False) input_invalid) (\<lambda>_.
     res_bind (optionalText pkg (js ''version'') MAX_PACKAGE_VERSION_LENGTH) (\<lambda>_.
     res_bind (optionalText pkg (js ''name'') MAX_PACKAGE_NAME_LENGTH) (\<lambda>name.
     res_bind (guard (name \<noteq> None) input_invalid) (\<lambda>_.
     res_bind (optionalText pkg (js ''description'') MAX_PACKAGE_DESCRIPTION_LENGTH) (\<lambda>_.
     res_bind (optionalText pkg (js ''entry_url'') MAX_PACKAGE_ENTRY_URL_LENGTH) (\<lambda>entryUrl.
     res_bind (guard (case entryUrl of Some u \<Rightarrow> http_url u | None \<Rightarrow> True) input_invalid) (\<lambda>_.
     res_bind (validateSteps (jget pkg (js ''steps''))) (\<lambda>steps.
     res_bind (optionalArray pkg (js ''functions'')) (\<lambda>_.
     res_bind (optionalObject pkg (js ''api_functions'')) (\<lambda>_.
     res_bind (optionalObject pkg (js ''auth_config'')) (\<lambda>_.
     res_bind (validateInputs (jget pkg (js ''inputs''))) (\<lambda>inputs.
     res_bind (validateCredentials (jget pkg (js ''credentials''))) (\<lambda>credentials.
     res_bind (validateSettings (jget pkg (js ''settings'')) inputs credentials) (\<lambda>settings.
     res_bind (validateLocalNetwork (jget pkg (js ''local_network''))) (\<lambda>_.
     res_bind (validateText pkg steps credentials) (\<lambda>_.
     res_bind (validateUrlAuthorities pkg settings) (\<lambda>_.
       Inr pkg))))))))))))))))))))))"

end
