(* ===== verification/Page_Linked.thy ===== *)
theory Page_Linked
  imports Page_Package
begin

section \<open>Linked workflow packages (web/src/linked.ts)\<close>

text \<open>
  The checks of a linked contract entry and its manifest, and what the rest of the page reads of a package,
  bundled or linked.  A validated package is its fields, as the code keeps the copied object.  \<open>new URL\<close> is an
  argument: \<open>None\<close> where the platform has no \<open>URL\<close>, else what it answers for a text (\<open>None\<close>: it throws).
\<close>

definition LINKED_PACKAGE_FORMAT :: jsstring where "LINKED_PACKAGE_FORMAT = js ''writ.linked/v1''"
definition MANIFEST_FORMAT :: jsstring where "MANIFEST_FORMAT = js ''writ.manifest/v1''"

definition PUBLISHABLE_KEY_PATTERN :: "jsstring \<Rightarrow> bool" where
  "PUBLISHABLE_KEY_PATTERN s \<longleftrightarrow> take 4 s = js ''wpk_'' \<and> length s = 36 \<and> list_all is_alnum (drop 4 s)"

definition MANIFEST_HASH_PATTERN :: "jsstring \<Rightarrow> bool" where
  "MANIFEST_HASH_PATTERN s \<longleftrightarrow> length s = 64 \<and> list_all hex_unit s"

definition LINKED_ACCESS_MODES :: "jsstring list" where
  "LINKED_ACCESS_MODES = map js [''public'', ''token'']"

subsection \<open>Addresses\<close>

record page_url =
  pu_protocol :: jsstring
  pu_username :: jsstring
  pu_password :: jsstring
  pu_hostname :: jsstring
  pu_pathname :: jsstring

type_synonym url_api = "(jsstring \<Rightarrow> page_url option) option"

text \<open>\<open>isHttpUrl\<close> (package.ts), with its expression \<open>/^https?:\/\/[^/\s]+/i\<close>.\<close>

definition http_text :: "jsstring \<Rightarrow> bool" where
  "http_text s \<longleftrightarrow>
     (let after = (if js_lower (take 8 s) = js ''https://'' then Some (drop 8 s)
                   else if js_lower (take 7 s) = js ''http://'' then Some (drop 7 s) else None)
      in case after of Some (u # us) \<Rightarrow> u \<noteq> slash \<and> \<not> is_space u | _ \<Rightarrow> False)"

definition isHttpUrl :: "url_api \<Rightarrow> jsstring \<Rightarrow> bool" where
  "isHttpUrl api s \<longleftrightarrow>
     (case api of
        None \<Rightarrow> http_text s
      | Some parse \<Rightarrow>
          (case parse s of
             Some url \<Rightarrow> pu_protocol url = js ''http:'' \<or> pu_protocol url = js ''https:''
           | None \<Rightarrow> False))"

text \<open>The two expressions of \<open>isPublicationBase\<close>, for a platform without \<open>URL\<close>.\<close>

definition without_slash :: "jsstring \<Rightarrow> jsstring" where
  "without_slash s = (if ends_with (js ''/'') s then butlast s else s)"

definition https_base :: "jsstring \<Rightarrow> bool" where
  "https_base s \<longleftrightarrow>
     js_lower (take 8 s) = js ''https://'' \<and>
     (let r = without_slash (drop 8 s) in r \<noteq> [] \<and> list_all (\<lambda>u. u \<noteq> slash \<and> \<not> is_unit (CHR ''@'') u \<and> \<not> is_space u) r)"

definition LOCAL_NAMES :: "jsstring list" where
  "LOCAL_NAMES = map js [''localhost'', ''127.0.0.1'', ''[::1]'']"

definition local_base :: "jsstring \<Rightarrow> bool" where
  "local_base s \<longleftrightarrow>
     js_lower (take 7 s) = js ''http://'' \<and>
     (let r = js_lower (without_slash (drop 7 s)) in
      list_ex (\<lambda>h. starts_with h r \<and>
        (case drop (length h) r of
           [] \<Rightarrow> True
         | u # us \<Rightarrow> u = colon \<and> us \<noteq> [] \<and> length us \<le> 5 \<and> list_all is_digit us)) LOCAL_NAMES)"

definition isPublicationBase :: "url_api \<Rightarrow> jsstring \<Rightarrow> bool" where
  "isPublicationBase api raw \<longleftrightarrow>
     (let s = js_trim raw in
      if contains_text s (js ''?'') \<or> contains_text s (js ''#'') then False
      else
        (case api of
           None \<Rightarrow> https_base s \<or> local_base s
         | Some parse \<Rightarrow>
             (case parse s of
                None \<Rightarrow> False
              | Some url \<Rightarrow>
                  (pu_protocol url = js ''https:'' \<or>
                   pu_protocol url = js ''http:'' \<and> js_lower (pu_hostname url) \<in> set LOCAL_NAMES) \<and>
                  pu_username url = [] \<and> pu_password url = [] \<and> (pu_pathname url = js ''/'' \<or> pu_pathname url = []))))"

subsection \<open>The manifest\<close>

definition isLinkedPackage :: "jsval \<Rightarrow> bool" where
  "isLinkedPackage pkg \<longleftrightarrow> (case pkg of VObj r \<Rightarrow> jget r (js ''format'') = VStr LINKED_PACKAGE_FORMAT | _ \<Rightarrow> False)"

definition manifest_input_ok :: "jsval \<Rightarrow> bool" where
  "manifest_input_ok input \<longleftrightarrow>
     (case input of VObj r \<Rightarrow> str_of (jget r (js ''name'')) \<noteq> None \<and> bool_of (jget r (js ''required'')) \<noteq> None | _ \<Rightarrow> False)"

definition manifest_function_ok :: "jsval \<Rightarrow> bool" where
  "manifest_function_ok entry \<longleftrightarrow>
     (case entry of
        VObj r \<Rightarrow>
          (jget r (js ''name'') = VNull \<or> trimmedText (jget r (js ''name'')) \<noteq> None) \<and>
          (case jget r (js ''inputs'') of VArr xs \<Rightarrow> list_all manifest_input_ok xs | _ \<Rightarrow> False) \<and>
          (case jget r (js ''outputs'') of VArr xs \<Rightarrow> list_all (\<lambda>x. str_of x \<noteq> None) xs | _ \<Rightarrow> False) \<and>
          bool_of (jget r (js ''writes'')) \<noteq> None
      | _ \<Rightarrow> False)"

definition manifest_setting :: "jsval \<Rightarrow> jsstring list \<Rightarrow> writ_error + jsstring list" where
  "manifest_setting entry keys =
     res_bind (req (obj_of entry) input_invalid) (\<lambda>r.
     res_bind (req (str_of (jget r (js ''key''))) input_invalid) (\<lambda>key.
     res_bind (guard (SETTING_KEY_PATTERN key) input_invalid) (\<lambda>_.
     res_bind (guard (key \<notin> set keys) input_invalid) (\<lambda>_.
     res_bind (guard (trimmedText (jget r (js ''label'')) \<noteq> None) input_invalid) (\<lambda>_.
     res_bind (guard (kind_ok (jget r (js ''kind''))) input_invalid) (\<lambda>_.
       Inr (keys @ [key])))))))"

definition validateManifest :: "jsval \<Rightarrow> jsstring \<Rightarrow> writ_error + unit" where
  "validateManifest raw publicationId =
     res_bind (req (obj_of raw) input_invalid) (\<lambda>r.
     res_bind (guard (jget r (js ''format'') = VStr MANIFEST_FORMAT) input_invalid) (\<lambda>_.
     res_bind (guard (jget r (js ''publication'') = VStr publicationId) input_invalid) (\<lambda>_.
     res_bind (req (arr_of (jget r (js ''functions''))) input_invalid) (\<lambda>functions.
     res_bind (guard (functions \<noteq> [] \<and> list_all manifest_function_ok functions) input_invalid) (\<lambda>_.
     if nullish (jget r (js ''settings'')) then Inr ()
     else
       res_bind (req (arr_of (jget r (js ''settings''))) input_invalid) (\<lambda>settings.
       res_bind (fold_res manifest_setting settings []) (\<lambda>_. Inr ())))))))"

subsection \<open>The entry\<close>

definition version_ok :: "jsval \<Rightarrow> bool" where
  "version_ok v \<longleftrightarrow> nullish v \<or> (case safe_int v of Some i \<Rightarrow> 1 \<le> i | None \<Rightarrow> False)"

definition publisher_ok :: "jsval \<Rightarrow> bool" where
  "publisher_ok v \<longleftrightarrow>
     nullish v \<or> (case v of VObj r \<Rightarrow> nullish (jget r (js ''name'')) \<or> str_of (jget r (js ''name'')) \<noteq> None | _ \<Rightarrow> False)"

definition validateLinkedPackage :: "url_api \<Rightarrow> jsval \<Rightarrow> writ_error + fields" where
  "validateLinkedPackage api value =
     res_bind (guard (isPlainObject value) input_invalid) (\<lambda>_.
     res_bind (map_sum (\<lambda>_. input_invalid) id (cloneJsonValue value [] MAX_PACKAGE_DEPTH)) (\<lambda>copy.
     res_bind (guard (utf8Length (json_text copy) \<le> MAX_PACKAGE_BYTES) input_invalid) (\<lambda>_.
     res_bind (req (obj_of copy) input_invalid) (\<lambda>pkg.
     res_bind (guard (jget pkg (js ''format'') = VStr LINKED_PACKAGE_FORMAT) input_invalid) (\<lambda>_.
     res_bind (guard (case jget pkg (js ''id'') of VStr i \<Rightarrow> PACKAGE_ID_PATTERN i | _ \<Rightarrow> False) input_invalid) (\<lambda>_.
     res_bind (req (str_of (jget pkg (js ''name''))) input_invalid) (\<lambda>name.
     res_bind (guard (js_trim name \<noteq> [] \<and> charCount name \<le> MAX_PACKAGE_NAME_LENGTH) input_invalid) (\<lambda>_.
     res_bind (req (obj_of (jget pkg (js ''publication''))) input_invalid) (\<lambda>publication.
     res_bind (req (str_of (jget publication (js ''id''))) input_invalid) (\<lambda>publicationId.
     res_bind (guard (PUBLICATION_ID_PATTERN publicationId) input_invalid) (\<lambda>_.
     let base = jget publication (js ''base'') in
     res_bind (guard (nullish base \<or> (case base of VStr b \<Rightarrow> isPublicationBase api b | _ \<Rightarrow> False)) input_invalid) (\<lambda>_.
     res_bind (guard (version_ok (jget publication (js ''version''))) input_invalid) (\<lambda>_.
     res_bind (guard (case jget pkg (js ''key'') of VStr k \<Rightarrow> PUBLISHABLE_KEY_PATTERN k | _ \<Rightarrow> False) input_invalid) (\<lambda>_.
     res_bind (guard (case jget pkg (js ''access'') of VStr a \<Rightarrow> a \<in> set LINKED_ACCESS_MODES | _ \<Rightarrow> False) input_invalid) (\<lambda>_.
     res_bind (guard (publisher_ok (jget pkg (js ''publisher''))) input_invalid) (\<lambda>_.
     res_bind (validateManifest (jget pkg (js ''manifest'')) publicationId) (\<lambda>_.
     res_bind (guard (case jget pkg (js ''manifest_hash'') of VStr h \<Rightarrow> MANIFEST_HASH_PATTERN h | _ \<Rightarrow> False) input_invalid) (\<lambda>_.
       Inr pkg))))))))))))))))))"

subsection \<open>What a package offers\<close>

definition manifest_of :: "fields \<Rightarrow> fields" where
  "manifest_of pkg = (case jget pkg (js ''manifest'') of VObj m \<Rightarrow> m | _ \<Rightarrow> [])"

definition add_name :: "jsval \<Rightarrow> jsstring list \<Rightarrow> jsstring list" where
  "add_name entry names =
     (case trimmedText (jget (case entry of VObj r \<Rightarrow> r | _ \<Rightarrow> []) (js ''name'')) of
        Some name \<Rightarrow> if name \<in> set names then names else names @ [name]
      | None \<Rightarrow> names)"

definition linkedFunctionNames :: "fields \<Rightarrow> jsstring list" where
  "linkedFunctionNames pkg = fold add_name (case jget (manifest_of pkg) (js ''functions'') of VArr xs \<Rightarrow> xs | _ \<Rightarrow> []) []"

definition packageDisplayName :: "fields \<Rightarrow> jsstring" where
  "packageDisplayName pkg =
     (let own = (case jget pkg (js ''name'') of VStr n \<Rightarrow> js_trim n | _ \<Rightarrow> []) in
      if isLinkedPackage (VObj pkg)
      then (case trimmedText (jget (manifest_of pkg) (js ''name'')) of Some vouched \<Rightarrow> vouched | None \<Rightarrow> own)
      else own)"

definition packageSettings :: "fields \<Rightarrow> jsval list" where
  "packageSettings pkg =
     (case jget (if isLinkedPackage (VObj pkg) then manifest_of pkg else pkg) (js ''settings'') of VArr xs \<Rightarrow> xs | _ \<Rightarrow> [])"

text \<open>The function names \<open>selectPackageFunction\<close> picks from; a package as a contract or a request carries it.\<close>

definition function_names :: "fields \<Rightarrow> jsstring list" where
  "function_names pkg = (if isLinkedPackage (VObj pkg) then linkedFunctionNames pkg else packageFunctionNames pkg)"

definition validate_either :: "url_api \<Rightarrow> jsval \<Rightarrow> writ_error + fields" where
  "validate_either api raw =
     (if isLinkedPackage raw then validateLinkedPackage api raw else validatePackage (isHttpUrl api) raw)"

definition package_id :: "fields \<Rightarrow> jsstring" where
  "package_id pkg = (case jget pkg (js ''id'') of VStr i \<Rightarrow> i | _ \<Rightarrow> [])"

definition package_access :: "fields \<Rightarrow> linked_access" where
  "package_access pkg = (if jget pkg (js ''access'') = VStr (js ''token'') then LinkedToken else LinkedPublic)"

end
