(* ===== verification/Page_Requests.thy ===== *)
theory Page_Requests
  imports Page_Linked
begin

section \<open>What connect() is asked (web/src/validate.ts)\<close>

text \<open>
  The requests of \<open>connect()\<close> and \<open>resume()\<close>, validated: keys and descriptions, packages (one content per id),
  the function each key calls, and the values suggested for settings (one value per setting of a package).
\<close>

definition MAX_APP_NAME_LENGTH :: nat where "MAX_APP_NAME_LENGTH = 80"
definition MAX_DESCRIPTION_LENGTH :: nat where "MAX_DESCRIPTION_LENGTH = 200"
definition MAX_SUGGESTED_SETTINGS :: nat where "MAX_SUGGESTED_SETTINGS = 8"
definition MAX_SETTING_VALUE_LENGTH :: nat where "MAX_SETTING_VALUE_LENGTH = 200"

text \<open>Controls and bidirectional overrides.\<close>

definition unsafe_unit :: "codeunit \<Rightarrow> bool" where
  "unsafe_unit u \<longleftrightarrow> u \<le> 0x1f \<or> (0x7f \<le> u \<and> u \<le> 0x9f) \<or> u = 0x200e \<or> u = 0x200f \<or>
     (0x202a \<le> u \<and> u \<le> 0x202e) \<or> (0x2066 \<le> u \<and> u \<le> 0x2069)"

definition UNSAFE_TEXT_PATTERN :: "jsstring \<Rightarrow> bool" where
  "UNSAFE_TEXT_PATTERN s \<longleftrightarrow> list_ex unsafe_unit s"

type_synonym setting_values = "(jsstring \<times> jsstring) list"

record function_request =
  fr_key :: jsstring
  fr_description :: jsstring
  fr_writes :: "bool option"
  fr_match :: "(jsstring option \<times> jsstring option) option"
  fr_package :: "fields option"
  fr_function :: "jsstring option"
  fr_settings :: "setting_values option"

subsection \<open>Suggested settings\<close>

definition declared_setting_keys :: "fields \<Rightarrow> jsstring list" where
  "declared_setting_keys pkg =
     List.map_filter (\<lambda>s. case s of VObj r \<Rightarrow> str_of (jget r (js ''key'')) | _ \<Rightarrow> None) (packageSettings pkg)"

definition suggested_value :: "fields \<Rightarrow> jsstring \<times> jsval \<Rightarrow> writ_error + jsstring \<times> jsstring" where
  "suggested_value pkg entry =
     (let name = fst entry in
      res_bind (guard (SETTING_KEY_PATTERN name \<and> name \<in> set (declared_setting_keys pkg)) input_invalid) (\<lambda>_.
      res_bind (req (str_of (snd entry)) input_invalid) (\<lambda>raw.
      let v = js_trim raw in
      res_bind (guard (v \<noteq> []) input_invalid) (\<lambda>_.
      res_bind (guard (length v \<le> MAX_SETTING_VALUE_LENGTH) input_invalid) (\<lambda>_.
      res_bind (guard (\<not> UNSAFE_TEXT_PATTERN v) input_invalid) (\<lambda>_.
        Inr (name, v)))))))"

definition validateSuggestedSettings :: "jsval \<Rightarrow> fields \<Rightarrow> writ_error + setting_values" where
  "validateSuggestedSettings value pkg =
     res_bind (req (obj_of value) input_invalid) (\<lambda>r.
     let entries = filter (\<lambda>(k, v). v \<noteq> VUndef) r in
     res_bind (guard (length entries \<le> MAX_SUGGESTED_SETTINGS) input_invalid) (\<lambda>_.
       map_res (suggested_value pkg) entries))"

subsection \<open>Function requests\<close>

record request_state =
  rs_seen :: "jsstring list"
  rs_packages :: "(jsstring \<times> fields) list"
  rs_suggested :: "(jsstring \<times> setting_values) list"
  rs_functions :: "function_request list"

definition match_field :: "fields \<Rightarrow> string \<Rightarrow> writ_error + jsstring option" where
  "match_field m field =
     (let value = jget m (js field) in
      if value = VUndef then Inr None
      else res_bind (req (str_of value) badRequest) (\<lambda>s. Inr (if js_trim s = [] then None else Some (js_trim s))))"

definition request_match :: "jsval \<Rightarrow> writ_error + (jsstring option \<times> jsstring option) option" where
  "request_match raw =
     (if raw = VUndef then Inr None
      else
        res_bind (req (obj_of raw) badRequest) (\<lambda>m.
        res_bind (match_field m ''name'') (\<lambda>name.
        res_bind (match_field m ''host'') (\<lambda>host.
          Inr (if name = None \<and> host = None then None else Some (name, host))))))"

text \<open>The package of a request, and the function of it that the key calls.\<close>

definition request_package :: "url_api \<Rightarrow> fields \<Rightarrow> (jsstring \<times> fields) list \<Rightarrow>
    writ_error + (fields \<times> jsstring option) option" where
  "request_package api r packages =
     (if jget r (js ''package'') = VUndef then
        res_bind (guard (jget r (js ''function'') = VUndef) input_invalid) (\<lambda>_. Inr None)
      else
        res_bind (validate_either api (jget r (js ''package''))) (\<lambda>pkg.
        res_bind (guard (case map_of packages (package_id pkg) of
            Some earlier \<Rightarrow> json_text (VObj earlier) = json_text (VObj pkg) | None \<Rightarrow> True) input_invalid) (\<lambda>_.
        res_bind (selectPackageFunction (function_names pkg) (jget r (js ''function''))) (\<lambda>fn.
          Inr (Some (pkg, fn))))))"

definition same_suggestions :: "setting_values \<Rightarrow> setting_values \<Rightarrow> bool" where
  "same_suggestions first settings \<longleftrightarrow>
     list_all (\<lambda>(name, value). case map_of first name of Some earlier \<Rightarrow> earlier = value | None \<Rightarrow> True) settings"

definition request_settings :: "jsval \<Rightarrow> fields option \<Rightarrow> (jsstring \<times> setting_values) list \<Rightarrow>
    writ_error + setting_values option" where
  "request_settings raw package suggested =
     (if nullish raw then Inr None
      else
        res_bind (req package input_invalid) (\<lambda>pkg.
        res_bind (validateSuggestedSettings raw pkg) (\<lambda>settings.
        let first = (case map_of suggested (package_id pkg) of Some f \<Rightarrow> f | None \<Rightarrow> []) in
        res_bind (guard (same_suggestions first settings) input_invalid) (\<lambda>_.
          Inr (Some settings)))))"

text \<open>The first value suggested for each setting of a package stays.\<close>

definition note_suggestions :: "fields option \<Rightarrow> setting_values option \<Rightarrow> (jsstring \<times> setting_values) list \<Rightarrow>
    (jsstring \<times> setting_values) list" where
  "note_suggestions package settings suggested =
     (case (package, settings) of
        (Some pkg, Some values) \<Rightarrow>
          (let first = (case map_of suggested (package_id pkg) of Some f \<Rightarrow> f | None \<Rightarrow> []) in
           AList.update (package_id pkg) (first @ filter (\<lambda>(name, v). name \<notin> fst ` set first) values) suggested)
      | _ \<Rightarrow> suggested)"

definition validate_request :: "url_api \<Rightarrow> jsval \<Rightarrow> request_state \<Rightarrow> writ_error + request_state" where
  "validate_request api raw s =
     res_bind (req (obj_of raw) badRequest) (\<lambda>r.
     res_bind (validateFunctionKey (jget r (js ''key''))) (\<lambda>key.
     res_bind (guard (key \<notin> set (rs_seen s)) badRequest) (\<lambda>_.
     res_bind (req (trimmedText (jget r (js ''description''))) badRequest) (\<lambda>description.
     res_bind (guard (length description \<le> MAX_DESCRIPTION_LENGTH) badRequest) (\<lambda>_.
     res_bind (guard (jget r (js ''writes'') = VUndef \<or> bool_of (jget r (js ''writes'')) \<noteq> None) badRequest) (\<lambda>_.
     res_bind (request_match (jget r (js ''match''))) (\<lambda>match.
     res_bind (request_package api r (rs_packages s)) (\<lambda>chosen.
     let package = map_option fst chosen in
     res_bind (request_settings (jget r (js ''settings'')) package (rs_suggested s)) (\<lambda>settings.
       Inr \<lparr>rs_seen = rs_seen s @ [key],
            rs_packages = (case package of Some pkg \<Rightarrow> AList.update (package_id pkg) pkg (rs_packages s) | None \<Rightarrow> rs_packages s),
            rs_suggested = note_suggestions package settings (rs_suggested s),
            rs_functions = rs_functions s @
              [\<lparr>fr_key = key, fr_description = description, fr_writes = bool_of (jget r (js ''writes'')), fr_match = match,
                fr_package = package, fr_function = (case chosen of Some (pkg, fn) \<Rightarrow> fn | None \<Rightarrow> None),
                fr_settings = (if settings = Some [] then None else settings)\<rparr>]\<rparr>)))))))))"

definition no_requests :: request_state where
  "no_requests = \<lparr>rs_seen = [], rs_packages = [], rs_suggested = [], rs_functions = []\<rparr>"

definition validateFunctionRequests :: "url_api \<Rightarrow> jsval \<Rightarrow> writ_error + function_request list" where
  "validateFunctionRequests api rawFunctions =
     res_bind (req (arr_of rawFunctions) badRequest) (\<lambda>xs.
     res_bind (guard (xs \<noteq> []) badRequest) (\<lambda>_.
     res_bind (fold_res (validate_request api) xs no_requests) (\<lambda>s. Inr (rs_functions s))))"

definition validateConnectRequest :: "url_api \<Rightarrow> jsval \<Rightarrow> writ_error + jsstring \<times> function_request list" where
  "validateConnectRequest api request =
     res_bind (req (obj_of request) badRequest) (\<lambda>r.
     res_bind (req (trimmedText (jget r (js ''app''))) badRequest) (\<lambda>app.
     res_bind (guard (length app \<le> MAX_APP_NAME_LENGTH) badRequest) (\<lambda>_.
     res_bind (validateFunctionRequests api (jget r (js ''functions''))) (\<lambda>functions.
       Inr (app, functions)))))"

end
