(* ===== verification/Page_Contract.thy ===== *)
theory Page_Contract
  imports Contract Page_Requests
begin

section \<open>The contract file on the page (web/src/contract.ts)\<close>

text \<open>
  \<open>validateContract\<close> of the page, which checks every package in full where the server's keeps a copy; the connect
  requests of a contract; suggested settings by contract key; and the typed client.  Inputs, settings and
  modes are the records of the server's contract, whose types web/src/types.ts repeats.
\<close>

record writ_cloud =
  wk_workflow_id :: jsval
  wk_function :: "jsstring option"

record writ_function =
  wc_key :: jsstring
  wc_description :: jsstring
  wc_package :: jsstring
  wc_function :: "jsstring option"
  wc_inputs :: "contract_input list"
  wc_outputs :: "jsstring list"
  wc_writes :: bool
  wc_local_network :: "jsstring list"
  wc_settings :: "contract_setting list option"
  wc_mode :: "WritBridgeMode option"
  wc_cloud :: "writ_cloud option option"

record writ_contract =
  wn_generated_at :: jsstring
  wn_generator :: jsstring
  wn_publisher :: "jsstring option option"
  wn_functions :: "writ_function list"
  wn_packages :: "fields list"

subsection \<open>Validation\<close>

definition strings :: "jsval \<Rightarrow> jsstring list option" where
  "strings v = (case v of VArr xs \<Rightarrow> those (map str_of xs) | _ \<Rightarrow> None)"

definition contract_input_entry :: "jsval \<Rightarrow> contract_input list \<Rightarrow> writ_error + contract_input list" where
  "contract_input_entry entry acc =
     res_bind (req (obj_of entry) input_invalid) (\<lambda>e.
     res_bind (req (str_of (jget e (js ''name''))) input_invalid) (\<lambda>name.
     res_bind (guard (js_trim name \<noteq> []) input_invalid) (\<lambda>_.
     res_bind (guard (name \<notin> set (map ci_name acc)) input_invalid) (\<lambda>_.
     res_bind (req (bool_of (jget e (js ''required''))) input_invalid) (\<lambda>required.
     let d = jget e (js ''description'') in
     res_bind (guard (nullish d \<or> str_of d \<noteq> None) input_invalid) (\<lambda>_.
       Inr (acc @ [\<lparr>ci_name = name, ci_required = required, ci_description = str_of d\<rparr>])))))))"

definition validateContractInputs :: "jsval \<Rightarrow> writ_error + contract_input list" where
  "validateContractInputs raw = res_bind (req (arr_of raw) input_invalid) (\<lambda>xs. fold_res contract_input_entry xs [])"

text \<open>The settings a package declares, with their kinds (\<open>text\<close> unless stated).\<close>

definition declared_kinds :: "fields \<Rightarrow> (jsstring \<times> setting_kind) list" where
  "declared_kinds pkg =
     List.map_filter (\<lambda>s. case s of
         VObj r \<Rightarrow> map_option (\<lambda>key. (key, case setting_kind_of (jget r (js ''kind'')) of Some k \<Rightarrow> k | None \<Rightarrow> KindText))
                     (str_of (jget r (js ''key'')))
       | _ \<Rightarrow> None) (packageSettings pkg)"

definition contract_setting_entry :: "(jsstring \<rightharpoonup> setting_kind) \<Rightarrow> jsval \<Rightarrow> contract_setting list \<Rightarrow>
    writ_error + contract_setting list" where
  "contract_setting_entry declared entry acc =
     res_bind (req (obj_of entry) input_invalid) (\<lambda>e.
     res_bind (req (str_of (jget e (js ''key''))) input_invalid) (\<lambda>key.
     res_bind (guard (SETTING_KEY_PATTERN key) input_invalid) (\<lambda>_.
     res_bind (guard (key \<notin> set (map cs_key acc)) input_invalid) (\<lambda>_.
     res_bind (req (declared key) input_invalid) (\<lambda>declaredKind.
     res_bind (req (str_of (jget e (js ''label''))) input_invalid) (\<lambda>label.
     res_bind (guard (js_trim label \<noteq> [] \<and> charCount label \<le> MAX_SETTING_LABEL_LENGTH) input_invalid) (\<lambda>_.
     res_bind (req (setting_kind_of (jget e (js ''kind''))) input_invalid) (\<lambda>kind.
     res_bind (guard (kind = declaredKind) input_invalid) (\<lambda>_.
       Inr (acc @ [\<lparr>cs_key = key, cs_label = label, cs_kind = kind\<rparr>]))))))))))"

definition validateContractSettings :: "jsval \<Rightarrow> fields \<Rightarrow> writ_error + contract_setting list" where
  "validateContractSettings raw pkg =
     res_bind (req (arr_of raw) input_invalid) (\<lambda>xs.
     res_bind (guard (length xs \<le> MAX_PACKAGE_SETTINGS) input_invalid) (\<lambda>_.
       fold_res (contract_setting_entry (map_of (rev (declared_kinds pkg)))) xs []))"

definition validateCloudMapping :: "jsval \<Rightarrow> writ_error + writ_cloud option" where
  "validateCloudMapping raw =
     (if raw = VNull then Inr None
      else
        res_bind (req (obj_of raw) input_invalid) (\<lambda>r.
        let i = jget r (js ''workflow_id''); fn = jget r (js ''function'') in
        res_bind (guard ((case safe_int i of Some n \<Rightarrow> 0 < n | None \<Rightarrow> False) \<or> trimmedText i \<noteq> None) input_invalid) (\<lambda>_.
        res_bind (guard (nullish fn \<or> trimmedText fn \<noteq> None) input_invalid) (\<lambda>_.
          Inr (Some \<lparr>wk_workflow_id = i, wk_function = str_of fn\<rparr>)))))"

definition validateContractFunction :: "jsval \<Rightarrow> fields list \<Rightarrow> writ_error + writ_function" where
  "validateContractFunction raw packages =
     res_bind (req (obj_of raw) input_invalid) (\<lambda>r.
     res_bind (req (str_of (jget r (js ''key''))) input_invalid) (\<lambda>key.
     res_bind (guard (FUNCTION_KEY_PATTERN key) input_invalid) (\<lambda>_.
     res_bind (guard (list_all (\<lambda>s. s \<noteq> [] \<and> s \<notin> set RESERVED_SEGMENTS) (segments key)) input_invalid) (\<lambda>_.
     res_bind (req (str_of (jget r (js ''description''))) input_invalid) (\<lambda>description.
     res_bind (req (str_of (jget r (js ''package''))) input_invalid) (\<lambda>packageId.
     res_bind (req (find (\<lambda>p. Page_Linked.package_id p = packageId) packages) input_invalid) (\<lambda>pkg.
     res_bind (selectPackageFunction (function_names pkg) (jget r (js ''function''))) (\<lambda>chosen.
     res_bind (validateContractInputs (jget r (js ''inputs''))) (\<lambda>inputs.
     res_bind (req (strings (jget r (js ''outputs''))) input_invalid) (\<lambda>outputs.
     res_bind (req (bool_of (jget r (js ''writes''))) input_invalid) (\<lambda>writes.
     res_bind (req (strings (jget r (js ''local_network''))) input_invalid) (\<lambda>localNetwork.
     res_bind (if nullish (jget r (js ''settings'')) then Inr None
               else map_sum id Some (validateContractSettings (jget r (js ''settings'')) pkg)) (\<lambda>settings.
     res_bind (if nullish (jget r (js ''mode'')) then Inr None
               else map_sum id Some (req (mode_of (jget r (js ''mode''))) input_invalid)) (\<lambda>mode.
     res_bind (if jget r (js ''cloud'') = VUndef then Inr None
               else map_sum id Some (validateCloudMapping (jget r (js ''cloud'')))) (\<lambda>cloud.
       Inr \<lparr>wc_key = key, wc_description = description, wc_package = packageId, wc_function = chosen, wc_inputs = inputs,
            wc_outputs = outputs, wc_writes = writes, wc_local_network = localNetwork, wc_settings = settings,
            wc_mode = mode, wc_cloud = cloud\<rparr>)))))))))))))))"

definition contract_package :: "url_api \<Rightarrow> jsval \<Rightarrow> fields list \<Rightarrow> writ_error + fields list" where
  "contract_package api raw packages =
     res_bind (validate_either api raw) (\<lambda>pkg.
     res_bind (guard (Page_Linked.package_id pkg \<notin> Page_Linked.package_id ` set packages) input_invalid) (\<lambda>_.
       Inr (packages @ [pkg])))"

definition contract_function_entry :: "fields list \<Rightarrow> jsval \<Rightarrow> writ_function list \<Rightarrow> writ_error + writ_function list" where
  "contract_function_entry packages raw fns =
     res_bind (validateContractFunction raw packages) (\<lambda>fn.
     res_bind (guard (wc_key fn \<notin> set (map wc_key fns)) input_invalid) (\<lambda>_. Inr (fns @ [fn])))"

definition contract_publisher :: "jsval \<Rightarrow> writ_error + jsstring option option" where
  "contract_publisher publisher =
     (if nullish publisher then Inr None
      else
        res_bind (req (obj_of publisher) input_invalid) (\<lambda>r.
        let name = jget r (js ''name'') in
        res_bind (guard (nullish name \<or> str_of name \<noteq> None) input_invalid) (\<lambda>_. Inr (Some (str_of name)))))"

definition checkNamespaces :: "jsstring list \<Rightarrow> writ_error + unit" where
  "checkNamespaces keys = guard (\<not> list_ex (clashes keys) keys) input_invalid"

definition validateContract :: "url_api \<Rightarrow> (jsstring \<Rightarrow> bool) \<Rightarrow> jsval \<Rightarrow> writ_error + writ_contract" where
  "validateContract api date_ok json =
     res_bind (case json of VStr s \<Rightarrow> req (json_parse s) input_invalid | _ \<Rightarrow> Inr json) (\<lambda>parsed.
     res_bind (req (obj_of parsed) input_invalid) (\<lambda>value.
     res_bind (guard (jget value (js ''format'') = VStr CONTRACT_FORMAT) input_invalid) (\<lambda>_.
     res_bind (req (str_of (jget value (js ''generated_at''))) input_invalid) (\<lambda>generatedAt.
     res_bind (guard (date_ok generatedAt) input_invalid) (\<lambda>_.
     res_bind (req (str_of (jget value (js ''generator''))) input_invalid) (\<lambda>generator.
     res_bind (guard (js_trim generator \<noteq> []) input_invalid) (\<lambda>_.
     res_bind (contract_publisher (jget value (js ''publisher''))) (\<lambda>publisher.
     res_bind (req (arr_of (jget value (js ''packages''))) input_invalid) (\<lambda>rawPackages.
     res_bind (fold_res (contract_package api) rawPackages []) (\<lambda>packages.
     res_bind (req (arr_of (jget value (js ''functions''))) input_invalid) (\<lambda>rawFunctions.
     res_bind (guard (rawFunctions \<noteq> []) input_invalid) (\<lambda>_.
     res_bind (fold_res (contract_function_entry packages) rawFunctions []) (\<lambda>fns.
     res_bind (checkNamespaces (map wc_key fns)) (\<lambda>_.
       Inr \<lparr>wn_generated_at = generatedAt, wn_generator = generator, wn_publisher = publisher,
            wn_functions = fns, wn_packages = packages\<rparr>))))))))))))))"

subsection \<open>Connect requests\<close>

definition js_trim_end :: "jsstring \<Rightarrow> jsstring" where
  "js_trim_end s = rev (dropWhile is_space (rev s))"

text \<open>At most 200 characters; an empty description falls back to the package's name.\<close>

definition consentDescription :: "jsstring \<Rightarrow> jsstring \<Rightarrow> jsstring \<Rightarrow> jsstring" where
  "consentDescription description packageName key =
     (let s = (if js_trim description \<noteq> [] then js_trim description
               else if js_trim packageName \<noteq> [] then js_trim packageName else key) in
      if charCount s \<le> MAX_DESCRIPTION_LENGTH \<and> length s \<le> MAX_DESCRIPTION_LENGTH then s
      else js_trim_end (take (MAX_DESCRIPTION_LENGTH - 1) s) @ [0x2026])"

definition package_of :: "writ_contract \<Rightarrow> writ_function \<Rightarrow> fields" where
  "package_of c fn = (case find (\<lambda>p. Page_Linked.package_id p = wc_package fn) (wn_packages c) of Some p \<Rightarrow> p | None \<Rightarrow> [])"

definition contractRequest :: "writ_contract \<Rightarrow> (jsstring \<times> setting_values) list \<Rightarrow> writ_function \<Rightarrow> function_request" where
  "contractRequest c suggestions fn =
     (let pkg = package_of c fn in
      \<lparr>fr_key = wc_key fn, fr_description = consentDescription (wc_description fn) (packageDisplayName pkg) (wc_key fn),
       fr_writes = Some (wc_writes fn), fr_match = None, fr_package = Some pkg, fr_function = wc_function fn,
       fr_settings = (case map_of suggestions (Page_Linked.package_id pkg) of
           Some values \<Rightarrow> if values = [] then None else Some values | None \<Rightarrow> None)\<rparr>)"

definition contractRequests :: "writ_contract \<Rightarrow> (jsstring \<times> setting_values) list \<Rightarrow> function_request list" where
  "contractRequests c suggestions = map (contractRequest c suggestions) (wn_functions c)"

subsection \<open>Suggestions by contract key\<close>

type_synonym by_package = "(jsstring \<times> setting_values) list"

definition merge_suggestion :: "writ_contract \<Rightarrow> (writ_function \<Rightarrow> writ_error + unit) \<Rightarrow> jsstring \<times> jsval \<Rightarrow>
    by_package \<times> jsstring list \<Rightarrow> writ_error + by_package \<times> jsstring list" where
  "merge_suggestion c accept entry acc =
     (let (byPackage, keys) = acc; key = fst entry in
      if snd entry = VUndef then Inr acc
      else
        res_bind (req (find (\<lambda>fn. wc_key fn = key) (wn_functions c)) badRequest) (\<lambda>fn.
        res_bind (accept fn) (\<lambda>_.
        let pkg = package_of c fn in
        res_bind (validateSuggestedSettings (snd entry) pkg) (\<lambda>clean.
        let merged = (case map_of byPackage (Page_Linked.package_id pkg) of Some m \<Rightarrow> m | None \<Rightarrow> []) in
        res_bind (guard (same_suggestions merged clean) input_invalid) (\<lambda>_.
          Inr (AList.update (Page_Linked.package_id pkg) (merged @ filter (\<lambda>(name, v). name \<notin> fst ` set merged) clean) byPackage,
               keys @ [key]))))))"

definition suggestionsByPackage :: "writ_contract \<Rightarrow> (writ_function \<Rightarrow> writ_error + unit) \<Rightarrow> jsval \<Rightarrow>
    writ_error + by_package \<times> jsstring list" where
  "suggestionsByPackage c accept values =
     res_bind (req (obj_of values) badRequest) (\<lambda>r. fold_res (merge_suggestion c accept) r ([], []))"

definition contractFunctions :: "url_api \<Rightarrow> (jsstring \<Rightarrow> bool) \<Rightarrow> jsval \<Rightarrow> jsval \<Rightarrow> writ_error + function_request list" where
  "contractFunctions api date_ok contract options =
     res_bind (validateContract api date_ok contract) (\<lambda>clean.
     res_bind (req (if options = VUndef then Some [] else obj_of options) badRequest) (\<lambda>opts.
     res_bind (if nullish (jget opts (js ''settings'')) then Inr ([], [])
               else suggestionsByPackage clean (\<lambda>_. Inr ()) (jget opts (js ''settings''))) (\<lambda>(suggestions, keys).
       Inr (contractRequests clean suggestions))))"

end
