(* ===== verification/Page_Package_Urls.thy ===== *)
theory Page_Package_Urls
  imports Page_Package
begin

section \<open>Where the URLs of a package point\<close>

text \<open>
  \<open>checkUrls\<close> finds every placeholder in the scheme and host of every URL of a package, so the value there is a
  setting the visitor confirmed; and what the declarations of an accepted package have in common.
\<close>

subsection \<open>Matches of a placeholder\<close>

lemma starts_with_append [simp]: "starts_with p (p @ s)"
  by (simp add: starts_with_def)

lemma starts_withE: "starts_with p s \<Longrightarrow> s = p @ drop (length p) s"
  by (metis append_take_drop_id starts_with_def)

lemma braces: "js ''{{'' = [123, 123]" "js ''}}'' = [125, 125]" by code_simp+

lemma name_unit_kind: "name_unit u \<Longrightarrow> \<not> is_space u \<and> u \<noteq> 123 \<and> u \<noteq> 125"
  by (auto simp: name_unit_def unit_class_defs word_le_nat_alt)

lemma space_not_brace: "is_space u \<Longrightarrow> u \<noteq> 123 \<and> u \<noteq> 125"
  by (auto simp: is_space_def)

lemma drop_spaces: "list_all is_space sp \<Longrightarrow> s = [] \<or> \<not> is_space (hd s) \<Longrightarrow> skip_spaces (sp @ s) = s"
  by (induction sp) (auto simp: skip_spaces_def dropWhile_eq_self_iff)

lemma take_name: "list_all name_unit n \<Longrightarrow> s = [] \<or> \<not> name_unit (hd s) \<Longrightarrow>
    takeWhile name_unit (n @ s) = n \<and> dropWhile name_unit (n @ s) = s"
  by (induction n) (auto simp: takeWhile_eq_Nil_iff dropWhile_eq_self_iff)

lemma placeholder_here_intro:
  assumes "list_all is_space sp" "list_all is_space sp'" "n \<noteq> []" "list_all name_unit n"
  shows "placeholder_here (js ''{{'' @ sp @ n @ sp' @ js ''}}'' @ post) = Some (n, post)"
proof -
  have "hd (n @ sp' @ js ''}}'' @ post) = hd n" "name_unit (hd n)" using assms by (cases n; simp)+
  then have a: "skip_spaces (sp @ n @ sp' @ js ''}}'' @ post) = n @ sp' @ js ''}}'' @ post"
    using assms name_unit_kind by (intro drop_spaces) auto
  have "\<not> name_unit (hd (sp' @ js ''}}'' @ post))"
    using assms(2) name_unit_kind by (cases sp') (auto simp: braces)
  then have n: "takeWhile name_unit (n @ sp' @ js ''}}'' @ post) = n" "dropWhile name_unit (n @ sp' @ js ''}}'' @ post) = sp' @ js ''}}'' @ post"
    using take_name [OF assms(4)] by blast+
  have "skip_spaces (sp' @ js ''}}'' @ post) = js ''}}'' @ post"
    using assms(2) by (intro drop_spaces) (auto simp: braces is_space_def)
  then show ?thesis using a n assms(3) by (simp add: placeholder_here_def Let_def braces starts_with_def)
qed

lemma placeholder_here_elim:
  assumes "placeholder_here s = Some (n, rest)"
  obtains mid where "s = js ''{{'' @ mid @ js ''}}'' @ rest" "123 \<notin> set mid"
proof -
  let ?a = "drop 2 s" let ?b = "skip_spaces ?a" let ?c = "dropWhile name_unit ?b" let ?d = "skip_spaces ?c"
  have h: "starts_with (js ''{{'') s" "starts_with (js ''}}'') ?d" "n = takeWhile name_unit ?b" "rest = drop 2 ?d"
    using assms by (auto simp: placeholder_here_def Let_def split: if_splits)
  let ?mid = "takeWhile is_space ?a @ takeWhile name_unit ?b @ takeWhile is_space ?c"
  have "?a = takeWhile is_space ?a @ ?b" "?b = takeWhile name_unit ?b @ ?c" "?c = takeWhile is_space ?c @ ?d"
    by (simp_all add: skip_spaces_def)
  then have "?a = ?mid @ ?d" by (metis append_assoc)
  moreover have "s = js ''{{'' @ ?a" "?d = js ''}}'' @ rest"
    using starts_withE [OF h(1)] starts_withE [OF h(2)] h(4) by (simp_all add: braces numeral_2_eq_2)
  ultimately have "s = js ''{{'' @ ?mid @ js ''}}'' @ rest" by (metis append_assoc)
  moreover have "123 \<notin> set ?mid"
    using space_not_brace name_unit_kind by (auto dest!: set_takeWhileD)
  ultimately show ?thesis by (rule that)
qed

text \<open>Two matches do not overlap.\<close>

lemma placeholders_apart:
  assumes "placeholder_here s = Some (n, rest)" "placeholder_here (drop k s) = Some (n', rest')" "0 < k"
  shows "length s - length rest \<le> k"
proof -
  obtain mid where s: "s = js ''{{'' @ mid @ js ''}}'' @ rest" "123 \<notin> set mid"
    using placeholder_here_elim [OF assms(1)] by blast
  obtain mid' where d: "drop k s = 123 # 123 # mid' @ js ''}}'' @ rest'"
    using placeholder_here_elim [OF assms(2)] by (metis append_Cons append_Nil braces(1))
  have k: "s ! k = 123" "s ! Suc k = 123" "Suc k < length s"
  proof -
    have "length (drop k s) \<ge> 2" unfolding d by simp
    then show "Suc k < length s" by simp
    then show "s ! k = 123" "s ! Suc k = 123"
      using d nth_drop [of k s 0] nth_drop [of k s 1] by (simp_all add: braces)
  qed
  have no: "s ! j \<noteq> 123" if "2 \<le> j" "j < length mid + 4" for j
  proof -
    have l: "j - 2 < length (mid @ js ''}}'')" using that by (simp add: braces)
    have "s ! j = (mid @ js ''}}'' @ rest) ! (j - 2)" using that s(1) by (auto simp: braces nth_append nth_Cons' numeral_2_eq_2)
    also have "\<dots> = (mid @ js ''}}'') ! (j - 2)" using nth_append [of "mid @ js ''}}''" rest "j - 2"] l by (simp del: length_append)
    also have "\<dots> \<in> set (mid @ js ''}}'')" using that by (intro nth_mem) (auto simp: braces)
    finally show ?thesis using s(2) by (auto simp: braces)
  qed
  have "length s - length rest = length mid + 4" by (subst s(1)) (simp add: braces)
  moreover have "length mid + 4 \<le> k"
  proof (rule ccontr)
    assume "\<not> length mid + 4 \<le> k"
    then show False using no [of k] no [of "Suc k"] k assms(3) by (cases "k = 1") auto
  qed
  ultimately show ?thesis by simp
qed

lemma rest_drop: "placeholder_here s = Some (n, r) \<Longrightarrow> r = drop (length s - length r) s"
  by (elim placeholder_here_elim) simp

lemma placeholders_complete:
  "placeholder_here (drop k s) = Some (n, rest) \<Longrightarrow> (i + k, n) \<in> set (placeholders i s)"
proof (induction i s arbitrary: k rule: placeholders.induct)
  case (1 i s)
  show ?case
  proof (cases "placeholder_here s")
    case None
    then have "k \<noteq> 0" using 1(3) by (cases k) auto
    then obtain k' where k: "k = Suc k'" by (cases k) auto
    show ?thesis
    proof (cases s)
      case Nil
      then show ?thesis using 1(3) by (simp add: placeholder_here_def starts_with_def braces)
    next
      case (Cons u us)
      then show ?thesis using 1(1) [OF None Cons] 1(3) None k by (subst placeholders.simps) auto
    qed
  next
    case (Some p)
    obtain m r where p: "p = (m, r)" by (cases p)
    note here = Some [unfolded p]
    show ?thesis
    proof (cases "k = 0")
      case True
      then show ?thesis using here 1(3) by (subst placeholders.simps) auto
    next
      case False
      let ?l = "length s - length r"
      have le: "?l \<le> k" using placeholders_apart [OF here 1(3)] False by simp
      have "r = drop ?l s" using here by (rule rest_drop)
      then have "drop (k - ?l) r = drop (k - ?l) (drop ?l s)" by (rule arg_cong)
      then have "drop (k - ?l) r = drop k s" using le by simp
      then have "(i + ?l + (k - ?l), n) \<in> set (placeholders (i + ?l) r)"
        using 1(2) [OF Some p [symmetric]] 1(3) by simp
      then show ?thesis using le by (subst placeholders.simps) (simp add: here)
    qed
  qed
qed


lemma placeholders_from: "(j, n) \<in> set (placeholders i s) \<Longrightarrow> i \<le> j"
proof (induction i s arbitrary: j n rule: placeholders.induct)
  case (1 i s)
  show ?case
  proof (cases "placeholder_here s")
    case None
    show ?thesis
    proof (cases s)
      case Nil
      then show ?thesis using 1(3) None by (simp add: placeholders.simps)
    next
      case (Cons u us)
      then have "(j, n) \<in> set (placeholders (i + 1) us)" using 1(3) None by (subst (asm) placeholders.simps) simp
      from 1(1) [OF None Cons this] show ?thesis by simp
    qed
  next
    case (Some p)
    obtain m r where p: "p = (m, r)" by (cases p)
    have "(j, n) = (i, m) \<or> (j, n) \<in> set (placeholders (i + (length s - length r)) r)"
      using 1(3) Some p by (subst (asm) placeholders.simps) auto
    then show ?thesis using 1(2) [OF Some p [symmetric]] by (elim disjE) (simp, metis add_leD1)
  qed
qed

lemma placeholders_sorted: "sorted (map fst (placeholders i s))"
proof (induction i s rule: placeholders.induct)
  case (1 i s)
  show ?case
  proof (cases "placeholder_here s")
    case None
    then show ?thesis using 1(1) [OF None] by (subst placeholders.simps) (auto split: list.splits)
  next
    case (Some p)
    obtain m r where p: "p = (m, r)" by (cases p)
    have "i \<le> j" if "(j, n) \<in> set (placeholders (i + (length s - length r)) r)" for j n
      using placeholders_from [OF that] by simp
    then show ?thesis using 1(2) [OF Some p [symmetric]] Some p by (subst placeholders.simps) (auto simp: sorted_map)
  qed
qed

lemma takeWhile_sorted: "sorted (map fst xs) \<Longrightarrow> x \<in> set xs \<Longrightarrow> fst x < e \<Longrightarrow> x \<in> set (takeWhile (\<lambda>(i, raw). i < (e::nat)) xs)"
  by (induction xs) auto

subsection \<open>The URLs of a value\<close>

fun url_strings :: "jsval \<Rightarrow> jsstring list" where
  "url_strings (VArr xs) = concat (map url_strings xs)"
| "url_strings (VObj fs) =
     concat (map (\<lambda>kv. case (str_of (snd kv), url_key (fst kv)) of (Some url, True) \<Rightarrow> [url] | _ \<Rightarrow> url_strings (snd kv)) fs)"
| "url_strings _ = []"

lemma checkUrls_strings: "checkUrls settings v \<longleftrightarrow> list_all (checkUrlAuthority settings) (url_strings v)"
proof (induction settings v rule: checkUrls.induct)
  case (1 settings xs)
  then show ?case by (induction xs) auto
next
  case (2 settings fs)
  have "(case (str_of (snd kv), url_key (fst kv)) of (Some url, True) \<Rightarrow> checkUrlAuthority settings url | _ \<Rightarrow> checkUrls settings (snd kv))
      \<longleftrightarrow> list_all (checkUrlAuthority settings)
        (case (str_of (snd kv), url_key (fst kv)) of (Some url, True) \<Rightarrow> [url] | _ \<Rightarrow> url_strings (snd kv))" if "kv \<in> set fs" for kv
    using 2 [OF that] by (auto split: option.splits bool.splits)
  then show ?case by (simp add: list_all_iff)
qed auto

lemma authority_setting:
  assumes "checkUrlAuthority settings url" "url = pre @ js ''{{'' @ sp @ name @ sp' @ js ''}}'' @ post"
    and "list_all is_space sp" "list_all is_space sp'" "name \<noteq> []" "list_all name_unit name" "length pre < authorityEnd url"
  shows "input_name name \<in> set settings"
proof -
  have "placeholder_here (drop (length pre) url) = Some (name, post)"
    unfolding assms(2) using placeholder_here_intro [OF assms(3-6)] by simp
  then have "(0 + length pre, name) \<in> set (placeholders 0 url)" by (rule placeholders_complete)
  then have "(length pre, name) \<in> set (takeWhile (\<lambda>(i, raw). i < authorityEnd url) (placeholders 0 url))"
    using takeWhile_sorted [OF placeholders_sorted] assms(7) by simp
  then show ?thesis using assms(1) by (auto simp: checkUrlAuthority_def list_all_iff)
qed


subsection \<open>What a package declares\<close>

definition key_of :: "jsval \<Rightarrow> jsstring option" where
  "key_of v = (case v of VObj r \<Rightarrow> str_of (jget r (js ''key'')) | _ \<Rightarrow> None)"

definition declared_keys :: "jsval \<Rightarrow> jsstring list" where
  "declared_keys v = (case v of VArr xs \<Rightarrow> List.map_filter key_of xs | _ \<Rightarrow> [])"

definition declared_inputs :: "fields \<Rightarrow> jsstring list" where
  "declared_inputs pkg = (case jget pkg (js ''inputs'') of VObj r \<Rightarrow> own_keys r | _ \<Rightarrow> [])"

abbreviation "declared_credentials pkg \<equiv> declared_keys (jget pkg (js ''credentials''))"
abbreviation "declared_settings pkg \<equiv> declared_keys (jget pkg (js ''settings''))"

lemma fold_keys:
  assumes "fold_res f xs ks = Inr ks'"
    and step: "\<And>x ks ks'. f x ks = Inr ks' \<Longrightarrow> \<exists>k. key x = Some k \<and> ks' = ks @ [k] \<and> P k ks"
  shows "ks' = ks @ List.map_filter key xs \<and>
    (\<forall>k \<in> set (List.map_filter key xs). \<exists>js. P k js) \<and> ((\<forall>k js. P k js \<longrightarrow> k \<notin> set js) \<longrightarrow> distinct ks \<longrightarrow> distinct ks')"
  using assms(1)
proof (induction xs arbitrary: ks)
  case (Cons x xs)
  then obtain m where m: "f x ks = Inr m" "fold_res f xs m = Inr ks'" by (auto simp: result_simps)
  obtain k where k: "key x = Some k" "m = ks @ [k]" "P k ks" using step [OF m(1)] by blast
  show ?case using Cons.IH [OF m(2)] k by auto
qed simp

lemma validate_input_step: "validate_input r n ks = Inr ks' \<Longrightarrow>
    ks' = ks @ [n] \<and> PACKAGE_INPUT_NAME_PATTERN n \<and> \<not> forbidden_name n"
  unfolding validate_input_def Let_def by (auto simp: result_simps split: if_splits)

lemma validateInputs_keys:
  assumes "validateInputs (jget pkg (js ''inputs'')) = Inr ks"
  shows "ks = declared_inputs pkg \<and> length ks \<le> MAX_PACKAGE_INPUTS \<and>
    (\<forall>n \<in> set ks. PACKAGE_INPUT_NAME_PATTERN n \<and> \<not> forbidden_name n)"
proof (cases "nullish (jget pkg (js ''inputs''))")
  case True
  then show ?thesis using assms by (auto simp: validateInputs_def declared_inputs_def nullish_def)
next
  case False
  then obtain r where r: "jget pkg (js ''inputs'') = VObj r" "length (own_keys r) \<le> MAX_PACKAGE_INPUTS"
      "fold_res (validate_input r) (own_keys r) [] = Inr ks"
    using assms unfolding validateInputs_def by (auto simp: result_simps)
  have "ks = [] @ List.map_filter Some (own_keys r) \<and> (\<forall>k \<in> set (List.map_filter Some (own_keys r)). PACKAGE_INPUT_NAME_PATTERN k \<and> \<not> forbidden_name k)"
    using fold_keys [OF r(3), of Some "\<lambda>k _. PACKAGE_INPUT_NAME_PATTERN k \<and> \<not> forbidden_name k"] validate_input_step by blast
  then show ?thesis using r by (simp add: declared_inputs_def map_filter_def)
qed

lemma validate_credential_step: "validate_credential x ks = Inr ks' \<Longrightarrow>
    \<exists>k. key_of x = Some k \<and> ks' = ks @ [k] \<and> k \<notin> set ks \<and> CREDENTIAL_KEY_PATTERN k"
  unfolding validate_credential_def by (auto simp: result_simps key_of_def)

lemma validateCredentials_keys:
  assumes "validateCredentials v = Inr ks"
  shows "ks = declared_keys v \<and> distinct ks"
proof (cases "nullish v")
  case True
  then show ?thesis using assms by (auto simp: validateCredentials_def declared_keys_def nullish_def)
next
  case False
  then obtain xs where xs: "v = VArr xs" "fold_res validate_credential xs [] = Inr ks"
    using assms unfolding validateCredentials_def by (auto simp: result_simps)
  show ?thesis
    using fold_keys [OF xs(2), of key_of "\<lambda>k js. k \<notin> set js"] validate_credential_step
    by (simp add: declared_keys_def xs(1)) blast
qed

lemma validate_setting_step: "validate_setting inputs credentials x ks = Inr ks' \<Longrightarrow>
    \<exists>k. key_of x = Some k \<and> ks' = ks @ [k] \<and> k \<notin> set ks \<and>
      SETTING_KEY_PATTERN k \<and> k \<notin> set RESERVED_INPUT_NAMES \<and> k \<notin> set inputs \<and> k \<notin> set credentials"
  unfolding validate_setting_def by (auto simp: result_simps key_of_def)

lemma validateSettings_keys:
  assumes "validateSettings v inputs credentials = Inr ks"
  shows "ks = declared_keys v \<and> distinct ks \<and>
    (\<forall>k \<in> set ks. SETTING_KEY_PATTERN k \<and> k \<notin> set RESERVED_INPUT_NAMES \<and> k \<notin> set inputs \<and> k \<notin> set credentials)"
proof (cases "nullish v")
  case True
  then show ?thesis using assms by (auto simp: validateSettings_def declared_keys_def nullish_def)
next
  case False
  then obtain xs where xs: "v = VArr xs" "fold_res (validate_setting inputs credentials) xs [] = Inr ks"
    using assms unfolding validateSettings_def by (auto simp: result_simps)
  let ?P = "\<lambda>k js. k \<notin> set js \<and> SETTING_KEY_PATTERN k \<and> k \<notin> set RESERVED_INPUT_NAMES \<and> k \<notin> set inputs \<and> k \<notin> set credentials"
  have "ks = [] @ List.map_filter key_of xs \<and> (\<forall>k \<in> set (List.map_filter key_of xs). \<exists>js. ?P k js) \<and> distinct ks"
    using fold_keys [OF xs(2), of key_of ?P, OF validate_setting_step] by auto
  then show ?thesis by (auto simp: declared_keys_def xs(1))
qed

text \<open>The checks of \<open>validatePackage\<close>, one by one.\<close>

lemma accepted_package:
  assumes "validatePackage http_url v = Inr pkg"
  obtains steps inputs credentials settings
  where "cloneJsonValue v [] MAX_PACKAGE_DEPTH = Inr (VObj pkg)" "utf8Length (json_text (VObj pkg)) \<le> MAX_PACKAGE_BYTES"
    "validateSteps (jget pkg (js ''steps'')) = Inr steps" "validateInputs (jget pkg (js ''inputs'')) = Inr inputs"
    "validateCredentials (jget pkg (js ''credentials'')) = Inr credentials"
    "validateSettings (jget pkg (js ''settings'')) inputs credentials = Inr settings"
    "validateLocalNetwork (jget pkg (js ''local_network'')) = Inr ()"
    "validateText pkg steps credentials = Inr ()" "validateUrlAuthorities pkg settings = Inr ()"
proof -
  have "cloneJsonValue v [] MAX_PACKAGE_DEPTH = Inr w" if "map_sum (\<lambda>_. input_invalid) id (cloneJsonValue v [] MAX_PACKAGE_DEPTH) = Inr w" for w
    using that by (cases "cloneJsonValue v [] MAX_PACKAGE_DEPTH") simp_all
  then show ?thesis
    using assms that unfolding validatePackage_def by (fastforce simp: result_simps)
qed

lemma validateSteps_ok:
  assumes "validateSteps v = Inr steps"
  shows "v = VArr steps \<and> steps \<noteq> [] \<and> length steps \<le> MAX_PACKAGE_STEPS \<and>
    (\<forall>s \<in> set steps. \<exists>r t. s = VObj r \<and> jget r (js ''type'') = VStr t \<and> t \<noteq> [] \<and> t \<notin> set REFUSED_PACKAGE_STEP_TYPES)"
proof -
  have each: "\<forall>s \<in> set xs. validateStep s () = Inr ()" if "fold_res validateStep xs () = Inr ()" for xs
    using that by (induction xs) (auto simp: result_simps)
  have v: "v = VArr steps" "steps \<noteq> []" "length steps \<le> MAX_PACKAGE_STEPS" "fold_res validateStep steps () = Inr ()"
    using assms unfolding validateSteps_def by (auto simp: result_simps)
  show ?thesis using each [OF v(4)] v(1-3) by (auto simp: validateStep_def result_simps)
qed

text \<open>C35: in a package the page accepts, the declarations agree: credentials and settings have each key once,
  a setting is neither an input nor a credential nor a reserved name, an input can be passed by a call, every step
  is of a type a website's workflow may use, and the whole is within its bounds.\<close>

theorem accepted_package_coherent:
  assumes "validatePackage http_url v = Inr pkg"
  shows "distinct (declared_credentials pkg) \<and> distinct (declared_settings pkg) \<and>
    set (declared_settings pkg) \<inter> (set (declared_inputs pkg) \<union> set (declared_credentials pkg) \<union> set RESERVED_INPUT_NAMES) = {} \<and>
    (\<forall>n \<in> set (declared_inputs pkg). PACKAGE_INPUT_NAME_PATTERN n \<and> \<not> forbidden_name n) \<and>
    (\<exists>steps. jget pkg (js ''steps'') = VArr steps \<and> steps \<noteq> [] \<and> length steps \<le> MAX_PACKAGE_STEPS \<and>
      (\<forall>s \<in> set steps. \<exists>r t. s = VObj r \<and> jget r (js ''type'') = VStr t \<and> t \<notin> set REFUSED_PACKAGE_STEP_TYPES)) \<and>
    utf8Length (json_text (VObj pkg)) \<le> MAX_PACKAGE_BYTES"
  using assms
proof (rule accepted_package)
  fix steps inputs credentials settings
  assume "validateSteps (jget pkg (js ''steps'')) = Inr steps" "validateInputs (jget pkg (js ''inputs'')) = Inr inputs"
    "validateCredentials (jget pkg (js ''credentials'')) = Inr credentials"
    "validateSettings (jget pkg (js ''settings'')) inputs credentials = Inr settings"
    "utf8Length (json_text (VObj pkg)) \<le> MAX_PACKAGE_BYTES"
  then show ?thesis
    using validateSteps_ok validateInputs_keys validateCredentials_keys validateSettings_keys by fastforce
qed

text \<open>C34: where the requests of an accepted package go is not for a call to say: a placeholder in the scheme or
  host of any URL in it, at any depth, is a declared setting, so neither a declared input nor a credential.\<close>

theorem accepted_urls_stay_put:
  assumes "validatePackage http_url v = Inr pkg" "url \<in> set (url_strings (VObj pkg))"
    and "url = pre @ js ''{{'' @ sp @ name @ sp' @ js ''}}'' @ post"
    and "list_all is_space sp" "list_all is_space sp'" "name \<noteq> []" "list_all name_unit name" "length pre < authorityEnd url"
  shows "input_name name \<in> set (declared_settings pkg) \<and> input_name name \<notin> set (declared_inputs pkg)"
  using assms(1)
proof (rule accepted_package)
  fix inputs credentials settings
  assume a: "validateInputs (jget pkg (js ''inputs'')) = Inr inputs"
    "validateSettings (jget pkg (js ''settings'')) inputs credentials = Inr settings"
    "validateUrlAuthorities pkg settings = Inr ()"
  have "checkUrlAuthority settings url"
    using a(3) assms(2) by (simp add: validateUrlAuthorities_def checkUrls_strings list_all_iff del: checkUrls.simps url_strings.simps)
  then show ?thesis
    using authority_setting assms(3-8) validateInputs_keys [OF a(1)] validateSettings_keys [OF a(2)] by fastforce
qed

end
