(* ===== verification/Page_Contract_Connects.thy ===== *)
theory Page_Contract_Connects
  imports Page_Contract Page_Package_Urls
begin

section \<open>A contract that validates connects\<close>

text \<open>
  The requests \<open>contractFunctions\<close> answers pass the checks of \<open>connect()\<close> unchanged: the two validations, of the
  contract file and of the requests, agree.
\<close>

subsection \<open>Trimmed text\<close>

definition trimmed :: "jsstring \<Rightarrow> bool" where
  "trimmed s \<longleftrightarrow> s \<noteq> [] \<and> \<not> is_space (hd s) \<and> \<not> is_space (last s)"

lemma trimmed_trim: "trimmed s \<Longrightarrow> js_trim s = s"
proof -
  have d: "t \<noteq> [] \<Longrightarrow> \<not> is_space (hd t) \<Longrightarrow> dropWhile is_space t = t" for t by (cases t) auto
  assume t: "trimmed s"
  then have "dropWhile is_space s = s" by (intro d) (auto simp: trimmed_def)
  moreover have "dropWhile is_space (rev s) = rev s" using t by (intro d) (auto simp: trimmed_def hd_rev)
  ultimately show ?thesis by (simp add: js_trim_def)
qed

lemma js_trim_trimmed: "js_trim s \<noteq> [] \<Longrightarrow> trimmed (js_trim s)"
proof -
  let ?d = "dropWhile is_space s" let ?e = "dropWhile is_space (rev ?d)"
  assume "js_trim s \<noteq> []"
  then have e: "?e \<noteq> []" "js_trim s = rev ?e" by (simp_all add: js_trim_def)
  have "\<not> is_space (hd ?e)" using e(1) by (rule hd_dropWhile)
  moreover have ne: "?d \<noteq> []" using e(1) by (metis dropWhile.simps(1) rev.simps(1))
  have "last ?e = last (rev ?d)" using e(1) by (metis last_appendR takeWhile_dropWhile_id)
  then have "last ?e = hd ?d" using ne by (simp add: last_rev)
  moreover have "\<not> is_space (hd ?d)" using ne by (rule hd_dropWhile)
  ultimately show ?thesis using e by (simp add: trimmed_def hd_rev last_rev)
qed

lemma js_trim_js_trim [simp]: "js_trim (js_trim s) = js_trim s"
  using js_trim_trimmed trimmed_trim by (cases "js_trim s = []") auto

lemma trimmedText_Some: "trimmedText v = Some s \<Longrightarrow> trimmed s"
  by (auto simp: trimmedText_def js_trim_trimmed split: jsval.splits if_splits)

lemma trimmedText_trimmed: "trimmed s \<Longrightarrow> trimmedText (VStr s) = Some s"
  by (auto simp: trimmedText_def trimmed_trim trimmed_def)

subsection \<open>Validating a package again\<close>

lemma json_part_VUndef [simp]: "json_part v = VUndef \<longleftrightarrow> v = VUndef"
  by (cases v) auto

lemma json_part_again: "json_part (json_part v) = json_part v"
proof (induction v rule: json_part.induct)
  case (2 fs)
  let ?g = "\<lambda>kv. (fst kv, json_part (snd kv))" and ?fs = "filter (\<lambda>kv. snd kv \<noteq> VUndef) fs"
  have "filter (\<lambda>kv. snd kv \<noteq> VUndef) (map ?g ?fs) = map ?g ?fs" by (intro filter_True) auto
  moreover have "map ?g (map ?g ?fs) = map ?g ?fs"
    using 2 by (auto simp: comp_def)
  ultimately show ?case by (simp add: case_prod_beta)
qed auto

lemma cloneable_part: "cloneable d v \<Longrightarrow> cloneable d (json_part v)"
  by (induction d v rule: cloneable.induct) (auto simp: list_all_iff)

lemma clone_again: "cloneJsonValue v p md = Inr c \<Longrightarrow> cloneJsonValue c q md = Inr c"
  by (auto simp: cloneJsonValue_Inr json_part_again cloneable_part)

lemma cloned_fields:
  assumes "map_sum (\<lambda>_. e) id (cloneJsonValue v p md) = Inr c"
  shows "map_sum (\<lambda>_. e) id (cloneJsonValue c q md) = Inr c"
  using assms clone_again [of v p md c q] by (cases "cloneJsonValue v p md") auto

text \<open>A check that starts from a copy of its argument, and answers the copy.\<close>

lemma copy_again:
  assumes "res_bind (guard (isPlainObject v) e) (\<lambda>_. res_bind (map_sum (\<lambda>_. e) id (cloneJsonValue v [] md)) g) = Inr pkg"
    and "\<And>c. g c = Inr pkg \<Longrightarrow> c = VObj pkg"
  shows "res_bind (guard (isPlainObject (VObj pkg)) e) (\<lambda>_. res_bind (map_sum (\<lambda>_. e) id (cloneJsonValue (VObj pkg) [] md)) g) = Inr pkg"
proof -
  obtain c where c: "map_sum (\<lambda>_. e) id (cloneJsonValue v [] md) = Inr c" "g c = Inr pkg"
    using assms(1) by (auto simp: result_simps)
  have "c = VObj pkg" using assms(2) c(2) by blast
  then show ?thesis using cloned_fields [OF c(1), of "[]"] c(2) by simp
qed

lemma validatePackage_again: "Page_Package.validatePackage h v = Inr pkg \<Longrightarrow> Page_Package.validatePackage h (VObj pkg) = Inr pkg"
  unfolding Page_Package.validatePackage_def by (rule copy_again) (auto simp only: result_simps of_eq_Some sum.inject)

lemma validateLinkedPackage_again: "validateLinkedPackage api v = Inr pkg \<Longrightarrow> validateLinkedPackage api (VObj pkg) = Inr pkg"
  unfolding validateLinkedPackage_def Let_def by (rule copy_again) (auto simp only: result_simps of_eq_Some sum.inject)

lemma package_format:
  "Page_Package.validatePackage h v = Inr pkg \<Longrightarrow> jget pkg (js ''format'') = VStr PACKAGE_FORMAT"
  "validateLinkedPackage api v = Inr pkg \<Longrightarrow> jget pkg (js ''format'') = VStr LINKED_PACKAGE_FORMAT"
  unfolding Page_Package.validatePackage_def validateLinkedPackage_def Let_def by (auto simp only: result_simps of_eq_Some sum.inject)

lemma validate_either_again: "validate_either api v = Inr pkg \<Longrightarrow> validate_either api (VObj pkg) = Inr pkg"
proof -
  have "PACKAGE_FORMAT \<noteq> LINKED_PACKAGE_FORMAT" by code_simp
  moreover assume "validate_either api v = Inr pkg"
  ultimately show ?thesis
    using validatePackage_again validateLinkedPackage_again package_format
    unfolding validate_either_def by (auto simp: isLinkedPackage_def split: if_splits)
qed

lemma select_again:
  "selectPackageFunction names raw = Inr fn \<Longrightarrow> selectPackageFunction names (case fn of None \<Rightarrow> VUndef | Some n \<Rightarrow> VStr n) = Inr fn"
  unfolding selectPackageFunction_def
  by (auto simp: result_simps nullish_def trimmedText_trimmed dest: trimmedText_Some split: if_splits)


subsection \<open>Descriptions\<close>

lemma trim_end_trimmed:
  assumes "s \<noteq> []" "\<not> is_space (hd s)"
  shows "js_trim_end s \<noteq> [] \<and> hd (js_trim_end s) = hd s \<and> length (js_trim_end s) \<le> length s"
proof -
  obtain u us where s: "s = u # us" using assms(1) by (cases s) auto
  have "js_trim_end (u # us) = u # rev (dropWhile is_space (rev us))" if "\<not> is_space u"
    using that by (auto simp: js_trim_end_def dropWhile_append)
  then show ?thesis using s assms(2) length_dropWhile_le [of is_space "rev us"] by auto
qed

lemma consentDescription_ok:
  assumes "trimmed key"
  shows "trimmed (consentDescription d n key) \<and> length (consentDescription d n key) \<le> MAX_DESCRIPTION_LENGTH"
proof -
  let ?s = "if js_trim d \<noteq> [] then js_trim d else if js_trim n \<noteq> [] then js_trim n else key"
  have t: "trimmed ?s" using assms js_trim_trimmed by auto
  show ?thesis
  proof (cases "charCount ?s \<le> MAX_DESCRIPTION_LENGTH \<and> length ?s \<le> MAX_DESCRIPTION_LENGTH")
    case True
    then show ?thesis using t by (simp only: consentDescription_def Let_def) simp
  next
    case False
    let ?t = "take (MAX_DESCRIPTION_LENGTH - 1) ?s"
    have ne: "?t \<noteq> []" "\<not> is_space (hd ?t)" using t by (auto simp: trimmed_def MAX_DESCRIPTION_LENGTH_def)
    have c: "consentDescription d n key = js_trim_end ?t @ [0x2026]"
      using False by (simp only: consentDescription_def Let_def if_False)
    have "length ?t \<le> 199" by (simp add: MAX_DESCRIPTION_LENGTH_def)
    then show ?thesis
      using trim_end_trimmed [OF ne] ne unfolding c by (auto simp: trimmed_def is_space_def MAX_DESCRIPTION_LENGTH_def)
  qed
qed

subsection \<open>A contract's packages and functions\<close>

definition contract_ready :: "url_api \<Rightarrow> fields list \<Rightarrow> writ_function \<Rightarrow> bool" where
  "contract_ready api packages fn \<longleftrightarrow>
     FUNCTION_KEY_PATTERN (wc_key fn) \<and>
     (\<exists>pkg. find (\<lambda>p. Page_Linked.package_id p = wc_package fn) packages = Some pkg \<and> validate_either api (VObj pkg) = Inr pkg \<and>
       selectPackageFunction (function_names pkg) (case wc_function fn of None \<Rightarrow> VUndef | Some n \<Rightarrow> VStr n) = Inr (wc_function fn))"

lemma contract_packages_ok:
  assumes "fold_res (contract_package api) raws [] = Inr packages"
  shows "distinct (map Page_Linked.package_id packages) \<and> (\<forall>pkg \<in> set packages. validate_either api (VObj pkg) = Inr pkg)"
  by (rule fold_res_invariant [OF assms])
    (auto simp: contract_package_def result_simps dest: validate_either_again)

lemma contract_function_ready:
  assumes "validateContractFunction raw packages = Inr fn" "\<forall>pkg \<in> set packages. validate_either api (VObj pkg) = Inr pkg"
  shows "contract_ready api packages fn"
proof -
  from assms(1) obtain r key packageId pkg chosen where
      k: "FUNCTION_KEY_PATTERN key" "find (\<lambda>p. Page_Linked.package_id p = packageId) packages = Some pkg"
        "selectPackageFunction (function_names pkg) (jget r (js ''function'')) = Inr chosen"
    and fn: "wc_key fn = key" "wc_package fn = packageId" "wc_function fn = chosen"
    unfolding validateContractFunction_def res_bind_eq_Inr req_eq guard_eq sum.inject
    by (elim exE conjE, hypsubst) (simp only: writ_function.simps)
  have "pkg \<in> set packages" using k(2) by (auto simp: find_Some_iff)
  then show ?thesis using k select_again [OF k(3)] assms(2) by (auto simp: contract_ready_def fn)
qed

lemma validateContract_ready:
  assumes "Page_Contract.validateContract api date_ok json = Inr c"
  shows "wn_functions c \<noteq> [] \<and> distinct (map wc_key (wn_functions c)) \<and> distinct (map Page_Linked.package_id (wn_packages c)) \<and>
    (\<forall>fn \<in> set (wn_functions c). contract_ready api (wn_packages c) fn)"
proof -
  from assms obtain rawP ps rawF fns where
      P: "fold_res (contract_package api) rawP [] = Inr ps"
    and F: "rawF \<noteq> []" "fold_res (contract_function_entry ps) rawF [] = Inr fns"
    and c: "wn_functions c = fns" "wn_packages c = ps"
    unfolding Page_Contract.validateContract_def res_bind_eq_Inr req_eq guard_eq sum.inject
    by (elim exE conjE, hypsubst) (simp only: writ_contract.simps)
  note ok = contract_packages_ok [OF P]
  have step: "contract_function_entry ps e acc = Inr acc' \<Longrightarrow> length acc' = Suc (length acc)" for e acc acc'
    by (auto simp: contract_function_entry_def result_simps)
  have "length fns = length rawF" using length_fold_res [OF F(2), of length] step by simp
  then have "fns \<noteq> []" using F(1) by auto
  moreover have "distinct (map wc_key fns) \<and> (\<forall>fn \<in> set fns. contract_ready api ps fn)"
    by (rule fold_res_invariant [OF F(2)])
      (use ok in \<open>auto simp: contract_function_entry_def result_simps intro: contract_function_ready\<close>)
  ultimately show ?thesis using ok by (simp add: c)
qed


subsection \<open>Requests that pass\<close>

text \<open>A request as the value \<open>connect()\<close> is given.\<close>

definition settings_value :: "setting_values \<Rightarrow> jsval" where
  "settings_value values = VObj (map (\<lambda>(name, v). (name, VStr v)) values)"

definition request_value :: "function_request \<Rightarrow> jsval" where
  "request_value r = VObj
     ([(js ''key'', VStr (fr_key r)), (js ''description'', VStr (fr_description r))]
      @ optional_field ''writes'' (map_option VBool (fr_writes r))
      @ optional_field ''package'' (map_option VObj (fr_package r))
      @ optional_field ''function'' (map_option VStr (fr_function r))
      @ optional_field ''settings'' (map_option settings_value (fr_settings r)))"

definition passing :: "url_api \<Rightarrow> function_request \<Rightarrow> bool" where
  "passing api r \<longleftrightarrow>
     FUNCTION_KEY_PATTERN (fr_key r) \<and> trimmed (fr_description r) \<and> length (fr_description r) \<le> MAX_DESCRIPTION_LENGTH \<and>
     fr_writes r \<noteq> None \<and> fr_match r = None \<and>
     (\<exists>pkg. fr_package r = Some pkg \<and> validate_either api (VObj pkg) = Inr pkg \<and>
       selectPackageFunction (function_names pkg) (case fr_function r of None \<Rightarrow> VUndef | Some n \<Rightarrow> VStr n) = Inr (fr_function r) \<and>
       (\<forall>vs. fr_settings r = Some vs \<longrightarrow>
          vs \<noteq> [] \<and> distinct (map fst vs) \<and> validateSuggestedSettings (settings_value vs) pkg = Inr vs))"

definition request_id :: "function_request \<Rightarrow> jsstring" where
  "request_id r = (case fr_package r of Some pkg \<Rightarrow> Page_Linked.package_id pkg | None \<Rightarrow> [])"

text \<open>Requests of one package carry the same package and the same suggestions.\<close>

definition agree :: "function_request \<Rightarrow> function_request \<Rightarrow> bool" where
  "agree r r' \<longleftrightarrow> (request_id r = request_id r' \<longrightarrow> fr_package r = fr_package r' \<and> fr_settings r = fr_settings r')"

lemma jget_optional: "jget (optional_field name v @ fs) k =
    (case v of Some x \<Rightarrow> if js name = k then x else jget fs k | None \<Rightarrow> jget fs k)"
  by (cases v) (simp_all add: optional_field_def)

definition request_fields :: "function_request \<Rightarrow> fields" where
  "request_fields r = (js ''key'', VStr (fr_key r)) # (js ''description'', VStr (fr_description r))
      # optional_field ''writes'' (map_option VBool (fr_writes r))
      @ optional_field ''package'' (map_option VObj (fr_package r))
      @ optional_field ''function'' (map_option VStr (fr_function r))
      @ optional_field ''settings'' (map_option settings_value (fr_settings r)) @ []"

lemma request_value_fields: "request_value r = VObj (request_fields r)"
  by (simp add: request_value_def request_fields_def)

lemma jget_request:
  "jget (request_fields r) (js ''key'') = VStr (fr_key r)" "jget (request_fields r) (js ''description'') = VStr (fr_description r)"
  "jget (request_fields r) (js ''writes'') = (case fr_writes r of None \<Rightarrow> VUndef | Some w \<Rightarrow> VBool w)"
  "jget (request_fields r) (js ''match'') = VUndef"
  "jget (request_fields r) (js ''package'') = (case fr_package r of None \<Rightarrow> VUndef | Some p \<Rightarrow> VObj p)"
  "jget (request_fields r) (js ''function'') = (case fr_function r of None \<Rightarrow> VUndef | Some n \<Rightarrow> VStr n)"
  "jget (request_fields r) (js ''settings'') = (case fr_settings r of None \<Rightarrow> VUndef | Some vs \<Rightarrow> settings_value vs)"
  unfolding request_fields_def jget_Cons jget_optional jget_Nil inherited_js js_eq
  by (simp_all split: option.splits)

lemma same_suggestions_self: "distinct (map fst vs) \<Longrightarrow> same_suggestions vs vs"
  by (auto simp: same_suggestions_def list_all_iff split: option.splits dest: eq_key_imp_eq_value)

lemma same_suggestions_Nil [simp]: "same_suggestions [] vs"
  by (simp add: same_suggestions_def list_all_iff case_prod_beta)


text \<open>One passing request leaves the checks as it came.\<close>

definition after_request :: "request_state \<Rightarrow> function_request \<Rightarrow> request_state" where
  "after_request s r =
     \<lparr>rs_seen = rs_seen s @ [fr_key r],
      rs_packages = (case fr_package r of Some pkg \<Rightarrow> AList.update (Page_Linked.package_id pkg) pkg (rs_packages s) | None \<Rightarrow> rs_packages s),
      rs_suggested = note_suggestions (fr_package r) (fr_settings r) (rs_suggested s),
      rs_functions = rs_functions s @ [r]\<rparr>"

lemma request_package_passing:
  assumes "passing api r" "\<And>p. map_of packages (request_id r) = Some p \<Longrightarrow> fr_package r = Some p"
  shows "request_package api (request_fields r) packages = Inr (map_option (\<lambda>pkg. (pkg, fr_function r)) (fr_package r))"
proof -
  obtain pkg where pkg: "fr_package r = Some pkg" "validate_either api (VObj pkg) = Inr pkg"
      "selectPackageFunction (function_names pkg) (case fr_function r of None \<Rightarrow> VUndef | Some n \<Rightarrow> VStr n) = Inr (fr_function r)"
    using assms(1) by (auto simp: passing_def)
  have "case map_of packages (Page_Linked.package_id pkg) of Some earlier \<Rightarrow> json_text (VObj earlier) = json_text (VObj pkg) | None \<Rightarrow> True"
    using assms(2) pkg(1) by (auto simp: request_id_def split: option.splits simp del: json_text.simps)
  then show ?thesis unfolding request_package_def jget_request pkg(1) option.case by (simp add: pkg del: json_text.simps)
qed

lemma request_settings_passing:
  assumes "passing api r" "\<And>f. map_of suggested (request_id r) = Some f \<Longrightarrow> fr_settings r = Some f"
  shows "request_settings (case fr_settings r of None \<Rightarrow> VUndef | Some vs \<Rightarrow> settings_value vs) (fr_package r) suggested = Inr (fr_settings r)"
proof (cases "fr_settings r")
  case None
  then show ?thesis by (simp add: request_settings_def nullish_def)
next
  case (Some vs)
  obtain pkg where pkg: "fr_package r = Some pkg" "distinct (map fst vs)" "validateSuggestedSettings (settings_value vs) pkg = Inr vs"
    using assms(1) Some by (auto simp: passing_def)
  have "same_suggestions (case map_of suggested (Page_Linked.package_id pkg) of Some f \<Rightarrow> f | None \<Rightarrow> []) vs"
    using assms(2) Some pkg(1,2) by (auto simp: request_id_def same_suggestions_self split: option.splits)
  then show ?thesis using pkg by (simp add: request_settings_def Some nullish_def settings_value_def)
qed

lemma validate_request_passing:
  assumes "passing api r" "fr_key r \<notin> set (rs_seen s)"
    and "\<And>p. map_of (rs_packages s) (request_id r) = Some p \<Longrightarrow> fr_package r = Some p"
    and "\<And>f. map_of (rs_suggested s) (request_id r) = Some f \<Longrightarrow> fr_settings r = Some f"
  shows "validate_request api (request_value r) s = Inr (after_request s r)"
proof -
  obtain w pkg where r: "FUNCTION_KEY_PATTERN (fr_key r)" "trimmed (fr_description r)" "length (fr_description r) \<le> MAX_DESCRIPTION_LENGTH"
      "fr_writes r = Some w" "fr_match r = None" "fr_package r = Some pkg" "fr_settings r \<noteq> Some []"
    using assms(1) by (auto simp: passing_def)
  have same: "\<lparr>fr_key = fr_key r, fr_description = fr_description r, fr_writes = Some w, fr_match = None,
      fr_package = Some pkg, fr_function = fr_function r, fr_settings = fr_settings r\<rparr> = r"
    using r by (intro function_request.equality) simp_all
  have p: "request_package api (request_fields r) (rs_packages s) = Inr (Some (pkg, fr_function r))"
    using request_package_passing [OF assms(1), of "rs_packages s"] assms(3) r(6) by simp
  have g: "request_settings (case fr_settings r of None \<Rightarrow> VUndef | Some vs \<Rightarrow> settings_value vs) (Some pkg) (rs_suggested s) = Inr (fr_settings r)"
    using request_settings_passing [OF assms(1), of "rs_suggested s"] assms(4) r(6) by simp
  show ?thesis
    unfolding validate_request_def request_value_fields of_simps req_simps res_bind_simps jget_request p Let_def
    using r assms(2) same
    by (simp add: validateFunctionKey_def trimmedText_trimmed request_match_def after_request_def g)
qed

lemma fold_requests_pass:
  assumes "\<forall>r \<in> set rs. passing api r" "distinct (rs_seen s @ map fr_key rs)" "\<forall>r \<in> set rs. \<forall>r' \<in> set rs. agree r r'"
    and "\<forall>r \<in> set rs. \<forall>p. map_of (rs_packages s) (request_id r) = Some p \<longrightarrow> fr_package r = Some p"
    and "\<forall>r \<in> set rs. \<forall>f. map_of (rs_suggested s) (request_id r) = Some f \<longrightarrow> fr_settings r = Some f"
  shows "\<exists>s'. fold_res (validate_request api) (map request_value rs) s = Inr s' \<and> rs_functions s' = rs_functions s @ rs"
  using assms
proof (induction rs arbitrary: s)
  case (Cons r rs)
  have one: "validate_request api (request_value r) s = Inr (after_request s r)"
    using Cons.prems by (intro validate_request_passing) auto
  obtain pkg where pkg: "fr_package r = Some pkg" using Cons.prems(1) by (auto simp: passing_def)
  have id: "request_id r = Page_Linked.package_id pkg" by (simp add: request_id_def pkg)
  let ?s = "after_request s r"
  have pkgs: "map_of (rs_packages ?s) k = (if k = request_id r then Some pkg else map_of (rs_packages s) k)" for k
    by (simp add: after_request_def pkg id update_conv')
  have p: "\<forall>q \<in> set rs. \<forall>p. map_of (rs_packages ?s) (request_id q) = Some p \<longrightarrow> fr_package q = Some p"
  proof (intro ballI allI impI)
    fix q p assume q: "q \<in> set rs" and f: "map_of (rs_packages ?s) (request_id q) = Some p"
    have "agree r q" using Cons.prems(3) q by simp
    moreover have "map_of (rs_packages s) (request_id q) = Some p \<Longrightarrow> fr_package q = Some p" using Cons.prems(4) q by simp
    ultimately show "fr_package q = Some p"
      using f pkg unfolding pkgs by (cases "request_id q = request_id r") (auto simp: agree_def)
  qed
  have self: "map_of (rs_suggested s) (request_id r) = Some f \<Longrightarrow> fr_settings r = Some f" for f using Cons.prems(5) by auto
  have sugg: "map_of (rs_suggested ?s) k =
      (case fr_settings r of None \<Rightarrow> map_of (rs_suggested s) k
       | Some vs \<Rightarrow> if k = request_id r then Some vs else map_of (rs_suggested s) k)" for k
  proof (cases "fr_settings r")
    case (Some vs)
    have "(case map_of (rs_suggested s) (request_id r) of Some f \<Rightarrow> f | None \<Rightarrow> []) @
        filter (\<lambda>(name, v). name \<notin> fst ` set (case map_of (rs_suggested s) (request_id r) of Some f \<Rightarrow> f | None \<Rightarrow> [])) vs = vs"
      using self Some by (auto split: option.splits simp: filter_empty_conv case_prod_beta)
    then show ?thesis by (simp add: after_request_def note_suggestions_def pkg Some id update_conv' Let_def)
  qed (simp add: after_request_def note_suggestions_def pkg)
  have g: "\<forall>q \<in> set rs. \<forall>f. map_of (rs_suggested ?s) (request_id q) = Some f \<longrightarrow> fr_settings q = Some f"
  proof (intro ballI allI impI)
    fix q f assume q: "q \<in> set rs" and f: "map_of (rs_suggested ?s) (request_id q) = Some f"
    have "agree r q" using Cons.prems(3) q by simp
    moreover have "map_of (rs_suggested s) (request_id q) = Some f \<Longrightarrow> fr_settings q = Some f" using Cons.prems(5) q by simp
    ultimately show "fr_settings q = Some f"
      using f unfolding sugg by (cases "request_id q = request_id r"; cases "fr_settings r") (auto simp: agree_def split: option.splits)
  qed
  have "\<exists>s'. fold_res (validate_request api) (map request_value rs) ?s = Inr s' \<and> rs_functions s' = rs_functions ?s @ rs"
    using Cons.prems(1-3) p g by (intro Cons.IH) (simp_all add: after_request_def)
  then show ?case using one by (auto simp: after_request_def)
qed simp

lemma requests_pass:
  assumes "rs \<noteq> []" "\<forall>r \<in> set rs. passing api r" "distinct (map fr_key rs)" "\<forall>r \<in> set rs. \<forall>r' \<in> set rs. agree r r'"
  shows "validateFunctionRequests api (VArr (map request_value rs)) = Inr rs"
  using fold_requests_pass [of rs api no_requests] assms
  by (auto simp: validateFunctionRequests_def no_requests_def)


subsection \<open>Suggestions\<close>

definition settles :: "fields \<Rightarrow> setting_values \<Rightarrow> bool" where
  "settles pkg vs \<longleftrightarrow> (\<forall>(name, v) \<in> set vs. suggested_value pkg (name, VStr v) = Inr (name, v))"

lemma suggested_value_again:
  assumes "suggested_value pkg e = Inr (name, v)"
  shows "name = fst e \<and> suggested_value pkg (name, VStr v) = Inr (name, v)"
proof -
  obtain raw where "SETTING_KEY_PATTERN (fst e) \<and> fst e \<in> set (declared_setting_keys pkg)" "js_trim raw \<noteq> []"
      "length (js_trim raw) \<le> MAX_SETTING_VALUE_LENGTH" "\<not> UNSAFE_TEXT_PATTERN (js_trim raw)" "name = fst e" "v = js_trim raw"
    using assms unfolding suggested_value_def Let_def res_bind_eq_Inr req_eq guard_eq by auto
  then show ?thesis by (simp add: suggested_value_def Let_def)
qed

lemma settles_simps [simp]:
  "settles pkg []"
  "settles pkg ((name, v) # vs) \<longleftrightarrow> suggested_value pkg (name, VStr v) = Inr (name, v) \<and> settles pkg vs"
  "settles pkg (vs @ ws) \<longleftrightarrow> settles pkg vs \<and> settles pkg ws"
  by (auto simp: settles_def)

lemma map_res_suggested: "map_res (suggested_value pkg) es = Inr vs \<Longrightarrow> map fst vs = map fst es \<and> settles pkg vs"
proof (induction es arbitrary: vs)
  case (Cons e es)
  then obtain name v ws where v: "suggested_value pkg e = Inr (name, v)" "map_res (suggested_value pkg) es = Inr ws" "vs = (name, v) # ws"
    by (auto simp: result_simps)
  have "name = fst e" "suggested_value pkg (name, VStr v) = Inr (name, v)" using suggested_value_again [OF v(1)] by blast+
  then show ?case using Cons.IH [OF v(2)] v(3) by simp
qed simp

lemma settles_extend:
  assumes "distinct (map fst m) \<and> settles pkg m" "distinct (map fst vs) \<and> settles pkg vs"
  shows "distinct (map fst (m @ filter (\<lambda>(name, v). name \<notin> fst ` set m) vs)) \<and>
    settles pkg (m @ filter (\<lambda>(name, v). name \<notin> fst ` set m) vs)"
proof -
  have "settles pkg (filter P vs)" for P using assms(2) by (auto simp: settles_def)
  moreover have "distinct (map fst (filter P vs))" for P using assms(2) by (simp add: distinct_map_filter)
  moreover have "set (map fst m) \<inter> set (map fst (filter (\<lambda>(name, v). name \<notin> fst ` set m) vs)) = {}" by force
  ultimately show ?thesis using assms(1) by (simp only: map_append distinct_append settles_simps simp_thms)
qed

lemma settles_map_res: "settles pkg vs \<Longrightarrow> map_res (suggested_value pkg) (map (\<lambda>(name, v). (name, VStr v)) vs) = Inr vs"
  by (induction vs) auto

lemma validateSuggestedSettings_settles:
  assumes "validateSuggestedSettings v pkg = Inr vs" "wf_val v"
  shows "distinct (map fst vs) \<and> settles pkg vs"
proof -
  obtain r where r: "v = VObj r" "map_res (suggested_value pkg) (filter (\<lambda>(k, v). v \<noteq> VUndef) r) = Inr vs"
    using assms(1) by (auto simp: validateSuggestedSettings_def Let_def result_simps)
  have "distinct (map fst (filter (\<lambda>(k, v). v \<noteq> VUndef) r))" using assms(2) r(1) by (simp add: distinct_map_filter)
  then show ?thesis using map_res_suggested [OF r(2)] by simp
qed

lemma settles_validate:
  assumes "settles pkg vs" "length vs \<le> MAX_SUGGESTED_SETTINGS"
  shows "validateSuggestedSettings (settings_value vs) pkg = Inr vs"
proof -
  let ?es = "map (\<lambda>(name, v). (name, VStr v)) vs"
  have "filter (\<lambda>(k, v). v \<noteq> VUndef) ?es = ?es" by (intro filter_True) auto
  then show ?thesis
    using assms settles_map_res [OF assms(1)] by (simp add: validateSuggestedSettings_def settings_value_def Let_def)
qed

lemma settles_declared: "settles pkg vs \<Longrightarrow> set (map fst vs) \<subseteq> set (declared_setting_keys pkg)"
  by (auto simp: settles_def suggested_value_def Let_def result_simps)

lemma declared_at_most: "length (declared_setting_keys pkg) \<le> length (packageSettings pkg)"
  by (simp add: declared_setting_keys_def map_filter_def) 

text \<open>A bundled package declares no more settings than may be suggested.\<close>

lemma bundled_settings:
  assumes "validate_either api (VObj pkg) = Inr pkg" "\<not> isLinkedPackage (VObj pkg)"
  shows "length (packageSettings pkg) \<le> MAX_SUGGESTED_SETTINGS"
proof -
  have "Page_Package.validatePackage (isHttpUrl api) (VObj pkg) = Inr pkg" using assms by (simp add: validate_either_def)
  then obtain inputs credentials settings where
      "Page_Package.validateSettings (jget pkg (js ''settings'')) inputs credentials = Inr settings"
    by (rule accepted_package)
  then have "length (packageSettings pkg) \<le> MAX_PACKAGE_SETTINGS"
    using assms(2) by (auto simp: packageSettings_def Page_Package.validateSettings_def result_simps nullish_def split: if_splits)
  then show ?thesis by (simp add: MAX_PACKAGE_SETTINGS_def MAX_SUGGESTED_SETTINGS_def)
qed

definition suggestions_ok :: "writ_contract \<Rightarrow> by_package \<Rightarrow> bool" where
  "suggestions_ok c bp \<longleftrightarrow> (\<forall>k vs. map_of bp k = Some vs \<longrightarrow> distinct (map fst vs) \<and>
     (\<forall>fn \<in> set (wn_functions c). Page_Linked.package_id (package_of c fn) = k \<longrightarrow> settles (package_of c fn) vs))"

lemma findSomeD: "find P xs = Some x \<Longrightarrow> P x \<and> x \<in> set xs"
  by (auto simp: find_Some_iff)

lemma ready_package:
  assumes "contract_ready api (wn_packages c) fn"
  shows "Page_Linked.package_id (package_of c fn) = wc_package fn"
proof -
  obtain pkg where f: "find (\<lambda>p. Page_Linked.package_id p = wc_package fn) (wn_packages c) = Some pkg"
    using assms by (auto simp: contract_ready_def)
  then show ?thesis by (auto simp: package_of_def dest: findSomeD)
qed

lemma same_package:
  assumes "contract_ready api (wn_packages c) fn" "contract_ready api (wn_packages c) fn'"
    and "Page_Linked.package_id (package_of c fn) = Page_Linked.package_id (package_of c fn')"
  shows "package_of c fn = package_of c fn'"
  using assms ready_package [OF assms(1)] ready_package [OF assms(2)] by (simp add: package_of_def)

lemma merge_suggestion_ok:
  assumes "merge_suggestion c accept e acc = Inr acc'" "suggestions_ok c (fst acc)" "wf_val (snd e)"
    and ready: "\<forall>fn \<in> set (wn_functions c). contract_ready api (wn_packages c) fn"
  shows "suggestions_ok c (fst acc')"
proof (cases "snd e = VUndef")
  case True
  then show ?thesis using assms(1,2) by (auto simp: merge_suggestion_def split: prod.splits)
next
  case False
  obtain bp keys where acc: "acc = (bp, keys)" by (cases acc)
  obtain fn clean where fn: "find (\<lambda>fn. wc_key fn = fst e) (wn_functions c) = Some fn"
      "validateSuggestedSettings (snd e) (package_of c fn) = Inr clean"
    and bp': "fst acc' = AList.update (Page_Linked.package_id (package_of c fn))
      ((case map_of bp (Page_Linked.package_id (package_of c fn)) of Some m \<Rightarrow> m | None \<Rightarrow> []) @
       filter (\<lambda>(name, v). name \<notin> fst ` set (case map_of bp (Page_Linked.package_id (package_of c fn)) of Some m \<Rightarrow> m | None \<Rightarrow> [])) clean) bp"
    using assms(1) False by (auto simp: merge_suggestion_def acc Let_def result_simps)
  have fnin: "fn \<in> set (wn_functions c)" using fn(1) by (auto simp: find_Some_iff)
  let ?m = "case map_of bp (Page_Linked.package_id (package_of c fn)) of Some m \<Rightarrow> m | None \<Rightarrow> []"
  have m: "distinct (map fst ?m) \<and> settles (package_of c fn) ?m"
  proof (cases "map_of bp (Page_Linked.package_id (package_of c fn))")
    case None
    then show ?thesis by (simp add: settles_def)
  next
    case (Some vs)
    then show ?thesis using assms(2) fnin unfolding suggestions_ok_def acc by simp
  qed
  have cl: "distinct (map fst clean) \<and> settles (package_of c fn) clean"
    using validateSuggestedSettings_settles [OF fn(2) assms(3)] .
  let ?n = "?m @ filter (\<lambda>(name, v). name \<notin> fst ` set ?m) clean"
  have n: "distinct (map fst ?n) \<and> settles (package_of c fn) ?n"
    by (rule settles_extend [OF m cl])
  show ?thesis unfolding suggestions_ok_def bp' update_conv'
  proof (intro allI impI)
    fix k vs assume k: "((map_of bp)(Page_Linked.package_id (package_of c fn) \<mapsto> ?n)) k = Some vs"
    show "distinct (map fst vs) \<and> (\<forall>fn' \<in> set (wn_functions c). Page_Linked.package_id (package_of c fn') = k \<longrightarrow> settles (package_of c fn') vs)"
    proof (cases "k = Page_Linked.package_id (package_of c fn)")
      case True
      then have vs: "vs = ?n" using k by simp
      have "package_of c fn' = package_of c fn" if "fn' \<in> set (wn_functions c)" "Page_Linked.package_id (package_of c fn') = k" for fn'
        using same_package ready that fnin True by metis
      then show ?thesis using n unfolding vs by auto
    next
      case False
      then show ?thesis using k assms(2) by (simp add: suggestions_ok_def acc)
    qed
  qed
qed

lemma suggestionsByPackage_ok:
  assumes "suggestionsByPackage c accept values = Inr (bp, keys)" "wf_val values"
    and ready: "\<forall>fn \<in> set (wn_functions c). contract_ready api (wn_packages c) fn"
  shows "suggestions_ok c bp"
proof -
  obtain r where r: "values = VObj r" "fold_res (merge_suggestion c accept) r ([], []) = Inr (bp, keys)"
    using assms(1) by (auto simp: suggestionsByPackage_def result_simps)
  have "suggestions_ok c (fst (bp, keys))"
  proof (rule fold_res_invariant [OF r(2)])
    fix x and s s' :: "by_package \<times> jsstring list"
    assume "x \<in> set r" "merge_suggestion c accept x s = Inr s'" "suggestions_ok c (fst s)"
    then show "suggestions_ok c (fst s')"
      using merge_suggestion_ok ready assms(2) r(1) by (auto simp: list_all_iff case_prod_beta)
  qed (simp add: suggestions_ok_def)
  then show ?thesis by simp
qed


subsection \<open>The requests of a contract\<close>

lemma function_key_trimmed:
  assumes "FUNCTION_KEY_PATTERN k"
  shows "trimmed k"
proof -
  have "\<not> is_space u" if "u \<in> set k" for u
    using FUNCTION_KEY_PATTERN_units [OF assms that] by (auto simp: key_unit_def unit_class_defs word_le_nat_alt)
  moreover have "k \<noteq> []" using assms by (auto simp: FUNCTION_KEY_PATTERN_def)
  ultimately show ?thesis by (simp add: trimmed_def)
qed

lemma contractRequest_passing:
  assumes ready: "contract_ready api (wn_packages c) fn" and fn: "fn \<in> set (wn_functions c)" and ok: "suggestions_ok c bp"
    and few: "isLinkedPackage (VObj (package_of c fn)) \<Longrightarrow> length (packageSettings (package_of c fn)) \<le> MAX_SUGGESTED_SETTINGS"
  shows "passing api (contractRequest c bp fn)"
proof -
  let ?pkg = "package_of c fn"
  have pkg: "validate_either api (VObj ?pkg) = Inr ?pkg"
      "selectPackageFunction (function_names ?pkg) (case wc_function fn of None \<Rightarrow> VUndef | Some n \<Rightarrow> VStr n) = Inr (wc_function fn)"
    using ready by (auto simp: contract_ready_def package_of_def)
  have key: "FUNCTION_KEY_PATTERN (wc_key fn)" using ready by (simp add: contract_ready_def)
  have "validateSuggestedSettings (settings_value vs) ?pkg = Inr vs \<and> distinct (map fst vs)"
    if vs: "map_of bp (Page_Linked.package_id ?pkg) = Some vs" for vs
  proof -
    have s: "distinct (map fst vs)" "settles ?pkg vs" using ok fn vs by (auto simp: suggestions_ok_def)
    have "length vs = card (set (map fst vs))" using distinct_card [OF s(1)] by simp
    also have "\<dots> \<le> card (set (declared_setting_keys ?pkg))" using settles_declared [OF s(2)] by (intro card_mono) auto
    also have "\<dots> \<le> length (declared_setting_keys ?pkg)" by (rule card_length)
    also have "\<dots> \<le> MAX_SUGGESTED_SETTINGS"
      using declared_at_most [of ?pkg] few bundled_settings [OF pkg(1)] by fastforce
    finally show ?thesis using settles_validate [OF s(2)] s(1) by blast
  qed
  then show ?thesis
    using pkg key consentDescription_ok [OF function_key_trimmed [OF key]]
    by (auto simp: passing_def contractRequest_def Let_def split: option.splits if_splits)
qed

lemma contractRequests_agree:
  assumes "contract_ready api (wn_packages c) fn" "contract_ready api (wn_packages c) fn'"
  shows "agree (contractRequest c bp fn) (contractRequest c bp fn')"
  using same_package [OF assms] by (auto simp: agree_def request_id_def contractRequest_def Let_def)

text \<open>C31: the requests \<open>contractFunctions\<close> answers for a contract pass the checks of \<open>connect()\<close> and come out as they
  went in, with the packages, the functions and the suggested settings, unless a linked package declares more settings
  than may be suggested.\<close>

theorem contract_connects:
  assumes "contractFunctions api date_ok contract options = Inr rs" "wf_val options"
    and "\<forall>r \<in> set rs. \<forall>pkg. fr_package r = Some pkg \<longrightarrow> isLinkedPackage (VObj pkg) \<longrightarrow>
      length (packageSettings pkg) \<le> MAX_SUGGESTED_SETTINGS"
  shows "validateFunctionRequests api (VArr (map request_value rs)) = Inr rs"
proof -
  obtain c opts bp keys where c: "Page_Contract.validateContract api date_ok contract = Inr c"
      "(if options = VUndef then Some [] else obj_of options) = Some opts"
      "(if nullish (jget opts (js ''settings'')) then Inr ([], []) else suggestionsByPackage c (\<lambda>_. Inr ()) (jget opts (js ''settings''))) = Inr (bp, keys)"
      "rs = contractRequests c bp"
    using assms(1) unfolding contractFunctions_def by (auto simp: result_simps)
  note v = validateContract_ready [OF c(1)]
  have wf: "wf_val (jget opts (js ''settings''))"
  proof (cases "map_of opts (js ''settings'')")
    case None
    then show ?thesis by (simp add: jget_def inherited_js)
  next
    case (Some w)
    then have "(js ''settings'', w) \<in> set opts" by (rule map_of_SomeD)
    then show ?thesis using c(2) assms(2) Some by (auto simp: jget_def list_all_iff split: if_splits)
  qed
  have ok: "suggestions_ok c bp"
    using c(3) suggestionsByPackage_ok [OF _ wf] v by (auto simp: suggestions_ok_def split: if_splits)
  have "passing api (contractRequest c bp fn)" if fn: "fn \<in> set (wn_functions c)" for fn
  proof (rule contractRequest_passing)
    assume l: "isLinkedPackage (VObj (package_of c fn))"
    have "contractRequest c bp fn \<in> set rs" "fr_package (contractRequest c bp fn) = Some (package_of c fn)"
      using fn by (auto simp: c(4) contractRequests_def contractRequest_def Let_def)
    then show "length (packageSettings (package_of c fn)) \<le> MAX_SUGGESTED_SETTINGS" using assms(3) l by blast
  qed (use fn v ok in auto)
  moreover have "map fr_key rs = map wc_key (wn_functions c)"
    by (simp add: c(4) contractRequests_def contractRequest_def Let_def)
  then have "distinct (map fr_key rs)" using v by (simp only:)
  moreover have "\<forall>r \<in> set rs. \<forall>r' \<in> set rs. agree r r'"
    using v by (auto simp: c(4) contractRequests_def intro!: contractRequests_agree [of api])
  ultimately show ?thesis
    using v by (intro requests_pass) (simp_all add: c(4) contractRequests_def)
qed

end
