(* ===== verification/Page_Client.thy ===== *)
theory Page_Client
  imports Page_Contract_Connects
begin

section \<open>The typed client (web/src/contract.ts)\<close>

text \<open>
  \<open>createWritClient\<close>: one method per contract key, at its dotted path; a method checks its inputs against the contract
  and calls the session with the client's own run token and recipe policy where the call sets none.
\<close>

subsection \<open>Inputs\<close>

definition contractInputChecker :: "writ_function \<Rightarrow> jsval \<Rightarrow> writ_error + unit" where
  "contractInputChecker fn inputs =
     res_bind (guard (inputs = VUndef \<or> isPlainObject inputs) input_invalid) (\<lambda>_.
     let given = (case inputs of VObj fs \<Rightarrow> fs | _ \<Rightarrow> []);
         required = map ci_name (filter ci_required (wc_inputs fn)) in
     res_bind (guard (list_all (\<lambda>name. jget given name = VUndef \<or> name \<in> set (map ci_name (wc_inputs fn))) (own_keys given)) input_invalid) (\<lambda>_.
       guard (\<not> list_ex (\<lambda>name. jget given name = VUndef) required) input_invalid))"

subsection \<open>Methods\<close>

record linked_defaults =
  ld_token :: "nat option"
  ld_recipeCache :: "jsstring option"

record client_method =
  me_function :: writ_function
  me_defaults :: "linked_defaults option"

text \<open>The options of a call: \<open>undefined\<close>, or a value (\<open>Given NoOptions\<close> is \<open>null\<close>).\<close>

datatype method_options = UndefinedOptions | Given options_arg

definition empty_options :: raw_options where
  "empty_options = \<lparr>ro_signal = NoSignal, ro_timeoutMs = VUndef, ro_dryRun = VUndef, ro_challenge = VUndef,
     ro_token = TokenValue VUndef, ro_recipeCache = VUndef\<rparr>"

definition with_defaults :: "raw_options \<Rightarrow> linked_defaults \<Rightarrow> raw_options" where
  "with_defaults r linked =
     (let a = (case ld_token linked of Some f \<Rightarrow> if ro_token r = TokenValue VUndef then r\<lparr>ro_token := TokenSource f\<rparr> else r | None \<Rightarrow> r) in
      case ld_recipeCache linked of Some m \<Rightarrow> if ro_recipeCache a = VUndef then a\<lparr>ro_recipeCache := VStr m\<rparr> else a | None \<Rightarrow> a)"

definition withLinkedDefaults :: "method_options \<Rightarrow> linked_defaults \<Rightarrow> options_arg" where
  "withLinkedDefaults options linked =
     (case options of
        Given (Options r) \<Rightarrow> Options (with_defaults r linked)
      | Given other \<Rightarrow> other
      | UndefinedOptions \<Rightarrow> Options (with_defaults empty_options linked))"

definition plain_options :: "method_options \<Rightarrow> options_arg" where
  "plain_options options = (case options of UndefinedOptions \<Rightarrow> NoOptions | Given v \<Rightarrow> v)"

text \<open>A method called: what the new call of the session starts from, or the error thrown.\<close>

definition method_call :: "linked_config \<Rightarrow> bool \<Rightarrow> client_method \<Rightarrow> jsval \<Rightarrow> method_options \<Rightarrow> writ_error + call_init" where
  "method_call cfg disconnected m inputs options =
     res_bind (contractInputChecker (me_function m) inputs) (\<lambda>_.
       Inr (session_init cfg disconnected (VStr (wc_key (me_function m))) inputs
         (case me_defaults m of None \<Rightarrow> plain_options options | Some linked \<Rightarrow> withLinkedDefaults options linked)))"

subsection \<open>The client\<close>

definition linkedAccessOfContract :: "writ_contract \<Rightarrow> (jsstring \<times> linked_access) list" where
  "linkedAccessOfContract c =
     concat (map (\<lambda>fn. let pkg = package_of c fn in if isLinkedPackage (VObj pkg) then [(wc_key fn, package_access pkg)] else [])
       (wn_functions c))"

definition linkedCallDefaults :: "linked_access \<Rightarrow> nat option \<Rightarrow> jsstring option \<Rightarrow> linked_defaults" where
  "linkedCallDefaults mode tokenSource recipeCache =
     \<lparr>ld_token = (if mode = LinkedToken then tokenSource else None), ld_recipeCache = recipeCache\<rparr>"

definition makeMethod :: "(jsstring \<times> linked_access) list \<Rightarrow> nat option \<Rightarrow> jsstring option \<Rightarrow> writ_function \<Rightarrow> client_method" where
  "makeMethod access tokenSource recipeCache fn =
     \<lparr>me_function = fn, me_defaults = map_option (\<lambda>mode. linkedCallDefaults mode tokenSource recipeCache) (map_of access (wc_key fn))\<rparr>"

text \<open>The tree of methods; \<open>None\<close> if a method stood where a namespace is needed (a \<open>TypeError\<close>, as methods are frozen).
  \<open>own\<close> is the session's \<open>getRunToken\<close>.\<close>

definition createWritClient :: "url_api \<Rightarrow> (jsstring \<Rightarrow> bool) \<Rightarrow> bool \<Rightarrow> nat option \<Rightarrow> jsval \<Rightarrow> linked_options \<Rightarrow>
    writ_error + (jsstring \<times> client_method tree) list option" where
  "createWritClient api date_ok is_session own contract options =
     res_bind (guard is_session badRequest) (\<lambda>_.
     res_bind (Page_Contract.validateContract api date_ok contract) (\<lambda>clean.
     res_bind (validateLinkedOptions options) (\<lambda>(source, recipeCache).
     let access = linkedAccessOfContract clean; tokenSource = (case source of Some f \<Rightarrow> Some f | None \<Rightarrow> own) in
     res_bind (requireRunTokens access (tokenSource \<noteq> None)) (\<lambda>_.
       Inr (put_all (map (\<lambda>fn. (segments (wc_key fn), makeMethod access tokenSource recipeCache fn)) (wn_functions clean)) [])))))"

subsection \<open>What the client guarantees\<close>

lemma namespaces_ok:
  assumes "Page_Contract.validateContract api date_ok json = Inr c" "f \<in> set (wn_functions c)" "g \<in> set (wn_functions c)"
  shows "\<not> proper_prefix (segments (wc_key f)) (segments (wc_key g))"
proof -
  obtain fns where "\<not> list_ex (clashes (map wc_key fns)) (map wc_key fns)" "wn_functions c = fns"
    using assms(1) unfolding Page_Contract.validateContract_def Page_Contract.checkNamespaces_def res_bind_eq_Inr req_eq guard_eq sum.inject
    by (elim exE conjE, hypsubst) (simp only: writ_contract.simps)
  then have "Contract.checkNamespaces (map wc_key (wn_functions c)) = Inr ()"
    by (simp add: Contract.checkNamespaces_def)
  then show ?thesis using assms(2,3) by (intro checkNamespaces_Inr [of "map wc_key (wn_functions c)"]) auto
qed

lemma createWritClient_tree:
  assumes "createWritClient api date_ok is_session own contract options = Inr t"
  obtains c recipeCache tokenSource tree where
    "Page_Contract.validateContract api date_ok contract = Inr c"
    "requireRunTokens (linkedAccessOfContract c) (tokenSource \<noteq> None) = Inr ()" "t = Some tree"
    "\<And>path m. tree_get path tree = Some m \<longleftrightarrow>
       (\<exists>fn \<in> set (wn_functions c). path = segments (wc_key fn) \<and> m = makeMethod (linkedAccessOfContract c) tokenSource recipeCache fn)"
proof -
  obtain c source recipeCache where c: "Page_Contract.validateContract api date_ok contract = Inr c"
      "validateLinkedOptions options = Inr (source, recipeCache)"
    and r: "requireRunTokens (linkedAccessOfContract c) ((case source of Some f \<Rightarrow> Some f | None \<Rightarrow> own) \<noteq> None) = Inr ()"
    and t: "t = put_all (map (\<lambda>fn. (segments (wc_key fn), makeMethod (linkedAccessOfContract c) (case source of Some f \<Rightarrow> Some f | None \<Rightarrow> own) recipeCache fn)) (wn_functions c)) []"
    using assms unfolding createWritClient_def Let_def by (auto simp: result_simps)
  let ?src = "case source of Some f \<Rightarrow> Some f | None \<Rightarrow> own"
  let ?pms = "map (\<lambda>fn. (segments (wc_key fn), makeMethod (linkedAccessOfContract c) ?src recipeCache fn)) (wn_functions c)"
  have "distinct (map segments (map wc_key (wn_functions c)))"
    unfolding distinct_map using validateContract_ready [OF c(1)] by (auto simp: inj_on_def segments_def distinct_map)
  then have "\<exists>tree. put_all ?pms [] = Some tree \<and> (\<forall>q m. tree_get q tree = Some m \<longleftrightarrow> tree_get q [] = Some m \<or> (q, m) \<in> set ?pms)"
    using namespaces_ok [OF c(1)] by (intro put_all_get) (auto simp: comp_def segments_def js_split_not_Nil [symmetric])
  then obtain tree where "t = Some tree" "\<And>q m. tree_get q tree = Some m \<longleftrightarrow> (q, m) \<in> set ?pms" using t by auto
  then show ?thesis using that [OF c(1) r, of tree recipeCache] by auto
qed

text \<open>A call brings a run token: it has one already, or gets one from a source before it goes out.\<close>

definition carries_token :: "call_init \<Rightarrow> bool" where
  "carries_token init \<longleftrightarrow> ci_runToken init \<or> (\<exists>ps t. ci_params init = Some ps \<and> (js ''token'', VStr t) \<in> set ps)"

text \<open>Options with \<open>token: null\<close>, or \<open>null\<close> instead of options.\<close>

definition null_token :: "method_options \<Rightarrow> bool" where
  "null_token options \<longleftrightarrow>
     (case options of Given NoOptions \<Rightarrow> True | Given (Options r) \<Rightarrow> ro_token r = TokenValue VNull | _ \<Rightarrow> False)"

lemma with_defaults_token:
  "ro_token (with_defaults r \<lparr>ld_token = Some f, ld_recipeCache = m\<rparr>) =
     (if ro_token r = TokenValue VUndef then TokenSource f else ro_token r)"
  by (cases m) (simp_all add: with_defaults_def Let_def)

lemma options_token:
  assumes "validateCallOptions (Options r) = Inr opts" shows "token_option (ro_token r) = Inr (co_token opts)"
  using assms unfolding validateCallOptions_def options_arg.case res_bind_eq_Inr by (elim exE conjE) auto

lemma token_option_None: "token_option a = Inr None \<longleftrightarrow> a \<in> {TokenValue VUndef, TokenValue VNull}"
  by (auto simp: token_option_def checkGivenRunToken_def nullish_def split: token_arg.splits jsval.splits if_splits)

lemma built_token: "(\<exists>t. (js ''token'', VStr t) \<in> set (built_params cfg key opts clean token)) \<longleftrightarrow> token \<noteq> None"
  by (auto simp: built_params_def optional_field_def js_def split: option.splits)

lemma called_token:
  assumes "ci_error (session_init cfg disconnected (VStr key) inputs options) = None"
  obtains opts where "validateCallOptions options = Inr opts"
    "carries_token (session_init cfg disconnected (VStr key) inputs options) \<longleftrightarrow> co_token opts \<noteq> None \<or> lc_access cfg key = Some LinkedToken"
proof -
  obtain p where p: "prepare_call cfg disconnected (VStr key) inputs options = Inr p"
    and s: "session_init cfg disconnected (VStr key) inputs options = fst p"
    using assms by (cases "prepare_call cfg disconnected (VStr key) inputs options") (auto simp: session_init_def split: prod.splits)
  obtain validKey opts clean token source where o: "validateFunctionKey (VStr key) = Inr validKey" "validateCallOptions options = Inr opts"
      "run_token_of cfg validKey (co_token opts) = Inr (token, source)"
    and f: "fst p = \<lparr>ci_params = Some (built_params cfg validKey opts clean token), ci_error = None, ci_runToken = source \<noteq> None,
      ci_timeoutMs = co_timeoutMs opts, ci_signal = co_signal opts\<rparr>"
    using p unfolding prepare_call_def by (auto simp: result_simps)
  have "validKey = key" using o(1) by (auto simp: validateFunctionKey_def split: if_splits)
  then have "token \<noteq> None \<or> source \<noteq> None \<longleftrightarrow> co_token opts \<noteq> None \<or> lc_access cfg key = Some LinkedToken"
    using o(3) by (auto simp: run_token_of_def dest: sym split: option.splits run_token.splits if_splits)
  moreover have "carries_token (fst p) \<longleftrightarrow> source \<noteq> None \<or> token \<noteq> None" unfolding f by (simp add: carries_token_def built_token)
  ultimately show ?thesis using that [OF o(2)] unfolding s by blast
qed

text \<open>A method with a source of tokens: only a null token, on a session that does not know the link, goes out without.\<close>

lemma linked_method_token:
  assumes m: "me_defaults m = Some \<lparr>ld_token = Some f, ld_recipeCache = rc\<rparr>" "wc_key (me_function m) = key"
    and call: "method_call cfg disconnected m inputs options = Inr init" "ci_error init = None"
  shows "carries_token init \<longleftrightarrow> lc_access cfg key = Some LinkedToken \<or> \<not> null_token options"
proof -
  let ?given = "withLinkedDefaults options \<lparr>ld_token = Some f, ld_recipeCache = rc\<rparr>"
  have i: "init = session_init cfg disconnected (VStr key) inputs ?given"
    using call(1) m by (auto simp: method_call_def result_simps)
  obtain opts where o: "validateCallOptions ?given = Inr opts" "carries_token init \<longleftrightarrow> co_token opts \<noteq> None \<or> lc_access cfg key = Some LinkedToken"
    using called_token call(2) unfolding i by blast
  have n: "co_token opts = None \<longleftrightarrow> ro_token r = TokenValue VNull"
    if "?given = Options (with_defaults r \<lparr>ld_token = Some f, ld_recipeCache = rc\<rparr>)" for r
  proof -
    have "co_token opts = None \<longleftrightarrow> token_option (ro_token (with_defaults r \<lparr>ld_token = Some f, ld_recipeCache = rc\<rparr>)) = Inr None"
      using options_token [of _ opts] o(1) unfolding that by auto
    then show ?thesis unfolding token_option_None with_defaults_token by auto
  qed
  have "co_token opts = None \<longleftrightarrow> null_token options"
  proof (cases options)
    case UndefinedOptions
    then show ?thesis using n [of empty_options] by (simp add: withLinkedDefaults_def null_token_def empty_options_def)
  next
    case (Given v)
    then show ?thesis using n o(1)
      by (cases v) (auto simp: withLinkedDefaults_def null_token_def validateCallOptions_def)
  qed
  then show ?thesis using o(2) by blast
qed

text \<open>C32: the typed client has exactly the contract's functions, each at its dotted key.  A method of a workflow linked in
  token mode brings a run token on any session, with any options, unless its call fails at once; the one exception is a
  call with \<open>token: null\<close>, or with \<open>null\<close> for its options, on a session that does not know the link itself: it goes
  out with none.\<close>

theorem client_calls_bring_tokens:
  assumes "createWritClient api date_ok is_session own contract options = Inr t"
  shows "\<exists>c tree. Page_Contract.validateContract api date_ok contract = Inr c \<and> t = Some tree \<and>
    (\<forall>path. (\<exists>m. tree_get path tree = Some m) \<longleftrightarrow> (\<exists>fn \<in> set (wn_functions c). path = segments (wc_key fn))) \<and>
    (\<forall>fn \<in> set (wn_functions c). \<exists>m. tree_get (segments (wc_key fn)) tree = Some m \<and> me_function m = fn \<and>
      (map_of (linkedAccessOfContract c) (wc_key fn) = Some LinkedToken \<longrightarrow>
        (\<forall>cfg disconnected inputs given init. method_call cfg disconnected m inputs given = Inr init \<and> ci_error init = None \<longrightarrow>
          (carries_token init \<longleftrightarrow> lc_access cfg (wc_key fn) = Some LinkedToken \<or> \<not> null_token given))))"
  using assms
proof (rule createWritClient_tree)
  fix c recipeCache tokenSource tree
  assume c: "Page_Contract.validateContract api date_ok contract = Inr c"
    and req: "requireRunTokens (linkedAccessOfContract c) (tokenSource \<noteq> None) = Inr ()" and t: "t = Some tree"
    and get: "\<And>path m. tree_get path tree = Some m \<longleftrightarrow>
       (\<exists>fn \<in> set (wn_functions c). path = segments (wc_key fn) \<and> m = makeMethod (linkedAccessOfContract c) tokenSource recipeCache fn)"
  let ?m = "makeMethod (linkedAccessOfContract c) tokenSource recipeCache"
  have tok: "carries_token init \<longleftrightarrow> lc_access cfg (wc_key fn) = Some LinkedToken \<or> \<not> null_token given"
    if l: "map_of (linkedAccessOfContract c) (wc_key fn) = Some LinkedToken"
      and call: "method_call cfg disconnected (?m fn) inputs given = Inr init" "ci_error init = None"
    for fn cfg disconnected inputs given init
  proof -
    obtain f where "tokenSource = Some f"
      using req map_of_SomeD [OF l] by (auto simp: requireRunTokens_def list_ex_iff)
    then have "me_defaults (?m fn) = Some \<lparr>ld_token = Some f, ld_recipeCache = recipeCache\<rparr>" "wc_key (me_function (?m fn)) = wc_key fn"
      using l by (simp_all add: makeMethod_def linkedCallDefaults_def)
    then show ?thesis using call by (rule linked_method_token)
  qed
  have "\<exists>m. tree_get (segments (wc_key fn)) tree = Some m \<and> me_function m = fn \<and>
      (map_of (linkedAccessOfContract c) (wc_key fn) = Some LinkedToken \<longrightarrow>
        (\<forall>cfg disconnected inputs given init. method_call cfg disconnected m inputs given = Inr init \<and> ci_error init = None \<longrightarrow>
          (carries_token init \<longleftrightarrow> lc_access cfg (wc_key fn) = Some LinkedToken \<or> \<not> null_token given)))"
    if fn: "fn \<in> set (wn_functions c)" for fn
  proof (intro exI [of _ "?m fn"] conjI)
    show "tree_get (segments (wc_key fn)) tree = Some (?m fn)" using get fn by blast
    show "me_function (?m fn) = fn" by (simp add: makeMethod_def)
  qed (use tok in blast)
  moreover have "(\<exists>m. tree_get path tree = Some m) \<longleftrightarrow> (\<exists>fn \<in> set (wn_functions c). path = segments (wc_key fn))" for path
    unfolding get by blast
  ultimately show ?thesis using c t by blast
qed

end
