(* ===== verification/Page_Package_Safety.thy ===== *)
theory Page_Package_Safety
  imports Page_Package
begin

section \<open>What a package the page accepts may do\<close>

text \<open>
  Which spellings of this computer \<open>isLoopback\<close> knows, in terms of the addresses they denote; that the host of
  every URL is written out or a setting; and that the declarations of a package are coherent.
\<close>

subsection \<open>Spellings of an address\<close>

text \<open>An IPv6 address in text (RFC 4291, section 2.2): eight groups in hexadecimal, or fewer around one \<open>::\<close> that stands
  for the missing zeros, of which the last two may be written as the dotted decimal octets of an IPv4 address.\<close>

definition octet :: "jsstring \<Rightarrow> bool" where
  "octet s \<longleftrightarrow> short_digits s \<and> digits_value s \<le> 255 \<and> (length s = 1 \<or> hd s \<noteq> 48)"

definition pieces_denote :: "jsstring list \<Rightarrow> int list \<Rightarrow> bool" where
  "pieces_denote ws gs \<longleftrightarrow>
     (list_all hex_group ws \<and> gs = map hex_value ws) \<or>
     (\<exists>us a b c d. list_all hex_group us \<and> list_all octet [a, b, c, d] \<and> ws = us @ [js_join dot [a, b, c, d]] \<and>
        gs = map hex_value us @ [int (256 * digits_value a + digits_value b), int (256 * digits_value c + digits_value d)])"

definition ipv6_denotes :: "jsstring \<Rightarrow> int list \<Rightarrow> bool" where
  "ipv6_denotes host gs \<longleftrightarrow>
     (\<exists>ws. pieces_denote ws gs \<and> length gs = 8 \<and> host = js_join colon ws) \<or>
     (\<exists>l r gr. list_all hex_group l \<and> pieces_denote r gr \<and> length l + length gr \<le> 7 \<and>
        host = js_join colon l @ colon # colon # js_join colon r \<and>
        gs = map hex_value l @ replicate (8 - (length l + length gr)) 0 @ gr)"

text \<open>The spellings without a dotted tail.\<close>

definition hex_denotes :: "jsstring \<Rightarrow> int list \<Rightarrow> bool" where
  "hex_denotes host gs \<longleftrightarrow>
     (\<exists>ws. length ws = 8 \<and> list_all hex_group ws \<and> host = js_join colon ws \<and> gs = map hex_value ws) \<or>
     (\<exists>l r. list_all hex_group l \<and> list_all hex_group r \<and> length l + length r \<le> 7 \<and>
        host = js_join colon l @ colon # colon # js_join colon r \<and>
        gs = map hex_value l @ replicate (8 - (length l + length r)) 0 @ map hex_value r)"

lemma hex_group_units: "hex_group w \<Longrightarrow> w \<noteq> [] \<and> colon \<notin> set w \<and> dot \<notin> set w"
  by (auto simp: hex_group_def list_all_iff hex_unit_def colon_def dot_def unit_class_defs)

lemma split_double_not_Nil [simp]: "split_double s \<noteq> []"
  by (induction s rule: split_double.induct) (auto split: list.splits)

lemma split_double_join: "split_double s = w # ws \<Longrightarrow> s = w @ concat (map (\<lambda>v. colon # colon # v) ws)"
proof (induction s arbitrary: w ws rule: split_double.induct)
  case (1 u v us)
  show ?case
  proof (cases "u = colon \<and> v = colon")
    case True
    then show ?thesis using 1 by (cases "split_double us") auto
  next
    case False
    obtain x xs where x: "split_double (v # us) = x # xs" by (cases "split_double (v # us)") simp_all
    then have "w = u # x" "ws = xs" using 1(3) False by auto
    then show ?thesis using 1(2) [OF False x] by simp
  qed
qed auto

lemma split_double_step: "u \<noteq> colon \<or> s = [] \<or> hd s \<noteq> colon \<Longrightarrow>
    split_double (u # s) = (case split_double s of [] \<Rightarrow> [[u]] | w # ws \<Rightarrow> (u # w) # ws)"
  by (cases s) auto

lemma split_double_word: "colon \<notin> set w \<Longrightarrow> split_double s = x # xs \<Longrightarrow> split_double (w @ s) = (w @ x) # xs"
  by (induction w) (auto simp: split_double_step)

lemma join_groups_hd: "list_all hex_group (v # ws) \<Longrightarrow> js_join colon (v # ws) \<noteq> [] \<and> hd (js_join colon (v # ws)) \<noteq> colon"
  using hex_group_units [of v] by (cases v; cases ws) auto

lemma split_double_groups:
  "list_all hex_group l \<Longrightarrow> l \<noteq> [] \<Longrightarrow> split_double s = x # xs \<Longrightarrow> split_double (js_join colon l @ s) = (js_join colon l @ x) # xs"
proof (induction l)
  case (Cons w l)
  have w: "colon \<notin> set w" using Cons hex_group_units by auto
  show ?case
  proof (cases l)
    case Nil
    then show ?thesis using split_double_word [OF w Cons(4)] by simp
  next
    case (Cons v ws)
    note l = this
    have j: "js_join colon l \<noteq> []" "hd (js_join colon l @ s) \<noteq> colon"
      using join_groups_hd [of v ws] Cons.prems(1) l by auto
    have "split_double (js_join colon l @ s) = (js_join colon l @ x) # xs"
      using Cons.IH Cons.prems l by simp
    then have "split_double (colon # js_join colon l @ s) = (colon # js_join colon l @ x) # xs"
      using split_double_step [of colon "js_join colon l @ s"] j by simp
    then show ?thesis using split_double_word [OF w] l by simp
  qed
qed simp

lemma split_double_double: "split_double (colon # colon # s) = [] # split_double s"
  by simp

lemma split_double_plain: "list_all hex_group l \<Longrightarrow> split_double (js_join colon l) = [js_join colon l]"
  using split_double_groups [of l "[]" "[]" "[]"] by (cases l) auto

lemma split_double_two:
  assumes "list_all hex_group l" "list_all hex_group r"
  shows "split_double (js_join colon l @ colon # colon # js_join colon r) = [js_join colon l, js_join colon r]"
proof (cases l)
  case Nil
  then show ?thesis using split_double_plain [OF assms(2)] by simp
next
  case (Cons w ws)
  then show ?thesis
    using split_double_groups [OF assms(1), of "colon # colon # js_join colon r" "[]" "[js_join colon r]"]
      split_double_plain [OF assms(2)] by simp
qed

lemma splitGroups_join:
  assumes "list_all hex_group l"
  shows "splitGroups (js_join colon l) = l"
proof (cases l)
  case Nil
  then show ?thesis by (simp add: splitGroups_def)
next
  case (Cons w ws)
  then have "js_split colon (js_join colon l) = l"
    using assms hex_group_units by (intro js_split_join) (auto simp: list_all_iff)
  moreover have "js_join colon l \<noteq> []" using join_groups_hd Cons assms by auto
  ultimately show ?thesis by (simp add: splitGroups_def)
qed

lemma splitGroups_inv: "js_join colon (splitGroups s) = s"
  by (auto simp: splitGroups_def)

lemma length_four: "length xs = 4 \<longleftrightarrow> (\<exists>a b c d. xs = [a, b, c, d])"
  by (auto simp: numeral_eq_Suc length_Suc_conv)

lemma short_digits_units: "short_digits a \<Longrightarrow> colon \<notin> set a \<and> dot \<notin> set a"
  by (auto simp: short_digits_def list_all_iff colon_def dot_def unit_class_defs)

lemma ipv4_like_iff: "ipv4_like s \<longleftrightarrow> (\<exists>a b c d. list_all short_digits [a, b, c, d] \<and> s = js_join dot [a, b, c, d])"
proof
  assume "ipv4_like s"
  then obtain a b c d where x: "js_split dot s = [a, b, c, d]" "list_all short_digits [a, b, c, d]"
    by (auto simp: ipv4_like_def length_four)
  moreover have "s = js_join dot [a, b, c, d]" using x(1) js_join_split [of dot s] by (simp only:)
  ultimately show "\<exists>a b c d. list_all short_digits [a, b, c, d] \<and> s = js_join dot [a, b, c, d]" by blast
next
  assume "\<exists>a b c d. list_all short_digits [a, b, c, d] \<and> s = js_join dot [a, b, c, d]"
  then obtain a b c d where x: "list_all short_digits [a, b, c, d]" "s = js_join dot [a, b, c, d]" by blast
  then have "js_split dot s = [a, b, c, d]"
    unfolding x(2) using short_digits_units by (intro js_split_join) auto
  then show "ipv4_like s" using x(1) by (simp add: ipv4_like_def)
qed

lemma ipv4_first: "list_all short_digits [a, b, c, d] \<Longrightarrow> hd (js_split dot (js_join dot [a, b, c, d])) = a"
  by (subst js_split_join) (auto dest: short_digits_units simp del: js_join.simps)

lemma hex_denotes_no_dot: "hex_denotes host gs \<Longrightarrow> dot \<notin> set host"
proof -
  have j: "dot \<notin> set (js_join colon l)" if "list_all hex_group l" for l
    using that hex_group_units set_js_join [of dot colon l] by (auto simp: list_all_iff colon_def dot_def)
  assume "hex_denotes host gs"
  then show ?thesis using j by (auto simp: hex_denotes_def) (auto simp: colon_def dot_def)
qed

lemma hex_denotes_colon: "hex_denotes host gs \<Longrightarrow> colon \<in> set host"
proof -
  have "colon \<in> set (js_join colon ws)" if "length ws = 8" for ws :: "jsstring list"
    using that by (cases "(colon, ws)" rule: js_join.cases) auto
  moreover assume "hex_denotes host gs"
  ultimately show ?thesis by (auto simp: hex_denotes_def)
qed

lemma set_js_join_piece: "w \<in> set ws \<Longrightarrow> u \<in> set w \<Longrightarrow> u \<in> set (js_join sep ws)"
  by (induction sep ws rule: js_join.induct) auto

lemma pieces_without_dot:
  assumes "dot \<notin> set (js_join colon ws)"
  shows "pieces_denote ws gs \<longleftrightarrow> list_all hex_group ws \<and> gs = map hex_value ws"
proof -
  have "dot \<in> set (js_join colon (us @ [js_join dot [a, b, c, d]]))" for us a b c d
    by (rule set_js_join_piece [of "js_join dot [a, b, c, d]"]) simp_all
  then show ?thesis using assms unfolding pieces_denote_def by metis
qed

lemma hex_denotes_iff: "hex_denotes host gs \<longleftrightarrow> ipv6_denotes host gs \<and> dot \<notin> set host"
proof
  assume h: "hex_denotes host gs"
  then have p: "dot \<notin> set host" by (rule hex_denotes_no_dot)
  from h consider (plain) ws where "length ws = 8" "list_all hex_group ws" "host = js_join colon ws" "gs = map hex_value ws"
    | (short) l r where "list_all hex_group l" "list_all hex_group r" "length l + length r \<le> 7"
        "host = js_join colon l @ colon # colon # js_join colon r" "gs = map hex_value l @ replicate (8 - (length l + length r)) 0 @ map hex_value r"
    unfolding hex_denotes_def by blast
  then have "ipv6_denotes host gs"
  proof cases
    case plain
    then show ?thesis unfolding ipv6_denotes_def pieces_denote_def by (intro disjI1 exI [of _ ws]) simp
  next
    case short
    then show ?thesis unfolding ipv6_denotes_def pieces_denote_def
      by (intro disjI2 exI [of _ l] exI [of _ r] exI [of _ "map hex_value r"]) simp
  qed
  with p show "ipv6_denotes host gs \<and> dot \<notin> set host" by simp
next
  assume "ipv6_denotes host gs \<and> dot \<notin> set host"
  then have nd: "dot \<notin> set host"
    and "(\<exists>ws. pieces_denote ws gs \<and> length gs = 8 \<and> host = js_join colon ws) \<or>
      (\<exists>l r gr. list_all hex_group l \<and> pieces_denote r gr \<and> length l + length gr \<le> 7 \<and>
        host = js_join colon l @ colon # colon # js_join colon r \<and> gs = map hex_value l @ replicate (8 - (length l + length gr)) 0 @ gr)"
    unfolding ipv6_denotes_def by blast+
  then consider (plain) ws where "pieces_denote ws gs" "length gs = 8" "host = js_join colon ws"
    | (short) l r gr where "list_all hex_group l" "pieces_denote r gr" "length l + length gr \<le> 7"
        "host = js_join colon l @ colon # colon # js_join colon r" "gs = map hex_value l @ replicate (8 - (length l + length gr)) 0 @ gr"
    by blast
  then show "hex_denotes host gs"
  proof cases
    case plain
    then have "list_all hex_group ws \<and> gs = map hex_value ws" using nd pieces_without_dot by simp
    then show ?thesis using plain unfolding hex_denotes_def by (intro disjI1 exI [of _ ws]) simp
  next
    case short
    have "dot \<notin> set (js_join colon r)" using nd short(4) by simp
    from pieces_without_dot [OF this] have "list_all hex_group r \<and> gr = map hex_value r" using short(2) by blast
    then show ?thesis using short unfolding hex_denotes_def by (intro disjI2 exI [of _ l] exI [of _ r]) simp
  qed
qed

lemma one_groups:
  assumes "length gs = 8"
  shows "list_all (\<lambda>g. f g = 0) (take 7 gs) \<and> f (gs ! 7) = (1::int) \<longleftrightarrow> map f gs = replicate 7 0 @ [1]"
proof -
  obtain a b c d e g h i where "gs = [a, b, c, d, e, g, h, i]"
    using assms by (auto simp: numeral_eq_Suc length_Suc_conv)
  then show ?thesis by (simp add: numeral_eq_Suc)
qed

lemma ipv6_one:
  "hex_denotes host (replicate 7 0 @ [1]) \<longleftrightarrow> colon \<in> set host \<and>
     (\<exists>groups. length groups = 8 \<and> list_all hex_group groups \<and> map hex_value groups = replicate 7 0 @ [1] \<and>
       (case split_double host of
          [l, r] \<Rightarrow> length (splitGroups l) + length (splitGroups r) \<le> 7 \<and>
            groups = splitGroups l @ replicate (8 - (length (splitGroups l) + length (splitGroups r))) (js ''0'') @ splitGroups r
        | [_] \<Rightarrow> groups = splitGroups host
        | _ \<Rightarrow> False))" (is "?L \<longleftrightarrow> ?R")
proof
  have z: "hex_group (js ''0'')" "hex_value (js ''0'') = 0" by code_simp+
  assume L: ?L
  from L consider (plain) ws where "length ws = 8" "list_all hex_group ws" "host = js_join colon ws" "replicate 7 0 @ [1] = map hex_value ws"
    | (short) l r where "list_all hex_group l" "list_all hex_group r" "length l + length r \<le> 7"
        "host = js_join colon l @ colon # colon # js_join colon r"
        "replicate 7 0 @ [1] = map hex_value l @ replicate (8 - (length l + length r)) 0 @ map hex_value r"
    unfolding hex_denotes_def by blast
  then have "\<exists>groups. length groups = 8 \<and> list_all hex_group groups \<and> map hex_value groups = replicate 7 0 @ [1] \<and>
       (case split_double host of
          [l, r] \<Rightarrow> length (splitGroups l) + length (splitGroups r) \<le> 7 \<and>
            groups = splitGroups l @ replicate (8 - (length (splitGroups l) + length (splitGroups r))) (js ''0'') @ splitGroups r
        | [_] \<Rightarrow> groups = splitGroups host
        | _ \<Rightarrow> False)"
  proof cases
    case plain
    then show ?thesis by (intro exI [of _ ws]) (simp add: split_double_plain splitGroups_join)
  next
    case short
    show ?thesis
      by (rule exI [of _ "l @ replicate (8 - (length l + length r)) (js ''0'') @ r"])
        (use short z in \<open>auto simp: split_double_two splitGroups_join list_all_iff\<close>)
  qed
  then show ?R using hex_denotes_colon [OF L] by (rule conjI [rotated])
next
  have z: "hex_value (js ''0'') = 0" by code_simp
  assume ?R
  then obtain groups where g: "length groups = 8" "list_all hex_group groups" "map hex_value groups = replicate 7 0 @ [1]"
    "case split_double host of
          [l, r] \<Rightarrow> length (splitGroups l) + length (splitGroups r) \<le> 7 \<and>
            groups = splitGroups l @ replicate (8 - (length (splitGroups l) + length (splitGroups r))) (js ''0'') @ splitGroups r
        | [_] \<Rightarrow> groups = splitGroups host
        | _ \<Rightarrow> False" by blast
  obtain w ws where s: "split_double host = w # ws" by (cases "split_double host") simp_all
  show ?L
  proof (cases ws)
    case Nil
    then have "groups = splitGroups host" using g(4) s by simp
    then show ?L using g splitGroups_inv [of host] unfolding hex_denotes_def by metis
  next
    case (Cons v vs)
    then have vs: "vs = []" using g(4) s by (cases vs) simp_all
    let ?l = "splitGroups w" and ?r = "splitGroups v"
    have gr: "length ?l + length ?r \<le> 7" "groups = ?l @ replicate (8 - (length ?l + length ?r)) (js ''0'') @ ?r"
      using g(4) s Cons vs by simp_all
    have "host = js_join colon ?l @ colon # colon # js_join colon ?r"
      using split_double_join [OF s] Cons vs by (simp add: splitGroups_inv)
    moreover have "list_all hex_group ?l" "list_all hex_group ?r" using g(2) unfolding gr(2) by simp_all
    moreover have "replicate 7 0 @ [1] = map hex_value ?l @ replicate (8 - (length ?l + length ?r)) 0 @ map hex_value ?r"
      using g(3) unfolding gr(2) by (simp add: z map_replicate del: replicate.simps)
    ultimately show ?L using gr(1) unfolding hex_denotes_def by blast
  qed
qed

lemma six_groups:
  "(if colon \<notin> set host then False
    else
      (let halves = split_double host;
           expanded = (case halves of
               [l, r] \<Rightarrow>
                 (let zeros = 8 - int (length (splitGroups l)) - int (length (splitGroups r)) in
                  if zeros < 1 then None else Some (splitGroups l @ replicate (nat zeros) (js ''0'') @ splitGroups r))
             | [_] \<Rightarrow> Some (splitGroups host)
             | _ \<Rightarrow> None)
       in case expanded of
            None \<Rightarrow> False
          | Some groups \<Rightarrow>
              length groups = 8 \<and> list_all hex_group groups \<and>
              list_all (\<lambda>g. hex_value g = 0) (take 7 groups) \<and> hex_value (groups ! 7) = 1)) \<longleftrightarrow>
   hex_denotes host (replicate 7 0 @ [1])"
proof -
  have g: "(length gs = 8 \<and> list_all hex_group gs \<and> list_all (\<lambda>g. hex_value g = 0) (take 7 gs) \<and> hex_value (gs ! 7) = 1)
      \<longleftrightarrow> (length gs = 8 \<and> list_all hex_group gs \<and> map hex_value gs = replicate 7 0 @ [1])" for gs
    using one_groups by blast
  obtain w ws where s: "split_double host = w # ws" by (cases "split_double host") simp_all
  consider "ws = []" | v where "ws = [v]" | v x vs where "ws = v # x # vs" by (cases ws rule: remdups_adj.cases) auto
  then show ?thesis
  proof cases
    case (2 v)
    have n: "nat (8 - int (length a) - int (length b)) = 8 - (length a + length b)" for a b :: "jsstring list"
      by (simp add: nat_diff_distrib')
    show ?thesis
      unfolding ipv6_one Let_def g s 2 by (auto simp: n simp del: replicate.simps)
  qed (unfold ipv6_one Let_def g s, auto simp del: replicate.simps)
qed

lemma loopback_unfold:
  "isLoopback host \<longleftrightarrow>
     (if host = js ''localhost'' \<or> ends_with (js ''.localhost'') host then True
      else
        let v4 = (if starts_with (js ''::ffff:'') host then drop 7 host else host) in
        if ipv4_like v4 then digits_value (hd (js_split dot v4)) = 127 else hex_denotes host (replicate 7 0 @ [1]))"
  unfolding isLoopback_def six_groups ..

lemma loopback_hex:
  "isLoopback host \<longleftrightarrow>
     host = js ''localhost'' \<or> ends_with (js ''.localhost'') host \<or>
     (\<exists>a b c d. list_all short_digits [a, b, c, d] \<and> digits_value a = 127 \<and>
        (host = js_join dot [a, b, c, d] \<or> host = js ''::ffff:'' @ js_join dot [a, b, c, d])) \<or>
     hex_denotes host (replicate 7 0 @ [1])"
proof (cases "host = js ''localhost'' \<or> ends_with (js ''.localhost'') host")
  case True
  then show ?thesis by (auto simp: loopback_unfold)
next
  case False
  let ?v4 = "if starts_with (js ''::ffff:'') host then drop 7 host else host"
  have seven: "length (js ''::ffff:'') = 7" by (simp add: js_def)
  have v4: "(host = s \<or> host = js ''::ffff:'' @ s) \<longleftrightarrow> ?v4 = s" if "colon \<notin> set s" for s
  proof -
    have "starts_with (js ''::ffff:'') host \<longleftrightarrow> host = js ''::ffff:'' @ drop 7 host"
      by (metis append_take_drop_id append_eq_conv_conj seven starts_with_def)
    moreover have "colon \<in> set (js ''::ffff:'')" by code_simp
    ultimately show ?thesis using that seven by (auto split: if_splits) (metis Un_iff set_append)
  qed
  have nc: "colon \<notin> set (js_join dot [a, b, c, d])" if "list_all short_digits [a, b, c, d]" for a b c d
    using that short_digits_units by (auto simp: colon_def dot_def)
  have four: "(\<exists>a b c d. list_all short_digits [a, b, c, d] \<and> digits_value a = 127 \<and>
        (host = js_join dot [a, b, c, d] \<or> host = js ''::ffff:'' @ js_join dot [a, b, c, d])) \<longleftrightarrow>
      (\<exists>a b c d. list_all short_digits [a, b, c, d] \<and> digits_value a = 127 \<and> ?v4 = js_join dot [a, b, c, d])"
    using v4 [OF nc] by blast
  show ?thesis
  proof (cases "ipv4_like ?v4")
    case True
    then obtain a b c d where q: "list_all short_digits [a, b, c, d]" "?v4 = js_join dot [a, b, c, d]"
      unfolding ipv4_like_iff by blast
    have "dot \<in> set ?v4" unfolding q(2) by simp
    then have "dot \<in> set host" by (auto split: if_splits dest: in_set_dropD)
    then have "\<not> hex_denotes host gs" for gs using hex_denotes_no_dot by blast
    moreover have h: "hd (js_split dot ?v4) = a" unfolding q(2) by (rule ipv4_first [OF q(1)])
    moreover have "(\<exists>a b c d. list_all short_digits [a, b, c, d] \<and> digits_value a = 127 \<and> ?v4 = js_join dot [a, b, c, d])
        \<longleftrightarrow> digits_value a = 127" (is "?E \<longleftrightarrow> _")
    proof
      assume ?E
      then obtain a' b' c' d' where p: "list_all short_digits [a', b', c', d']" "digits_value a' = 127" "?v4 = js_join dot [a', b', c', d']"
        by blast
      have "hd (js_split dot ?v4) = a'" unfolding p(3) by (rule ipv4_first [OF p(1)])
      then show "digits_value a = 127" unfolding h using p(2) by (simp only:)
    qed (use q in blast)
    moreover have "isLoopback host \<longleftrightarrow> digits_value (hd (js_split dot ?v4)) = 127"
      unfolding loopback_unfold Let_def by (simp only: if_not_P [OF False] if_P [OF True])
    ultimately show ?thesis unfolding four using False by (simp only: h) simp
  next
    case not4: False
    then have "\<not> (list_all short_digits [a, b, c, d] \<and> digits_value a = 127 \<and> ?v4 = js_join dot [a, b, c, d])" for a b c d
      unfolding ipv4_like_iff by blast
    moreover have "isLoopback host \<longleftrightarrow> hex_denotes host (replicate 7 0 @ [1])"
      unfolding loopback_unfold Let_def by (simp only: if_not_P [OF False] if_not_P [OF not4])
    ultimately show ?thesis unfolding four using False by blast
  qed
qed

text \<open>C36: which hosts \<open>isLoopback\<close> takes for this computer: exactly the names \<open>localhost\<close> and under it, four short decimal
  groups of which the first is 127, also after \<open>::ffff:\<close>, and every spelling of the IPv6 address ::1 (its first
  seven groups zero and its last one) that has no dotted tail.  A spelling with one, like \<open>::0.0.0.1\<close>, is not
  recognised, against the source's comment that any spelling is.\<close>

theorem isLoopback_iff:
  "isLoopback host \<longleftrightarrow>
     host = js ''localhost'' \<or> ends_with (js ''.localhost'') host \<or>
     (\<exists>a b c d. list_all short_digits [a, b, c, d] \<and> digits_value a = 127 \<and>
        (host = js_join dot [a, b, c, d] \<or> host = js ''::ffff:'' @ js_join dot [a, b, c, d])) \<or>
     (ipv6_denotes host (replicate 7 0 @ [1]) \<and> dot \<notin> set host)"
  using loopback_hex unfolding hex_denotes_iff .

subsection \<open>Functions a website may call\<close>

definition step_fields :: "jsval \<Rightarrow> fields" where
  "step_fields step = (case step of VObj r \<Rightarrow> r | _ \<Rightarrow> [])"

lemma note_step_entry:
  "map_of (note_step step found) name =
     (if stepFunction step = Some name
      then Some (let (auth, off) = (case map_of found name of Some e \<Rightarrow> e | None \<Rightarrow> (False, False))
                 in (auth \<or> stepIsAuth (step_fields step), off \<or> disabled (step_fields step)))
      else map_of found name)"
  by (auto simp: note_step_def update_conv' Let_def step_fields_def split: option.splits prod.splits)

text \<open>After the steps, an entry holds what any step stamped with its name says.\<close>

lemma fold_note_step:
  "map_of (fold note_step steps found) name =
     (let own = filter (\<lambda>s. stepFunction s = Some name) steps in
      if own = [] then map_of found name
      else Some (let (auth, off) = (case map_of found name of Some e \<Rightarrow> e | None \<Rightarrow> (False, False))
                 in (auth \<or> list_ex (stepIsAuth \<circ> step_fields) own, off \<or> list_ex (disabled \<circ> step_fields) own)))"
  by (induction steps arbitrary: found) (auto simp: note_step_entry Let_def split: option.splits prod.splits)

text \<open>Declarations and API specifications only add entries.\<close>

definition adds_entry :: "found \<Rightarrow> found \<Rightarrow> bool" where
  "adds_entry found found' \<longleftrightarrow> found' = found \<or> (\<exists>n e. n \<notin> fst ` set found \<and> found' = AList.update n e found)"

lemma adds_entry_declaration: "adds_entry found (note_declaration steps raw found)"
proof (cases raw)
  case (VObj r)
  show ?thesis
  proof (cases "trimmedText (jget r (js ''name''))")
    case None
    then show ?thesis unfolding adds_entry_def note_declaration_def VObj by simp
  next
    case (Some name)
    then show ?thesis unfolding adds_entry_def note_declaration_def VObj jsval.case Some option.case Let_def
      by (cases "name \<in> fst ` set found") (simp_all only: if_True if_False, blast+)
  qed
qed (simp_all add: adds_entry_def note_declaration_def)

lemma adds_entry_api: "adds_entry found (note_api api n found)"
  unfolding adds_entry_def note_api_def by (cases "jget api n") auto

lemma adds_entry_keeps: "adds_entry found found' \<Longrightarrow> map_of found name = Some e \<Longrightarrow> map_of found' name = Some e"
proof -
  assume a: "adds_entry found found'" "map_of found name = Some e"
  then have "name \<in> fst ` set found" by (metis map_of_eq_None_iff option.distinct(1))
  then have "n \<noteq> name" if "n \<notin> fst ` set found" for n using that by blast
  then show ?thesis using a unfolding adds_entry_def by (elim disjE exE conjE) (force simp: update_conv')+
qed

lemma adds_entry_distinct: "adds_entry found found' \<Longrightarrow> distinct (map fst found) \<Longrightarrow> distinct (map fst found')"
  by (auto simp: adds_entry_def distinct_update)

lemma note_step_distinct: "distinct (map fst found) \<Longrightarrow> distinct (map fst (note_step x found))"
  unfolding note_step_def by (cases "stepFunction x") (auto simp: Let_def distinct_update split: prod.splits)

lemma fold_keeps: "(\<And>x found. adds_entry found (f x found)) \<Longrightarrow>
    map_of found name = Some e \<Longrightarrow> map_of (fold f xs found) name = Some e"
proof (induction xs arbitrary: found)
  case (Cons x xs)
  show ?case using Cons.IH [OF Cons.prems(1) adds_entry_keeps [OF Cons.prems]] by simp
qed simp

lemma fold_distinct: "(\<And>x found. distinct (map fst found) \<Longrightarrow> distinct (map fst (f x found))) \<Longrightarrow>
    distinct (map fst found) \<Longrightarrow> distinct (map fst (fold f xs found))"
  by (induction xs arbitrary: found) auto

text \<open>C37: the names \<open>packageFunctionNames\<close> offers to the website: no step stamped with one of them signs the
  visitor in, and none is disabled.\<close>

theorem called_functions_open:
  assumes "name \<in> set (packageFunctionNames pkg)" "jget pkg (js ''steps'') = VArr steps"
    and "step \<in> set steps" "stepFunction step = Some name"
  shows "\<not> stepIsAuth (step_fields step) \<and> \<not> disabled (step_fields step)"
proof -
  define declared where "declared = (case jget pkg (js ''functions'') of VArr xs \<Rightarrow> xs | _ \<Rightarrow> [])"
  define api where "api = (case jget pkg (js ''api_functions'') of VObj r \<Rightarrow> r | _ \<Rightarrow> [])"
  define found where "found = fold (note_api api) (own_keys api) (fold (note_declaration steps) declared (fold note_step steps []))"
  have "name \<in> set (map fst (filter (\<lambda>(name, auth, off). \<not> auth \<and> \<not> off) found))"
    using assms(1) unfolding packageFunctionNames_def assms(2) found_def declared_def api_def by (simp add: Let_def)
  then have "(name, False, False) \<in> set found" by auto
  moreover have "distinct (map fst found)" unfolding found_def 
    by (intro fold_distinct note_step_distinct adds_entry_distinct [OF adds_entry_api] adds_entry_distinct [OF adds_entry_declaration]) simp_all
  ultimately have e: "map_of found name = Some (False, False)" by (simp add: map_of_eq_Some_iff_distinct)
  let ?own = "filter (\<lambda>s. stepFunction s = Some name) steps"
  have "map_of (fold note_step steps []) name =
      Some (list_ex (stepIsAuth \<circ> step_fields) ?own, list_ex (disabled \<circ> step_fields) ?own)"
    using assms(3,4) by (auto simp: fold_note_step Let_def filter_empty_conv)
  then have "map_of found name = Some (list_ex (stepIsAuth \<circ> step_fields) ?own, list_ex (disabled \<circ> step_fields) ?own)"
    unfolding found_def
    by (intro fold_keeps [OF adds_entry_api] fold_keeps [OF adds_entry_declaration])
  then show ?thesis using e assms(3,4) by (auto simp: list_ex_iff)
qed

end
