(* ===== verification/Page_Package_Witnesses.thy ===== *)
theory Page_Package_Witnesses
  imports Page_Package_Safety Page_Package_Urls
begin

section \<open>A package at work\<close>

text \<open>
  The theorems on packages at a concrete one, and two inputs on which the checks do not say what their comments say.
\<close>

definition sample_step :: jsval where
  "sample_step = VObj [(js ''type'', VStr (js ''api_call'')),
     (js ''config'', VObj [(js ''url'', VStr (js ''http://{{ pos }}/api'')), (js ''function_name'', VStr (js ''go''))])]"

definition sample_fields :: fields where
  "sample_fields =
     [(js ''format'', VStr PACKAGE_FORMAT), (js ''id'', VStr (js ''a'')), (js ''name'', VStr (js ''A'')),
      (js ''steps'', VArr [sample_step]), (js ''inputs'', VObj [(js ''n'', VNull)]),
      (js ''settings'', VArr [VObj [(js ''key'', VStr (js ''pos'')), (js ''label'', VStr (js ''L''))]]),
      (js ''credentials'', VArr [VObj [(js ''key'', VStr (js ''K'')), (js ''label'', VStr (js ''L''))]])]"

lemma sample_clone: "cloneJsonValue (VObj sample_fields) [] MAX_PACKAGE_DEPTH = Inr (VObj sample_fields)"
  by (rule cloneJsonValue_id) (simp_all add: sample_fields_def sample_step_def MAX_PACKAGE_DEPTH_def)

lemma sample_bytes: "utf8Length (json_text (VObj sample_fields)) = 239"
  by code_simp

lemma sample_text: "validateText sample_fields [sample_step] [js ''K''] = Inr ()"
  by code_simp

lemma sample_checks:
  "validateSteps (jget sample_fields (js ''steps'')) = Inr [sample_step]"
  "validateUrlAuthorities sample_fields [js ''pos''] = Inr ()"
  by code_simp+

lemma sample_declares:
  "validateInputs (jget sample_fields (js ''inputs'')) = Inr [js ''n'']"
  "validateCredentials (jget sample_fields (js ''credentials'')) = Inr [js ''K'']"
  "validateSettings (jget sample_fields (js ''settings'')) [js ''n''] [js ''K''] = Inr [js ''pos'']"
  by code_simp+

lemma sample_jgets:
  "jget sample_fields (js ''format'') = VStr PACKAGE_FORMAT" "jget sample_fields (js ''id'') = VStr (js ''a'')"
  "jget sample_fields (js ''name'') = VStr (js ''A'')" "jget sample_fields (js ''version'') = VUndef"
  "jget sample_fields (js ''description'') = VUndef" "jget sample_fields (js ''entry_url'') = VUndef"
  "jget sample_fields (js ''functions'') = VUndef" "jget sample_fields (js ''api_functions'') = VUndef"
  "jget sample_fields (js ''auth_config'') = VUndef" "jget sample_fields (js ''local_network'') = VUndef"
  by (simp_all add: sample_fields_def inherited_js)

lemma sample_name: "charCount (js ''A'') = 1" "js_trim (js ''A'') = js ''A''" "PACKAGE_ID_PATTERN (js ''a'')"
  by code_simp+

lemma package_accepted: "validatePackage h (VObj sample_fields) = Inr sample_fields"
  unfolding validatePackage_def
  by (simp add: sample_clone sample_bytes sample_text sample_checks sample_declares sample_jgets sample_name optionalText_def optionalArray_def optionalObject_def
    validateLocalNetwork_def nullish_def MAX_PACKAGE_BYTES_def MAX_PACKAGE_NAME_LENGTH_def del: json_text.simps)

lemma sample_keys: "declared_settings sample_fields = [js ''pos'']"
  by code_simp

theorem accepted_package_coherent_witness: "distinct (declared_settings sample_fields) \<and> declared_settings sample_fields = [js ''pos'']"
  using accepted_package_coherent [OF package_accepted] by (intro conjI) (blast, simp add: sample_keys)

theorem accepted_urls_stay_put_witness: "js ''pos'' \<in> set (declared_settings sample_fields)"
proof -
  have "input_name (js ''pos'') = js ''pos''" by code_simp
  moreover have "js ''http://{{ pos }}/api'' \<in> set (url_strings (VObj sample_fields))" by code_simp
  moreover have "js ''http://{{ pos }}/api'' = js ''http://'' @ js ''{{'' @ js '' '' @ js ''pos'' @ js '' '' @ js ''}}'' @ js ''/api''"
    by code_simp
  moreover have "list_all is_space (js '' '')" "js ''pos'' \<noteq> []" "list_all name_unit (js ''pos'')" by code_simp+
  moreover have "length (js ''http://'') < authorityEnd (js ''http://{{ pos }}/api'')" by code_simp
  ultimately show ?thesis using accepted_urls_stay_put [OF package_accepted] by metis
qed

theorem called_functions_open_witness: "\<not> stepIsAuth (step_fields sample_step)"
proof -
  have "js ''go'' \<in> set (packageFunctionNames sample_fields)" by code_simp
  moreover have "jget sample_fields (js ''steps'') = VArr [sample_step]" by code_simp
  moreover have "stepFunction sample_step = Some (js ''go'')" by code_simp
  ultimately show ?thesis using called_functions_open [of "js ''go''" sample_fields "[sample_step]" sample_step] by simp
qed

subsection \<open>What gets past two checks\<close>

text \<open>\<open>checkLocalHost\<close> accepts \<open>127.1\<close>, \<open>0.0.0.0\<close>, the IPv4-mapped address of this computer in hexadecimal groups, and
  \<open>::0.0.0.1\<close>, a spelling of ::1 with a dotted tail.\<close>

lemma dotted_tail_is_one: "ipv6_denotes (js ''::0.0.0.1'') (replicate 7 0 @ [1])"
proof -
  let ?ds = "[js ''0'', js ''0'', js ''0'', js ''1'']"
  have t: "js_join dot ?ds = js ''0.0.0.1''" "js ''::0.0.0.1'' = colon # colon # js ''0.0.0.1''"
    "list_all octet ?ds" "digits_value (js ''0'') = 0" "digits_value (js ''1'') = 1" by code_simp+
  have "pieces_denote [js_join dot ?ds] [0, 1]"
    unfolding pieces_denote_def
    by (rule disjI2, rule exI [of _ "[]"], rule exI [of _ "js ''0''"], rule exI [of _ "js ''0''"], rule exI [of _ "js ''0''"], rule exI [of _ "js ''1''"])
      (use t in simp)
  then show ?thesis
    unfolding ipv6_denotes_def t(1)
    by (intro disjI2 exI [of _ "[]"] exI [of _ "[js ''0.0.0.1'']"] exI [of _ "[0, 1]"]) (simp add: t numeral_eq_Suc)
qed

lemma local_hosts_accepted:
  "map checkLocalHost (map js [''127.1'', ''0.0.0.0'', ''[::ffff:7f00:1]'', ''[::0.0.0.1]'']) = replicate 4 (Inr ())"
  by code_simp

text \<open>A reference to a secret that is not declared passes \<open>validateText\<close> when a line break stands before the word: the
  expression is matched against JSON text, in which the line break is two characters.\<close>

lemma secret_reference_unseen:
  "secrets (js ''{{'' @ [10] @ js ''secret:V}}'') = [js ''V'']" "text_ok [] (VStr (js ''{{'' @ [10] @ js ''secret:V}}''))"
  "\<not> text_ok [] (VStr (js ''{{ secret:V}}''))"
  by code_simp+

end
