(* ===== verification/Page_Contract_Witnesses.thy ===== *)
theory Page_Contract_Witnesses
  imports Page_Client Page_Package_Witnesses
begin

section \<open>Contracts at work\<close>

text \<open>
  The theorems on the page's contract at two concrete contracts: one with the bundled package of
  \<open>Page_Package_Witnesses\<close>, one with a package linked in token mode that declares nine settings.
\<close>

subsection \<open>A bundled package\<close>

definition contract_fields :: "jsval \<Rightarrow> jsval list \<Rightarrow> fields" where
  "contract_fields pkg fns =
     [(js ''format'', VStr CONTRACT_FORMAT), (js ''generated_at'', VStr (js ''d'')), (js ''generator'', VStr (js ''g'')),
      (js ''packages'', VArr [pkg]), (js ''functions'', VArr fns)]"

definition function_value :: "string \<Rightarrow> jsval" where
  "function_value key =
     VObj [(js ''key'', VStr (js key)), (js ''description'', VStr (js ''D'')), (js ''package'', VStr (js ''a'')),
       (js ''inputs'', VArr []), (js ''outputs'', VArr []), (js ''writes'', VBool False), (js ''local_network'', VArr [])]"

definition plain_function :: "string \<Rightarrow> writ_function" where
  "plain_function key =
     \<lparr>wc_key = js key, wc_description = js ''D'', wc_package = js ''a'', wc_function = None, wc_inputs = [], wc_outputs = [],
      wc_writes = False, wc_local_network = [], wc_settings = None, wc_mode = None, wc_cloud = None\<rparr>"

definition contract_with :: "fields \<Rightarrow> writ_function list \<Rightarrow> writ_contract" where
  "contract_with pkg fns =
     \<lparr>wn_generated_at = js ''d'', wn_generator = js ''g'', wn_publisher = None, wn_functions = fns, wn_packages = [pkg]\<rparr>"

lemma contract_jgets:
  "jget (contract_fields pkg fns) (js ''format'') = VStr CONTRACT_FORMAT"
  "jget (contract_fields pkg fns) (js ''generated_at'') = VStr (js ''d'')"
  "jget (contract_fields pkg fns) (js ''generator'') = VStr (js ''g'')"
  "jget (contract_fields pkg fns) (js ''publisher'') = VUndef"
  "jget (contract_fields pkg fns) (js ''packages'') = VArr [pkg]"
  "jget (contract_fields pkg fns) (js ''functions'') = VArr fns"
  by (simp_all add: contract_fields_def inherited_js)

lemma contract_accepted:
  assumes "validate_either api (VObj pkg) = Inr pkg" "fns \<noteq> []"
    and "fold_res (contract_function_entry [pkg]) fns [] = Inr cfs" "Page_Contract.checkNamespaces (map wc_key cfs) = Inr ()"
  shows "Page_Contract.validateContract api (\<lambda>_. True) (VObj (contract_fields (VObj pkg) fns)) = Inr (contract_with pkg cfs)"
proof -
  have "js_trim (js ''g'') \<noteq> []" by code_simp
  then show ?thesis
    using assms by (simp add: Page_Contract.validateContract_def contract_jgets contract_package_def contract_publisher_def nullish_def
      contract_with_def)
qed

lemma formats_differ: "PACKAGE_FORMAT \<noteq> LINKED_PACKAGE_FORMAT"
  by code_simp

lemma bundled_accepted: "validate_either None (VObj sample_fields) = Inr sample_fields"
  by (simp add: validate_either_def isLinkedPackage_def sample_jgets package_accepted formats_differ)

lemma short_keys:
  "FUNCTION_KEY_PATTERN (js ''p'')" "FUNCTION_KEY_PATTERN (js ''q'')"
  "list_all (\<lambda>s. s \<noteq> [] \<and> s \<notin> set RESERVED_SEGMENTS) (segments (js ''p''))"
  "list_all (\<lambda>s. s \<noteq> [] \<and> s \<notin> set RESERVED_SEGMENTS) (segments (js ''q''))"
  by code_simp+

lemma plain_function_accepted:
  assumes "package_id pkg = js ''a''" "selectPackageFunction (function_names pkg) VUndef = Inr None" "FUNCTION_KEY_PATTERN (js key)"
    and "list_all (\<lambda>s. s \<noteq> [] \<and> s \<notin> set RESERVED_SEGMENTS) (segments (js key))"
  shows "validateContractFunction (function_value key) [pkg] = Inr (plain_function key)"
  using assms by (simp add: validateContractFunction_def function_value_def plain_function_def validateContractInputs_def strings_def
    inherited_js nullish_def)

lemma bundled_names: "selectPackageFunction (function_names sample_fields) VUndef = Inr None"
  by code_simp

lemma bundled_function: "fold_res (contract_function_entry [sample_fields]) [function_value ''p''] [] = Inr [plain_function ''p'']"
  using plain_function_accepted [OF _ bundled_names short_keys(1,3)]
  by (simp add: contract_function_entry_def package_id_def sample_jgets plain_function_def)


definition bundled_contract :: jsval where
  "bundled_contract = VObj (contract_fields (VObj sample_fields) [function_value ''p''])"

lemma bundled_contract_accepted:
  "Page_Contract.validateContract None (\<lambda>_. True) bundled_contract = Inr (contract_with sample_fields [plain_function ''p''])"
proof -
  have "Page_Contract.checkNamespaces (map wc_key [plain_function ''p'']) = Inr ()" by code_simp
  then show ?thesis unfolding bundled_contract_def
    by (intro contract_accepted bundled_accepted bundled_function) simp_all
qed

definition bundled_options :: jsval where
  "bundled_options = VObj [(js ''settings'', VObj [(js ''p'', VObj [(js ''pos'', VStr (js '' h''))])])]"

lemma bundled_suggestions:
  "suggestionsByPackage (contract_with sample_fields [plain_function ''p'']) (\<lambda>_. Inr ()) (VObj [(js ''p'', VObj [(js ''pos'', VStr (js '' h''))])]) =
     Inr ([(js ''a'', [(js ''pos'', js ''h'')])], [js ''p''])"
  by code_simp

lemma bundled_requests:
  "contractFunctions None (\<lambda>_. True) bundled_contract bundled_options =
     Inr (contractRequests (contract_with sample_fields [plain_function ''p'']) [(js ''a'', [(js ''pos'', js ''h'')])])"
  unfolding contractFunctions_def bundled_contract_accepted
  by (simp add: bundled_options_def bundled_suggestions nullish_def)

theorem contract_connects_witness:
  "validateFunctionRequests None (VArr (map request_value
     (contractRequests (contract_with sample_fields [plain_function ''p'']) [(js ''a'', [(js ''pos'', js ''h'')])]))) =
   Inr (contractRequests (contract_with sample_fields [plain_function ''p'']) [(js ''a'', [(js ''pos'', js ''h'')])])"
proof (rule contract_connects [OF bundled_requests])
  show "wf_val bundled_options" by (simp add: bundled_options_def)
  have "package_of (contract_with sample_fields [plain_function ''p'']) (plain_function ''p'') = sample_fields"
    by (simp add: package_of_def contract_with_def plain_function_def package_id_def sample_jgets)
  then show "\<forall>r \<in> set (contractRequests (contract_with sample_fields [plain_function ''p'']) [(js ''a'', [(js ''pos'', js ''h'')])]).
      \<forall>pkg. fr_package r = Some pkg \<longrightarrow> isLinkedPackage (VObj pkg) \<longrightarrow> length (packageSettings pkg) \<le> MAX_SUGGESTED_SETTINGS"
    by (simp add: contractRequests_def contractRequest_def contract_with_def Let_def isLinkedPackage_def sample_jgets formats_differ)
qed


subsection \<open>A linked package\<close>

definition publication_id :: jsstring where "publication_id = js ''pub_aaaaaaaaaaaaaaaaaaaaaa''"

definition publishable_key :: jsstring where "publishable_key = js ''wpk_aaaaaaaaaaaaaaaaaaaaaaaaaaaaaaaa''"

definition manifest_hash :: jsstring where
  "manifest_hash = js ''0000000000000000000000000000000000000000000000000000000000000000''"

definition setting_value :: "string \<Rightarrow> jsval" where
  "setting_value key = VObj [(js ''key'', VStr (js key)), (js ''label'', VStr (js ''L''))]"

definition manifest_fields :: fields where
  "manifest_fields =
     [(js ''format'', VStr MANIFEST_FORMAT), (js ''publication'', VStr publication_id),
      (js ''functions'', VArr [VObj [(js ''name'', VNull), (js ''inputs'', VArr []), (js ''outputs'', VArr []), (js ''writes'', VBool False)]]),
      (js ''settings'', VArr (map setting_value [''a'', ''b'', ''c'', ''d'', ''e'', ''f'', ''g'', ''h'', ''i'']))]"

definition linked_fields :: fields where
  "linked_fields =
     [(js ''format'', VStr LINKED_PACKAGE_FORMAT), (js ''id'', VStr (js ''a'')), (js ''name'', VStr (js ''A'')),
      (js ''publication'', VObj [(js ''id'', VStr publication_id)]), (js ''key'', VStr publishable_key),
      (js ''access'', VStr (js ''token'')), (js ''manifest'', VObj manifest_fields),
      (js ''manifest_hash'', VStr manifest_hash)]"

lemma linked_jgets:
  "jget linked_fields (js ''format'') = VStr LINKED_PACKAGE_FORMAT" "jget linked_fields (js ''id'') = VStr (js ''a'')"
  "jget linked_fields (js ''name'') = VStr (js ''A'')" "jget linked_fields (js ''publication'') = VObj [(js ''id'', VStr publication_id)]"
  "jget linked_fields (js ''key'') = VStr publishable_key"
  "jget linked_fields (js ''access'') = VStr (js ''token'')" "jget linked_fields (js ''publisher'') = VUndef"
  "jget linked_fields (js ''manifest'') = VObj manifest_fields"
  "jget linked_fields (js ''manifest_hash'') = VStr manifest_hash"
  by (simp_all add: linked_fields_def inherited_js)

lemma linked_patterns:
  "PUBLICATION_ID_PATTERN publication_id" "PUBLISHABLE_KEY_PATTERN publishable_key"
  "MANIFEST_HASH_PATTERN manifest_hash" "js ''token'' \<in> set LINKED_ACCESS_MODES"
  by code_simp+

lemma linked_manifest: "validateManifest (VObj manifest_fields) publication_id = Inr ()"
  by code_simp

lemma linked_clone: "cloneJsonValue (VObj linked_fields) [] MAX_PACKAGE_DEPTH = Inr (VObj linked_fields)"
  by (rule cloneJsonValue_id) (simp_all add: linked_fields_def manifest_fields_def setting_value_def MAX_PACKAGE_DEPTH_def)

lemma linked_bytes: "utf8Length (json_text (VObj linked_fields)) = 623"
  by code_simp

lemma linked_accepted: "validate_either None (VObj linked_fields) = Inr linked_fields"
proof -
  have "validateLinkedPackage None (VObj linked_fields) = Inr linked_fields"
    unfolding validateLinkedPackage_def Let_def
    by (simp add: linked_clone linked_bytes linked_jgets linked_patterns linked_manifest sample_name nullish_def publisher_ok_def
      version_ok_def inherited_js MAX_PACKAGE_BYTES_def MAX_PACKAGE_NAME_LENGTH_def del: json_text.simps)
  then show ?thesis by (simp add: validate_either_def isLinkedPackage_def linked_jgets)
qed

lemma linked_names: "selectPackageFunction (function_names linked_fields) VUndef = Inr None"
  by code_simp

lemma linked_functions:
  "fold_res (contract_function_entry [linked_fields]) [function_value ''p'', function_value ''q''] [] = Inr [plain_function ''p'', plain_function ''q'']"
  using plain_function_accepted [OF _ linked_names short_keys(1,3)] plain_function_accepted [OF _ linked_names short_keys(2,4)]
  by (simp add: contract_function_entry_def package_id_def linked_jgets plain_function_def)

definition linked_contract :: jsval where
  "linked_contract = VObj (contract_fields (VObj linked_fields) [function_value ''p'', function_value ''q''])"

lemma linked_contract_accepted:
  "Page_Contract.validateContract None (\<lambda>_. True) linked_contract = Inr (contract_with linked_fields [plain_function ''p'', plain_function ''q''])"
proof -
  have "Page_Contract.checkNamespaces (map wc_key [plain_function ''p'', plain_function ''q'']) = Inr ()" by code_simp
  then show ?thesis unfolding linked_contract_def
    by (intro contract_accepted linked_accepted linked_functions) simp_all
qed


abbreviation "linked_clean \<equiv> contract_with linked_fields [plain_function ''p'', plain_function ''q'']"

lemma linked_access: "linkedAccessOfContract linked_clean = [(js ''p'', LinkedToken), (js ''q'', LinkedToken)]"
  by (simp add: linkedAccessOfContract_def contract_with_def package_of_def plain_function_def package_id_def linked_jgets
    isLinkedPackage_def package_access_def)

theorem client_calls_bring_tokens_witness:
  "\<exists>tree m. createWritClient None (\<lambda>_. True) True (Some 1) linked_contract \<lparr>lo_getRunToken = NoSource, lo_recipeCache = VUndef\<rparr> = Inr (Some tree) \<and>
     tree_get [js ''p''] tree = Some m \<and>
     (\<forall>cfg disconnected inputs given init. method_call cfg disconnected m inputs given = Inr init \<and> ci_error init = None \<longrightarrow>
       (carries_token init \<longleftrightarrow> lc_access cfg (js ''p'') = Some LinkedToken \<or> \<not> null_token given))"
proof -
  obtain t where t: "createWritClient None (\<lambda>_. True) True (Some 1) linked_contract \<lparr>lo_getRunToken = NoSource, lo_recipeCache = VUndef\<rparr> = Inr t"
    by (simp add: createWritClient_def linked_contract_accepted validateLinkedOptions_def validateRecipeCache_def nullish_def
      requireRunTokens_def Let_def)
  have p: "plain_function ''p'' \<in> set (wn_functions linked_clean)" "segments (wc_key (plain_function ''p'')) = [js ''p'']"
    "map_of (linkedAccessOfContract linked_clean) (wc_key (plain_function ''p'')) = Some LinkedToken"
    unfolding linked_access by (simp_all add: contract_with_def plain_function_def segments_def js_split_single) code_simp
  have "wc_key (plain_function ''p'') = js ''p''" by (simp add: plain_function_def)
  then show ?thesis
    using client_calls_bring_tokens [OF t] p t linked_contract_accepted by auto
qed

subsection \<open>More settings than connect() takes\<close>

definition suggested :: "string list \<Rightarrow> jsval" where
  "suggested names = VObj (map (\<lambda>n. (js n, VStr (js ''1''))) names)"

definition nine :: setting_values where
  "nine = map (\<lambda>n. (js n, js ''1'')) [''a'', ''b'', ''c'', ''d'', ''e'', ''f'', ''g'', ''h'', ''i'']"

definition linked_options :: jsval where
  "linked_options = VObj [(js ''settings'', VObj [(js ''p'', suggested [''a'', ''b'', ''c'', ''d'', ''e'']),
     (js ''q'', suggested [''f'', ''g'', ''h'', ''i''])])]"

lemma linked_suggestions:
  "suggestionsByPackage linked_clean (\<lambda>_. Inr ())
     (VObj [(js ''p'', suggested [''a'', ''b'', ''c'', ''d'', ''e'']), (js ''q'', suggested [''f'', ''g'', ''h'', ''i''])]) =
   Inr ([(js ''a'', nine)], [js ''p'', js ''q''])"
  by code_simp

lemma nine_refused: "validateSuggestedSettings (settings_value nine) pkg = Inl input_invalid"
  by (simp add: validateSuggestedSettings_def settings_value_def nine_def MAX_SUGGESTED_SETTINGS_def guard_def)

lemma first_request: "validate_request None (request_value (contractRequest linked_clean [(js ''a'', nine)] (plain_function ''p''))) no_requests = Inl input_invalid"
proof -
  let ?r = "contractRequest linked_clean [(js ''a'', nine)] (plain_function ''p'')"
  have pkg: "package_of linked_clean (plain_function ''p'') = linked_fields"
    by (simp add: package_of_def contract_with_def plain_function_def package_id_def linked_jgets)
  have d: "consentDescription (js ''D'') n k = js ''D''" "trimmed (js ''D'')" "FUNCTION_KEY_PATTERN (js ''p'')" for n k
  proof -
    have "js_trim (js ''D'') = js ''D''" "charCount (js ''D'') = 1" by code_simp+
    then show "consentDescription (js ''D'') n k = js ''D''" by (simp add: consentDescription_def MAX_DESCRIPTION_LENGTH_def)
  qed code_simp+
  have f: "fr_key ?r = js ''p''" "fr_description ?r = js ''D''" "fr_writes ?r = Some False" "fr_package ?r = Some linked_fields"
    "fr_function ?r = None" "fr_settings ?r = Some nine"
    by (simp_all add: contractRequest_def pkg Let_def d package_id_def linked_jgets) (simp_all add: plain_function_def d nine_def)
  have p: "request_package None (request_fields ?r) [] = Inr (Some (linked_fields, None))"
    unfolding request_package_def jget_request f by (simp add: linked_accepted linked_names)
  show ?thesis
    unfolding validate_request_def request_value_fields of_simps req_simps res_bind_simps jget_request f no_requests_def request_state.simps p Let_def
    by (simp add: validateFunctionKey_def d trimmedText_trimmed request_match_def request_settings_def nine_refused MAX_DESCRIPTION_LENGTH_def)
      (simp add: settings_value_def nullish_def)
qed

text \<open>C33: a contract whose linked package declares more than eight settings: \<open>contractFunctions\<close> accepts suggestions for
  two of its keys, eight at most for each, and answers requests that \<open>connect()\<close> refuses, because the requests carry
  the values of both.\<close>

theorem suggestions_refused_by_connect:
  "\<exists>rs. contractFunctions None (\<lambda>_. True) linked_contract linked_options = Inr rs \<and>
     validateFunctionRequests None (VArr (map request_value rs)) = Inl input_invalid"
proof (intro exI conjI)
  show "contractFunctions None (\<lambda>_. True) linked_contract linked_options = Inr (contractRequests linked_clean [(js ''a'', nine)])"
    unfolding contractFunctions_def linked_contract_accepted by (simp add: linked_options_def linked_suggestions nullish_def)
  have "contractRequests linked_clean [(js ''a'', nine)] =
      contractRequest linked_clean [(js ''a'', nine)] (plain_function ''p'') # [contractRequest linked_clean [(js ''a'', nine)] (plain_function ''q'')]"
    by (simp add: contractRequests_def contract_with_def)
  then show "validateFunctionRequests None (VArr (map request_value (contractRequests linked_clean [(js ''a'', nine)]))) = Inl input_invalid"
    by (simp add: validateFunctionRequests_def first_request)
qed

end
