(* ===== verification/Spec2Isabelle.thy ===== *)
theory Spec2Isabelle
  imports Bridge_Witnesses Client_Witnesses Page_Witnesses Page_Bridge_Witnesses Page_Contract_Witnesses
begin

text \<open>
  A verification development of the Writ SDKs (TypeScript parts of the repository).

  Writ lets a web site run functions on its users' own computers.  A site's server embeds the server
  bridge (\<open>server-node/src\<close>); a page of the site uses the page library (\<open>web/src\<close>) to talk to the visitor's
  Writ and to the site's server.  The server queues a command for a user (\<open>bridge.ts\<close>, \<open>store.ts\<close>), one of the
  user's pages polls it (\<open>channel.ts\<close> on the server, \<open>bridge-channel.ts\<close> on the page), the user's computer runs
  it (\<open>client.ts\<close>, \<open>call.ts\<close>) and answers with a receipt it signs (\<open>receipt.ts\<close>), and the server accepts the
  answer only if the receipt binds it to the call (\<open>verify.ts\<close>, \<open>tokens.ts\<close>, \<open>canonical.ts\<close>).  Functions may also
  run on Writ Cloud (\<open>cloud.ts\<close>).  Apart from it, the agent client (\<open>typescript/src\<close>) calls a Writ agent or Writ
  Cloud over HTTP.

  Theories, in the order of their imports.

  Shared.
  \<^item> \<open>Prelude\<close>: strings as lists of 16-bit code units, bytes, results as sums (\<open>Inl\<close> the error), the loops
    that stop at the first error, \<open>split\<close> and \<open>join\<close>.
  \<^item> \<open>Js_Value\<close>: numbers (a finite number is its shortest decimal), values of type \<open>unknown\<close> as trees,
    property reads including what \<open>Object.prototype\<close> contributes.
  \<^item> \<open>Json_Text\<close>, \<open>Json_Round_Trip\<close>: \<open>JSON.stringify\<close> and \<open>JSON.parse\<close>; parsing the canonical text gives the value
    back, so equal canonical bytes mean equal values.
  \<^item> \<open>Encodings\<close>: UTF-8 with replacement characters, strict base64url, and their inverses.

  The server bridge (\<open>server-node/src\<close>).
  \<^item> \<open>Bridge_Errors\<close> (\<open>errors.ts\<close>), \<open>Bridge_Json\<close> (\<open>json.ts\<close>), \<open>Bridge_Constants\<close> (\<open>constants.ts\<close>).
  \<^item> \<open>Canonical\<close>, \<open>Canonical_Bytes\<close> (\<open>canonical.ts\<close>): \<open>canonicalJson\<close> as the total function \<open>canon\<close> on the
    values it accepts (\<open>emittable\<close>); \<open>Canonical_Unique\<close>: equal texts mean equal text member by member, for any numbers.
  \<^item> \<open>Tokens\<close> (\<open>tokens.ts\<close>), \<open>Run_Token\<close> (\<open>run-token.ts\<close>): signed tokens.  HMAC, SHA-256 and Ed25519 are
    the fields of a parameter record \<open>crypto\<close>.
  \<^item> \<open>Contract\<close> (\<open>contract.ts\<close>): validation of the contract file, of a call's inputs, the tree of methods.
  \<^item> \<open>Receipt\<close> (\<open>receipt.ts\<close>), \<open>Verify\<close> (\<open>verify.ts\<close>): a receipt's shape and signature, and what it must
    match to answer a call.  A check that awaits the server's device hook is two functions, before the hook and after
    it, with the store of other requests in between, so that checks overlap; \<open>Page_Channel\<close> and \<open>Bridge\<close> take a hook to
    answer at once.
  \<^item> \<open>Store_Laws\<close>: the interfaces of the store as locales; \<open>Bridge_Store\<close> (\<open>store.ts\<close>): the memory store as a
    record of its maps, one function per operation, \<open>run\<close> the sequences of operations; it interprets the
    locales.  \<open>line\<close> is what the commands of a user have to be: a line that \<open>enqueue\<close> lengthens at its end and
    \<open>requeue\<close> at its front.
  \<^item> \<open>Cloud_Run\<close> (\<open>cloud.ts\<close>): dispatch and polling, the network and the clock as explicit observations.
  \<^item> \<open>Page_Channel\<close> (\<open>channel.ts\<close>): one function per request handler, and \<open>channel_step\<close>, the bridge serving
    requests while runs are under way.
  \<^item> \<open>Bridge\<close> (\<open>bridge.ts\<close>): \<open>createWritBridge\<close> and the calls of \<open>forUser\<close>, on the user's computer or Writ Cloud.
  \<^item> \<open>Samples\<close>, \<open>Witnesses\<close>, \<open>Bridge_Witnesses\<close>: one call from end to end with concrete values, and each property
    applied to it.

  The agent client (\<open>typescript/src\<close>).
  \<^item> \<open>Retry\<close> (\<open>retry.ts\<close>), \<open>Sse\<close> (\<open>sse.ts\<close>), \<open>Webhook\<close> (\<open>webhook.ts\<close>), \<open>Api_Errors\<close> (\<open>errors.ts\<close>), \<open>Discovery\<close>
    (\<open>discovery.ts\<close>), \<open>Http_Client\<close> (\<open>http.ts\<close>); \<open>Client_Witnesses\<close> applies their properties.

  The page library (\<open>web/src\<close>).
  \<^item> \<open>Web_Errors\<close> (\<open>errors.ts\<close>), \<open>Visitor_Channel\<close>, \<open>Visitor_Waits\<close> (\<open>bridge-channel.ts\<close>): the page's side of the
    channel, one function per callback, and the invariants of any interleaving of callbacks.
  \<^item> \<open>Visitor_Call\<close> (\<open>call.ts\<close>, \<open>receipt.ts\<close>): the router and the calls that share its listener; each callback
    is a function on the record \<open>client\<close>.  \<open>Visitor_Call_Changes\<close> states what a callback may change,
    \<open>Visitor_Call_Safety\<close> proves the invariant of every history and that every call settles.
  \<^item> \<open>Page_Tokens\<close> (\<open>run-token.ts\<close>): the cache of run tokens, and reading a token's expiry.
  \<^item> \<open>Page_Session\<close> (\<open>validate.ts\<close>, \<open>linked.ts\<close>, \<open>client.ts\<close>): what a session checks and sends for a call, and the
    session over its calls; \<open>Page_Session_Safety\<close>: which requests it makes.  \<open>Page_Witnesses\<close> applies these
    properties.
  \<^item> \<open>Page_Bridge\<close> (\<open>bridge.ts\<close>): the runtime of the page's bridge, which routes each call to the visitor's Writ or to
    Writ Cloud; \<open>Page_Bridge_Safety\<close>: its invariants (slots, venues, readiness, the end); \<open>Page_Bridge_Calls\<close>: what it
    passes to a session was asked of it, and when the session takes it, and what a refresh of the grants leaves
    undone; \<open>Page_Bridge_Witnesses\<close> applies these properties.
  \<^item> \<open>Page_Package\<close> (\<open>package.ts\<close>): the checks of a workflow package, its expressions written out as functions on
    code units; \<open>Page_Package_Urls\<close>: where its URLs may point and how its declarations agree;
    \<open>Page_Package_Safety\<close>: which hosts are this computer (\<open>ipv6_denotes\<close> is the reference reading of IPv6, dotted tails included), which
    functions a website may call;
    \<open>Page_Package_Witnesses\<close> applies these properties.
  \<^item> \<open>Page_Linked\<close> (\<open>linked.ts\<close>): linked packages, their manifests, and what the page reads of a package of either
    kind; \<open>Page_Requests\<close> (\<open>validate.ts\<close>): the requests of \<open>connect()\<close>; \<open>Page_Contract\<close> (\<open>contract.ts\<close>): the contract file,
    its requests and the suggested settings; \<open>Page_Contract_Connects\<close>: the requests of a valid contract pass the checks
    of \<open>connect()\<close> unchanged; \<open>Page_Client\<close> (\<open>contract.ts\<close>): the typed client; \<open>Page_Contract_Witnesses\<close> applies these
    properties.

  Conventions.  Message texts are not modelled: an error keeps its code, the path it names and its
  details, which is what callers may branch on.  A loop that waits takes the list of what it observes
  at each turn, so it is structurally recursive, and a result \<open>None\<close> means it is still waiting; that it
  returns by its deadline is proved.  The clock is an argument, in milliseconds (an exact rational where the
  code multiplies or rounds it).  Code that runs as callbacks is one function per callback up to its next
  \<open>await\<close>, and properties hold of every sequence of callbacks, also those that the platform would not
  produce; only \<open>every_call_settles\<close> assumes of the event loop that timers fire and queued tasks run
  (\<open>loop_runs\<close>).  Functions passed in by the page are numbers, and what they answer is in the callbacks.

  Not modelled: pure I/O (sockets, HTTP servers, timers), message texts and TypeScript types that have no
  run-time effect.  Of the server bridge: the adapters to web frameworks and the Redis store, whose operations are
  Lua scripts.  Of the agent client: the thin methods per endpoint (\<open>client.ts\<close>, \<open>cloud.ts\<close>), multipart bodies and
  streams.  Of the page library: the banner, the discovery of the extension, and the requests of
  connecting and resuming (what they ask is validated in \<open>Page_Requests\<close>).  The Python, Go and Rust packages.
\<close>

end
